(* ===== verification/Ids.thy ===== *)
theory Ids
  imports Prelude
begin

text \<open>
  \<open>gonomad-proto/src/ids.rs\<close>: the three 32-byte identifiers.  The macro \<open>id_newtype!\<close> gives
  \<open>PublicKey\<close>, \<open>DeviceId\<close> and \<open>Digest\<close> the same conversions, so these are modelled once, on the
  bytes, and each newtype is a datatype of its own over them.

  The crates \<open>hex\<close> and \<open>blake3\<close> are not part of the repository: the definitions take a codec
  record and a hash function as arguments.  What the code relies on is \<open>hex_laws\<close> (decoding
  undoes encoding), and, where a statement needs it, that the hash does not collide on the
  particular inputs at hand.
\<close>

section \<open>The external codec and hash\<close>

record hex_codec =
  hex_encode :: "bytes \<Rightarrow> string"
  hex_decode :: "string \<Rightarrow> bytes option"

definition hex_laws :: "hex_codec \<Rightarrow> bool" where
  "hex_laws hx \<longleftrightarrow> (\<forall>bs. hex_decode hx (hex_encode hx bs) = Some bs)"

lemma hex_lawsD: "hex_laws hx \<Longrightarrow> hex_decode hx (hex_encode hx bs) = Some bs"
  by (simp add: hex_laws_def)

type_synonym hash_fn = "bytes \<Rightarrow> bytes"

text \<open>A concrete lower-case hexadecimal codec, used where a statement is applied to real input.\<close>

definition hex_digit :: "nat \<Rightarrow> char" where
  "hex_digit n = (if n < 10 then char_of (48 + n) else char_of (87 + n))"

definition hex_value :: "char \<Rightarrow> nat option" where
  "hex_value c = (let n = of_char c in
     if 48 \<le> n \<and> n \<le> 57 then Some (n - 48)
     else if 97 \<le> n \<and> n \<le> 102 then Some (n - 87)
     else if 65 \<le> n \<and> n \<le> 70 then Some (n - 55) else None)"

fun hex_enc :: "bytes \<Rightarrow> string" where
  "hex_enc [] = []"
| "hex_enc (b # bs) = hex_digit (unat b div 16) # hex_digit (unat b mod 16) # hex_enc bs"

fun hex_dec :: "string \<Rightarrow> bytes option" where
  "hex_dec [] = Some []"
| "hex_dec [c] = None"
| "hex_dec (c # d # cs) =
     (case (hex_value c, hex_value d, hex_dec cs) of
        (Some h, Some l, Some bs) \<Rightarrow> Some (word_of_nat (h * 16 + l) # bs)
      | _ \<Rightarrow> None)"

definition hex_crate :: hex_codec where
  "hex_crate = \<lparr>hex_encode = hex_enc, hex_decode = hex_dec\<rparr>"

lemma hex_value_digit: "n < 16 \<Longrightarrow> hex_value (hex_digit n) = Some n"
  by (auto simp: hex_value_def hex_digit_def Let_def)

lemma hex_dec_enc: "hex_dec (hex_enc bs) = Some bs"
proof (induction bs)
  case Nil
  then show ?case by simp
next
  case (Cons b bs)
  have "unat b < 16 * 16"
    by simp
  then have "unat b div 16 < 16"
    by (rule less_mult_imp_div_less)
  moreover have "unat b mod 16 < 16"
    by simp
  ultimately show ?case
    using Cons by (simp add: hex_value_digit)
qed

lemma hex_laws_crate: "hex_laws hex_crate"
  by (simp add: hex_laws_def hex_crate_def hex_dec_enc)

section \<open>Identifiers\<close>

definition ID_LEN :: nat where
  "ID_LEN = 32"

datatype parse_id_error = NotHex | WrongLength nat

text \<open>The conversions \<open>id_newtype!\<close> generates.\<close>

definition id_from_slice :: "bytes \<Rightarrow> (parse_id_error, bytes) result" where
  "id_from_slice bs = (if length bs = ID_LEN then Ok bs else Err (WrongLength (length bs)))"

definition id_from_hex :: "hex_codec \<Rightarrow> string \<Rightarrow> (parse_id_error, bytes) result" where
  "id_from_hex hx s = rbind (ok_or (hex_decode hx s) NotHex) id_from_slice"

definition id_to_hex :: "hex_codec \<Rightarrow> bytes \<Rightarrow> string" where
  "id_to_hex hx bs = hex_encode hx bs"

definition id_short :: "hex_codec \<Rightarrow> bytes \<Rightarrow> string" where
  "id_short hx bs = hex_encode hx (take 4 bs)"

definition id_serialize :: "hex_codec \<Rightarrow> bytes \<Rightarrow> string" where
  "id_serialize hx bs = id_to_hex hx bs"

definition id_deserialize :: "hex_codec \<Rightarrow> string \<Rightarrow> (parse_id_error, bytes) result" where
  "id_deserialize hx s = id_from_hex hx s"

datatype public_key = PublicKey (key_bytes: bytes)
datatype device_id = DeviceId (device_bytes: bytes)
datatype digest = Digest (digest_bytes: bytes)

text \<open>A Rust value of these types always holds exactly 32 bytes.\<close>

definition id_wf :: "bytes \<Rightarrow> bool" where
  "id_wf bs \<longleftrightarrow> length bs = ID_LEN"

lemma id_from_slice_Ok [simp]: "id_from_slice bs = Inr x \<longleftrightarrow> id_wf bs \<and> x = bs"
  by (auto simp: id_from_slice_def id_wf_def)

lemma id_from_hex_wf: "id_from_hex hx s = Inr bs \<Longrightarrow> id_wf bs"
  by (auto simp: id_from_hex_def)

lemma id_from_hex_to_hex:
  "hex_laws hx \<Longrightarrow> id_wf bs \<Longrightarrow> id_from_hex hx (id_to_hex hx bs) = Inr bs"
  by (simp add: id_from_hex_def id_to_hex_def hex_lawsD)

lemma id_from_hex_NotHex: "id_from_hex hx s = Inl NotHex \<longleftrightarrow> hex_decode hx s = None"
  by (cases "hex_decode hx s") (auto simp: id_from_hex_def id_from_slice_def)

lemma id_to_hex_inj:
  assumes "hex_laws hx" and "id_to_hex hx a = id_to_hex hx b"
  shows "a = b"
  using assms by (metis hex_lawsD id_to_hex_def option.inject)

section \<open>Derived identifiers\<close>

definition device_id_from_public_key :: "hash_fn \<Rightarrow> public_key \<Rightarrow> device_id" where
  "device_id_from_public_key h k = DeviceId (h (key_bytes k))"

definition digest_of :: "hash_fn \<Rightarrow> bytes \<Rightarrow> digest" where
  "digest_of h bs = Digest (h bs)"

text \<open>The incremental hasher is documented to hash the concatenation of what it is fed.\<close>

definition digest_of_parts :: "hash_fn \<Rightarrow> bytes list \<Rightarrow> digest" where
  "digest_of_parts h parts = Digest (h (concat parts))"

lemma digest_of_parts_eq: "digest_of_parts h parts = digest_of h (concat parts)"
  by (simp add: digest_of_parts_def digest_of_def)

lemma digest_of_eq:
  "inj_on h {a, b} \<Longrightarrow> digest_of h a = digest_of h b \<longleftrightarrow> a = b"
  by (auto simp: digest_of_def inj_on_def)

text \<open>A hash function gives 32 bytes; the constant one serves where only that matters.\<close>

definition hash32 :: "hash_fn \<Rightarrow> bool" where
  "hash32 hash \<longleftrightarrow> (\<forall>bs. id_wf (hash bs))"

definition const_hash :: hash_fn where "const_hash bs = replicate 32 5"

lemma hash32_const: "hash32 const_hash"
  by (simp add: hash32_def const_hash_def id_wf_def ID_LEN_def)

section \<open>Properties\<close>

text \<open>
  An identifier's text form round-trips and accepts nothing else: for a lawful hex codec, a
  text parses exactly to the 32 bytes its decoding gives, a text of another length is reported
  with the length it had, and the written form of an identifier parses back to it.
\<close>

theorem id_text_round_trip:
  assumes "hex_laws hx"
  shows "(id_from_hex hx s = Inr bs \<longleftrightarrow> hex_decode hx s = Some bs \<and> length bs = 32) \<and>
    (id_from_hex hx s = Inl (WrongLength n) \<longleftrightarrow>
       (\<exists>bs. hex_decode hx s = Some bs \<and> length bs = n \<and> n \<noteq> 32)) \<and>
    (length bs = 32 \<longrightarrow> id_deserialize hx (id_serialize hx bs) = Inr bs)"
  using id_from_hex_to_hex [OF assms, of bs]
  by (cases "hex_decode hx s")
    (auto simp: id_from_hex_def id_from_slice_def id_wf_def ID_LEN_def id_deserialize_def
      id_serialize_def)

theorem id_text_round_trip_witness:
  "id_deserialize hex_crate (id_serialize hex_crate (replicate 32 171)) = Inr (replicate 32 171)"
  using id_text_round_trip [OF hex_laws_crate, of _ "replicate 32 171"] by simp

end
