(* ===== verification/Store.thy ===== *)
theory Store
  imports Ids
begin

text \<open>
  \<open>gonomad-store/src/error.rs\<close> and \<open>row.rs\<close>: the store's errors, and the conversions between
  column values and domain types that every row goes through.  A column of SQLite's \<open>INTEGER\<close> is
  an \<open>int\<close>, of \<open>TEXT\<close> a \<open>string\<close>, of \<open>BLOB\<close> a \<open>byte list\<close>.  What a corrupt row is reported for is
  a constructor instead of a sentence; the driver's own error is opaque, as it is in the code.
\<close>

datatype corrupt_detail =
    NegativeColumn string int
  | ExceedsI64 string nat
  | NotDigest string parse_id_error
  | NotDeviceId string parse_id_error
  | NotPublicKey string parse_id_error
  | BadSignatureLength string nat
  | UnknownAuditResult string
  | IdMismatch device_id
  | UnknownStoredState string
  | UnknownFlag string
  | BadSchemaVersion int

datatype store_error =
    Database
  | Io string
  | Migration nat string nat
  | SchemaTooNew nat nat
  | InvalidMigrationSet string
  | StoreNotFound string string
  | AlreadyPaired device_id
  | CorruptRow string corrupt_detail
  | AuditChainBroken nat
  | CheckpointSigning string

definition u64_from_i64 :: "string \<Rightarrow> string \<Rightarrow> int \<Rightarrow> (store_error, nat) result" where
  "u64_from_i64 table column raw =
     (if raw < 0 then Err (CorruptRow table (NegativeColumn column raw)) else Ok (nat raw))"

definition i64_from_u64 :: "string \<Rightarrow> string \<Rightarrow> nat \<Rightarrow> (store_error, int) result" where
  "i64_from_u64 table column raw =
     (if raw < 2 ^ 63 then Ok (int raw) else Err (CorruptRow table (ExceedsI64 column raw)))"

definition row_digest :: "string \<Rightarrow> string \<Rightarrow> bytes \<Rightarrow> (store_error, digest) result" where
  "row_digest table column raw =
     rbind (map_err (\<lambda>e. CorruptRow table (NotDigest column e)) (id_from_slice raw))
       (\<lambda>bs. Ok (Digest bs))"

definition row_device_id ::
  "hex_codec \<Rightarrow> string \<Rightarrow> string \<Rightarrow> string \<Rightarrow> (store_error, device_id) result" where
  "row_device_id hx table column raw =
     rbind (map_err (\<lambda>e. CorruptRow table (NotDeviceId column e)) (id_from_hex hx raw))
       (\<lambda>bs. Ok (DeviceId bs))"

definition row_public_key ::
  "hex_codec \<Rightarrow> string \<Rightarrow> string \<Rightarrow> string \<Rightarrow> (store_error, public_key) result" where
  "row_public_key hx table column raw =
     rbind (map_err (\<lambda>e. CorruptRow table (NotPublicKey column e)) (id_from_hex hx raw))
       (\<lambda>bs. Ok (PublicKey bs))"

definition row_signature :: "string \<Rightarrow> string \<Rightarrow> bytes \<Rightarrow> (store_error, bytes) result" where
  "row_signature table column raw =
     (if length raw = 64 then Ok raw
      else Err (CorruptRow table (BadSignatureLength column (length raw))))"

section \<open>Tables\<close>

text \<open>
  A table with an \<open>INTEGER PRIMARY KEY\<close> is the list of its rows in key order: that is the order
  \<open>ORDER BY\<close> the key returns them in, and an insert of a key that is there fails.
\<close>

definition sql_insert :: "('r \<Rightarrow> int) \<Rightarrow> 'r \<Rightarrow> 'r list \<Rightarrow> (store_error, 'r list) result" where
  "sql_insert key r rows =
     (if key r \<in> key ` set rows then Err Database else Ok (insort_key key r rows))"

text \<open>Decoding a result set stops at the first row that does not decode.\<close>

fun decode_all :: "('r \<Rightarrow> (store_error, 'a) result) \<Rightarrow> 'r list \<Rightarrow> (store_error, 'a list) result" where
  "decode_all f [] = Ok []"
| "decode_all f (r # rs) = rbind (f r) (\<lambda>a. rbind (decode_all f rs) (\<lambda>as. Ok (a # as)))"

lemma decode_all_append:
  "decode_all f (rs @ ss) = rbind (decode_all f rs) (\<lambda>as. rbind (decode_all f ss) (\<lambda>bs. Ok (as @ bs)))"
proof (induction rs)
  case Nil
  show ?case by (cases "decode_all f ss") simp_all
next
  case (Cons r rs)
  then show ?case
    by (cases "f r"; cases "decode_all f rs"; cases "decode_all f ss") simp_all
qed

lemma decode_all_Ok: "decode_all f rs = Inr as \<longleftrightarrow> list_all2 (\<lambda>r a. f r = Inr a) rs as"
  by (induction rs arbitrary: as) (auto simp: list_all2_Cons1)

lemma insort_key_last:
  "(\<forall>x \<in> set rows. key x < key r) \<Longrightarrow> insort_key key r rows = rows @ [r]"
  by (induction rows) auto

lemma sql_insert_last:
  "(\<forall>x \<in> set rows. key x < key r) \<Longrightarrow> sql_insert key r rows = Inr (rows @ [r])"
  by (auto simp: sql_insert_def insort_key_last)

lemma u64_from_i64_Ok [simp]: "u64_from_i64 t c raw = Inr n \<longleftrightarrow> 0 \<le> raw \<and> n = nat raw"
  by (auto simp: u64_from_i64_def)

lemma i64_from_u64_Ok [simp]: "i64_from_u64 t c n = Inr raw \<longleftrightarrow> n < 2 ^ 63 \<and> raw = int n"
  by (auto simp: i64_from_u64_def)

lemma row_digest_Ok [simp]: "row_digest t c raw = Inr d \<longleftrightarrow> id_wf raw \<and> d = Digest raw"
  by (auto simp: row_digest_def)

lemma row_signature_Ok [simp]: "row_signature t c raw = Inr s \<longleftrightarrow> length raw = 64 \<and> s = raw"
  by (auto simp: row_signature_def)

lemma row_device_id_hex:
  "hex_laws hx \<Longrightarrow> id_wf bs \<Longrightarrow> row_device_id hx t c (id_to_hex hx bs) = Inr (DeviceId bs)"
  by (simp add: row_device_id_def id_from_hex_to_hex)

lemma row_public_key_hex:
  "hex_laws hx \<Longrightarrow> id_wf bs \<Longrightarrow> row_public_key hx t c (id_to_hex hx bs) = Inr (PublicKey bs)"
  by (simp add: row_public_key_def id_from_hex_to_hex)

lemma row_device_id_wf: "row_device_id hx t c raw = Inr d \<Longrightarrow> id_wf (device_bytes d)"
  by (auto simp: row_device_id_def dest: id_from_hex_wf)

lemma row_public_key_wf: "row_public_key hx t c raw = Inr k \<Longrightarrow> id_wf (key_bytes k)"
  by (auto simp: row_public_key_def dest: id_from_hex_wf)

end
