(* ===== verification/Capabilities.thy ===== *)
theory Capabilities
  imports Prelude
begin

unbundle bit_operations_syntax

text \<open>
  \<open>gonomad-proto/src/capability.rs\<close>: the eleven capabilities, their names, and the 16-bit set of
  capabilities a device holds.  The abstraction \<open>caps_of\<close> reads a bit mask as a set of
  capabilities; the locale \<open>capability_store\<close> states what any holder of capabilities promises, and
  the mask is its implementation.
\<close>

section \<open>The capabilities\<close>

datatype capability =
    FsRead | FsWrite | FsSecrets | PtySpawn | ExecAllowlisted | ExecArbitrary
  | GitRead | GitWrite | GitDangerous | AgentSpawn | PolicyWrite

definition capability_ALL :: "capability list" where
  "capability_ALL =
     [FsRead, FsWrite, FsSecrets, PtySpawn, ExecAllowlisted, ExecArbitrary,
      GitRead, GitWrite, GitDangerous, AgentSpawn, PolicyWrite]"

definition DEFAULT_GRANT :: "capability list" where
  "DEFAULT_GRANT = [FsRead, FsWrite, PtySpawn, ExecAllowlisted, GitRead, GitWrite, AgentSpawn]"

fun capability_as_str :: "capability \<Rightarrow> string" where
  "capability_as_str FsRead = ''fs:read''"
| "capability_as_str FsWrite = ''fs:write''"
| "capability_as_str FsSecrets = ''fs:secrets''"
| "capability_as_str PtySpawn = ''pty:spawn''"
| "capability_as_str ExecAllowlisted = ''exec:allowlisted''"
| "capability_as_str ExecArbitrary = ''exec:arbitrary''"
| "capability_as_str GitRead = ''git:read''"
| "capability_as_str GitWrite = ''git:write''"
| "capability_as_str GitDangerous = ''git:dangerous''"
| "capability_as_str AgentSpawn = ''agent:spawn''"
| "capability_as_str PolicyWrite = ''policy:write''"

fun capability_requires_presence :: "capability \<Rightarrow> bool" where
  "capability_requires_presence FsSecrets = True"
| "capability_requires_presence GitDangerous = True"
| "capability_requires_presence PolicyWrite = True"
| "capability_requires_presence ExecArbitrary = True"
| "capability_requires_presence _ = False"

definition is_off_by_default :: "capability \<Rightarrow> bool" where
  "is_off_by_default c \<longleftrightarrow> c \<notin> set DEFAULT_GRANT"

text \<open>The em dash of the user-facing texts, as its three UTF-8 bytes.\<close>

definition em_dash :: string where
  "em_dash = [CHR 0xE2, CHR 0x80, CHR 0x94]"

fun capability_description :: "capability \<Rightarrow> string" where
  "capability_description FsRead = ''Read files in your allowed project folders''"
| "capability_description FsWrite =
     ''Create, edit, and delete files in your allowed project folders''"
| "capability_description FsSecrets = ''Read secrets such as SSH keys and .env files''"
| "capability_description PtySpawn =
     ''Open terminals '' @ em_dash @ '' this allows running any command''"
| "capability_description ExecAllowlisted =
     ''Run commands you have pre-approved for the project''"
| "capability_description ExecArbitrary = ''Run any command through the automation API''"
| "capability_description GitRead = ''View git status, history, and diffs''"
| "capability_description GitWrite = ''Commit, push, pull, and switch branches''"
| "capability_description GitDangerous =
     ''Force push and rewrite history '' @ em_dash @ '' this can destroy work''"
| "capability_description AgentSpawn = ''Start and control AI coding agents''"
| "capability_description PolicyWrite =
     ''Change security settings and pair or remove devices''"

datatype unknown_capability = UnknownCapability string

text \<open>\<open>FromStr\<close>: the first capability of \<open>ALL\<close> with that name.\<close>

definition capability_from_str :: "string \<Rightarrow> (unknown_capability, capability) result" where
  "capability_from_str s =
     ok_or (find (\<lambda>c. capability_as_str c = s) capability_ALL) (UnknownCapability s)"

lemma set_capability_ALL [simp]: "set capability_ALL = UNIV"
proof -
  have "c \<in> set capability_ALL" for c
    by (cases c) (simp_all add: capability_ALL_def)
  then show ?thesis by blast
qed

lemma distinct_capability_ALL [simp]: "distinct capability_ALL"
  by (simp add: capability_ALL_def)

lemma capability_as_str_inj: "capability_as_str a = capability_as_str b \<longleftrightarrow> a = b"
  by (cases a; cases b) simp_all

lemma capability_from_as_str: "capability_from_str (capability_as_str c) = Inr c"
  by (cases c) (simp_all add: capability_from_str_def capability_ALL_def)

lemma capability_from_str_Inr:
  "capability_from_str s = Inr c \<longleftrightarrow> s = capability_as_str c"
proof
  assume "capability_from_str s = Inr c"
  then show "s = capability_as_str c"
    by (auto simp: capability_from_str_def find_Some_iff)
qed (simp add: capability_from_as_str)

lemma capability_from_str_Inl:
  "capability_from_str s = Inl e \<Longrightarrow> e = UnknownCapability s \<and> s \<notin> range capability_as_str"
  by (auto simp: capability_from_str_def ok_or_def find_None_iff split: option.splits)

section \<open>Declaration order\<close>

text \<open>\<open>derive(PartialOrd, Ord)\<close> orders the variants as they are declared; \<open>cap as u8\<close> is the index.\<close>

fun cap_index :: "capability \<Rightarrow> nat" where
  "cap_index FsRead = 0"
| "cap_index FsWrite = 1"
| "cap_index FsSecrets = 2"
| "cap_index PtySpawn = 3"
| "cap_index ExecAllowlisted = 4"
| "cap_index ExecArbitrary = 5"
| "cap_index GitRead = 6"
| "cap_index GitWrite = 7"
| "cap_index GitDangerous = 8"
| "cap_index AgentSpawn = 9"
| "cap_index PolicyWrite = 10"

lemma cap_index_inj [simp]: "cap_index a = cap_index b \<longleftrightarrow> a = b"
  by (cases a; cases b) simp_all

lemma cap_index_less [simp]: "cap_index c < 11"
  by (cases c) simp_all

lemma cap_index_less16 [simp]: "cap_index c < 16"
  by (cases c) simp_all

lemma map_cap_index_ALL: "map cap_index capability_ALL = [0..<11]"
  by (simp add: capability_ALL_def upt_rec)

instantiation capability :: linorder
begin

definition less_eq_capability :: "capability \<Rightarrow> capability \<Rightarrow> bool" where
  "less_eq_capability a b \<longleftrightarrow> cap_index a \<le> cap_index b"

definition less_capability :: "capability \<Rightarrow> capability \<Rightarrow> bool" where
  "less_capability a b \<longleftrightarrow> cap_index a < cap_index b"

instance
  by standard (auto simp: less_eq_capability_def less_capability_def)

end

lemma sorted_capability_ALL [simp]: "sorted capability_ALL"
  by (simp add: capability_ALL_def less_eq_capability_def)

section \<open>The capability set\<close>

type_synonym capability_set = "16 word"

definition cs_EMPTY :: capability_set where
  "cs_EMPTY = 0"

definition cs_bit :: "capability \<Rightarrow> 16 word" where
  "cs_bit c = push_bit (cap_index c) 1"

definition cs_contains :: "capability_set \<Rightarrow> capability \<Rightarrow> bool" where
  "cs_contains s c \<longleftrightarrow> s AND cs_bit c \<noteq> 0"

definition cs_with :: "capability_set \<Rightarrow> capability \<Rightarrow> capability_set" where
  "cs_with s c = s OR cs_bit c"

definition cs_without :: "capability_set \<Rightarrow> capability \<Rightarrow> capability_set" where
  "cs_without s c = s AND NOT (cs_bit c)"

text \<open>\<open>insert\<close> and \<open>remove\<close> update in place what \<open>with\<close> and \<open>without\<close> return.\<close>

definition cs_insert :: "capability_set \<Rightarrow> capability \<Rightarrow> capability_set" where
  "cs_insert s c = s OR cs_bit c"

definition cs_remove :: "capability_set \<Rightarrow> capability \<Rightarrow> capability_set" where
  "cs_remove s c = s AND NOT (cs_bit c)"

definition cs_is_empty :: "capability_set \<Rightarrow> bool" where
  "cs_is_empty s \<longleftrightarrow> s = 0"

text \<open>\<open>count_ones\<close>.\<close>

definition cs_len :: "capability_set \<Rightarrow> nat" where
  "cs_len s = length (filter (bit s) [0..<16])"

definition cs_iter :: "capability_set \<Rightarrow> capability list" where
  "cs_iter s = filter (cs_contains s) capability_ALL"

definition cs_contains_all :: "capability_set \<Rightarrow> capability_set \<Rightarrow> bool" where
  "cs_contains_all s t \<longleftrightarrow> s AND t = t"

definition cs_requires_presence :: "capability_set \<Rightarrow> bool" where
  "cs_requires_presence s \<longleftrightarrow> list_ex capability_requires_presence (cs_iter s)"

definition cs_from_iter :: "capability list \<Rightarrow> capability_set" where
  "cs_from_iter cs = foldl cs_with cs_EMPTY cs"

definition cs_default_grant :: capability_set where
  "cs_default_grant = cs_from_iter DEFAULT_GRANT"

definition cs_all :: capability_set where
  "cs_all = cs_from_iter capability_ALL"

definition cs_display :: "capability_set \<Rightarrow> string" where
  "cs_display s = join '', '' (map capability_as_str (cs_iter s))"

definition cs_debug :: "capability_set \<Rightarrow> string" where
  "cs_debug s = ''CapabilitySet['' @ join '', '' (map capability_as_str (cs_iter s)) @ '']''"

subsection \<open>The mask as a set\<close>

definition caps_of :: "capability_set \<Rightarrow> capability set" where
  "caps_of s = {c. cs_contains s c}"

text \<open>A mask built by this crate has no bit beyond the eleven capabilities.\<close>

definition cs_known :: "capability_set \<Rightarrow> bool" where
  "cs_known s \<longleftrightarrow> (\<forall>n\<in>{11..<16}. \<not> bit s n)"

lemma bit_cs_bit: "bit (cs_bit c) n \<longleftrightarrow> n = cap_index c"
proof -
  have "cap_index c < 16"
    using cap_index_less [of c] by linarith
  then show ?thesis
    by (auto simp: cs_bit_def bit_simps)
qed

lemma cs_contains_bit: "cs_contains s c \<longleftrightarrow> bit s (cap_index c)"
proof -
  have "s AND cs_bit c = 0 \<longleftrightarrow> (\<forall>n<16. bit s n \<longrightarrow> n \<noteq> cap_index c)"
    by (auto simp: bit_eq_iff [where 'a = "16 word"] bit_and_iff bit_cs_bit)
  also have "\<dots> \<longleftrightarrow> \<not> bit s (cap_index c)"
    using cap_index_less16 by blast
  finally show ?thesis
    by (simp add: cs_contains_def)
qed

lemma caps_of_bit: "c \<in> caps_of s \<longleftrightarrow> bit s (cap_index c)"
  by (simp add: caps_of_def cs_contains_bit)

lemma caps_of_EMPTY [simp]: "caps_of cs_EMPTY = {}"
  by (auto simp: caps_of_bit cs_EMPTY_def)

lemma caps_of_with [simp]: "caps_of (cs_with s c) = insert c (caps_of s)"
  by (auto simp: caps_of_bit cs_with_def bit_or_iff bit_cs_bit)

lemma caps_of_without [simp]: "caps_of (cs_without s c) = caps_of s - {c}"
proof -
  have "cap_index d < 16" for d
    using cap_index_less [of d] by linarith
  then show ?thesis
    by (auto simp: caps_of_bit cs_without_def bit_and_iff bit_not_iff bit_cs_bit)
qed

lemma cs_contains_caps_of: "cs_contains s c \<longleftrightarrow> c \<in> caps_of s"
  by (simp add: caps_of_def)

lemma cs_insert_eq: "cs_insert s c = cs_with s c"
  by (simp add: cs_insert_def cs_with_def)

lemma cs_remove_eq: "cs_remove s c = cs_without s c"
  by (simp add: cs_remove_def cs_without_def)

lemma cs_known_EMPTY [simp]: "cs_known cs_EMPTY"
  by (simp add: cs_known_def cs_EMPTY_def)

lemma cs_known_with: "cs_known s \<Longrightarrow> cs_known (cs_with s c)"
proof -
  have "n \<ge> 11 \<Longrightarrow> n \<noteq> cap_index c" for n
    using cap_index_less [of c] by linarith
  then show "cs_known s \<Longrightarrow> cs_known (cs_with s c)"
    by (simp add: cs_known_def cs_with_def bit_or_iff bit_cs_bit)
qed

lemma cs_known_without: "cs_known s \<Longrightarrow> cs_known (cs_without s c)"
  by (simp add: cs_known_def cs_without_def bit_and_iff)

lemma cs_known_cases: "cs_known s \<Longrightarrow> n < 16 \<Longrightarrow> bit s n \<Longrightarrow> n < 11"
  by (meson atLeastLessThan_iff cs_known_def leI)

lemma cs_iter_set [simp]: "set (cs_iter s) = caps_of s"
  by (simp add: cs_iter_def caps_of_def)

lemma cs_iter_distinct [simp]: "distinct (cs_iter s)"
  by (simp add: cs_iter_def)

lemma cs_iter_sorted: "sorted (cs_iter s)"
  by (simp add: cs_iter_def sorted_filter [where f = id, simplified])

lemma cs_requires_presence_iff:
  "cs_requires_presence s \<longleftrightarrow> (\<exists>c\<in>caps_of s. capability_requires_presence c)"
  by (simp add: cs_requires_presence_def list_ex_iff)

lemma cs_eq_iff: "cs_known s \<Longrightarrow> cs_known t \<Longrightarrow> s = t \<longleftrightarrow> caps_of s = caps_of t"
proof
  assume known: "cs_known s" "cs_known t" and same: "caps_of s = caps_of t"
  show "s = t"
  proof (rule bit_word_eqI)
    fix n assume "n < LENGTH(16)"
    show "bit s n = bit t n"
    proof (cases "n < 11")
      case True
      then have "n \<in> set (map cap_index capability_ALL)"
        by (simp add: map_cap_index_ALL)
      then obtain c where "n = cap_index c" by auto
      with same show ?thesis by (metis caps_of_bit)
    next
      case False
      with known \<open>n < LENGTH(16)\<close> show ?thesis
        using cs_known_cases by fastforce
    qed
  qed
qed simp

lemma cs_len_card: "cs_known s \<Longrightarrow> cs_len s = card (caps_of s)"
proof -
  assume known: "cs_known s"
  have "cs_len s = card {n. n < 16 \<and> bit s n}"
    by (simp add: cs_len_def distinct_length_filter Int_def atLeast0LessThan conj_commute)
  also have "{n. n < 16 \<and> bit s n} = cap_index ` caps_of s"
  proof
    show "{n. n < 16 \<and> bit s n} \<subseteq> cap_index ` caps_of s"
    proof
      fix n assume "n \<in> {n. n < 16 \<and> bit s n}"
      then have "n < 11" and "bit s n"
        using known cs_known_cases by auto
      then have "n \<in> set (map cap_index capability_ALL)"
        by (simp add: map_cap_index_ALL)
      with \<open>bit s n\<close> show "n \<in> cap_index ` caps_of s"
        by (auto simp: caps_of_bit)
    qed
  qed (auto simp: caps_of_bit)
  also have "card (cap_index ` caps_of s) = card (caps_of s)"
    by (rule card_image) (simp add: inj_on_def)
  finally show ?thesis .
qed

lemma cs_contains_all_iff:
  "cs_known t \<Longrightarrow> cs_contains_all s t \<longleftrightarrow> caps_of t \<subseteq> caps_of s"
proof -
  assume known: "cs_known t"
  have "cs_contains_all s t \<longleftrightarrow> (\<forall>n<16. bit t n \<longrightarrow> bit s n)"
    by (auto simp: cs_contains_all_def bit_eq_iff [where 'a = "16 word"] bit_and_iff)
  also have "\<dots> \<longleftrightarrow> (\<forall>n<11. bit t n \<longrightarrow> bit s n)"
    using known cs_known_cases by auto
  also have "\<dots> \<longleftrightarrow> (\<forall>n \<in> set (map cap_index capability_ALL). bit t n \<longrightarrow> bit s n)"
    by (simp only: map_cap_index_ALL) auto
  also have "\<dots> \<longleftrightarrow> caps_of t \<subseteq> caps_of s"
    by (auto simp: caps_of_bit subset_iff)
  finally show ?thesis .
qed

section \<open>What a holder of capabilities promises\<close>

text \<open>
  Whoever stores a grant (this bit mask, or the rows of the device store) offers an empty grant,
  adding and removing one capability and a membership test, and means a set by it.
\<close>

locale capability_store =
  fixes none :: "'s"
    and add :: "'s \<Rightarrow> capability \<Rightarrow> 's"
    and del :: "'s \<Rightarrow> capability \<Rightarrow> 's"
    and holds :: "'s \<Rightarrow> capability \<Rightarrow> bool"
    and ok :: "'s \<Rightarrow> bool"
  assumes ok_none: "ok none"
    and ok_add: "ok s \<Longrightarrow> ok (add s c)"
    and ok_del: "ok s \<Longrightarrow> ok (del s c)"
    and holds_none: "\<not> holds none c"
    and holds_add: "ok s \<Longrightarrow> holds (add s d) c \<longleftrightarrow> c = d \<or> holds s c"
    and holds_del: "ok s \<Longrightarrow> holds (del s d) c \<longleftrightarrow> c \<noteq> d \<and> holds s c"
begin

definition add_all :: "'s \<Rightarrow> capability list \<Rightarrow> 's" where
  "add_all s cs = foldl add s cs"

lemma ok_add_all: "ok s \<Longrightarrow> ok (add_all s cs)"
  unfolding add_all_def by (induction cs arbitrary: s) (auto intro: ok_add)

lemma holds_add_all: "ok s \<Longrightarrow> holds (add_all s cs) c \<longleftrightarrow> c \<in> set cs \<or> holds s c"
  unfolding add_all_def
  by (induction cs arbitrary: s) (auto simp: holds_add ok_add)

lemma granted_exactly: "holds (add_all none cs) c \<longleftrightarrow> c \<in> set cs"
  by (simp add: holds_add_all ok_none holds_none)

lemma add_then_del: "ok s \<Longrightarrow> \<not> holds (del (add s c) c) c"
  by (simp add: holds_del ok_add)

lemma del_keeps_others: "ok s \<Longrightarrow> d \<noteq> c \<Longrightarrow> holds (del s c) d = holds s d"
  by (simp add: holds_del)

end

interpretation cap_mask: capability_store cs_EMPTY cs_with cs_without cs_contains cs_known
  by unfold_locales
    (auto simp: cs_contains_caps_of cs_known_with cs_known_without)

lemma cs_from_iter_add_all: "cs_from_iter cs = cap_mask.add_all cs_EMPTY cs"
  by (simp add: cs_from_iter_def cap_mask.add_all_def)

lemma cs_known_from_iter [simp]: "cs_known (cs_from_iter cs)"
  unfolding cs_from_iter_add_all by (rule cap_mask.ok_add_all) simp

lemma caps_of_from_iter [simp]: "caps_of (cs_from_iter cs) = set cs"
  unfolding cs_from_iter_add_all caps_of_def by (auto simp: cap_mask.granted_exactly)

lemma cs_from_iter_iter: "cs_known s \<Longrightarrow> cs_from_iter (cs_iter s) = s"
  by (simp add: cs_eq_iff)

lemma cs_default_grant_not_secret:
  "c \<in> caps_of cs_default_grant \<Longrightarrow> \<not> capability_requires_presence c"
  by (cases c) (simp_all add: cs_default_grant_def DEFAULT_GRANT_def)

section \<open>Properties\<close>

text \<open>
  The bit mask is a set of capabilities.  Each operation of \<open>CapabilitySet\<close> does on the mask
  what its name says on sets, on any mask, and on masks without unknown bits equality, the length
  and the superset test are those of the sets.
\<close>

theorem capability_set_refines:
  "caps_of cs_EMPTY = {} \<and> caps_of cs_all = UNIV \<and>
   caps_of (cs_with s c) = insert c (caps_of s) \<and>
   caps_of (cs_without s c) = caps_of s - {c} \<and>
   caps_of (cs_from_iter cs) = set cs \<and> set (cs_iter s) = caps_of s \<and>
   (cs_contains s c \<longleftrightarrow> c \<in> caps_of s) \<and>
   (cs_known s \<and> cs_known t \<longrightarrow>
      (s = t \<longleftrightarrow> caps_of s = caps_of t) \<and> cs_len s = card (caps_of s) \<and>
      (cs_is_empty s \<longleftrightarrow> caps_of s = {}) \<and>
      (cs_contains_all s t \<longleftrightarrow> caps_of t \<subseteq> caps_of s) \<and> cs_from_iter (cs_iter s) = s)"
proof -
  have "cs_known s \<Longrightarrow> cs_is_empty s \<longleftrightarrow> caps_of s = {}"
    using cs_eq_iff [of s cs_EMPTY] by (simp add: cs_is_empty_def cs_EMPTY_def [symmetric])
  then show ?thesis
    by (auto simp: cs_all_def cs_contains_caps_of cs_eq_iff cs_len_card cs_contains_all_iff
        cs_from_iter_iter)
qed

theorem capability_set_refines_witness:
  "cs_len (cs_from_iter [GitRead, FsRead, GitRead]) = 2"
proof -
  have "cs_len (cs_from_iter [GitRead, FsRead, GitRead]) = card {GitRead, FsRead}"
    using capability_set_refines [of "cs_from_iter [GitRead, FsRead, GitRead]" FsRead
        "[GitRead, FsRead, GitRead]" "cs_from_iter [GitRead, FsRead, GitRead]"]
    by (simp add: insert_commute)
  also have "\<dots> = 2" by (simp add: card_insert_if)
  finally show ?thesis .
qed

text \<open>
  Every capability that is off by default or needs a fingerprint stays out of a fresh pairing:
  the default grant has no presence-gated capability, exactly the four gated ones are withheld,
  and names and capabilities determine each other.
\<close>

theorem default_grant_is_safe:
  "(\<forall>c. c \<in> caps_of cs_default_grant \<longleftrightarrow> \<not> capability_requires_presence c) \<and>
   (\<forall>c. is_off_by_default c \<longleftrightarrow> capability_requires_presence c) \<and>
   \<not> cs_requires_presence cs_default_grant \<and>
   (\<forall>s c. capability_from_str s = Inr c \<longleftrightarrow> s = capability_as_str c)"
proof -
  have gate: "c \<in> set DEFAULT_GRANT \<longleftrightarrow> \<not> capability_requires_presence c" for c
    by (cases c) (simp_all add: DEFAULT_GRANT_def)
  show ?thesis
    by (simp add: gate cs_default_grant_def is_off_by_default_def cs_requires_presence_iff
        capability_from_str_Inr)
qed

text \<open>
  A mask received from outside may have a bit beyond the eleven: it is not empty and has a
  length, although it holds no capability.
\<close>

lemma unknown_bit_counts:
  "cs_len (push_bit 11 1) = 1 \<and> \<not> cs_is_empty (push_bit 11 1) \<and> cs_iter (push_bit 11 1) = []"
  by code_simp

end
