(* ===== verification/Devices.thy ===== *)
theory Devices
  imports Store Capabilities "HOL-Library.List_Lexorder"
begin

text \<open>
  \<open>gonomad-store/src/devices.rs\<close>: the paired devices, their grants and their workspace roots.  The
  three tables are lists of rows in insertion order with the constraints of the schema written out
  (primary keys, the unique public key, the references to a device); clock readings are
  arguments, and an operation returns an error or the new database with its result.
\<close>

abbreviation (input) DEVICES_TABLE :: string where "DEVICES_TABLE \<equiv> ''devices''"

record device =
  dev_id :: device_id
  dev_key :: public_key
  dev_name :: string
  dev_model :: "string option"
  dev_paired_at :: int
  dev_last_seen :: "int option"
  dev_revoked_at :: "int option"

definition is_revoked :: "device \<Rightarrow> bool" where
  "is_revoked d \<longleftrightarrow> dev_revoked_at d \<noteq> None"

record raw_device =
  rd_id :: string
  rd_pubkey :: string
  rd_name :: string
  rd_model :: "string option"
  rd_paired_at :: int
  rd_last_seen :: "int option"
  rd_revoked_at :: "int option"

record raw_grant =
  gr_device :: string
  gr_capability :: string
  gr_granted_at :: int
  gr_granted_by :: "string option"

record raw_root =
  rt_device :: string
  rt_path :: string
  rt_added_at :: int

record devices_db =
  dv_devices :: "raw_device list"
  dv_grants :: "raw_grant list"
  dv_roots :: "raw_root list"

definition raw_device_decode :: "hash_fn \<Rightarrow> hex_codec \<Rightarrow> raw_device \<Rightarrow> (store_error, device) result" where
  "raw_device_decode hash hx r =
     rbind (row_public_key hx DEVICES_TABLE ''pubkey'' (rd_pubkey r)) (\<lambda>key.
     rbind (row_device_id hx DEVICES_TABLE ''id'' (rd_id r)) (\<lambda>i.
       if i \<noteq> device_id_from_public_key hash key then Err (CorruptRow DEVICES_TABLE (IdMismatch i))
       else Ok \<lparr>dev_id = i, dev_key = key, dev_name = rd_name r, dev_model = rd_model r,
                dev_paired_at = rd_paired_at r, dev_last_seen = rd_last_seen r,
                dev_revoked_at = rd_revoked_at r\<rparr>))"

text \<open>The texts under which identifiers are stored.\<close>

abbreviation device_hex :: "hex_codec \<Rightarrow> device_id \<Rightarrow> string" where
  "device_hex hx d \<equiv> id_to_hex hx (device_bytes d)"

abbreviation key_hex :: "hex_codec \<Rightarrow> public_key \<Rightarrow> string" where
  "key_hex hx k \<equiv> id_to_hex hx (key_bytes k)"

definition transpose_row ::
  "('r \<Rightarrow> (store_error, 'a) result) \<Rightarrow> 'r option \<Rightarrow> (store_error, 'a option) result" where
  "transpose_row f r = (case r of None \<Rightarrow> Ok None | Some x \<Rightarrow> rbind (f x) (\<lambda>a. Ok (Some a)))"

section \<open>Lookups\<close>

definition device_get ::
  "hash_fn \<Rightarrow> hex_codec \<Rightarrow> devices_db \<Rightarrow> device_id \<Rightarrow> (store_error, device option) result" where
  "device_get hash hx db d =
     transpose_row (raw_device_decode hash hx)
       (find (\<lambda>r. rd_id r = device_hex hx d) (dv_devices db))"

definition find_by_public_key ::
  "hash_fn \<Rightarrow> hex_codec \<Rightarrow> devices_db \<Rightarrow> public_key \<Rightarrow> (store_error, device option) result" where
  "find_by_public_key hash hx db k =
     transpose_row (raw_device_decode hash hx)
       (find (\<lambda>r. rd_pubkey r = key_hex hx k) (dv_devices db))"

definition find_active_by_public_key ::
  "hash_fn \<Rightarrow> hex_codec \<Rightarrow> devices_db \<Rightarrow> public_key \<Rightarrow> (store_error, device option) result" where
  "find_active_by_public_key hash hx db k =
     rbind (find_by_public_key hash hx db k) (\<lambda>found. Ok (case found of
         None \<Rightarrow> None
       | Some d \<Rightarrow> (if \<not> is_revoked d then Some d else None)))"

text \<open>\<open>ORDER BY paired_at DESC\<close>; rows with the same time stay in the order of the table.\<close>

definition newest_first :: "raw_device list \<Rightarrow> raw_device list" where
  "newest_first rows = sort_key (\<lambda>r. - rd_paired_at r) rows"

definition device_list ::
  "hash_fn \<Rightarrow> hex_codec \<Rightarrow> devices_db \<Rightarrow> (store_error, device list) result" where
  "device_list hash hx db = decode_all (raw_device_decode hash hx) (newest_first (dv_devices db))"

definition list_active ::
  "hash_fn \<Rightarrow> hex_codec \<Rightarrow> devices_db \<Rightarrow> (store_error, device list) result" where
  "list_active hash hx db =
     decode_all (raw_device_decode hash hx)
       (newest_first (filter (\<lambda>r. rd_revoked_at r = None) (dv_devices db)))"

definition device_exists :: "hex_codec \<Rightarrow> devices_db \<Rightarrow> device_id \<Rightarrow> bool" where
  "device_exists hx db d \<longleftrightarrow> find (\<lambda>r. rd_id r = device_hex hx d) (dv_devices db) \<noteq> None"

definition grant_names :: "hex_codec \<Rightarrow> devices_db \<Rightarrow> device_id \<Rightarrow> string list" where
  "grant_names hx db d =
     map gr_capability (filter (\<lambda>g. gr_device g = device_hex hx d) (dv_grants db))"

text \<open>A capability this build does not know is skipped.\<close>

definition insert_named :: "string \<Rightarrow> capability_set \<Rightarrow> capability_set" where
  "insert_named name s =
     (case capability_from_str name of Inl _ \<Rightarrow> s | Inr c \<Rightarrow> cs_insert s c)"

definition device_grants ::
  "hash_fn \<Rightarrow> hex_codec \<Rightarrow> devices_db \<Rightarrow> device_id \<Rightarrow> (store_error, capability_set) result" where
  "device_grants hash hx db d =
     rbind (device_get hash hx db d) (\<lambda>found. case found of
         None \<Rightarrow> Ok cs_EMPTY
       | Some dev \<Rightarrow>
           (if is_revoked dev then Ok cs_EMPTY
            else Ok (fold insert_named (grant_names hx db d) cs_EMPTY)))"

text \<open>\<open>ORDER BY path ASC\<close> compares bytes.\<close>

definition workspace_roots :: "hex_codec \<Rightarrow> devices_db \<Rightarrow> device_id \<Rightarrow> string list" where
  "workspace_roots hx db d =
     sort_key as_bytes (map rt_path (filter (\<lambda>r. rt_device r = device_hex hx d) (dv_roots db)))"

section \<open>Changes\<close>

definition insert_device :: "raw_device \<Rightarrow> devices_db \<Rightarrow> (store_error, devices_db) result" where
  "insert_device r db =
     (if rd_id r \<in> rd_id ` set (dv_devices db) \<or> rd_pubkey r \<in> rd_pubkey ` set (dv_devices db)
      then Err Database else Ok (db\<lparr>dv_devices := dv_devices db @ [r]\<rparr>))"

definition insert_grant :: "raw_grant \<Rightarrow> devices_db \<Rightarrow> (store_error, devices_db) result" where
  "insert_grant g db =
     (if (gr_device g, gr_capability g) \<in> (\<lambda>x. (gr_device x, gr_capability x)) ` set (dv_grants db) \<or>
         gr_device g \<notin> rd_id ` set (dv_devices db)
      then Err Database else Ok (db\<lparr>dv_grants := dv_grants db @ [g]\<rparr>))"

fun insert_grants ::
  "hex_codec \<Rightarrow> device_id \<Rightarrow> device_id option \<Rightarrow> int \<Rightarrow> capability list \<Rightarrow> devices_db \<Rightarrow>
     (store_error, devices_db) result" where
  "insert_grants hx d granted_by now [] db = Ok db"
| "insert_grants hx d granted_by now (c # cs) db =
     rbind (insert_grant
       \<lparr>gr_device = device_hex hx d, gr_capability = capability_as_str c, gr_granted_at = now,
        gr_granted_by = map_option (device_hex hx) granted_by\<rparr> db)
       (insert_grants hx d granted_by now cs)"

definition write_grants ::
  "hex_codec \<Rightarrow> devices_db \<Rightarrow> device_id \<Rightarrow> capability_set \<Rightarrow> device_id option \<Rightarrow> int \<Rightarrow>
     (store_error, devices_db) result" where
  "write_grants hx db d grants granted_by now =
     insert_grants hx d granted_by now (cs_iter grants)
       (db\<lparr>dv_grants := filter (\<lambda>g. gr_device g \<noteq> device_hex hx d) (dv_grants db)\<rparr>)"

definition device_pair ::
  "hash_fn \<Rightarrow> hex_codec \<Rightarrow> devices_db \<Rightarrow> public_key \<Rightarrow> string \<Rightarrow> string option \<Rightarrow> capability_set \<Rightarrow> int \<Rightarrow>
     (store_error, devices_db \<times> device) result" where
  "device_pair hash hx db key name model grants now =
     (let d = device_id_from_public_key hash key in
      rbind (find_by_public_key hash hx db key) (\<lambda>found. case found of
          Some existing \<Rightarrow> Err (AlreadyPaired (dev_id existing))
        | None \<Rightarrow>
            rbind (insert_device \<lparr>rd_id = device_hex hx d, rd_pubkey = key_hex hx key, rd_name = name,
                     rd_model = model, rd_paired_at = now, rd_last_seen = None,
                     rd_revoked_at = None\<rparr> db) (\<lambda>db1.
            rbind (write_grants hx db1 d grants None now) (\<lambda>db2.
              Ok (db2, \<lparr>dev_id = d, dev_key = key, dev_name = name, dev_model = model,
                        dev_paired_at = now, dev_last_seen = None, dev_revoked_at = None\<rparr>)))))"

text \<open>An \<open>UPDATE\<close> of the matching rows, and the number it reports.\<close>

definition update_devices ::
  "(raw_device \<Rightarrow> bool) \<Rightarrow> (raw_device \<Rightarrow> raw_device) \<Rightarrow> devices_db \<Rightarrow> devices_db \<times> nat" where
  "update_devices P f db =
     (db\<lparr>dv_devices := map (\<lambda>r. if P r then f r else r) (dv_devices db)\<rparr>,
      length (filter P (dv_devices db)))"

definition device_not_found :: "hex_codec \<Rightarrow> device_id \<Rightarrow> store_error" where
  "device_not_found hx d = StoreNotFound ''device'' (device_hex hx d)"

definition device_rename ::
  "hex_codec \<Rightarrow> devices_db \<Rightarrow> device_id \<Rightarrow> string \<Rightarrow> (store_error, devices_db) result" where
  "device_rename hx db d name =
     (let (db', changed) = update_devices (\<lambda>r. rd_id r = device_hex hx d) (\<lambda>r. r\<lparr>rd_name := name\<rparr>) db
      in if changed = 0 then Err (device_not_found hx d) else Ok db')"

definition touch_last_seen ::
  "hex_codec \<Rightarrow> devices_db \<Rightarrow> device_id \<Rightarrow> int \<Rightarrow> (store_error, devices_db) result" where
  "touch_last_seen hx db d now =
     (let (db', changed) =
        update_devices (\<lambda>r. rd_id r = device_hex hx d) (\<lambda>r. r\<lparr>rd_last_seen := Some now\<rparr>) db
      in if changed = 0 then Err (device_not_found hx d) else Ok db')"

definition device_revoke ::
  "hash_fn \<Rightarrow> hex_codec \<Rightarrow> devices_db \<Rightarrow> device_id \<Rightarrow> int \<Rightarrow> (store_error, devices_db \<times> bool) result" where
  "device_revoke hash hx db d now =
     (let (db', changed) =
        update_devices (\<lambda>r. rd_id r = device_hex hx d \<and> rd_revoked_at r = None)
          (\<lambda>r. r\<lparr>rd_revoked_at := Some now\<rparr>) db
      in if changed > 0 then Ok (db', True)
         else rbind (device_get hash hx db' d) (\<lambda>found. case found of
                None \<Rightarrow> Err (device_not_found hx d) | Some _ \<Rightarrow> Ok (db', False)))"

definition set_grants ::
  "hex_codec \<Rightarrow> devices_db \<Rightarrow> device_id \<Rightarrow> capability_set \<Rightarrow> device_id option \<Rightarrow> int \<Rightarrow>
     (store_error, devices_db) result" where
  "set_grants hx db d grants granted_by now =
     (if \<not> device_exists hx db d then Err (device_not_found hx d)
      else write_grants hx db d grants granted_by now)"

definition add_workspace_root ::
  "hex_codec \<Rightarrow> devices_db \<Rightarrow> device_id \<Rightarrow> string \<Rightarrow> int \<Rightarrow> (store_error, devices_db \<times> bool) result" where
  "add_workspace_root hx db d path now =
     (if \<not> device_exists hx db d then Err (device_not_found hx d)
      else if (device_hex hx d, path) \<in> (\<lambda>x. (rt_device x, rt_path x)) ` set (dv_roots db)
      then Ok (db, False)
      else Ok (db\<lparr>dv_roots := dv_roots db @
                  [\<lparr>rt_device = device_hex hx d, rt_path = path, rt_added_at = now\<rparr>]\<rparr>, True))"

definition remove_workspace_root ::
  "hex_codec \<Rightarrow> devices_db \<Rightarrow> device_id \<Rightarrow> string \<Rightarrow> devices_db \<times> bool" where
  "remove_workspace_root hx db d path =
     (db\<lparr>dv_roots := filter (\<lambda>r. \<not> (rt_device r = device_hex hx d \<and> rt_path r = path)) (dv_roots db)\<rparr>,
      filter (\<lambda>r. rt_device r = device_hex hx d \<and> rt_path r = path) (dv_roots db) \<noteq> [])"

section \<open>Well-formed tables\<close>

definition row_ok :: "hash_fn \<Rightarrow> hex_codec \<Rightarrow> raw_device \<Rightarrow> bool" where
  "row_ok hash hx r \<longleftrightarrow>
     (\<exists>k. id_wf (key_bytes k) \<and> rd_pubkey r = key_hex hx k \<and>
          rd_id r = device_hex hx (device_id_from_public_key hash k))"

definition grant_key :: "raw_grant \<Rightarrow> string \<times> string" where
  "grant_key g = (gr_device g, gr_capability g)"

definition root_key :: "raw_root \<Rightarrow> string \<times> string" where
  "root_key r = (rt_device r, rt_path r)"

definition devices_wf :: "hash_fn \<Rightarrow> hex_codec \<Rightarrow> devices_db \<Rightarrow> bool" where
  "devices_wf hash hx db \<longleftrightarrow>
     distinct (map rd_id (dv_devices db)) \<and> distinct (map rd_pubkey (dv_devices db)) \<and>
     list_all (row_ok hash hx) (dv_devices db) \<and>
     distinct (map grant_key (dv_grants db)) \<and> distinct (map root_key (dv_roots db)) \<and>
     gr_device ` set (dv_grants db) \<subseteq> rd_id ` set (dv_devices db) \<and>
     rt_device ` set (dv_roots db) \<subseteq> rd_id ` set (dv_devices db)"

lemma device_hex_inj [simp]:
  "hex_laws hx \<Longrightarrow> device_hex hx a = device_hex hx b \<longleftrightarrow> a = b"
  by (metis device_id.expand id_to_hex_inj)

lemma key_hex_inj [simp]:
  "hex_laws hx \<Longrightarrow> key_hex hx a = key_hex hx b \<longleftrightarrow> a = b"
  by (metis public_key.expand id_to_hex_inj)

lemma row_ok_decode:
  assumes "hex_laws hx" "hash32 hash" "row_ok hash hx r"
  obtains d where "raw_device_decode hash hx r = Inr d"
    and "rd_id r = device_hex hx (dev_id d)" "rd_pubkey r = key_hex hx (dev_key d)"
    and "dev_id d = device_id_from_public_key hash (dev_key d)"
    and "dev_revoked_at d = rd_revoked_at r" "dev_name d = rd_name r"
proof -
  from assms(3) obtain k where k: "id_wf (key_bytes k)" "rd_pubkey r = key_hex hx k"
      "rd_id r = device_hex hx (device_id_from_public_key hash k)"
    by (auto simp: row_ok_def)
  have "id_wf (device_bytes (device_id_from_public_key hash k))"
    using assms(2) by (simp add: hash32_def device_id_from_public_key_def)
  with assms(1) k show thesis
    by (intro that [of "\<lparr>dev_id = device_id_from_public_key hash k, dev_key = k, dev_name = rd_name r,
          dev_model = rd_model r, dev_paired_at = rd_paired_at r, dev_last_seen = rd_last_seen r,
          dev_revoked_at = rd_revoked_at r\<rparr>"])
      (simp_all add: raw_device_decode_def row_public_key_hex row_device_id_hex)
qed

lemma raw_device_decode_Ok:
  assumes "raw_device_decode hash hx r = Inr d"
  shows "dev_id d = device_id_from_public_key hash (dev_key d)" "dev_revoked_at d = rd_revoked_at r"
    "dev_name d = rd_name r" "dev_paired_at d = rd_paired_at r"
  using assms by (auto simp: raw_device_decode_def split: if_splits)

lemma find_key:
  assumes "distinct (map key xs)" "x \<in> set xs" "key x = k"
  shows "find (\<lambda>y. key y = k) xs = Some x"
  using assms by (induction xs) auto

lemma find_SomeD: "find P xs = Some x \<Longrightarrow> x \<in> set xs \<and> P x"
  by (induction xs) (auto split: if_splits)

lemma grant_key_image:
  "(a, b) \<in> grant_key ` G \<longleftrightarrow> (\<exists>g \<in> G. gr_device g = a \<and> gr_capability g = b)"
  by (auto simp: grant_key_def image_iff)

lemma root_key_image:
  "(a, b) \<in> root_key ` R \<longleftrightarrow> (\<exists>r \<in> R. rt_device r = a \<and> rt_path r = b)"
  by (auto simp: root_key_def image_iff)

section \<open>The registry the tables stand for\<close>

record reg_entry =
  re_key :: public_key
  re_revoked :: "int option"
  re_caps :: "capability set"
  re_roots :: "string set"

type_synonym registry = "device_id \<rightharpoonup> reg_entry"

definition entry_of :: "hex_codec \<Rightarrow> devices_db \<Rightarrow> raw_device \<Rightarrow> reg_entry" where
  "entry_of hx db r =
     \<lparr>re_key = PublicKey (the (hex_decode hx (rd_pubkey r))), re_revoked = rd_revoked_at r,
      re_caps = {c. (rd_id r, capability_as_str c) \<in> grant_key ` set (dv_grants db)},
      re_roots = {p. (rd_id r, p) \<in> root_key ` set (dv_roots db)}\<rparr>"

definition registry_of :: "hex_codec \<Rightarrow> devices_db \<Rightarrow> registry" where
  "registry_of hx db d =
     map_option (entry_of hx db) (find (\<lambda>r. rd_id r = device_hex hx d) (dv_devices db))"

definition reg_rights :: "registry \<Rightarrow> device_id \<Rightarrow> capability set" where
  "reg_rights reg d =
     (case reg d of None \<Rightarrow> {} | Some e \<Rightarrow> (if re_revoked e = None then re_caps e else {}))"

definition reg_active :: "registry \<Rightarrow> device_id \<Rightarrow> bool" where
  "reg_active reg d \<longleftrightarrow> (\<exists>e. reg d = Some e \<and> re_revoked e = None)"

lemma registry_of_None:
  "registry_of hx db d = None \<longleftrightarrow> device_hex hx d \<notin> rd_id ` set (dv_devices db)"
  by (auto simp: registry_of_def find_None_iff image_iff)

lemma registry_of_row:
  assumes "hex_laws hx" "devices_wf hash hx db" "r \<in> set (dv_devices db)" "rd_id r = device_hex hx d"
  shows "registry_of hx db d = Some (entry_of hx db r)"
  using find_key [of rd_id "dv_devices db" r "device_hex hx d"] assms
  by (simp add: registry_of_def devices_wf_def)

lemma registry_of_SomeE:
  assumes "registry_of hx db d = Some e"
  obtains r where "r \<in> set (dv_devices db)" "rd_id r = device_hex hx d" "e = entry_of hx db r"
    "find (\<lambda>r. rd_id r = device_hex hx d) (dv_devices db) = Some r"
  using assms that by (auto simp: registry_of_def dest: find_SomeD)

lemma entry_key:
  "hex_laws hx \<Longrightarrow> rd_pubkey r = key_hex hx k \<Longrightarrow> re_key (entry_of hx db r) = k"
  by (simp add: entry_of_def id_to_hex_def hex_lawsD)

lemma devices_wf_row: "devices_wf hash hx db \<Longrightarrow> r \<in> set (dv_devices db) \<Longrightarrow> row_ok hash hx r"
  by (simp add: devices_wf_def list_all_iff)

section \<open>Queries\<close>

lemma device_get_registry:
  assumes "hex_laws hx" "hash32 hash" "devices_wf hash hx db"
  shows "(registry_of hx db d = None \<longrightarrow> device_get hash hx db d = Inr None) \<and>
    (\<forall>e. registry_of hx db d = Some e \<longrightarrow>
       (\<exists>dev. device_get hash hx db d = Inr (Some dev) \<and> dev_id dev = d \<and> dev_key dev = re_key e \<and>
          dev_revoked_at dev = re_revoked e))"
proof (intro conjI impI allI)
  assume "registry_of hx db d = None"
  then show "device_get hash hx db d = Inr None"
    by (simp add: registry_of_def device_get_def transpose_row_def)
next
  fix e assume "registry_of hx db d = Some e"
  then obtain r where r: "r \<in> set (dv_devices db)" "rd_id r = device_hex hx d" "e = entry_of hx db r"
    "find (\<lambda>r. rd_id r = device_hex hx d) (dv_devices db) = Some r"
    by (elim registry_of_SomeE)
  obtain dev where dev: "raw_device_decode hash hx r = Inr dev" "rd_id r = device_hex hx (dev_id dev)"
    "rd_pubkey r = key_hex hx (dev_key dev)" "dev_revoked_at dev = rd_revoked_at r"
    by (rule row_ok_decode [OF assms(1,2) devices_wf_row [OF assms(3) r(1)]])
  then have "dev_key dev = re_key e"
    using assms(1) r(3) by (simp add: entry_key)
  with dev r assms(1) show "\<exists>dev. device_get hash hx db d = Inr (Some dev) \<and> dev_id dev = d \<and>
      dev_key dev = re_key e \<and> dev_revoked_at dev = re_revoked e"
    by (auto simp: device_get_def transpose_row_def entry_of_def)
qed

lemma caps_of_insert_named:
  "caps_of (fold insert_named names s) = caps_of s \<union> {c. capability_as_str c \<in> set names}"
proof (induction names arbitrary: s)
  case (Cons n names)
  have "caps_of (insert_named n s) = caps_of s \<union> {c. capability_as_str c = n}"
  proof (cases "capability_from_str n")
    case (Inl e)
    then have "{c. capability_as_str c = n} = {}"
      using capability_from_as_str by (metis (mono_tags, lifting) Inl_Inr_False empty_Collect_eq)
    with Inl show ?thesis by (simp add: insert_named_def)
  next
    case (Inr c)
    then have "{c. capability_as_str c = n} = {c}"
      by (auto simp: capability_from_str_Inr capability_as_str_inj)
    with Inr show ?thesis by (simp add: insert_named_def cs_insert_eq)
  qed
  with Cons show ?case by auto
qed simp

lemma grant_names_set:
  "n \<in> set (grant_names hx db d) \<longleftrightarrow>
     (\<exists>g \<in> set (dv_grants db). gr_device g = device_hex hx d \<and> gr_capability g = n)"
  by (auto simp: grant_names_def image_iff)

lemma device_grants_registry:
  assumes "hex_laws hx" "hash32 hash" "devices_wf hash hx db"
  obtains s where "device_grants hash hx db d = Inr s" and "caps_of s = reg_rights (registry_of hx db) d"
proof (cases "registry_of hx db d")
  case None
  with device_get_registry [OF assms, of d] that show thesis
    by (simp add: device_grants_def reg_rights_def)
next
  case (Some e)
  with device_get_registry [OF assms, of d] obtain dev where
    dev: "device_get hash hx db d = Inr (Some dev)" "dev_revoked_at dev = re_revoked e" by auto
  have "re_caps e = {c. capability_as_str c \<in> set (grant_names hx db d)}"
    using Some by (elim registry_of_SomeE) (auto simp: entry_of_def grant_names_set grant_key_image)
  with Some dev that show thesis
    by (cases "re_revoked e")
      (auto simp: device_grants_def reg_rights_def is_revoked_def caps_of_insert_named)
qed

lemma newest_first_set [simp]: "set (newest_first rows) = set rows"
  by (simp add: newest_first_def)

lemma decode_all_total:
  "(\<And>x. x \<in> set xs \<Longrightarrow> \<exists>a. f x = Inr a) \<Longrightarrow> \<exists>as. decode_all f xs = Inr as"
  by (induction xs) fastforce+

lemma decode_all_set:
  "decode_all f xs = Inr as \<Longrightarrow> a \<in> set as \<longleftrightarrow> (\<exists>x \<in> set xs. f x = Inr a)"
  by (induction xs arbitrary: as) auto

lemma list_active_registry:
  assumes "hex_laws hx" "hash32 hash" "devices_wf hash hx db"
  obtains ds where "list_active hash hx db = Inr ds"
    and "\<And>d. d \<in> dev_id ` set ds \<longleftrightarrow> reg_active (registry_of hx db) d"
    and "\<And>dev. dev \<in> set ds \<Longrightarrow> dev_id dev = device_id_from_public_key hash (dev_key dev)"
proof -
  let ?rows = "newest_first (filter (\<lambda>r. rd_revoked_at r = None) (dv_devices db))"
  have ok: "row_ok hash hx r" if "r \<in> set ?rows" for r
    using that devices_wf_row [OF assms(3)] by simp
  have dec_ok: "\<exists>a. raw_device_decode hash hx r = Inr a" if "r \<in> set ?rows" for r
    by (rule row_ok_decode [OF assms(1,2) ok [OF that]]) blast
  then obtain ds where ds: "decode_all (raw_device_decode hash hx) ?rows = Inr ds"
    using decode_all_total by blast
  then have dec: "dev \<in> set ds \<longleftrightarrow> (\<exists>r \<in> set ?rows. raw_device_decode hash hx r = Inr dev)" for dev
    by (rule decode_all_set)
  have row: "rd_id r = device_hex hx (dev_id dev)" "rd_revoked_at r = None"
    "dev_id dev = device_id_from_public_key hash (dev_key dev)" "r \<in> set (dv_devices db)"
    if r: "r \<in> set ?rows" and dec: "raw_device_decode hash hx r = Inr dev" for r dev
  proof -
    obtain d where "raw_device_decode hash hx r = Inr d" "rd_id r = device_hex hx (dev_id d)"
      by (rule row_ok_decode [OF assms(1,2) ok [OF r]])
    with dec show "rd_id r = device_hex hx (dev_id dev)" by simp
    show "dev_id dev = device_id_from_public_key hash (dev_key dev)"
      using dec by (rule raw_device_decode_Ok)
  qed (use r in simp_all)
  have "d \<in> dev_id ` set ds \<longleftrightarrow> reg_active (registry_of hx db) d" for d
  proof
    assume "d \<in> dev_id ` set ds"
    then obtain r dev where r: "r \<in> set ?rows" "raw_device_decode hash hx r = Inr dev" "dev_id dev = d"
      using dec by blast
    from registry_of_row [OF assms(1,3) row(4) [OF r(1,2)], of d] row [OF r(1,2)] r(3)
    show "reg_active (registry_of hx db) d"
      by (auto simp: reg_active_def entry_of_def)
  next
    assume "reg_active (registry_of hx db) d"
    then obtain e where e: "registry_of hx db d = Some e" "re_revoked e = None"
      by (auto simp: reg_active_def)
    from e(1) obtain r where r: "r \<in> set (dv_devices db)" "rd_id r = device_hex hx d"
      "e = entry_of hx db r" by (elim registry_of_SomeE)
    with e(2) have in_rows: "r \<in> set ?rows" by (simp add: entry_of_def)
    then obtain dev where dev: "dev \<in> set ds" "raw_device_decode hash hx r = Inr dev"
      using dec dec_ok by blast
    with row(1) [OF in_rows dev(2)] r(2) assms(1) have "dev_id dev = d" by simp
    with dev(1) show "d \<in> dev_id ` set ds" by blast
  qed
  moreover have "dev_id dev = device_id_from_public_key hash (dev_key dev)" if "dev \<in> set ds" for dev
  proof -
    from that obtain r where "raw_device_decode hash hx r = Inr dev"
      using dec by blast
    then show ?thesis by (rule raw_device_decode_Ok)
  qed
  ultimately show thesis
    using that ds by (simp add: list_active_def)
qed

section \<open>Changes of the tables\<close>

lemma find_map_same:
  assumes "\<And>r. rd_id (f r) = rd_id r"
  shows "find (\<lambda>r. rd_id r = x) (map f rows) = map_option f (find (\<lambda>r. rd_id r = x) rows)"
  by (induction rows) (simp_all add: assms)

lemma update_registry:
  assumes "\<And>r. rd_id (f r) = rd_id r" "\<And>r. rd_pubkey (f r) = rd_pubkey r"
    and "devices_wf hash hx db"
  shows "devices_wf hash hx (fst (update_devices P f db))"
    and "registry_of hx (fst (update_devices P f db)) d =
      map_option (\<lambda>r. (entry_of hx db r)\<lparr>re_revoked := rd_revoked_at (if P r then f r else r)\<rparr>)
        (find (\<lambda>r. rd_id r = device_hex hx d) (dv_devices db))"
proof -
  let ?g = "\<lambda>r. if P r then f r else r"
  have g: "rd_id (?g r) = rd_id r" "rd_pubkey (?g r) = rd_pubkey r" for r
    by (simp_all add: assms(1,2))
  have maps: "map rd_id (map ?g rows) = map rd_id rows"
    "map rd_pubkey (map ?g rows) = map rd_pubkey rows" for rows
    by (simp_all add: assms(1,2))
  have "row_ok hash hx (?g r) = row_ok hash hx r" for r
    by (simp add: row_ok_def assms(1,2))
  then have oks: "list_all (row_ok hash hx) (map ?g rows) = list_all (row_ok hash hx) rows" for rows
    by (simp add: list.pred_map comp_def)
  have ids: "rd_id ` set (map ?g rows) = rd_id ` set rows" for rows
    by (metis maps(1) list.set_map)
  show "devices_wf hash hx (fst (update_devices P f db))"
    using assms(3) unfolding devices_wf_def update_devices_def fst_conv
    by (simp add: maps oks ids del: map_map list.map_comp set_map)
  have "entry_of hx (db\<lparr>dv_devices := map ?g (dv_devices db)\<rparr>) (?g r) =
      (entry_of hx db r)\<lparr>re_revoked := rd_revoked_at (?g r)\<rparr>" for r
    by (simp add: entry_of_def g)
  then show "registry_of hx (fst (update_devices P f db)) d =
      map_option (\<lambda>r. (entry_of hx db r)\<lparr>re_revoked := rd_revoked_at (?g r)\<rparr>)
        (find (\<lambda>r. rd_id r = device_hex hx d) (dv_devices db))"
    by (simp add: registry_of_def update_devices_def find_map_same g option.map_comp comp_def
        del: if_split)
qed

definition grant_row :: "hex_codec \<Rightarrow> device_id \<Rightarrow> device_id option \<Rightarrow> int \<Rightarrow> capability \<Rightarrow> raw_grant" where
  "grant_row hx d granted_by now c =
     \<lparr>gr_device = device_hex hx d, gr_capability = capability_as_str c, gr_granted_at = now,
      gr_granted_by = map_option (device_hex hx) granted_by\<rparr>"

lemma grant_key_row [simp]:
  "grant_key (grant_row hx d by_dev now c) = (device_hex hx d, capability_as_str c)"
  "gr_device (grant_row hx d by_dev now c) = device_hex hx d"
  by (simp_all add: grant_row_def grant_key_def)

lemma insert_grants_Ok:
  assumes "distinct cs" "device_hex hx d \<in> rd_id ` set (dv_devices db)"
    and "\<forall>c \<in> set cs. (device_hex hx d, capability_as_str c) \<notin> grant_key ` set (dv_grants db)"
  shows "insert_grants hx d granted_by now cs db =
    Inr (db\<lparr>dv_grants := dv_grants db @ map (grant_row hx d granted_by now) cs\<rparr>)"
  using assms
proof (induction cs arbitrary: db)
  case (Cons c cs)
  let ?db = "db\<lparr>dv_grants := dv_grants db @ [grant_row hx d granted_by now c]\<rparr>"
  have "insert_grant (grant_row hx d granted_by now c) db = Inr ?db"
    using Cons.prems by (auto simp: insert_grant_def grant_row_def grant_key_def image_iff)
  moreover have "insert_grants hx d granted_by now cs ?db =
      Inr (?db\<lparr>dv_grants := dv_grants ?db @ map (grant_row hx d granted_by now) cs\<rparr>)"
    using Cons.prems by (intro Cons.IH) (auto simp: capability_as_str_inj)
  ultimately show ?case
    by (simp add: grant_row_def)
qed simp

lemma write_grants_registry:
  assumes "hex_laws hx" "devices_wf hash hx db" "device_hex hx d \<in> rd_id ` set (dv_devices db)"
  obtains db' where "write_grants hx db d grants granted_by now = Inr db'" "devices_wf hash hx db'"
    "registry_of hx db' =
       (registry_of hx db)(d := map_option (\<lambda>e. e\<lparr>re_caps := caps_of grants\<rparr>) (registry_of hx db d))"
proof -
  let ?others = "filter (\<lambda>g. gr_device g \<noteq> device_hex hx d) (dv_grants db)"
  let ?new = "map (grant_row hx d granted_by now) (cs_iter grants)"
  let ?db = "db\<lparr>dv_grants := ?others @ ?new\<rparr>"
  have "(device_hex hx d, capability_as_str c) \<notin> grant_key ` set ?others" for c
    by (auto simp: grant_key_def)
  then have "insert_grants hx d granted_by now (cs_iter grants) (db\<lparr>dv_grants := ?others\<rparr>) =
      Inr (db\<lparr>dv_grants := ?others @ ?new\<rparr>)"
    using insert_grants_Ok [of "cs_iter grants" hx d "db\<lparr>dv_grants := ?others\<rparr>" granted_by now] assms(3)
    by simp
  then have res: "write_grants hx db d grants granted_by now = Inr ?db"
    by (simp add: write_grants_def)
  have "distinct (map grant_key (?others @ ?new))"
  proof -
    have "distinct (map grant_key ?others)"
      using assms(2) by (simp add: devices_wf_def distinct_map_filter)
    moreover have "map grant_key ?new = map (\<lambda>c. (device_hex hx d, capability_as_str c)) (cs_iter grants)"
      by simp
    moreover have "distinct (map (\<lambda>c. (device_hex hx d, capability_as_str c)) (cs_iter grants))"
      by (auto simp: distinct_map inj_on_def capability_as_str_inj)
    moreover have "grant_key ` set ?others \<inter> grant_key ` set ?new = {}"
      by (auto simp: grant_key_def grant_row_def)
    ultimately show ?thesis
      unfolding map_append distinct_append set_map by metis
  qed
  then have wf: "devices_wf hash hx ?db"
    using assms(2,3) by (auto simp: devices_wf_def)
  have mem: "(x, capability_as_str c) \<in> grant_key ` set (?others @ ?new) \<longleftrightarrow>
      (if x = device_hex hx d then c \<in> caps_of grants
       else (x, capability_as_str c) \<in> grant_key ` set (dv_grants db))" for x c
    unfolding set_append image_Un Un_iff set_map image_image
    by (auto simp: image_iff grant_key_def grant_row_def capability_as_str_inj)
  have entry: "entry_of hx ?db r =
      (if rd_id r = device_hex hx d then (entry_of hx db r)\<lparr>re_caps := caps_of grants\<rparr> else entry_of hx db r)"
    for r
    by (simp add: entry_of_def mem del: set_append)
  have "registry_of hx ?db d' =
      ((registry_of hx db)(d := map_option (\<lambda>e. e\<lparr>re_caps := caps_of grants\<rparr>) (registry_of hx db d))) d'"
    for d'
  proof (cases "find (\<lambda>r. rd_id r = device_hex hx d') (dv_devices db)")
    case (Some r)
    then have "rd_id r = device_hex hx d'" by (blast dest: find_SomeD)
    with Some assms(1) entry [of r] show ?thesis
      by (auto simp: registry_of_def)
  qed (auto simp: registry_of_def)
  with res wf that show thesis by blast
qed

lemma device_exists_registry: "device_exists hx db d \<longleftrightarrow> registry_of hx db d \<noteq> None"
  by (auto simp: device_exists_def registry_of_def)

text \<open>Pairing succeeds exactly for a device that is not in the registry.\<close>

lemma find_by_public_key_registry:
  assumes "hex_laws hx" "hash32 hash" "devices_wf hash hx db"
  shows "(find_by_public_key hash hx db k = Inr None \<and>
      key_hex hx k \<notin> rd_pubkey ` set (dv_devices db)) \<or>
    (\<exists>dev. find_by_public_key hash hx db k = Inr (Some dev) \<and> dev_key dev = k \<and>
       dev_id dev = device_id_from_public_key hash k \<and>
       (\<exists>e. registry_of hx db (dev_id dev) = Some e \<and> re_key e = k \<and>
          re_revoked e = dev_revoked_at dev))"
proof (cases "find (\<lambda>r. rd_pubkey r = key_hex hx k) (dv_devices db)")
  case None
  moreover from None have "key_hex hx k \<notin> rd_pubkey ` set (dv_devices db)"
    by (auto simp: find_None_iff)
  ultimately show ?thesis
    by (simp add: find_by_public_key_def transpose_row_def)
next
  case (Some r)
  then have r: "r \<in> set (dv_devices db)" "rd_pubkey r = key_hex hx k"
    by (auto dest: find_SomeD)
  obtain dev where dev: "raw_device_decode hash hx r = Inr dev" "rd_id r = device_hex hx (dev_id dev)"
    "rd_pubkey r = key_hex hx (dev_key dev)" "dev_id dev = device_id_from_public_key hash (dev_key dev)"
    "dev_revoked_at dev = rd_revoked_at r"
    by (rule row_ok_decode [OF assms(1,2) devices_wf_row [OF assms(3) r(1)]])
  with r assms(1) have "dev_key dev = k" by simp
  moreover have "registry_of hx db (dev_id dev) = Some (entry_of hx db r)"
    using registry_of_row [OF assms(1,3) r(1) dev(2)] .
  moreover have "re_key (entry_of hx db r) = k"
    using assms(1) r(2) by (rule entry_key)
  ultimately show ?thesis
    using Some dev by (auto simp: find_by_public_key_def transpose_row_def entry_of_def)
qed

lemma device_pair_fresh:
  assumes "hex_laws hx" "hash32 hash" "devices_wf hash hx db" "id_wf (key_bytes key)"
    and fresh: "registry_of hx db (device_id_from_public_key hash key) = None"
  obtains db' dev where "device_pair hash hx db key name model grants now = Inr (db', dev)"
    "devices_wf hash hx db'" "dev_id dev = device_id_from_public_key hash key" "dev_key dev = key"
    "registry_of hx db' = (registry_of hx db)(device_id_from_public_key hash key \<mapsto>
       \<lparr>re_key = key, re_revoked = None, re_caps = caps_of grants, re_roots = {}\<rparr>)"
proof -
  let ?d = "device_id_from_public_key hash key"
  let ?row = "\<lparr>rd_id = device_hex hx ?d, rd_pubkey = key_hex hx key, rd_name = name,
     rd_model = model, rd_paired_at = now, rd_last_seen = None, rd_revoked_at = None\<rparr>"
  let ?db1 = "db\<lparr>dv_devices := dv_devices db @ [?row]\<rparr>"
  have no_id: "device_hex hx ?d \<notin> rd_id ` set (dv_devices db)"
    using fresh by (simp add: registry_of_None)
  have no_key: "key_hex hx key \<notin> rd_pubkey ` set (dv_devices db)"
    and none: "find_by_public_key hash hx db key = Inr None"
    using find_by_public_key_registry [OF assms(1-3), of key] fresh by auto
  have ins: "insert_device ?row db = Inr ?db1"
    using no_id no_key by (simp add: insert_device_def)
  have "row_ok hash hx ?row"
    using assms(4) by (auto simp: row_ok_def)
  then have wf1: "devices_wf hash hx ?db1"
    using assms(3) no_id no_key by (auto simp: devices_wf_def)
  have clean: "(device_hex hx ?d, x) \<notin> grant_key ` set (dv_grants db)"
    "(device_hex hx ?d, x) \<notin> root_key ` set (dv_roots db)" for x
    using assms(3) no_id unfolding devices_wf_def grant_key_image root_key_image
    by (metis image_eqI subsetD)+
  then have new: "entry_of hx ?db1 ?row =
      \<lparr>re_key = key, re_revoked = None, re_caps = {}, re_roots = {}\<rparr>"
    using assms(1) by (simp add: entry_of_def id_to_hex_def hex_lawsD)
  have old: "entry_of hx ?db1 r = entry_of hx db r" for r
    by (simp add: entry_of_def)
  have find_app: "find P (xs @ ys) = (case find P xs of None \<Rightarrow> find P ys | Some x \<Rightarrow> Some x)" for P xs ys
    by (induction xs) simp_all
  have reg1: "registry_of hx ?db1 = (registry_of hx db)(?d \<mapsto>
      \<lparr>re_key = key, re_revoked = None, re_caps = {}, re_roots = {}\<rparr>)"
  proof
    fix d'
    have "find (\<lambda>r. rd_id r = device_hex hx d') [?row] = (if d' = ?d then Some ?row else None)"
      using assms(1) by simp
    then show "registry_of hx ?db1 d' = ((registry_of hx db)(?d \<mapsto>
      \<lparr>re_key = key, re_revoked = None, re_caps = {}, re_roots = {}\<rparr>)) d'"
      using fresh new old
      by (auto simp: registry_of_def find_app split: option.split)
  qed
  have "device_hex hx ?d \<in> rd_id ` set (dv_devices ?db1)"
    by simp
  from write_grants_registry [OF assms(1) wf1 this, of grants None now] obtain db2 where
    w: "write_grants hx ?db1 ?d grants None now = Inr db2" "devices_wf hash hx db2"
    "registry_of hx db2 = (registry_of hx ?db1)(?d :=
       map_option (\<lambda>e. e\<lparr>re_caps := caps_of grants\<rparr>) (registry_of hx ?db1 ?d))" .
  then show thesis
    using that none ins reg1 by (simp add: device_pair_def)
qed

lemma device_pair_known:
  assumes "hex_laws hx" "hash32 hash" "devices_wf hash hx db"
    and "registry_of hx db (device_id_from_public_key hash key) = Some e"
  shows "device_pair hash hx db key name model grants now =
    (if re_key e = key then Inl (AlreadyPaired (device_id_from_public_key hash key)) else Inl Database)"
  using find_by_public_key_registry [OF assms(1-3), of key]
proof
  assume none: "find_by_public_key hash hx db key = Inr None \<and>
      key_hex hx key \<notin> rd_pubkey ` set (dv_devices db)"
  have id_in: "device_hex hx (device_id_from_public_key hash key) \<in> rd_id ` set (dv_devices db)"
    using assms(4) registry_of_None by (metis option.distinct(1))
  from assms(4) obtain r where r: "r \<in> set (dv_devices db)" "e = entry_of hx db r"
    by (elim registry_of_SomeE)
  have "re_key e \<noteq> key"
  proof
    assume "re_key e = key"
    moreover obtain k where "rd_pubkey r = key_hex hx k"
      using devices_wf_row [OF assms(3) r(1)] by (auto simp: row_ok_def)
    ultimately have "rd_pubkey r = key_hex hx key"
      using r(2) entry_key [OF assms(1)] by metis
    with none r(1) show False by (metis imageI)
  qed
  with none id_in show ?thesis
    by (simp add: device_pair_def insert_device_def)
next
  assume "\<exists>dev. find_by_public_key hash hx db key = Inr (Some dev) \<and> dev_key dev = key \<and>
       dev_id dev = device_id_from_public_key hash key \<and>
       (\<exists>e. registry_of hx db (dev_id dev) = Some e \<and> re_key e = key \<and>
          re_revoked e = dev_revoked_at dev)"
  with assms(4) show ?thesis
    by (auto simp: device_pair_def)
qed

lemma filter_row:
  assumes "hex_laws hx" "devices_wf hash hx db"
  shows "filter (\<lambda>r. rd_id r = device_hex hx d \<and> Q r) (dv_devices db) = [] \<longleftrightarrow>
    (case find (\<lambda>r. rd_id r = device_hex hx d) (dv_devices db) of None \<Rightarrow> True | Some r \<Rightarrow> \<not> Q r)"
proof (cases "find (\<lambda>r. rd_id r = device_hex hx d) (dv_devices db)")
  case None
  moreover from None have "filter (\<lambda>r. rd_id r = device_hex hx d \<and> Q r) (dv_devices db) = []"
    by (auto simp: filter_empty_conv find_None_iff)
  ultimately show ?thesis by simp
next
  case (Some r)
  then have r: "r \<in> set (dv_devices db)" "rd_id r = device_hex hx d" by (auto dest: find_SomeD)
  have "r' = r" if "r' \<in> set (dv_devices db)" "rd_id r' = device_hex hx d" for r'
    using that r assms(2) by (auto simp: devices_wf_def distinct_map inj_on_def)
  then have "filter (\<lambda>r. rd_id r = device_hex hx d \<and> Q r) (dv_devices db) = [] \<longleftrightarrow> \<not> Q r"
    unfolding filter_empty_conv using r by blast
  with Some show ?thesis by simp
qed

lemma device_revoke_registry:
  assumes "hex_laws hx" "hash32 hash" "devices_wf hash hx db"
  shows "case registry_of hx db d of
      None \<Rightarrow> device_revoke hash hx db d now = Inl (device_not_found hx d)
    | Some e \<Rightarrow> \<exists>db'. device_revoke hash hx db d now = Inr (db', re_revoked e = None) \<and>
        devices_wf hash hx db' \<and>
        registry_of hx db' = (registry_of hx db)(d \<mapsto>
          e\<lparr>re_revoked := (case re_revoked e of None \<Rightarrow> Some now | Some t \<Rightarrow> Some t)\<rparr>)"
proof -
  let ?P = "\<lambda>r. rd_id r = device_hex hx d \<and> rd_revoked_at r = None"
  let ?f = "\<lambda>r :: raw_device. r\<lparr>rd_revoked_at := Some now\<rparr>"
  let ?db' = "fst (update_devices ?P ?f db)"
  have upd: "devices_wf hash hx ?db'" "registry_of hx ?db' d' =
      map_option (\<lambda>r. (entry_of hx db r)\<lparr>re_revoked := rd_revoked_at (if ?P r then ?f r else r)\<rparr>)
        (find (\<lambda>r. rd_id r = device_hex hx d') (dv_devices db))" for d'
    by (rule update_registry [OF _ _ assms(3)]; simp)+
  have count: "snd (update_devices ?P ?f db) = 0 \<longleftrightarrow>
      (case registry_of hx db d of None \<Rightarrow> True | Some e \<Rightarrow> re_revoked e \<noteq> None)"
    using filter_row [OF assms(1,3), of d "\<lambda>r. rd_revoked_at r = None"]
    by (simp add: update_devices_def registry_of_def entry_of_def split: option.splits)
  have reg': "registry_of hx ?db' d' = (case registry_of hx db d' of None \<Rightarrow> None
      | Some e \<Rightarrow> Some (if d' = d then e\<lparr>re_revoked :=
          (case re_revoked e of None \<Rightarrow> Some now | Some t \<Rightarrow> Some t)\<rparr> else e))" for d'
  proof (cases "find (\<lambda>r. rd_id r = device_hex hx d') (dv_devices db)")
    case (Some r)
    then have "rd_id r = device_hex hx d'" by (blast dest: find_SomeD)
    with Some assms(1) show ?thesis
      unfolding upd(2) by (auto simp: registry_of_def entry_of_def split: option.split)
  next
    case None
    then show ?thesis unfolding upd(2) by (simp add: registry_of_def)
  qed
  show ?thesis
  proof (cases "registry_of hx db d")
    case None
    with reg' have "registry_of hx ?db' d = None" by simp
    with device_get_registry [OF assms(1,2) upd(1), of d] count None show ?thesis
      by (simp add: device_revoke_def case_prod_beta)
  next
    case (Some e)
    have eq: "registry_of hx ?db' = (registry_of hx db)(d \<mapsto>
          e\<lparr>re_revoked := (case re_revoked e of None \<Rightarrow> Some now | Some t \<Rightarrow> Some t)\<rparr>)"
      using Some by (auto simp: reg' split: option.split)
    then obtain e' where "registry_of hx ?db' d = Some e'" by auto
    with device_get_registry [OF assms(1,2) upd(1), of d] obtain dev where
      "device_get hash hx ?db' d = Inr (Some dev)" by auto
    with count Some eq upd(1) show ?thesis
      by (cases "re_revoked e") (auto simp: device_revoke_def case_prod_beta)
  qed
qed

lemma touched_registry:
  assumes "\<And>r. rd_id (f r) = rd_id r" "\<And>r. rd_pubkey (f r) = rd_pubkey r"
    and "\<And>r. rd_revoked_at (f r) = rd_revoked_at r" and "devices_wf hash hx db"
  shows "devices_wf hash hx (fst (update_devices P f db))"
    "registry_of hx (fst (update_devices P f db)) = registry_of hx db"
proof -
  show "devices_wf hash hx (fst (update_devices P f db))"
    by (rule update_registry(1) [OF assms(1,2,4)])
  have "(entry_of hx db r)\<lparr>re_revoked := rd_revoked_at (if P r then f r else r)\<rparr> = entry_of hx db r"
    for r by (simp add: assms(3) entry_of_def)
  then show "registry_of hx (fst (update_devices P f db)) = registry_of hx db"
    unfolding update_registry(2) [OF assms(1,2,4)] fun_eq_iff by (simp add: registry_of_def)
qed

lemma roots_registry:
  assumes "hex_laws hx" "devices_wf hash hx db"
    and "\<And>x p. (x, p) \<in> root_key ` set rows \<longleftrightarrow>
      (if x = device_hex hx d then p \<in> F {q. (x, q) \<in> root_key ` set (dv_roots db)}
       else (x, p) \<in> root_key ` set (dv_roots db))"
  shows "registry_of hx (db\<lparr>dv_roots := rows\<rparr>) =
    (registry_of hx db)(d := map_option (\<lambda>e. e\<lparr>re_roots := F (re_roots e)\<rparr>) (registry_of hx db d))"
proof
  fix d'
  show "registry_of hx (db\<lparr>dv_roots := rows\<rparr>) d' =
    ((registry_of hx db)(d := map_option (\<lambda>e. e\<lparr>re_roots := F (re_roots e)\<rparr>) (registry_of hx db d))) d'"
  proof (cases "find (\<lambda>r. rd_id r = device_hex hx d') (dv_devices db)")
    case (Some r)
    then have "rd_id r = device_hex hx d'" by (blast dest: find_SomeD)
    with Some assms(1) show ?thesis
      by (auto simp: registry_of_def entry_of_def assms(3))
  qed (auto simp: registry_of_def)
qed

section \<open>Steps\<close>

inductive dev_step :: "hash_fn \<Rightarrow> hex_codec \<Rightarrow> devices_db \<Rightarrow> devices_db \<Rightarrow> bool"
  for hash :: hash_fn and hx :: hex_codec where
  paired: "id_wf (key_bytes key) \<Longrightarrow> device_pair hash hx db key name model grants now = Inr (db', dev) \<Longrightarrow>
    dev_step hash hx db db'"
| renamed: "device_rename hx db d name = Inr db' \<Longrightarrow> dev_step hash hx db db'"
| touched: "touch_last_seen hx db d now = Inr db' \<Longrightarrow> dev_step hash hx db db'"
| revoked: "device_revoke hash hx db d now = Inr (db', first) \<Longrightarrow> dev_step hash hx db db'"
| granted: "set_grants hx db d grants granted_by now = Inr db' \<Longrightarrow> dev_step hash hx db db'"
| root_added: "add_workspace_root hx db d path now = Inr (db', new) \<Longrightarrow> dev_step hash hx db db'"
| root_removed: "remove_workspace_root hx db d path = (db', old) \<Longrightarrow> dev_step hash hx db db'"

text \<open>What the steps may do to the registry.\<close>

inductive reg_step :: "hash_fn \<Rightarrow> registry \<Rightarrow> registry \<Rightarrow> bool" for hash :: hash_fn where
  reg_same: "reg_step hash reg reg"
| reg_pair: "d = device_id_from_public_key hash k \<Longrightarrow> reg d = None \<Longrightarrow>
    reg_step hash reg (reg(d \<mapsto> \<lparr>re_key = k, re_revoked = None, re_caps = caps, re_roots = {}\<rparr>))"
| reg_revoke: "reg d = Some e \<Longrightarrow> re_revoked e = None \<Longrightarrow>
    reg_step hash reg (reg(d \<mapsto> e\<lparr>re_revoked := Some now\<rparr>))"
| reg_caps: "reg d = Some e \<Longrightarrow> reg_step hash reg (reg(d \<mapsto> e\<lparr>re_caps := caps\<rparr>))"
| reg_roots: "reg d = Some e \<Longrightarrow> reg_step hash reg (reg(d \<mapsto> e\<lparr>re_roots := roots\<rparr>))"

inductive_cases reg_stepE: "reg_step hash reg reg'"

lemma reg_step_map_roots:
  "reg_step hash reg (reg(d := map_option (\<lambda>e. e\<lparr>re_roots := F (re_roots e)\<rparr>) (reg d)))"
  using reg_roots [of reg d] reg_same [of hash reg]
  by (cases "reg d") (auto simp: map_upd_triv fun_upd_idem)

lemma add_workspace_root_step:
  assumes "hex_laws hx" "devices_wf hash hx db" "add_workspace_root hx db d path now = Inr (db', new)"
  shows "devices_wf hash hx db' \<and> reg_step hash (registry_of hx db) (registry_of hx db')"
proof (cases new)
  case False
  with assms(2,3) show ?thesis
    by (auto simp: add_workspace_root_def reg_same split: if_splits)
next
  case True
  let ?row = "\<lparr>rt_device = device_hex hx d, rt_path = path, rt_added_at = now\<rparr>"
  from True assms(3) have ex: "device_exists hx db d"
    and new: "(device_hex hx d, path) \<notin> (\<lambda>x. (rt_device x, rt_path x)) ` set (dv_roots db)"
    and db': "db' = db\<lparr>dv_roots := dv_roots db @ [?row]\<rparr>"
    by (auto simp: add_workspace_root_def split: if_splits)
  have "root_key ?row \<notin> root_key ` set (dv_roots db)"
    using new by (simp add: root_key_def [abs_def])
  moreover have "device_hex hx d \<in> rd_id ` set (dv_devices db)"
    using ex registry_of_None by (metis device_exists_registry)
  ultimately have "devices_wf hash hx db'"
    using assms(2) by (simp add: devices_wf_def db')
  moreover have "registry_of hx db' = (registry_of hx db)(d :=
      map_option (\<lambda>e. e\<lparr>re_roots := insert path (re_roots e)\<rparr>) (registry_of hx db d))"
    unfolding db' by (rule roots_registry [OF assms(1,2)]) (auto simp: root_key_def)
  ultimately show ?thesis
    using reg_step_map_roots [of hash "registry_of hx db" d "insert path"] by simp
qed

lemma remove_workspace_root_step:
  assumes "hex_laws hx" "devices_wf hash hx db" "remove_workspace_root hx db d path = (db', old)"
  shows "devices_wf hash hx db' \<and> reg_step hash (registry_of hx db) (registry_of hx db')"
proof -
  let ?rows = "filter (\<lambda>r. \<not> (rt_device r = device_hex hx d \<and> rt_path r = path)) (dv_roots db)"
  from assms(3) have db': "db' = db\<lparr>dv_roots := ?rows\<rparr>"
    by (simp add: remove_workspace_root_def)
  have "devices_wf hash hx db'"
    using assms(2) by (auto simp: devices_wf_def db' distinct_map_filter)
  moreover have "registry_of hx db' = (registry_of hx db)(d :=
      map_option (\<lambda>e. e\<lparr>re_roots := re_roots e - {path}\<rparr>) (registry_of hx db d))"
    unfolding db' by (rule roots_registry [OF assms(1,2)]) (auto simp: root_key_image)
  ultimately show ?thesis
    using reg_step_map_roots [of hash "registry_of hx db" d "\<lambda>s. s - {path}"] by simp
qed

lemma set_grants_step:
  assumes "hex_laws hx" "devices_wf hash hx db" "set_grants hx db d grants granted_by now = Inr db'"
  shows "devices_wf hash hx db' \<and> (\<exists>e. registry_of hx db d = Some e \<and>
    registry_of hx db' = (registry_of hx db)(d \<mapsto> e\<lparr>re_caps := caps_of grants\<rparr>))"
proof -
  from assms(3) have ex: "device_exists hx db d" and w: "write_grants hx db d grants granted_by now = Inr db'"
    by (auto simp: set_grants_def split: if_splits)
  from ex obtain e where e: "registry_of hx db d = Some e"
    by (auto simp: device_exists_registry)
  then have "device_hex hx d \<in> rd_id ` set (dv_devices db)"
    using registry_of_None by (metis option.distinct(1))
  from write_grants_registry [OF assms(1,2) this, of grants granted_by now] w e
  show ?thesis by auto
qed

lemma dev_step_refines:
  assumes laws: "hex_laws hx" "hash32 hash" and "dev_step hash hx db db'" "devices_wf hash hx db"
  shows "devices_wf hash hx db' \<and> reg_step hash (registry_of hx db) (registry_of hx db')"
  using assms(3,4)
proof (induction rule: dev_step.induct)
  case (paired key db name model grants now db' dev)
  show ?case
  proof (cases "registry_of hx db (device_id_from_public_key hash key)")
    case None
    obtain db2 dev2 where p: "device_pair hash hx db key name model grants now = Inr (db2, dev2)"
      "devices_wf hash hx db2"
      "registry_of hx db2 = (registry_of hx db)(device_id_from_public_key hash key \<mapsto>
         \<lparr>re_key = key, re_revoked = None, re_caps = caps_of grants, re_roots = {}\<rparr>)"
      by (rule device_pair_fresh [OF laws paired(3,1) None, of name model grants now])
    then have "db2 = db'" using paired(2) by simp
    have "reg_step hash (registry_of hx db) (registry_of hx db2)"
      unfolding p(3) by (rule reg_pair [where hash = hash, OF refl]) (rule None)
    with p(2) \<open>db2 = db'\<close> show ?thesis by simp
  next
    case (Some e)
    from device_pair_known [OF laws paired(3) Some, of name model grants now] paired(2)
    show ?thesis by (simp split: if_splits)
  qed
next
  case (renamed db d name db')
  then have "db' = fst (update_devices (\<lambda>r. rd_id r = device_hex hx d) (\<lambda>r. r\<lparr>rd_name := name\<rparr>) db)"
    by (auto simp: device_rename_def split: if_splits prod.splits)
  with renamed(2) touched_registry [of "\<lambda>r. r\<lparr>rd_name := name\<rparr>"] show ?case
    by (simp add: reg_same)
next
  case (touched db d now db')
  then have "db' = fst (update_devices (\<lambda>r. rd_id r = device_hex hx d)
      (\<lambda>r. r\<lparr>rd_last_seen := Some now\<rparr>) db)"
    by (auto simp: touch_last_seen_def split: if_splits prod.splits)
  with touched(2) touched_registry [of "\<lambda>r. r\<lparr>rd_last_seen := Some now\<rparr>"] show ?case
    by (simp add: reg_same)
next
  case (revoked db d now db' first)
  from device_revoke_registry [OF laws revoked(2), of d now] revoked(1) show ?case
  proof (cases "registry_of hx db d")
    case (Some e)
    with device_revoke_registry [OF laws revoked(2), of d now] revoked(1)
    have wf: "devices_wf hash hx db'" and reg: "registry_of hx db' = (registry_of hx db)(d \<mapsto>
          e\<lparr>re_revoked := (case re_revoked e of None \<Rightarrow> Some now | Some t \<Rightarrow> Some t)\<rparr>)"
      by auto
    show ?thesis
    proof (cases "re_revoked e")
      case None
      have "reg_step hash (registry_of hx db) (registry_of hx db')"
        unfolding reg None option.case by (rule reg_revoke) (rule \<open>registry_of hx db d = Some e\<close> None)+
      with wf show ?thesis ..
    next
      case (Some t)
      then have "e\<lparr>re_revoked := Some t\<rparr> = e" by simp
      with Some \<open>registry_of hx db d = Some e\<close> have "registry_of hx db' = registry_of hx db"
        unfolding reg by (simp add: map_upd_triv)
      with wf show ?thesis by (simp only: reg_same)
    qed
  qed simp
next
  case (granted db d grants granted_by now db')
  from set_grants_step [OF laws(1) granted(2,1)] obtain e where e: "registry_of hx db d = Some e"
    and reg: "registry_of hx db' = (registry_of hx db)(d \<mapsto> e\<lparr>re_caps := caps_of grants\<rparr>)"
    and wf: "devices_wf hash hx db'" by blast
  have "reg_step hash (registry_of hx db) (registry_of hx db')"
    unfolding reg by (rule reg_caps) (rule e)
  with wf show ?case ..
next
  case (root_added db d path now db' new)
  from add_workspace_root_step [OF laws(1) root_added(2,1)] show ?case .
next
  case (root_removed db d path db' old)
  from remove_workspace_root_step [OF laws(1) root_removed(2,1)] show ?case .
qed

lemma dev_steps_wf:
  assumes "hex_laws hx" "hash32 hash" "(dev_step hash hx)\<^sup>*\<^sup>* db db'" "devices_wf hash hx db"
  shows "devices_wf hash hx db'"
  using assms(3,4)
proof induction
  case (step x y)
  with dev_step_refines [OF assms(1,2) step(2)] show ?case by simp
qed

lemma revoked_stays:
  assumes "reg_step hash reg reg'" "reg d = Some e" "re_revoked e = Some t"
  shows "\<exists>e'. reg' d = Some e' \<and> re_revoked e' = Some t \<and> re_key e' = re_key e"
  using assms by (elim reg_stepE) (auto split: if_splits)

lemma revoked_stays_steps:
  assumes "hex_laws hx" "hash32 hash" "(dev_step hash hx)\<^sup>*\<^sup>* db db'" "devices_wf hash hx db"
    and "registry_of hx db d = Some e" "re_revoked e = Some t"
  shows "\<exists>e'. registry_of hx db' d = Some e' \<and> re_revoked e' = Some t \<and> re_key e' = re_key e"
  using assms(3)
proof induction
  case base
  with assms(5,6) show ?case by blast
next
  case (step x y)
  have "devices_wf hash hx x" by (rule dev_steps_wf [OF assms(1,2) step(1) assms(4)])
  then have "reg_step hash (registry_of hx x) (registry_of hx y)"
    using dev_step_refines [OF assms(1,2) step(2)] by blast
  moreover from step(3) obtain e' where e': "registry_of hx x d = Some e'" "re_revoked e' = Some t"
    "re_key e' = re_key e" by blast
  ultimately show ?case
    using revoked_stays [of hash "registry_of hx x" "registry_of hx y" d e' t] by simp
qed

section \<open>Properties\<close>

lemma device_grants_revoked:
  assumes "hex_laws hx" "hash32 hash" "devices_wf hash hx db"
    and "registry_of hx db d = Some e" "re_revoked e \<noteq> None"
  shows "device_grants hash hx db d = Inr cs_EMPTY"
  using device_get_registry [OF assms(1-3), of d] assms(4,5)
  by (auto simp: device_grants_def is_revoked_def)

definition no_devices :: devices_db where
  "no_devices = \<lparr>dv_devices = [], dv_grants = [], dv_roots = []\<rparr>"

definition some_key :: public_key where "some_key = PublicKey (replicate 32 7)"

lemma no_devices_facts:
  "devices_wf hash hx no_devices" "registry_of hx no_devices d = None" "id_wf (key_bytes some_key)"
  by (simp_all add: devices_wf_def no_devices_def registry_of_def some_key_def id_wf_def ID_LEN_def)

text \<open>
  C27: the tables implement a registry.  Every operation that succeeds keeps the tables consistent and
  does to the registry they stand for one of the allowed things: add a device that was not there,
  revoke one for the first time, replace one device's grant or roots, or nothing.  What a device may
  do is read off correctly, with nothing for an unknown or a revoked one, and the active devices are
  exactly those that are not revoked.
\<close>

theorem devices_refine_registry:
  assumes "hex_laws hx" "hash32 hash" "devices_wf hash hx db"
  shows "(dev_step hash hx db db' \<longrightarrow>
      devices_wf hash hx db' \<and> reg_step hash (registry_of hx db) (registry_of hx db')) \<and>
    (\<exists>s. device_grants hash hx db d = Inr s \<and> caps_of s = reg_rights (registry_of hx db) d) \<and>
    (\<exists>ds. list_active hash hx db = Inr ds \<and>
       (\<forall>d. d \<in> dev_id ` set ds \<longleftrightarrow> reg_active (registry_of hx db) d))"
proof (intro conjI impI)
  assume "dev_step hash hx db db'"
  from dev_step_refines [OF assms(1,2) this assms(3)] show "devices_wf hash hx db'"
    and "reg_step hash (registry_of hx db) (registry_of hx db')" by blast+
next
  show "\<exists>s. device_grants hash hx db d = Inr s \<and> caps_of s = reg_rights (registry_of hx db) d"
    by (rule device_grants_registry [OF assms, of d]) blast
next
  show "\<exists>ds. list_active hash hx db = Inr ds \<and>
       (\<forall>d. d \<in> dev_id ` set ds \<longleftrightarrow> reg_active (registry_of hx db) d)"
    by (rule list_active_registry [OF assms]) blast
qed

theorem devices_refine_registry_witness:
  "\<exists>db. dev_step const_hash hex_crate no_devices db \<and> devices_wf const_hash hex_crate db \<and>
     registry_of hex_crate db (device_id_from_public_key const_hash some_key) \<noteq> None"
proof -
  obtain db dev where db: "device_pair const_hash hex_crate no_devices some_key ''P'' None cs_default_grant 5
      = Inr (db, dev)"
    "registry_of hex_crate db = (registry_of hex_crate no_devices)
      (device_id_from_public_key const_hash some_key \<mapsto> \<lparr>re_key = some_key, re_revoked = None,
         re_caps = caps_of cs_default_grant, re_roots = {}\<rparr>)"
    by (rule device_pair_fresh [OF hex_laws_crate hash32_const no_devices_facts(1,3,2)])
  have step: "dev_step const_hash hex_crate no_devices db"
    by (rule dev_step.paired [OF no_devices_facts(3) db(1)])
  with devices_refine_registry [OF hex_laws_crate hash32_const no_devices_facts(1), of db] db(2)
  show ?thesis by (intro exI [of _ db]) simp
qed

text \<open>
  C28: revocation is final.  Once a device has been revoked, then whatever is done to the tables
  afterwards, it is granted nothing, it is not among the active devices, the time of the first
  revocation stays, and its key cannot be paired again.
\<close>

theorem revocation_is_final:
  assumes laws: "hex_laws hx" "hash32 hash" and wf: "devices_wf hash hx db"
    and revoke: "device_revoke hash hx db d now = Inr (db1, first)"
    and steps: "(dev_step hash hx)\<^sup>*\<^sup>* db1 db2"
  shows "device_grants hash hx db2 d = Inr cs_EMPTY \<and>
    (\<exists>ds. list_active hash hx db2 = Inr ds \<and> d \<notin> dev_id ` set ds) \<and>
    (\<exists>e t. registry_of hx db2 d = Some e \<and> re_revoked e = Some t \<and> (first \<longrightarrow> t = now)) \<and>
    (device_id_from_public_key hash key = d \<longrightarrow>
       (\<exists>err. device_pair hash hx db2 key name model grants later = Inl err))"
proof -
  from device_revoke_registry [OF laws wf, of d now] revoke obtain e where
    e: "registry_of hx db d = Some e" "first \<longleftrightarrow> re_revoked e = None" "devices_wf hash hx db1"
      "registry_of hx db1 = (registry_of hx db)(d \<mapsto>
         e\<lparr>re_revoked := (case re_revoked e of None \<Rightarrow> Some now | Some t \<Rightarrow> Some t)\<rparr>)"
    by (auto split: option.splits)
  then obtain e1 t where e1: "registry_of hx db1 d = Some e1" "re_revoked e1 = Some t"
    "first \<longrightarrow> t = now" by (cases "re_revoked e") auto
  from revoked_stays_steps [OF laws steps e(3) e1(1,2)] obtain e2 where
    e2: "registry_of hx db2 d = Some e2" "re_revoked e2 = Some t" by blast
  have wf2: "devices_wf hash hx db2"
    by (rule dev_steps_wf [OF laws steps e(3)])
  have "\<exists>ds. list_active hash hx db2 = Inr ds \<and> d \<notin> dev_id ` set ds"
    by (rule list_active_registry [OF laws wf2]) (use e2 in \<open>auto simp: reg_active_def\<close>)
  moreover have "\<exists>err. device_pair hash hx db2 key name model grants later = Inl err"
    if "device_id_from_public_key hash key = d"
    using device_pair_known [OF laws wf2, of key e2] e2(1) that by auto
  ultimately show ?thesis
    using device_grants_revoked [OF laws wf2 e2(1)] e2 e1(3) by blast
qed

theorem revocation_is_final_witness:
  "\<exists>db db1. dev_step const_hash hex_crate no_devices db \<and>
     device_revoke const_hash hex_crate db (device_id_from_public_key const_hash some_key) 9 = Inr (db1, True) \<and>
     device_grants const_hash hex_crate db1 (device_id_from_public_key const_hash some_key) = Inr cs_EMPTY"
proof -
  let ?d = "device_id_from_public_key const_hash some_key"
  obtain db dev where db: "device_pair const_hash hex_crate no_devices some_key ''P'' None cs_default_grant 5
      = Inr (db, dev)" "devices_wf const_hash hex_crate db"
    "registry_of hex_crate db = (registry_of hex_crate no_devices)
      (?d \<mapsto> \<lparr>re_key = some_key, re_revoked = None,
         re_caps = caps_of cs_default_grant, re_roots = {}\<rparr>)"
    by (rule device_pair_fresh [OF hex_laws_crate hash32_const no_devices_facts(1,3,2)])
  from device_revoke_registry [OF hex_laws_crate hash32_const db(2), of ?d 9] db(3)
  obtain db1 where r: "device_revoke const_hash hex_crate db ?d 9 = Inr (db1, True)"
    by auto
  from revocation_is_final [OF hex_laws_crate hash32_const db(2) r rtranclp.rtrancl_refl]
  have "device_grants const_hash hex_crate db1 ?d = Inr cs_EMPTY" by blast
  with r dev_step.paired [OF no_devices_facts(3) db(1)] show ?thesis by blast
qed

text \<open>
  Pairing registers exactly what was asked.  A key whose device is not registered is accepted; the
  device gets the identifier of the key and exactly the capabilities given, and no other device's
  rights change.  A registered key, revoked or not, is refused as already paired, and so is, by the
  primary key, one whose hash collides with a registered key's.
\<close>

theorem pairing_is_exact:
  assumes laws: "hex_laws hx" "hash32 hash" and wf: "devices_wf hash hx db" "id_wf (key_bytes key)"
  shows "case registry_of hx db (device_id_from_public_key hash key) of
      None \<Rightarrow> \<exists>db' dev. device_pair hash hx db key name model grants now = Inr (db', dev) \<and>
        dev_id dev = device_id_from_public_key hash key \<and> dev_key dev = key \<and>
        reg_rights (registry_of hx db') (dev_id dev) = caps_of grants \<and>
        (\<forall>d. d \<noteq> dev_id dev \<longrightarrow> registry_of hx db' d = registry_of hx db d)
    | Some e \<Rightarrow> device_pair hash hx db key name model grants now =
        Inl (if re_key e = key then AlreadyPaired (device_id_from_public_key hash key) else Database)"
proof (cases "registry_of hx db (device_id_from_public_key hash key)")
  case None
  obtain db' dev where p: "device_pair hash hx db key name model grants now = Inr (db', dev)"
    "dev_id dev = device_id_from_public_key hash key" "dev_key dev = key"
    "registry_of hx db' = (registry_of hx db)(device_id_from_public_key hash key \<mapsto>
       \<lparr>re_key = key, re_revoked = None, re_caps = caps_of grants, re_roots = {}\<rparr>)"
    by (rule device_pair_fresh [OF laws wf None])
  have "reg_rights (registry_of hx db') (dev_id dev) = caps_of grants"
    and "\<forall>d. d \<noteq> dev_id dev \<longrightarrow> registry_of hx db' d = registry_of hx db d"
    unfolding p(4) by (simp_all add: p(2) reg_rights_def)
  with None p(1-3) show ?thesis by auto
next
  case (Some e)
  then show ?thesis by (simp add: device_pair_known [OF laws wf(1) Some])
qed

theorem pairing_is_exact_witness:
  "\<exists>db dev. device_pair const_hash hex_crate no_devices some_key ''P'' None cs_default_grant 5 = Inr (db, dev) \<and>
     reg_rights (registry_of hex_crate db) (dev_id dev) = caps_of cs_default_grant"
  using pairing_is_exact [OF hex_laws_crate hash32_const no_devices_facts(1,3),
      of "''P''" None cs_default_grant 5]
  by (auto simp: no_devices_facts(2))

end
