(* ===== verification/Registries.thy ===== *)
theory Registries
  imports Devices "HOL-Library.Product_Lexorder"
begin

text \<open>
  \<open>gonomad-store/src/sessions.rs\<close> and \<open>settings.rs\<close>: terminals, agent sessions, editor tabs,
  snippets, notifications and the key/value settings.  A table is the list of its rows in
  \<open>rowid\<close> order, so an insert appends; a table whose key is an \<open>INTEGER PRIMARY KEY\<close> takes for a
  new row the number after the largest in use, and once that is the largest 64-bit number the
  engine's choice, a parameter.  A time the code reads from the clock is an argument.
\<close>

section \<open>Statements\<close>

definition sql_update :: "('r \<Rightarrow> bool) \<Rightarrow> ('r \<Rightarrow> 'r) \<Rightarrow> 'r list \<Rightarrow> 'r list \<times> nat" where
  "sql_update P f rows = (map (\<lambda>r. if P r then f r else r) rows, length (filter P rows))"

definition sql_delete :: "('r \<Rightarrow> bool) \<Rightarrow> 'r list \<Rightarrow> 'r list \<times> nat" where
  "sql_delete P rows = (filter (\<lambda>r. \<not> P r) rows, length (filter P rows))"

definition sql_append :: "('r \<Rightarrow> 'k) \<Rightarrow> 'r \<Rightarrow> 'r list \<Rightarrow> (store_error, 'r list) result" where
  "sql_append key r rows = (if key r \<in> key ` set rows then Err Database else Ok (rows @ [r]))"

definition next_rowid :: "(int list \<Rightarrow> int option) \<Rightarrow> int list \<Rightarrow> int option" where
  "next_rowid pick ids =
     (if ids = [] then Some 1
      else if Max (set ids) < 2 ^ 63 - 1 then Some (Max (set ids) + 1) else pick ids)"

definition rowid_laws :: "(int list \<Rightarrow> int option) \<Rightarrow> bool" where
  "rowid_laws pick \<longleftrightarrow> (\<forall>ids i. pick ids = Some i \<longrightarrow> i \<notin> set ids)"

lemma next_rowid_fresh:
  assumes "rowid_laws pick" "next_rowid pick ids = Some i"
  shows "i \<notin> set ids"
proof (cases "ids \<noteq> [] \<and> Max (set ids) < 2 ^ 63 - 1")
  case True
  then have "i = Max (set ids) + 1" using assms(2) by (simp add: next_rowid_def)
  moreover have "\<forall>x \<in> set ids. x \<le> Max (set ids)" by simp
  ultimately show ?thesis by fastforce
next
  case False
  with assms show ?thesis by (auto simp: next_rowid_def rowid_laws_def split: if_splits)
qed

lemma sql_update_ids:
  "(\<And>r. key (f r) = key r) \<Longrightarrow> map key (fst (sql_update P f rows)) = map key rows"
  by (simp add: sql_update_def)

lemma in_sql_update: "r \<in> set rows \<Longrightarrow> (if P r then f r else r) \<in> set (fst (sql_update P f rows))"
  by (auto simp: sql_update_def)

section \<open>Terminals\<close>

record stored_pty =
  sp_id :: string
  sp_name :: string
  sp_shell :: string
  sp_cwd :: string
  sp_created_at :: int
  sp_exited_at :: "int option"
  sp_scrollback :: "string option"

section \<open>Agent sessions\<close>

datatype stored_state =
    StStarting | StIdle | StThinking | StAwaitingApproval | StAwaitingInput | StError | StExited

definition STORED_STATES :: "stored_state list" where
  "STORED_STATES =
     [StStarting, StIdle, StThinking, StAwaitingApproval, StAwaitingInput, StError, StExited]"

fun stored_state_str :: "stored_state \<Rightarrow> string" where
  "stored_state_str StStarting = ''starting''"
| "stored_state_str StIdle = ''idle''"
| "stored_state_str StThinking = ''thinking''"
| "stored_state_str StAwaitingApproval = ''awaiting_approval''"
| "stored_state_str StAwaitingInput = ''awaiting_input''"
| "stored_state_str StError = ''error''"
| "stored_state_str StExited = ''exited''"

definition stored_state_terminal :: "stored_state \<Rightarrow> bool" where
  "stored_state_terminal s \<longleftrightarrow> s = StExited"

definition stored_state_from_str :: "string \<Rightarrow> (string, stored_state) result" where
  "stored_state_from_str s = ok_or (find (\<lambda>st. stored_state_str st = s) STORED_STATES) s"

record agent_session =
  as_id :: string
  as_adapter :: string
  as_workspace :: string
  as_state :: stored_state
  as_created_at :: int
  as_last_activity :: int
  as_transcript :: "string option"
  as_native_id :: "string option"

record raw_agent =
  ra_id :: string
  ra_adapter :: string
  ra_workspace :: string
  ra_state :: string
  ra_created_at :: int
  ra_last_activity :: int
  ra_transcript :: "string option"
  ra_native_id :: "string option"

definition raw_agent_decode :: "raw_agent \<Rightarrow> (store_error, agent_session) result" where
  "raw_agent_decode r =
     rbind (map_err (\<lambda>e. CorruptRow ''agent_sessions'' (UnknownStoredState e))
              (stored_state_from_str (ra_state r))) (\<lambda>st.
     Ok \<lparr>as_id = ra_id r, as_adapter = ra_adapter r, as_workspace = ra_workspace r, as_state = st,
        as_created_at = ra_created_at r, as_last_activity = ra_last_activity r,
        as_transcript = ra_transcript r, as_native_id = ra_native_id r\<rparr>)"

section \<open>Editor tabs, snippets, notifications\<close>

record editor_tab =
  et_path :: string
  et_line :: "32 word"
  et_col :: "32 word"
  et_top :: "32 word"
  et_dirty :: bool

record raw_tab =
  rw_device :: string
  rw_path :: string
  rw_line :: int
  rw_col :: int
  rw_top :: int
  rw_dirty :: int

text \<open>The driver refuses a column that does not fit the integer asked for.\<close>

definition u32_column :: "int \<Rightarrow> (store_error, 32 word) result" where
  "u32_column raw = (if 0 \<le> raw \<and> raw < 2 ^ 32 then Ok (word_of_int raw) else Err Database)"

definition raw_tab_decode :: "raw_tab \<Rightarrow> (store_error, editor_tab) result" where
  "raw_tab_decode r =
     rbind (u32_column (rw_line r)) (\<lambda>line.
     rbind (u32_column (rw_col r)) (\<lambda>col.
     rbind (u32_column (rw_top r)) (\<lambda>top_line.
       Ok \<lparr>et_path = rw_path r, et_line = line, et_col = col, et_top = top_line,
          et_dirty = (rw_dirty r \<noteq> 0)\<rparr>)))"

definition raw_tab_encode :: "string \<Rightarrow> editor_tab \<Rightarrow> raw_tab" where
  "raw_tab_encode d t =
     \<lparr>rw_device = d, rw_path = et_path t, rw_line = uint (et_line t), rw_col = uint (et_col t),
      rw_top = uint (et_top t), rw_dirty = (if et_dirty t then 1 else 0)\<rparr>"

record snippet =
  sn_id :: int
  sn_workspace :: string
  sn_label :: string
  sn_command :: string
  sn_use_count :: nat

record raw_snippet =
  rs_id :: int
  rs_workspace :: string
  rs_label :: string
  rs_command :: string
  rs_use_count :: int

definition raw_snippet_decode :: "raw_snippet \<Rightarrow> (store_error, snippet) result" where
  "raw_snippet_decode r =
     rbind (u64_from_i64 ''snippets'' ''use_count'' (rs_use_count r)) (\<lambda>n.
       Ok \<lparr>sn_id = rs_id r, sn_workspace = rs_workspace r, sn_label = rs_label r,
          sn_command = rs_command r, sn_use_count = n\<rparr>)"

record notification =
  no_id :: int
  no_ts :: int
  no_kind :: string
  no_payload :: string
  no_delivered :: bool
  no_read :: bool

record raw_notification =
  nt_id :: int
  nt_ts :: int
  nt_kind :: string
  nt_payload :: string
  nt_delivered :: int
  nt_read :: int

definition notification_of :: "raw_notification \<Rightarrow> notification" where
  "notification_of r =
     \<lparr>no_id = nt_id r, no_ts = nt_ts r, no_kind = nt_kind r, no_payload = nt_payload r,
      no_delivered = (nt_delivered r \<noteq> 0), no_read = (nt_read r \<noteq> 0)\<rparr>"

record sessions_db =
  ss_ptys :: "stored_pty list"
  ss_agents :: "raw_agent list"
  ss_tabs :: "raw_tab list"
  ss_snippets :: "raw_snippet list"
  ss_notes :: "raw_notification list"
  ss_settings :: "(string \<times> string) list"

section \<open>Operations on terminals\<close>

definition create_pty ::
  "sessions_db \<Rightarrow> string \<Rightarrow> string \<Rightarrow> string \<Rightarrow> string \<Rightarrow> string option \<Rightarrow> int \<Rightarrow>
     (store_error, sessions_db \<times> stored_pty) result" where
  "create_pty db i name sh cwd scrollback now =
     (let r = \<lparr>sp_id = i, sp_name = name, sp_shell = sh, sp_cwd = cwd, sp_created_at = now,
                sp_exited_at = None, sp_scrollback = scrollback\<rparr>
      in rbind (sql_append sp_id r (ss_ptys db)) (\<lambda>rows. Ok (db\<lparr>ss_ptys := rows\<rparr>, r)))"

definition pty_get :: "sessions_db \<Rightarrow> string \<Rightarrow> stored_pty option" where
  "pty_get db i = find (\<lambda>r. sp_id r = i) (ss_ptys db)"

definition list_ptys :: "sessions_db \<Rightarrow> stored_pty list" where
  "list_ptys db = sort_key (\<lambda>r. - sp_created_at r) (ss_ptys db)"

definition list_live_ptys :: "sessions_db \<Rightarrow> stored_pty list" where
  "list_live_ptys db =
     sort_key (\<lambda>r. - sp_created_at r) (filter (\<lambda>r. sp_exited_at r = None) (ss_ptys db))"

definition mark_pty_exited :: "sessions_db \<Rightarrow> string \<Rightarrow> int \<Rightarrow> (store_error, sessions_db) result" where
  "mark_pty_exited db i now =
     (let (rows, changed) =
        sql_update (\<lambda>r. sp_id r = i \<and> sp_exited_at r = None) (\<lambda>r. r\<lparr>sp_exited_at := Some now\<rparr>) (ss_ptys db);
        db' = db\<lparr>ss_ptys := rows\<rparr>
      in if changed = 0 \<and> pty_get db' i = None then Err (StoreNotFound ''pty session'' i) else Ok db')"

definition remove_pty :: "sessions_db \<Rightarrow> string \<Rightarrow> sessions_db \<times> bool" where
  "remove_pty db i =
     (let (rows, n) = sql_delete (\<lambda>r. sp_id r = i) (ss_ptys db) in (db\<lparr>ss_ptys := rows\<rparr>, n > 0))"

section \<open>Operations on agent sessions\<close>

definition create_agent ::
  "sessions_db \<Rightarrow> string \<Rightarrow> string \<Rightarrow> string \<Rightarrow> stored_state \<Rightarrow> int \<Rightarrow>
     (store_error, sessions_db \<times> agent_session) result" where
  "create_agent db i adapter workspace st now =
     rbind (sql_append ra_id
        \<lparr>ra_id = i, ra_adapter = adapter, ra_workspace = workspace, ra_state = stored_state_str st,
         ra_created_at = now, ra_last_activity = now, ra_transcript = None, ra_native_id = None\<rparr>
        (ss_agents db)) (\<lambda>rows.
     Ok (db\<lparr>ss_agents := rows\<rparr>,
         \<lparr>as_id = i, as_adapter = adapter, as_workspace = workspace, as_state = st,
          as_created_at = now, as_last_activity = now, as_transcript = None, as_native_id = None\<rparr>))"

definition agent_get :: "sessions_db \<Rightarrow> string \<Rightarrow> (store_error, agent_session option) result" where
  "agent_get db i = transpose_row raw_agent_decode (find (\<lambda>r. ra_id r = i) (ss_agents db))"

definition list_agents :: "sessions_db \<Rightarrow> (store_error, agent_session list) result" where
  "list_agents db = decode_all raw_agent_decode (sort_key (\<lambda>r. - ra_last_activity r) (ss_agents db))"

definition set_agent_state ::
  "sessions_db \<Rightarrow> string \<Rightarrow> stored_state \<Rightarrow> int \<Rightarrow> (store_error, sessions_db) result" where
  "set_agent_state db i st now =
     (let (rows, changed) = sql_update (\<lambda>r. ra_id r = i)
        (\<lambda>r. r\<lparr>ra_state := stored_state_str st, ra_last_activity := now\<rparr>) (ss_agents db)
      in if changed = 0 then Err (StoreNotFound ''agent session'' i) else Ok (db\<lparr>ss_agents := rows\<rparr>))"

definition set_agent_resume_info ::
  "sessions_db \<Rightarrow> string \<Rightarrow> string option \<Rightarrow> string option \<Rightarrow> int \<Rightarrow> (store_error, sessions_db) result" where
  "set_agent_resume_info db i transcript native now =
     (let (rows, changed) = sql_update (\<lambda>r. ra_id r = i)
        (\<lambda>r. r\<lparr>ra_transcript := transcript, ra_native_id := native, ra_last_activity := now\<rparr>) (ss_agents db)
      in if changed = 0 then Err (StoreNotFound ''agent session'' i) else Ok (db\<lparr>ss_agents := rows\<rparr>))"

definition remove_agent :: "sessions_db \<Rightarrow> string \<Rightarrow> sessions_db \<times> bool" where
  "remove_agent db i =
     (let (rows, n) = sql_delete (\<lambda>r. ra_id r = i) (ss_agents db) in (db\<lparr>ss_agents := rows\<rparr>, n > 0))"

section \<open>Operations on editor tabs\<close>

text \<open>A tab of a device that is not in the devices table violates the foreign key.\<close>

definition upsert_editor_tab ::
  "hex_codec \<Rightarrow> devices_db \<Rightarrow> sessions_db \<Rightarrow> device_id \<Rightarrow> editor_tab \<Rightarrow> (store_error, sessions_db) result" where
  "upsert_editor_tab hx dv db d t =
     (let new = raw_tab_encode (device_hex hx d) t;
          same = (\<lambda>r. rw_device r = rw_device new \<and> rw_path r = rw_path new)
      in if list_ex same (ss_tabs db)
         then Ok (db\<lparr>ss_tabs := fst (sql_update same
            (\<lambda>r. r\<lparr>rw_line := rw_line new, rw_col := rw_col new, rw_top := rw_top new,
                   rw_dirty := rw_dirty new\<rparr>) (ss_tabs db))\<rparr>)
         else if \<not> device_exists hx dv d then Err Database
         else Ok (db\<lparr>ss_tabs := ss_tabs db @ [new]\<rparr>))"

definition editor_tabs :: "hex_codec \<Rightarrow> sessions_db \<Rightarrow> device_id \<Rightarrow> (store_error, editor_tab list) result" where
  "editor_tabs hx db d =
     decode_all raw_tab_decode
       (sort_key (\<lambda>r. as_bytes (rw_path r)) (filter (\<lambda>r. rw_device r = device_hex hx d) (ss_tabs db)))"

definition close_editor_tab :: "hex_codec \<Rightarrow> sessions_db \<Rightarrow> device_id \<Rightarrow> string \<Rightarrow> sessions_db \<times> bool" where
  "close_editor_tab hx db d p =
     (let (rows, n) = sql_delete (\<lambda>r. rw_device r = device_hex hx d \<and> rw_path r = p) (ss_tabs db)
      in (db\<lparr>ss_tabs := rows\<rparr>, n > 0))"

section \<open>Operations on snippets\<close>

definition snippet_get :: "sessions_db \<Rightarrow> string \<Rightarrow> string \<Rightarrow> (store_error, snippet option) result" where
  "snippet_get db workspace label =
     transpose_row raw_snippet_decode
       (find (\<lambda>r. rs_workspace r = workspace \<and> rs_label r = label) (ss_snippets db))"

definition write_snippet ::
  "(int list \<Rightarrow> int option) \<Rightarrow> sessions_db \<Rightarrow> string \<Rightarrow> string \<Rightarrow> string \<Rightarrow> (store_error, sessions_db) result" where
  "write_snippet pick db workspace label command =
     (let same = (\<lambda>r. rs_workspace r = workspace \<and> rs_label r = label)
      in if list_ex same (ss_snippets db)
         then Ok (db\<lparr>ss_snippets := fst (sql_update same (\<lambda>r. r\<lparr>rs_command := command\<rparr>) (ss_snippets db))\<rparr>)
         else rbind (ok_or (next_rowid pick (map rs_id (ss_snippets db))) Database) (\<lambda>i.
           Ok (db\<lparr>ss_snippets := ss_snippets db @ [\<lparr>rs_id = i, rs_workspace = workspace, rs_label = label,
                  rs_command = command, rs_use_count = 0\<rparr>]\<rparr>)))"

text \<open>The write is committed before the row is read back, so an error of the reading leaves it.\<close>

definition upsert_snippet ::
  "(int list \<Rightarrow> int option) \<Rightarrow> sessions_db \<Rightarrow> string \<Rightarrow> string \<Rightarrow> string \<Rightarrow>
     sessions_db \<times> (store_error, snippet) result" where
  "upsert_snippet pick db workspace label command =
     (case write_snippet pick db workspace label command of
        Inl e \<Rightarrow> (db, Err e)
      | Inr db' \<Rightarrow>
          (db', rbind (snippet_get db' workspace label) (\<lambda>found.
                  ok_or found (StoreNotFound ''snippet'' label))))"

definition snippets :: "sessions_db \<Rightarrow> string \<Rightarrow> (store_error, snippet list) result" where
  "snippets db workspace =
     decode_all raw_snippet_decode
       (sort_key (\<lambda>r. (- rs_use_count r, as_bytes (rs_label r)))
          (filter (\<lambda>r. rs_workspace r = workspace) (ss_snippets db)))"

text \<open>A count at the largest 64-bit number would become a real, which a strict table refuses.\<close>

definition record_snippet_use :: "sessions_db \<Rightarrow> int \<Rightarrow> (store_error, sessions_db) result" where
  "record_snippet_use db i =
     (if list_ex (\<lambda>r. rs_id r = i \<and> rs_use_count r = 2 ^ 63 - 1) (ss_snippets db) then Err Database
      else let (rows, changed) = sql_update (\<lambda>r. rs_id r = i)
                 (\<lambda>r. r\<lparr>rs_use_count := rs_use_count r + 1\<rparr>) (ss_snippets db)
           in if changed = 0 then Err (StoreNotFound ''snippet'' (show_int i))
              else Ok (db\<lparr>ss_snippets := rows\<rparr>))"

definition remove_snippet :: "sessions_db \<Rightarrow> int \<Rightarrow> sessions_db \<times> bool" where
  "remove_snippet db i =
     (let (rows, n) = sql_delete (\<lambda>r. rs_id r = i) (ss_snippets db) in (db\<lparr>ss_snippets := rows\<rparr>, n > 0))"

section \<open>Operations on notifications\<close>

definition push_notification ::
  "(int list \<Rightarrow> int option) \<Rightarrow> sessions_db \<Rightarrow> string \<Rightarrow> string \<Rightarrow> int \<Rightarrow>
     (store_error, sessions_db \<times> notification) result" where
  "push_notification pick db kind payload now =
     rbind (ok_or (next_rowid pick (map nt_id (ss_notes db))) Database) (\<lambda>i.
       Ok (db\<lparr>ss_notes := ss_notes db @ [\<lparr>nt_id = i, nt_ts = now, nt_kind = kind, nt_payload = payload,
                nt_delivered = 0, nt_read = 0\<rparr>]\<rparr>,
           \<lparr>no_id = i, no_ts = now, no_kind = kind, no_payload = payload, no_delivered = False,
            no_read = False\<rparr>))"

definition undelivered_notifications :: "sessions_db \<Rightarrow> nat \<Rightarrow> notification list" where
  "undelivered_notifications db limit =
     map notification_of (take limit
       (sort_key (\<lambda>r. (nt_ts r, nt_id r)) (filter (\<lambda>r. nt_delivered r = 0) (ss_notes db))))"

definition recent_notifications :: "sessions_db \<Rightarrow> nat \<Rightarrow> notification list" where
  "recent_notifications db limit =
     map notification_of (take limit (sort_key (\<lambda>r. (- nt_ts r, - nt_id r)) (ss_notes db)))"

definition flag_notification :: "sessions_db \<Rightarrow> int \<Rightarrow> string \<Rightarrow> (store_error, sessions_db) result" where
  "flag_notification db i column =
     rbind (if column = ''delivered'' then Ok (\<lambda>r. r\<lparr>nt_delivered := 1\<rparr>)
            else if column = ''read'' then Ok (\<lambda>r. r\<lparr>nt_read := 1\<rparr>)
            else Err (CorruptRow ''notifications'' (UnknownFlag column))) (\<lambda>f.
       let (rows, changed) = sql_update (\<lambda>r. nt_id r = i) f (ss_notes db)
       in if changed = 0 then Err (StoreNotFound ''notification'' (show_int i))
          else Ok (db\<lparr>ss_notes := rows\<rparr>))"

definition mark_notification_delivered :: "sessions_db \<Rightarrow> int \<Rightarrow> (store_error, sessions_db) result" where
  "mark_notification_delivered db i = flag_notification db i ''delivered''"

definition mark_notification_read :: "sessions_db \<Rightarrow> int \<Rightarrow> (store_error, sessions_db) result" where
  "mark_notification_read db i = flag_notification db i ''read''"

definition prune_notifications :: "sessions_db \<Rightarrow> int \<Rightarrow> sessions_db \<times> nat" where
  "prune_notifications db before_ms =
     (let (rows, n) = sql_delete (\<lambda>r. nt_delivered r = 1 \<and> nt_read r = 1 \<and> nt_ts r < before_ms) (ss_notes db)
      in (db\<lparr>ss_notes := rows\<rparr>, n))"

section \<open>Settings\<close>

definition setting_get :: "sessions_db \<Rightarrow> string \<Rightarrow> string option" where
  "setting_get db k = map_option snd (find (\<lambda>r. fst r = k) (ss_settings db))"

definition setting_get_or :: "sessions_db \<Rightarrow> string \<Rightarrow> string \<Rightarrow> string" where
  "setting_get_or db k fallback = (case setting_get db k of None \<Rightarrow> fallback | Some v \<Rightarrow> v)"

definition setting_set :: "sessions_db \<Rightarrow> string \<Rightarrow> string \<Rightarrow> sessions_db" where
  "setting_set db k v =
     (if list_ex (\<lambda>r. fst r = k) (ss_settings db)
      then db\<lparr>ss_settings := fst (sql_update (\<lambda>r. fst r = k) (\<lambda>r. (k, v)) (ss_settings db))\<rparr>
      else db\<lparr>ss_settings := ss_settings db @ [(k, v)]\<rparr>)"

definition setting_remove :: "sessions_db \<Rightarrow> string \<Rightarrow> sessions_db \<times> bool" where
  "setting_remove db k =
     (let (rows, n) = sql_delete (\<lambda>r. fst r = k) (ss_settings db) in (db\<lparr>ss_settings := rows\<rparr>, n > 0))"

definition settings_all :: "sessions_db \<Rightarrow> (string \<times> string) list" where
  "settings_all db = sort_key (\<lambda>r. as_bytes (fst r)) (ss_settings db)"

section \<open>Runs of operations\<close>

text \<open>Every operation that changes a table; one that fails leaves the tables as they were.\<close>

datatype registry_op =
    CreatePty string string string string "string option" int
  | MarkPtyExited string int
  | RemovePty string
  | CreateAgent string string string stored_state int
  | SetAgentState string stored_state int
  | SetAgentResume string "string option" "string option" int
  | RemoveAgent string
  | UpsertTab device_id editor_tab
  | CloseTab device_id string
  | UpsertSnippet string string string
  | UseSnippet int
  | RemoveSnippet int
  | PushNote string string int
  | NoteDelivered int
  | NoteRead int
  | PruneNotes int
  | SetSetting string string
  | RemoveSetting string

definition kept_or :: "sessions_db \<Rightarrow> (store_error, sessions_db) result \<Rightarrow> sessions_db" where
  "kept_or db r = (case r of Inl _ \<Rightarrow> db | Inr db' \<Rightarrow> db')"

fun run_op ::
  "hex_codec \<Rightarrow> devices_db \<Rightarrow> (int list \<Rightarrow> int option) \<Rightarrow> registry_op \<Rightarrow> sessions_db \<Rightarrow> sessions_db" where
  "run_op hx dv pick (CreatePty i n s c b t) db =
     kept_or db (rbind (create_pty db i n s c b t) (\<lambda>(db', _). Ok db'))"
| "run_op hx dv pick (MarkPtyExited i t) db = kept_or db (mark_pty_exited db i t)"
| "run_op hx dv pick (RemovePty i) db = fst (remove_pty db i)"
| "run_op hx dv pick (CreateAgent i a w st t) db =
     kept_or db (rbind (create_agent db i a w st t) (\<lambda>(db', _). Ok db'))"
| "run_op hx dv pick (SetAgentState i st t) db = kept_or db (set_agent_state db i st t)"
| "run_op hx dv pick (SetAgentResume i p n t) db = kept_or db (set_agent_resume_info db i p n t)"
| "run_op hx dv pick (RemoveAgent i) db = fst (remove_agent db i)"
| "run_op hx dv pick (UpsertTab d t) db = kept_or db (upsert_editor_tab hx dv db d t)"
| "run_op hx dv pick (CloseTab d p) db = fst (close_editor_tab hx db d p)"
| "run_op hx dv pick (UpsertSnippet w l c) db = fst (upsert_snippet pick db w l c)"
| "run_op hx dv pick (UseSnippet i) db = kept_or db (record_snippet_use db i)"
| "run_op hx dv pick (RemoveSnippet i) db = fst (remove_snippet db i)"
| "run_op hx dv pick (PushNote k p t) db =
     kept_or db (rbind (push_notification pick db k p t) (\<lambda>(db', _). Ok db'))"
| "run_op hx dv pick (NoteDelivered i) db = kept_or db (mark_notification_delivered db i)"
| "run_op hx dv pick (NoteRead i) db = kept_or db (mark_notification_read db i)"
| "run_op hx dv pick (PruneNotes t) db = fst (prune_notifications db t)"
| "run_op hx dv pick (SetSetting k v) db = setting_set db k v"
| "run_op hx dv pick (RemoveSetting k) db = fst (setting_remove db k)"

definition run_ops ::
  "hex_codec \<Rightarrow> devices_db \<Rightarrow> (int list \<Rightarrow> int option) \<Rightarrow> registry_op list \<Rightarrow> sessions_db \<Rightarrow> sessions_db" where
  "run_ops hx dv pick ops db = fold (run_op hx dv pick) ops db"

lemma kept_or_simps [simp]: "kept_or db (Inl e) = db" "kept_or db (Inr db') = db'"
  by (simp_all add: kept_or_def)

lemmas registry_defs = create_pty_def mark_pty_exited_def remove_pty_def create_agent_def
  set_agent_state_def set_agent_resume_info_def remove_agent_def upsert_editor_tab_def
  close_editor_tab_def upsert_snippet_def write_snippet_def record_snippet_use_def
  remove_snippet_def push_notification_def mark_notification_delivered_def
  mark_notification_read_def flag_notification_def prune_notifications_def setting_set_def
  setting_remove_def

section \<open>Keys stay unique and rows readable\<close>

definition tab_key :: "raw_tab \<Rightarrow> string \<times> string" where
  "tab_key r = (rw_device r, rw_path r)"

definition snippet_key :: "raw_snippet \<Rightarrow> string \<times> string" where
  "snippet_key r = (rs_workspace r, rs_label r)"

definition u32_range :: "int \<Rightarrow> bool" where
  "u32_range i \<longleftrightarrow> 0 \<le> i \<and> i < 2 ^ 32"

definition tab_ok :: "raw_tab \<Rightarrow> bool" where
  "tab_ok r \<longleftrightarrow> u32_range (rw_line r) \<and> u32_range (rw_col r) \<and> u32_range (rw_top r)"

definition agent_ok :: "raw_agent \<Rightarrow> bool" where
  "agent_ok r \<longleftrightarrow> (\<exists>st. ra_state r = stored_state_str st)"

definition ptys_ok :: "stored_pty list \<Rightarrow> bool" where
  "ptys_ok rows \<longleftrightarrow> distinct (map sp_id rows)"

definition agents_ok :: "raw_agent list \<Rightarrow> bool" where
  "agents_ok rows \<longleftrightarrow> distinct (map ra_id rows) \<and> (\<forall>r \<in> set rows. agent_ok r)"

definition tabs_ok :: "raw_tab list \<Rightarrow> bool" where
  "tabs_ok rows \<longleftrightarrow> distinct (map tab_key rows) \<and> (\<forall>r \<in> set rows. tab_ok r)"

definition snippets_ok :: "raw_snippet list \<Rightarrow> bool" where
  "snippets_ok rows \<longleftrightarrow> distinct (map rs_id rows) \<and> distinct (map snippet_key rows) \<and>
     (\<forall>r \<in> set rows. 0 \<le> rs_use_count r)"

definition notes_ok :: "raw_notification list \<Rightarrow> bool" where
  "notes_ok rows \<longleftrightarrow> distinct (map nt_id rows)"

definition registries_ok :: "sessions_db \<Rightarrow> bool" where
  "registries_ok db \<longleftrightarrow> ptys_ok (ss_ptys db) \<and> agents_ok (ss_agents db) \<and> tabs_ok (ss_tabs db) \<and>
     snippets_ok (ss_snippets db) \<and> notes_ok (ss_notes db) \<and> distinct (map fst (ss_settings db))"

text \<open>The three statements keep a key distinct.\<close>

lemma distinct_update:
  "(\<And>r. P r \<Longrightarrow> key (f r) = key r) \<Longrightarrow> distinct (map key rows) \<Longrightarrow>
     distinct (map key (map (\<lambda>r. if P r then f r else r) rows))"
proof -
  assume "\<And>r. P r \<Longrightarrow> key (f r) = key r" "distinct (map key rows)"
  moreover from this(1) have "map key (map (\<lambda>r. if P r then f r else r) rows) = map key rows" by simp
  ultimately show ?thesis by metis
qed

lemma distinct_delete: "distinct (map key rows) \<Longrightarrow> distinct (map key (filter P rows))"
  by (rule distinct_map_filter)

lemma ptys_ok_step: "ptys_ok (ss_ptys db) \<Longrightarrow> ptys_ok (ss_ptys (run_op hx dv pick op db))"
  by (cases op)
    (auto simp: registry_defs ptys_ok_def sql_append_def sql_update_def sql_delete_def
      distinct_delete kept_or_def rbind_def ok_or_def Let_def comp_def
      intro!: distinct_update [of _ sp_id, unfolded map_map comp_def]
      split: sum.splits option.splits if_splits)

lemma stored_state_str_inj: "stored_state_str a = stored_state_str b \<longleftrightarrow> a = b"
  by (cases a; cases b) simp_all

lemma stored_state_round_trip: "stored_state_from_str (stored_state_str st) = Inr st"
  by (cases st) (simp_all add: stored_state_from_str_def STORED_STATES_def)

lemma agents_ok_step: "agents_ok (ss_agents db) \<Longrightarrow> agents_ok (ss_agents (run_op hx dv pick op db))"
  by (cases op)
    (auto simp: registry_defs agents_ok_def agent_ok_def sql_append_def sql_update_def sql_delete_def
      distinct_delete kept_or_def rbind_def ok_or_def Let_def comp_def
      intro!: distinct_update [of _ ra_id, unfolded map_map comp_def]
      split: sum.splits option.splits if_splits)

lemma u32_range_uint [simp]: "u32_range (uint (w :: 32 word))"
  using uint_lt2p [of w] by (simp add: u32_range_def)

lemma tabs_ok_step: "tabs_ok (ss_tabs db) \<Longrightarrow> tabs_ok (ss_tabs (run_op hx dv pick op db))"
proof (cases op)
  case (UpsertTab d t)
  assume ok: "tabs_ok (ss_tabs db)"
  define new where "new = raw_tab_encode (device_hex hx d) t"
  define same where "same = (\<lambda>r :: raw_tab. rw_device r = rw_device new \<and> rw_path r = rw_path new)"
  have new_ok: "tab_ok new" by (simp add: new_def raw_tab_encode_def tab_ok_def)
  show ?thesis
  proof (cases "list_ex same (ss_tabs db)")
    case True
    then have "ss_tabs (run_op hx dv pick op db) = map (\<lambda>r. if same r then
        r\<lparr>rw_line := rw_line new, rw_col := rw_col new, rw_top := rw_top new, rw_dirty := rw_dirty new\<rparr>
        else r) (ss_tabs db)"
      by (simp add: UpsertTab upsert_editor_tab_def Let_def sql_update_def flip: new_def same_def)
    moreover have "distinct (map tab_key \<dots>)"
      using ok by (intro distinct_update) (auto simp: tabs_ok_def tab_key_def)
    ultimately show ?thesis using ok new_ok by (auto simp: tabs_ok_def tab_ok_def)
  next
    case False
    then have "tab_key new \<notin> tab_key ` set (ss_tabs db)"
      by (auto simp: list_ex_iff same_def tab_key_def)
    then show ?thesis using ok new_ok False
      by (auto simp: UpsertTab upsert_editor_tab_def Let_def tabs_ok_def simp flip: new_def same_def)
  qed
qed (auto simp: registry_defs tabs_ok_def sql_append_def sql_update_def sql_delete_def
      distinct_delete kept_or_def rbind_def ok_or_def Let_def
      split: sum.splits option.splits if_splits)

lemma snippets_ok_step:
  assumes "rowid_laws pick" "snippets_ok (ss_snippets db)"
  shows "snippets_ok (ss_snippets (run_op hx dv pick op db))"
proof (cases op)
  case (UpsertSnippet w l c)
  have fresh: "i \<notin> rs_id ` set (ss_snippets db)" if "next_rowid pick (map rs_id (ss_snippets db)) = Some i" for i
    using next_rowid_fresh [OF assms(1) that] by simp
  show ?thesis using assms(2) fresh
    by (auto simp: UpsertSnippet upsert_snippet_def write_snippet_def Let_def snippets_ok_def
      sql_update_def list_ex_iff snippet_key_def [abs_def] ok_or_def rbind_def comp_def
      intro!: distinct_update [of _ rs_id, unfolded map_map comp_def]
        distinct_update [of _ snippet_key, unfolded map_map comp_def snippet_key_def]
      split: sum.splits option.splits if_splits)
next
  case (UseSnippet i)
  show ?thesis using assms(2)
    by (auto simp: UseSnippet record_snippet_use_def Let_def snippets_ok_def sql_update_def
      snippet_key_def [abs_def] kept_or_def comp_def
      intro!: distinct_update [of _ rs_id, unfolded map_map comp_def]
        distinct_update [of _ snippet_key, unfolded map_map comp_def snippet_key_def]
      split: if_splits)
qed (use assms(2) in \<open>auto simp: registry_defs snippets_ok_def sql_append_def sql_update_def sql_delete_def
      distinct_delete kept_or_def rbind_def ok_or_def Let_def
      split: sum.splits option.splits if_splits\<close>)

lemma notes_ok_step:
  assumes "rowid_laws pick" "notes_ok (ss_notes db)"
  shows "notes_ok (ss_notes (run_op hx dv pick op db))"
proof (cases op)
  case (PushNote k p t)
  have fresh: "i \<notin> nt_id ` set (ss_notes db)" if "next_rowid pick (map nt_id (ss_notes db)) = Some i" for i
    using next_rowid_fresh [OF assms(1) that] by simp
  show ?thesis using assms(2) fresh
    by (auto simp: PushNote push_notification_def notes_ok_def ok_or_def rbind_def kept_or_def
      split: sum.splits option.splits)
qed (use assms(2) in \<open>auto simp: registry_defs notes_ok_def sql_append_def sql_update_def sql_delete_def
      distinct_delete kept_or_def rbind_def ok_or_def Let_def comp_def
      intro!: distinct_update [of _ nt_id, unfolded map_map comp_def]
      split: sum.splits option.splits if_splits\<close>)

lemma settings_ok_step:
  "distinct (map fst (ss_settings db)) \<Longrightarrow> distinct (map fst (ss_settings (run_op hx dv pick op db)))"
  by (cases op)
    (auto simp: registry_defs sql_append_def sql_update_def sql_delete_def
      distinct_delete kept_or_def rbind_def ok_or_def Let_def comp_def list_ex_iff
      intro!: distinct_update [of _ fst, unfolded map_map comp_def]
      split: sum.splits option.splits if_splits)

lemma registries_ok_step:
  "rowid_laws pick \<Longrightarrow> registries_ok db \<Longrightarrow> registries_ok (run_op hx dv pick op db)"
  by (simp add: registries_ok_def ptys_ok_step agents_ok_step tabs_ok_step snippets_ok_step
      notes_ok_step settings_ok_step)

lemma registries_ok_run:
  "rowid_laws pick \<Longrightarrow> registries_ok db \<Longrightarrow> registries_ok (run_ops hx dv pick ops db)"
  by (induction ops arbitrary: db) (simp_all add: run_ops_def registries_ok_step)

lemma decode_all_complete:
  "\<forall>r \<in> set rs. \<exists>a. f r = Inr a \<Longrightarrow> \<exists>as. decode_all f rs = Inr as \<and> length as = length rs"
  by (induction rs) auto

lemma raw_agent_total: "agent_ok r \<Longrightarrow> \<exists>a. raw_agent_decode r = Inr a"
  by (auto simp: agent_ok_def raw_agent_decode_def stored_state_round_trip)

lemma raw_tab_total: "tab_ok r \<Longrightarrow> \<exists>a. raw_tab_decode r = Inr a"
  by (auto simp: tab_ok_def raw_tab_decode_def u32_column_def u32_range_def)

lemma raw_snippet_total: "0 \<le> rs_use_count r \<Longrightarrow> \<exists>a. raw_snippet_decode r = Inr a"
  by (auto simp: raw_snippet_decode_def)

lemma raw_tab_round_trip: "raw_tab_decode (raw_tab_encode d t) = Inr t"
  using uint_lt2p [of "et_line t"] uint_lt2p [of "et_col t"] uint_lt2p [of "et_top t"]
  by (simp add: raw_tab_decode_def raw_tab_encode_def u32_column_def)

text \<open>
  No sequence of operations on the session registries, failing ones included, can store a row that
  the store then refuses to read: afterwards every agent session, every snippet of a workspace and
  every editor tab of a device is still listed, none missing, and no key is stored twice.
\<close>

theorem registries_stay_readable:
  assumes "rowid_laws pick" "registries_ok db" "db' = run_ops hx dv pick ops db"
  shows "registries_ok db' \<and>
    (\<exists>agents. list_agents db' = Inr agents \<and> length agents = length (ss_agents db')) \<and>
    (\<exists>sns. snippets db' w = Inr sns \<and>
       length sns = length (filter (\<lambda>r. rs_workspace r = w) (ss_snippets db'))) \<and>
    (\<exists>tabs. editor_tabs hx db' d = Inr tabs \<and>
       length tabs = length (filter (\<lambda>r. rw_device r = device_hex hx d) (ss_tabs db')))"
proof -
  have ok: "registries_ok db'" using registries_ok_run [OF assms(1,2)] assms(3) by simp
  have "\<exists>agents. list_agents db' = Inr agents \<and> length agents = length (ss_agents db')"
    unfolding list_agents_def length_sort [of "\<lambda>r. - ra_last_activity r" "ss_agents db'", symmetric]
    by (rule decode_all_complete)
      (use ok in \<open>auto simp: registries_ok_def agents_ok_def intro: raw_agent_total\<close>)
  moreover have "\<exists>sns. snippets db' w = Inr sns \<and>
      length sns = length (filter (\<lambda>r. rs_workspace r = w) (ss_snippets db'))"
    unfolding snippets_def length_sort
      [of "\<lambda>r. (- rs_use_count r, as_bytes (rs_label r))" "filter _ _", symmetric]
    by (rule decode_all_complete)
      (use ok in \<open>auto simp: registries_ok_def snippets_ok_def intro: raw_snippet_total\<close>)
  moreover have "\<exists>tabs. editor_tabs hx db' d = Inr tabs \<and>
      length tabs = length (filter (\<lambda>r. rw_device r = device_hex hx d) (ss_tabs db'))"
    unfolding editor_tabs_def length_sort [of "\<lambda>r. as_bytes (rw_path r)" "filter _ _", symmetric]
    by (rule decode_all_complete)
      (use ok in \<open>auto simp: registries_ok_def tabs_ok_def intro: raw_tab_total\<close>)
  ultimately show ?thesis using ok by blast
qed

section \<open>Notifications are not lost\<close>

text \<open>What may happen to a row that is still to be delivered: being read.\<close>

definition pending_as :: "raw_notification \<Rightarrow> raw_notification \<Rightarrow> bool" where
  "pending_as r r' \<longleftrightarrow> nt_id r' = nt_id r \<and> nt_ts r' = nt_ts r \<and> nt_kind r' = nt_kind r \<and>
     nt_payload r' = nt_payload r \<and> nt_delivered r' = 0"

lemma pending_step:
  assumes "op \<noteq> NoteDelivered (nt_id r)" "r \<in> set (ss_notes db)" "nt_delivered r = 0"
  shows "\<exists>r' \<in> set (ss_notes (run_op hx dv pick op db)). pending_as r r'"
proof -
  have same: ?thesis if "ss_notes (run_op hx dv pick op db) = ss_notes db"
    using assms(2,3) that by (auto simp: pending_as_def)
  have flagged: "\<exists>r' \<in> set (fst (sql_update P f (ss_notes db))). pending_as r r'"
    if "P r \<Longrightarrow> pending_as r (f r)" for P f
    using in_sql_update [OF assms(2), of P f] that assms(3)
    by (intro bexI [of _ "if P r then f r else r"]) (auto simp: pending_as_def)
  show ?thesis
  proof (cases op)
    case (NoteDelivered i)
    then have "\<exists>r' \<in> set (fst (sql_update (\<lambda>r. nt_id r = i) (\<lambda>r. r\<lparr>nt_delivered := 1\<rparr>) (ss_notes db))).
        pending_as r r'" using assms(1) by (intro flagged) auto
    then show ?thesis using same
      by (auto simp: NoteDelivered mark_notification_delivered_def flag_notification_def kept_or_def
        split: prod.splits)
  next
    case (NoteRead i)
    have "\<exists>r' \<in> set (fst (sql_update (\<lambda>r. nt_id r = i) (\<lambda>r. r\<lparr>nt_read := 1\<rparr>) (ss_notes db))).
        pending_as r r'" using assms(3) by (intro flagged) (auto simp: pending_as_def)
    then show ?thesis using same
      by (auto simp: NoteRead mark_notification_read_def flag_notification_def kept_or_def
        split: prod.splits)
  next
    case (PruneNotes t)
    show ?thesis using assms(2,3)
      by (auto simp: PruneNotes prune_notifications_def sql_delete_def pending_as_def)
  next
    case (PushNote k p t)
    show ?thesis using assms(2,3)
      by (auto simp: PushNote push_notification_def kept_or_def rbind_def ok_or_def pending_as_def
        split: sum.splits option.splits)
  qed (use same in \<open>auto simp: registry_defs kept_or_def rbind_def Let_def
        split: sum.splits option.splits prod.splits if_splits\<close>)
qed

lemma pending_run:
  assumes "NoteDelivered (nt_id r) \<notin> set ops" "r \<in> set (ss_notes db)" "nt_delivered r = 0"
  shows "\<exists>r' \<in> set (ss_notes (run_ops hx dv pick ops db)). pending_as r r'"
  using assms
proof (induction ops arbitrary: db r)
  case Nil
  then show ?case by (auto simp: run_ops_def pending_as_def)
next
  case (Cons op ops)
  obtain r1 where r1: "r1 \<in> set (ss_notes (run_op hx dv pick op db))" "pending_as r r1"
    using pending_step [of op r db hx dv pick] Cons.prems by auto
  have "\<exists>r' \<in> set (ss_notes (run_ops hx dv pick ops (run_op hx dv pick op db))). pending_as r1 r'"
    using Cons.prems r1 by (intro Cons.IH) (auto simp: pending_as_def)
  with r1(2) show ?case by (auto simp: run_ops_def pending_as_def)
qed

lemma undelivered_set:
  "length (ss_notes db) \<le> limit \<Longrightarrow>
   set (undelivered_notifications db limit) =
     notification_of ` {r \<in> set (ss_notes db). nt_delivered r = 0}"
  using le_trans [OF length_filter_le [of "\<lambda>r. nt_delivered r = 0" "ss_notes db"], of limit]
  by (simp add: undelivered_notifications_def)

lemma undelivered_sorted:
  "sorted (map (\<lambda>n. (no_ts n, no_id n)) (undelivered_notifications db limit))"
proof -
  let ?key = "\<lambda>r. (nt_ts r, nt_id r)"
  have "sorted (map ?key (take limit (sort_key ?key (filter (\<lambda>r. nt_delivered r = 0) (ss_notes db)))))"
    unfolding take_map [symmetric] by (rule sorted_wrt_take) (rule sorted_sort_key)
  then show ?thesis
    by (simp add: undelivered_notifications_def notification_of_def comp_def)
qed

text \<open>
  A notification that is waiting to be delivered is still waiting, with its time, kind and payload,
  after any sequence of operations on the registries other than marking it delivered; reading it or
  pruning old notifications does not drop it.  The waiting ones are handed out oldest first.
\<close>

theorem notifications_not_lost:
  assumes "n \<in> set (undelivered_notifications db limit)"
    and "NoteDelivered (no_id n) \<notin> set ops"
    and "db' = run_ops hx dv pick ops db"
    and "length (ss_notes db') \<le> limit'"
  shows "(\<exists>n' \<in> set (undelivered_notifications db' limit').
            no_id n' = no_id n \<and> no_ts n' = no_ts n \<and> no_kind n' = no_kind n \<and>
            no_payload n' = no_payload n \<and> \<not> no_delivered n') \<and>
         sorted (map (\<lambda>n. (no_ts n, no_id n)) (undelivered_notifications db' limit'))"
proof -
  from assms(1) obtain r where r: "r \<in> set (ss_notes db)" "nt_delivered r = 0" "n = notification_of r"
    by (auto simp: undelivered_notifications_def dest!: in_set_takeD)
  then have "NoteDelivered (nt_id r) \<notin> set ops" using assms(2) by (simp add: notification_of_def)
  from pending_run [OF this r(1,2), of hx dv pick]
  obtain r' where r': "r' \<in> set (ss_notes db')" "pending_as r r'" using assms(3) by auto
  then have "notification_of r' \<in> set (undelivered_notifications db' limit')"
    by (auto simp: undelivered_set [OF assms(4)] pending_as_def)
  moreover have "no_id (notification_of r') = no_id n \<and> no_ts (notification_of r') = no_ts n \<and>
      no_kind (notification_of r') = no_kind n \<and> no_payload (notification_of r') = no_payload n \<and>
      \<not> no_delivered (notification_of r')"
    using r'(2) by (simp add: r(3) pending_as_def notification_of_def)
  ultimately show ?thesis using undelivered_sorted by blast
qed

section \<open>Witnesses\<close>

definition empty_registries :: sessions_db where
  "empty_registries =
     \<lparr>ss_ptys = [], ss_agents = [], ss_tabs = [], ss_snippets = [], ss_notes = [], ss_settings = []\<rparr>"

definition never_pick :: "int list \<Rightarrow> int option" where
  "never_pick ids = None"

definition sample_ops :: "registry_op list" where
  "sample_ops = [CreateAgent ''a1'' ''claude'' ''/w'' StIdle 5, SetAgentState ''a1'' StExited 9,
     UpsertSnippet ''/w'' ''test'' ''cargo test'', UseSnippet 1, PushNote ''k'' ''old'' 3,
     PushNote ''k'' ''new'' 7, NoteRead 1, NoteDelivered 2, PruneNotes 100]"

lemma registries_ok_empty: "registries_ok empty_registries"
  by (simp add: registries_ok_def empty_registries_def ptys_ok_def agents_ok_def tabs_ok_def
      snippets_ok_def notes_ok_def)

theorem registries_stay_readable_witness:
  "\<exists>agents. list_agents (run_ops hex_crate no_devices never_pick sample_ops empty_registries) = Inr agents \<and>
     length agents = length (ss_agents (run_ops hex_crate no_devices never_pick sample_ops empty_registries))"
  using registries_stay_readable
    [of never_pick empty_registries "run_ops hex_crate no_devices never_pick sample_ops empty_registries"]
    registries_ok_empty by (simp add: rowid_laws_def never_pick_def)

definition one_note :: sessions_db where
  "one_note = empty_registries\<lparr>ss_notes :=
     [\<lparr>nt_id = 1, nt_ts = 3, nt_kind = ''k'', nt_payload = ''old'', nt_delivered = 0, nt_read = 0\<rparr>]\<rparr>"

definition note_ops :: "registry_op list" where
  "note_ops = [PushNote ''k'' ''new'' 7, NoteRead 1, NoteDelivered 2, PruneNotes 100]"

lemma run_note_ops:
  "ss_notes (run_ops hex_crate no_devices never_pick note_ops one_note) =
     [\<lparr>nt_id = 1, nt_ts = 3, nt_kind = ''k'', nt_payload = ''old'', nt_delivered = 0, nt_read = 1\<rparr>,
      \<lparr>nt_id = 2, nt_ts = 7, nt_kind = ''k'', nt_payload = ''new'', nt_delivered = 1, nt_read = 0\<rparr>]"
  by (simp add: run_ops_def note_ops_def one_note_def empty_registries_def registry_defs kept_or_def
      next_rowid_def sql_update_def sql_delete_def)

theorem notifications_not_lost_witness:
  "\<exists>n' \<in> set (undelivered_notifications
      (run_ops hex_crate no_devices never_pick note_ops one_note) 10). no_payload n' = ''old''"
  using notifications_not_lost
    [of "\<lparr>no_id = 1, no_ts = 3, no_kind = ''k'', no_payload = ''old'', no_delivered = False, no_read = False\<rparr>"
        one_note 10 note_ops _ hex_crate no_devices never_pick 10, OF _ _ refl]
  by (auto simp: run_note_ops) (auto simp: note_ops_def one_note_def undelivered_notifications_def notification_of_def)

section \<open>Settings\<close>

text \<open>The table is a finite map.\<close>

lemma find_map_of: "map_option snd (find (\<lambda>r. fst r = k) rows) = map_of rows k"
  by (induction rows) auto

lemma map_of_set_row:
  "map_of (map (\<lambda>r. if fst r = k then (k, v) else r) rows) j =
     (if j = k \<and> list_ex (\<lambda>r. fst r = k) rows then Some v else map_of rows j)"
  by (cases "j = k"; induction rows) simp_all

lemma map_of_remove_rows: "map_of (filter (\<lambda>r. fst r \<noteq> k) rows) = (map_of rows)(k := None)"
  by (induction rows) auto

lemma setting_get_map: "setting_get db k = map_of (ss_settings db) k"
  by (simp add: setting_get_def find_map_of)

lemma setting_set_map: "setting_get (setting_set db k v) = (setting_get db)(k \<mapsto> v)"
proof (cases "list_ex (\<lambda>r. fst r = k) (ss_settings db)")
  case True
  then show ?thesis
    by (simp add: fun_eq_iff setting_get_map setting_set_def sql_update_def map_of_set_row)
next
  case False
  then have "map_of (ss_settings db) k = None"
    by (auto simp: map_of_eq_None_iff list_ex_iff)
  with False show ?thesis
    by (auto simp: fun_eq_iff setting_get_map setting_set_def map_add_def split: option.split)
qed

lemma setting_remove_map: "setting_get (fst (setting_remove db k)) = (setting_get db)(k := None)"
  by (simp add: fun_eq_iff setting_get_map setting_remove_def sql_delete_def map_of_remove_rows)

end
