(* ===== verification/Errors.thy ===== *)
theory Errors
  imports Ids Capabilities
begin

text \<open>
  \<open>gonomad-proto/src/error.rs\<close>: the closed set of failures that can cross the wire, the flags that
  drive the client's reaction to each, and the texts rendered for the user and for the log.  The
  \<open>u32\<close> fields are natural numbers: nothing here computes with them beyond a rounded-up division.
\<close>

datatype error_kind =
    Denied capability
  | NotFound
  | Conflict digest
  | RateLimited nat
  | ResourceExhausted string nat
  | Unsupported string "nat option"
  | PresenceRequired digest
  | Cancelled
  | BadRequest string
  | Internal string

fun error_code :: "error_kind \<Rightarrow> string" where
  "error_code (Denied _) = ''denied''"
| "error_code NotFound = ''not_found''"
| "error_code (Conflict _) = ''conflict''"
| "error_code (RateLimited _) = ''rate_limited''"
| "error_code (ResourceExhausted _ _) = ''resource_exhausted''"
| "error_code (Unsupported _ _) = ''unsupported''"
| "error_code (PresenceRequired _) = ''presence_required''"
| "error_code Cancelled = ''cancelled''"
| "error_code (BadRequest _) = ''bad_request''"
| "error_code (Internal _) = ''internal''"

fun is_retryable :: "error_kind \<Rightarrow> bool" where
  "is_retryable (RateLimited _) = True"
| "is_retryable (ResourceExhausted _ _) = True"
| "is_retryable (Internal _) = True"
| "is_retryable (Denied _) = False"
| "is_retryable NotFound = False"
| "is_retryable (Conflict _) = False"
| "is_retryable (Unsupported _ _) = False"
| "is_retryable (PresenceRequired _) = False"
| "is_retryable Cancelled = False"
| "is_retryable (BadRequest _) = False"

fun needs_user_action :: "error_kind \<Rightarrow> bool" where
  "needs_user_action (Denied _) = True"
| "needs_user_action (Conflict _) = True"
| "needs_user_action (PresenceRequired _) = True"
| "needs_user_action (Unsupported _ _) = True"
| "needs_user_action _ = False"

fun user_message :: "error_kind \<Rightarrow> string" where
  "user_message (Denied c) =
     ''This device is not allowed to '' @ map ascii_lower (capability_description c)"
| "user_message NotFound = ''Not found''"
| "user_message (Conflict _) = ''This file changed on your machine''"
| "user_message (RateLimited ms) =
     ''Too many requests '' @ em_dash @ '' retrying in '' @ show_nat (div_ceil ms 1000) @ ''s''"
| "user_message (ResourceExhausted resource limit) =
     ''Reached the limit of '' @ show_nat limit @ '' '' @ resource @ '' '' @ em_dash
       @ '' close one first''"
| "user_message (Unsupported feature (Some v)) =
     ''Your machine'' @ [CHR 0x27] @ ''s GoNomad is too old for '' @ feature
       @ '' (needs v'' @ show_nat v @ '' or later)''"
| "user_message (Unsupported feature None) =
     ''Your machine'' @ [CHR 0x27] @ ''s GoNomad does not support '' @ feature"
| "user_message (PresenceRequired _) = ''Confirm with your fingerprint''"
| "user_message Cancelled = ''Cancelled''"
| "user_message (BadRequest _) =
     ''Something went wrong '' @ em_dash @ '' please report this''"
| "user_message (Internal trace_id) =
     ''Your machine reported an error (ref '' @ trace_id @ '')''"

fun error_display :: "hex_codec \<Rightarrow> error_kind \<Rightarrow> string" where
  "error_display hx (Denied c) = ''denied: requires '' @ capability_as_str c"
| "error_display hx NotFound = ''not found''"
| "error_display hx (Conflict current) =
     ''conflict: file is now '' @ id_short hx (digest_bytes current)"
| "error_display hx (RateLimited ms) = ''rate limited: retry in '' @ show_nat ms @ ''ms''"
| "error_display hx (ResourceExhausted resource limit) =
     ''resource exhausted: '' @ resource @ '' limit of '' @ show_nat limit @ '' reached''"
| "error_display hx (Unsupported feature (Some v)) =
     ''unsupported: '' @ feature @ '' requires protocol v'' @ show_nat v"
| "error_display hx (Unsupported feature None) = ''unsupported: '' @ feature"
| "error_display hx (PresenceRequired challenge) =
     ''presence required for operation '' @ id_short hx (digest_bytes challenge)"
| "error_display hx Cancelled = ''cancelled''"
| "error_display hx (BadRequest detail) = ''bad request: '' @ detail"
| "error_display hx (Internal trace_id) = ''internal error (trace '' @ trace_id @ '')''"

record proto_error =
  err_kind :: error_kind
  err_correlation_id :: "nat option"

definition proto_error_new :: "error_kind \<Rightarrow> proto_error" where
  "proto_error_new k = \<lparr>err_kind = k, err_correlation_id = None\<rparr>"

definition for_request :: "proto_error \<Rightarrow> nat \<Rightarrow> proto_error" where
  "for_request e cid = e\<lparr>err_correlation_id := Some cid\<rparr>"

definition err_denied :: "capability \<Rightarrow> proto_error" where
  "err_denied c = proto_error_new (Denied c)"

definition err_not_found :: proto_error where
  "err_not_found = proto_error_new NotFound"

definition err_conflict :: "digest \<Rightarrow> proto_error" where
  "err_conflict d = proto_error_new (Conflict d)"

definition err_rate_limited :: "nat \<Rightarrow> proto_error" where
  "err_rate_limited ms = proto_error_new (RateLimited ms)"

definition err_presence_required :: "digest \<Rightarrow> proto_error" where
  "err_presence_required d = proto_error_new (PresenceRequired d)"

definition err_bad_request :: "string \<Rightarrow> proto_error" where
  "err_bad_request detail = proto_error_new (BadRequest detail)"

definition err_internal :: "string \<Rightarrow> proto_error" where
  "err_internal trace = proto_error_new (Internal trace)"

lemma proto_error_new_sel [simp]:
  "err_kind (proto_error_new k) = k"
  "err_correlation_id (proto_error_new k) = None"
  by (simp_all add: proto_error_new_def)

lemma proto_error_new_inj [simp]: "proto_error_new a = proto_error_new b \<longleftrightarrow> a = b"
  by (simp add: proto_error_new_def)

text \<open>A failure is never both retried by itself and handed to the user.\<close>

lemma retry_or_user_action: "\<not> (is_retryable k \<and> needs_user_action k)"
  by (cases k) simp_all

lemma error_code_inj_kind:
  "error_code a = error_code b \<Longrightarrow> is_retryable a = is_retryable b"
  by (cases a; cases b) simp_all

lemmas proto_error_defs = err_denied_def err_not_found_def err_conflict_def err_rate_limited_def
  err_presence_required_def err_bad_request_def err_internal_def

end
