(* ===== verification/RateLimit.thy ===== *)
theory RateLimit
  imports Errors "HOL-Library.Multiset"
begin

text \<open>
  \<open>gonomad-policy/src/rate_limit.rs\<close>: token buckets, concurrency ceilings and byte budgets.  A
  reading of the monotonic clock is the nanoseconds since its epoch; every operation that reads the
  clock takes the readings as arguments, in the order the code makes them.  The \<open>HashMap\<close> of
  buckets is a partial map.  Token counts are in millionths of a token; the \<open>u128\<close> and \<open>u64\<close>
  arithmetic on them saturates as the code's does, and the unchecked increment of the \<open>u32\<close> count
  of operations in flight wraps as a release build's does.
\<close>

definition TOKEN_SCALE :: nat where "TOKEN_SCALE = 1000000"
definition MAX_FILE_PAYLOAD_BYTES :: nat where "MAX_FILE_PAYLOAD_BYTES = 32 * 1024 * 1024"
definition MAX_SEND_BUFFER_BYTES :: nat where "MAX_SEND_BUFFER_BYTES = 64 * 1024 * 1024"

section \<open>Clock\<close>

type_synonym duration = nat
type_synonym monotonic = nat

definition DURATION_MAX :: nat where
  "DURATION_MAX = u64_max * 1000000000 + 999999999"

definition from_secs :: "nat \<Rightarrow> duration" where "from_secs s = s * 1000000000"

definition monotonic_from_millis :: "nat \<Rightarrow> monotonic" where
  "monotonic_from_millis ms = ms * 1000000"

definition saturating_since :: "monotonic \<Rightarrow> monotonic \<Rightarrow> duration" where
  "saturating_since now earlier = now - earlier"

definition monotonic_saturating_add :: "monotonic \<Rightarrow> duration \<Rightarrow> monotonic" where
  "monotonic_saturating_add t d = sat_add DURATION_MAX t d"

text \<open>The manual clock is a counter of nanoseconds that saturates at \<open>u64::MAX\<close>.\<close>

definition manual_clock_new :: nat where "manual_clock_new = 0"

definition manual_clock_advance :: "nat \<Rightarrow> duration \<Rightarrow> nat" where
  "manual_clock_advance cur delta = sat_add u64_max cur (clamp_to u64_max delta)"

definition manual_clock_now :: "nat \<Rightarrow> monotonic" where "manual_clock_now nanos = nanos"

section \<open>Classes and limits\<close>

datatype limit_scope = PerDevice | Global

record refill_rate =
  rate_tokens :: nat
  rate_per :: duration

record class_limits =
  lim_burst :: nat
  lim_refill :: "refill_rate option"
  lim_max_concurrent :: "nat option"
  lim_max_bytes_per_op :: "nat option"
  lim_max_bytes_in_flight :: "nat option"
  lim_max_items :: "nat option"
  lim_deadline :: "duration option"

definition limits_NONE :: class_limits where
  "limits_NONE =
     \<lparr>lim_burst = 0, lim_refill = None, lim_max_concurrent = None, lim_max_bytes_per_op = None,
      lim_max_bytes_in_flight = None, lim_max_items = None, lim_deadline = None\<rparr>"

datatype operation_class =
    OpPairing | OpHandshake | OpFsRead | OpFsWrite | OpSearch
  | OpPtySpawn | OpWatcher | OpAgentSpawn | OpSendBuffer | OpControl

definition operation_class_ALL :: "operation_class list" where
  "operation_class_ALL =
     [OpPairing, OpHandshake, OpFsRead, OpFsWrite, OpSearch, OpPtySpawn, OpWatcher, OpAgentSpawn,
      OpSendBuffer, OpControl]"

fun class_as_str :: "operation_class \<Rightarrow> string" where
  "class_as_str OpPairing = ''pairing''"
| "class_as_str OpHandshake = ''handshake''"
| "class_as_str OpFsRead = ''fs.read''"
| "class_as_str OpFsWrite = ''fs.write''"
| "class_as_str OpSearch = ''search''"
| "class_as_str OpPtySpawn = ''pty.spawn''"
| "class_as_str OpWatcher = ''watcher''"
| "class_as_str OpAgentSpawn = ''agent.spawn''"
| "class_as_str OpSendBuffer = ''send_buffer''"
| "class_as_str OpControl = ''control''"

fun resource_name :: "operation_class \<Rightarrow> string" where
  "resource_name OpPairing = ''pairing attempts''"
| "resource_name OpHandshake = ''handshakes''"
| "resource_name OpFsRead = ''reads''"
| "resource_name OpFsWrite = ''writes''"
| "resource_name OpSearch = ''searches''"
| "resource_name OpPtySpawn = ''ptys''"
| "resource_name OpWatcher = ''watchers''"
| "resource_name OpAgentSpawn = ''agent sessions''"
| "resource_name OpSendBuffer = ''buffered bytes''"
| "resource_name OpControl = ''requests''"

fun class_scope :: "operation_class \<Rightarrow> limit_scope" where
  "class_scope OpPairing = Global"
| "class_scope OpSendBuffer = Global"
| "class_scope _ = PerDevice"

fun limits :: "operation_class \<Rightarrow> class_limits" where
  "limits OpPairing = limits_NONE\<lparr>lim_burst := 3, lim_refill := None, lim_max_concurrent := Some 1\<rparr>"
| "limits OpHandshake =
     limits_NONE\<lparr>lim_burst := 10,
       lim_refill := Some \<lparr>rate_tokens = 10, rate_per = from_secs 60\<rparr>\<rparr>"
| "limits OpFsRead =
     limits_NONE\<lparr>lim_burst := 100,
       lim_refill := Some \<lparr>rate_tokens = 100, rate_per = from_secs 1\<rparr>,
       lim_max_bytes_per_op := Some MAX_FILE_PAYLOAD_BYTES\<rparr>"
| "limits OpFsWrite =
     limits_NONE\<lparr>lim_burst := 20,
       lim_refill := Some \<lparr>rate_tokens = 20, rate_per = from_secs 1\<rparr>,
       lim_max_bytes_per_op := Some MAX_FILE_PAYLOAD_BYTES\<rparr>"
| "limits OpSearch =
     limits_NONE\<lparr>lim_burst := 2,
       lim_refill := Some \<lparr>rate_tokens = 2, rate_per = from_secs 1\<rparr>,
       lim_max_concurrent := Some 4, lim_max_items := Some 10000,
       lim_deadline := Some (from_secs 30)\<rparr>"
| "limits OpPtySpawn =
     limits_NONE\<lparr>lim_burst := 1,
       lim_refill := Some \<lparr>rate_tokens = 1, rate_per = from_secs 1\<rparr>,
       lim_max_concurrent := Some 16\<rparr>"
| "limits OpWatcher = limits_NONE\<lparr>lim_max_concurrent := Some 8\<rparr>"
| "limits OpAgentSpawn =
     limits_NONE\<lparr>lim_burst := 1,
       lim_refill := Some \<lparr>rate_tokens = 1, rate_per = from_secs 5\<rparr>,
       lim_max_concurrent := Some 8\<rparr>"
| "limits OpSendBuffer = limits_NONE\<lparr>lim_max_bytes_in_flight := Some MAX_SEND_BUFFER_BYTES\<rparr>"
| "limits OpControl =
     limits_NONE\<lparr>lim_burst := 50,
       lim_refill := Some \<lparr>rate_tokens = 50, rate_per = from_secs 1\<rparr>\<rparr>"

section \<open>Buckets\<close>

type_synonym bucket_key = "device_id option \<times> operation_class"

record bucket =
  bk_tokens :: nat
  bk_last_refill :: monotonic
  bk_in_flight :: nat
  bk_bytes_in_flight :: nat

definition bucket_new :: "class_limits \<Rightarrow> monotonic \<Rightarrow> bucket" where
  "bucket_new L now =
     \<lparr>bk_tokens = lim_burst L * TOKEN_SCALE, bk_last_refill = now, bk_in_flight = 0,
      bk_bytes_in_flight = 0\<rparr>"

definition refill_added :: "refill_rate \<Rightarrow> duration \<Rightarrow> nat" where
  "refill_added rate elapsed =
     sat_mul u128_max (sat_mul u128_max elapsed (rate_tokens rate)) TOKEN_SCALE
       div max (rate_per rate) 1"

definition bucket_refill :: "bucket \<Rightarrow> monotonic \<Rightarrow> class_limits \<Rightarrow> bucket" where
  "bucket_refill b now L =
     (case lim_refill L of
        None \<Rightarrow> b
      | Some rate \<Rightarrow>
          (if rate_tokens rate = 0 then b
           else let added = refill_added rate (saturating_since now (bk_last_refill b)) in
             if added = 0 then b
             else b\<lparr>bk_tokens := min (clamp_to u64_max (sat_add u128_max (bk_tokens b) added))
                                  (lim_burst L * TOKEN_SCALE),
                    bk_last_refill := now\<rparr>))"

definition try_take_token :: "bucket \<Rightarrow> bucket \<times> bool" where
  "try_take_token b =
     (if bk_tokens b \<ge> TOKEN_SCALE then (b\<lparr>bk_tokens := bk_tokens b - TOKEN_SCALE\<rparr>, True)
      else (b, False))"

definition retry_after_ms :: "nat \<Rightarrow> refill_rate \<Rightarrow> nat" where
  "retry_after_ms tokens rate =
     (let deficit = TOKEN_SCALE - tokens;
          denominator = sat_mul u128_max (rate_tokens rate) TOKEN_SCALE
      in if denominator = 0 then u32_max
         else let nanos = sat_mul u128_max deficit (rate_per rate) div denominator;
                  ms = max (div_ceil nanos 1000000) 1
              in clamp_to u32_max ms)"

definition exhausted :: "operation_class \<Rightarrow> nat \<Rightarrow> proto_error" where
  "exhausted c n = proto_error_new (ResourceExhausted (resource_name c) (clamp_to u32_max n))"

section \<open>Handles\<close>

datatype slot = Slot (slot_key: bucket_key)

definition slot_class :: "slot \<Rightarrow> operation_class" where "slot_class s = snd (slot_key s)"

datatype byte_reservation = ByteReservation (res_key: bucket_key) (res_bytes: nat)

section \<open>The limiter\<close>

type_synonym rate_limiter = "bucket_key \<rightharpoonup> bucket"

definition rate_limiter_new :: rate_limiter where "rate_limiter_new = Map.empty"

definition tracked_buckets :: "rate_limiter \<Rightarrow> nat" where "tracked_buckets m = card (dom m)"

definition bucket_key_of :: "device_id \<Rightarrow> operation_class \<Rightarrow> bucket_key" where
  "bucket_key_of dev c = (case class_scope c of PerDevice \<Rightarrow> (Some dev, c) | Global \<Rightarrow> (None, c))"

text \<open>The entry a key has, or the full bucket \<open>or_insert_with\<close> puts there.\<close>

definition bucket_at :: "rate_limiter \<Rightarrow> bucket_key \<Rightarrow> monotonic \<Rightarrow> bucket" where
  "bucket_at m key now = (case m key of Some b \<Rightarrow> b | None \<Rightarrow> bucket_new (limits (snd key)) now)"

definition try_acquire ::
  "rate_limiter \<Rightarrow> device_id \<Rightarrow> operation_class \<Rightarrow> monotonic \<Rightarrow>
     rate_limiter \<times> (proto_error, unit) result" where
  "try_acquire m dev c now =
     (let L = limits c in
      if lim_refill L = None \<and> lim_burst L = 0 then (m, Ok ())
      else let key = bucket_key_of dev c;
               refilled = bucket_refill (bucket_at m key now) now L;
               (b, taken) = try_take_token refilled
           in if taken then (m(key \<mapsto> b), Ok ())
              else (m(key \<mapsto> b),
                    Err (case lim_refill L of
                           Some rate \<Rightarrow> err_rate_limited (retry_after_ms (bk_tokens b) rate)
                         | None \<Rightarrow> exhausted c (lim_burst L))))"

text \<open>
  \<open>now\<close> is the reading of \<open>try_acquire_slot\<close> itself, \<open>now2\<close> the one \<open>try_acquire\<close> makes.
\<close>

definition try_acquire_slot ::
  "rate_limiter \<Rightarrow> device_id \<Rightarrow> operation_class \<Rightarrow> monotonic \<Rightarrow> monotonic \<Rightarrow>
     rate_limiter \<times> (proto_error, slot) result" where
  "try_acquire_slot m dev c now now2 =
     (let key = bucket_key_of dev c;
          m1 = (case lim_max_concurrent (limits c) of
                  None \<Rightarrow> m
                | Some hi \<Rightarrow> m(key \<mapsto> bucket_at m key now));
          refused = (case lim_max_concurrent (limits c) of
                  None \<Rightarrow> None
                | Some hi \<Rightarrow> (if bk_in_flight (bucket_at m key now) \<ge> hi then Some hi else None))
      in case refused of
           Some hi \<Rightarrow> (m1, Err (exhausted c hi))
         | None \<Rightarrow>
             (case try_acquire m1 dev c now2 of
                (m2, Inl e) \<Rightarrow> (m2, Err e)
              | (m2, Inr _) \<Rightarrow>
                  (let b = bucket_at m2 key now
                   in (m2(key \<mapsto> b\<lparr>bk_in_flight := (bk_in_flight b + 1) mod 2 ^ 32\<rparr>),
                       Ok (Slot key)))))"

definition release :: "rate_limiter \<Rightarrow> slot \<Rightarrow> rate_limiter" where
  "release m s =
     (case m (slot_key s) of
        Some b \<Rightarrow> m(slot_key s \<mapsto> b\<lparr>bk_in_flight := bk_in_flight b - 1\<rparr>)
      | None \<Rightarrow> m)"

definition in_flight :: "rate_limiter \<Rightarrow> device_id \<Rightarrow> operation_class \<Rightarrow> nat" where
  "in_flight m dev c =
     (case m (bucket_key_of dev c) of None \<Rightarrow> 0 | Some b \<Rightarrow> bk_in_flight b)"

definition check_payload_size :: "operation_class \<Rightarrow> nat \<Rightarrow> (proto_error, unit) result" where
  "check_payload_size c n =
     (case lim_max_bytes_per_op (limits c) of
        Some hi \<Rightarrow> (if n > hi then Err (exhausted c hi) else Ok ())
      | None \<Rightarrow> Ok ())"

definition max_items :: "operation_class \<Rightarrow> nat option" where
  "max_items c = lim_max_items (limits c)"

definition deadline :: "operation_class \<Rightarrow> duration option" where
  "deadline c = lim_deadline (limits c)"

definition reserve_bytes ::
  "rate_limiter \<Rightarrow> device_id \<Rightarrow> operation_class \<Rightarrow> nat \<Rightarrow> monotonic \<Rightarrow>
     rate_limiter \<times> (proto_error, byte_reservation) result" where
  "reserve_bytes m dev c n now =
     (let key = bucket_key_of dev c in
      case lim_max_bytes_in_flight (limits c) of
        None \<Rightarrow> (m, Ok (ByteReservation key 0))
      | Some hi \<Rightarrow>
          (let b = bucket_at m key now; after = sat_add u64_max (bk_bytes_in_flight b) n
           in if after > hi then (m(key \<mapsto> b), Err (exhausted c hi))
              else (m(key \<mapsto> b\<lparr>bk_bytes_in_flight := after\<rparr>), Ok (ByteReservation key n))))"

definition release_bytes :: "rate_limiter \<Rightarrow> byte_reservation \<Rightarrow> rate_limiter" where
  "release_bytes m r =
     (case m (res_key r) of
        Some b \<Rightarrow> m(res_key r \<mapsto> b\<lparr>bk_bytes_in_flight := bk_bytes_in_flight b - res_bytes r\<rparr>)
      | None \<Rightarrow> m)"

definition bytes_in_flight :: "rate_limiter \<Rightarrow> device_id \<Rightarrow> operation_class \<Rightarrow> nat" where
  "bytes_in_flight m dev c =
     (case m (bucket_key_of dev c) of None \<Rightarrow> 0 | Some b \<Rightarrow> bk_bytes_in_flight b)"

definition limiter_reset ::
  "rate_limiter \<Rightarrow> device_id \<Rightarrow> operation_class \<Rightarrow> monotonic \<Rightarrow> rate_limiter" where
  "limiter_reset m dev c now =
     (let key = bucket_key_of dev c in
      m(key \<mapsto> (bucket_at m key now)
          \<lparr>bk_tokens := lim_burst (limits c) * TOKEN_SCALE, bk_last_refill := now\<rparr>))"

definition forget_device :: "rate_limiter \<Rightarrow> device_id \<Rightarrow> rate_limiter" where
  "forget_device m dev = (\<lambda>key. if fst key = Some dev then None else m key)"

section \<open>The configured classes\<close>

text \<open>Keys are pairs; quantifiers over them are kept whole.\<close>

declare split_paired_All [simp del] split_paired_Ex [simp del]

lemmas limit_sel = limits_NONE_def from_secs_def

text \<open>
  Every configured rate is positive, allows at least one call at a time, and gives each
  micro-token a whole number of nanoseconds.
\<close>

lemma class_rate:
  assumes "lim_refill (limits c) = Some rate"
  shows "0 < rate_tokens rate \<and> 0 < rate_per rate \<and> 1 \<le> lim_burst (limits c) \<and>
    (\<exists>k. 0 < k \<and> k \<le> 6000 \<and> rate_per rate = k * (rate_tokens rate * TOKEN_SCALE)) \<and>
    rate_tokens rate \<le> 100"
proof -
  have "rate_per rate = (rate_per rate div (rate_tokens rate * TOKEN_SCALE))
          * (rate_tokens rate * TOKEN_SCALE) \<and>
      0 < rate_per rate div (rate_tokens rate * TOKEN_SCALE) \<and>
      rate_per rate div (rate_tokens rate * TOKEN_SCALE) \<le> 6000 \<and>
      0 < rate_tokens rate \<and> 0 < rate_per rate \<and> 1 \<le> lim_burst (limits c) \<and>
      rate_tokens rate \<le> 100"
    using assms by (cases c) (auto simp: limit_sel TOKEN_SCALE_def)
  then show ?thesis by blast
qed

lemma class_bounds:
  "lim_burst (limits c) \<le> 100"
  "lim_max_concurrent (limits c) = Some hi \<Longrightarrow> 1 \<le> hi \<and> hi \<le> 16"
  "lim_max_bytes_in_flight (limits c) = Some n \<Longrightarrow> n \<le> u64_max - 1"
  by (cases c; simp add: limit_sel MAX_SEND_BUFFER_BYTES_def u64_max_def)+

section \<open>One bucket\<close>

definition capacity :: "operation_class \<Rightarrow> nat" where
  "capacity c = lim_burst (limits c) * TOKEN_SCALE"

text \<open>What every operation keeps true of the bucket of a class.\<close>

definition bucket_ok :: "operation_class \<Rightarrow> bucket \<Rightarrow> bool" where
  "bucket_ok c b \<longleftrightarrow>
     bk_tokens b \<le> capacity c \<and>
     (\<forall>hi. lim_max_concurrent (limits c) = Some hi \<longrightarrow> bk_in_flight b \<le> hi) \<and>
     (\<forall>hi. lim_max_bytes_in_flight (limits c) = Some hi \<longrightarrow> bk_bytes_in_flight b \<le> hi)"

definition limiter_ok :: "rate_limiter \<Rightarrow> bool" where
  "limiter_ok m \<longleftrightarrow> (\<forall>key b. m key = Some b \<longrightarrow> bucket_ok (snd key) b)"

lemma bucket_ok_new: "bucket_ok c (bucket_new (limits c) now)"
  by (simp add: bucket_ok_def bucket_new_def capacity_def)

lemma bucket_ok_at: "limiter_ok m \<Longrightarrow> bucket_ok (snd key) (bucket_at m key now)"
  by (auto simp: limiter_ok_def bucket_at_def bucket_ok_new split: option.split)

lemma limiter_ok_upd [intro]:
  "limiter_ok m \<Longrightarrow> bucket_ok (snd key) b \<Longrightarrow> limiter_ok (m(key \<mapsto> b))"
  by (auto simp: limiter_ok_def)

lemma snd_bucket_key [simp]: "snd (bucket_key_of dev c) = c"
  by (cases "class_scope c") (simp_all add: bucket_key_of_def)

lemma refill_added_le:
  assumes "0 < rate_per rate"
  shows "refill_added rate e * rate_per rate \<le> e * (rate_tokens rate * TOKEN_SCALE)"
proof -
  let ?x = "sat_mul u128_max (sat_mul u128_max e (rate_tokens rate)) TOKEN_SCALE"
  have "refill_added rate e * rate_per rate \<le> ?x"
    using assms by (simp add: refill_added_def max_def)
  also have "?x \<le> sat_mul u128_max e (rate_tokens rate) * TOKEN_SCALE"
    by (rule sat_mul_le)
  also have "\<dots> \<le> e * rate_tokens rate * TOKEN_SCALE"
    by (intro mult_right_mono sat_mul_le) simp
  finally show ?thesis by (simp add: mult.assoc)
qed

lemma bucket_refill_fields [simp]:
  "bk_in_flight (bucket_refill b now L) = bk_in_flight b"
  "bk_bytes_in_flight (bucket_refill b now L) = bk_bytes_in_flight b"
  by (auto simp: bucket_refill_def Let_def split: option.split)

lemma bucket_ok_refill: "bucket_ok c b \<Longrightarrow> bucket_ok c (bucket_refill b now (limits c))"
  by (auto simp: bucket_ok_def capacity_def bucket_refill_def Let_def split: option.split)

lemma bucket_refill_cases:
  assumes "lim_refill L = Some rate"
  obtains "bucket_refill b now L = b"
      "rate_tokens rate = 0 \<or> refill_added rate (now - bk_last_refill b) = 0"
    | "bk_last_refill (bucket_refill b now L) = now" "bk_last_refill b < now"
      "bk_tokens (bucket_refill b now L)
         \<le> bk_tokens b + refill_added rate (now - bk_last_refill b)"
      "bk_tokens (bucket_refill b now L) \<le> lim_burst L * TOKEN_SCALE"
proof (cases "rate_tokens rate = 0 \<or> refill_added rate (now - bk_last_refill b) = 0")
  case True
  then show thesis
    using assms that(1) by (auto simp: bucket_refill_def saturating_since_def)
next
  case False
  then have "bk_last_refill b < now"
    by (intro not_le_imp_less notI) (simp add: refill_added_def sat_mul_def)
  with False show thesis
    using assms that(2)
    by (auto simp: bucket_refill_def saturating_since_def Let_def clamp_to_def sat_add_def)
qed

text \<open>
  The potential of a bucket up to a time \<open>t\<close>: what it holds and what it can still be given.
  Refilling never raises it.
\<close>

definition potential :: "refill_rate \<Rightarrow> monotonic \<Rightarrow> bucket \<Rightarrow> nat" where
  "potential rate t b =
     rate_per rate * bk_tokens b
       + (t - bk_last_refill b) * (rate_tokens rate * TOKEN_SCALE)"

lemma potential_refill:
  assumes "lim_refill L = Some rate" "0 < rate_per rate" "now \<le> t"
  shows "potential rate t (bucket_refill b now L) \<le> potential rate t b"
  using assms(1)
proof (cases rule: bucket_refill_cases [of L rate b now])
  case 1
  then show ?thesis by simp
next
  case 2
  let ?R = "rate_tokens rate * TOKEN_SCALE" and ?d = "now - bk_last_refill b"
  have "rate_per rate * bk_tokens (bucket_refill b now L)
      \<le> rate_per rate * (bk_tokens b + refill_added rate ?d)"
    using 2 by simp
  also have "\<dots> \<le> rate_per rate * bk_tokens b + ?d * ?R"
    using refill_added_le [OF assms(2), of ?d] by (simp add: add_mult_distrib2 mult.commute)
  finally have "rate_per rate * bk_tokens (bucket_refill b now L)
      \<le> rate_per rate * bk_tokens b + ?d * ?R" .
  moreover have "?d * ?R + (t - now) * ?R = (t - bk_last_refill b) * ?R"
    using 2 assms(3) by (simp flip: add_mult_distrib)
  ultimately show ?thesis
    using 2(1) by (simp only: potential_def)
qed

text \<open>Right after a refill a bucket can give, beyond its capacity, only what time brings.\<close>

lemma potential_after_refill:
  assumes "lim_refill (limits c) = Some rate" "bucket_ok c b" "now \<le> t"
  shows "potential rate t (bucket_refill b now (limits c))
    \<le> rate_per rate * (capacity c + 1) + (t - now) * (rate_tokens rate * TOKEN_SCALE)"
  using assms(1)
proof (cases rule: bucket_refill_cases [of "limits c" rate b now])
  case 1
  let ?R = "rate_tokens rate * TOKEN_SCALE" and ?d = "now - bk_last_refill b"
  have rate: "0 < rate_tokens rate" "rate_tokens rate \<le> 100" "0 < rate_per rate"
    "rate_per rate \<le> 6000 * (100 * 1000000)"
  proof -
    from class_rate [OF assms(1)] obtain k where k: "k \<le> 6000"
      "rate_per rate = k * (rate_tokens rate * TOKEN_SCALE)"
      and r: "0 < rate_tokens rate" "rate_tokens rate \<le> 100" "0 < rate_per rate" by blast
    have "rate_tokens rate * TOKEN_SCALE \<le> 100 * 1000000"
      using r by (simp add: TOKEN_SCALE_def)
    with k have "rate_per rate \<le> 6000 * (100 * 1000000)"
      by (metis mult_le_mono)
    with r show "0 < rate_tokens rate" "rate_tokens rate \<le> 100" "0 < rate_per rate"
      "rate_per rate \<le> 6000 * (100 * 1000000)" by auto
  qed
  from 1 rate have "sat_mul u128_max (sat_mul u128_max ?d (rate_tokens rate)) TOKEN_SCALE
      < rate_per rate"
    by (simp add: refill_added_def max_absorb1 Suc_le_eq div_eq_0_iff)
  then have "?d * ?R < rate_per rate"
    using rate(4) by (auto simp: sat_mul_def TOKEN_SCALE_def u128_max_def min_def mult.assoc
        split: if_splits)
  moreover have "(t - bk_last_refill b) * ?R \<le> (?d + (t - now)) * ?R"
    using assms(3) by (intro mult_right_mono) simp_all
  moreover have "rate_per rate * bk_tokens b \<le> rate_per rate * capacity c"
    using assms(2) by (simp add: bucket_ok_def)
  ultimately have "rate_per rate * bk_tokens b + (t - bk_last_refill b) * ?R
      \<le> rate_per rate + rate_per rate * capacity c + (t - now) * ?R"
    unfolding add_mult_distrib by linarith
  then show ?thesis
    by (simp add: potential_def 1(1) add_mult_distrib2)
next
  case 2
  then have "rate_per rate * bk_tokens (bucket_refill b now (limits c)) \<le> rate_per rate * (capacity c + 1)"
    by (intro mult_le_mono2) (simp add: capacity_def)
  with 2 show ?thesis
    by (simp add: potential_def)
qed

section \<open>One call\<close>

lemma try_take_token_cases:
  obtains "TOKEN_SCALE \<le> bk_tokens b"
      "try_take_token b = (b\<lparr>bk_tokens := bk_tokens b - TOKEN_SCALE\<rparr>, True)"
    | "bk_tokens b < TOKEN_SCALE" "try_take_token b = (b, False)"
  by (cases "TOKEN_SCALE \<le> bk_tokens b") (auto simp: try_take_token_def)

lemma bucket_ok_take: "bucket_ok c b \<Longrightarrow> bucket_ok c (fst (try_take_token b))"
  by (auto simp: bucket_ok_def try_take_token_def)

lemma try_take_token_fields [simp]:
  "bk_in_flight (fst (try_take_token b)) = bk_in_flight b"
  "bk_bytes_in_flight (fst (try_take_token b)) = bk_bytes_in_flight b"
  by (simp_all add: try_take_token_def)

definition unlimited :: "operation_class \<Rightarrow> bool" where
  "unlimited c \<longleftrightarrow> lim_refill (limits c) = None \<and> lim_burst (limits c) = 0"

definition refilled_at :: "rate_limiter \<Rightarrow> bucket_key \<Rightarrow> monotonic \<Rightarrow> bucket" where
  "refilled_at m key now = bucket_refill (bucket_at m key now) now (limits (snd key))"

definition rate_error :: "operation_class \<Rightarrow> bucket \<Rightarrow> proto_error" where
  "rate_error c b =
     (case lim_refill (limits c) of
        Some rate \<Rightarrow> err_rate_limited (retry_after_ms (bk_tokens b) rate)
      | None \<Rightarrow> exhausted c (lim_burst (limits c)))"

lemma try_acquire_alt:
  "try_acquire m dev c now =
     (if unlimited c then (m, Ok ())
      else let key = bucket_key_of dev c; b = refilled_at m key now in
        (m(key \<mapsto> fst (try_take_token b)),
         if TOKEN_SCALE \<le> bk_tokens b then Ok () else Err (rate_error c b)))"
  by (simp add: try_acquire_def unlimited_def refilled_at_def rate_error_def Let_def
      try_take_token_def split: option.split)

lemma limiter_ok_acquire: "limiter_ok m \<Longrightarrow> limiter_ok (fst (try_acquire m dev c now))"
  by (simp add: try_acquire_alt Let_def refilled_at_def limiter_ok_upd bucket_ok_take
      bucket_ok_refill bucket_ok_at [where key = "bucket_key_of dev c", simplified])

text \<open>Counts of a key, read off the map as \<open>in_flight\<close> and \<open>bytes_in_flight\<close> read them.\<close>

definition slots_used :: "rate_limiter \<Rightarrow> bucket_key \<Rightarrow> nat" where
  "slots_used m key = (case m key of None \<Rightarrow> 0 | Some b \<Rightarrow> bk_in_flight b)"

definition bytes_used :: "rate_limiter \<Rightarrow> bucket_key \<Rightarrow> nat" where
  "bytes_used m key = (case m key of None \<Rightarrow> 0 | Some b \<Rightarrow> bk_bytes_in_flight b)"

lemma in_flight_used: "in_flight m dev c = slots_used m (bucket_key_of dev c)"
  by (simp add: in_flight_def slots_used_def)

lemma bytes_in_flight_used: "bytes_in_flight m dev c = bytes_used m (bucket_key_of dev c)"
  by (simp add: bytes_in_flight_def bytes_used_def)

lemma used_upd [simp]:
  "slots_used (m(key \<mapsto> b)) j = (if j = key then bk_in_flight b else slots_used m j)"
  "bytes_used (m(key \<mapsto> b)) j = (if j = key then bk_bytes_in_flight b else bytes_used m j)"
  by (simp_all add: slots_used_def bytes_used_def)

lemma bucket_at_used [simp]:
  "bk_in_flight (bucket_at m key now) = slots_used m key"
  "bk_bytes_in_flight (bucket_at m key now) = bytes_used m key"
  by (auto simp: bucket_at_def slots_used_def bytes_used_def bucket_new_def split: option.split)

lemma refilled_at_used [simp]:
  "bk_in_flight (refilled_at m key now) = slots_used m key"
  "bk_bytes_in_flight (refilled_at m key now) = bytes_used m key"
  by (simp_all add: refilled_at_def)

lemma try_acquire_used [simp]:
  "slots_used (fst (try_acquire m dev c now)) = slots_used m"
  "bytes_used (fst (try_acquire m dev c now)) = bytes_used m"
  by (auto simp: try_acquire_alt Let_def fun_eq_iff)

text \<open>The map after the ceiling of \<open>try_acquire_slot\<close> was looked at.\<close>

definition ceiling_seen :: "rate_limiter \<Rightarrow> bucket_key \<Rightarrow> monotonic \<Rightarrow> rate_limiter" where
  "ceiling_seen m key now =
     (case lim_max_concurrent (limits (snd key)) of
        None \<Rightarrow> m | Some hi \<Rightarrow> m(key \<mapsto> bucket_at m key now))"

lemma ceiling_seen_used [simp]:
  "slots_used (ceiling_seen m key now) = slots_used m"
  "bytes_used (ceiling_seen m key now) = bytes_used m"
  by (auto simp: ceiling_seen_def fun_eq_iff split: option.split)

lemma limiter_ok_seen: "limiter_ok m \<Longrightarrow> limiter_ok (ceiling_seen m key now)"
  by (simp add: ceiling_seen_def limiter_ok_upd bucket_ok_at split: option.split)

definition at_ceiling :: "rate_limiter \<Rightarrow> bucket_key \<Rightarrow> nat option" where
  "at_ceiling m key =
     (case lim_max_concurrent (limits (snd key)) of
        None \<Rightarrow> None | Some hi \<Rightarrow> if hi \<le> slots_used m key then Some hi else None)"

lemma at_ceiling_None:
  "at_ceiling m key = None \<longleftrightarrow>
     (\<forall>hi. lim_max_concurrent (limits (snd key)) = Some hi \<longrightarrow> slots_used m key < hi)"
  by (auto simp: at_ceiling_def split: option.split)

lemma try_acquire_slot_alt:
  "try_acquire_slot m dev c now now2 =
     (let key = bucket_key_of dev c; m1 = ceiling_seen m key now; r = try_acquire m1 dev c now2 in
      case at_ceiling m key of
        Some hi \<Rightarrow> (m1, Err (exhausted c hi))
      | None \<Rightarrow>
          (case snd r of
             Inl e \<Rightarrow> (fst r, Err e)
           | Inr _ \<Rightarrow>
               (let b = bucket_at (fst r) key now
                in ((fst r)(key \<mapsto> b\<lparr>bk_in_flight := (bk_in_flight b + 1) mod 2 ^ 32\<rparr>),
                    Ok (Slot key)))))"
  by (cases "lim_max_concurrent (limits c)")
    (simp_all add: try_acquire_slot_def ceiling_seen_def at_ceiling_def Let_def case_prod_beta
      del: try_acquire_used split: sum.split)

lemma try_acquire_slot_cases:
  obtains (full) hi where "at_ceiling m (bucket_key_of dev c) = Some hi"
      "try_acquire_slot m dev c now now2 =
         (ceiling_seen m (bucket_key_of dev c) now, Inl (exhausted c hi))"
    | (limited) e where "at_ceiling m (bucket_key_of dev c) = None"
      "snd (try_acquire (ceiling_seen m (bucket_key_of dev c) now) dev c now2) = Inl e"
      "try_acquire_slot m dev c now now2 =
         (fst (try_acquire (ceiling_seen m (bucket_key_of dev c) now) dev c now2), Inl e)"
    | (granted) m2 b where "at_ceiling m (bucket_key_of dev c) = None"
      "m2 = fst (try_acquire (ceiling_seen m (bucket_key_of dev c) now) dev c now2)"
      "b = bucket_at m2 (bucket_key_of dev c) now"
      "try_acquire_slot m dev c now now2 =
         (m2(bucket_key_of dev c \<mapsto> b\<lparr>bk_in_flight := (bk_in_flight b + 1) mod 2 ^ 32\<rparr>),
          Inr (Slot (bucket_key_of dev c)))"
proof (cases "at_ceiling m (bucket_key_of dev c)")
  case None
  then show thesis
    using limited granted
    by (cases "snd (try_acquire (ceiling_seen m (bucket_key_of dev c) now) dev c now2)")
      (simp_all add: try_acquire_slot_alt Let_def)
qed (simp add: full try_acquire_slot_alt Let_def)

lemma try_acquire_slot_Ok:
  assumes "try_acquire_slot m dev c now now2 = (m', Inr s)"
  shows "slot_key s = bucket_key_of dev c \<and> at_ceiling m (bucket_key_of dev c) = None \<and>
    (\<forall>j. slots_used m' j = (if j = bucket_key_of dev c
           then (slots_used m j + 1) mod 2 ^ 32 else slots_used m j)) \<and>
    bytes_used m' = bytes_used m"
  using assms
proof (cases rule: try_acquire_slot_cases [of m dev c now now2])
  case (granted m2 b)
  then have "slots_used m2 = slots_used m" "bytes_used m2 = bytes_used m"
    by simp_all
  moreover have "m' = m2(bucket_key_of dev c \<mapsto> b\<lparr>bk_in_flight := (bk_in_flight b + 1) mod 2 ^ 32\<rparr>)"
    "s = Slot (bucket_key_of dev c)"
    using granted(4) assms by simp_all
  ultimately show ?thesis
    using granted(1,3) by (auto intro!: ext)
qed auto

lemma try_acquire_slot_Err:
  assumes "try_acquire_slot m dev c now now2 = (m', Inl e)"
  shows "slots_used m' = slots_used m \<and> bytes_used m' = bytes_used m"
  using assms by (cases rule: try_acquire_slot_cases [of m dev c now now2]) auto

lemma bucket_ok_fields [simp]:
  "bucket_ok c (b\<lparr>bk_in_flight := n\<rparr>) \<longleftrightarrow>
     bk_tokens b \<le> capacity c \<and>
     (\<forall>hi. lim_max_concurrent (limits c) = Some hi \<longrightarrow> n \<le> hi) \<and>
     (\<forall>hi. lim_max_bytes_in_flight (limits c) = Some hi \<longrightarrow> bk_bytes_in_flight b \<le> hi)"
  "bucket_ok c (b\<lparr>bk_bytes_in_flight := n\<rparr>) \<longleftrightarrow>
     bk_tokens b \<le> capacity c \<and>
     (\<forall>hi. lim_max_concurrent (limits c) = Some hi \<longrightarrow> bk_in_flight b \<le> hi) \<and>
     (\<forall>hi. lim_max_bytes_in_flight (limits c) = Some hi \<longrightarrow> n \<le> hi)"
  by (simp_all add: bucket_ok_def)

lemma wrapped_count:
  "lim_max_concurrent (limits c) = Some hi \<Longrightarrow> n < hi \<Longrightarrow> Suc n mod 4294967296 = Suc n"
  using class_bounds(2) [of c hi] by simp

lemma limiter_ok_slot:
  assumes "limiter_ok m"
  shows "limiter_ok (fst (try_acquire_slot m dev c now now2))"
proof (cases rule: try_acquire_slot_cases [of m dev c now now2])
  case (granted m2 b)
  have ok: "limiter_ok m2"
    using granted assms by (simp add: limiter_ok_acquire limiter_ok_seen)
  then have "bucket_ok c b" and "bk_in_flight b = slots_used m (bucket_key_of dev c)"
    using granted bucket_ok_at [OF ok, of "bucket_key_of dev c" now] by simp_all
  with granted(1) have "bucket_ok c (b\<lparr>bk_in_flight := (bk_in_flight b + 1) mod 2 ^ 32\<rparr>)"
    by (auto simp: bucket_ok_def at_ceiling_None wrapped_count Suc_leI)
  with granted(4) ok show ?thesis
    by auto
qed (use assms in \<open>simp_all add: limiter_ok_acquire limiter_ok_seen\<close>)

lemma limiter_ok_release:
  assumes "limiter_ok m"
  shows "limiter_ok (release m s)"
proof (cases "m (slot_key s)")
  case (Some b)
  with assms have "bucket_ok (snd (slot_key s)) b"
    by (auto simp: limiter_ok_def)
  with assms Some show ?thesis
    by (auto simp: release_def bucket_ok_def intro!: limiter_ok_upd intro: le_trans [OF diff_le_self])
qed (simp add: release_def assms)

lemma release_used [simp]:
  "slots_used (release m s) j = slots_used m j - (if j = slot_key s then 1 else 0)"
  "bytes_used (release m s) = bytes_used m"
  by (auto simp: release_def slots_used_def bytes_used_def fun_eq_iff split: option.split)

lemma limiter_ok_reserve:
  assumes "limiter_ok m"
  shows "limiter_ok (fst (reserve_bytes m dev c n now))"
proof -
  have "bucket_ok c (bucket_at m (bucket_key_of dev c) now)"
    using bucket_ok_at [OF assms, of "bucket_key_of dev c"] by simp
  with assms show ?thesis
    by (auto simp: reserve_bytes_def Let_def split: option.split)
      (auto simp: bucket_ok_def)
qed

lemma reserve_bytes_cases:
  obtains (unbounded) "lim_max_bytes_in_flight (limits c) = None"
      "reserve_bytes m dev c n now = (m, Inr (ByteReservation (bucket_key_of dev c) 0))"
    | (refused) hi where "lim_max_bytes_in_flight (limits c) = Some hi"
      "hi < bytes_used m (bucket_key_of dev c) + n"
      "reserve_bytes m dev c n now =
         (m(bucket_key_of dev c \<mapsto> bucket_at m (bucket_key_of dev c) now), Inl (exhausted c hi))"
    | (granted) hi where "lim_max_bytes_in_flight (limits c) = Some hi"
      "bytes_used m (bucket_key_of dev c) + n \<le> hi"
      "reserve_bytes m dev c n now =
         (m(bucket_key_of dev c \<mapsto> (bucket_at m (bucket_key_of dev c) now)
            \<lparr>bk_bytes_in_flight := bytes_used m (bucket_key_of dev c) + n\<rparr>),
          Inr (ByteReservation (bucket_key_of dev c) n))"
proof (cases "lim_max_bytes_in_flight (limits c)")
  case (Some hi)
  then have "hi < u64_max"
    using class_bounds(3) [of c hi] by (simp add: u64_max_def)
  then have "hi < sat_add u64_max (bytes_used m (bucket_key_of dev c)) n \<longleftrightarrow>
      hi < bytes_used m (bucket_key_of dev c) + n"
    and "\<not> hi < bytes_used m (bucket_key_of dev c) + n \<Longrightarrow>
      sat_add u64_max (bytes_used m (bucket_key_of dev c)) n = bytes_used m (bucket_key_of dev c) + n"
    by (auto simp: sat_add_def)
  with Some show thesis
    using refused granted
    by (cases "hi < bytes_used m (bucket_key_of dev c) + n") (simp_all add: reserve_bytes_def Let_def)
qed (simp add: unbounded reserve_bytes_def)

lemma reserve_bytes_Ok:
  assumes "reserve_bytes m dev c n now = (m', Inr r)"
  shows "res_key r = bucket_key_of dev c \<and> slots_used m' = slots_used m \<and>
    (\<forall>j. bytes_used m' j = (if j = bucket_key_of dev c then bytes_used m j + res_bytes r
                           else bytes_used m j)) \<and>
    (\<forall>hi. lim_max_bytes_in_flight (limits c) = Some hi \<longrightarrow>
       res_bytes r = n \<and> bytes_used m' (bucket_key_of dev c) \<le> hi)"
  using assms
  by (cases rule: reserve_bytes_cases [of c m dev n now]) (auto intro!: ext)

lemma reserve_bytes_Err:
  assumes "reserve_bytes m dev c n now = (m', Inl e)"
  shows "slots_used m' = slots_used m \<and> bytes_used m' = bytes_used m"
  using assms
  by (cases rule: reserve_bytes_cases [of c m dev n now]) (auto intro!: ext)

lemma release_bytes_used [simp]:
  "bytes_used (release_bytes m r) j = bytes_used m j - (if j = res_key r then res_bytes r else 0)"
  "slots_used (release_bytes m r) = slots_used m"
  by (auto simp: release_bytes_def slots_used_def bytes_used_def fun_eq_iff split: option.split)

lemma limiter_ok_release_bytes:
  assumes "limiter_ok m"
  shows "limiter_ok (release_bytes m r)"
proof (cases "m (res_key r)")
  case (Some b)
  with assms have "bucket_ok (snd (res_key r)) b"
    by (auto simp: limiter_ok_def)
  with assms Some show ?thesis
    by (auto simp: release_bytes_def bucket_ok_def intro!: limiter_ok_upd
        intro: le_trans [OF diff_le_self])
qed (simp add: release_bytes_def assms)

lemma limiter_ok_reset: "limiter_ok m \<Longrightarrow> limiter_ok (limiter_reset m dev c now)"
  using bucket_ok_at [of m "bucket_key_of dev c" now]
  by (auto simp: limiter_reset_def Let_def bucket_ok_def capacity_def intro!: limiter_ok_upd)

lemma limiter_reset_used [simp]:
  "slots_used (limiter_reset m dev c now) = slots_used m"
  "bytes_used (limiter_reset m dev c now) = bytes_used m"
  by (auto simp: limiter_reset_def Let_def fun_eq_iff)

lemma limiter_ok_forget: "limiter_ok m \<Longrightarrow> limiter_ok (forget_device m dev)"
  by (auto simp: limiter_ok_def forget_device_def)

lemma forget_device_used [simp]:
  "slots_used (forget_device m dev) j = (if fst j = Some dev then 0 else slots_used m j)"
  "bytes_used (forget_device m dev) j = (if fst j = Some dev then 0 else bytes_used m j)"
  by (simp_all add: slots_used_def bytes_used_def forget_device_def)

lemmas limiter_ok_ops = limiter_ok_acquire limiter_ok_slot limiter_ok_release limiter_ok_reserve
  limiter_ok_release_bytes limiter_ok_reset limiter_ok_forget

section \<open>Things that must be given back\<close>

text \<open>
  A slot and a byte reservation follow the same discipline: what is taken is counted against a
  cap, what is given back is subtracted.  The contract of such a budget, and what follows for the
  handles that are out: their total never exceeds the cap.
\<close>

locale budget =
  fixes used :: "'s \<Rightarrow> 'k \<Rightarrow> nat"
    and cap :: "'k \<Rightarrow> nat option"
    and taken :: "'s \<Rightarrow> 'k \<Rightarrow> nat \<Rightarrow> 's \<Rightarrow> bool"
    and given :: "'s \<Rightarrow> 'k \<Rightarrow> nat \<Rightarrow> 's"
  assumes taken_used: "taken s k n s' \<Longrightarrow> cap k = Some hi \<Longrightarrow>
      used s' k = used s k + n \<and> used s' k \<le> hi"
    and taken_other: "taken s k n s' \<Longrightarrow> j \<noteq> k \<Longrightarrow> used s' j = used s j"
    and given_used: "used (given s k n) j = used s j - (if j = k then n else 0)"
begin

definition amount :: "('k \<times> nat) multiset \<Rightarrow> 'k \<Rightarrow> nat" where
  "amount held k = (\<Sum>p\<in>#held. if fst p = k then snd p else 0)"

definition covered :: "('k \<times> nat) multiset \<Rightarrow> 's \<Rightarrow> bool" where
  "covered held s \<longleftrightarrow> (\<forall>k hi. cap k = Some hi \<longrightarrow> amount held k \<le> used s k \<and> used s k \<le> hi)"

lemma amount_simps [simp]:
  "amount {#} k = 0"
  "amount (add_mset p held) k = (if fst p = k then snd p else 0) + amount held k"
  by (simp_all add: amount_def)

lemma amount_remove:
  "p \<in># held \<Longrightarrow> amount held k = (if fst p = k then snd p else 0) + amount (held - {#p#}) k"
  using amount_simps(2) [of p "held - {#p#}" k] by simp

lemma covered_same: "covered held s \<Longrightarrow> used s' = used s \<Longrightarrow> covered held s'"
  by (simp add: covered_def)

lemma covered_take: "covered held s \<Longrightarrow> taken s k n s' \<Longrightarrow> covered (add_mset (k, n) held) s'"
  unfolding covered_def using taken_used taken_other by fastforce

lemma covered_give:
  assumes "covered held s" and "(k, n) \<in># held"
  shows "covered (held - {#(k, n)#}) (given s k n)"
  unfolding covered_def
proof (intro allI impI)
  fix j hi assume "cap j = Some hi"
  with assms(1) have "amount held j \<le> used s j" "used s j \<le> hi"
    by (auto simp: covered_def)
  then show "amount (held - {#(k, n)#}) j \<le> used (given s k n) j \<and> used (given s k n) j \<le> hi"
    using amount_remove [OF assms(2), of j] by (auto simp: given_used)
qed

lemma covered_drop:
  assumes "covered held s" and "p \<in># held"
  shows "covered (held - {#p#}) s"
  using assms(1) amount_remove [OF assms(2)] unfolding covered_def
  by (metis add_leD2)

lemma amount_none: "(\<And>p. p \<in># held \<Longrightarrow> fst p \<noteq> k) \<Longrightarrow> amount held k = 0"
  by (simp add: amount_def)

lemma covered_cleared:
  assumes "covered held s" and "\<And>p. p \<in># held \<Longrightarrow> \<not> gone (fst p)"
    and "\<And>j. used s' j = (if gone j then 0 else used s j)"
  shows "covered held s'"
  using assms(1) amount_none [of held] assms(2) unfolding covered_def assms(3) by fastforce

lemma within_cap: "covered held s \<Longrightarrow> cap k = Some hi \<Longrightarrow> amount held k \<le> hi"
  unfolding covered_def using le_trans by blast

end

definition slot_cap :: "bucket_key \<Rightarrow> nat option" where
  "slot_cap key = lim_max_concurrent (limits (snd key))"

definition slot_taken :: "rate_limiter \<Rightarrow> bucket_key \<Rightarrow> nat \<Rightarrow> rate_limiter \<Rightarrow> bool" where
  "slot_taken m key n m' \<longleftrightarrow>
     n = 1 \<and> (\<exists>dev c now now2. try_acquire_slot m dev c now now2 = (m', Inr (Slot key)))"

definition slot_given :: "rate_limiter \<Rightarrow> bucket_key \<Rightarrow> nat \<Rightarrow> rate_limiter" where
  "slot_given m key n = ((\<lambda>m. release m (Slot key)) ^^ n) m"

lemma slot_given_used: "slots_used (slot_given m key n) j = slots_used m j - (if j = key then n else 0)"
  by (induction n) (auto simp: slot_given_def)

interpretation slot_budget: budget slots_used slot_cap slot_taken slot_given
proof
  fix s k n s' hi
  assume "slot_taken s k n s'" and cap: "slot_cap k = Some hi"
  then obtain dev c now now2 where n: "n = 1"
    and ok: "try_acquire_slot s dev c now now2 = (s', Inr (Slot k))"
    by (auto simp: slot_taken_def)
  from try_acquire_slot_Ok [OF ok] have k: "k = bucket_key_of dev c"
    and free: "at_ceiling s k = None" and upd: "slots_used s' k = (slots_used s k + 1) mod 2 ^ 32"
    by simp_all
  have lim: "lim_max_concurrent (limits c) = Some hi"
    using cap k by (simp add: slot_cap_def)
  with free k have "slots_used s k < hi"
    by (simp add: at_ceiling_None)
  with lim upd n show "slots_used s' k = slots_used s k + n \<and> slots_used s' k \<le> hi"
    by (simp add: wrapped_count)
next
  fix s k n s' j
  assume "slot_taken s k n s'" "j \<noteq> k"
  then show "slots_used s' j = slots_used s j"
    by (auto simp: slot_taken_def dest!: try_acquire_slot_Ok)
next
  fix s k n j
  show "slots_used (slot_given s k n) j = slots_used s j - (if j = k then n else 0)"
    by (rule slot_given_used)
qed

definition bytes_cap :: "bucket_key \<Rightarrow> nat option" where
  "bytes_cap key = lim_max_bytes_in_flight (limits (snd key))"

definition bytes_taken :: "rate_limiter \<Rightarrow> bucket_key \<Rightarrow> nat \<Rightarrow> rate_limiter \<Rightarrow> bool" where
  "bytes_taken m key n m' \<longleftrightarrow>
     (\<exists>dev c asked now. reserve_bytes m dev c asked now = (m', Inr (ByteReservation key n)))"

definition bytes_given :: "rate_limiter \<Rightarrow> bucket_key \<Rightarrow> nat \<Rightarrow> rate_limiter" where
  "bytes_given m key n = release_bytes m (ByteReservation key n)"

interpretation byte_budget: budget bytes_used bytes_cap bytes_taken bytes_given
proof
  fix s k n s' hi
  assume "bytes_taken s k n s'" and cap: "bytes_cap k = Some hi"
  then obtain dev c asked now where
    ok: "reserve_bytes s dev c asked now = (s', Inr (ByteReservation k n))"
    by (auto simp: bytes_taken_def)
  from reserve_bytes_Ok [OF ok] cap show "bytes_used s' k = bytes_used s k + n \<and> bytes_used s' k \<le> hi"
    by (auto simp: bytes_cap_def)
next
  fix s k n s' j
  assume "bytes_taken s k n s'" "j \<noteq> k"
  then show "bytes_used s' j = bytes_used s j"
    by (auto simp: bytes_taken_def dest!: reserve_bytes_Ok)
next
  fix s k n j
  show "bytes_used (bytes_given s k n) j = bytes_used s j - (if j = k then n else 0)"
    by (simp add: bytes_given_def)
qed

section \<open>The limiter in use\<close>

text \<open>
  The limiter together with the handles its callers hold.  Handles cannot be copied: one leaves
  the world when it is released, or is dropped and its capacity lost.  A device is forgotten only
  once it holds nothing any more.
\<close>

record tracked =
  tr_limiter :: rate_limiter
  tr_slots :: "slot multiset"
  tr_reservations :: "byte_reservation multiset"

definition tracked_new :: tracked where
  "tracked_new = \<lparr>tr_limiter = rate_limiter_new, tr_slots = {#}, tr_reservations = {#}\<rparr>"

inductive lim_step :: "tracked \<Rightarrow> tracked \<Rightarrow> bool" where
  acquire: "try_acquire (tr_limiter T) dev c now = (m, r) \<Longrightarrow> lim_step T (T\<lparr>tr_limiter := m\<rparr>)"
| slot: "try_acquire_slot (tr_limiter T) dev c now now2 = (m, Inr s) \<Longrightarrow>
     lim_step T (T\<lparr>tr_limiter := m, tr_slots := add_mset s (tr_slots T)\<rparr>)"
| slot_refused: "try_acquire_slot (tr_limiter T) dev c now now2 = (m, Inl e) \<Longrightarrow>
     lim_step T (T\<lparr>tr_limiter := m\<rparr>)"
| slot_released: "s \<in># tr_slots T \<Longrightarrow>
     lim_step T (T\<lparr>tr_limiter := release (tr_limiter T) s, tr_slots := tr_slots T - {#s#}\<rparr>)"
| slot_dropped: "s \<in># tr_slots T \<Longrightarrow> lim_step T (T\<lparr>tr_slots := tr_slots T - {#s#}\<rparr>)"
| reserve: "reserve_bytes (tr_limiter T) dev c n now = (m, Inr r) \<Longrightarrow>
     lim_step T (T\<lparr>tr_limiter := m, tr_reservations := add_mset r (tr_reservations T)\<rparr>)"
| reserve_refused: "reserve_bytes (tr_limiter T) dev c n now = (m, Inl e) \<Longrightarrow>
     lim_step T (T\<lparr>tr_limiter := m\<rparr>)"
| bytes_released: "r \<in># tr_reservations T \<Longrightarrow>
     lim_step T (T\<lparr>tr_limiter := release_bytes (tr_limiter T) r,
                  tr_reservations := tr_reservations T - {#r#}\<rparr>)"
| bytes_dropped: "r \<in># tr_reservations T \<Longrightarrow>
     lim_step T (T\<lparr>tr_reservations := tr_reservations T - {#r#}\<rparr>)"
| reset: "lim_step T (T\<lparr>tr_limiter := limiter_reset (tr_limiter T) dev c now\<rparr>)"
| forget: "\<forall>s\<in>#tr_slots T. fst (slot_key s) \<noteq> Some dev \<Longrightarrow>
     \<forall>r\<in>#tr_reservations T. fst (res_key r) \<noteq> Some dev \<Longrightarrow>
     lim_step T (T\<lparr>tr_limiter := forget_device (tr_limiter T) dev\<rparr>)"

inductive lim_reachable :: "tracked \<Rightarrow> bool" where
  start: "lim_reachable tracked_new"
| next_step: "lim_reachable T \<Longrightarrow> lim_step T T' \<Longrightarrow> lim_reachable T'"

definition slot_entry :: "slot \<Rightarrow> bucket_key \<times> nat" where "slot_entry s = (slot_key s, 1)"

definition res_entry :: "byte_reservation \<Rightarrow> bucket_key \<times> nat" where
  "res_entry r = (res_key r, res_bytes r)"

definition tracked_inv :: "tracked \<Rightarrow> bool" where
  "tracked_inv T \<longleftrightarrow>
     limiter_ok (tr_limiter T) \<and>
     slot_budget.covered (image_mset slot_entry (tr_slots T)) (tr_limiter T) \<and>
     byte_budget.covered (image_mset res_entry (tr_reservations T)) (tr_limiter T)"

lemma tracked_inv_new: "tracked_inv tracked_new"
  by (simp add: tracked_inv_def tracked_new_def limiter_ok_def rate_limiter_new_def
      slot_budget.covered_def byte_budget.covered_def slots_used_def bytes_used_def)

lemma slot_taken_entry:
  "try_acquire_slot m dev c now now2 = (m', Inr s) \<Longrightarrow>
     slot_budget.covered held m \<Longrightarrow> slot_budget.covered (add_mset (slot_entry s) held) m'"
  unfolding slot_entry_def
  by (rule slot_budget.covered_take) (auto simp: slot_taken_def dest: try_acquire_slot_Ok)

lemma bytes_taken_entry:
  "reserve_bytes m dev c n now = (m', Inr r) \<Longrightarrow>
     byte_budget.covered held m \<Longrightarrow> byte_budget.covered (add_mset (res_entry r) held) m'"
  unfolding res_entry_def
  by (rule byte_budget.covered_take) (auto simp: bytes_taken_def)

lemma slot_released_entry:
  "slot_budget.covered (image_mset slot_entry held) m \<Longrightarrow> s \<in># held \<Longrightarrow>
     slot_budget.covered (image_mset slot_entry (held - {#s#})) (release m s)"
  using slot_budget.covered_give [of "image_mset slot_entry held" m "slot_key s" 1]
  by (auto simp: slot_given_def slot_entry_def image_mset_Diff)

lemma bytes_released_entry:
  "byte_budget.covered (image_mset res_entry held) m \<Longrightarrow> r \<in># held \<Longrightarrow>
     byte_budget.covered (image_mset res_entry (held - {#r#})) (release_bytes m r)"
  using byte_budget.covered_give [of "image_mset res_entry held" m "res_key r" "res_bytes r"]
  by (auto simp: bytes_given_def res_entry_def image_mset_Diff)

lemma tracked_inv_step: "lim_step T T' \<Longrightarrow> tracked_inv T \<Longrightarrow> tracked_inv T'"
proof (induction rule: lim_step.induct)
  case (acquire T dev c now m r)
  then have m: "m = fst (try_acquire (tr_limiter T) dev c now)" by simp
  with acquire show ?case
    by (auto simp: tracked_inv_def limiter_ok_acquire
        intro: slot_budget.covered_same byte_budget.covered_same)
next
  case (slot T dev c now now2 m s)
  then have "limiter_ok m"
    using limiter_ok_slot [of "tr_limiter T" dev c now now2] by (simp add: tracked_inv_def)
  with slot show ?case
    using try_acquire_slot_Ok [OF slot(1)]
    by (auto simp: tracked_inv_def slot_taken_entry
        intro: slot_budget.covered_same byte_budget.covered_same)
next
  case (slot_refused T dev c now now2 m e)
  then have "limiter_ok m"
    using limiter_ok_slot [of "tr_limiter T" dev c now now2] by (simp add: tracked_inv_def)
  with slot_refused show ?case
    using try_acquire_slot_Err [OF slot_refused(1)]
    by (auto simp: tracked_inv_def
        intro: slot_budget.covered_same byte_budget.covered_same)
next
  case (slot_released s T)
  then show ?case
    by (auto simp: tracked_inv_def limiter_ok_release slot_released_entry
        intro: slot_budget.covered_same byte_budget.covered_same)
next
  case (slot_dropped s T)
  then show ?case
    using slot_budget.covered_drop [of "image_mset slot_entry (tr_slots T)" "tr_limiter T" "slot_entry s"]
    by (simp add: tracked_inv_def image_mset_Diff)
next
  case (reserve T dev c n now m r)
  then have "limiter_ok m"
    using limiter_ok_reserve [of "tr_limiter T" dev c n now] by (simp add: tracked_inv_def)
  with reserve show ?case
    using reserve_bytes_Ok [OF reserve(1)]
    by (auto simp: tracked_inv_def bytes_taken_entry
        intro: slot_budget.covered_same byte_budget.covered_same)
next
  case (reserve_refused T dev c n now m e)
  then have "limiter_ok m"
    using limiter_ok_reserve [of "tr_limiter T" dev c n now] by (simp add: tracked_inv_def)
  with reserve_refused show ?case
    using reserve_bytes_Err [OF reserve_refused(1)]
    by (auto simp: tracked_inv_def
        intro: slot_budget.covered_same byte_budget.covered_same)
next
  case (bytes_released r T)
  then show ?case
    by (auto simp: tracked_inv_def limiter_ok_release_bytes bytes_released_entry
        intro: slot_budget.covered_same byte_budget.covered_same)
next
  case (bytes_dropped r T)
  then show ?case
    using byte_budget.covered_drop
      [of "image_mset res_entry (tr_reservations T)" "tr_limiter T" "res_entry r"]
    by (simp add: tracked_inv_def image_mset_Diff)
next
  case (reset T dev c now)
  then show ?case
    by (auto simp: tracked_inv_def limiter_ok_reset
        intro: slot_budget.covered_same byte_budget.covered_same)
next
  case (forget T dev)
  from forget(3) have cov: "limiter_ok (tr_limiter T)"
    "slot_budget.covered (image_mset slot_entry (tr_slots T)) (tr_limiter T)"
    "byte_budget.covered (image_mset res_entry (tr_reservations T)) (tr_limiter T)"
    by (simp_all only: tracked_inv_def)
  have "fst (fst p) \<noteq> Some dev" if "p \<in># image_mset slot_entry (tr_slots T)" for p
    using that forget(1) by (auto simp: slot_entry_def)
  from slot_budget.covered_cleared [OF cov(2) this forget_device_used(1)]
  have "slot_budget.covered (image_mset slot_entry (tr_slots T)) (forget_device (tr_limiter T) dev)"
    by simp
  moreover
  have "fst (fst p) \<noteq> Some dev" if "p \<in># image_mset res_entry (tr_reservations T)" for p
    using that forget(2) by (auto simp: res_entry_def)
  from byte_budget.covered_cleared [OF cov(3) this forget_device_used(2)]
  have "byte_budget.covered (image_mset res_entry (tr_reservations T))
      (forget_device (tr_limiter T) dev)"
    by simp
  ultimately show ?case
    using cov(1) by (simp add: tracked_inv_def limiter_ok_forget)
qed

lemma lim_reachable_inv: "lim_reachable T \<Longrightarrow> tracked_inv T"
  by (induction rule: lim_reachable.induct) (rule tracked_inv_new, rule tracked_inv_step)

lemma held_slots: "slot_budget.amount (image_mset slot_entry held) key = size {#s \<in># held. slot_key s = key#}"
  by (induction held) (auto simp: slot_entry_def)

lemma held_bytes:
  "byte_budget.amount (image_mset res_entry held) key =
     (\<Sum>r\<in>#{#r \<in># held. res_key r = key#}. res_bytes r)"
  by (induction held) (simp_all add: res_entry_def)

section \<open>How many calls get through\<close>

text \<open>The calls of \<open>try_acquire\<close> in a stretch of time that were granted for one key.\<close>

fun grants ::
  "bucket_key \<Rightarrow> rate_limiter \<Rightarrow> (monotonic \<times> device_id \<times> operation_class) list \<Rightarrow> nat" where
  "grants key m [] = 0"
| "grants key m ((now, dev, c) # calls) =
     (let (m', r) = try_acquire m dev c now
      in (if bucket_key_of dev c = key \<and> is_ok r then 1 else 0) + grants key m' calls)"

lemma try_acquire_other:
  "key \<noteq> bucket_key_of dev c \<Longrightarrow> fst (try_acquire m dev c now) key = m key"
  by (simp add: try_acquire_alt Let_def)

text \<open>One call at a key: it lowers the potential by what it grants.\<close>

lemma try_acquire_same:
  assumes rate: "lim_refill (limits c) = Some rate"
  shows "\<exists>b. fst (try_acquire m dev c now) (bucket_key_of dev c) = Some b \<and>
    potential rate t b + (if is_ok (snd (try_acquire m dev c now)) then 1 else 0)
        * (rate_per rate * TOKEN_SCALE)
      = potential rate t (refilled_at m (bucket_key_of dev c) now)"
proof -
  have "\<not> unlimited c"
    using rate by (simp add: unlimited_def)
  moreover have "potential rate t (b\<lparr>bk_tokens := bk_tokens b - TOKEN_SCALE\<rparr>)
      + rate_per rate * TOKEN_SCALE = potential rate t b" if "TOKEN_SCALE \<le> bk_tokens b" for b
    by (simp add: potential_def diff_mult_distrib2, use mult_le_mono2 [OF that] in \<open>simp add: le_add_diff_inverse2\<close>)
  ultimately show ?thesis
    by (cases rule: try_take_token_cases [of "refilled_at m (bucket_key_of dev c) now"])
      (simp_all add: try_acquire_alt Let_def)
qed

lemma grants_potential:
  assumes rate: "lim_refill (limits (snd key)) = Some rate"
  shows "\<forall>(now, _) \<in> set calls. now \<le> t \<Longrightarrow> m key = Some b \<Longrightarrow>
    grants key m calls * (rate_per rate * TOKEN_SCALE) \<le> potential rate t b"
proof (induction calls arbitrary: m b)
  case Nil
  then show ?case by simp
next
  case (Cons call calls)
  obtain now dev c where call: "call = (now, dev, c)" by (cases call)
  show ?case
  proof (cases "bucket_key_of dev c = key")
    case False
    with Cons call show ?thesis
      by (auto simp: case_prod_beta try_acquire_other)
  next
    case True
    then have r: "lim_refill (limits c) = Some rate" and per: "0 < rate_per rate"
      using rate class_rate [OF rate] by auto
    from try_acquire_same [OF r, of m dev now t] True obtain b' where
      b': "fst (try_acquire m dev c now) key = Some b'" and
      pot: "potential rate t b' + (if is_ok (snd (try_acquire m dev c now)) then 1 else 0)
        * (rate_per rate * TOKEN_SCALE) = potential rate t (refilled_at m key now)"
      by blast
    have "potential rate t (refilled_at m key now) \<le> potential rate t b"
      using Cons.prems call True potential_refill [OF rate per, of now t b]
      by (simp add: refilled_at_def bucket_at_def)
    moreover have "grants key (fst (try_acquire m dev c now)) calls * (rate_per rate * TOKEN_SCALE)
        \<le> potential rate t b'"
      using Cons.prems call by (intro Cons.IH b') auto
    ultimately show ?thesis
      using pot True by (auto simp: call case_prod_beta add_mult_distrib)
  qed
qed

lemma grants_window:
  assumes rate: "lim_refill (limits (snd key)) = Some rate"
  shows "limiter_ok m \<Longrightarrow> \<forall>(now, _) \<in> set calls. t0 \<le> now \<and> now \<le> t \<Longrightarrow>
    grants key m calls * (rate_per rate * TOKEN_SCALE)
      \<le> rate_per rate * (capacity (snd key) + 1) + (t - t0) * (rate_tokens rate * TOKEN_SCALE)"
proof (induction calls arbitrary: m)
  case Nil
  then show ?case by simp
next
  case (Cons call calls)
  obtain now dev c where call: "call = (now, dev, c)" by (cases call)
  show ?case
  proof (cases "bucket_key_of dev c = key")
    case False
    with Cons call show ?thesis
      by (auto simp: case_prod_beta limiter_ok_acquire)
  next
    case True
    then have c: "snd key = c" and r: "lim_refill (limits c) = Some rate"
      using rate by auto
    from try_acquire_same [OF r, of m dev now t] True obtain b' where
      b': "fst (try_acquire m dev c now) key = Some b'" and
      pot: "potential rate t b' + (if is_ok (snd (try_acquire m dev c now)) then 1 else 0)
        * (rate_per rate * TOKEN_SCALE) = potential rate t (refilled_at m key now)"
      by blast
    have now: "t0 \<le> now" "now \<le> t"
      using Cons.prems call by auto
    have "potential rate t (refilled_at m key now)
        \<le> rate_per rate * (capacity c + 1) + (t - now) * (rate_tokens rate * TOKEN_SCALE)"
      unfolding refilled_at_def c
      using potential_after_refill [OF r _ now(2)] bucket_ok_at [OF Cons.prems(1), of key now] c
      by simp
    also have "\<dots> \<le> rate_per rate * (capacity c + 1) + (t - t0) * (rate_tokens rate * TOKEN_SCALE)"
      using now by (intro add_left_mono mult_right_mono) simp_all
    finally have "potential rate t (refilled_at m key now)
        \<le> rate_per rate * (capacity c + 1) + (t - t0) * (rate_tokens rate * TOKEN_SCALE)" .
    moreover have "grants key (fst (try_acquire m dev c now)) calls * (rate_per rate * TOKEN_SCALE)
        \<le> potential rate t b'"
      using Cons.prems call by (intro grants_potential rate b') auto
    ultimately show ?thesis
      using pot True c by (auto simp: call case_prod_beta add_mult_distrib)
  qed
qed

section \<open>What a refusal promises\<close>

lemma sat_mul_ge: "x \<le> hi \<Longrightarrow> x \<le> a * b \<Longrightarrow> x \<le> sat_mul hi a b"
  by (simp add: sat_mul_def)

lemma refill_added_ge:
  assumes rate: "lim_refill (limits c) = Some rate"
    and k: "rate_per rate = k * (rate_tokens rate * TOKEN_SCALE)" "k \<le> 6000"
    and wait: "deficit * k \<le> e" and small: "deficit \<le> TOKEN_SCALE"
  shows "deficit \<le> refill_added rate e"
proof -
  let ?t = "rate_tokens rate"
  have pos: "0 < rate_per rate" and t: "?t \<le> 100" "0 < ?t"
    using class_rate [OF rate] by auto
  have "deficit * rate_per rate = deficit * k * ?t * TOKEN_SCALE"
    by (simp add: k)
  also have "\<dots> \<le> TOKEN_SCALE * 6000 * 100 * TOKEN_SCALE"
    using small k(2) t by (intro mult_le_mono) simp_all
  also have "\<dots> \<le> u128_max"
    by (simp add: TOKEN_SCALE_def u128_max_def)
  finally have le: "deficit * rate_per rate \<le> u128_max" .
  have "deficit * k * ?t \<le> sat_mul u128_max e ?t"
  proof (rule sat_mul_ge)
    have "deficit * k * ?t \<le> TOKEN_SCALE * 6000 * 100"
      using small k(2) t by (intro mult_le_mono) simp_all
    then show "deficit * k * ?t \<le> u128_max"
      by (simp add: TOKEN_SCALE_def u128_max_def)
  qed (use wait in \<open>simp add: mult_le_mono1\<close>)
  then have "deficit * k * ?t * TOKEN_SCALE \<le> sat_mul u128_max e ?t * TOKEN_SCALE"
    by (rule mult_le_mono1)
  with le have "deficit * rate_per rate \<le> sat_mul u128_max (sat_mul u128_max e ?t) TOKEN_SCALE"
    by (intro sat_mul_ge) (simp_all add: k mult.assoc)
  then show ?thesis
    using pos by (simp add: refill_added_def max_absorb1 Suc_le_eq less_eq_div_iff_mult_less_eq)
qed

lemma refill_enough:
  assumes rate: "lim_refill (limits c) = Some rate"
    and added: "TOKEN_SCALE \<le> bk_tokens b + refill_added rate (now - bk_last_refill b)"
  shows "TOKEN_SCALE \<le> bk_tokens (bucket_refill b now (limits c))"
proof -
  have "0 < rate_tokens rate" "TOKEN_SCALE \<le> lim_burst (limits c) * TOKEN_SCALE"
    using class_rate [OF rate] by auto
  with rate added show ?thesis
    by (auto simp: bucket_refill_def saturating_since_def Let_def clamp_to_def sat_add_def
        TOKEN_SCALE_def u64_max_def u128_max_def)
qed

text \<open>The advised wait is long enough to make up what the bucket lacks.\<close>

lemma retry_after_ms_covers:
  assumes rate: "lim_refill (limits c) = Some rate"
    and k: "rate_per rate = k * (rate_tokens rate * TOKEN_SCALE)" "k \<le> 6000"
  shows "(TOKEN_SCALE - tokens) * k \<le> retry_after_ms tokens rate * 1000000"
    and "1 \<le> retry_after_ms tokens rate"
proof -
  let ?d = "TOKEN_SCALE - tokens" and ?den = "rate_tokens rate * TOKEN_SCALE"
  let ?ms = "max (div_ceil (?d * k) 1000000) 1"
  have t: "0 < rate_tokens rate" "rate_tokens rate \<le> 100"
    using class_rate [OF rate] by auto
  then have den: "sat_mul u128_max (rate_tokens rate) TOKEN_SCALE = ?den" "0 < ?den"
    by (simp_all add: sat_mul_def TOKEN_SCALE_def u128_max_def)
  have dk: "?d * k \<le> TOKEN_SCALE * 6000"
    using k(2) by (intro mult_le_mono) simp_all
  have "?d * k * ?den \<le> TOKEN_SCALE * 6000 * (100 * TOKEN_SCALE)"
    using t by (intro mult_le_mono [OF dk]) simp
  then have "sat_mul u128_max ?d (rate_per rate) = ?d * k * ?den"
    by (simp add: k(1) sat_mul_def mult.assoc) (simp add: TOKEN_SCALE_def u128_max_def)
  then have "retry_after_ms tokens rate = clamp_to u32_max ?ms"
    using den by (simp add: retry_after_ms_def Let_def)
  also have "clamp_to u32_max ?ms = ?ms"
  proof (rule clamp_to_exact)
    have "div_ceil (?d * k) 1000000 \<le> div_ceil (TOKEN_SCALE * 6000) 1000000"
      unfolding div_ceil_def using dk by (intro div_le_mono) simp
    then show "?ms \<le> u32_max"
      by (simp add: div_ceil_def TOKEN_SCALE_def u32_max_def)
  qed
  finally have ms: "retry_after_ms tokens rate = ?ms" .
  show "1 \<le> retry_after_ms tokens rate"
    by (simp add: ms)
  have "?d * k \<le> div_ceil (?d * k) 1000000 * 1000000"
    by (rule div_ceil_ge) simp
  also have "\<dots> \<le> ?ms * 1000000"
    by simp
  finally show "?d * k \<le> retry_after_ms tokens rate * 1000000"
    by (simp only: ms)
qed

lemma bucket_refill_last:
  "bk_last_refill b \<le> now \<Longrightarrow> bk_last_refill (bucket_refill b now L) \<le> now"
  by (auto simp: bucket_refill_def Let_def split: option.split)

lemma bucket_at_last:
  "(\<And>b. m key = Some b \<Longrightarrow> bk_last_refill b \<le> now) \<Longrightarrow> bk_last_refill (bucket_at m key now) \<le> now"
  by (auto simp: bucket_at_def bucket_new_def split: option.split)

section \<open>Properties\<close>

text \<open>
  C16: the ceilings hold.  Whatever sequence of limiter operations has been made, by any devices
  and at any clock readings, the slots held for one key never exceed the concurrency limit of its
  class, the bytes reserved under one key never exceed its byte budget, and no bucket holds more
  than its burst, provided that a device is forgotten only when it holds nothing.
\<close>

theorem held_within_ceilings:
  assumes "lim_reachable T"
  shows "(\<forall>key hi. lim_max_concurrent (limits (snd key)) = Some hi \<longrightarrow>
      size {#s \<in># tr_slots T. slot_key s = key#} \<le> hi) \<and>
    (\<forall>key hi. lim_max_bytes_in_flight (limits (snd key)) = Some hi \<longrightarrow>
      (\<Sum>r\<in>#{#r \<in># tr_reservations T. res_key r = key#}. res_bytes r) \<le> hi) \<and>
    (\<forall>key b. tr_limiter T key = Some b \<longrightarrow>
      bk_tokens b \<le> lim_burst (limits (snd key)) * TOKEN_SCALE)"
proof -
  from lim_reachable_inv [OF assms] have ok: "limiter_ok (tr_limiter T)"
    and slots: "slot_budget.covered (image_mset slot_entry (tr_slots T)) (tr_limiter T)"
    and bytes: "byte_budget.covered (image_mset res_entry (tr_reservations T)) (tr_limiter T)"
    by (simp_all add: tracked_inv_def)
  from ok have "\<forall>key b. tr_limiter T key = Some b \<longrightarrow>
      bk_tokens b \<le> lim_burst (limits (snd key)) * TOKEN_SCALE"
    by (simp add: limiter_ok_def bucket_ok_def capacity_def)
  with slot_budget.within_cap [OF slots] byte_budget.within_cap [OF bytes] show ?thesis
    by (simp add: slot_cap_def bytes_cap_def held_slots held_bytes)
qed

text \<open>A watcher's slot, taken by a device from a fresh limiter.\<close>

definition some_device :: device_id where "some_device = DeviceId (replicate 32 7)"

definition watcher_bucket :: "monotonic \<Rightarrow> nat \<Rightarrow> bucket" where
  "watcher_bucket now n =
     \<lparr>bk_tokens = 0, bk_last_refill = now, bk_in_flight = n, bk_bytes_in_flight = 0\<rparr>"

lemma watcher_slot:
  assumes "m (Some dev, OpWatcher) = (if n = 0 then None else Some (watcher_bucket t n))" and "n < 8"
    and "n = 0 \<Longrightarrow> t = now"
  shows "try_acquire_slot m dev OpWatcher now now2 =
    (m((Some dev, OpWatcher) \<mapsto> watcher_bucket t (Suc n)), Inr (Slot (Some dev, OpWatcher)))"
  using assms
  by (auto simp: try_acquire_slot_def try_acquire_def bucket_key_of_def bucket_at_def
      bucket_new_def limit_sel watcher_bucket_def Let_def)

theorem held_within_ceilings_witness:
  "\<exists>T. lim_reachable T \<and> tr_slots T = {#Slot (Some some_device, OpWatcher)#} \<and>
     size {#s \<in># tr_slots T. slot_key s = (Some some_device, OpWatcher)#} \<le> 8"
proof -
  let ?m = "rate_limiter_new((Some some_device, OpWatcher) \<mapsto> watcher_bucket 5 1)"
  let ?T = "tracked_new\<lparr>tr_limiter := ?m, tr_slots := {#Slot (Some some_device, OpWatcher)#}\<rparr>"
  have "try_acquire_slot (tr_limiter tracked_new) some_device OpWatcher 5 6 =
      (?m, Inr (Slot (Some some_device, OpWatcher)))"
    using watcher_slot [of rate_limiter_new some_device 0 5 5 6]
    by (simp add: tracked_new_def rate_limiter_new_def)
  from next_step [OF start lim_step.slot [OF this]] have r: "lim_reachable ?T"
    by (simp add: tracked_new_def)
  from held_within_ceilings [OF r, THEN conjunct1, rule_format,
      of "(Some some_device, OpWatcher)" 8] r
  show ?thesis
    by (intro exI [of _ ?T]) (simp add: limit_sel)
qed

text \<open>
  The proviso is needed: a device forgotten while it holds a slot starts from zero, so the slots
  it holds afterwards are more than the limiter counts, and releasing the old one brings the count
  to zero while the new one is still out.
\<close>

lemma forgetting_loses_slots:
  "\<exists>m1 m2 s1 s2.
     try_acquire_slot rate_limiter_new some_device OpWatcher 1 2 = (m1, Inr s1) \<and>
     try_acquire_slot (forget_device m1 some_device) some_device OpWatcher 3 4 = (m2, Inr s2) \<and>
     in_flight m2 some_device OpWatcher = 1 \<and>
     in_flight (release m2 s1) some_device OpWatcher = 0"
proof -
  let ?key = "(Some some_device, OpWatcher)"
  let ?m1 = "rate_limiter_new(?key \<mapsto> watcher_bucket 1 1)"
  let ?m2 = "(forget_device ?m1 some_device)(?key \<mapsto> watcher_bucket 3 1)"
  have "try_acquire_slot rate_limiter_new some_device OpWatcher 1 2 = (?m1, Inr (Slot ?key))"
    using watcher_slot [of rate_limiter_new some_device 0 1 1 2]
    by (simp add: rate_limiter_new_def)
  moreover have "try_acquire_slot (forget_device ?m1 some_device) some_device OpWatcher 3 4 =
      (?m2, Inr (Slot ?key))"
    using watcher_slot [of "forget_device ?m1 some_device" some_device 0 3 3 4]
    by (simp add: forget_device_def)
  moreover have "in_flight ?m2 some_device OpWatcher = 1"
    "in_flight (release ?m2 (Slot ?key)) some_device OpWatcher = 0"
    by (simp_all add: in_flight_def release_def bucket_key_of_def watcher_bucket_def)
  ultimately show ?thesis by blast
qed

text \<open>
  The rate holds over every stretch of time.  However the calls are interleaved with those of
  other keys and whatever the bucket looked like before, the calls granted for one key between two
  clock readings are at most its burst and what the configured rate yields in between (with one
  micro-token of rounding).
\<close>

theorem grants_bounded:
  assumes "limiter_ok m" and "lim_refill (limits (snd key)) = Some rate"
    and "\<forall>(now, _) \<in> set calls. t0 \<le> now \<and> now \<le> t"
  shows "grants key m calls * TOKEN_SCALE \<le>
    lim_burst (limits (snd key)) * TOKEN_SCALE + 1
      + (t - t0) * (rate_tokens rate * TOKEN_SCALE) div rate_per rate"
proof -
  let ?cap = "lim_burst (limits (snd key)) * TOKEN_SCALE" and ?gain = "(t - t0) * (rate_tokens rate * TOKEN_SCALE)"
  have per: "0 < rate_per rate"
    using class_rate [OF assms(2)] by simp
  have "grants key m calls * TOKEN_SCALE * rate_per rate \<le> rate_per rate * (?cap + 1) + ?gain"
    using grants_window [OF assms(2,1,3)] by (simp add: capacity_def mult.commute mult.left_commute)
  then have "grants key m calls * TOKEN_SCALE \<le> (rate_per rate * (?cap + 1) + ?gain) div rate_per rate"
    using per by (simp add: less_eq_div_iff_mult_less_eq)
  also have "\<dots> = ?cap + 1 + ?gain div rate_per rate"
    using per by (intro div_mult_self4) simp
  finally show ?thesis .
qed

theorem grants_bounded_witness:
  "grants (Some some_device, OpFsRead) rate_limiter_new
     [(0, some_device, OpFsRead), (7, some_device, OpFsWrite), (1000000000, some_device, OpFsRead)]
   * TOKEN_SCALE \<le> 200 * TOKEN_SCALE + 1"
  using grants_bounded [of rate_limiter_new "(Some some_device, OpFsRead)"
      "\<lparr>rate_tokens = 100, rate_per = from_secs 1\<rparr>"
      "[(0, some_device, OpFsRead), (7, some_device, OpFsWrite), (1000000000, some_device, OpFsRead)]"
      0 1000000000]
  by (simp add: limiter_ok_def rate_limiter_new_def limit_sel TOKEN_SCALE_def del: grants.simps)

text \<open>
  C36: the advice in a refusal is honest.  A rate-limited call is told how long to wait, never zero,
  and if the clock has not run backwards then the same call made that much later is granted, for
  every class that has a rate.
\<close>

theorem retry_advice_honest:
  assumes "try_acquire m dev c now = (m', Inl e)" and "lim_refill (limits c) = Some rate"
    and "\<And>b. m (bucket_key_of dev c) = Some b \<Longrightarrow> bk_last_refill b \<le> now"
  shows "\<exists>ms\<ge>1. e = err_rate_limited ms \<and>
    (\<forall>later\<ge>now + ms * 1000000. snd (try_acquire m' dev c later) = Inr ())"
proof -
  let ?key = "bucket_key_of dev c"
  define b where "b = refilled_at m ?key now"
  have lim: "\<not> unlimited c"
    using assms(2) by (simp add: unlimited_def)
  with assms(1) have low: "bk_tokens b < TOKEN_SCALE" and e: "e = rate_error c b"
    and m': "m' ?key = Some b"
    by (auto simp: try_acquire_alt Let_def b_def try_take_token_def split: if_splits)
  define ms where "ms = retry_after_ms (bk_tokens b) rate"
  obtain k where k: "rate_per rate = k * (rate_tokens rate * TOKEN_SCALE)" "k \<le> 6000"
    using class_rate [OF assms(2)] by blast
  note wait = retry_after_ms_covers [OF assms(2) k, of "bk_tokens b", folded ms_def]
  have last: "bk_last_refill b \<le> now"
    unfolding b_def refilled_at_def using assms(3) by (intro bucket_refill_last bucket_at_last)
  have "snd (try_acquire m' dev c later) = Inr ()" if "now + ms * 1000000 \<le> later" for later
  proof -
    have "(TOKEN_SCALE - bk_tokens b) * k \<le> later - bk_last_refill b"
      using wait(1) last that by linarith
    then have "TOKEN_SCALE - bk_tokens b \<le> refill_added rate (later - bk_last_refill b)"
      using refill_added_ge [OF assms(2) k] by simp
    then have "TOKEN_SCALE \<le> bk_tokens (bucket_refill b later (limits c))"
      by (intro refill_enough [OF assms(2)]) simp
    then have "TOKEN_SCALE \<le> bk_tokens (refilled_at m' ?key later)"
      using m' by (simp add: refilled_at_def bucket_at_def)
    with lim show ?thesis
      by (simp add: try_acquire_alt Let_def)
  qed
  moreover have "e = err_rate_limited ms"
    using e assms(2) by (simp add: rate_error_def ms_def)
  ultimately show ?thesis
    using wait(2) by (intro exI [of _ ms]) simp
qed

theorem retry_advice_honest_witness:
  "\<exists>ms\<ge>1. err_rate_limited 1000 = err_rate_limited ms \<and>
    (\<forall>later\<ge>5 + ms * 1000000. snd (try_acquire
       [(Some some_device, OpPtySpawn) \<mapsto>
          \<lparr>bk_tokens = 0, bk_last_refill = 5, bk_in_flight = 1, bk_bytes_in_flight = 0\<rparr>]
       some_device OpPtySpawn later) = Inr ())"
proof (rule retry_advice_honest)
  let ?m = "[(Some some_device, OpPtySpawn) \<mapsto>
      \<lparr>bk_tokens = 0, bk_last_refill = 5, bk_in_flight = 1, bk_bytes_in_flight = 0\<rparr>]"
  show "try_acquire ?m some_device OpPtySpawn 5 = (?m, Inl (err_rate_limited 1000))"
    by (simp add: try_acquire_def bucket_key_of_def bucket_at_def bucket_refill_def
        saturating_since_def refill_added_def sat_mul_def try_take_token_def limit_sel Let_def
        retry_after_ms_def TOKEN_SCALE_def div_ceil_def clamp_to_def u32_max_def u128_max_def)
  show "lim_refill (limits OpPtySpawn) = Some \<lparr>rate_tokens = 1, rate_per = from_secs 1\<rparr>"
    by (simp add: limit_sel)
qed (simp add: bucket_key_of_def)

text \<open>
  A refusal says the right thing.  A call is refused as rate limited exactly when its class
  refills; a class that never refills, and a ceiling that is reached, are reported as an exhausted
  resource with the limit, and a refusal at the ceiling costs the device no token.
\<close>

theorem refusal_kinds:
  "(snd (try_acquire m dev c now) = Inl e \<longrightarrow>
     (if lim_refill (limits c) = None then e = exhausted c (lim_burst (limits c))
      else \<exists>ms. e = err_rate_limited ms)) \<and>
   (at_ceiling m (bucket_key_of dev c) = Some hi \<longrightarrow>
     snd (try_acquire_slot m dev c now now2) = Inl (exhausted c hi) \<and>
     bk_tokens (bucket_at (fst (try_acquire_slot m dev c now now2)) (bucket_key_of dev c) now)
       = bk_tokens (bucket_at m (bucket_key_of dev c) now))"
proof -
  have "bk_tokens (bucket_at (ceiling_seen m key now) key now) = bk_tokens (bucket_at m key now)" for key
    by (simp add: ceiling_seen_def bucket_at_def split: option.split)
  then show ?thesis
    by (auto simp: try_acquire_alt try_acquire_slot_alt Let_def rate_error_def
        split: option.splits if_splits)
qed

theorem refusal_kinds_witness:
  "snd (try_acquire_slot
     [(Some some_device, OpWatcher) \<mapsto> watcher_bucket 5 8] some_device OpWatcher 6 7)
   = Inl (exhausted OpWatcher 8)"
proof -
  have "at_ceiling [(Some some_device, OpWatcher) \<mapsto> watcher_bucket 5 8]
      (bucket_key_of some_device OpWatcher) = Some 8"
    by (simp add: at_ceiling_def bucket_key_of_def slots_used_def watcher_bucket_def limit_sel)
  then show ?thesis
    using refusal_kinds by blast
qed

text \<open>
  One device cannot use up another's budget.  For a class that is limited per device, what a
  device does changes nothing in the answers another one gets, neither for calls nor for slots.
\<close>

theorem device_isolation:
  assumes "dev \<noteq> dev'" and "class_scope c' = PerDevice"
  shows "snd (try_acquire (fst (try_acquire m dev c now)) dev' c' later) =
      snd (try_acquire m dev' c' later) \<and>
    snd (try_acquire_slot (fst (try_acquire_slot m dev c now now2)) dev' c' later later2) =
      snd (try_acquire_slot m dev' c' later later2)"
proof -
  let ?k = "bucket_key_of dev c" and ?k' = "bucket_key_of dev' c'"
  have ne: "?k \<noteq> ?k'"
    using assms by (auto simp: bucket_key_of_def split: limit_scope.splits)
  have local_acquire: "snd (try_acquire m1 dev' c' t) = snd (try_acquire m2 dev' c' t)"
    if "m1 ?k' = m2 ?k'" for m1 m2 t
    using that by (simp add: try_acquire_alt Let_def refilled_at_def bucket_at_def)
  have local_slot: "snd (try_acquire_slot m1 dev' c' t u) = snd (try_acquire_slot m2 dev' c' t u)"
    if eq: "m1 ?k' = m2 ?k'" for m1 m2 t u
  proof -
    have "ceiling_seen m1 ?k' t ?k' = ceiling_seen m2 ?k' t ?k'"
      using eq by (simp add: ceiling_seen_def bucket_at_def split: option.split)
    moreover have "slots_used m1 ?k' = slots_used m2 ?k'"
      using eq by (simp add: slots_used_def)
    then have "at_ceiling m1 ?k' = at_ceiling m2 ?k'"
      by (simp add: at_ceiling_def split: option.split)
    ultimately show ?thesis
      using local_acquire [of "ceiling_seen m1 ?k' t" "ceiling_seen m2 ?k' t" u]
      by (simp add: try_acquire_slot_alt Let_def split: option.split sum.split)
  qed
  have "fst (try_acquire_slot m dev c now now2) ?k' = m ?k'"
    using ne by (cases rule: try_acquire_slot_cases [of m dev c now now2])
      (simp_all add: try_acquire_other ceiling_seen_def split: option.split)
  moreover have "fst (try_acquire m dev c now) ?k' = m ?k'"
    using ne by (simp add: try_acquire_other)
  ultimately show ?thesis
    using local_acquire local_slot by blast
qed

theorem device_isolation_witness:
  "snd (try_acquire (fst (try_acquire rate_limiter_new some_device OpPtySpawn 0))
     (DeviceId (replicate 32 8)) OpPtySpawn 1) =
   snd (try_acquire rate_limiter_new (DeviceId (replicate 32 8)) OpPtySpawn 1)"
  using device_isolation [of some_device "DeviceId (replicate 32 8)" OpPtySpawn]
  by (simp add: some_device_def)

end
