(* ===== verification/Canonical.thy ===== *)
theory Canonical
  imports Prelude "HOL-Library.List_Lexorder"
begin

unbundle bit_operations_syntax

text \<open>
  \<open>gonomad-store/src/canonical.rs\<close>: the deterministic CBOR encoder behind every hashed structure.
  Integers carry their width as bounds in \<open>item_wf\<close>; the sort of a map's fields is stable and by
  the encoded bytes of the keys.  The lemmas show that the encoding determines what was encoded.
\<close>

datatype item =
    IUint nat
  | IInt int
  | IBytes bytes
  | IText string
  | INull

text \<open>\<open>head\<close>: the major type in the top three bits, and the shortest form of the argument.\<close>

definition head_byte :: "nat \<Rightarrow> nat \<Rightarrow> byte" where
  "head_byte major info = push_bit 5 (word_of_nat major) OR word_of_nat info"

definition head :: "nat \<Rightarrow> nat \<Rightarrow> bytes" where
  "head major arg =
     (if arg < 2 ^ 8 then
        (if arg < 0x18 then [head_byte major arg]
         else [head_byte major 0x18, word_of_nat arg])
      else if arg < 2 ^ 16 then head_byte major 0x19 # nat_be 2 arg
      else if arg < 2 ^ 32 then head_byte major 0x1a # nat_be 4 arg
      else head_byte major 0x1b # nat_be 8 arg)"

definition length_head :: "nat \<Rightarrow> nat \<Rightarrow> bytes" where
  "length_head major len = head major (clamp_to u64_max len)"

fun encode_item :: "item \<Rightarrow> bytes" where
  "encode_item (IUint v) = head 0 v"
| "encode_item (IInt v) =
     (if v < 0 then head 1 (nat (- (v + 1))) else head 0 (nat v))"
| "encode_item (IBytes b) = length_head 2 (length b) @ b"
| "encode_item (IText s) = length_head 3 (length s) @ as_bytes s"
| "encode_item INull = [0xf6]"

definition encode_fields :: "(string \<times> item) list \<Rightarrow> (bytes \<times> bytes) list" where
  "encode_fields fields =
     sort_key fst (List.map (\<lambda>(k, v). (encode_item (IText k), encode_item v)) fields)"

definition canonical_map :: "(string \<times> item) list \<Rightarrow> bytes" where
  "canonical_map fields =
     (let encoded = encode_fields fields
      in length_head 5 (length encoded) @ concat (List.map (\<lambda>(k, v). k @ v) encoded))"

section \<open>Heads\<close>

lemma or_low_bits:
  fixes m k :: nat
  assumes "k < 32"
  shows "push_bit 5 m OR k = 32 * m + k"
proof -
  have "take_bit 5 k = k"
    using assms by (simp add: take_bit_nat_eq_self)
  then have "\<not> bit (push_bit 5 m) n \<or> \<not> bit k n" for n
    using bit_take_bit_iff [of 5 k n] by (auto simp: bit_push_bit_iff)
  then have "push_bit 5 m + k = push_bit 5 m OR k"
    by (rule disjunctive_add)
  then show ?thesis
    by (simp add: push_bit_eq_mult mult.commute)
qed

lemma unat_head_byte:
  assumes "m < 8" and "k < 32"
  shows "unat (head_byte m k) = 32 * m + k"
proof -
  have "push_bit 5 (word_of_nat m :: byte) = word_of_nat (push_bit 5 m)"
    by (simp add: push_bit_eq_mult)
  then have "head_byte m k = word_of_nat (push_bit 5 m OR k)"
    by (simp add: head_byte_def of_nat_or_eq)
  then have "unat (head_byte m k) = (32 * m + k) mod 256"
    by (simp add: or_low_bits [OF assms(2)] unat_of_nat del: of_nat_add of_nat_mult)
  with assms show ?thesis by simp
qed

lemma head_byte_eq:
  assumes k: "m < 8" "m' < 8" "k < 32" "k' < 32"
  shows "head_byte m k = head_byte m' k' \<longleftrightarrow> m = m' \<and> k = k'"
proof
  assume "head_byte m k = head_byte m' k'"
  then have eq: "32 * m + k = 32 * m' + k'"
    using unat_head_byte [OF k(1,3)] unat_head_byte [OF k(2,4)] by simp
  have "(32 * m + k) div 32 = m" "(32 * m' + k') div 32 = m'"
    using k by simp_all
  with eq show "m = m' \<and> k = k'" by simp
qed simp

text \<open>What the additional information of a head says: its value, and how many bytes follow.\<close>

definition head_info :: "nat \<Rightarrow> nat" where
  "head_info arg =
     (if arg < 24 then arg else if arg < 256 then 24 else if arg < 65536 then 25
      else if arg < 2 ^ 32 then 26 else 27)"

definition head_width :: "nat \<Rightarrow> nat" where
  "head_width arg =
     (if arg < 24 then 0 else if arg < 256 then 1 else if arg < 65536 then 2
      else if arg < 2 ^ 32 then 4 else 8)"

lemma head_alt: "head m arg = head_byte m (head_info arg) # nat_be (head_width arg) arg"
proof -
  have "nat_be 1 arg = [word_of_nat arg]" if "arg < 256"
    using that by (simp add: numeral_One [symmetric] del: numeral_One)
  then show ?thesis
    by (simp add: head_def head_info_def head_width_def)
qed

lemma head_info_width:
  "head_info a = head_info b \<Longrightarrow> head_width a = head_width b \<and> (head_info a < 24 \<longrightarrow> a = b)"
  by (auto simp: head_info_def head_width_def split: if_splits)

lemma head_info_less: "head_info a < 32"
  by (simp add: head_info_def)

lemma head_width_fits: "24 \<le> a \<Longrightarrow> a < 2 ^ 64 \<Longrightarrow> a < 256 ^ head_width a"
  by (simp add: head_width_def)

lemma head_append_eq:
  assumes "m < 8" "m' < 8" "a < 2 ^ 64" "b < 2 ^ 64"
  shows "head m a @ x = head m' b @ y \<longleftrightarrow> m = m' \<and> a = b \<and> x = y"
proof
  assume eq: "head m a @ x = head m' b @ y"
  then have "head_byte m (head_info a) = head_byte m' (head_info b)"
    and rest: "nat_be (head_width a) a @ x = nat_be (head_width b) b @ y"
    by (simp_all add: head_alt)
  then have m: "m = m'" and info: "head_info a = head_info b"
    using head_byte_eq [OF assms(1,2) head_info_less head_info_less] by simp_all
  from head_info_width [OF info] rest have bytes: "nat_be (head_width a) a = nat_be (head_width a) b"
    and xy: "x = y"
    by simp_all
  have "a = b"
  proof (cases "a < 24")
    case True
    then show ?thesis
      using head_info_width [OF info] by (simp add: head_info_def)
  next
    case False
    then have "24 \<le> a" "24 \<le> b"
      using info by (auto simp: head_info_def split: if_splits)
    then show ?thesis
      using bytes head_width_fits [of a] head_width_fits [of b] head_info_width [OF info] assms
      by (metis nat_be_inj)
  qed
  with m xy show "m = m' \<and> a = b \<and> x = y" by simp
qed simp

section \<open>Items\<close>

text \<open>The values the Rust types can hold.\<close>

fun item_wf :: "item \<Rightarrow> bool" where
  "item_wf (IUint v) \<longleftrightarrow> v < 2 ^ 64"
| "item_wf (IInt v) \<longleftrightarrow> - (2 ^ 63) \<le> v \<and> v < 2 ^ 63"
| "item_wf (IBytes b) \<longleftrightarrow> length b < 2 ^ 64"
| "item_wf (IText s) \<longleftrightarrow> length s < 2 ^ 64"
| "item_wf INull \<longleftrightarrow> True"

text \<open>A non-negative signed integer and the unsigned one encode alike; nothing else does.\<close>

fun item_norm :: "item \<Rightarrow> item" where
  "item_norm (IInt v) = (if v < 0 then IInt v else IUint (nat v))"
| "item_norm i = i"

lemma encode_item_norm: "encode_item (item_norm i) = encode_item i"
  by (cases i) simp_all

lemma item_norm_wf: "item_wf i \<Longrightarrow> item_wf (item_norm i)"
  by (cases i) (simp_all add: nat_less_iff)

lemma length_head_wf: "n < 2 ^ 64 \<Longrightarrow> length_head m n = head m n"
  by (simp add: length_head_def clamp_to_exact u64_max_def)

text \<open>Major types, arguments and bodies of normal items.\<close>

fun item_major :: "item \<Rightarrow> nat" where
  "item_major (IUint _) = 0"
| "item_major (IInt v) = (if v < 0 then 1 else 0)"
| "item_major (IBytes _) = 2"
| "item_major (IText _) = 3"
| "item_major INull = 7"

fun item_arg :: "item \<Rightarrow> nat" where
  "item_arg (IUint v) = v"
| "item_arg (IInt v) = (if v < 0 then nat (- (v + 1)) else nat v)"
| "item_arg (IBytes b) = length b"
| "item_arg (IText s) = length s"
| "item_arg INull = 22"

fun item_body :: "item \<Rightarrow> bytes" where
  "item_body (IBytes b) = b"
| "item_body (IText s) = as_bytes s"
| "item_body _ = []"

lemma null_head: "head 7 22 = [0xf6]"
  by code_simp

lemma encode_item_parts:
  "item_wf i \<Longrightarrow> encode_item i = head (item_major i) (item_arg i) @ item_body i \<and>
     item_major i < 8 \<and> item_arg i < 2 ^ 64"
  by (cases i) (auto simp: length_head_wf null_head nat_less_iff)

lemma item_parts_inj:
  "item_norm i = i \<Longrightarrow> item_norm j = j \<Longrightarrow> item_major i = item_major j \<Longrightarrow>
     item_arg i = item_arg j \<Longrightarrow> item_body i = item_body j \<Longrightarrow> i = j"
  by (cases i; cases j) (auto simp: as_bytes_inj split: if_splits)

lemma item_norm_idem [simp]: "item_norm (item_norm i) = item_norm i"
  by (cases i) simp_all

lemma length_item_body:
  "item_major i = item_major j \<Longrightarrow> item_arg i = item_arg j \<Longrightarrow> length (item_body i) = length (item_body j)"
  by (cases i; cases j) (auto split: if_splits)

text \<open>Encodings are self-delimiting and determine the item.\<close>

lemma encode_item_append_eq:
  assumes "item_wf i" "item_wf j" "encode_item i @ x = encode_item j @ y"
  shows "item_norm i = item_norm j \<and> x = y"
proof -
  let ?i = "item_norm i" and ?j = "item_norm j"
  note pi = encode_item_parts [OF item_norm_wf [OF assms(1)]]
    and pj = encode_item_parts [OF item_norm_wf [OF assms(2)]]
  have "encode_item ?i @ x = encode_item ?j @ y"
    using assms(3) by (simp add: encode_item_norm)
  then have "head (item_major ?i) (item_arg ?i) @ item_body ?i @ x
      = head (item_major ?j) (item_arg ?j) @ item_body ?j @ y"
    using pi pj by simp
  then have parts: "item_major ?i = item_major ?j" "item_arg ?i = item_arg ?j"
    and body: "item_body ?i @ x = item_body ?j @ y"
    using head_append_eq pi pj by metis+
  from body length_item_body [OF parts] have "item_body ?i = item_body ?j" "x = y"
    by simp_all
  with item_parts_inj [OF _ _ parts] show ?thesis by simp
qed

lemma encode_item_eq:
  "item_wf i \<Longrightarrow> item_wf j \<Longrightarrow> encode_item i = encode_item j \<longleftrightarrow> item_norm i = item_norm j"
  using encode_item_append_eq [of i j "[]" "[]"] by (metis append_Nil2 encode_item_norm)

section \<open>Maps\<close>

definition fields_wf :: "(string \<times> item) list \<Rightarrow> bool" where
  "fields_wf fields \<longleftrightarrow>
     distinct (List.map fst fields) \<and> length fields < 2 ^ 64 \<and>
     (\<forall>(k, v) \<in> set fields. length k < 2 ^ 64 \<and> item_wf v)"

lemma set_encode_fields:
  "set (encode_fields fields) = (\<lambda>(k, v). (encode_item (IText k), encode_item v)) ` set fields"
  by (simp add: encode_fields_def)

lemma length_encode_fields [simp]: "length (encode_fields fields) = length fields"
  by (simp add: encode_fields_def)

lemma concat_pairs_inj:
  assumes "length ps = length qs"
    and "\<forall>p \<in> set ps. \<exists>k v. item_wf k \<and> item_wf v \<and> p = (encode_item k, encode_item v)"
    and "\<forall>p \<in> set qs. \<exists>k v. item_wf k \<and> item_wf v \<and> p = (encode_item k, encode_item v)"
    and "concat (List.map (\<lambda>(k, v). k @ v) ps) = concat (List.map (\<lambda>(k, v). k @ v) qs)"
  shows "ps = qs"
  using assms
proof (induction ps qs rule: list_induct2)
  case Nil
  then show ?case by simp
next
  case (Cons p ps q qs)
  then obtain k v where p: "item_wf k" "item_wf v" "p = (encode_item k, encode_item v)"
    by auto
  from Cons obtain k' v' where q: "item_wf k'" "item_wf v'" "q = (encode_item k', encode_item v')"
    by auto
  from Cons.prems p q have "encode_item k @ encode_item v @ concat (List.map (\<lambda>(k, v). k @ v) ps)
      = encode_item k' @ encode_item v' @ concat (List.map (\<lambda>(k, v). k @ v) qs)"
    by simp
  from encode_item_append_eq [OF p(1) q(1) this]
  have k: "item_norm k = item_norm k'"
    and "encode_item v @ concat (List.map (\<lambda>(k, v). k @ v) ps)
      = encode_item v' @ concat (List.map (\<lambda>(k, v). k @ v) qs)"
    by simp_all
  from encode_item_append_eq [OF p(2) q(2) this(2)]
  have "item_norm v = item_norm v'"
    and "concat (List.map (\<lambda>(k, v). k @ v) ps) = concat (List.map (\<lambda>(k, v). k @ v) qs)"
    by simp_all
  with k Cons p q show ?case
    by (metis encode_item_norm insert_iff list.simps(15))
qed

text \<open>A map's encoding determines its fields: which keys it has, and each key's value.\<close>

lemma canonical_map_inj:
  assumes wf: "fields_wf fs" "fields_wf gs" and eq: "canonical_map fs = canonical_map gs"
  shows "(\<lambda>(k, v). (k, item_norm v)) ` set fs = (\<lambda>(k, v). (k, item_norm v)) ` set gs"
proof -
  have enc: "\<forall>p \<in> set (encode_fields hs). \<exists>k v. item_wf k \<and> item_wf v \<and>
      p = (encode_item k, encode_item v)" if "fields_wf hs" for hs
  proof
    fix p assume "p \<in> set (encode_fields hs)"
    then obtain k v where kv: "(k, v) \<in> set hs" "p = (encode_item (IText k), encode_item v)"
      by (auto simp: set_encode_fields)
    with that have "item_wf (IText k)" "item_wf v"
      by (auto simp: fields_wf_def)
    with kv show "\<exists>k v. item_wf k \<and> item_wf v \<and> p = (encode_item k, encode_item v)"
      by blast
  qed
  from eq have "length_head 5 (length fs) @ concat (List.map (\<lambda>(k, v). k @ v) (encode_fields fs))
      = length_head 5 (length gs) @ concat (List.map (\<lambda>(k, v). k @ v) (encode_fields gs))"
    by (simp add: canonical_map_def Let_def)
  then have "length fs = length gs"
    and "concat (List.map (\<lambda>(k, v). k @ v) (encode_fields fs))
      = concat (List.map (\<lambda>(k, v). k @ v) (encode_fields gs))"
    using wf head_append_eq [of 5 5 "length fs" "length gs"]
    by (simp_all add: fields_wf_def length_head_wf)
  then have "encode_fields fs = encode_fields gs"
    using enc [OF wf(1)] enc [OF wf(2)] by (intro concat_pairs_inj) simp_all
  then have same: "(\<lambda>(k, v). (encode_item (IText k), encode_item v)) ` set fs
      = (\<lambda>(k, v). (encode_item (IText k), encode_item v)) ` set gs"
    by (metis set_encode_fields)
  have sub: "(\<lambda>(k, v). (k, item_norm v)) ` set hs \<subseteq> (\<lambda>(k, v). (k, item_norm v)) ` set hs'"
    if w: "fields_wf hs" "fields_wf hs'"
      and s: "(\<lambda>(k, v). (encode_item (IText k), encode_item v)) ` set hs
        = (\<lambda>(k, v). (encode_item (IText k), encode_item v)) ` set hs'" for hs hs'
  proof
    fix p assume "p \<in> (\<lambda>(k, v). (k, item_norm v)) ` set hs"
    then obtain k v where kv: "(k, v) \<in> set hs" "p = (k, item_norm v)" by auto
    then have "(encode_item (IText k), encode_item v)
        \<in> (\<lambda>(k, v). (encode_item (IText k), encode_item v)) ` set hs"
      by (intro image_eqI [of _ _ "(k, v)"]) simp_all
    then obtain k' v' where kv': "(k', v') \<in> set hs'"
      and e: "encode_item (IText k) = encode_item (IText k')" "encode_item v = encode_item v'"
      unfolding s by (auto simp del: encode_item.simps)
    have "item_wf (IText k)" "item_wf (IText k')" "item_wf v" "item_wf v'"
      using w kv kv' by (auto simp: fields_wf_def)
    with e have "k = k'" "item_norm v = item_norm v'"
      using encode_item_eq by fastforce+
    with kv kv' show "p \<in> (\<lambda>(k, v). (k, item_norm v)) ` set hs'" by force
  qed
  show ?thesis
    using sub [OF wf same] sub [OF wf(2,1) same [symmetric]] by blast
qed

text \<open>Two maps over the same keys, field by field.\<close>

lemma canonical_map_field:
  assumes "fields_wf fs" "fields_wf gs" "canonical_map fs = canonical_map gs"
    and "(k, v) \<in> set fs" "(k, w) \<in> set gs"
  shows "item_norm v = item_norm w"
proof -
  have "(k, item_norm v) \<in> (\<lambda>(k, v). (k, item_norm v)) ` set fs"
    using assms(4) by (intro image_eqI [of _ _ "(k, v)"]) simp_all
  then have "(k, item_norm v) \<in> (\<lambda>(k, v). (k, item_norm v)) ` set gs"
    unfolding canonical_map_inj [OF assms(1,2,3)] .
  then obtain w' where "(k, w') \<in> set gs" "item_norm w' = item_norm v" by auto
  moreover have "w' = w"
    using assms(2,5) calculation unfolding fields_wf_def by (metis eq_key_imp_eq_value)
  ultimately show ?thesis by simp
qed

lemma encode_fields_same:
  assumes wf: "fields_wf fs" "fields_wf gs"
    and same: "(\<lambda>(k, v). (k, item_norm v)) ` set fs = (\<lambda>(k, v). (k, item_norm v)) ` set gs"
  shows "encode_fields fs = encode_fields gs"
proof -
  let ?enc = "\<lambda>(k, v). (encode_item (IText k), encode_item v)"
  have keys: "distinct (List.map fst (List.map ?enc hs))" if "fields_wf hs" for hs
  proof -
    have "inj_on (\<lambda>k. encode_item (IText k)) (set (List.map fst hs))"
    proof (rule inj_onI)
      fix a b assume "a \<in> set (List.map fst hs)" "b \<in> set (List.map fst hs)"
        and eq: "encode_item (IText a) = encode_item (IText b)"
      then have "item_wf (IText a)" "item_wf (IText b)"
        using that by (auto simp: fields_wf_def)
      then show "a = b"
        using eq encode_item_eq by fastforce
    qed
    moreover have "List.map fst (List.map ?enc hs) = List.map (\<lambda>k. encode_item (IText k)) (List.map fst hs)"
      by (auto simp del: encode_item.simps)
    ultimately show ?thesis
      using that by (simp only: distinct_map fields_wf_def)
  qed
  have enc_norm: "?enc ` set hs = (\<lambda>(k, v). (encode_item (IText k), encode_item v)) `
      (\<lambda>(k, v). (k, item_norm v)) ` set hs" for hs
    unfolding image_image by (intro image_cong refl) (simp add: case_prod_beta encode_item_norm del: encode_item.simps)
  have sets: "set (List.map ?enc fs) = set (List.map ?enc gs)"
    unfolding list.set_map enc_norm same ..
  have inj: "inj_on fst (set (List.map ?enc fs) \<union> set (List.map ?enc gs))"
    using keys [OF wf(1)] sets by (simp only: Un_absorb distinct_map)
  have dist: "distinct (List.map fst (sort_key fst (List.map ?enc hs)))" if "fields_wf hs" for hs
    using keys [OF that] by (simp only: distinct_map distinct_sort set_sort)
  show ?thesis
    unfolding encode_fields_def using inj sets dist [OF wf(1)] dist [OF wf(2)]
    by (intro map_sorted_distinct_set_unique [where f = fst]) (simp_all del: encode_item.simps)
qed

section \<open>Properties\<close>

text \<open>
  The encoding is canonical, both ways.  Two field lists with distinct keys encode alike
  exactly when they have the same keys with the same values: the order in which the caller lists
  the fields does not matter, and no two different structures share an encoding (a non-negative
  signed and unsigned integer being the same value).
\<close>

theorem canonical_map_canonical:
  assumes "fields_wf fs" and "fields_wf gs"
  shows "canonical_map fs = canonical_map gs \<longleftrightarrow>
    (\<lambda>(k, v). (k, item_norm v)) ` set fs = (\<lambda>(k, v). (k, item_norm v)) ` set gs"
proof
  show "canonical_map fs = canonical_map gs \<Longrightarrow>
    (\<lambda>(k, v). (k, item_norm v)) ` set fs = (\<lambda>(k, v). (k, item_norm v)) ` set gs"
    by (rule canonical_map_inj [OF assms])
qed (simp add: canonical_map_def encode_fields_same [OF assms])

theorem canonical_map_canonical_witness:
  "canonical_map [(''b'', IInt (- 3)), (''a'', IText ''x'')] =
     canonical_map [(''a'', IText ''x''), (''b'', IInt (- 3))] \<and>
   canonical_map [(''a'', IText ''x'')] \<noteq> canonical_map [(''a'', IBytes [120])]"
proof -
  have wf: "fields_wf [(''b'', IInt (- 3)), (''a'', IText ''x'')]"
    "fields_wf [(''a'', IText ''x''), (''b'', IInt (- 3))]"
    "fields_wf [(''a'', IText ''x'')]" "fields_wf [(''a'', IBytes [120])]"
    by (simp_all add: fields_wf_def)
  have "canonical_map [(''b'', IInt (- 3)), (''a'', IText ''x'')] =
      canonical_map [(''a'', IText ''x''), (''b'', IInt (- 3))]"
    unfolding canonical_map_canonical [OF wf(1,2)] by (simp add: insert_commute)
  moreover have "canonical_map [(''a'', IText ''x'')] \<noteq> canonical_map [(''a'', IBytes [120])]"
    unfolding canonical_map_canonical [OF wf(3,4)] by simp
  ultimately show ?thesis by blast
qed

end
