(* ===== verification/AuditLog.thy ===== *)
theory AuditLog
  imports Store Canonical
begin

text \<open>
  \<open>gonomad-store/src/audit.rs\<close>: the hash-chained log, its verification, and the rotation that cuts
  a prefix off behind a signed checkpoint.  The hash and the hex codec are parameters, and so is
  the daemon's signing key.  A transaction that fails leaves the database as it was, so an
  operation returns either an error or the new database with its result; clock readings are
  arguments.
\<close>

definition GENESIS_PREV_HASH :: digest where "GENESIS_PREV_HASH = Digest (replicate 32 0)"
definition FIRST_SEQ :: nat where "FIRST_SEQ = 1"
definition ENTRY_DOMAIN :: string where "ENTRY_DOMAIN = ''gonomad.audit.entry.v1''"
definition CHECKPOINT_DOMAIN :: string where "CHECKPOINT_DOMAIN = ''gonomad.audit.checkpoint.v1''"

abbreviation (input) AUDIT_TABLE :: string where "AUDIT_TABLE \<equiv> ''audit''"
abbreviation (input) CHECKPOINT_TABLE :: string where "CHECKPOINT_TABLE \<equiv> ''audit_checkpoints''"

section \<open>Entries\<close>

datatype audit_result = ResOk | ResDenied | ResFailed

definition audit_result_ALL :: "audit_result list" where
  "audit_result_ALL = [ResOk, ResDenied, ResFailed]"

fun audit_result_as_str :: "audit_result \<Rightarrow> string" where
  "audit_result_as_str ResOk = ''ok''"
| "audit_result_as_str ResDenied = ''denied''"
| "audit_result_as_str ResFailed = ''failed''"

definition audit_result_from_str :: "string \<Rightarrow> audit_result option" where
  "audit_result_from_str s = find (\<lambda>r. audit_result_as_str r = s) audit_result_ALL"

record audit_record =
  rec_device :: "device_id option"
  rec_operation :: string
  rec_args :: digest
  rec_result :: audit_result

definition audit_record_new :: "string \<Rightarrow> digest \<Rightarrow> audit_result \<Rightarrow> audit_record" where
  "audit_record_new op args res =
     \<lparr>rec_device = None, rec_operation = op, rec_args = args, rec_result = res\<rparr>"

definition audit_record_by :: "audit_record \<Rightarrow> device_id \<Rightarrow> audit_record" where
  "audit_record_by r dev = r\<lparr>rec_device := Some dev\<rparr>"

record audit_entry =
  ent_seq :: nat
  ent_ts :: int
  ent_mono :: nat
  ent_device :: "device_id option"
  ent_operation :: string
  ent_args :: digest
  ent_result :: audit_result
  ent_prev :: digest
  ent_hash :: digest

definition entry_fields :: "audit_entry \<Rightarrow> (string \<times> item) list" where
  "entry_fields e =
     [(''t'', IText ENTRY_DOMAIN),
      (''seq'', IUint (ent_seq e)),
      (''ts'', IInt (ent_ts e)),
      (''mono'', IUint (ent_mono e)),
      (''dev'', (case ent_device e of None \<Rightarrow> INull | Some d \<Rightarrow> IBytes (device_bytes d))),
      (''op'', IText (ent_operation e)),
      (''args'', IBytes (digest_bytes (ent_args e))),
      (''res'', IText (audit_result_as_str (ent_result e))),
      (''prev'', IBytes (digest_bytes (ent_prev e)))]"

definition entry_canonical_bytes :: "audit_entry \<Rightarrow> bytes" where
  "entry_canonical_bytes e = canonical_map (entry_fields e)"

definition compute_hash :: "hash_fn \<Rightarrow> audit_entry \<Rightarrow> digest" where
  "compute_hash hash e = digest_of hash (entry_canonical_bytes e)"

definition is_self_consistent :: "hash_fn \<Rightarrow> audit_entry \<Rightarrow> bool" where
  "is_self_consistent hash e \<longleftrightarrow> compute_hash hash e = ent_hash e"

section \<open>Checkpoints\<close>

record checkpoint =
  cp_through :: nat
  cp_chain :: digest
  cp_removed :: nat
  cp_ts :: int
  cp_signer :: public_key
  cp_signature :: bytes

definition signing_bytes :: "nat \<Rightarrow> digest \<Rightarrow> nat \<Rightarrow> int \<Rightarrow> public_key \<Rightarrow> bytes" where
  "signing_bytes through chain removed ts signer =
     canonical_map
       [(''t'', IText CHECKPOINT_DOMAIN),
        (''through'', IUint through),
        (''chain'', IBytes (digest_bytes chain)),
        (''removed'', IUint removed),
        (''ts'', IInt ts),
        (''signer'', IBytes (key_bytes signer))]"

definition checkpoint_canonical_bytes :: "checkpoint \<Rightarrow> bytes" where
  "checkpoint_canonical_bytes c =
     signing_bytes (cp_through c) (cp_chain c) (cp_removed c) (cp_ts c) (cp_signer c)"

record checkpoint_signer =
  signer_key :: public_key
  signer_sign :: "bytes \<Rightarrow> (string, bytes) result"

type_synonym checkpoint_verifier = "public_key \<Rightarrow> bytes \<Rightarrow> bytes \<Rightarrow> bool"

section \<open>Verdicts\<close>

datatype chain_break =
    MissingEntry nat
  | ContentTampered digest digest
  | BrokenLink digest digest
  | TruncatedHead digest "digest option"
  | UndecodableRow store_error

datatype chain_status =
    Intact nat "nat option" "digest option"
  | Broken nat chain_break

fun is_intact :: "chain_status \<Rightarrow> bool" where
  "is_intact (Intact _ _ _) = True"
| "is_intact (Broken _ _) = False"

fun broken_at :: "chain_status \<Rightarrow> nat option" where
  "broken_at (Intact _ _ _) = None"
| "broken_at (Broken s _) = Some s"

section \<open>Rows\<close>

record raw_entry =
  raw_seq :: int
  raw_ts :: int
  raw_mono :: int
  raw_device :: "string option"
  raw_operation :: string
  raw_args :: bytes
  raw_result :: string
  raw_prev :: bytes
  raw_hash :: bytes

definition raw_entry_decode :: "hex_codec \<Rightarrow> raw_entry \<Rightarrow> (store_error, audit_entry) result" where
  "raw_entry_decode hx r =
     rbind (u64_from_i64 AUDIT_TABLE ''seq'' (raw_seq r)) (\<lambda>seq.
     rbind (u64_from_i64 AUDIT_TABLE ''monotonic_ns'' (raw_mono r)) (\<lambda>mono_ns.
     rbind (case raw_device r of
              None \<Rightarrow> Ok None
            | Some s \<Rightarrow> rbind (row_device_id hx AUDIT_TABLE ''device_id'' s) (\<lambda>d. Ok (Some d))) (\<lambda>dev.
     rbind (row_digest AUDIT_TABLE ''args_digest'' (raw_args r)) (\<lambda>args.
     rbind (ok_or (audit_result_from_str (raw_result r))
              (CorruptRow AUDIT_TABLE (UnknownAuditResult (raw_result r)))) (\<lambda>res.
     rbind (row_digest AUDIT_TABLE ''prev_hash'' (raw_prev r)) (\<lambda>prev.
     rbind (row_digest AUDIT_TABLE ''hash'' (raw_hash r)) (\<lambda>hash.
       Ok \<lparr>ent_seq = seq, ent_ts = raw_ts r, ent_mono = mono_ns, ent_device = dev,
           ent_operation = raw_operation r, ent_args = args, ent_result = res,
           ent_prev = prev, ent_hash = hash\<rparr>)))))))"

record raw_checkpoint =
  rcp_through :: int
  rcp_chain :: bytes
  rcp_removed :: int
  rcp_ts :: int
  rcp_signer :: string
  rcp_signature :: bytes

definition raw_checkpoint_decode ::
  "hex_codec \<Rightarrow> raw_checkpoint \<Rightarrow> (store_error, checkpoint) result" where
  "raw_checkpoint_decode hx r =
     rbind (u64_from_i64 CHECKPOINT_TABLE ''truncated_through_seq'' (rcp_through r)) (\<lambda>through.
     rbind (row_digest CHECKPOINT_TABLE ''chain_hash'' (rcp_chain r)) (\<lambda>chain.
     rbind (u64_from_i64 CHECKPOINT_TABLE ''entries_removed'' (rcp_removed r)) (\<lambda>removed.
     rbind (row_public_key hx CHECKPOINT_TABLE ''signer'' (rcp_signer r)) (\<lambda>signer.
     rbind (row_signature CHECKPOINT_TABLE ''signature'' (rcp_signature r)) (\<lambda>sig.
       Ok \<lparr>cp_through = through, cp_chain = chain, cp_removed = removed, cp_ts = rcp_ts r,
           cp_signer = signer, cp_signature = sig\<rparr>)))))"

text \<open>The two tables, each in the order of its primary key.\<close>

record audit_db =
  db_audit :: "raw_entry list"
  db_checkpoints :: "raw_checkpoint list"

section \<open>Queries\<close>

definition tail_entry :: "hex_codec \<Rightarrow> audit_db \<Rightarrow> (store_error, audit_entry option) result" where
  "tail_entry hx db =
     (if db_audit db = [] then Ok None
      else rbind (raw_entry_decode hx (last (db_audit db))) (\<lambda>e. Ok (Some e)))"

definition latest_checkpoint :: "hex_codec \<Rightarrow> audit_db \<Rightarrow> (store_error, checkpoint option) result" where
  "latest_checkpoint hx db =
     (if db_checkpoints db = [] then Ok None
      else rbind (raw_checkpoint_decode hx (last (db_checkpoints db))) (\<lambda>c. Ok (Some c)))"

definition count_within :: "audit_db \<Rightarrow> (store_error, nat) result" where
  "count_within db = u64_from_i64 AUDIT_TABLE ''count'' (int (length (db_audit db)))"

definition first_seq_within :: "audit_db \<Rightarrow> (store_error, nat option) result" where
  "first_seq_within db =
     (if db_audit db = [] then Ok None
      else rbind (u64_from_i64 AUDIT_TABLE ''seq'' (raw_seq (hd (db_audit db)))) (\<lambda>s. Ok (Some s)))"

definition audit_head :: "hex_codec \<Rightarrow> audit_db \<Rightarrow> (store_error, (nat \<times> digest) option) result" where
  "audit_head hx db =
     rbind (tail_entry hx db) (\<lambda>t. Ok (map_option (\<lambda>e. (ent_seq e, ent_hash e)) t))"

definition audit_get :: "hex_codec \<Rightarrow> audit_db \<Rightarrow> nat \<Rightarrow> (store_error, audit_entry option) result" where
  "audit_get hx db seq =
     rbind (i64_from_u64 AUDIT_TABLE ''seq'' seq) (\<lambda>key.
       case find (\<lambda>r. raw_seq r = key) (db_audit db) of
         None \<Rightarrow> Ok None
       | Some r \<Rightarrow> rbind (raw_entry_decode hx r) (\<lambda>e. Ok (Some e)))"

definition audit_range ::
  "hex_codec \<Rightarrow> audit_db \<Rightarrow> nat \<Rightarrow> nat \<Rightarrow> (store_error, audit_entry list) result" where
  "audit_range hx db from_seq limit =
     rbind (i64_from_u64 AUDIT_TABLE ''seq'' from_seq) (\<lambda>key.
       decode_all (raw_entry_decode hx) (take limit (filter (\<lambda>r. raw_seq r \<ge> key) (db_audit db))))"

definition audit_recent :: "hex_codec \<Rightarrow> audit_db \<Rightarrow> nat \<Rightarrow> (store_error, audit_entry list) result" where
  "audit_recent hx db limit = decode_all (raw_entry_decode hx) (take limit (rev (db_audit db)))"

definition audit_for_device ::
  "hex_codec \<Rightarrow> audit_db \<Rightarrow> device_id \<Rightarrow> nat \<Rightarrow> (store_error, audit_entry list) result" where
  "audit_for_device hx db dev limit =
     decode_all (raw_entry_decode hx)
       (take limit (rev (filter (\<lambda>r. raw_device r = Some (id_to_hex hx (device_bytes dev)))
          (db_audit db))))"

definition checkpoints :: "hex_codec \<Rightarrow> audit_db \<Rightarrow> (store_error, checkpoint list) result" where
  "checkpoints hx db = decode_all (raw_checkpoint_decode hx) (db_checkpoints db)"

section \<open>Append\<close>

definition next_position ::
  "hash_fn \<Rightarrow> hex_codec \<Rightarrow> audit_db \<Rightarrow> (store_error, nat \<times> digest \<times> nat) result" where
  "next_position hash hx db =
     rbind (tail_entry hx db) (\<lambda>tail. case tail of
         Some t \<Rightarrow>
           (if \<not> is_self_consistent hash t then Err (AuditChainBroken (ent_seq t))
            else Ok (ent_seq t + 1, ent_hash t, ent_mono t + 1))
       | None \<Rightarrow>
           rbind (latest_checkpoint hx db) (\<lambda>cp. case cp of
               Some c \<Rightarrow> Ok (cp_through c + 1, cp_chain c, 0)
             | None \<Rightarrow> Ok (FIRST_SEQ, GENESIS_PREV_HASH, 0)))"

definition sealed :: "hash_fn \<Rightarrow> audit_entry \<Rightarrow> audit_entry" where
  "sealed hash e = e\<lparr>ent_hash := compute_hash hash e\<rparr>"

text \<open>The parameters of the \<open>INSERT\<close>.\<close>

definition raw_of_entry :: "hex_codec \<Rightarrow> audit_entry \<Rightarrow> (store_error, raw_entry) result" where
  "raw_of_entry hx e =
     rbind (i64_from_u64 AUDIT_TABLE ''seq'' (ent_seq e)) (\<lambda>seq.
     rbind (i64_from_u64 AUDIT_TABLE ''monotonic_ns'' (ent_mono e)) (\<lambda>mono_ns.
       Ok \<lparr>raw_seq = seq, raw_ts = ent_ts e, raw_mono = mono_ns,
           raw_device = map_option (\<lambda>d. id_to_hex hx (device_bytes d)) (ent_device e),
           raw_operation = ent_operation e, raw_args = digest_bytes (ent_args e),
           raw_result = audit_result_as_str (ent_result e),
           raw_prev = digest_bytes (ent_prev e), raw_hash = digest_bytes (ent_hash e)\<rparr>))"

definition append_within ::
  "hash_fn \<Rightarrow> hex_codec \<Rightarrow> audit_db \<Rightarrow> audit_record \<Rightarrow> int \<Rightarrow> nat \<Rightarrow>
     (store_error, audit_db \<times> audit_entry) result" where
  "append_within hash hx db record ts mono_ns =
     rbind (next_position hash hx db) (\<lambda>(seq, prev, mono_floor).
       let entry = sealed hash
             \<lparr>ent_seq = seq, ent_ts = ts, ent_mono = max mono_ns mono_floor, ent_device = rec_device record,
              ent_operation = rec_operation record, ent_args = rec_args record,
              ent_result = rec_result record, ent_prev = prev, ent_hash = GENESIS_PREV_HASH\<rparr>
       in rbind (raw_of_entry hx entry) (\<lambda>raw.
          rbind (sql_insert raw_seq raw (db_audit db)) (\<lambda>rows.
            Ok (db\<lparr>db_audit := rows\<rparr>, entry))))"

section \<open>Verification\<close>

text \<open>The loop over the rows: the two expectations, and what the verdict will report.\<close>

fun verify_rows ::
  "hash_fn \<Rightarrow> hex_codec \<Rightarrow> nat \<Rightarrow> digest \<Rightarrow> nat \<Rightarrow> nat option \<Rightarrow> digest option \<Rightarrow> raw_entry list \<Rightarrow>
     chain_status" where
  "verify_rows hash hx expected_seq expected_prev entries head_seq head_hash [] =
     Intact entries head_seq head_hash"
| "verify_rows hash hx expected_seq expected_prev entries head_seq head_hash (raw # rows) =
     (let seq_hint = (if raw_seq raw < 0 then expected_seq else nat (raw_seq raw)) in
      case raw_entry_decode hx raw of
        Inl e \<Rightarrow> Broken seq_hint (UndecodableRow e)
      | Inr entry \<Rightarrow>
          (if ent_seq entry \<noteq> expected_seq then Broken expected_seq (MissingEntry (ent_seq entry))
           else if compute_hash hash entry \<noteq> ent_hash entry
           then Broken (ent_seq entry) (ContentTampered (compute_hash hash entry) (ent_hash entry))
           else if ent_prev entry \<noteq> expected_prev
           then Broken (ent_seq entry) (BrokenLink expected_prev (ent_prev entry))
           else verify_rows hash hx (ent_seq entry + 1) (ent_hash entry) (entries + 1)
                  (Some (ent_seq entry)) (Some (ent_hash entry)) rows))"

definition chain_start :: "hex_codec \<Rightarrow> audit_db \<Rightarrow> (store_error, nat \<times> digest) result" where
  "chain_start hx db =
     rbind (latest_checkpoint hx db) (\<lambda>cp. case cp of
         Some c \<Rightarrow> Ok (cp_through c + 1, cp_chain c)
       | None \<Rightarrow> Ok (FIRST_SEQ, GENESIS_PREV_HASH))"

definition verify_within :: "hash_fn \<Rightarrow> hex_codec \<Rightarrow> audit_db \<Rightarrow> (store_error, chain_status) result" where
  "verify_within hash hx db =
     rbind (chain_start hx db) (\<lambda>(seq, prev).
       Ok (verify_rows hash hx seq prev 0 None None (db_audit db)))"

definition verify_with_anchor ::
  "hash_fn \<Rightarrow> hex_codec \<Rightarrow> audit_db \<Rightarrow> digest \<Rightarrow> (store_error, chain_status) result" where
  "verify_with_anchor hash hx db anchor =
     rbind (verify_within hash hx db) (\<lambda>status. case status of
         Broken s b \<Rightarrow> Ok status
       | Intact n head_seq head_hash \<Rightarrow>
           (if head_hash = Some anchor then Ok status
            else Ok (Broken (case head_seq of None \<Rightarrow> FIRST_SEQ | Some s \<Rightarrow> s + 1)
                      (TruncatedHead anchor head_hash))))"

fun verify_checkpoint_list :: "checkpoint_verifier \<Rightarrow> checkpoint list \<Rightarrow> nat option" where
  "verify_checkpoint_list verifier [] = None"
| "verify_checkpoint_list verifier (c # cs) =
     (if \<not> verifier (cp_signer c) (checkpoint_canonical_bytes c) (cp_signature c)
      then Some (cp_through c) else verify_checkpoint_list verifier cs)"

definition verify_checkpoints ::
  "checkpoint_verifier \<Rightarrow> hex_codec \<Rightarrow> audit_db \<Rightarrow> (store_error, nat option) result" where
  "verify_checkpoints verifier hx db =
     rbind (checkpoints hx db) (\<lambda>cs. Ok (verify_checkpoint_list verifier cs))"

section \<open>Rotation\<close>

definition raw_of_checkpoint :: "hex_codec \<Rightarrow> checkpoint \<Rightarrow> (store_error, raw_checkpoint) result" where
  "raw_of_checkpoint hx c =
     rbind (i64_from_u64 CHECKPOINT_TABLE ''truncated_through_seq'' (cp_through c)) (\<lambda>through.
     rbind (i64_from_u64 CHECKPOINT_TABLE ''entries_removed'' (cp_removed c)) (\<lambda>removed.
       Ok \<lparr>rcp_through = through, rcp_chain = digest_bytes (cp_chain c), rcp_removed = removed,
           rcp_ts = cp_ts c, rcp_signer = id_to_hex hx (key_bytes (cp_signer c)),
           rcp_signature = cp_signature c\<rparr>))"

definition rotate_cut ::
  "hex_codec \<Rightarrow> audit_db \<Rightarrow> nat \<Rightarrow> checkpoint_signer \<Rightarrow> int \<Rightarrow> audit_entry \<Rightarrow> nat \<Rightarrow>
     (store_error, audit_db \<times> checkpoint option) result" where
  "rotate_cut hx db max_entries signer ts newest first_seq =
     (let truncate_through = ent_seq newest - max_entries in
      rbind (audit_get hx db truncate_through) (\<lambda>found.
      rbind (ok_or found (AuditChainBroken truncate_through)) (\<lambda>splice.
        let entries_removed = truncate_through - first_seq + 1;
            message = signing_bytes truncate_through (ent_hash splice) entries_removed ts
              (signer_key signer)
        in rbind (map_err CheckpointSigning (signer_sign signer message)) (\<lambda>signature.
           let cp = \<lparr>cp_through = truncate_through, cp_chain = ent_hash splice,
                     cp_removed = entries_removed, cp_ts = ts, cp_signer = signer_key signer,
                     cp_signature = signature\<rparr>
           in rbind (raw_of_checkpoint hx cp) (\<lambda>raw.
              rbind (sql_insert rcp_through raw (db_checkpoints db)) (\<lambda>cps.
              rbind (i64_from_u64 AUDIT_TABLE ''seq'' truncate_through) (\<lambda>key.
                Ok (\<lparr>db_audit = filter (\<lambda>r. \<not> raw_seq r \<le> key) (db_audit db),
                     db_checkpoints = cps\<rparr>, Some cp))))))))"

definition rotate_at ::
  "hash_fn \<Rightarrow> hex_codec \<Rightarrow> audit_db \<Rightarrow> nat \<Rightarrow> checkpoint_signer \<Rightarrow> int \<Rightarrow>
     (store_error, audit_db \<times> checkpoint option) result" where
  "rotate_at hash hx db max_entries signer ts =
     rbind (verify_within hash hx db) (\<lambda>status. case broken_at status of
         Some seq \<Rightarrow> Err (AuditChainBroken seq)
       | None \<Rightarrow>
           rbind (count_within db) (\<lambda>total.
             if total \<le> max_entries then Ok (db, None)
             else rbind (tail_entry hx db) (\<lambda>newest. case newest of
                 None \<Rightarrow> Ok (db, None)
               | Some h \<Rightarrow>
                   rbind (first_seq_within db) (\<lambda>first. case first of
                       None \<Rightarrow> Ok (db, None)
                     | Some f \<Rightarrow> rotate_cut hx db max_entries signer ts h f))))"

section \<open>What is hashed determines the entry\<close>

definition entry_wf :: "audit_entry \<Rightarrow> bool" where
  "entry_wf e \<longleftrightarrow>
     ent_seq e < 2 ^ 63 \<and> - (2 ^ 63) \<le> ent_ts e \<and> ent_ts e < 2 ^ 63 \<and> ent_mono e < 2 ^ 63 \<and>
     (\<forall>d. ent_device e = Some d \<longrightarrow> id_wf (device_bytes d)) \<and>
     length (ent_operation e) < 2 ^ 64 \<and>
     id_wf (digest_bytes (ent_args e)) \<and> id_wf (digest_bytes (ent_prev e)) \<and>
     id_wf (digest_bytes (ent_hash e))"

lemma audit_result_as_str_inj: "audit_result_as_str a = audit_result_as_str b \<longleftrightarrow> a = b"
  by (cases a; cases b) simp_all

lemma audit_result_round_trip: "audit_result_from_str (audit_result_as_str r) = Some r"
  by (cases r) (simp_all add: audit_result_from_str_def audit_result_ALL_def)

lemma length_audit_result: "length (audit_result_as_str r) < 2 ^ 64"
  by (cases r) simp_all

lemma entry_fields_wf: "entry_wf e \<Longrightarrow> fields_wf (entry_fields e)"
  using length_audit_result [of "ent_result e"]
  by (auto simp: entry_wf_def fields_wf_def entry_fields_def ENTRY_DOMAIN_def id_wf_def ID_LEN_def
      split: option.split)

lemma entry_field_eq:
  assumes "entry_wf a" "entry_wf b" "entry_canonical_bytes a = entry_canonical_bytes b"
    and "(k, v) \<in> set (entry_fields a)" "(k, w) \<in> set (entry_fields b)"
  shows "item_norm v = item_norm w"
  using canonical_map_field [OF entry_fields_wf entry_fields_wf] assms
  unfolding entry_canonical_bytes_def by blast

lemma entry_canonical_bytes_inj:
  assumes "entry_wf a" "entry_wf b" "entry_canonical_bytes a = entry_canonical_bytes b"
  shows "ent_seq a = ent_seq b" "ent_ts a = ent_ts b" "ent_mono a = ent_mono b"
    "ent_device a = ent_device b" "ent_operation a = ent_operation b" "ent_args a = ent_args b"
    "ent_result a = ent_result b" "ent_prev a = ent_prev b"
proof -
  note eq = entry_field_eq [OF assms]
  show "ent_seq a = ent_seq b"
    using eq [of "''seq''" "IUint (ent_seq a)" "IUint (ent_seq b)"] by (simp add: entry_fields_def)
  show "ent_ts a = ent_ts b"
    using eq [of "''ts''" "IInt (ent_ts a)" "IInt (ent_ts b)"]
    by (simp add: entry_fields_def split: if_splits)
  show "ent_mono a = ent_mono b"
    using eq [of "''mono''" "IUint (ent_mono a)" "IUint (ent_mono b)"] by (simp add: entry_fields_def)
  show "ent_device a = ent_device b"
    using eq [of "''dev''"
        "case ent_device a of None \<Rightarrow> INull | Some d \<Rightarrow> IBytes (device_bytes d)"
        "case ent_device b of None \<Rightarrow> INull | Some d \<Rightarrow> IBytes (device_bytes d)"]
    by (auto simp: entry_fields_def device_id.expand split: option.splits)
  show "ent_operation a = ent_operation b"
    using eq [of "''op''" "IText (ent_operation a)" "IText (ent_operation b)"]
    by (simp add: entry_fields_def)
  show "ent_args a = ent_args b"
    using eq [of "''args''" "IBytes (digest_bytes (ent_args a))" "IBytes (digest_bytes (ent_args b))"]
    by (simp add: entry_fields_def digest.expand)
  show "ent_result a = ent_result b"
    using eq [of "''res''" "IText (audit_result_as_str (ent_result a))"
        "IText (audit_result_as_str (ent_result b))"]
    by (simp add: entry_fields_def audit_result_as_str_inj)
  show "ent_prev a = ent_prev b"
    using eq [of "''prev''" "IBytes (digest_bytes (ent_prev a))" "IBytes (digest_bytes (ent_prev b))"]
    by (simp add: entry_fields_def digest.expand)
qed

lemma entry_same_hash:
  assumes wf: "entry_wf a" "entry_wf b"
    and ok: "is_self_consistent hash a" "is_self_consistent hash b" "ent_hash a = ent_hash b"
    and inj: "inj_on hash {entry_canonical_bytes a, entry_canonical_bytes b}"
  shows "a = b"
proof -
  have "digest_of hash (entry_canonical_bytes a) = digest_of hash (entry_canonical_bytes b)"
    using ok by (simp add: is_self_consistent_def compute_hash_def)
  then have "entry_canonical_bytes a = entry_canonical_bytes b"
    using digest_of_eq [OF inj] by simp
  from entry_canonical_bytes_inj [OF wf this] ok(3) show ?thesis
    by (intro audit_entry.equality) simp_all
qed

definition checkpoint_wf :: "checkpoint \<Rightarrow> bool" where
  "checkpoint_wf c \<longleftrightarrow>
     cp_through c < 2 ^ 63 \<and> cp_removed c < 2 ^ 63 \<and> - (2 ^ 63) \<le> cp_ts c \<and> cp_ts c < 2 ^ 63 \<and>
     id_wf (digest_bytes (cp_chain c)) \<and> id_wf (key_bytes (cp_signer c)) \<and>
     length (cp_signature c) = 64"

definition checkpoint_fields :: "checkpoint \<Rightarrow> (string \<times> item) list" where
  "checkpoint_fields c =
     [(''t'', IText CHECKPOINT_DOMAIN), (''through'', IUint (cp_through c)),
      (''chain'', IBytes (digest_bytes (cp_chain c))), (''removed'', IUint (cp_removed c)),
      (''ts'', IInt (cp_ts c)), (''signer'', IBytes (key_bytes (cp_signer c)))]"

lemma checkpoint_canonical_fields:
  "checkpoint_canonical_bytes c = canonical_map (checkpoint_fields c)"
  by (simp add: checkpoint_canonical_bytes_def signing_bytes_def checkpoint_fields_def)

lemma checkpoint_fields_wf: "checkpoint_wf c \<Longrightarrow> fields_wf (checkpoint_fields c)"
  by (auto simp: checkpoint_wf_def fields_wf_def checkpoint_fields_def CHECKPOINT_DOMAIN_def
      id_wf_def ID_LEN_def)

section \<open>Intact chains\<close>

fun chain_from :: "hash_fn \<Rightarrow> nat \<Rightarrow> digest \<Rightarrow> audit_entry list \<Rightarrow> bool" where
  "chain_from hash seq prev [] \<longleftrightarrow> True"
| "chain_from hash seq prev (e # es) \<longleftrightarrow>
     ent_seq e = seq \<and> is_self_consistent hash e \<and> ent_prev e = prev \<and>
     chain_from hash (seq + 1) (ent_hash e) es"

definition head_of :: "digest \<Rightarrow> audit_entry list \<Rightarrow> digest" where
  "head_of prev es = (if es = [] then prev else ent_hash (last es))"

lemma head_of_simps [simp]:
  "head_of prev [] = prev"
  "head_of prev (e # es) = head_of (ent_hash e) es"
  "head_of prev (es @ [e]) = ent_hash e"
  by (simp_all add: head_of_def)

lemma chain_from_append:
  "chain_from hash seq prev (es @ fs) \<longleftrightarrow>
     chain_from hash seq prev es \<and> chain_from hash (seq + length es) (head_of prev es) fs"
  by (induction es arbitrary: seq prev) auto

lemma chain_from_seqs: "chain_from hash seq prev es \<Longrightarrow> i < length es \<Longrightarrow> ent_seq (es ! i) = seq + i"
proof (induction es arbitrary: seq prev i)
  case (Cons e es)
  then show ?case by (cases i) auto
qed simp

lemma chain_from_consistent: "chain_from hash seq prev es \<Longrightarrow> e \<in> set es \<Longrightarrow> is_self_consistent hash e"
  by (induction es arbitrary: seq prev) auto

lemma verify_rows_prefix:
  assumes "decode_all (raw_entry_decode hx) good = Inr es" and "chain_from hash seq prev es"
  shows "verify_rows hash hx seq prev n hs hh (good @ rest) =
    verify_rows hash hx (seq + length es) (head_of prev es) (n + length es)
      (if es = [] then hs else Some (ent_seq (last es)))
      (if es = [] then hh else Some (ent_hash (last es))) rest"
  using assms
proof (induction good arbitrary: es seq prev n hs hh)
  case Nil
  then show ?case by simp
next
  case (Cons r good)
  then obtain e es' where e: "raw_entry_decode hx r = Inr e" "es = e # es'"
    "decode_all (raw_entry_decode hx) good = Inr es'"
    by auto
  with Cons.prems Cons.IH [of es' "seq + 1" "ent_hash e" "n + 1" "Some (ent_seq e)" "Some (ent_hash e)"]
  show ?case
    by (auto simp: is_self_consistent_def)
qed

lemma verify_rows_Intact:
  "verify_rows hash hx seq prev n hs hh rows = Intact m hs' hh' \<longleftrightarrow>
     (\<exists>es. decode_all (raw_entry_decode hx) rows = Inr es \<and> chain_from hash seq prev es \<and>
        m = n + length es \<and> hs' = (if es = [] then hs else Some (ent_seq (last es))) \<and>
        hh' = (if es = [] then hh else Some (ent_hash (last es))))"
proof
  show "verify_rows hash hx seq prev n hs hh rows = Intact m hs' hh' \<Longrightarrow>
    \<exists>es. decode_all (raw_entry_decode hx) rows = Inr es \<and> chain_from hash seq prev es \<and>
        m = n + length es \<and> hs' = (if es = [] then hs else Some (ent_seq (last es))) \<and>
        hh' = (if es = [] then hh else Some (ent_hash (last es)))"
  proof (induction rows arbitrary: seq prev n hs hh)
    case Nil
    then show ?case by simp
  next
    case (Cons r rows)
    then obtain e where e: "raw_entry_decode hx r = Inr e" "ent_seq e = seq"
      "is_self_consistent hash e" "ent_prev e = prev"
      and rest: "verify_rows hash hx (seq + 1) (ent_hash e) (n + 1) (Some (ent_seq e))
        (Some (ent_hash e)) rows = Intact m hs' hh'"
      by (auto simp: Let_def is_self_consistent_def split: sum.splits if_splits)
    from Cons.IH [OF rest] obtain es where "decode_all (raw_entry_decode hx) rows = Inr es"
      "chain_from hash (seq + 1) (ent_hash e) es" "m = n + 1 + length es"
      "hs' = (if es = [] then Some (ent_seq e) else Some (ent_seq (last es)))"
      "hh' = (if es = [] then Some (ent_hash e) else Some (ent_hash (last es)))"
      by blast
    with e show ?case
      by (intro exI [of _ "e # es"]) simp
  qed
qed (use verify_rows_prefix [of hx rows _ hash seq prev n hs hh "[]"] in auto)

text \<open>The log of a database: its decoded entries, when they form an intact chain.\<close>

definition intact_log ::
  "hash_fn \<Rightarrow> hex_codec \<Rightarrow> audit_db \<Rightarrow> nat \<Rightarrow> digest \<Rightarrow> audit_entry list \<Rightarrow> bool" where
  "intact_log hash hx db seq prev es \<longleftrightarrow>
     chain_start hx db = Inr (seq, prev) \<and>
     decode_all (raw_entry_decode hx) (db_audit db) = Inr es \<and> chain_from hash seq prev es"

definition head_seq_of :: "audit_entry list \<Rightarrow> nat option" where
  "head_seq_of es = (if es = [] then None else Some (ent_seq (last es)))"

definition head_hash_of :: "audit_entry list \<Rightarrow> digest option" where
  "head_hash_of es = (if es = [] then None else Some (ent_hash (last es)))"

lemma verify_within_Intact:
  "verify_within hash hx db = Inr (Intact m hs hh) \<longleftrightarrow>
     (\<exists>seq prev es. intact_log hash hx db seq prev es \<and> m = length es \<and> hs = head_seq_of es \<and>
        hh = head_hash_of es)"
  by (auto simp: verify_within_def verify_rows_Intact intact_log_def head_seq_of_def head_hash_of_def)

lemma verify_intact_log:
  "intact_log hash hx db seq prev es \<Longrightarrow>
     verify_within hash hx db = Inr (Intact (length es) (head_seq_of es) (head_hash_of es))"
  using verify_within_Intact by blast

text \<open>Two chains from the same start that end in the same hash are the same chain.\<close>

lemma chain_unique:
  assumes "chain_from hash seq prev es" "chain_from hash seq prev fs"
    and "es \<noteq> []" "fs \<noteq> []" "ent_hash (last es) = ent_hash (last fs)"
    and "\<forall>e \<in> set es \<union> set fs. entry_wf e"
    and "inj_on hash (entry_canonical_bytes ` (set es \<union> set fs))"
  shows "es = fs"
  using assms
proof (induction es arbitrary: fs rule: rev_induct)
  case Nil
  then show ?case by simp
next
  case (snoc e es)
  from snoc.prems(4) obtain f fs' where fs: "fs = fs' @ [f]"
    by (metis rev_exhaust)
  have chains: "chain_from hash seq prev es" "chain_from hash seq prev fs'"
    and e: "ent_seq e = seq + length es" "is_self_consistent hash e" "ent_prev e = head_of prev es"
    and f: "ent_seq f = seq + length fs'" "is_self_consistent hash f" "ent_prev f = head_of prev fs'"
    using snoc.prems(1,2) by (auto simp: chain_from_append fs)
  have "inj_on hash {entry_canonical_bytes e, entry_canonical_bytes f}"
    using snoc.prems(7) by (rule inj_on_subset) (auto simp: fs)
  then have ef: "e = f"
    using snoc.prems e f by (intro entry_same_hash) (auto simp: fs)
  then have len: "length es = length fs'" and hh: "head_of prev es = head_of prev fs'"
    using e f by simp_all
  show ?case
  proof (cases "es = []")
    case True
    with len ef fs show ?thesis by simp
  next
    case False
    then have "fs' \<noteq> []"
      using len by auto
    with False hh have "ent_hash (last es) = ent_hash (last fs')"
      by (simp add: head_of_def)
    moreover have "inj_on hash (entry_canonical_bytes ` (set es \<union> set fs'))"
      using snoc.prems(7) by (rule inj_on_subset) (auto simp: fs)
    ultimately have "es = fs'"
      using snoc.prems(6) False \<open>fs' \<noteq> []\<close> by (intro snoc.IH chains) (auto simp: fs)
    with ef fs show ?thesis by simp
  qed
qed

section \<open>Rows and entries\<close>

text \<open>SQLite's integers are 64 bits wide, and a text that was stored fits in memory.\<close>

definition i64_wf :: "int \<Rightarrow> bool" where
  "i64_wf n \<longleftrightarrow> - (2 ^ 63) \<le> n \<and> n < 2 ^ 63"

definition raw_entry_wf :: "raw_entry \<Rightarrow> bool" where
  "raw_entry_wf r \<longleftrightarrow>
     i64_wf (raw_seq r) \<and> i64_wf (raw_ts r) \<and> i64_wf (raw_mono r) \<and>
     length (raw_operation r) < 2 ^ 64"

definition raw_checkpoint_wf :: "raw_checkpoint \<Rightarrow> bool" where
  "raw_checkpoint_wf r \<longleftrightarrow> i64_wf (rcp_through r) \<and> i64_wf (rcp_removed r) \<and> i64_wf (rcp_ts r)"

definition audit_db_wf :: "audit_db \<Rightarrow> bool" where
  "audit_db_wf db \<longleftrightarrow>
     (\<forall>r \<in> set (db_audit db). raw_entry_wf r) \<and>
     (\<forall>r \<in> set (db_checkpoints db). raw_checkpoint_wf r) \<and>
     sorted_wrt (<) (map rcp_through (db_checkpoints db))"

lemma raw_entry_decode_wf:
  assumes "raw_entry_decode hx r = Inr e" and "raw_entry_wf r"
  shows "entry_wf e \<and> 0 \<le> raw_seq r \<and> raw_seq r = int (ent_seq e)"
  using assms
  by (auto simp: raw_entry_decode_def raw_entry_wf_def i64_wf_def entry_wf_def nat_less_iff
      split: option.splits dest: row_device_id_wf)

lemma raw_of_entry_decode:
  assumes "hex_laws hx" and "entry_wf e"
  shows "\<exists>r. raw_of_entry hx e = Inr r \<and> raw_entry_decode hx r = Inr e \<and>
    raw_seq r = int (ent_seq e) \<and> raw_entry_wf r"
  using assms
  by (auto simp: raw_of_entry_def raw_entry_decode_def entry_wf_def raw_entry_wf_def i64_wf_def
      row_device_id_hex audit_result_round_trip split: option.split)

lemma raw_checkpoint_decode_wf:
  assumes "raw_checkpoint_decode hx r = Inr c" and "raw_checkpoint_wf r"
  shows "checkpoint_wf c \<and> rcp_through r = int (cp_through c)"
  using assms
  by (auto simp: raw_checkpoint_decode_def raw_checkpoint_wf_def i64_wf_def checkpoint_wf_def
      nat_less_iff dest: row_public_key_wf)

lemma raw_of_checkpoint_decode:
  assumes "hex_laws hx" and "checkpoint_wf c"
  shows "\<exists>r. raw_of_checkpoint hx c = Inr r \<and> raw_checkpoint_decode hx r = Inr c \<and>
    rcp_through r = int (cp_through c) \<and> raw_checkpoint_wf r"
  using assms
  by (auto simp: raw_of_checkpoint_def raw_checkpoint_decode_def checkpoint_wf_def
      raw_checkpoint_wf_def i64_wf_def row_public_key_hex)

lemma decode_all_wf:
  assumes "decode_all (raw_entry_decode hx) rows = Inr es" and "\<forall>r \<in> set rows. raw_entry_wf r"
  shows "(\<forall>e \<in> set es. entry_wf e) \<and> map raw_seq rows = map (int \<circ> ent_seq) es"
  using assms
  by (induction rows arbitrary: es) (auto dest!: raw_entry_decode_wf)

lemma decode_all_last:
  assumes "decode_all f rows = Inr es"
  shows "(rows = [] \<longleftrightarrow> es = []) \<and> (rows \<noteq> [] \<longrightarrow> f (last rows) = Inr (last es))"
  using assms by (induction rows arbitrary: es) auto

lemma tail_entry_log:
  "decode_all (raw_entry_decode hx) (db_audit db) = Inr es \<Longrightarrow>
     tail_entry hx db = Inr (if es = [] then None else Some (last es))"
  using decode_all_last [of "raw_entry_decode hx" "db_audit db" es]
  by (auto simp: tail_entry_def)

lemma chain_start_wf:
  assumes "chain_start hx db = Inr (seq, prev)"
  shows "id_wf (digest_bytes prev)"
proof -
  have "id_wf (digest_bytes (cp_chain c))" if "raw_checkpoint_decode hx r = Inr c" for r c
    using that by (auto simp: raw_checkpoint_decode_def)
  then have "id_wf (digest_bytes (cp_chain c))" if "latest_checkpoint hx db = Inr (Some c)" for c
    using that by (auto simp: latest_checkpoint_def split: if_splits)
  moreover have "id_wf (digest_bytes GENESIS_PREV_HASH)"
    by (simp add: GENESIS_PREV_HASH_def id_wf_def ID_LEN_def)
  ultimately show ?thesis
    using assms by (auto simp: chain_start_def split: option.splits)
qed

lemma next_position_log:
  assumes "intact_log hash hx db seq prev es"
  shows "next_position hash hx db =
    Inr (seq + length es, head_of prev es, if es = [] then 0 else ent_mono (last es) + 1)"
proof (cases "es = []")
  case True
  have "tail_entry hx db = Inr None"
    using assms True tail_entry_log [of hx db es] by (simp add: intact_log_def)
  moreover from assms have "chain_start hx db = Inr (seq, prev)"
    by (simp add: intact_log_def)
  ultimately show ?thesis
    using True by (auto simp: next_position_def chain_start_def split: option.splits)
next
  case False
  have "tail_entry hx db = Inr (Some (last es))"
    using assms False tail_entry_log [of hx db es] by (simp add: intact_log_def)
  moreover from assms False have "is_self_consistent hash (last es)"
    unfolding intact_log_def using chain_from_consistent by fastforce
  moreover have "ent_seq (last es) = seq + (length es - 1)"
    using assms False chain_from_seqs [of hash seq prev es "length es - 1"]
    by (simp add: intact_log_def last_conv_nth)
  ultimately show ?thesis
    using False by (simp add: next_position_def head_of_def)
qed

section \<open>Appending\<close>

definition record_wf :: "audit_record \<Rightarrow> bool" where
  "record_wf r \<longleftrightarrow>
     (\<forall>d. rec_device r = Some d \<longrightarrow> id_wf (device_bytes d)) \<and>
     length (rec_operation r) < 2 ^ 64 \<and> id_wf (digest_bytes (rec_args r))"

lemma entry_bytes_no_hash [simp]:
  "entry_canonical_bytes (e\<lparr>ent_hash := d\<rparr>) = entry_canonical_bytes e"
  by (simp add: entry_canonical_bytes_def entry_fields_def)

lemma sealed_consistent: "is_self_consistent hash (sealed hash e)"
  by (simp add: sealed_def is_self_consistent_def compute_hash_def)

lemma intact_log_seqs:
  assumes "intact_log hash hx db seq prev es" "audit_db_wf db" "r \<in> set (db_audit db)"
  shows "raw_seq r < int (seq + length es)"
proof -
  have dec: "decode_all (raw_entry_decode hx) (db_audit db) = Inr es"
    and chain: "chain_from hash seq prev es"
    using assms(1) by (simp_all add: intact_log_def)
  have "raw_seq r \<in> set (map raw_seq (db_audit db))"
    using assms(3) by simp
  also have "map raw_seq (db_audit db) = map (int \<circ> ent_seq) es"
    using decode_all_wf [OF dec] assms(2) by (simp add: audit_db_wf_def)
  finally obtain e where e: "e \<in> set es" "raw_seq r = int (ent_seq e)"
    by auto
  then obtain i where "i < length es" "e = es ! i"
    by (auto simp: in_set_conv_nth)
  with e chain_from_seqs [OF chain] show ?thesis by simp
qed

definition appended ::
  "hash_fn \<Rightarrow> audit_record \<Rightarrow> int \<Rightarrow> nat \<Rightarrow> nat \<Rightarrow> digest \<Rightarrow> audit_entry list \<Rightarrow> audit_entry" where
  "appended hash record ts mono_ns seq prev es = sealed hash
     \<lparr>ent_seq = seq + length es, ent_ts = ts,
      ent_mono = max mono_ns (if es = [] then 0 else ent_mono (last es) + 1),
      ent_device = rec_device record, ent_operation = rec_operation record,
      ent_args = rec_args record, ent_result = rec_result record, ent_prev = head_of prev es,
      ent_hash = GENESIS_PREV_HASH\<rparr>"

lemma appended_sel [simp]:
  "ent_seq (appended hash record ts mono_ns seq prev es) = seq + length es"
  "ent_prev (appended hash record ts mono_ns seq prev es) = head_of prev es"
  "ent_operation (appended hash record ts mono_ns seq prev es) = rec_operation record"
  "ent_device (appended hash record ts mono_ns seq prev es) = rec_device record"
  "ent_args (appended hash record ts mono_ns seq prev es) = rec_args record"
  "ent_result (appended hash record ts mono_ns seq prev es) = rec_result record"
  "ent_ts (appended hash record ts mono_ns seq prev es) = ts"
  "ent_mono (appended hash record ts mono_ns seq prev es) =
     max mono_ns (if es = [] then 0 else ent_mono (last es) + 1)"
  by (simp_all add: appended_def sealed_def)

lemma appended_consistent: "is_self_consistent hash (appended hash record ts mono_ns seq prev es)"
  by (simp add: appended_def sealed_consistent)

lemma head_of_wf:
  assumes "intact_log hash hx db seq prev es" "audit_db_wf db"
  shows "id_wf (digest_bytes (head_of prev es))"
proof (cases "es = []")
  case True
  then show ?thesis
    using assms(1) chain_start_wf [of hx db seq prev] by (simp add: intact_log_def)
next
  case False
  then have "entry_wf (last es)"
    using assms decode_all_wf [of hx "db_audit db" es]
    by (auto simp: intact_log_def audit_db_wf_def)
  with False show ?thesis by (simp add: head_of_def entry_wf_def)
qed

lemma append_log:
  assumes log: "intact_log hash hx db seq prev es" and wf: "audit_db_wf db" "hex_laws hx"
      "hash32 hash" "record_wf record" "i64_wf ts"
    and room: "seq + length es < 2 ^ 63" "mono_ns < 2 ^ 63"
      "es \<noteq> [] \<Longrightarrow> ent_mono (last es) + 1 < 2 ^ 63"
  shows "\<exists>raw. append_within hash hx db record ts mono_ns =
      Inr (db\<lparr>db_audit := db_audit db @ [raw]\<rparr>, appended hash record ts mono_ns seq prev es) \<and>
    intact_log hash hx (db\<lparr>db_audit := db_audit db @ [raw]\<rparr>) seq prev
      (es @ [appended hash record ts mono_ns seq prev es]) \<and>
    audit_db_wf (db\<lparr>db_audit := db_audit db @ [raw]\<rparr>)"
proof -
  let ?e = "appended hash record ts mono_ns seq prev es"
  have "id_wf (digest_bytes (ent_hash ?e))"
    using wf(3) appended_consistent [of hash "record" ts mono_ns seq prev es]
    by (metis compute_hash_def digest.sel digest_of_def hash32_def is_self_consistent_def)
  then have "entry_wf ?e"
    using wf room head_of_wf [OF log wf(1)]
    by (auto simp: entry_wf_def record_wf_def i64_wf_def)
  then obtain raw where raw: "raw_of_entry hx ?e = Inr raw" "raw_entry_decode hx raw = Inr ?e"
    "raw_seq raw = int (ent_seq ?e)" "raw_entry_wf raw"
    using raw_of_entry_decode [OF wf(2)] by blast
  have "\<forall>r \<in> set (db_audit db). raw_seq r < raw_seq raw"
    using intact_log_seqs [OF log wf(1)] raw(3) by simp
  then have "sql_insert raw_seq raw (db_audit db) = Inr (db_audit db @ [raw])"
    by (rule sql_insert_last)
  then have "append_within hash hx db record ts mono_ns =
      Inr (db\<lparr>db_audit := db_audit db @ [raw]\<rparr>, ?e)"
    using raw(1) next_position_log [OF log]
    by (simp add: append_within_def appended_def [symmetric] Let_def)
  moreover have "intact_log hash hx (db\<lparr>db_audit := db_audit db @ [raw]\<rparr>) seq prev (es @ [?e])"
    using log raw(2)
    by (auto simp: intact_log_def chain_start_def latest_checkpoint_def decode_all_append
        chain_from_append appended_consistent)
  moreover have "audit_db_wf (db\<lparr>db_audit := db_audit db @ [raw]\<rparr>)"
    using wf(1) raw(4) by (auto simp: audit_db_wf_def)
  ultimately show ?thesis by blast
qed

section \<open>Rotating\<close>

lemma chain_from_drop:
  assumes "chain_from hash seq prev es" and "k \<le> length es"
  shows "chain_from hash (seq + k) (head_of prev (take k es)) (drop k es)"
  using assms chain_from_append [of hash seq prev "take k es" "drop k es"] by simp

lemma decode_all_drop:
  "decode_all f rows = Inr es \<Longrightarrow> decode_all f (drop k rows) = Inr (drop k es)"
  by (simp add: decode_all_Ok list_all2_dropI)

lemma log_rows:
  assumes "intact_log hash hx db seq prev es" "audit_db_wf db"
  shows "map raw_seq (db_audit db) = map (\<lambda>i. int (seq + i)) [0..<length es]"
proof -
  have dec: "decode_all (raw_entry_decode hx) (db_audit db) = Inr es"
    and chain: "chain_from hash seq prev es"
    using assms(1) by (simp_all add: intact_log_def)
  have "map raw_seq (db_audit db) = map (int \<circ> ent_seq) es"
    using decode_all_wf [OF dec] assms(2) by (simp add: audit_db_wf_def)
  also have "\<dots> = map (\<lambda>i. int (seq + i)) [0..<length es]"
    using chain_from_seqs [OF chain] by (intro nth_equalityI) simp_all
  finally show ?thesis .
qed

lemma length_rows: "intact_log hash hx db seq prev es \<Longrightarrow> length (db_audit db) = length es"
  by (auto simp: intact_log_def decode_all_Ok dest: list_all2_lengthD)

lemma row_at:
  assumes "intact_log hash hx db seq prev es" "audit_db_wf db" "i < length es"
  shows "raw_seq (db_audit db ! i) = int (seq + i) \<and>
    raw_entry_decode hx (db_audit db ! i) = Inr (es ! i)"
proof -
  have "map raw_seq (db_audit db) ! i = int (seq + i)"
    using assms log_rows by simp
  moreover have "raw_entry_decode hx (db_audit db ! i) = Inr (es ! i)"
    using assms by (auto simp: intact_log_def decode_all_Ok list_all2_conv_all_nth)
  ultimately show ?thesis
    using assms length_rows by simp
qed

lemma filter_take_sorted:
  assumes "map key rows = map (\<lambda>i. int (seq + i)) [0..<n]" and "k \<le> n"
  shows "filter (\<lambda>r. \<not> key r < int (seq + k)) rows = drop k rows"
proof -
  have len: "length rows = n"
    using arg_cong [OF assms(1), of length] by simp
  have key: "key (rows ! i) = int (seq + i)" if "i < n" for i
    using arg_cong [OF assms(1), of "\<lambda>xs. xs ! i"] that len by simp
  have "filter (\<lambda>r. \<not> key r < int (seq + k)) (take k rows) = []"
    using key len assms(2) by (auto simp: filter_empty_conv in_set_conv_nth)
  moreover have "filter (\<lambda>r. \<not> key r < int (seq + k)) (drop k rows) = drop k rows"
    using key len assms(2) by (auto simp: filter_id_conv in_set_conv_nth)
  ultimately show ?thesis
    by (metis append_Nil append_take_drop_id filter_append)
qed

lemma find_row:
  assumes "map key rows = map (\<lambda>i. int (seq + i)) [0..<n]" and "k < n"
  shows "find (\<lambda>r. key r = int (seq + k)) rows = Some (rows ! k)"
proof -
  have len: "length rows = n"
    using arg_cong [OF assms(1), of length] by simp
  have key: "key (rows ! i) = int (seq + i)" if "i < n" for i
    using arg_cong [OF assms(1), of "\<lambda>xs. xs ! i"] that len by simp
  show ?thesis
    unfolding find_Some_iff using assms(2) key len by (intro exI [of _ k]) auto
qed

lemma latest_checkpoint_through:
  assumes "latest_checkpoint hx db = Inr (Some c)" "audit_db_wf db" "r \<in> set (db_checkpoints db)"
  shows "rcp_through r \<le> int (cp_through c)"
proof -
  from assms(1) have ne: "db_checkpoints db \<noteq> []"
    and dec: "raw_checkpoint_decode hx (last (db_checkpoints db)) = Inr c"
    by (auto simp: latest_checkpoint_def split: if_splits)
  have last: "rcp_through (last (db_checkpoints db)) = int (cp_through c)"
    using raw_checkpoint_decode_wf [OF dec] assms(2) ne by (simp add: audit_db_wf_def)
  from assms(3) obtain i where i: "i < length (db_checkpoints db)" "r = db_checkpoints db ! i"
    by (auto simp: in_set_conv_nth)
  have "sorted_wrt (<) (map rcp_through (db_checkpoints db))"
    using assms(2) by (simp add: audit_db_wf_def)
  then have "i < length (db_checkpoints db) - 1 \<Longrightarrow>
      rcp_through r < rcp_through (db_checkpoints db ! (length (db_checkpoints db) - 1))"
    using i by (simp add: sorted_wrt_iff_nth_less)
  moreover have "i < length (db_checkpoints db) - 1 \<or> i = length (db_checkpoints db) - 1"
    using i by linarith
  ultimately show ?thesis
    using i last ne by (auto simp: last_conv_nth)
qed

definition cut_checkpoint ::
  "nat \<Rightarrow> audit_entry list \<Rightarrow> nat \<Rightarrow> int \<Rightarrow> public_key \<Rightarrow> bytes \<Rightarrow> checkpoint" where
  "cut_checkpoint seq es k ts key sig =
     \<lparr>cp_through = seq + k - 1, cp_chain = ent_hash (es ! (k - 1)), cp_removed = k, cp_ts = ts,
      cp_signer = key, cp_signature = sig\<rparr>"

text \<open>
  A rotation of an intact log of \<open>k\<close> entries too many: it signs and stores the checkpoint for the
  first \<open>k\<close> and keeps the rest as it was.
\<close>

lemma rotate_log:
  assumes log: "intact_log hash hx db seq prev es" and wf: "audit_db_wf db" "hex_laws hx"
    and big: "max_entries < length es" and k: "k = length es - max_entries"
    and pos: "0 < seq" and start: "\<forall>r \<in> set (db_checkpoints db). rcp_through r < int seq"
    and signed: "signer_sign signer (checkpoint_canonical_bytes
        (cut_checkpoint seq es k ts (signer_key signer) [])) = Inr sig"
    and sizes: "length sig = 64" "id_wf (key_bytes (signer_key signer))" "i64_wf ts"
      "length es < 2 ^ 63"
  shows "\<exists>raw. rotate_at hash hx db max_entries signer ts =
      Inr (\<lparr>db_audit = drop k (db_audit db), db_checkpoints = db_checkpoints db @ [raw]\<rparr>,
        Some (cut_checkpoint seq es k ts (signer_key signer) sig)) \<and>
    raw_checkpoint_decode hx raw = Inr (cut_checkpoint seq es k ts (signer_key signer) sig) \<and>
    rcp_through raw = int (seq + k - 1) \<and> raw_checkpoint_wf raw"
proof -
  let ?cp = "cut_checkpoint seq es k ts (signer_key signer) sig"
  have dec: "decode_all (raw_entry_decode hx) (db_audit db) = Inr es"
    and chain: "chain_from hash seq prev es"
    using log by (simp_all add: intact_log_def)
  have ne: "es \<noteq> []" and k1: "0 < k" "k \<le> length es"
    using big k by auto
  note len = length_rows [OF log] and rows = log_rows [OF log wf(1)]
  have last_seq: "ent_seq (last es) = seq + length es - 1"
    using chain_from_seqs [OF chain, of "length es - 1"] ne
    by (cases es rule: rev_cases) (simp_all add: last_conv_nth)
  have ewf: "\<forall>e \<in> set es. entry_wf e"
    using decode_all_wf [OF dec] wf(1) by (simp add: audit_db_wf_def)
  have cut: "ent_seq (last es) - max_entries = seq + k - 1"
    using last_seq big k by simp
  have km: "es ! (k - 1) \<in> set es" "seq + (k - 1) = seq + k - 1"
    using k1 by auto
  have "ent_seq (es ! (k - 1)) = seq + (k - 1)"
    using k1 by (intro chain_from_seqs [OF chain]) simp
  with bspec [OF ewf km(1)] have bound: "seq + k - 1 < 2 ^ 63"
    unfolding km(2) by (simp add: entry_wf_def)
  have find: "find (\<lambda>r. raw_seq r = int (seq + k - 1)) (db_audit db) = Some (db_audit db ! (k - 1))"
    using find_row [OF rows, of "k - 1"] k1 km(2) by simp
  have "raw_entry_decode hx (db_audit db ! (k - 1)) = Inr (es ! (k - 1))"
    using row_at [OF log wf(1), of "k - 1"] k1 by simp
  with find bound have get: "audit_get hx db (seq + k - 1) = Inr (Some (es ! (k - 1)))"
    by (simp add: audit_get_def)
  have "checkpoint_wf ?cp"
    using bound sizes ewf km(1) k1
    by (auto simp: checkpoint_wf_def cut_checkpoint_def i64_wf_def entry_wf_def)
  then obtain raw where raw: "raw_of_checkpoint hx ?cp = Inr raw"
    "raw_checkpoint_decode hx raw = Inr ?cp" "rcp_through raw = int (cp_through ?cp)"
    "raw_checkpoint_wf raw"
    using raw_of_checkpoint_decode [OF wf(2)] by blast
  have ins: "sql_insert rcp_through raw (db_checkpoints db) = Inr (db_checkpoints db @ [raw])"
    using start raw(3) k1 by (intro sql_insert_last) (force simp: cut_checkpoint_def)
  have keep: "filter (\<lambda>r. \<not> raw_seq r \<le> int (seq + k - 1)) (db_audit db) = drop k (db_audit db)"
    using filter_take_sorted [OF rows k1(2)] pos k1(1)
    by (simp add: int_ops of_nat_diff le_less [of _ "int seq + int k - 1"])
  have first: "first_seq_within db = Inr (Some seq)"
    using row_at [OF log wf(1), of 0] ne len
    by (cases "db_audit db") (auto simp: first_seq_within_def)
  have "seq + k - 1 - seq + 1 = k"
    using pos k1 by simp
  moreover have "signer_sign signer (signing_bytes (seq + k - 1) (ent_hash (es ! (k - 1))) k ts
      (signer_key signer)) = Inr sig"
    using signed by (simp add: checkpoint_canonical_bytes_def cut_checkpoint_def)
  ultimately have "rotate_cut hx db max_entries signer ts (last es) seq =
      Inr (\<lparr>db_audit = drop k (db_audit db), db_checkpoints = db_checkpoints db @ [raw]\<rparr>, Some ?cp)"
    using raw(1) ins keep get bound
    by (simp add: rotate_cut_def cut Let_def cut_checkpoint_def)
  moreover have "count_within db = Inr (length es)"
    by (simp add: count_within_def len)
  ultimately have "rotate_at hash hx db max_entries signer ts =
      Inr (\<lparr>db_audit = drop k (db_audit db), db_checkpoints = db_checkpoints db @ [raw]\<rparr>, Some ?cp)"
    using verify_intact_log [OF log] tail_entry_log [OF dec] ne first big
    by (simp add: rotate_at_def)
  with raw show ?thesis
    by (auto simp: cut_checkpoint_def)
qed

text \<open>Where a log starts is beyond everything its checkpoints cut.\<close>

lemma chain_start_after:
  assumes "chain_start hx db = Inr (seq, prev)" "audit_db_wf db"
  shows "0 < seq \<and> (\<forall>r \<in> set (db_checkpoints db). rcp_through r < int seq)"
proof (cases "db_checkpoints db = []")
  case True
  with assms(1) show ?thesis
    by (simp add: chain_start_def latest_checkpoint_def FIRST_SEQ_def)
next
  case False
  with assms(1) obtain c where c: "latest_checkpoint hx db = Inr (Some c)" "seq = cp_through c + 1"
    by (auto simp: chain_start_def latest_checkpoint_def)
  then show ?thesis
    using latest_checkpoint_through [OF c(1) assms(2)] by force
qed

lemma rotated_log:
  assumes log: "intact_log hash hx db seq prev es" and wf: "audit_db_wf db"
    and k: "0 < k" "k \<le> length es" and pos: "0 < seq"
    and raw: "raw_checkpoint_decode hx raw = Inr (cut_checkpoint seq es k ts key sig)"
  shows "intact_log hash hx
    \<lparr>db_audit = drop k (db_audit db), db_checkpoints = db_checkpoints db @ [raw]\<rparr>
    (seq + k) (ent_hash (es ! (k - 1))) (drop k es)"
proof -
  have "head_of prev (take k es) = ent_hash (es ! (k - 1))"
    using k by (auto simp: head_of_def last_conv_nth min_def)
  moreover have "seq + k - 1 + 1 = seq + k"
    using k by simp
  ultimately show ?thesis
    using log raw k chain_from_drop [of hash seq prev es k]
    by (simp add: intact_log_def chain_start_def latest_checkpoint_def decode_all_drop
        cut_checkpoint_def)
qed

section \<open>Tampering\<close>

lemma chain_start_audit [simp]: "chain_start hx (db\<lparr>db_audit := rows\<rparr>) = chain_start hx db"
  by (simp add: chain_start_def latest_checkpoint_def)

lemma verify_at:
  assumes log: "intact_log hash hx db seq prev es" and i: "i < length es"
  shows "verify_within hash hx (db\<lparr>db_audit := take i (db_audit db) @ rest\<rparr>) =
    Inr (verify_rows hash hx (seq + i) (head_of prev (take i es)) i
      (head_seq_of (take i es)) (head_hash_of (take i es)) rest)"
proof -
  have dec: "decode_all (raw_entry_decode hx) (take i (db_audit db)) = Inr (take i es)"
    and chain: "chain_from hash seq prev (take i es)"
    using log chain_from_append [of hash seq prev "take i es" "drop i es"]
    by (auto simp: intact_log_def decode_all_Ok list_all2_takeI)
  have "length (take i es) = i"
    using i by simp
  then show ?thesis
    using log verify_rows_prefix [OF dec chain, of 0 None None rest]
    by (simp add: verify_within_def intact_log_def head_seq_of_def head_hash_of_def)
qed

lemma chain_entry:
  assumes "chain_from hash seq prev es" and "i < length es"
  shows "ent_seq (es ! i) = seq + i \<and> is_self_consistent hash (es ! i) \<and>
    ent_prev (es ! i) = head_of prev (take i es)"
proof -
  have "es = take i es @ es ! i # drop (Suc i) es"
    using assms(2) by (rule id_take_nth_drop)
  with assms have "chain_from hash seq prev (take i es @ es ! i # drop (Suc i) es)"
    by metis
  then show ?thesis
    using assms(2) by (simp add: chain_from_append)
qed

section \<open>Properties\<close>

text \<open>
  C30: appending to an intact log always succeeds while its numbers fit the columns, and extends
  the chain.  The new row decodes to the new entry, which has the next sequence number, links to
  the head, records exactly what was asked, and has a monotonic reading that is the clock's, or one
  beyond the newest entry's if the clock shows no more than that entry does, so that it is always
  greater than the newest entry's; all older rows are untouched and the longer log verifies, with
  the new entry as its head.
\<close>

theorem append_extends_chain:
  assumes "verify_within hash hx db = Inr (Intact n head_seq head_hash)"
    and "audit_db_wf db" "hex_laws hx" "hash32 hash" "record_wf r" "i64_wf ts"
    and "next_position hash hx db = Inr (seq, prev, mono_floor)"
    and "seq < 2 ^ 63" "max mono_ns mono_floor < 2 ^ 63"
  shows "\<exists>raw e. append_within hash hx db r ts mono_ns =
      Inr (db\<lparr>db_audit := db_audit db @ [raw]\<rparr>, e) \<and> raw_entry_decode hx raw = Inr e \<and>
    ent_seq e = seq \<and> ent_prev e = prev \<and> (\<forall>h. head_hash = Some h \<longrightarrow> prev = h) \<and>
    ent_mono e = max mono_ns mono_floor \<and> ent_ts e = ts \<and> ent_operation e = rec_operation r \<and>
    ent_device e = rec_device r \<and> ent_args e = rec_args r \<and> ent_result e = rec_result r \<and>
    (if db_audit db = [] then ent_mono e = mono_ns
     else \<exists>t. raw_entry_decode hx (last (db_audit db)) = Inr t \<and> ent_seq e = ent_seq t + 1 \<and>
       prev = ent_hash t \<and> ent_mono t < ent_mono e \<and> (ent_mono t < mono_ns \<longrightarrow> ent_mono e = mono_ns)) \<and>
    verify_within hash hx (db\<lparr>db_audit := db_audit db @ [raw]\<rparr>) =
      Inr (Intact (n + 1) (Some seq) (Some (ent_hash e)))"
proof -
  from assms(1) obtain seq0 prev0 es where log: "intact_log hash hx db seq0 prev0 es"
    and n: "n = length es" and hh: "head_hash = head_hash_of es"
    by (auto simp: verify_within_Intact)
  from next_position_log [OF log] assms(7) have pos: "seq = seq0 + length es"
    "prev = head_of prev0 es" "mono_floor = (if es = [] then 0 else ent_mono (last es) + 1)"
    by auto
  let ?e = "appended hash r ts mono_ns seq0 prev0 es"
  have "es \<noteq> [] \<Longrightarrow> ent_mono (last es) + 1 < 2 ^ 63"
    using pos(3) assms(9) by simp
  from append_log [OF log assms(2,3,4,5,6), of mono_ns] this assms(8,9) pos(1) obtain raw where
    app: "append_within hash hx db r ts mono_ns = Inr (db\<lparr>db_audit := db_audit db @ [raw]\<rparr>, ?e)"
    and log': "intact_log hash hx (db\<lparr>db_audit := db_audit db @ [raw]\<rparr>) seq0 prev0 (es @ [?e])"
    by auto
  have "raw_entry_decode hx raw = Inr ?e"
    using decode_all_last [of "raw_entry_decode hx" "db_audit db @ [raw]" "es @ [?e]"] log'
    by (simp add: intact_log_def)
  moreover have "\<forall>h. head_hash = Some h \<longrightarrow> prev = h"
    using hh pos by (auto simp: head_hash_of_def head_of_def split: if_splits)
  moreover have "if db_audit db = [] then ent_mono ?e = mono_ns
     else \<exists>t. raw_entry_decode hx (last (db_audit db)) = Inr t \<and> ent_seq ?e = ent_seq t + 1 \<and>
       prev = ent_hash t \<and> ent_mono t < ent_mono ?e \<and> (ent_mono t < mono_ns \<longrightarrow> ent_mono ?e = mono_ns)"
  proof (cases "es = []")
    case True
    then show ?thesis using log length_rows [OF log] by simp
  next
    case False
    then have rows: "db_audit db \<noteq> []" using length_rows [OF log] by auto
    have last: "raw_entry_decode hx (last (db_audit db)) = Inr (last es)"
      using row_at [OF log assms(2), of "length es - 1"] length_rows [OF log] False
      by (simp add: last_conv_nth rows)
    have "ent_seq (last es) = seq0 + (length es - 1)"
      using chain_entry [of hash seq0 prev0 es "length es - 1"] log False
      by (simp add: intact_log_def last_conv_nth)
    with last rows False pos show ?thesis by (auto simp: head_of_def)
  qed
  ultimately show ?thesis
    using app verify_intact_log [OF log'] n pos
    by (intro exI [of _ raw] exI [of _ ?e]) (simp add: head_seq_of_def head_hash_of_def)
qed

text \<open>A log of one entry, for any hash of 32 bytes.\<close>

definition empty_db :: audit_db where "empty_db = \<lparr>db_audit = [], db_checkpoints = []\<rparr>"

definition start_record :: audit_record where
  "start_record = audit_record_new ''daemon.start'' (Digest (replicate 32 1)) ResOk"

lemma empty_db_facts:
  "intact_log hash hx empty_db FIRST_SEQ GENESIS_PREV_HASH []"
  "verify_within hash hx empty_db = Inr (Intact 0 None None)"
  "next_position hash hx empty_db = Inr (FIRST_SEQ, GENESIS_PREV_HASH, 0)"
  "audit_db_wf empty_db" "record_wf start_record"
  by (simp_all add: empty_db_def intact_log_def chain_start_def latest_checkpoint_def
      verify_within_def next_position_def tail_entry_def audit_db_wf_def record_wf_def
      start_record_def audit_record_new_def id_wf_def ID_LEN_def)

theorem append_extends_chain_witness:
  "\<exists>raw e. append_within const_hash hex_crate empty_db start_record 1700000000000 99 =
      Inr (empty_db\<lparr>db_audit := [raw]\<rparr>, e) \<and> ent_seq e = 1 \<and> ent_mono e = 99 \<and>
    verify_within const_hash hex_crate (empty_db\<lparr>db_audit := [raw]\<rparr>) =
      Inr (Intact 1 (Some 1) (Some (ent_hash e)))"
  using append_extends_chain [OF empty_db_facts(2,4) hex_laws_crate hash32_const empty_db_facts(5),
      of 1700000000000 FIRST_SEQ GENESIS_PREV_HASH 0 99] empty_db_facts(3)
  by (auto simp: i64_wf_def FIRST_SEQ_def empty_db_def)

text \<open>
  C3: tampering with one row of an intact log is detected, and located.  Editing a row's contents
  is reported at its sequence number, unless the hash collides on the old and the new entry;
  deleting one that is not the newest is reported as missing at its number; editing one and
  recomputing its hash is reported as a broken link at its successor.
\<close>

theorem tampering_is_located:
  assumes "verify_within hash hx db = Inr (Intact n hs hh)" and "audit_db_wf db"
    and "i < length (db_audit db)" and "raw_entry_decode hx (db_audit db ! i) = Inr e"
  shows "(raw_entry_decode hx raw' = Inr e' \<and> ent_seq e' = ent_seq e \<longrightarrow>
      (ent_hash e' = ent_hash e \<and> e' \<noteq> e \<and> raw_entry_wf raw' \<and>
         inj_on hash {entry_canonical_bytes e, entry_canonical_bytes e'} \<longrightarrow>
       verify_within hash hx (db\<lparr>db_audit := (db_audit db)[i := raw']\<rparr>) =
         Inr (Broken (ent_seq e) (ContentTampered (compute_hash hash e') (ent_hash e)))) \<and>
      (is_self_consistent hash e' \<and> ent_prev e' = ent_prev e \<and> ent_hash e' \<noteq> ent_hash e \<and>
         i + 1 < length (db_audit db) \<longrightarrow>
       verify_within hash hx (db\<lparr>db_audit := (db_audit db)[i := raw']\<rparr>) =
         Inr (Broken (ent_seq e + 1) (BrokenLink (ent_hash e') (ent_hash e))))) \<and>
    (i + 1 < length (db_audit db) \<longrightarrow>
       verify_within hash hx (db\<lparr>db_audit := take i (db_audit db) @ drop (i + 1) (db_audit db)\<rparr>) =
         Inr (Broken (ent_seq e) (MissingEntry (ent_seq e + 1))))"
proof -
  from assms(1) obtain seq prev es where log: "intact_log hash hx db seq prev es"
    by (auto simp: verify_within_Intact)
  have chain: "chain_from hash seq prev es" and len: "length (db_audit db) = length es"
    using log length_rows [OF log] by (simp_all add: intact_log_def)
  have i: "i < length es" and e: "es ! i = e"
    using assms(3,4) len row_at [OF log assms(2), of i] by simp_all
  from chain_entry [OF chain i] e have e_facts: "ent_seq e = seq + i" "is_self_consistent hash e"
    "ent_prev e = head_of prev (take i es)" by simp_all
  have ewf: "entry_wf e" and raw_ok: "0 \<le> raw_seq (db_audit db ! i)"
    using raw_entry_decode_wf [OF assms(4)] assms(2,3) by (auto simp: audit_db_wf_def)
  note at = verify_at [OF log i]
  have upd: "(db_audit db)[i := raw'] = take i (db_audit db) @ raw' # drop (Suc i) (db_audit db)"
    using assms(3) by (simp add: upd_conv_take_nth_drop)
  have next_row: "drop (i + 1) (db_audit db) = db_audit db ! (i + 1) # drop (i + 2) (db_audit db)"
      "raw_entry_decode hx (db_audit db ! (i + 1)) = Inr (es ! (i + 1))"
      "ent_seq (es ! (i + 1)) = seq + (i + 1)" "is_self_consistent hash (es ! (i + 1))"
      "ent_prev (es ! (i + 1)) = ent_hash e"
    if "i + 1 < length (db_audit db)"
    using that len row_at [OF log assms(2), of "i + 1"] chain_entry [OF chain, of "i + 1"] e
    by (auto simp: Cons_nth_drop_Suc take_Suc_conv_app_nth)
  show ?thesis
  proof (intro conjI impI)
    assume a: "raw_entry_decode hx raw' = Inr e' \<and> ent_seq e' = ent_seq e"
      and b: "ent_hash e' = ent_hash e \<and> e' \<noteq> e \<and> raw_entry_wf raw' \<and>
        inj_on hash {entry_canonical_bytes e, entry_canonical_bytes e'}"
    have "compute_hash hash e' \<noteq> ent_hash e'"
    proof
      assume "compute_hash hash e' = ent_hash e'"
      then have "is_self_consistent hash e'"
        by (simp add: is_self_consistent_def)
      moreover have "entry_wf e'"
        using a b raw_entry_decode_wf by blast
      ultimately have "e = e'"
        using b by (intro entry_same_hash [OF ewf _ e_facts(2)]) simp_all
      with b show False by simp
    qed
    with a b e_facts(1) show "verify_within hash hx (db\<lparr>db_audit := (db_audit db)[i := raw']\<rparr>) =
        Inr (Broken (ent_seq e) (ContentTampered (compute_hash hash e') (ent_hash e)))"
      by (simp add: upd at)
  next
    assume a: "raw_entry_decode hx raw' = Inr e' \<and> ent_seq e' = ent_seq e"
      and b: "is_self_consistent hash e' \<and> ent_prev e' = ent_prev e \<and> ent_hash e' \<noteq> ent_hash e \<and>
         i + 1 < length (db_audit db)"
    with e_facts next_row show "verify_within hash hx (db\<lparr>db_audit := (db_audit db)[i := raw']\<rparr>) =
        Inr (Broken (ent_seq e + 1) (BrokenLink (ent_hash e') (ent_hash e)))"
      by (auto simp: upd at is_self_consistent_def)
  next
    assume "i + 1 < length (db_audit db)"
    with e_facts next_row show "verify_within hash hx
        (db\<lparr>db_audit := take i (db_audit db) @ drop (i + 1) (db_audit db)\<rparr>) =
        Inr (Broken (ent_seq e) (MissingEntry (ent_seq e + 1)))"
      by (simp add: at)
  qed
qed

text \<open>A log of one entry, and one of two.\<close>

definition one_db :: audit_db where
  "one_db = (case append_within const_hash hex_crate empty_db start_record 5 9 of
     Inr (db, _) \<Rightarrow> db | Inl _ \<Rightarrow> empty_db)"

definition sample_db :: audit_db where
  "sample_db = (case append_within const_hash hex_crate one_db start_record 6 9 of
     Inr (db, _) \<Rightarrow> db | Inl _ \<Rightarrow> one_db)"

lemma one_db_log:
  "\<exists>e. intact_log const_hash hex_crate one_db 1 GENESIS_PREV_HASH [e] \<and> audit_db_wf one_db \<and>
     ent_mono e = 9"
  using append_log [OF empty_db_facts(1,4) hex_laws_crate hash32_const empty_db_facts(5), of 5 9]
  by (auto simp: i64_wf_def FIRST_SEQ_def one_db_def)

lemma sample_db_log:
  "\<exists>e f. intact_log const_hash hex_crate sample_db 1 GENESIS_PREV_HASH [e, f] \<and>
     audit_db_wf sample_db"
proof -
  obtain e where log: "intact_log const_hash hex_crate one_db 1 GENESIS_PREV_HASH [e]"
    "audit_db_wf one_db" "ent_mono e = 9"
    using one_db_log by blast
  let ?f = "appended const_hash start_record 6 9 1 GENESIS_PREV_HASH [e]"
  from append_log [OF log(1,2) hex_laws_crate hash32_const empty_db_facts(5), of 6 9] log(3)
  have "intact_log const_hash hex_crate sample_db 1 GENESIS_PREV_HASH [e, ?f] \<and>
      audit_db_wf sample_db"
    by (auto simp: i64_wf_def sample_db_def)
  then show ?thesis by blast
qed

theorem tampering_is_located_witness:
  "verify_within const_hash hex_crate
     (sample_db\<lparr>db_audit := take 0 (db_audit sample_db) @ drop (0 + 1) (db_audit sample_db)\<rparr>) =
   Inr (Broken 1 (MissingEntry 2))"
proof -
  obtain e f where log: "intact_log const_hash hex_crate sample_db 1 GENESIS_PREV_HASH [e, f]"
    and wf: "audit_db_wf sample_db"
    using sample_db_log by blast
  have "ent_seq e = 1" and len: "length (db_audit sample_db) = 2"
    using log length_rows [OF log] by (simp_all add: intact_log_def)
  moreover have "raw_entry_decode hex_crate (db_audit sample_db ! 0) = Inr e"
    using row_at [OF log wf, of 0] by simp
  ultimately show ?thesis
    using tampering_is_located [OF verify_intact_log [OF log] wf, of 0 e undefined undefined]
    by simp
qed

text \<open>
  An anchor fixes the history.  If two databases that start at the same point both verify
  against the same remembered head hash, then they hold the same entries, every one of them, unless
  the hash collides on entries of the two: a truncated tail or a rewritten one cannot pass.
\<close>

theorem anchor_fixes_history:
  assumes "verify_with_anchor hash hx db anchor = Inr (Intact n s h)"
    and "verify_with_anchor hash hx db' anchor = Inr (Intact n' s' h')"
    and "chain_start hx db = chain_start hx db'" "audit_db_wf db" "audit_db_wf db'"
    and "decode_all (raw_entry_decode hx) (db_audit db) = Inr es"
    and "decode_all (raw_entry_decode hx) (db_audit db') = Inr fs"
    and "inj_on hash (entry_canonical_bytes ` (set es \<union> set fs))"
  shows "es = fs \<and> n = n' \<and> s = s'"
proof -
  have anchored: "\<exists>seq prev es. intact_log hash hx db seq prev es \<and> n = length es \<and>
      s = head_seq_of es \<and> es \<noteq> [] \<and> ent_hash (last es) = anchor"
    if "verify_with_anchor hash hx db anchor = Inr (Intact n s h)" for db n s h
  proof -
    have "verify_within hash hx db = Inr (Intact n s h) \<and> h = Some anchor"
      using that unfolding verify_with_anchor_def
      by (cases "verify_within hash hx db") (auto split: chain_status.splits if_splits)
    then show ?thesis
      by (auto simp: verify_within_Intact head_hash_of_def split: if_splits)
  qed
  from anchored [OF assms(1)] assms(6) obtain seq prev where
    e: "intact_log hash hx db seq prev es" "n = length es" "s = head_seq_of es" "es \<noteq> []"
      "ent_hash (last es) = anchor"
    by (auto simp: intact_log_def)
  from anchored [OF assms(2)] assms(3,7) e(1) have
    f: "intact_log hash hx db' seq prev fs" "n' = length fs" "s' = head_seq_of fs" "fs \<noteq> []"
      "ent_hash (last fs) = anchor"
    by (auto simp: intact_log_def)
  have "\<forall>e \<in> set es \<union> set fs. entry_wf e"
    using decode_all_wf [OF assms(6)] decode_all_wf [OF assms(7)] assms(4,5)
    by (auto simp: audit_db_wf_def)
  then have "es = fs"
    using e f assms(8) by (intro chain_unique [of hash seq prev]) (simp_all add: intact_log_def)
  with e f show ?thesis by simp
qed

theorem anchor_fixes_history_witness:
  "\<exists>e. verify_with_anchor const_hash hex_crate one_db (ent_hash e) =
       Inr (Intact 1 (Some 1) (Some (ent_hash e))) \<and>
     decode_all (raw_entry_decode hex_crate) (db_audit one_db) = Inr [e] \<and> [e] = [e]"
proof -
  obtain e where log: "intact_log const_hash hex_crate one_db 1 GENESIS_PREV_HASH [e]"
    and wf: "audit_db_wf one_db"
    using one_db_log by blast
  then have "ent_seq e = 1" and dec: "decode_all (raw_entry_decode hex_crate) (db_audit one_db) = Inr [e]"
    by (simp_all add: intact_log_def)
  then have a: "verify_with_anchor const_hash hex_crate one_db (ent_hash e) =
      Inr (Intact 1 (Some 1) (Some (ent_hash e)))"
    using verify_intact_log [OF log]
    by (simp add: verify_with_anchor_def head_seq_of_def head_hash_of_def)
  from anchor_fixes_history [OF a a refl wf wf dec dec] a dec show ?thesis
    by auto
qed

text \<open>
  C31: retention rotation keeps the log verifiable.  Rotating an intact log with too many entries,
  with a signer that signs, removes exactly the oldest ones, keeps the rest as they are, and stores
  a checkpoint that names how many went and carries the signer's signature over its own canonical
  bytes; the shorter log verifies, with the same head if any entry is to be kept, and as an empty log
  without a head if none is.  A log that is short enough is not changed.
\<close>

theorem rotation_keeps_chain:
  assumes "verify_within hash hx db = Inr (Intact n hs hh)" and "audit_db_wf db" "hex_laws hx"
    and "\<And>m. \<exists>sig. signer_sign signer m = Inr sig \<and> length sig = 64"
    and "id_wf (key_bytes (signer_key signer))" "i64_wf ts" "n < 2 ^ 63"
  shows "(n \<le> max_entries \<longrightarrow> rotate_at hash hx db max_entries signer ts = Inr (db, None)) \<and>
    (max_entries < n \<longrightarrow>
      (\<exists>db' cp. rotate_at hash hx db max_entries signer ts = Inr (db', Some cp) \<and>
         db_audit db' = drop (n - max_entries) (db_audit db) \<and> cp_removed cp = n - max_entries \<and>
         latest_checkpoint hx db' = Inr (Some cp) \<and>
         signer_sign signer (checkpoint_canonical_bytes cp) = Inr (cp_signature cp) \<and>
         audit_db_wf db' \<and>
         (\<exists>hs' hh'. verify_within hash hx db' = Inr (Intact max_entries hs' hh') \<and>
            (if 0 < max_entries then hs' = hs \<and> hh' = hh else hs' = None \<and> hh' = None))))"
proof -
  from assms(1) obtain seq prev es where log: "intact_log hash hx db seq prev es"
    and n: "n = length es" "hs = head_seq_of es" "hh = head_hash_of es"
    by (auto simp: verify_within_Intact)
  have pos: "0 < seq" "\<forall>r \<in> set (db_checkpoints db). rcp_through r < int seq"
    using chain_start_after [of hx db seq prev] log assms(2) by (simp_all add: intact_log_def)
  show ?thesis
  proof (intro conjI impI)
    assume "n \<le> max_entries"
    with assms(1) show "rotate_at hash hx db max_entries signer ts = Inr (db, None)"
      using length_rows [OF log] n by (simp add: rotate_at_def count_within_def)
  next
    assume big: "max_entries < n"
    let ?k = "n - max_entries"
    obtain sig where sig: "signer_sign signer (checkpoint_canonical_bytes
        (cut_checkpoint seq es ?k ts (signer_key signer) [])) = Inr sig" "length sig = 64"
      using assms(4) by blast
    let ?cp = "cut_checkpoint seq es ?k ts (signer_key signer) sig"
    from rotate_log [OF log assms(2,3) big [unfolded n] _ pos sig(1) sig(2) assms(5,6)] assms(7) n
    obtain raw where rot: "rotate_at hash hx db max_entries signer ts =
        Inr (\<lparr>db_audit = drop ?k (db_audit db), db_checkpoints = db_checkpoints db @ [raw]\<rparr>, Some ?cp)"
      and raw: "raw_checkpoint_decode hx raw = Inr ?cp" "rcp_through raw = int (seq + ?k - 1)"
        "raw_checkpoint_wf raw"
      by auto
    let ?db = "\<lparr>db_audit = drop ?k (db_audit db), db_checkpoints = db_checkpoints db @ [raw]\<rparr>"
    have log': "intact_log hash hx ?db (seq + ?k) (ent_hash (es ! (?k - 1))) (drop ?k es)"
      using rotated_log [OF log assms(2) _ _ pos(1) raw(1)] big n by simp
    have "latest_checkpoint hx ?db = Inr (Some ?cp)"
      using raw(1) by (simp add: latest_checkpoint_def)
    moreover have "checkpoint_canonical_bytes ?cp =
        checkpoint_canonical_bytes (cut_checkpoint seq es ?k ts (signer_key signer) [])"
      by (simp add: checkpoint_canonical_bytes_def cut_checkpoint_def)
    moreover have "audit_db_wf ?db"
      using assms(2) raw pos big
      by (auto simp: audit_db_wf_def sorted_wrt_append dest: in_set_dropD)
    moreover have "verify_within hash hx ?db =
        Inr (Intact max_entries (head_seq_of (drop ?k es)) (head_hash_of (drop ?k es)))"
      using verify_intact_log [OF log'] n big by simp
    moreover have "if 0 < max_entries then head_seq_of (drop ?k es) = hs \<and> head_hash_of (drop ?k es) = hh
        else head_seq_of (drop ?k es) = None \<and> head_hash_of (drop ?k es) = None"
      using n big by (auto simp: head_seq_of_def head_hash_of_def last_drop)
    moreover have "cp_removed ?cp = ?k" "cp_signature ?cp = sig"
      by (simp_all add: cut_checkpoint_def)
    ultimately show "\<exists>db' cp. rotate_at hash hx db max_entries signer ts = Inr (db', Some cp) \<and>
         db_audit db' = drop (n - max_entries) (db_audit db) \<and> cp_removed cp = n - max_entries \<and>
         latest_checkpoint hx db' = Inr (Some cp) \<and>
         signer_sign signer (checkpoint_canonical_bytes cp) = Inr (cp_signature cp) \<and>
         audit_db_wf db' \<and>
         (\<exists>hs' hh'. verify_within hash hx db' = Inr (Intact max_entries hs' hh') \<and>
            (if 0 < max_entries then hs' = hs \<and> hh' = hh else hs' = None \<and> hh' = None))"
      using rot sig(1) by (intro exI [of _ ?db] exI [of _ ?cp]) (simp, blast?)
  qed
qed

definition sample_signer :: checkpoint_signer where
  "sample_signer = \<lparr>signer_key = PublicKey (replicate 32 3), signer_sign = (\<lambda>m. Inr (replicate 64 7))\<rparr>"

theorem rotation_keeps_chain_witness:
  "\<exists>db' cp. rotate_at const_hash hex_crate sample_db 1 sample_signer 8 = Inr (db', Some cp) \<and>
     db_audit db' = drop 1 (db_audit sample_db) \<and> cp_removed cp = 1"
proof -
  obtain e f where log: "intact_log const_hash hex_crate sample_db 1 GENESIS_PREV_HASH [e, f]"
    and wf: "audit_db_wf sample_db"
    using sample_db_log by blast
  have "id_wf (key_bytes (signer_key sample_signer))" "i64_wf 8"
    "\<And>m. \<exists>sig. signer_sign sample_signer m = Inr sig \<and> length sig = 64"
    by (simp_all add: sample_signer_def id_wf_def ID_LEN_def i64_wf_def)
  from rotation_keeps_chain [OF verify_intact_log [OF log] wf hex_laws_crate this(3,1,2), of 1]
  show ?thesis by auto
qed

text \<open>
  What a checkpoint's signature covers.  Two checkpoints share their signed bytes only if they
  agree on everything but the signature, and no audit entry has the bytes of a checkpoint: a
  signature can be moved neither to another cut nor to or from an entry.
\<close>

theorem checkpoint_bytes_bind:
  assumes "checkpoint_wf c" "checkpoint_wf d" "entry_wf e"
  shows "(checkpoint_canonical_bytes c = checkpoint_canonical_bytes d \<longrightarrow>
      c\<lparr>cp_signature := cp_signature d\<rparr> = d) \<and>
    checkpoint_canonical_bytes c \<noteq> entry_canonical_bytes e"
proof (intro conjI impI)
  assume eq: "checkpoint_canonical_bytes c = checkpoint_canonical_bytes d"
  note field = canonical_map_field [OF checkpoint_fields_wf [OF assms(1)] checkpoint_fields_wf [OF assms(2)]
    eq [unfolded checkpoint_canonical_fields]]
  have "cp_through c = cp_through d"
    using field [of "''through''" "IUint (cp_through c)" "IUint (cp_through d)"]
    by (simp add: checkpoint_fields_def)
  moreover have "cp_removed c = cp_removed d"
    using field [of "''removed''" "IUint (cp_removed c)" "IUint (cp_removed d)"]
    by (simp add: checkpoint_fields_def)
  moreover have "cp_ts c = cp_ts d"
    using field [of "''ts''" "IInt (cp_ts c)" "IInt (cp_ts d)"]
    by (simp add: checkpoint_fields_def split: if_splits)
  moreover have "cp_chain c = cp_chain d"
    using field [of "''chain''" "IBytes (digest_bytes (cp_chain c))" "IBytes (digest_bytes (cp_chain d))"]
    by (simp add: checkpoint_fields_def digest.expand)
  moreover have "cp_signer c = cp_signer d"
    using field [of "''signer''" "IBytes (key_bytes (cp_signer c))" "IBytes (key_bytes (cp_signer d))"]
    by (simp add: checkpoint_fields_def public_key.expand)
  ultimately show "c\<lparr>cp_signature := cp_signature d\<rparr> = d"
    by (intro checkpoint.equality) simp_all
next
  show "checkpoint_canonical_bytes c \<noteq> entry_canonical_bytes e"
  proof
    assume "checkpoint_canonical_bytes c = entry_canonical_bytes e"
    then have "canonical_map (checkpoint_fields c) = canonical_map (entry_fields e)"
      by (simp add: checkpoint_canonical_fields entry_canonical_bytes_def)
    from canonical_map_field [OF checkpoint_fields_wf [OF assms(1)] entry_fields_wf [OF assms(3)] this,
        of "''t''" "IText CHECKPOINT_DOMAIN" "IText ENTRY_DOMAIN"]
    have "CHECKPOINT_DOMAIN = ENTRY_DOMAIN"
      by (simp add: checkpoint_fields_def entry_fields_def)
    then show False
      by (simp add: CHECKPOINT_DOMAIN_def ENTRY_DOMAIN_def)
  qed
qed

theorem checkpoint_bytes_bind_witness:
  "let e = appended const_hash start_record 1700000000000 99 FIRST_SEQ GENESIS_PREV_HASH [];
       c = cut_checkpoint 1 [e] 1 5 (PublicKey (replicate 32 3)) (replicate 64 7)
   in checkpoint_canonical_bytes c \<noteq> entry_canonical_bytes e \<and>
     checkpoint_canonical_bytes c = checkpoint_canonical_bytes (c\<lparr>cp_signature := replicate 64 8\<rparr>)"
proof -
  let ?e = "appended const_hash start_record 1700000000000 99 FIRST_SEQ GENESIS_PREV_HASH []"
  let ?c = "cut_checkpoint 1 [?e] 1 5 (PublicKey (replicate 32 3)) (replicate 64 7)"
  have e: "entry_wf ?e"
    by (simp add: entry_wf_def appended_def sealed_def start_record_def audit_record_new_def id_wf_def
        ID_LEN_def head_of_def GENESIS_PREV_HASH_def FIRST_SEQ_def compute_hash_def digest_of_def
        const_hash_def)
  then have "checkpoint_wf ?c"
    by (simp add: checkpoint_wf_def cut_checkpoint_def entry_wf_def id_wf_def ID_LEN_def)
  from checkpoint_bytes_bind [OF this this e] show ?thesis
    by (simp add: Let_def checkpoint_canonical_bytes_def)
qed

text \<open>
  A rotation that keeps nothing leaves a log that its last head no longer anchors: the verdict is
  a truncation, reported at the very first sequence number, although nothing was tampered with;
  and the floor under the next monotonic reading is back at zero.
\<close>

lemma full_rotation_loses_anchor:
  assumes "chain_start hx db = Inr (seq, prev)" and "db_audit db = []"
  shows "verify_with_anchor hash hx db anchor = Inr (Broken FIRST_SEQ (TruncatedHead anchor None)) \<and>
    next_position hash hx db = Inr (seq, prev, 0)"
proof -
  from assms(1) obtain cp where cp: "latest_checkpoint hx db = Inr cp"
    by (cases "latest_checkpoint hx db") (auto simp: chain_start_def)
  then show ?thesis
    using assms
    by (cases cp) (simp_all add: verify_with_anchor_def verify_within_def next_position_def
        tail_entry_def chain_start_def)
qed

end
