(* ===== verification/Noise.thy ===== *)
theory Noise
  imports Ids
begin

text \<open>
  \<open>gonomad-core/src/identity.rs\<close>, \<open>sas.rs\<close> and \<open>session.rs\<close>: the keys of a device, the six digits
  that a person compares, and the session layer around the Noise library.  The elliptic curves,
  the two modes of BLAKE3 and the \<open>snow\<close> crate are parameters.  A buffer that a call fills is the
  bytes it writes there, its size an argument.
\<close>

section \<open>Identities\<close>

definition SEED_LEN :: nat where "SEED_LEN = 32"
definition SIGNATURE_LEN :: nat where "SIGNATURE_LEN = 64"

definition SIGN_DOMAIN :: bytes where
  "SIGN_DOMAIN = as_bytes ''gonomad-device-signature-v1'' @ [0]"

definition ED25519_SUBKEY_CONTEXT :: string where
  "ED25519_SUBKEY_CONTEXT = ''gonomad 2026 device identity ed25519 v1''"

definition X25519_SUBKEY_CONTEXT :: string where
  "X25519_SUBKEY_CONTEXT = ''gonomad 2026 device identity x25519 v1''"

definition IROH_SUBKEY_CONTEXT :: string where
  "IROH_SUBKEY_CONTEXT = ''gonomad 2026 device identity iroh v1''"

datatype identity_error = MalformedKey | MalformedSignature nat | BadSignature

text \<open>
  The curve crates: public halves, signing and verifying, and whether bytes are a point.
  \<open>derive_key\<close> is BLAKE3's key derivation under a context.
\<close>

record curves =
  derive_key :: "string \<Rightarrow> bytes \<Rightarrow> bytes"
  ed_public :: "bytes \<Rightarrow> bytes"
  ed_sign :: "bytes \<Rightarrow> bytes \<Rightarrow> bytes"
  ed_point :: "bytes \<Rightarrow> bool"
  ed_verify :: "bytes \<Rightarrow> bytes \<Rightarrow> bytes \<Rightarrow> bool"
  x_secret :: "bytes \<Rightarrow> bytes"
  x_public :: "bytes \<Rightarrow> bytes"

record device_identity =
  di_signing :: bytes
  di_noise_secret :: bytes
  di_iroh_signing :: bytes
  di_seed :: bytes

definition from_seed_inner :: "curves \<Rightarrow> bytes \<Rightarrow> device_identity" where
  "from_seed_inner cv seed =
     \<lparr>di_signing = derive_key cv ED25519_SUBKEY_CONTEXT seed,
      di_noise_secret = x_secret cv (derive_key cv X25519_SUBKEY_CONTEXT seed),
      di_iroh_signing = derive_key cv IROH_SUBKEY_CONTEXT seed,
      di_seed = seed\<rparr>"

text \<open>The bytes that the operating system's generator produced are an argument.\<close>

definition identity_generate :: "curves \<Rightarrow> bytes \<Rightarrow> device_identity" where
  "identity_generate cv random = from_seed_inner cv random"

definition from_seed :: "curves \<Rightarrow> bytes \<Rightarrow> device_identity" where
  "from_seed cv seed = from_seed_inner cv seed"

definition identity_public_key :: "curves \<Rightarrow> device_identity \<Rightarrow> public_key" where
  "identity_public_key cv i = PublicKey (ed_public cv (di_signing i))"

definition identity_device_id :: "hash_fn \<Rightarrow> curves \<Rightarrow> device_identity \<Rightarrow> device_id" where
  "identity_device_id hash cv i = device_id_from_public_key hash (identity_public_key cv i)"

definition noise_public_key :: "curves \<Rightarrow> device_identity \<Rightarrow> public_key" where
  "noise_public_key cv i = PublicKey (x_public cv (di_noise_secret i))"

definition expose_noise_secret :: "device_identity \<Rightarrow> bytes" where
  "expose_noise_secret i = di_noise_secret i"

definition iroh_node_id :: "curves \<Rightarrow> device_identity \<Rightarrow> public_key" where
  "iroh_node_id cv i = PublicKey (ed_public cv (di_iroh_signing i))"

definition expose_iroh_secret :: "device_identity \<Rightarrow> bytes" where
  "expose_iroh_secret i = di_iroh_signing i"

definition expose_seed :: "device_identity \<Rightarrow> bytes" where
  "expose_seed i = di_seed i"

definition domain_separated :: "bytes \<Rightarrow> bytes" where
  "domain_separated message = SIGN_DOMAIN @ message"

definition identity_sign :: "curves \<Rightarrow> device_identity \<Rightarrow> bytes \<Rightarrow> bytes" where
  "identity_sign cv i message = ed_sign cv (di_signing i) (domain_separated message)"

definition identity_verify ::
  "curves \<Rightarrow> public_key \<Rightarrow> bytes \<Rightarrow> bytes \<Rightarrow> (identity_error, unit) result" where
  "identity_verify cv key message sig =
     (if length sig \<noteq> SIGNATURE_LEN then Err (MalformedSignature (length sig))
      else if \<not> ed_point cv (key_bytes key) then Err MalformedKey
      else if ed_verify cv (key_bytes key) (domain_separated message) sig then Ok ()
      else Err BadSignature)"

text \<open>What the crates document: sizes, and that a signature verifies under its own key.\<close>

definition curves_laws :: "curves \<Rightarrow> bool" where
  "curves_laws cv \<longleftrightarrow>
     (\<forall>c s. length (derive_key cv c s) = 32) \<and>
     (\<forall>s. length (ed_public cv s) = 32 \<and> ed_point cv (ed_public cv s)) \<and>
     (\<forall>s m. length (ed_sign cv s m) = 64 \<and> ed_verify cv (ed_public cv s) m (ed_sign cv s m)) \<and>
     (\<forall>s. length (x_secret cv s) = 32) \<and> (\<forall>s. length (x_public cv s) = 32)"

text \<open>An instance with a keyed checksum for a signature, so that the laws can hold.\<close>

definition pad32 :: "bytes \<Rightarrow> bytes" where
  "pad32 s = take 32 (s @ replicate 32 0)"

definition toy_curves :: curves where
  "toy_curves =
     \<lparr>derive_key = (\<lambda>c s. pad32 (as_bytes (rev c) @ s)), ed_public = pad32,
      ed_sign = (\<lambda>s m. pad32 s @ pad32 (rev m)), ed_point = (\<lambda>_. True),
      ed_verify = (\<lambda>k m sig. sig = k @ pad32 (rev m)), x_secret = pad32, x_public = pad32\<rparr>"

lemma length_pad32 [simp]: "length (pad32 s) = 32"
  by (simp add: pad32_def)

lemma toy_curves_laws: "curves_laws toy_curves"
  by (simp add: curves_laws_def toy_curves_def)

section \<open>The short authentication string\<close>

definition SAS_DIGITS :: nat where "SAS_DIGITS = 6"
definition SAS_MODULUS :: nat where "SAS_MODULUS = 1000000"

definition SAS_DOMAIN :: bytes where
  "SAS_DOMAIN = as_bytes ''gonomad-sas-v1'' @ [0]"

datatype sas = Sas (sas_value: nat)

definition sas_derive :: "hash_fn \<Rightarrow> bytes \<Rightarrow> sas" where
  "sas_derive hash transcript =
     Sas (be_nat (rev (take 8 (hash (SAS_DOMAIN @ transcript)))) mod SAS_MODULUS)"

definition sas_digits :: "sas \<Rightarrow> string" where
  "sas_digits s =
     replicate (SAS_DIGITS - length (show_nat (sas_value s))) CHR ''0'' @ show_nat (sas_value s)"

definition sas_grouped :: "sas \<Rightarrow> string" where
  "sas_grouped s = take 3 (sas_digits s) @ '' '' @ drop 3 (sas_digits s)"

definition sas_matches :: "sas \<Rightarrow> sas \<Rightarrow> bool" where
  "sas_matches s t \<longleftrightarrow> nat_le 4 (sas_value s) = nat_le 4 (sas_value t)"

definition sas_display :: "sas \<Rightarrow> string" where
  "sas_display s = sas_grouped s"

definition sas_debug :: "sas \<Rightarrow> string" where
  "sas_debug s = ''Sas('' @ sas_grouped s @ '')''"


section \<open>The session layer\<close>

definition NOISE_PARAMS :: string where
  "NOISE_PARAMS = ''Noise_IK_25519_ChaChaPoly_BLAKE2s''"

definition NOISE_PARAMS_PAIRING :: string where
  "NOISE_PARAMS_PAIRING = ''Noise_IKpsk2_25519_ChaChaPoly_BLAKE2s''"

definition NOISE_MAX_MESSAGE_LEN :: nat where "NOISE_MAX_MESSAGE_LEN = 65535"
definition NOISE_TAG_LEN :: nat where "NOISE_TAG_LEN = 16"
definition MAX_PLAINTEXT_LEN :: nat where "MAX_PLAINTEXT_LEN = NOISE_MAX_MESSAGE_LEN - NOISE_TAG_LEN"

datatype session_error =
    HandshakeFailed
  | DecryptFailed
  | TooLong nat
  | WrongState
  | NonceExhausted

datatype purpose = ForPairing | Reconnect

fun purpose_params :: "purpose \<Rightarrow> string" where
  "purpose_params ForPairing = NOISE_PARAMS_PAIRING"
| "purpose_params Reconnect = NOISE_PARAMS"

text \<open>
  The \<open>snow\<close> crate.  Its errors matter only as far as the code looks at them: an exhausted nonce
  counter, or anything else.  \<open>'h\<close> is a handshake in progress, \<open>'t\<close> a pair of cipher states.
  A call that is given an output buffer takes its size and yields the bytes written.
\<close>

datatype snow_error = Exhausted | OtherFailure

record noise_keys =
  nk_params :: string
  nk_local :: bytes
  nk_remote :: "bytes option"
  nk_psk :: "(nat \<times> bytes) option"

record ('h, 't) snow =
  sn_params_known :: "string \<Rightarrow> bool"
  sn_initiator :: "noise_keys \<Rightarrow> 'h option"
  sn_responder :: "noise_keys \<Rightarrow> 'h option"
  sn_hs_write :: "'h \<Rightarrow> bytes \<Rightarrow> nat \<Rightarrow> 'h \<times> (snow_error, bytes) result"
  sn_hs_read :: "'h \<Rightarrow> bytes \<Rightarrow> nat \<Rightarrow> 'h \<times> (snow_error, bytes) result"
  sn_hs_finished :: "'h \<Rightarrow> bool"
  sn_hs_remote :: "'h \<Rightarrow> bytes option"
  sn_hs_hash :: "'h \<Rightarrow> bytes"
  sn_transport :: "'h \<Rightarrow> 't option"
  sn_write :: "'t \<Rightarrow> bytes \<Rightarrow> nat \<Rightarrow> 't \<times> (snow_error, bytes) result"
  sn_read :: "'t \<Rightarrow> bytes \<Rightarrow> nat \<Rightarrow> 't \<times> (snow_error, bytes) result"

record 'h handshake =
  hs_state :: 'h
  hs_purpose :: purpose

definition handshake_params :: "('h, 't) snow \<Rightarrow> purpose \<Rightarrow> (session_error, string) result" where
  "handshake_params sn p =
     (if sn_params_known sn (purpose_params p) then Ok (purpose_params p) else Err HandshakeFailed)"

definition handshake_initiator ::
  "('h, 't) snow \<Rightarrow> device_identity \<Rightarrow> public_key \<Rightarrow> purpose \<Rightarrow> bytes option \<Rightarrow>
     (session_error, 'h handshake) result" where
  "handshake_initiator sn i remote p psk =
     rbind (handshake_params sn p) (\<lambda>params.
     rbind (ok_or (sn_initiator sn
              \<lparr>nk_params = params, nk_local = expose_noise_secret i,
               nk_remote = Some (key_bytes remote), nk_psk = map_option (Pair 2) psk\<rparr>)
            HandshakeFailed) (\<lambda>st.
     Ok \<lparr>hs_state = st, hs_purpose = p\<rparr>))"

definition handshake_responder ::
  "('h, 't) snow \<Rightarrow> device_identity \<Rightarrow> purpose \<Rightarrow> bytes option \<Rightarrow>
     (session_error, 'h handshake) result" where
  "handshake_responder sn i p psk =
     rbind (handshake_params sn p) (\<lambda>params.
     rbind (ok_or (sn_responder sn
              \<lparr>nk_params = params, nk_local = expose_noise_secret i,
               nk_remote = None, nk_psk = map_option (Pair 2) psk\<rparr>)
            HandshakeFailed) (\<lambda>st.
     Ok \<lparr>hs_state = st, hs_purpose = p\<rparr>))"

definition hs_write_message ::
  "('h, 't) snow \<Rightarrow> 'h handshake \<Rightarrow> bytes \<Rightarrow> nat \<Rightarrow> 'h handshake \<times> (session_error, bytes) result" where
  "hs_write_message sn hs payload room =
     (let (st, r) = sn_hs_write sn (hs_state hs) payload room
      in (hs\<lparr>hs_state := st\<rparr>, map_err (\<lambda>_. HandshakeFailed) r))"

definition hs_read_message ::
  "('h, 't) snow \<Rightarrow> 'h handshake \<Rightarrow> bytes \<Rightarrow> nat \<Rightarrow> 'h handshake \<times> (session_error, bytes) result" where
  "hs_read_message sn hs message room =
     (let (st, r) = sn_hs_read sn (hs_state hs) message room
      in (hs\<lparr>hs_state := st\<rparr>, map_err (\<lambda>_. HandshakeFailed) r))"

definition hs_is_finished :: "('h, 't) snow \<Rightarrow> 'h handshake \<Rightarrow> bool" where
  "hs_is_finished sn hs = sn_hs_finished sn (hs_state hs)"

definition hs_remote_static :: "('h, 't) snow \<Rightarrow> 'h handshake \<Rightarrow> public_key option" where
  "hs_remote_static sn hs =
     Option.bind (sn_hs_remote sn (hs_state hs)) (\<lambda>k.
       case id_from_slice k of Inl _ \<Rightarrow> None | Inr b \<Rightarrow> Some (PublicKey b))"

definition hs_sas :: "hash_fn \<Rightarrow> ('h, 't) snow \<Rightarrow> 'h handshake \<Rightarrow> (session_error, sas) result" where
  "hs_sas hash sn hs =
     (if \<not> hs_is_finished sn hs then Err WrongState
      else Ok (sas_derive hash (sn_hs_hash sn (hs_state hs))))"

record 't session =
  se_state :: 't
  se_remote_static :: "public_key option"
  se_handshake_hash :: bytes

text \<open>The hash is copied into an array of 32 bytes that starts as zeroes.\<close>

definition into_session ::
  "('h, 't) snow \<Rightarrow> 'h handshake \<Rightarrow> (session_error, 't session) result" where
  "into_session sn hs =
     (if \<not> hs_is_finished sn hs then Err WrongState
      else
        let got = sn_hs_hash sn (hs_state hs);
            n = min (length got) 32;
            h = take n got @ drop n (replicate 32 0)
        in rbind (ok_or (sn_transport sn (hs_state hs)) WrongState) (\<lambda>st.
           Ok \<lparr>se_state = st, se_remote_static = hs_remote_static sn hs, se_handshake_hash = h\<rparr>))"

fun of_snow :: "snow_error \<Rightarrow> session_error" where
  "of_snow Exhausted = NonceExhausted"
| "of_snow OtherFailure = DecryptFailed"

definition session_encrypt ::
  "('h, 't) snow \<Rightarrow> 't session \<Rightarrow> bytes \<Rightarrow> nat \<Rightarrow> 't session \<times> (session_error, bytes) result" where
  "session_encrypt sn s plaintext room =
     (if length plaintext > MAX_PLAINTEXT_LEN then (s, Err (TooLong (length plaintext)))
      else
        let (st, r) = sn_write sn (se_state s) plaintext room
        in (s\<lparr>se_state := st\<rparr>, map_err of_snow r))"

definition session_decrypt ::
  "('h, 't) snow \<Rightarrow> 't session \<Rightarrow> bytes \<Rightarrow> nat \<Rightarrow> 't session \<times> (session_error, bytes) result" where
  "session_decrypt sn s ciphertext room =
     (let (st, r) = sn_read sn (se_state s) ciphertext room
      in (s\<lparr>se_state := st\<rparr>, map_err of_snow r))"

definition session_remote_static :: "'t session \<Rightarrow> public_key option" where
  "session_remote_static s = se_remote_static s"

definition channel_binding :: "'t session \<Rightarrow> bytes" where
  "channel_binding s = se_handshake_hash s"

definition session_sas :: "hash_fn \<Rightarrow> 't session \<Rightarrow> sas" where
  "session_sas hash s = sas_derive hash (se_handshake_hash s)"


section \<open>What the digits show\<close>

text \<open>Reading a decimal rendering back.\<close>

definition of_digits :: "string \<Rightarrow> nat" where
  "of_digits s = foldl (\<lambda>acc c. acc * 10 + (of_char c - 48)) 0 s"

lemma of_digits_simps [simp]:
  "of_digits [] = 0"
  "of_digits (s @ [c]) = of_digits s * 10 + (of_char c - 48)"
  by (simp_all add: of_digits_def)

lemma digit_char: "d < 10 \<Longrightarrow> of_char (char_of (48 + d) :: char) = 48 + (d :: nat)"
  by simp

lemma of_digits_show_nat: "of_digits (show_nat n) = n"
proof (induction n rule: less_induct)
  case (less n)
  show ?case
  proof (cases "n < 10")
    case True
    then show ?thesis
      using digit_char [of n] of_digits_simps(2) [of "[]"] by (subst show_nat.simps) simp
  next
    case False
    then have "of_digits (show_nat (n div 10)) = n div 10"
      by (intro less) simp
    with False digit_char [of "n mod 10"] show ?thesis
      by (subst show_nat.simps) simp
  qed
qed

lemma of_digits_zeros [simp]: "of_digits (replicate k CHR ''0'' @ s) = of_digits s"
proof -
  have "foldl (\<lambda>acc c. acc * 10 + (of_char c - 48)) 0 (replicate k CHR ''0'') = (0 :: nat)"
    by (induction k) simp_all
  then show ?thesis
    by (simp add: of_digits_def)
qed

definition is_digit :: "char \<Rightarrow> bool" where
  "is_digit c \<longleftrightarrow> 48 \<le> (of_char c :: nat) \<and> (of_char c :: nat) \<le> 57"

lemma show_nat_digits: "list_all is_digit (show_nat n)"
proof (induction n rule: less_induct)
  case (less n)
  show ?case
  proof (cases "n < 10")
    case True
    then show ?thesis
      using digit_char [of n] by (subst show_nat.simps) (simp add: is_digit_def)
  next
    case False
    then have "list_all is_digit (show_nat (n div 10))"
      by (intro less) simp
    with False digit_char [of "n mod 10"] show ?thesis
      by (subst show_nat.simps) (auto simp: is_digit_def)
  qed
qed

lemma length_show_nat: "n < 10 ^ Suc k \<Longrightarrow> length (show_nat n) \<le> Suc k"
proof (induction k arbitrary: n)
  case 0
  then show ?case by (subst show_nat.simps) simp
next
  case (Suc k)
  show ?case
  proof (cases "n < 10")
    case True
    then show ?thesis by (subst show_nat.simps) simp
  next
    case False
    have "n div 10 < 10 ^ Suc k"
      using Suc.prems by (simp add: less_mult_imp_div_less mult.commute)
    from Suc.IH [OF this] False show ?thesis
      by (subst show_nat.simps) simp
  qed
qed

lemma sas_derive_bound: "sas_value (sas_derive hash t) < 1000000"
  by (simp add: sas_derive_def SAS_MODULUS_def)

lemma length_sas_digits: "sas_value s < 1000000 \<Longrightarrow> length (sas_digits s) = 6"
  using length_show_nat [of "sas_value s" 5] by (simp add: sas_digits_def SAS_DIGITS_def)

lemma sas_digits_read_back: "of_digits (sas_digits s) = sas_value s"
  by (simp add: sas_digits_def of_digits_show_nat)

lemma sas_matches_iff:
  "sas_value s < 1000000 \<Longrightarrow> sas_value t < 1000000 \<Longrightarrow> sas_matches s t \<longleftrightarrow> s = t"
  using nat_be_inj [of "sas_value s" 4 "sas_value t"]
  by (auto simp: sas_matches_def nat_le_def sas.expand)

text \<open>
  What two people compare is what the two programs compare.  A short authentication string
  always renders as six decimal digits, with leading zeros, shown as two groups of three; two of
  them render alike exactly when the constant-time comparison accepts them, which is exactly when
  their numbers are equal.
\<close>

theorem sas_digits_faithful:
  "length (sas_digits (sas_derive hash t)) = 6 \<and> list_all is_digit (sas_digits (sas_derive hash t)) \<and>
   (\<exists>a b. length a = 3 \<and> length b = 3 \<and> sas_digits (sas_derive hash t) = a @ b \<and>
      sas_display (sas_derive hash t) = a @ '' '' @ b) \<and>
   (sas_display (sas_derive hash t) = sas_display (sas_derive hash u) \<longleftrightarrow>
      sas_matches (sas_derive hash t) (sas_derive hash u)) \<and>
   (sas_matches (sas_derive hash t) (sas_derive hash u) \<longleftrightarrow>
      sas_value (sas_derive hash t) = sas_value (sas_derive hash u))"
proof -
  let ?s = "sas_derive hash t" and ?u = "sas_derive hash u"
  note len = length_sas_digits [OF sas_derive_bound]
  have shown: "sas_display ?s = sas_display ?u \<longleftrightarrow> sas_digits ?s = sas_digits ?u"
  proof
    assume "sas_display ?s = sas_display ?u"
    then have "take 3 (sas_digits ?s) = take 3 (sas_digits ?u)" "drop 3 (sas_digits ?s) = drop 3 (sas_digits ?u)"
      using len by (auto simp: sas_display_def sas_grouped_def)
    then show "sas_digits ?s = sas_digits ?u"
      by (metis append_take_drop_id)
  qed (simp add: sas_display_def sas_grouped_def)
  have same: "sas_digits ?s = sas_digits ?u \<longleftrightarrow> ?s = ?u"
    by (metis sas.expand sas_digits_read_back)
  have "list_all is_digit (sas_digits ?s)"
    using show_nat_digits [of "sas_value ?s"]
    by (auto simp: sas_digits_def list_all_iff) (simp add: is_digit_def)
  moreover have "\<exists>a b. length a = 3 \<and> length b = 3 \<and> sas_digits ?s = a @ b \<and> sas_display ?s = a @ '' '' @ b"
    using len by (intro exI [of _ "take 3 (sas_digits ?s)"] exI [of _ "drop 3 (sas_digits ?s)"])
      (simp add: sas_display_def sas_grouped_def)
  ultimately show ?thesis
    using len shown same sas_matches_iff [OF sas_derive_bound sas_derive_bound, of hash t hash u]
    by (auto intro: sas.expand)
qed

section \<open>Keys and signatures\<close>

text \<open>
  Every identity is well formed and reproducible.  Whatever seed it is made from, its three public keys
  and its identifier are 32 bytes, as the identifiers of the protocol require; the exported seed restores
  the same identity; and a signature it makes verifies under its own public key, for exactly the
  message that was signed as far as the curve tells messages apart, with the domain separator in front.
\<close>

lemma identities_well_formed:
  assumes "curves_laws cv" and "hash32 hash"
  shows "id_wf (key_bytes (identity_public_key cv (from_seed cv seed))) \<and>
    id_wf (key_bytes (noise_public_key cv (from_seed cv seed))) \<and>
    id_wf (key_bytes (iroh_node_id cv (from_seed cv seed))) \<and>
    id_wf (device_bytes (identity_device_id hash cv (from_seed cv seed))) \<and>
    from_seed cv (expose_seed (from_seed cv seed)) = from_seed cv seed \<and>
    identity_verify cv (identity_public_key cv (from_seed cv seed)) m
      (identity_sign cv (from_seed cv seed) m) = Ok () \<and>
    (identity_verify cv (identity_public_key cv (from_seed cv seed)) m sig = Ok () \<longleftrightarrow>
       length sig = 64 \<and>
       ed_verify cv (ed_public cv (derive_key cv ED25519_SUBKEY_CONTEXT seed)) (SIGN_DOMAIN @ m) sig)"
  using assms
  by (auto simp: curves_laws_def hash32_def id_wf_def ID_LEN_def identity_public_key_def noise_public_key_def
      iroh_node_id_def identity_device_id_def device_id_from_public_key_def from_seed_def
      from_seed_inner_def expose_seed_def identity_verify_def identity_sign_def domain_separated_def
      SIGNATURE_LEN_def)

text \<open>
  Each key has a subkey of its own, and two of them agree only where key derivation or the curve maps
  different inputs to one output.
\<close>

lemma identity_keys_are_separate:
  "identity_public_key cv (from_seed cv seed) = PublicKey (ed_public cv (derive_key cv ED25519_SUBKEY_CONTEXT seed))"
  "noise_public_key cv (from_seed cv seed) =
     PublicKey (x_public cv (x_secret cv (derive_key cv X25519_SUBKEY_CONTEXT seed)))"
  "iroh_node_id cv (from_seed cv seed) = PublicKey (ed_public cv (derive_key cv IROH_SUBKEY_CONTEXT seed))"
  "distinct [ED25519_SUBKEY_CONTEXT, X25519_SUBKEY_CONTEXT, IROH_SUBKEY_CONTEXT]"
  by (simp_all add: identity_public_key_def noise_public_key_def iroh_node_id_def from_seed_def from_seed_inner_def
      ED25519_SUBKEY_CONTEXT_def X25519_SUBKEY_CONTEXT_def IROH_SUBKEY_CONTEXT_def)

text \<open>The digits shown before and after the conversion of a handshake agree.\<close>

lemma sas_survives_into_session:
  assumes "into_session sn hs = Inr s" and "length (sn_hs_hash sn (hs_state hs)) = 32"
  shows "hs_sas hash sn hs = Inr (session_sas hash s) \<and> channel_binding s = sn_hs_hash sn (hs_state hs) \<and>
    session_remote_static s = hs_remote_static sn hs"
  using assms
  by (auto simp: into_session_def hs_sas_def session_sas_def channel_binding_def
      session_remote_static_def Let_def split: if_splits)

text \<open>A handshake that has not finished yields neither a session nor digits.\<close>

lemma unfinished_yields_nothing:
  "\<not> hs_is_finished sn hs \<Longrightarrow> into_session sn hs = Inl WrongState \<and> hs_sas hash sn hs = Inl WrongState"
  by (simp add: into_session_def hs_sas_def)

end
