(* ===== verification/Frames.thy ===== *)
theory Frames
  imports Prelude
begin

unbundle bit_operations_syntax

text \<open>
  \<open>gonomad-proto/src/frame.rs\<close>: the flags byte, the length-prefixed frame, its encoder, and the
  decoder that runs on whatever the socket delivers.  The CBOR library is a parameter of the two
  operations that call it.  The locale \<open>stream_codec\<close> states what a self-delimiting codec
  promises, and what a reader of a byte stream can rely on because of it.
\<close>

definition HEADER_LEN :: nat where
  "HEADER_LEN = 5"

definition MAX_PAYLOAD_LEN :: nat where
  "MAX_PAYLOAD_LEN = 32 * 1024 * 1024"

definition COMPRESSION_THRESHOLD :: nat where
  "COMPRESSION_THRESHOLD = 128"

section \<open>Flags\<close>

datatype frame_error =
    TooLarge nat
  | UnknownFlags byte
  | MalformedPayload
  | Unserializable

datatype frame_flags = FrameFlags (flag_bits: byte)

definition FLAGS_NONE :: frame_flags where "FLAGS_NONE = FrameFlags 0"
definition FLAGS_COMPRESSED :: frame_flags where "FLAGS_COMPRESSED = FrameFlags (push_bit 0 1)"
definition FLAGS_RAW :: frame_flags where "FLAGS_RAW = FrameFlags (push_bit 1 1)"
definition FLAGS_LAST :: frame_flags where "FLAGS_LAST = FrameFlags (push_bit 2 1)"

definition FLAGS_KNOWN :: byte where
  "FLAGS_KNOWN = 7"

definition flags_from_bits :: "byte \<Rightarrow> (frame_error, frame_flags) result" where
  "flags_from_bits b =
     (if b AND NOT FLAGS_KNOWN \<noteq> 0 then Err (UnknownFlags b) else Ok (FrameFlags b))"

definition flags_contains :: "frame_flags \<Rightarrow> frame_flags \<Rightarrow> bool" where
  "flags_contains f g \<longleftrightarrow> flag_bits f AND flag_bits g = flag_bits g"

definition flags_union :: "frame_flags \<Rightarrow> frame_flags \<Rightarrow> frame_flags" where
  "flags_union f g = FrameFlags (flag_bits f OR flag_bits g)"

definition is_compressed :: "frame_flags \<Rightarrow> bool" where
  "is_compressed f \<longleftrightarrow> flags_contains f FLAGS_COMPRESSED"

definition is_raw :: "frame_flags \<Rightarrow> bool" where
  "is_raw f \<longleftrightarrow> flags_contains f FLAGS_RAW"

definition is_last :: "frame_flags \<Rightarrow> bool" where
  "is_last f \<longleftrightarrow> flags_contains f FLAGS_LAST"

text \<open>\<open>heapless_names\<close> and \<open>Debug\<close>: the names of the set flags, separated by a bar.\<close>

definition heapless_names :: "frame_flags \<Rightarrow> string" where
  "heapless_names f =
     foldl (\<lambda>out (flag, name).
              if flags_contains f flag
              then (if out \<noteq> [] then out @ ''|'' else out) @ name else out)
       [] [(FLAGS_COMPRESSED, ''COMPRESSED''), (FLAGS_RAW, ''RAW''), (FLAGS_LAST, ''LAST'')]"

definition flags_debug :: "frame_flags \<Rightarrow> string" where
  "flags_debug f =
     ''FrameFlags('' @ (if heapless_names f = [] then ''NONE'' else heapless_names f) @ '')''"

text \<open>A flags value obtained through the public interface has no unknown bit.\<close>

definition flags_valid :: "frame_flags \<Rightarrow> bool" where
  "flags_valid f \<longleftrightarrow> flag_bits f AND NOT FLAGS_KNOWN = 0"

lemma flags_from_bits_Ok [simp]:
  "flags_from_bits b = Inr f \<longleftrightarrow> f = FrameFlags b \<and> flags_valid f"
  by (auto simp: flags_from_bits_def flags_valid_def)

lemma flags_from_bits_Err [simp]:
  "flags_from_bits b = Inl e \<longleftrightarrow> e = UnknownFlags b \<and> \<not> flags_valid (FrameFlags b)"
  by (auto simp: flags_from_bits_def flags_valid_def)

lemma flags_valid_union:
  "flags_valid f \<Longrightarrow> flags_valid g \<Longrightarrow> flags_valid (flags_union f g)"
  by (simp add: flags_valid_def flags_union_def bit.conj_disj_distrib2)

lemma flags_valid_consts [simp]:
  "flags_valid FLAGS_NONE" "flags_valid FLAGS_COMPRESSED" "flags_valid FLAGS_RAW"
  "flags_valid FLAGS_LAST"
  by (simp_all add: flags_valid_def FLAGS_NONE_def FLAGS_COMPRESSED_def FLAGS_RAW_def
      FLAGS_LAST_def FLAGS_KNOWN_def)

lemma flags_contains_union: "flags_contains (flags_union f g) f"
  by (simp add: flags_contains_def flags_union_def bit_eq_iff bit_and_iff bit_or_iff)

section \<open>Frames\<close>

record frame =
  frame_flags :: frame_flags
  frame_payload :: bytes

definition frame_new :: "frame_flags \<Rightarrow> bytes \<Rightarrow> (frame_error, frame) result" where
  "frame_new f p =
     (if length p > MAX_PAYLOAD_LEN then Err (TooLarge (length p))
      else Ok \<lparr>frame_flags = f, frame_payload = p\<rparr>)"

text \<open>\<open>to_cbor\<close> stands for the serializer of the CBOR crate, \<open>from_cbor\<close> for its reader.\<close>

definition frame_cbor ::
  "('v \<Rightarrow> bytes option) \<Rightarrow> frame_flags \<Rightarrow> 'v \<Rightarrow> (frame_error, frame) result" where
  "frame_cbor to_cbor f v = rbind (ok_or (to_cbor v) Unserializable) (frame_new f)"

definition frame_raw :: "bytes \<Rightarrow> (frame_error, frame) result" where
  "frame_raw p = frame_new FLAGS_RAW p"

definition frame_decode_cbor ::
  "(bytes \<Rightarrow> 'v option) \<Rightarrow> frame \<Rightarrow> (frame_error, 'v) result" where
  "frame_decode_cbor from_cbor fr =
     (if is_raw (frame_flags fr) \<or> is_compressed (frame_flags fr) then Err MalformedPayload
      else ok_or (from_cbor (frame_payload fr)) MalformedPayload)"

definition wire_len :: "frame \<Rightarrow> nat" where
  "wire_len fr = HEADER_LEN + length (frame_payload fr)"

definition should_compress :: "frame \<Rightarrow> bool" where
  "should_compress fr \<longleftrightarrow>
     \<not> is_compressed (frame_flags fr) \<and> length (frame_payload fr) > COMPRESSION_THRESHOLD"

text \<open>\<open>payload.len() as u32\<close> truncates to 32 bits; \<open>nat_be 4\<close> writes the low 32 bits.\<close>

definition frame_encode_to :: "frame \<Rightarrow> bytes \<Rightarrow> bytes" where
  "frame_encode_to fr buf =
     buf @ nat_be 4 (length (frame_payload fr)) @ [flag_bits (frame_flags fr)]
       @ frame_payload fr"

definition frame_encode :: "frame \<Rightarrow> bytes" where
  "frame_encode fr = frame_encode_to fr []"

definition frame_decode :: "bytes \<Rightarrow> (frame_error, (frame \<times> nat) option) result" where
  "frame_decode buf =
     (if length buf < HEADER_LEN then Ok None
      else
        let len = be_nat [buf ! 0, buf ! 1, buf ! 2, buf ! 3] in
        if len > MAX_PAYLOAD_LEN then Err (TooLarge len)
        else rbind (flags_from_bits (buf ! 4)) (\<lambda>flags.
          let total = HEADER_LEN + len in
          if length buf < total then Ok None
          else Ok (Some (\<lparr>frame_flags = flags,
                          frame_payload = take len (drop HEADER_LEN buf)\<rparr>, total))))"

definition bytes_needed :: "bytes \<Rightarrow> (frame_error, nat option) result" where
  "bytes_needed buf =
     (if length buf < HEADER_LEN then Ok (Some (HEADER_LEN - length buf))
      else
        let len = be_nat [buf ! 0, buf ! 1, buf ! 2, buf ! 3] in
        if len > MAX_PAYLOAD_LEN then Err (TooLarge len)
        else
          let total = HEADER_LEN + len in
          Ok (if length buf \<ge> total then None else Some (total - length buf)))"

definition frame_debug :: "frame \<Rightarrow> string" where
  "frame_debug fr =
     ''Frame { flags: '' @ flags_debug (frame_flags fr) @ '', payload_len: ''
       @ show_nat (length (frame_payload fr)) @ '' }''"

text \<open>What \<open>Frame::new\<close> guarantees of a frame.\<close>

definition frame_wf :: "frame \<Rightarrow> bool" where
  "frame_wf fr \<longleftrightarrow> flags_valid (frame_flags fr) \<and> length (frame_payload fr) \<le> MAX_PAYLOAD_LEN"

lemma frame_new_Ok:
  "frame_new f p = Inr fr \<longleftrightarrow>
     length p \<le> MAX_PAYLOAD_LEN \<and> fr = \<lparr>frame_flags = f, frame_payload = p\<rparr>"
  by (auto simp: frame_new_def)

lemma frame_new_wf: "flags_valid f \<Longrightarrow> frame_new f p = Inr fr \<Longrightarrow> frame_wf fr"
  by (auto simp: frame_new_Ok frame_wf_def)

lemma frame_raw_wf: "frame_raw p = Inr fr \<Longrightarrow> frame_wf fr \<and> is_raw (frame_flags fr)"
  by (auto simp: frame_raw_def frame_new_Ok frame_wf_def is_raw_def flags_contains_def)

lemma frame_encode_to_append: "frame_encode_to fr buf = buf @ frame_encode fr"
  by (simp add: frame_encode_def frame_encode_to_def)

lemma length_frame_encode [simp]: "length (frame_encode fr) = wire_len fr"
  by (simp add: frame_encode_def frame_encode_to_def wire_len_def HEADER_LEN_def)

text \<open>The length header of any buffer of at least four bytes.\<close>

lemma header_nths:
  "4 \<le> length buf \<Longrightarrow> [buf ! 0, buf ! 1, buf ! 2, buf ! 3] = take 4 buf"
  by (intro nth_equalityI) (auto simp: nth_Cons numeral_eq_Suc split: nat.splits)

lemma MAX_PAYLOAD_LEN_fits: "n \<le> MAX_PAYLOAD_LEN \<Longrightarrow> n < 256 ^ 4"
  by (simp add: MAX_PAYLOAD_LEN_def)

lemma header_of_encode:
  assumes "length (frame_payload fr) \<le> MAX_PAYLOAD_LEN"
  shows "be_nat (take 4 (frame_encode fr @ rest)) = length (frame_payload fr)"
proof -
  have "take 4 (frame_encode fr @ rest) = nat_be 4 (length (frame_payload fr))"
    by (simp add: frame_encode_def frame_encode_to_def)
  with MAX_PAYLOAD_LEN_fits [OF assms] show ?thesis
    by (simp add: be_nat_of_nat_be)
qed

lemma flags_of_encode: "(frame_encode fr @ rest) ! 4 = flag_bits (frame_flags fr)"
  by (simp add: frame_encode_def frame_encode_to_def nth_append)

lemma payload_of_encode:
  "take (length (frame_payload fr)) (drop HEADER_LEN (frame_encode fr @ rest)) = frame_payload fr"
  by (simp add: frame_encode_def frame_encode_to_def HEADER_LEN_def)

text \<open>The decoder, with the header read by \<open>take\<close>.\<close>

lemma frame_decode_alt:
  "frame_decode buf =
     (if length buf < 5 then Inr None
      else if be_nat (take 4 buf) > MAX_PAYLOAD_LEN then Inl (TooLarge (be_nat (take 4 buf)))
      else if \<not> flags_valid (FrameFlags (buf ! 4)) then Inl (UnknownFlags (buf ! 4))
      else if length buf < 5 + be_nat (take 4 buf) then Inr None
      else Inr (Some (\<lparr>frame_flags = FrameFlags (buf ! 4),
                       frame_payload = take (be_nat (take 4 buf)) (drop 5 buf)\<rparr>,
                     5 + be_nat (take 4 buf))))"
proof (cases "length buf < 5")
  case True
  then show ?thesis by (simp add: frame_decode_def HEADER_LEN_def)
next
  case False
  then have "[buf ! 0, buf ! 1, buf ! 2, buf ! 3] = take 4 buf"
    by (intro header_nths) simp
  moreover have "flags_from_bits (buf ! 4) =
      (if flags_valid (FrameFlags (buf ! 4)) then Inr (FrameFlags (buf ! 4))
       else Inl (UnknownFlags (buf ! 4)))"
    by (simp add: flags_from_bits_def flags_valid_def)
  ultimately show ?thesis
    using False by (simp add: frame_decode_def HEADER_LEN_def Let_def)
qed

lemma frame_decode_encode:
  assumes "frame_wf fr"
  shows "frame_decode (frame_encode fr @ rest) = Inr (Some (fr, wire_len fr))"
proof -
  let ?n = "length (frame_payload fr)"
  from assms have n: "?n \<le> MAX_PAYLOAD_LEN" and f: "flags_valid (frame_flags fr)"
    by (simp_all add: frame_wf_def)
  have "length (frame_encode fr @ rest) = 5 + ?n + length rest"
    by (simp add: wire_len_def HEADER_LEN_def)
  moreover have "be_nat (take 4 (frame_encode fr @ rest)) = ?n"
    by (rule header_of_encode [OF n])
  moreover have "take ?n (drop 5 (frame_encode fr @ rest)) = frame_payload fr"
    using payload_of_encode by (simp add: HEADER_LEN_def)
  ultimately show ?thesis
    using n f by (simp only: frame_decode_alt flags_of_encode) (simp add: wire_len_def HEADER_LEN_def)
qed

text \<open>Whatever decodes was encoded: the decoder accepts nothing but encodings of valid frames.\<close>

lemma frame_decode_sound:
  assumes "frame_decode buf = Inr (Some (fr, n))"
  shows "frame_wf fr \<and> n = wire_len fr \<and> n \<le> length buf \<and> take n buf = frame_encode fr"
proof -
  let ?len = "be_nat (take 4 buf)"
  from assms have long: "5 \<le> length buf" and len: "?len \<le> MAX_PAYLOAD_LEN"
    and total: "5 + ?len \<le> length buf" and n: "n = 5 + ?len"
    and fr: "fr = \<lparr>frame_flags = FrameFlags (buf ! 4), frame_payload = take ?len (drop 5 buf)\<rparr>"
    and flags: "flags_valid (FrameFlags (buf ! 4))"
    by (simp_all add: frame_decode_alt split: if_splits)
  have payload: "length (frame_payload fr) = ?len"
    using total fr by simp
  have "nat_be 4 ?len = take 4 buf"
    using nat_be_be_nat [of "take 4 buf"] long by simp
  then have "frame_encode fr = take 4 buf @ [buf ! 4] @ take ?len (drop 5 buf)"
    using fr total by (simp add: frame_encode_def frame_encode_to_def)
  also have "\<dots> = take (5 + ?len) buf"
  proof -
    have "take 5 buf = take 4 buf @ [buf ! 4]"
      using long take_Suc_conv_app_nth [of 4 buf] by simp
    then show ?thesis
      by (simp add: take_add)
  qed
  finally show ?thesis
    using payload len flags fr n total by (simp add: frame_wf_def wire_len_def HEADER_LEN_def)
qed

lemma frame_decode_incomplete:
  assumes wf: "frame_wf fr" and p: "strict_prefix buf (frame_encode fr)"
  shows "frame_decode buf = Inr None"
proof (cases "length buf < 5")
  case True
  then show ?thesis by (simp add: frame_decode_alt)
next
  case False
  from p obtain rest where rest: "frame_encode fr = buf @ rest" "rest \<noteq> []"
    by (auto simp: strict_prefix_def prefix_def)
  from wf have "be_nat (take 4 (frame_encode fr @ [])) = length (frame_payload fr)"
    by (intro header_of_encode) (simp add: frame_wf_def)
  with False rest have hdr: "be_nat (take 4 buf) = length (frame_payload fr)"
    by simp
  have "(frame_encode fr @ []) ! 4 = flag_bits (frame_flags fr)"
    by (rule flags_of_encode)
  with False rest have flags: "buf ! 4 = flag_bits (frame_flags fr)"
    by (simp add: nth_append)
  have "length buf + length rest = wire_len fr"
    using rest length_frame_encode by (metis length_append)
  then have "length buf < 5 + length (frame_payload fr)"
    using rest by (cases rest) (simp_all add: wire_len_def HEADER_LEN_def)
  with False hdr flags wf show ?thesis
    by (simp add: frame_decode_alt frame_wf_def)
qed

text \<open>\<open>bytes_needed\<close> is exact: it is the distance to the end of the frame at the front.\<close>

lemma bytes_needed_alt:
  "bytes_needed buf =
     (if length buf < 5 then Inr (Some (5 - length buf))
      else if be_nat (take 4 buf) > MAX_PAYLOAD_LEN then Inl (TooLarge (be_nat (take 4 buf)))
      else Inr (if length buf \<ge> 5 + be_nat (take 4 buf) then None
                else Some (5 + be_nat (take 4 buf) - length buf)))"
proof (cases "length buf < 5")
  case False
  then have "[buf ! 0, buf ! 1, buf ! 2, buf ! 3] = take 4 buf"
    by (intro header_nths) simp
  with False show ?thesis
    by (simp add: bytes_needed_def HEADER_LEN_def Let_def)
qed (simp add: bytes_needed_def HEADER_LEN_def)

section \<open>Self-delimiting codecs\<close>

text \<open>
  The reader of a stream relies on three things about a codec: a complete encoding at the front
  of the buffer decodes to what was encoded and tells its length, a proper prefix of an encoding
  asks for more, and what decodes is exactly what was encoded.
\<close>

locale stream_codec =
  fixes enc :: "'a \<Rightarrow> bytes"
    and dec :: "bytes \<Rightarrow> ('e, ('a \<times> nat) option) result"
    and wf :: "'a \<Rightarrow> bool"
  assumes dec_enc: "wf x \<Longrightarrow> dec (enc x @ rest) = Inr (Some (x, length (enc x)))"
    and dec_partial: "wf x \<Longrightarrow> strict_prefix p (enc x) \<Longrightarrow> dec p = Inr None"
    and dec_sound: "dec buf = Inr (Some (x, n)) \<Longrightarrow> wf x \<and> n \<le> length buf \<and> take n buf = enc x"
    and enc_nonempty: "wf x \<Longrightarrow> enc x \<noteq> []"
    and dec_Nil: "dec [] = Inr None"
begin

text \<open>A reader takes items off the front of its buffer until the decoder asks for more.\<close>

fun drain :: "nat \<Rightarrow> bytes \<Rightarrow> ('e, 'a list \<times> bytes) result" where
  "drain 0 buf = Inr ([], buf)"
| "drain (Suc fuel) buf =
     rbind (dec buf) (\<lambda>r. case r of
         None \<Rightarrow> Inr ([], buf)
       | Some (x, n) \<Rightarrow>
           rbind (drain fuel (drop n buf)) (\<lambda>(xs, rest). Inr (x # xs, rest)))"

lemma dec_consumed:
  assumes "dec buf = Inr (Some (x, n))"
  shows "n = length (enc x)" and "buf = enc x @ drop n buf" and "0 < n"
proof -
  from dec_sound [OF assms] have x: "wf x" "n \<le> length buf" "take n buf = enc x"
    by simp_all
  then show n: "n = length (enc x)"
    by (metis length_take min.absorb2)
  show "buf = enc x @ drop n buf"
    using x append_take_drop_id by metis
  show "0 < n"
    using n enc_nonempty [OF x(1)] by simp
qed

text \<open>The items and the leftover a reader extracts spell out exactly the bytes it was given.\<close>

lemma drain_spells:
  "drain fuel buf = Inr (xs, rest) \<Longrightarrow> buf = concat (map enc xs) @ rest \<and> list_all wf xs"
proof (induction fuel arbitrary: buf xs)
  case 0
  then show ?case by simp
next
  case (Suc fuel)
  show ?case
  proof (cases "dec buf")
    case (Inl e)
    with Suc.prems show ?thesis by simp
  next
    case (Inr r)
    show ?thesis
    proof (cases r)
      case None
      with Inr Suc.prems show ?thesis by simp
    next
      case (Some xn)
      obtain x n where xn: "xn = (x, n)" by (cases xn)
      with Inr Some have d: "dec buf = Inr (Some (x, n))" by simp
      with Suc.prems obtain ys where ys: "drain fuel (drop n buf) = Inr (ys, rest)" "xs = x # ys"
        by auto
      from Suc.IH [OF ys(1)] ys(2) dec_consumed [OF d] dec_sound [OF d] show ?thesis
        by auto
    qed
  qed
qed

lemma drain_complete:
  assumes "list_all wf xs" and "dec rest = Inr None" and "length xs \<le> fuel"
  shows "drain fuel (concat (map enc xs) @ rest) = Inr (xs, rest)"
  using assms(1,3)
proof (induction xs arbitrary: fuel)
  case Nil
  with assms(2) show ?case by (cases fuel) simp_all
next
  case (Cons x xs)
  then obtain f where f: "fuel = Suc f" "length xs \<le> f"
    by (cases fuel) simp_all
  from Cons have "dec (enc x @ concat (map enc xs) @ rest) = Inr (Some (x, length (enc x)))"
    by (intro dec_enc) simp
  with Cons f show ?case by simp
qed

lemma length_le_concat: "list_all wf xs \<Longrightarrow> length xs \<le> length (concat (map enc xs))"
proof (induction xs)
  case (Cons x xs)
  then have "Suc 0 \<le> length (enc x)"
    using enc_nonempty by (simp add: Suc_leI)
  with Cons show ?case by simp
qed simp

text \<open>
  The fuel is no restriction: the length of the buffer is always enough.  So a reader that has
  received whole items and part of one more gets exactly those items and keeps the part.
\<close>

lemma drain_stream:
  assumes "list_all wf xs" and "wf y" and "strict_prefix part (enc y)"
  shows "drain (length (concat (map enc xs) @ part)) (concat (map enc xs) @ part) = Inr (xs, part)"
  using assms by (intro drain_complete dec_partial) (auto intro: le_trans [OF length_le_concat])

lemma concat_enc_inj:
  assumes "list_all wf xs" and "list_all wf ys"
    and same: "concat (map enc xs) = concat (map enc ys)"
  shows "xs = ys"
proof -
  let ?n = "length (concat (map enc xs))"
  have "drain ?n (concat (map enc xs) @ []) = Inr (xs, [])"
    using assms(1) dec_Nil by (intro drain_complete length_le_concat) simp_all
  moreover have "drain ?n (concat (map enc ys) @ []) = Inr (ys, [])"
    using assms dec_Nil length_le_concat [OF assms(2)] by (intro drain_complete) simp_all
  ultimately show ?thesis
    using same by simp
qed

end

interpretation frame_stream: stream_codec frame_encode frame_decode frame_wf
proof unfold_locales
  show "frame_wf x \<Longrightarrow> frame_decode (frame_encode x @ rest) = Inr (Some (x, length (frame_encode x)))"
    for x rest by (simp add: frame_decode_encode)
  show "frame_wf x \<Longrightarrow> strict_prefix p (frame_encode x) \<Longrightarrow> frame_decode p = Inr None" for x p
    by (rule frame_decode_incomplete)
  show "frame_decode buf = Inr (Some (x, n)) \<Longrightarrow>
      frame_wf x \<and> n \<le> length buf \<and> take n buf = frame_encode x" for buf x n
    using frame_decode_sound by blast
  show "frame_wf x \<Longrightarrow> frame_encode x \<noteq> []" for x
    by (simp add: frame_encode_def frame_encode_to_def)
  show "frame_decode [] = Inr None"
    by (simp add: frame_decode_def HEADER_LEN_def)
qed

section \<open>Properties\<close>

text \<open>
  The decoder and the encoder are inverse on the wire, and nothing else decodes.  A buffer
  yields a frame, consuming some bytes, exactly when the frame is valid and the buffer starts with
  its encoding, and then just those bytes are consumed.
\<close>

theorem frame_decode_exact:
  "frame_decode buf = Inr (Some (fr, n)) \<longleftrightarrow>
     frame_wf fr \<and> n = wire_len fr \<and> prefix (frame_encode fr) buf"
proof
  assume "frame_decode buf = Inr (Some (fr, n))"
  from frame_decode_sound [OF this] show "frame_wf fr \<and> n = wire_len fr \<and> prefix (frame_encode fr) buf"
    using take_is_prefix by metis
qed (auto simp: frame_decode_encode prefix_def)

text \<open>
  C17: a reader of a stream loses nothing and invents nothing.  Fed the encodings of any number of
  valid frames and an unfinished part of one more, taking frames off the front until the decoder
  asks for more yields exactly those frames and leaves exactly that part.
\<close>

theorem frame_stream_reading:
  assumes "list_all frame_wf frs" and "frame_wf fr" and "strict_prefix part (frame_encode fr)"
  shows "frame_stream.drain (length (concat (map frame_encode frs) @ part))
      (concat (map frame_encode frs) @ part) = Inr (frs, part)"
  using assms by (rule frame_stream.drain_stream)

theorem frame_stream_reading_witness:
  "frame_stream.drain (length (frame_encode \<lparr>frame_flags = FLAGS_LAST, frame_payload = [1, 2]\<rparr> @ [0, 0]))
     (frame_encode \<lparr>frame_flags = FLAGS_LAST, frame_payload = [1, 2]\<rparr> @ [0, 0])
   = Inr ([\<lparr>frame_flags = FLAGS_LAST, frame_payload = [1, 2]\<rparr>], [0, 0])"
  using frame_stream_reading [of "[\<lparr>frame_flags = FLAGS_LAST, frame_payload = [1, 2]\<rparr>]"
      "\<lparr>frame_flags = FLAGS_RAW, frame_payload = [9]\<rparr>" "[0, 0]"]
  by (simp add: frame_wf_def MAX_PAYLOAD_LEN_def frame_encode_def frame_encode_to_def nat_be_4
      strict_prefix_def)

text \<open>
  The decoder's verdicts are final and bounded.  An error depends on the five header bytes
  alone: it is a length over the 32 MiB limit, reported as it was read, or flags with an unknown
  bit; more input never turns an error or a decoded frame into anything else, and no accepted
  payload exceeds the limit.
\<close>

theorem frame_decode_final:
  "(frame_decode buf = Inl e \<longrightarrow>
      5 \<le> length buf \<and> frame_decode (buf @ ext) = Inl e \<and>
      (e = TooLarge (be_nat (take 4 buf)) \<and> 33554432 < be_nat (take 4 buf) \<or>
       e = UnknownFlags (buf ! 4) \<and> buf ! 4 AND NOT 7 \<noteq> 0)) \<and>
   (frame_decode buf = Inr (Some (fr, n)) \<longrightarrow>
      frame_decode (buf @ ext) = Inr (Some (fr, n)) \<and> length (frame_payload fr) \<le> 33554432)"
proof (intro conjI impI)
  assume e: "frame_decode buf = Inl e"
  then show "5 \<le> length buf"
    by (simp add: frame_decode_alt split: if_splits)
  with e show "frame_decode (buf @ ext) = Inl e"
    by (auto simp: frame_decode_alt nth_append split: if_splits)
  show "e = TooLarge (be_nat (take 4 buf)) \<and> 33554432 < be_nat (take 4 buf) \<or>
      e = UnknownFlags (buf ! 4) \<and> buf ! 4 AND NOT 7 \<noteq> 0"
    using e by (auto simp: frame_decode_alt MAX_PAYLOAD_LEN_def flags_valid_def FLAGS_KNOWN_def
        split: if_splits)
next
  assume "frame_decode buf = Inr (Some (fr, n))"
  from frame_decode_sound [OF this] have wf: "frame_wf fr" and n: "n = wire_len fr"
    and "buf = frame_encode fr @ drop n buf"
    using append_take_drop_id by metis+
  then have "buf @ ext = frame_encode fr @ drop n buf @ ext"
    by simp
  with wf n show "frame_decode (buf @ ext) = Inr (Some (fr, n))"
    using frame_decode_encode by metis
  from wf show "length (frame_payload fr) \<le> 33554432"
    by (simp add: frame_wf_def MAX_PAYLOAD_LEN_def)
qed

theorem frame_decode_final_witness:
  "5 \<le> length ([255, 255, 255, 255, 0] :: bytes) \<and>
   frame_decode ([255, 255, 255, 255, 0] @ [1]) = Inl (TooLarge 4294967295)"
proof -
  have "frame_decode [255, 255, 255, 255, 0] = Inl (TooLarge 4294967295)"
    by (simp add: frame_decode_alt be_nat_def MAX_PAYLOAD_LEN_def)
  with frame_decode_final show ?thesis by blast
qed

text \<open>
  A reader that waits for the number of bytes it is told never waits in vain and never takes
  a byte of the next frame: within a frame the number is positive, at most what is missing, and
  exactly that once the header is complete; after a whole frame it is none.
\<close>

theorem bytes_needed_exact:
  assumes "frame_wf fr"
  shows "(strict_prefix part (frame_encode fr) \<longrightarrow>
      (\<exists>n>0. bytes_needed part = Inr (Some n) \<and> length part + n \<le> wire_len fr \<and>
         (5 \<le> length part \<longrightarrow> length part + n = wire_len fr))) \<and>
    bytes_needed (frame_encode fr @ rest) = Inr None"
proof (intro conjI impI)
  have hdr: "be_nat (take 4 (frame_encode fr @ r)) = length (frame_payload fr)" for r
    using assms by (intro header_of_encode) (simp add: frame_wf_def)
  show "bytes_needed (frame_encode fr @ rest) = Inr None"
    using assms hdr by (simp add: bytes_needed_alt frame_wf_def wire_len_def HEADER_LEN_def)
  assume "strict_prefix part (frame_encode fr)"
  then obtain r where r: "frame_encode fr = part @ r" "r \<noteq> []"
    by (auto simp: strict_prefix_def prefix_def)
  then have len: "length part + length r = wire_len fr" "0 < length r"
    using length_frame_encode by (metis length_append, simp)
  show "\<exists>n>0. bytes_needed part = Inr (Some n) \<and> length part + n \<le> wire_len fr \<and>
      (5 \<le> length part \<longrightarrow> length part + n = wire_len fr)"
  proof (cases "length part < 5")
    case True
    then show ?thesis
      using len by (auto simp: bytes_needed_alt wire_len_def HEADER_LEN_def)
  next
    case False
    then have "be_nat (take 4 part) = length (frame_payload fr)"
      using hdr [of "[]"] r by simp
    with False len(1) assms len(2) show ?thesis
      by (auto simp del: length_greater_0_conv simp: bytes_needed_alt wire_len_def HEADER_LEN_def frame_wf_def)
  qed
qed

theorem bytes_needed_exact_witness:
  "\<exists>n>0. bytes_needed [0, 0] = Inr (Some n) \<and> length [0, 0 :: byte] + n \<le> 6"
proof -
  let ?fr = "\<lparr>frame_flags = FLAGS_RAW, frame_payload = [9]\<rparr>"
  have wf: "frame_wf ?fr"
    by (simp add: frame_wf_def MAX_PAYLOAD_LEN_def)
  have "strict_prefix [0, 0] (frame_encode ?fr)"
    by (simp add: frame_encode_def frame_encode_to_def strict_prefix_def nat_be_4)
  with bytes_needed_exact [OF wf, of "[0, 0]"] have
    "\<exists>n>0. bytes_needed [0, 0] = Inr (Some n) \<and> length [0, 0 :: byte] + n \<le> wire_len ?fr"
    by blast
  then show ?thesis
    by (simp add: wire_len_def HEADER_LEN_def)
qed

end
