(* ===== verification/Addresses.thy ===== *)
theory Addresses
  imports Prelude
begin

text \<open>
  The part of Rust's \<open>std::net\<close> that the pairing ticket uses: \<open>SocketAddr\<close>, its parser and its
  \<open>Display\<close>.  A parser takes the text that is left and returns a value with the rest.
\<close>

type_synonym ipv4 = "byte \<times> byte \<times> byte \<times> byte"

text \<open>An IPv6 address is its eight groups; the flow information of a parsed address is 0.\<close>

datatype socket_addr =
    V4 ipv4 "16 word"
  | V6 "16 word list" "16 word" "32 word"

section \<open>Parsing\<close>

definition to_digit :: "nat \<Rightarrow> char \<Rightarrow> nat option" where
  "to_digit radix c = (let n = of_char c :: nat;
     v = (if 48 \<le> n \<and> n \<le> 57 then Some (n - 48)
          else if 97 \<le> n \<and> n \<le> 122 then Some (n - 87)
          else if 65 \<le> n \<and> n \<le> 90 then Some (n - 55) else None)
   in case v of None \<Rightarrow> None | Some d \<Rightarrow> if d < radix then Some d else None)"

text \<open>Digits are read while there are any; overflow of the type and too many digits are failures.\<close>

fun read_digits :: "nat \<Rightarrow> nat \<Rightarrow> nat option \<Rightarrow> string \<Rightarrow> nat \<Rightarrow> nat \<Rightarrow> (nat \<times> nat \<times> string) option" where
  "read_digits radix hi maxd [] r k = Some (r, k, [])"
| "read_digits radix hi maxd (c # cs) r k =
     (case to_digit radix c of
        None \<Rightarrow> Some (r, k, c # cs)
      | Some d \<Rightarrow>
          (if r * radix + d > hi then None
           else if (case maxd of None \<Rightarrow> False | Some m \<Rightarrow> k + 1 > m) then None
           else read_digits radix hi maxd cs (r * radix + d) (k + 1)))"

definition read_number :: "nat \<Rightarrow> nat \<Rightarrow> nat option \<Rightarrow> bool \<Rightarrow> string \<Rightarrow> (nat \<times> string) option" where
  "read_number radix hi maxd zero_prefix s =
     (case read_digits radix hi maxd s 0 0 of
        None \<Rightarrow> None
      | Some (r, k, rest) \<Rightarrow>
          (if k = 0 then None
           else if \<not> zero_prefix \<and> prefix ''0'' s \<and> k > 1 then None
           else Some (r, rest)))"

definition read_given_char :: "char \<Rightarrow> string \<Rightarrow> string option" where
  "read_given_char c s = (case s of [] \<Rightarrow> None | d # ds \<Rightarrow> if d = c then Some ds else None)"

text \<open>\<open>read_separator\<close>: the separator comes before every element but the first.\<close>

definition read_separator :: "char \<Rightarrow> nat \<Rightarrow> (string \<Rightarrow> ('a \<times> string) option) \<Rightarrow> string \<Rightarrow> ('a \<times> string) option" where
  "read_separator sep i inner s =
     (if i = 0 then inner s else Option.bind (read_given_char sep s) inner)"

definition read_octet :: "nat \<Rightarrow> string \<Rightarrow> (byte \<times> string) option" where
  "read_octet i s =
     map_option (\<lambda>(n, rest). (word_of_nat n, rest))
       (read_separator (CHR ''.'') i (read_number 10 255 (Some 3) False) s)"

definition read_ipv4 :: "string \<Rightarrow> (ipv4 \<times> string) option" where
  "read_ipv4 s0 =
     Option.bind (read_octet 0 s0) (\<lambda>(a, s1).
     Option.bind (read_octet 1 s1) (\<lambda>(b, s2).
     Option.bind (read_octet 2 s2) (\<lambda>(c, s3).
     Option.bind (read_octet 3 s3) (\<lambda>(d, s4). Some ((a, b, c, d), s4)))))"

definition ipv4_groups :: "ipv4 \<Rightarrow> 16 word list" where
  "ipv4_groups ip = (case ip of (a, b, c, d) \<Rightarrow>
     [word_of_nat (256 * unat a + unat b), word_of_nat (256 * unat c + unat d)])"

text \<open>
  \<open>read_groups\<close>: up to \<open>n\<close> more groups, the next of which is number \<open>i\<close>; an embedded IPv4 address
  ends them and needs two.
\<close>

fun read_groups :: "nat \<Rightarrow> nat \<Rightarrow> string \<Rightarrow> 16 word list \<times> bool \<times> string" where
  "read_groups 0 i s = ([], False, s)"
| "read_groups (Suc n) i s =
     (case (if n > 0 then read_separator (CHR '':'') i read_ipv4 s else None) of
        Some (ip, rest) \<Rightarrow> (ipv4_groups ip, True, rest)
      | None \<Rightarrow>
          (case read_separator (CHR '':'') i (read_number 16 65535 (Some 4) True) s of
             Some (g, rest) \<Rightarrow> (let (gs, v4, rest') = read_groups n (i + 1) rest
                                in (word_of_nat g # gs, v4, rest'))
           | None \<Rightarrow> ([], False, s)))"

definition read_ipv6 :: "string \<Rightarrow> (16 word list \<times> string) option" where
  "read_ipv6 s0 =
     (let (head, head_v4, s1) = read_groups 8 0 s0
      in if length head = 8 then Some (head, s1)
         else if head_v4 then None
         else Option.bind (read_given_char (CHR '':'') s1) (\<lambda>s2.
              Option.bind (read_given_char (CHR '':'') s2) (\<lambda>s3.
                let (tail, _, s4) = read_groups (8 - (length head + 1)) 0 s3
                in Some (head @ replicate (8 - length head - length tail) 0 @ tail, s4))))"

definition read_port :: "string \<Rightarrow> (16 word \<times> string) option" where
  "read_port s =
     Option.bind (read_given_char (CHR '':'') s) (\<lambda>s1.
       map_option (\<lambda>(n, rest). (word_of_nat n, rest)) (read_number 10 65535 None True s1))"

definition read_scope_id :: "string \<Rightarrow> (32 word \<times> string) option" where
  "read_scope_id s =
     Option.bind (read_given_char (CHR ''%'') s) (\<lambda>s1.
       map_option (\<lambda>(n, rest). (word_of_nat n, rest)) (read_number 10 (2 ^ 32 - 1) None True s1))"

definition read_socket_v4 :: "string \<Rightarrow> (socket_addr \<times> string) option" where
  "read_socket_v4 s =
     Option.bind (read_ipv4 s) (\<lambda>(ip, s1).
     Option.bind (read_port s1) (\<lambda>(port, s2). Some (V4 ip port, s2)))"

definition read_socket_v6 :: "string \<Rightarrow> (socket_addr \<times> string) option" where
  "read_socket_v6 s =
     Option.bind (read_given_char (CHR ''['') s) (\<lambda>s1.
     Option.bind (read_ipv6 s1) (\<lambda>(ip, s2).
       let (scope, s3) = (case read_scope_id s2 of None \<Rightarrow> (0, s2) | Some r \<Rightarrow> r)
       in Option.bind (read_given_char (CHR '']'') s3) (\<lambda>s4.
          Option.bind (read_port s4) (\<lambda>(port, s5). Some (V6 ip port scope, s5)))))"

text \<open>\<open>str::parse::<SocketAddr>\<close>: an address followed by nothing.\<close>

definition parse_socket_addr :: "string \<Rightarrow> socket_addr option" where
  "parse_socket_addr s =
     (case (case read_socket_v4 s of None \<Rightarrow> read_socket_v6 s | Some r \<Rightarrow> Some r) of
        Some (a, []) \<Rightarrow> Some a | _ \<Rightarrow> None)"

section \<open>Display\<close>

definition ipv4_text :: "ipv4 \<Rightarrow> string" where
  "ipv4_text ip = (case ip of (a, b, c, d) \<Rightarrow>
     join ''.'' [show_nat (unat a), show_nat (unat b), show_nat (unat c), show_nat (unat d)])"

definition hex_char :: "nat \<Rightarrow> char" where
  "hex_char n = (if n < 10 then char_of (48 + n) else char_of (87 + n))"

fun show_hex :: "nat \<Rightarrow> string" where
  "show_hex n = (if n < 16 then [hex_char n] else show_hex (n div 16) @ [hex_char (n mod 16)])"

declare show_hex.simps [simp del]

text \<open>The first of the longest runs of zero groups, as its start and its length.\<close>

fun zero_runs :: "16 word list \<Rightarrow> nat \<Rightarrow> nat \<times> nat \<Rightarrow> nat \<times> nat \<Rightarrow> nat \<times> nat" where
  "zero_runs [] i current longest = longest"
| "zero_runs (g # gs) i current longest =
     (if g = 0
      then let current = (if snd current = 0 then i else fst current, snd current + 1)
           in zero_runs gs (i + 1) current (if snd current > snd longest then current else longest)
      else zero_runs gs (i + 1) (0, 0) longest)"

definition groups_text :: "16 word list \<Rightarrow> string" where
  "groups_text gs = join '':'' (map (\<lambda>g. show_hex (unat g)) gs)"

definition ipv6_text :: "16 word list \<Rightarrow> string" where
  "ipv6_text gs =
     (if take 6 gs = [0, 0, 0, 0, 0, 0xFFFF]
      then ''::ffff:'' @ ipv4_text (ucast (drop_bit 8 (gs ! 6)), ucast (gs ! 6),
             ucast (drop_bit 8 (gs ! 7)), ucast (gs ! 7))
      else let (start, len) = zero_runs gs 0 (0, 0) (0, 0)
           in if len > 1 then groups_text (take start gs) @ ''::'' @ groups_text (drop (start + len) gs)
              else groups_text gs)"

fun socket_addr_text :: "socket_addr \<Rightarrow> string" where
  "socket_addr_text (V4 ip port) = ipv4_text ip @ '':'' @ show_nat (unat port)"
| "socket_addr_text (V6 ip port scope) =
     (if scope = 0 then ''['' @ ipv6_text ip @ '']:'' @ show_nat (unat port)
      else ''['' @ ipv6_text ip @ ''%'' @ show_nat (unat scope) @ '']:'' @ show_nat (unat port))"

section \<open>A parsed address has eight groups\<close>

lemma length_ipv4_groups [simp]: "length (ipv4_groups ip) = 2"
  by (cases ip) (simp add: ipv4_groups_def)

lemma read_groups_length: "length (fst (read_groups n i s)) \<le> n"
proof (induction n arbitrary: i s)
  case (Suc n)
  show ?case
  proof (cases "if n > 0 then read_separator (CHR '':'') i read_ipv4 s else None")
    case None
    then show ?thesis using Suc [of "i + 1"]
      by (auto simp: Let_def split: option.splits prod.splits) (metis fst_conv)
  next
    case (Some a)
    then show ?thesis by (auto split: if_splits prod.splits)
  qed
qed simp

lemma read_ipv6_length: "read_ipv6 s = Some (gs, rest) \<Longrightarrow> length gs = 8"
proof -
  assume a: "read_ipv6 s = Some (gs, rest)"
  obtain front v4 s1 where front: "read_groups 8 0 s = (front, v4, s1)" by (metis prod_cases3)
  then have le: "length front \<le> 8" using read_groups_length [of 8 0 s] by simp
  show ?thesis
  proof (cases "length front = 8")
    case True
    then show ?thesis using a by (simp add: read_ipv6_def front)
  next
    case False
    with a obtain s3 where s3: "(case read_groups (8 - (length front + 1)) 0 s3 of (tail, _, s4) \<Rightarrow>
        Some (front @ replicate (8 - length front - length tail) 0 @ tail, s4)) = Some (gs, rest)"
      by (auto simp: read_ipv6_def front Let_def bind_eq_Some_conv split: if_splits)
    obtain tail b r where tail: "read_groups (8 - (length front + 1)) 0 s3 = (tail, b, r)"
      by (metis prod_cases3)
    with s3 have gs: "gs = front @ replicate (8 - length front - length tail) 0 @ tail" by simp
    have "length tail \<le> 8 - (length front + 1)"
      using read_groups_length [of "8 - (length front + 1)" 0 s3] tail by simp
    with le False show ?thesis by (simp add: gs)
  qed
qed

lemma parse_v6_length: "parse_socket_addr s = Some (V6 gs port scope) \<Longrightarrow> length gs = 8"
  by (auto simp: parse_socket_addr_def read_socket_v4_def read_socket_v6_def bind_eq_Some_conv Let_def
      split: option.splits list.splits prod.splits dest: read_ipv6_length)

end
