(* ===== verification/Streams.thy ===== *)
theory Streams
  imports Noise Frames Addresses
begin

text \<open>
  \<open>gonomad-transport/src/error.rs\<close>, \<open>handshake.rs\<close> and \<open>stream.rs\<close>: the errors of the transport,
  the two-message handshake that both bindings run, and the sealed stream of frames over QUIC.
  Sockets are what they deliver: a list of reads, and whether a write succeeded.
\<close>

section \<open>Errors\<close>

datatype protocol_violation =
    ShortRecord nat
  | MalformedSegment nat nat
  | UnknownSegmentKind byte
  | UnknownChannel "32 word"
  | DuplicateChannel "32 word"
  | WrongChannelParity "32 word"
  | TooManyPeerChannels nat
  | FlowControlExceeded "32 word"
  | FlowControlInflated "32 word"
  | MalformedWindowUpdate "32 word"
  | OversizedFrame nat nat

text \<open>An \<open>io::ErrorKind\<close> is its name.\<close>

datatype transport_error =
    Bind socket_addr string
  | Connect socket_addr string
  | NoReachableAddress
  | NoNodeId
  | HandshakeRefused
  | PeerNotAuthorized
  | WrongPeer
  | Crypto
  | NoncesExhausted
  | Protocol protocol_violation
  | Framing frame_error
  | FrameTooLarge nat nat
  | ConnectionLost
  | Closed
  | StreamClosed
  | TooManyChannels nat
  | Timeout
  | NotListening
  | Config string

definition connect_error :: "socket_addr \<Rightarrow> string \<Rightarrow> transport_error" where
  "connect_error addr kind = Connect addr kind"

definition bind_error :: "socket_addr \<Rightarrow> string \<Rightarrow> transport_error" where
  "bind_error addr kind = Bind addr kind"

definition from_session :: "session_error \<Rightarrow> transport_error" where
  "from_session e = (case e of NonceExhausted \<Rightarrow> NoncesExhausted | _ \<Rightarrow> Crypto)"

section \<open>The handshake\<close>

definition PREFIX_LEN :: nat where "PREFIX_LEN = 2"

record 'h authenticated =
  au_handshake :: "'h handshake"
  au_peer :: public_key
  au_rtt :: "nat option"

text \<open>
  The stream under the handshake.  \<open>hio_written\<close> says how many of these bytes went out: if not all
  of them, writing or flushing failed; \<open>hio_reply\<close> gives all the bytes the peer delivers before it stops, once it has been
  sent those written so far.
\<close>

record handshake_io =
  hio_written :: "bytes \<Rightarrow> nat"
  hio_reply :: "bytes \<Rightarrow> bytes"

text \<open>\<open>write_message\<close>: the bytes that went out, and the verdict.\<close>

definition io_write_message :: "handshake_io \<Rightarrow> bytes \<Rightarrow> bytes \<times> (transport_error, unit) result" where
  "io_write_message io message =
     (if length message \<ge> 2 ^ 16 then ([], Err HandshakeRefused)
      else
        let out = nat_be 2 (length message) @ message
        in (take (hio_written io out) out,
            if length out \<le> hio_written io out then Ok () else Err HandshakeRefused))"

text \<open>\<open>read_message\<close>, from the bytes that will arrive, into a buffer of the given size.\<close>

definition io_read_message :: "bytes \<Rightarrow> nat \<Rightarrow> (transport_error, bytes) result" where
  "io_read_message incoming room =
     (if length incoming < PREFIX_LEN then Err HandshakeRefused
      else
        let len = be_nat (take PREFIX_LEN incoming)
        in if len = 0 \<or> len > room then Err HandshakeRefused
           else if length incoming < PREFIX_LEN + len then Err HandshakeRefused
           else Ok (take len (drop PREFIX_LEN incoming)))"

text \<open>
  \<open>initiate\<close> and \<open>respond\<close>: the bytes written to the peer, and the result.  The time between the
  two flights is an argument.
\<close>

definition initiate ::
  "('h, 't) snow \<Rightarrow> handshake_io \<Rightarrow> device_identity \<Rightarrow> public_key \<Rightarrow> purpose \<Rightarrow> bytes option \<Rightarrow> nat \<Rightarrow>
     bytes \<times> (transport_error, 'h authenticated) result" where
  "initiate sn io i remote p psk elapsed =
     (case map_err from_session (handshake_initiator sn i remote p psk) of
        Inl e \<Rightarrow> ([], Err e)
      | Inr h0 \<Rightarrow>
          let (h1, w) = hs_write_message sn h0 [] NOISE_MAX_MESSAGE_LEN in
          case w of
            Inl _ \<Rightarrow> ([], Err HandshakeRefused)
          | Inr m1 \<Rightarrow>
              let (sent, sw) = io_write_message io m1 in
              case sw of
                Inl e \<Rightarrow> (sent, Err e)
              | Inr _ \<Rightarrow>
                  (sent,
                   rbind (io_read_message (hio_reply io sent) NOISE_MAX_MESSAGE_LEN) (\<lambda>m2.
                   let (h2, r) = hs_read_message sn h1 m2 NOISE_MAX_MESSAGE_LEN in
                   rbind (map_err (\<lambda>_. HandshakeRefused) r) (\<lambda>_.
                   if \<not> hs_is_finished sn h2 then Err HandshakeRefused
                   else
                     rbind (ok_or (hs_remote_static sn h2) HandshakeRefused) (\<lambda>peer.
                     if peer \<noteq> remote then Err WrongPeer
                     else Ok \<lparr>au_handshake = h2, au_peer = peer, au_rtt = Some elapsed\<rparr>)))))"

definition respond ::
  "('h, 't) snow \<Rightarrow> handshake_io \<Rightarrow> device_identity \<Rightarrow> purpose \<Rightarrow> bytes option \<Rightarrow>
     (public_key \<Rightarrow> bool) \<Rightarrow> bytes \<times> (transport_error, 'h authenticated) result" where
  "respond sn io i p psk authorize =
     (case map_err from_session (handshake_responder sn i p psk) of
        Inl e \<Rightarrow> ([], Err e)
      | Inr h0 \<Rightarrow>
          case io_read_message (hio_reply io []) NOISE_MAX_MESSAGE_LEN of
            Inl e \<Rightarrow> ([], Err e)
          | Inr m1 \<Rightarrow>
              let (h1, r) = hs_read_message sn h0 m1 NOISE_MAX_MESSAGE_LEN in
              case r of
                Inl _ \<Rightarrow> ([], Err HandshakeRefused)
              | Inr _ \<Rightarrow>
                  (case hs_remote_static sn h1 of
                     None \<Rightarrow> ([], Err HandshakeRefused)
                   | Some peer \<Rightarrow>
                       if \<not> authorize peer then ([], Err PeerNotAuthorized)
                       else
                         let (h2, w) = hs_write_message sn h1 [] NOISE_MAX_MESSAGE_LEN in
                         (case w of
                            Inl _ \<Rightarrow> ([], Err HandshakeRefused)
                          | Inr m2 \<Rightarrow>
                              let (sent, sw) = io_write_message io m2 in
                              (sent,
                               rbind sw (\<lambda>_.
                               if \<not> hs_is_finished sn h2 then Err HandshakeRefused
                               else Ok \<lparr>au_handshake = h2, au_peer = peer, au_rtt = None\<rparr>)))))"

section \<open>Sealed records\<close>

definition RECORD_PREFIX_LEN :: nat where "RECORD_PREFIX_LEN = 2"

definition seal ::
  "('h, 't) snow \<Rightarrow> 't session \<Rightarrow> bytes \<Rightarrow> nat \<Rightarrow> 't session \<times> (transport_error, bytes) result" where
  "seal sn s plaintext room =
     (let (s', r) = session_encrypt sn s plaintext room in (s', map_err from_session r))"

definition unseal ::
  "('h, 't) snow \<Rightarrow> 't session \<Rightarrow> bytes \<Rightarrow> nat \<Rightarrow> 't session \<times> (transport_error, bytes) result" where
  "unseal sn s ciphertext room =
     (let (s', r) = session_decrypt sn s ciphertext room in (s', map_err from_session r))"

text \<open>
  \<open>encode_record\<close> of the multiplexer, which \<open>QuicSend::send\<close> repeats in its loop: one record
  appended to the bytes to write.
\<close>

definition encode_record ::
  "('h, 't) snow \<Rightarrow> 't session \<Rightarrow> bytes \<Rightarrow> bytes \<Rightarrow> 't session \<times> (transport_error, bytes) result" where
  "encode_record sn s plaintext out =
     (let (s', r) = seal sn s plaintext (length plaintext + NOISE_TAG_LEN) in
      (s', rbind r (\<lambda>c.
         if length c \<ge> 2 ^ 16 then Err Crypto
         else Ok (out @ nat_be 2 (length c) @ c))))"


text \<open>
  The reader's side: \<open>open_one_record\<close> and \<open>drain_records\<close> both cut the record at the front of
  their buffer off with the same tests.
\<close>

definition split_record :: "bytes \<Rightarrow> (transport_error, (bytes \<times> nat) option) result" where
  "split_record buf =
     (if length buf < RECORD_PREFIX_LEN then Ok None
      else
        let len = be_nat [buf ! 0, buf ! 1]
        in if len < NOISE_TAG_LEN then Err (Protocol (ShortRecord len))
           else
             let stop = RECORD_PREFIX_LEN + len
             in if length buf < stop then Ok None
                else Ok (Some (take len (drop RECORD_PREFIX_LEN buf), stop)))"

definition record_bytes :: "bytes \<Rightarrow> bytes" where
  "record_bytes c = nat_be 2 (length c) @ c"

definition record_wf :: "bytes \<Rightarrow> bool" where
  "record_wf c \<longleftrightarrow> 16 \<le> length c \<and> length c < 65536"

lemma record_header: "2 \<le> length buf \<Longrightarrow> [buf ! 0, buf ! 1] = take 2 buf"
  by (intro nth_equalityI) (auto simp: nth_Cons numeral_2_eq_2 split: nat.splits)

lemma split_record_alt:
  "split_record buf =
     (if length buf < 2 then Inr None
      else if be_nat (take 2 buf) < 16 then Inl (Protocol (ShortRecord (be_nat (take 2 buf))))
      else if length buf < 2 + be_nat (take 2 buf) then Inr None
      else Inr (Some (take (be_nat (take 2 buf)) (drop 2 buf), 2 + be_nat (take 2 buf))))"
proof (cases "length buf < 2")
  case False
  then have "[buf ! 0, buf ! 1] = take 2 buf"
    by (intro record_header) simp
  with False show ?thesis
    by (simp add: split_record_def RECORD_PREFIX_LEN_def NOISE_TAG_LEN_def Let_def)
qed (simp add: split_record_def RECORD_PREFIX_LEN_def)

lemma length_record_bytes [simp]: "length (record_bytes c) = 2 + length c"
  by (simp add: record_bytes_def)

lemma record_bytes_header:
  "record_wf c \<Longrightarrow> be_nat (take 2 (record_bytes c @ rest)) = length c"
  by (simp add: record_bytes_def record_wf_def be_nat_of_nat_be)

lemma split_record_bytes:
  assumes "record_wf c"
  shows "split_record (record_bytes c @ rest) = Inr (Some (c, length (record_bytes c)))"
  using assms record_bytes_header [OF assms, of rest]
  by (simp add: split_record_alt record_wf_def) (simp add: record_bytes_def)

lemma split_record_partial:
  assumes wf: "record_wf c" and p: "strict_prefix buf (record_bytes c)"
  shows "split_record buf = Inr None"
proof (cases "length buf < 2")
  case False
  from p obtain rest where rest: "record_bytes c = buf @ rest" "rest \<noteq> []"
    by (auto simp: strict_prefix_def prefix_def)
  with False record_bytes_header [OF wf, of "[]"] have "be_nat (take 2 buf) = length c"
    by simp
  moreover have "length buf + length rest = 2 + length c" and "0 < length rest"
    using rest length_record_bytes by (metis length_append, simp)
  ultimately show ?thesis
    using wf False by (simp del: length_greater_0_conv add: split_record_alt record_wf_def)
qed (simp add: split_record_alt)

lemma split_record_sound:
  assumes "split_record buf = Inr (Some (c, n))"
  shows "record_wf c \<and> n \<le> length buf \<and> take n buf = record_bytes c"
proof -
  let ?len = "be_nat (take 2 buf)"
  from assms have long: "2 \<le> length buf" and len: "16 \<le> ?len" and total: "2 + ?len \<le> length buf"
    and n: "n = 2 + ?len" and c: "c = take ?len (drop 2 buf)"
    by (simp_all add: split_record_alt split: if_splits)
  have "?len < 256 ^ 2"
    using be_nat_bound [of "take 2 buf"] long by simp
  moreover have c_len: "length c = ?len"
    using total c by simp
  moreover have "nat_be 2 ?len = take 2 buf"
    using nat_be_be_nat [of "take 2 buf"] long by simp
  moreover have "take n buf = take 2 buf @ c"
    using n c by (simp only: take_add)
  ultimately show ?thesis
    using len total n by (simp add: record_wf_def record_bytes_def)
qed

interpretation record_stream: stream_codec record_bytes split_record record_wf
proof unfold_locales
  show "record_wf c \<Longrightarrow> split_record (record_bytes c @ rest) = Inr (Some (c, length (record_bytes c)))"
    for c rest by (rule split_record_bytes)
  show "record_wf c \<Longrightarrow> strict_prefix p (record_bytes c) \<Longrightarrow> split_record p = Inr None" for c p
    by (rule split_record_partial)
  show "split_record buf = Inr (Some (c, n)) \<Longrightarrow>
      record_wf c \<and> n \<le> length buf \<and> take n buf = record_bytes c" for buf c n
    by (rule split_record_sound)
  show "record_wf c \<Longrightarrow> record_bytes c \<noteq> []" for c
    by (auto simp: record_wf_def record_bytes_def)
  show "split_record [] = Inr None"
    by (simp add: split_record_alt)
qed

section \<open>The sealed stream over QUIC\<close>

definition READ_CHUNK :: nat where "READ_CHUNK = 16 * 1024"

text \<open>
  One stream: both halves and the session they share behind a lock.  Its scratch buffers are not
  part of the state.
\<close>

record 't quic_stream =
  qs_id :: "64 word"
  qs_crypto :: "'t session"
  qs_max_frame :: nat
  qs_pending :: bytes
  qs_assembler :: bytes

definition quic_stream_new :: "64 word \<Rightarrow> 't session \<Rightarrow> nat \<Rightarrow> 't quic_stream" where
  "quic_stream_new i s max_len =
     \<lparr>qs_id = i, qs_crypto = s, qs_max_frame = max_len, qs_pending = [], qs_assembler = []\<rparr>"

text \<open>\<open>QuicSend::send\<close>: the bytes handed to QUIC, whose \<open>write_all\<close> succeeds or not.\<close>

fun seal_chunks ::
  "('h, 't) snow \<Rightarrow> 't session \<Rightarrow> bytes list \<Rightarrow> bytes \<Rightarrow> 't session \<times> (transport_error, bytes) result" where
  "seal_chunks sn s [] out = (s, Ok out)"
| "seal_chunks sn s (c # cs) out =
     (case encode_record sn s c out of
        (s', Inl e) \<Rightarrow> (s', Err e)
      | (s', Inr out') \<Rightarrow> seal_chunks sn s' cs out')"

definition quic_send ::
  "('h, 't) snow \<Rightarrow> bool \<Rightarrow> 't quic_stream \<Rightarrow> frame \<Rightarrow> 't quic_stream \<times> (transport_error, bytes) result" where
  "quic_send sn write_ok q fr =
     (if length (frame_payload fr) > qs_max_frame q
      then (q, Err (FrameTooLarge (length (frame_payload fr)) (qs_max_frame q)))
      else
        case seal_chunks sn (qs_crypto q) (chunks MAX_PLAINTEXT_LEN (frame_encode fr)) [] of
          (s, Inl e) \<Rightarrow> (q\<lparr>qs_crypto := s\<rparr>, Err e)
        | (s, Inr out) \<Rightarrow>
            (q\<lparr>qs_crypto := s\<rparr>, if write_ok then Ok out else Err ConnectionLost))"

definition open_one_record ::
  "('h, 't) snow \<Rightarrow> 't quic_stream \<Rightarrow> 't quic_stream \<times> (transport_error, bool) result" where
  "open_one_record sn q =
     (case split_record (qs_pending q) of
        Inl e \<Rightarrow> (q, Err e)
      | Inr None \<Rightarrow> (q, Ok False)
      | Inr (Some (c, stop)) \<Rightarrow>
          (case unseal sn (qs_crypto q) c MAX_PLAINTEXT_LEN of
             (s, Inl e) \<Rightarrow> (q\<lparr>qs_crypto := s\<rparr>, Err e)
           | (s, Inr p) \<Rightarrow>
               let ceiling = qs_max_frame q + HEADER_LEN
               in if length (qs_assembler q) + length p > ceiling
                  then (q\<lparr>qs_crypto := s\<rparr>,
                        Err (Protocol (OversizedFrame (length (qs_assembler q) + length p) ceiling)))
                  else (q\<lparr>qs_crypto := s, qs_assembler := qs_assembler q @ p,
                          qs_pending := drop stop (qs_pending q)\<rparr>, Ok True)))"

text \<open>The length that the first four bytes of an assembler declare, against the cap.\<close>

definition oversized :: "nat \<Rightarrow> bytes \<Rightarrow> nat option" where
  "oversized max_len asm =
     (if HEADER_LEN \<le> length asm
      then let declared = be_nat [asm ! 0, asm ! 1, asm ! 2, asm ! 3]
           in if declared > max_len then Some declared else None
      else None)"

lemma open_one_record_shrinks:
  assumes "open_one_record sn q = (q', Inr True)"
  shows "length (qs_pending q') < length (qs_pending q)"
proof -
  from assms obtain c stop where s: "split_record (qs_pending q) = Inr (Some (c, stop))"
    and q': "qs_pending q' = drop stop (qs_pending q)"
    by (auto simp: open_one_record_def Let_def split: sum.splits option.splits prod.splits if_splits)
  from record_stream.dec_consumed(3) [OF s] split_record_sound [OF s] show ?thesis
    by (auto simp: q')
qed

function take_frame ::
  "('h, 't) snow \<Rightarrow> 't quic_stream \<Rightarrow> 't quic_stream \<times> (transport_error, frame option) result" where
  "take_frame sn q =
     (case oversized (qs_max_frame q) (qs_assembler q) of
        Some declared \<Rightarrow> (q, Err (Protocol (OversizedFrame declared (qs_max_frame q))))
      | None \<Rightarrow>
          (case frame_decode (qs_assembler q) of
             Inl e \<Rightarrow> (q, Err (Framing e))
           | Inr (Some (fr, used)) \<Rightarrow>
               (q\<lparr>qs_assembler := drop used (qs_assembler q)\<rparr>, Ok (Some fr))
           | Inr None \<Rightarrow>
               (case open_one_record sn q of
                  (q', Inl e) \<Rightarrow> (q', Err e)
                | (q', Inr False) \<Rightarrow> (q', Ok None)
                | (q', Inr True) \<Rightarrow> take_frame sn q')))"
  by pat_completeness auto

termination
  by (relation "measure (\<lambda>(sn, q). length (qs_pending q))") (auto simp: open_one_record_shrinks)

declare take_frame.simps [simp del]

datatype quic_read = Got bytes | Finished | ReadFailed

text \<open>
  \<open>QuicRecv::recv\<close> over the reads that the QUIC stream delivers; \<open>None\<close> when it is still waiting
  for the next one.
\<close>

fun quic_recv ::
  "('h, 't) snow \<Rightarrow> 't quic_stream \<Rightarrow> quic_read list \<Rightarrow>
     't quic_stream \<times> quic_read list \<times> (transport_error, frame option) result option" where
  "quic_recv sn q [] =
     (case take_frame sn q of
        (q', Inl e) \<Rightarrow> (q', [], Some (Err e))
      | (q', Inr (Some fr)) \<Rightarrow> (q', [], Some (Ok (Some fr)))
      | (q', Inr None) \<Rightarrow> (q', [], None))"
| "quic_recv sn q (r # rs) =
     (case take_frame sn q of
        (q', Inl e) \<Rightarrow> (q', r # rs, Some (Err e))
      | (q', Inr (Some fr)) \<Rightarrow> (q', r # rs, Some (Ok (Some fr)))
      | (q', Inr None) \<Rightarrow>
          (case r of
             ReadFailed \<Rightarrow> (q', rs, Some (Err ConnectionLost))
           | Finished \<Rightarrow>
               (q', Finished # rs,
                Some (if qs_pending q' = [] \<and> qs_assembler q' = [] then Ok None
                      else Err ConnectionLost))
           | Got bs \<Rightarrow> quic_recv sn (q'\<lparr>qs_pending := qs_pending q' @ bs\<rparr>) rs))"

text \<open>A task that calls \<open>recv\<close> again and again, a number of times.\<close>

fun quic_recvs ::
  "('h, 't) snow \<Rightarrow> 't quic_stream \<Rightarrow> quic_read list \<Rightarrow> nat \<Rightarrow>
     (transport_error, frame option) result option list" where
  "quic_recvs sn q rs 0 = []"
| "quic_recvs sn q rs (Suc n) =
     (let (q', rs', r) = quic_recv sn q rs in r # quic_recvs sn q' rs' n)"


section \<open>What a linked pair of sessions delivers\<close>

text \<open>
  What the documentation of \<open>snow\<close> promises of the two ends of a finished handshake: whatever one
  end seals is sixteen bytes longer, and the other end, having read everything before it, reads it
  back.  Nothing is said of a message that could not be sealed.
\<close>

definition snow_link :: "('h, 't) snow \<Rightarrow> ('t \<Rightarrow> 't \<Rightarrow> bool) \<Rightarrow> bool" where
  "snow_link sn linked \<longleftrightarrow>
     (\<forall>s r p room s' c. linked s r \<longrightarrow> length p \<le> MAX_PLAINTEXT_LEN \<longrightarrow> sn_write sn s p room = (s', Inr c) \<longrightarrow>
        length c = length p + 16 \<and>
        (\<exists>r'. linked s' r' \<and> (\<forall>room'. length p \<le> room' \<longrightarrow> sn_read sn r c room' = (r', Inr p))))"

text \<open>A session that opens these records, one after the other, to these plaintexts.\<close>

fun opens :: "('h, 't) snow \<Rightarrow> 't session \<Rightarrow> bytes list \<Rightarrow> bytes list \<Rightarrow> 't session \<Rightarrow> bool" where
  "opens sn s [] ps t \<longleftrightarrow> ps = [] \<and> t = s"
| "opens sn s (c # cs) ps t \<longleftrightarrow>
     (\<exists>p ps' s'. ps = p # ps' \<and> record_wf c \<and> length c = length p + 16 \<and>
        unseal sn s c MAX_PLAINTEXT_LEN = (s', Inr p) \<and> opens sn s' cs ps' t)"

lemma opens_append:
  "opens sn s cs ps t \<Longrightarrow> opens sn t cs' ps' u \<Longrightarrow> opens sn s (cs @ cs') (ps @ ps') u"
  by (induction cs arbitrary: s ps) auto

lemma encode_record_opens:
  assumes law: "snow_link sn linked" and l: "linked (se_state s) (se_state r)"
    and p: "length p \<le> MAX_PLAINTEXT_LEN" and e: "encode_record sn s p out = (s', Inr out')"
  shows "\<exists>c r'. out' = out @ record_bytes c \<and> record_wf c \<and> length c = length p + 16 \<and>
    unseal sn r c MAX_PLAINTEXT_LEN = (r', Inr p) \<and> linked (se_state s') (se_state r')"
proof -
  obtain st w where w: "sn_write sn (se_state s) p (length p + NOISE_TAG_LEN) = (st, w)"
    by fastforce
  from e p w obtain c where c: "w = Inr c" "s' = s\<lparr>se_state := st\<rparr>" "length c < 65536"
    "out' = out @ record_bytes c"
    by (cases w) (auto simp: encode_record_def seal_def session_encrypt_def record_bytes_def Let_def
        split: if_splits)
  with law l p w obtain r' where len: "length c = length p + 16" and r': "linked st r'"
    and read: "\<And>room'. length p \<le> room' \<Longrightarrow> sn_read sn (se_state r) c room' = (r', Inr p)"
    unfolding snow_link_def by blast
  have "unseal sn r c MAX_PLAINTEXT_LEN = (r\<lparr>se_state := r'\<rparr>, Inr p)"
    using read [OF p] by (simp add: unseal_def session_decrypt_def)
  then show ?thesis
    using c len r' by (auto simp: record_wf_def)
qed

lemma seal_chunks_opens:
  assumes "snow_link sn linked" and "linked (se_state s) (se_state r)"
    and "\<forall>c \<in> set cs. length c \<le> MAX_PLAINTEXT_LEN" and "seal_chunks sn s cs out = (s', Inr out')"
  shows "\<exists>cts r'. out' = out @ concat (map record_bytes cts) \<and> opens sn r cts cs r' \<and>
    linked (se_state s') (se_state r')"
  using assms(2-)
proof (induction cs arbitrary: s r out)
  case Nil
  then show ?case by (auto intro!: exI [of _ "[]"])
next
  case (Cons p cs)
  from Cons.prems(3) obtain s1 out1 where e: "encode_record sn s p out = (s1, Inr out1)"
    and rest: "seal_chunks sn s1 cs out1 = (s', Inr out')"
    by (auto split: prod.splits sum.splits)
  from encode_record_opens [OF assms(1) Cons.prems(1) _ e] Cons.prems(2)
  obtain c r1 where c: "out1 = out @ record_bytes c" "record_wf c" "length c = length p + 16"
      "unseal sn r c MAX_PLAINTEXT_LEN = (r1, Inr p)" "linked (se_state s1) (se_state r1)"
    by auto
  from Cons.IH [OF c(5) _ rest] Cons.prems(2) obtain cts r' where
    "out' = out1 @ concat (map record_bytes cts)" "opens sn r1 cts cs r'" "linked (se_state s') (se_state r')"
    by auto
  with c show ?case
    by (intro exI [of _ "c # cts"] exI [of _ r']) auto
qed

text \<open>A writer that sends several frames, all its writes succeeding.\<close>

fun quic_sends ::
  "('h, 't) snow \<Rightarrow> 't quic_stream \<Rightarrow> frame list \<Rightarrow> 't quic_stream \<times> (transport_error, bytes) result" where
  "quic_sends sn q [] = (q, Ok [])"
| "quic_sends sn q (fr # frs) =
     (case quic_send sn True q fr of
        (q', Inl e) \<Rightarrow> (q', Err e)
      | (q', Inr out) \<Rightarrow>
          (let (q'', r) = quic_sends sn q' frs in (q'', rbind r (\<lambda>more. Ok (out @ more)))))"

abbreviation frame_chunks :: "frame \<Rightarrow> bytes list" where
  "frame_chunks fr \<equiv> chunks MAX_PLAINTEXT_LEN (frame_encode fr)"

lemma MAX_PLAINTEXT_LEN_val: "MAX_PLAINTEXT_LEN = 65519"
  by (simp add: MAX_PLAINTEXT_LEN_def NOISE_MAX_MESSAGE_LEN_def NOISE_TAG_LEN_def)

lemma frame_chunks_facts:
  "concat (frame_chunks fr) = frame_encode fr"
  "\<forall>c \<in> set (frame_chunks fr). length c \<le> MAX_PLAINTEXT_LEN"
  "\<forall>c \<in> set (frame_chunks fr). c \<noteq> []"
  using chunks_sizes [of _ MAX_PLAINTEXT_LEN "frame_encode fr"]
  by (auto simp: concat_chunks MAX_PLAINTEXT_LEN_val)

lemma quic_sends_opens:
  assumes "snow_link sn linked" and "linked (se_state (qs_crypto q)) (se_state r)"
    and "quic_sends sn q frs = (q', Inr out)"
  shows "\<exists>cts r'. out = concat (map record_bytes cts) \<and>
    opens sn r cts (concat (map frame_chunks frs)) r' \<and>
    list_all (\<lambda>fr. length (frame_payload fr) \<le> qs_max_frame q) frs"
  using assms(2-)
proof (induction frs arbitrary: q r out)
  case Nil
  then show ?case by (auto intro!: exI [of _ "[]"])
next
  case (Cons fr frs)
  from Cons.prems(2) obtain q1 out1 more where one: "quic_send sn True q fr = (q1, Inr out1)"
    and rest: "quic_sends sn q1 frs = (q', Inr more)" and out: "out = out1 @ more"
    by (auto split: prod.splits sum.splits)
  from one obtain s1 where sc: "seal_chunks sn (qs_crypto q) (frame_chunks fr) [] = (s1, Inr out1)"
    and q1: "q1 = q\<lparr>qs_crypto := s1\<rparr>" and small: "length (frame_payload fr) \<le> qs_max_frame q"
    by (auto simp: quic_send_def split: prod.splits sum.splits if_splits)
  from seal_chunks_opens [OF assms(1) Cons.prems(1) frame_chunks_facts(2) sc] obtain cts r1 where
    c: "out1 = concat (map record_bytes cts)" "opens sn r cts (frame_chunks fr) r1"
      "linked (se_state s1) (se_state r1)"
    by auto
  from Cons.IH [of q1 r1, OF _ rest] c(3) q1 obtain cts' r' where
    c': "more = concat (map record_bytes cts')" "opens sn r1 cts' (concat (map frame_chunks frs)) r'"
      "list_all (\<lambda>fr. length (frame_payload fr) \<le> qs_max_frame q) frs"
    by auto
  from c c' out small show ?case
    by (intro exI [of _ "cts @ cts'"] exI [of _ r']) (auto intro: opens_append)
qed


text \<open>
  The reader in the middle of a transfer: \<open>rest\<close> are the bytes that have not arrived yet, \<open>frs\<close> the
  frames not handed out yet, the first of which still lacks the plaintexts \<open>cs\<close>.
\<close>

definition next_chunks :: "frame list \<Rightarrow> bytes list" where
  "next_chunks frs = (case frs of [] \<Rightarrow> [] | fr # _ \<Rightarrow> frame_chunks fr)"

definition reading ::
  "('h, 't) snow \<Rightarrow> 't quic_stream \<Rightarrow> bytes \<Rightarrow> bytes list \<Rightarrow> frame list \<Rightarrow> bool" where
  "reading sn q rest cs frs \<longleftrightarrow>
     (\<exists>cts t. qs_pending q @ rest = concat (map record_bytes cts) \<and>
        opens sn (qs_crypto q) cts (cs @ concat (map frame_chunks (tl frs))) t) \<and>
     (\<exists>dn. dn @ cs = next_chunks frs \<and> concat dn = qs_assembler q) \<and>
     list_all (\<lambda>fr. frame_wf fr \<and> length (frame_payload fr) \<le> qs_max_frame q) frs"

lemma next_chunks_simps [simp]:
  "next_chunks [] = []" "next_chunks (fr # frs) = frame_chunks fr"
  by (simp_all add: next_chunks_def)

lemma reading_Nil:
  "reading sn q rest cs [] \<Longrightarrow> qs_pending q = [] \<and> rest = [] \<and> qs_assembler q = [] \<and> cs = []"
  by (auto simp: reading_def elim: opens.elims)

lemma reading_Cons:
  assumes "reading sn q rest cs (fr # frs)"
  shows "frame_wf fr" "length (frame_payload fr) \<le> qs_max_frame q"
    "frame_encode fr = qs_assembler q @ concat cs" "\<forall>c \<in> set cs. c \<noteq> []"
proof -
  from assms show "frame_wf fr" "length (frame_payload fr) \<le> qs_max_frame q"
    by (simp_all add: reading_def)
  from assms obtain dn where dn: "dn @ cs = frame_chunks fr" "concat dn = qs_assembler q"
    by (auto simp: reading_def)
  then show "frame_encode fr = qs_assembler q @ concat cs"
    using frame_chunks_facts(1) [of fr] by (metis concat_append)
  show "\<forall>c \<in> set cs. c \<noteq> []"
    using frame_chunks_facts(3) [of fr] unfolding dn(1) [symmetric] by auto
qed

lemma oversized_prefix:
  assumes "frame_wf fr" and "length (frame_payload fr) \<le> m" and "frame_encode fr = asm @ later"
  shows "oversized m asm = None"
proof (cases "HEADER_LEN \<le> length asm")
  case True
  then have long: "5 \<le> length asm"
    by (simp add: HEADER_LEN_def)
  then have "[asm ! 0, asm ! 1, asm ! 2, asm ! 3] = take 4 asm"
    by (intro header_nths) simp
  also have "\<dots> = take 4 (frame_encode fr @ [])"
    using assms(3) long by simp
  finally have "be_nat [asm ! 0, asm ! 1, asm ! 2, asm ! 3] = length (frame_payload fr)"
    using header_of_encode [of fr "[]"] assms(1) by (simp add: frame_wf_def)
  with assms(2) show ?thesis by (simp add: oversized_def)
qed (simp add: oversized_def)

lemma oversized_Nil [simp]: "oversized m [] = None"
  by (simp add: oversized_def HEADER_LEN_def)

lemma frame_decode_Nil [simp]: "frame_decode [] = Inr None"
  by (simp add: frame_decode_def HEADER_LEN_def)

text \<open>One record: either it has not arrived in full, or it is opened.\<close>

lemma open_one_record_cases:
  assumes pend: "qs_pending q @ rest = concat (map record_bytes cts)"
    and op: "opens sn (qs_crypto q) cts (p # ps) t"
    and room: "length (qs_assembler q) + length p \<le> qs_max_frame q + HEADER_LEN"
  shows "open_one_record sn q = (q, Inr False) \<and> rest \<noteq> [] \<or>
    (\<exists>s cts'. open_one_record sn q =
        (q\<lparr>qs_crypto := s, qs_assembler := qs_assembler q @ p,
           qs_pending := drop (length (record_bytes (hd cts))) (qs_pending q)\<rparr>, Inr True) \<and>
      drop (length (record_bytes (hd cts))) (qs_pending q) @ rest = concat (map record_bytes cts') \<and>
      opens sn s cts' ps t)"
proof -
  from op obtain c cts' s where cts: "cts = c # cts'" and wf: "record_wf c"
    and u: "unseal sn (qs_crypto q) c MAX_PLAINTEXT_LEN = (s, Inr p)" and op': "opens sn s cts' ps t"
    by (cases cts) auto
  have pend': "qs_pending q @ rest = record_bytes c @ concat (map record_bytes cts')"
    using pend cts by simp
  show ?thesis
  proof (cases "length (qs_pending q) < length (record_bytes c)")
    case True
    with pend' obtain us where us: "qs_pending q @ us = record_bytes c"
      by (auto simp: append_eq_append_conv2)
    with True have "strict_prefix (qs_pending q) (record_bytes c)"
      by (metis prefixI prefix_order.less_le less_irrefl)
    with wf True pend' show ?thesis
      by (auto simp: open_one_record_def split_record_partial)
  next
    case False
    then have "take (length (record_bytes c)) (qs_pending q @ rest) =
        take (length (record_bytes c)) (qs_pending q)"
      by simp
    then have "record_bytes c = take (length (record_bytes c)) (qs_pending q)"
      unfolding pend' by (simp only: take_append_length)
    then obtain more where more: "qs_pending q = record_bytes c @ more"
      by (metis append_take_drop_id)
    with wf have "split_record (qs_pending q) = Inr (Some (c, length (record_bytes c)))"
      by (simp add: split_record_bytes)
    with u room have "open_one_record sn q =
        (q\<lparr>qs_crypto := s, qs_assembler := qs_assembler q @ p,
           qs_pending := drop (length (record_bytes c)) (qs_pending q)\<rparr>, Inr True)"
      by (simp add: open_one_record_def)
    moreover have "drop (length (record_bytes c)) (qs_pending q) @ rest = concat (map record_bytes cts')"
      using more pend' by simp
    ultimately show ?thesis
      using op' cts by auto
  qed
qed

lemma take_frame_waits:
  assumes "oversized (qs_max_frame q) (qs_assembler q) = None" and "frame_decode (qs_assembler q) = Inr None"
  shows "open_one_record sn q = (q', Inr False) \<Longrightarrow> take_frame sn q = (q', Inr None)"
    and "open_one_record sn q = (q', Inr True) \<Longrightarrow> take_frame sn q = take_frame sn q'"
  using assms by (simp_all add: take_frame.simps [of sn q])

lemma take_frame_reading:
  assumes "reading sn q rest cs frs"
  shows "(\<exists>q' cs'. take_frame sn q = (q', Inr None) \<and> reading sn q' rest cs' frs \<and> (rest = [] \<longrightarrow> frs = [])) \<or>
    (\<exists>q'. frs \<noteq> [] \<and> take_frame sn q = (q', Inr (Some (hd frs))) \<and>
       reading sn q' rest (next_chunks (tl frs)) (tl frs))"
  using assms
proof (induction cs arbitrary: q)
  case Nil
  show ?case
  proof (cases frs)
    case Nil
    with Nil.prems reading_Nil have "qs_pending q = []" "qs_assembler q = []"
      by blast+
    then have "open_one_record sn q = (q, Inr False)" "oversized (qs_max_frame q) (qs_assembler q) = None"
      "frame_decode (qs_assembler q) = Inr None"
      by (simp_all add: open_one_record_def split_record_alt)
    then have "take_frame sn q = (q, Inr None)"
      by (intro take_frame_waits(1))
    with Nil.prems Nil show ?thesis by blast
  next
    case (Cons fr frs')
    note r = reading_Cons [OF Nil.prems [unfolded Cons]]
    have "drop (wire_len fr) (qs_assembler q) = []"
      using r(3) length_frame_encode [of fr] by simp
    then have "take_frame sn q = (q\<lparr>qs_assembler := []\<rparr>, Inr (Some fr))"
      using oversized_prefix [OF r(1,2), of "frame_encode fr" "[]"] frame_decode_encode [OF r(1), of "[]"] r(3)
      by (simp add: take_frame.simps [of sn q])
    moreover have "reading sn (q\<lparr>qs_assembler := []\<rparr>) rest (next_chunks frs') frs'"
      using Nil.prems Cons by (cases frs') (auto simp: reading_def)
    ultimately show ?thesis
      using Cons by auto
  qed
next
  case (Cons p cs)
  then obtain fr frs' where frs: "frs = fr # frs'"
    by (cases frs) (auto dest: reading_Nil)
  note r = reading_Cons [OF Cons.prems [unfolded frs]]
  have asm: "frame_encode fr = qs_assembler q @ p @ concat cs" and p: "p \<noteq> []"
    using r by auto
  then have pre: "oversized (qs_max_frame q) (qs_assembler q) = None" "frame_decode (qs_assembler q) = Inr None"
    using oversized_prefix [OF r(1,2) asm] frame_decode_incomplete [OF r(1), of "qs_assembler q"]
    by (auto simp: strict_prefix_def)
  have "length (frame_encode fr) = length (qs_assembler q) + length p + length (concat cs)"
    using asm by simp
  then have room: "length (qs_assembler q) + length p \<le> qs_max_frame q + HEADER_LEN"
    using r(2) by (simp add: wire_len_def)
  from Cons.prems frs obtain cts t where pend: "qs_pending q @ rest = concat (map record_bytes cts)"
    and op: "opens sn (qs_crypto q) cts (p # (cs @ concat (map frame_chunks frs'))) t"
    by (auto simp: reading_def)
  from open_one_record_cases [OF pend op room] show ?case
  proof (elim disjE exE conjE)
    assume "open_one_record sn q = (q, Inr False)" "rest \<noteq> []"
    with take_frame_waits(1) [OF pre] Cons.prems show ?thesis by blast
  next
    fix s cts'
    let ?q = "q\<lparr>qs_crypto := s, qs_assembler := qs_assembler q @ p,
        qs_pending := drop (length (record_bytes (hd cts))) (qs_pending q)\<rparr>"
    assume o: "open_one_record sn q = (?q, Inr True)"
      and pend': "drop (length (record_bytes (hd cts))) (qs_pending q) @ rest = concat (map record_bytes cts')"
      and op': "opens sn s cts' (cs @ concat (map frame_chunks frs')) t"
    from Cons.prems obtain dn where "dn @ p # cs = next_chunks frs" "concat dn = qs_assembler q"
      by (auto simp: reading_def)
    then have "(dn @ [p]) @ cs = next_chunks frs \<and> concat (dn @ [p]) = qs_assembler q @ p"
      by simp
    moreover have "list_all (\<lambda>fr. frame_wf fr \<and> length (frame_payload fr) \<le> qs_max_frame q) frs"
      using Cons.prems by (simp add: reading_def)
    ultimately have "reading sn ?q rest cs frs"
      unfolding reading_def using pend' op' frs
      by (intro conjI exI [of _ cts'] exI [of _ t] exI [of _ "dn @ [p]"]) simp_all
    from Cons.IH [OF this] show ?thesis
      unfolding take_frame_waits(2) [OF pre o] .
  qed
qed


lemma reading_more:
  "reading sn (q\<lparr>qs_pending := qs_pending q @ bs\<rparr>) rest cs frs \<longleftrightarrow> reading sn q (bs @ rest) cs frs"
  by (simp add: reading_def)

lemma quic_recv_reading:
  assumes "reading sn q (concat pieces @ missing) cs frs"
  shows "(\<exists>q' pieces'. frs \<noteq> [] \<and> quic_recv sn q (map Got pieces @ [Finished]) =
        (q', map Got pieces' @ [Finished], Some (Inr (Some (hd frs)))) \<and>
      reading sn q' (concat pieces' @ missing) (next_chunks (tl frs)) (tl frs)) \<or>
    (\<exists>q' cs' last. quic_recv sn q (map Got pieces @ [Finished]) = (q', [Finished], Some last) \<and>
      last = (if qs_pending q' = [] \<and> qs_assembler q' = [] then Inr None else Inl ConnectionLost) \<and>
      reading sn q' missing cs' frs \<and> (missing = [] \<longrightarrow> frs = []))"
  using assms
proof (induction pieces arbitrary: q cs)
  case Nil
  then have "reading sn q missing cs frs"
    by simp
  from take_frame_reading [OF this] show ?case
  proof (elim disjE exE conjE)
    fix q' cs' assume t: "take_frame sn q = (q', Inr None)" and r: "reading sn q' missing cs' frs"
      and "missing = [] \<longrightarrow> frs = []"
    then show ?thesis by auto
  next
    fix q' assume "frs \<noteq> []" and t: "take_frame sn q = (q', Inr (Some (hd frs)))"
      and r: "reading sn q' missing (next_chunks (tl frs)) (tl frs)"
    then show ?thesis by (auto intro!: exI [of _ "[]"])
  qed
next
  case (Cons bs pieces)
  from take_frame_reading [OF Cons.prems] show ?case
  proof (elim disjE exE conjE)
    fix q' cs' assume t: "take_frame sn q = (q', Inr None)"
      and r: "reading sn q' (concat (bs # pieces) @ missing) cs' frs"
    from r have "reading sn (q'\<lparr>qs_pending := qs_pending q' @ bs\<rparr>) (concat pieces @ missing) cs' frs"
      by (simp add: reading_more)
    from Cons.IH [OF this] t show ?thesis by simp
  next
    fix q' assume "frs \<noteq> []" and t: "take_frame sn q = (q', Inr (Some (hd frs)))"
      and r: "reading sn q' (concat (bs # pieces) @ missing) (next_chunks (tl frs)) (tl frs)"
    then show ?thesis by (auto intro!: exI [of _ "bs # pieces"])
  qed
qed

text \<open>The whole run of the reader: some frames in order, then the end of the stream.\<close>

lemma quic_recvs_reading:
  assumes "reading sn q (concat pieces @ missing) cs frs"
  shows "\<exists>k last q' cs'. k \<le> length frs \<and>
    quic_recvs sn q (map Got pieces @ [Finished]) (Suc k) =
      map (\<lambda>fr. Some (Inr (Some fr))) (take k frs) @ [Some last] \<and>
    last = (if qs_pending q' = [] \<and> qs_assembler q' = [] then Inr None else Inl ConnectionLost) \<and>
    reading sn q' missing cs' (drop k frs) \<and> (missing = [] \<longrightarrow> k = length frs)"
  using assms
proof (induction frs arbitrary: q pieces cs)
  case Nil
  from quic_recv_reading [OF Nil] obtain q' cs' last where
    "quic_recv sn q (map Got pieces @ [Finished]) = (q', [Finished], Some last)"
    "last = (if qs_pending q' = [] \<and> qs_assembler q' = [] then Inr None else Inl ConnectionLost)"
    "reading sn q' missing cs' []"
    by blast
  then show ?case
    by (intro exI [of _ 0] exI [of _ last] exI [of _ q'] exI [of _ cs']) simp
next
  case (Cons fr frs)
  from quic_recv_reading [OF Cons.prems] show ?case
  proof (elim disjE exE conjE)
    fix q' pieces'
    assume r: "quic_recv sn q (map Got pieces @ [Finished]) =
        (q', map Got pieces' @ [Finished], Some (Inr (Some (hd (fr # frs)))))"
      and "reading sn q' (concat pieces' @ missing) (next_chunks (tl (fr # frs))) (tl (fr # frs))"
    then have "reading sn q' (concat pieces' @ missing) (next_chunks frs) frs"
      by simp
    from Cons.IH [OF this] obtain k last q2 cs2 where "k \<le> length frs"
      "quic_recvs sn q' (map Got pieces' @ [Finished]) (Suc k) =
         map (\<lambda>fr. Some (Inr (Some fr))) (take k frs) @ [Some last]"
      "last = (if qs_pending q2 = [] \<and> qs_assembler q2 = [] then Inr None else Inl ConnectionLost)"
      "reading sn q2 missing cs2 (drop k frs)" "missing = [] \<longrightarrow> k = length frs"
      by blast
    with r show ?thesis
      by (intro exI [of _ "Suc k"] exI [of _ last] exI [of _ q2] exI [of _ cs2])
        (simp add: quic_recvs.simps(2) [of _ _ _ "Suc k"] del: quic_recvs.simps)
  next
    fix q' cs' last
    assume "quic_recv sn q (map Got pieces @ [Finished]) = (q', [Finished], Some last)"
      and "last = (if qs_pending q' = [] \<and> qs_assembler q' = [] then Inr None else Inl ConnectionLost)"
      and "reading sn q' missing cs' (fr # frs)" and "missing = [] \<longrightarrow> fr # frs = []"
    then show ?thesis
      by (intro exI [of _ 0] exI [of _ last] exI [of _ q'] exI [of _ cs']) simp
  qed
qed

text \<open>The size of a sealed transfer, which tells how much of it has arrived.\<close>

definition sealed_size :: "bytes list \<Rightarrow> nat" where
  "sealed_size ps = sum_list (map (\<lambda>p. length p + 18) ps)"

lemma sealed_size_append [simp]: "sealed_size (ps @ ps') = sealed_size ps + sealed_size ps'"
  by (simp add: sealed_size_def)

lemma opens_size: "opens sn s cts ps t \<Longrightarrow> length (concat (map record_bytes cts)) = sealed_size ps"
  by (induction cts arbitrary: s ps) (auto simp: sealed_size_def)

abbreviation transfer_size :: "frame list \<Rightarrow> nat" where
  "transfer_size frs \<equiv> sealed_size (concat (map frame_chunks frs))"

lemma transfer_size_take_drop:
  "transfer_size (take k frs) + transfer_size (drop k frs) = transfer_size frs"
  by (metis append_take_drop_id concat_append map_append sealed_size_append)

lemma quic_sends_prefix:
  assumes "quic_sends sn q frs = (q', Inr out)"
  shows "\<exists>q1 out1. quic_sends sn q (take k frs) = (q1, Inr out1) \<and> prefix out1 out"
  using assms
proof (induction frs arbitrary: q out k)
  case Nil
  then show ?case by simp
next
  case (Cons fr frs)
  from Cons.prems obtain q1 out1 more where one: "quic_send sn True q fr = (q1, Inr out1)"
    and rest: "quic_sends sn q1 frs = (q', Inr more)" and out: "out = out1 @ more"
    by (auto split: prod.splits sum.splits)
  show ?case
  proof (cases k)
    case 0
    then show ?thesis by simp
  next
    case (Suc j)
    from Cons.IH [OF rest, of j] obtain q2 out2 where
      "quic_sends sn q1 (take j frs) = (q2, Inr out2)" "prefix out2 more"
      by blast
    with one out Suc show ?thesis
      by (auto simp: prefix_def)
  qed
qed

lemma quic_recvs_nth_Suc:
  "i < n \<Longrightarrow> n \<le> m \<Longrightarrow> quic_recvs sn q rs n ! i = quic_recvs sn q rs m ! i"
proof (induction n arbitrary: q rs i m)
  case (Suc n)
  then obtain m' where "m = Suc m'" "n \<le> m'"
    by (cases m) auto
  with Suc show ?case
    by (cases i) (auto split: prod.splits)
qed simp


text \<open>A fresh reader of a linked session, facing what a writer sent.\<close>

lemma transfer_starts:
  assumes "snow_link sn linked" and "linked (se_state (qs_crypto w)) (se_state (qs_crypto r))"
    and "qs_pending r = []" and "qs_assembler r = []" and "qs_max_frame w \<le> qs_max_frame r"
    and "list_all frame_wf frs" and "quic_sends sn w frs = (w', Inr out)"
  shows "reading sn r out (next_chunks frs) frs" and "length out = transfer_size frs"
proof -
  from quic_sends_opens [OF assms(1,2,7)] obtain cts t where out: "out = concat (map record_bytes cts)"
    and op: "opens sn (qs_crypto r) cts (concat (map frame_chunks frs)) t"
    and small: "list_all (\<lambda>fr. length (frame_payload fr) \<le> qs_max_frame w) frs"
    by blast
  have "concat (map frame_chunks frs) = next_chunks frs @ concat (map frame_chunks (tl frs))"
    by (cases frs) simp_all
  moreover have "list_all (\<lambda>fr. frame_wf fr \<and> length (frame_payload fr) \<le> qs_max_frame r) frs"
    using assms(5,6) small by (auto simp: list_all_iff)
  ultimately show "reading sn r out (next_chunks frs) frs"
    unfolding reading_def using assms(3,4) op out
    by (intro conjI exI [of _ cts] exI [of _ t] exI [of _ "[]"]) simp_all
  show "length out = transfer_size frs"
    using opens_size [OF op] out by simp
qed

lemma sealed_stream_run:
  assumes "snow_link sn linked" and "linked (se_state (qs_crypto w)) (se_state (qs_crypto r))"
    and "qs_pending r = []" and "qs_assembler r = []" and "qs_max_frame w \<le> qs_max_frame r"
    and "list_all frame_wf frs" and "quic_sends sn w frs = (w', Inr (concat pieces))"
  shows "quic_recvs sn r (map Got pieces @ [Finished]) (Suc (length frs)) =
    map (\<lambda>fr. Some (Inr (Some fr))) frs @ [Some (Inr None)]"
proof -
  from transfer_starts(1) [OF assms] have "reading sn r (concat pieces @ []) (next_chunks frs) frs"
    by simp
  from quic_recvs_reading [OF this] obtain last q' cs' where
    "quic_recvs sn r (map Got pieces @ [Finished]) (Suc (length frs)) =
       map (\<lambda>fr. Some (Inr (Some fr))) frs @ [Some last]"
    "last = (if qs_pending q' = [] \<and> qs_assembler q' = [] then Inr None else Inl ConnectionLost)"
    "reading sn q' [] cs' []"
    by (metis drop_all order_refl take_all)
  with reading_Nil show ?thesis by fastforce
qed

text \<open>
  C18: what one end of a sealed stream sends is what the other end receives.  However the bytes are
  cut up on the way, a reader on the linked session is handed exactly the frames that were sent,
  in order, and then the clean end of the stream, and never a partial frame; a frame of several
  records is reassembled under the reader's own cap.
\<close>

theorem sealed_stream_round_trip:
  assumes "snow_link sn linked" and "linked (se_state (qs_crypto w)) (se_state (qs_crypto r))"
    and "qs_pending r = []" and "qs_assembler r = []" and "qs_max_frame w \<le> qs_max_frame r"
    and "list_all frame_wf frs" and "quic_sends sn w frs = (w', Inr (concat pieces))"
  shows "quic_recvs sn r (map Got pieces @ [Finished]) (Suc (length frs)) =
    map (\<lambda>fr. Some (Inr (Some fr))) frs @ [Some (Inr None)]"
  using assms by (rule sealed_stream_run)

lemma nat_be_2: "nat_be 2 n = [word_of_nat (n div 256 mod 256), word_of_nat (n mod 256)]"
  by (simp add: numeral_2_eq_2)

text \<open>A session that only counts its messages, so that the law of the library can hold.\<close>

definition counting_snow :: "(bytes, nat) snow" where
  "counting_snow =
     \<lparr>sn_params_known = (\<lambda>_. True), sn_initiator = (\<lambda>k. nk_remote k), sn_responder = (\<lambda>_. None),
      sn_hs_write = (\<lambda>h p room. (h, Inr p)), sn_hs_read = (\<lambda>h m room. (h, Inr m)),
      sn_hs_finished = (\<lambda>_. True), sn_hs_remote = Some, sn_hs_hash = (\<lambda>h. replicate 32 7),
      sn_transport = (\<lambda>_. Some 0),
      sn_write = (\<lambda>n p room. if room < length p + 16 then (n, Inl OtherFailure)
                   else (Suc n, Inr (p @ replicate 16 (word_of_nat n)))),
      sn_read = (\<lambda>n c room. if length c < 16 \<or> drop (length c - 16) c \<noteq> replicate 16 (word_of_nat n)
                   then (n, Inl OtherFailure) else (Suc n, Inr (take (length c - 16) c)))\<rparr>"

lemma counting_snow_link: "snow_link counting_snow (=)"
  by (auto simp: snow_link_def counting_snow_def split: if_splits)

definition counting_stream :: "nat quic_stream" where
  "counting_stream = quic_stream_new 0
     \<lparr>se_state = 0, se_remote_static = None, se_handshake_hash = replicate 32 7\<rparr> 1000"

definition counting_frame :: frame where
  "counting_frame = \<lparr>frame_flags = FLAGS_RAW, frame_payload = [9]\<rparr>"

definition counting_record :: bytes where
  "counting_record = [0, 22, 0, 0, 0, 1, 2, 9] @ replicate 16 0"

lemma counting_frame_wf: "frame_wf counting_frame"
  by (simp add: counting_frame_def frame_wf_def MAX_PAYLOAD_LEN_def)

lemma counting_sends: "\<exists>w'. quic_sends counting_snow counting_stream [counting_frame] = (w', Inr counting_record)"
proof -
  have enc: "frame_encode counting_frame = [0, 0, 0, 1, 2, 9]"
    by (simp add: counting_frame_def frame_encode_def frame_encode_to_def nat_be_4 FLAGS_RAW_def)
  have one: "chunks 65519 [0, 0, 0, 1, 2, 9 :: byte] = [[0, 0, 0, 1, 2, 9]]"
    by (simp add: chunks.simps)
  have "sn_write counting_snow 0 [0, 0, 0, 1, 2, 9] 22 =
      (Suc 0, Inr ([0, 0, 0, 1, 2, 9] @ replicate 16 0))"
    by (simp add: counting_snow_def)
  moreover have "length (frame_payload counting_frame) = 1"
    by (simp add: counting_frame_def)
  ultimately show ?thesis
    by (simp add: quic_send_def counting_stream_def quic_stream_new_def enc one MAX_PLAINTEXT_LEN_val
        encode_record_def seal_def session_encrypt_def NOISE_TAG_LEN_def nat_be_2 counting_record_def)
qed

theorem sealed_stream_round_trip_witness:
  "quic_recvs counting_snow counting_stream
     (map Got [take 2 counting_record, drop 2 counting_record] @ [Finished]) 2 =
   [Some (Inr (Some counting_frame)), Some (Inr None)]"
proof -
  let ?ps = "[take 2 counting_record, drop 2 counting_record]"
  from counting_sends obtain w' where
    w': "quic_sends counting_snow counting_stream [counting_frame] = (w', Inr (concat ?ps))"
    by auto
  have "quic_recvs counting_snow counting_stream (map Got ?ps @ [Finished]) (Suc (length [counting_frame])) =
      map (\<lambda>fr. Some (Inr (Some fr))) [counting_frame] @ [Some (Inr None)]"
    by (rule sealed_stream_round_trip [OF counting_snow_link _ _ _ _ _ w'])
      (simp_all add: counting_stream_def quic_stream_new_def counting_frame_wf)
  then show ?thesis
    by (simp add: numeral_2_eq_2)
qed

text \<open>A reader that stops with nothing left over stopped where a frame ends.\<close>

lemma stopped_at_boundary:
  assumes start: "quic_sends sn w frs = (w', Inr (got @ missing))"
    and size: "length (got @ missing) = transfer_size frs"
    and sizes: "\<And>j w1 o1. quic_sends sn w (take j frs) = (w1, Inr o1) \<Longrightarrow> length o1 = transfer_size (take j frs)"
    and r: "reading sn q missing cs (drop k frs)" and empty: "qs_pending q = []" "qs_assembler q = []"
  shows "\<exists>w1. quic_sends sn w (take k frs) = (w1, Inr got)"
proof -
  from r obtain cts t dn where m: "missing = concat (map record_bytes cts)"
    and op: "opens sn (qs_crypto q) cts (cs @ concat (map frame_chunks (tl (drop k frs)))) t"
    and dn: "dn @ cs = next_chunks (drop k frs)" "concat dn = []"
    using empty by (auto simp: reading_def)
  have "dn = []"
  proof (rule ccontr)
    assume "dn \<noteq> []"
    then obtain d dn' where "dn = d # dn'" by (cases dn) auto
    with dn have "d = []" and "d \<in> set (next_chunks (drop k frs))"
      by (auto simp flip: dn(1))
    then show False
      using frame_chunks_facts(3) by (cases "drop k frs") auto
  qed
  with dn have "cs @ concat (map frame_chunks (tl (drop k frs))) = concat (map frame_chunks (drop k frs))"
    by (cases "drop k frs") auto
  with opens_size [OF op] m have "length missing = transfer_size (drop k frs)"
    by simp
  with size transfer_size_take_drop [of k frs] have len: "length got = transfer_size (take k frs)"
    by simp
  from quic_sends_prefix [OF start, of k] obtain w1 o1 where
    o1: "quic_sends sn w (take k frs) = (w1, Inr o1)" "prefix o1 (got @ missing)"
    by blast
  with sizes len have "length o1 = length got"
    by simp
  with o1(2) have "o1 = got"
    by (auto simp: prefix_def append_eq_append_conv)
  with o1(1) show ?thesis by blast
qed

text \<open>Two accounts of the same run agree on how it ended.\<close>

lemma runs_end_alike:
  assumes "quic_recvs sn r rs (Suc k) = map (\<lambda>fr. Some (Inr (Some fr))) (take k frs) @ [Some e]"
    and "quic_recvs sn r rs (Suc n) = map (\<lambda>fr. Some (Inr (Some fr))) (take n frs) @ [Some e']"
    and "k \<le> length frs" and "n \<le> length frs"
    and no: "\<forall>fr. e \<noteq> Inr (Some fr)" "\<forall>fr. e' \<noteq> Inr (Some fr)"
  shows "e = e'"
proof -
  have k: "quic_recvs sn r rs (Suc k) ! k = Some e"
    "i < k \<Longrightarrow> quic_recvs sn r rs (Suc k) ! i = Some (Inr (Some (frs ! i)))" for i
    using assms by (simp_all add: nth_append)
  have n: "quic_recvs sn r rs (Suc n) ! n = Some e'"
    "i < n \<Longrightarrow> quic_recvs sn r rs (Suc n) ! i = Some (Inr (Some (frs ! i)))" for i
    using assms by (simp_all add: nth_append)
  consider "k < n" | "k = n" | "n < k" by linarith
  then show ?thesis
  proof cases
    assume "k < n"
    with k(1) n(2) no(1) quic_recvs_nth_Suc [of k "Suc k" "Suc n" sn r rs] show ?thesis by simp
  next
    assume "n < k"
    with k(2) n(1) no(2) quic_recvs_nth_Suc [of n "Suc n" "Suc k" sn r rs] show ?thesis by simp
  qed (use k(1) n(1) in simp)
qed

text \<open>
  C20: a transfer that was cut off is never taken for one that ended.  If the stream ends after any
  part of what was sent, the reader first hands out a number of whole frames in order; it then
  reports a clean end only if exactly these frames had been sent by that point, and otherwise the
  loss of the connection.
\<close>

theorem cut_transfer_is_noticed:
  assumes law: "snow_link sn linked" and l: "linked (se_state (qs_crypto w)) (se_state (qs_crypto r))"
    and fresh: "qs_pending r = []" "qs_assembler r = []" and cap: "qs_max_frame w \<le> qs_max_frame r"
    and wf: "list_all frame_wf frs" and sent: "quic_sends sn w frs = (w', Inr (concat pieces @ missing))"
  shows "\<exists>k last. k \<le> length frs \<and>
    quic_recvs sn r (map Got pieces @ [Finished]) (Suc k) =
      map (\<lambda>fr. Some (Inr (Some fr))) (take k frs) @ [Some last] \<and>
    (last = Inr None \<and> (\<exists>w1. quic_sends sn w (take k frs) = (w1, Inr (concat pieces))) \<or>
     last = Inl ConnectionLost \<and>
       \<not> (\<exists>j w1. quic_sends sn w (take j frs) = (w1, Inr (concat pieces))))"
proof -
  let ?reads = "map Got pieces @ [Finished]"
  have wf_take: "list_all frame_wf (take j frs)" for j
    using wf by (auto simp: list_all_iff dest: in_set_takeD)
  note start = transfer_starts [OF law l fresh cap]
  have sizes: "length o1 = transfer_size (take j frs)"
    if "quic_sends sn w (take j frs) = (w1, Inr o1)" for j w1 o1
    using start(2) [OF wf_take that] .
  from quic_recvs_reading [OF start(1) [OF wf sent]] obtain k last q' cs' where k: "k \<le> length frs"
    and run: "quic_recvs sn r ?reads (Suc k) =
        map (\<lambda>fr. Some (Inr (Some fr))) (take k frs) @ [Some last]"
    and last: "last = (if qs_pending q' = [] \<and> qs_assembler q' = [] then Inr None else Inl ConnectionLost)"
    and left: "reading sn q' missing cs' (drop k frs)"
    by blast
  have "\<exists>w1. quic_sends sn w (take k frs) = (w1, Inr (concat pieces))" if "last = Inr None"
  proof -
    from that last have "qs_pending q' = []" "qs_assembler q' = []"
      by (simp_all split: if_splits)
    from stopped_at_boundary [OF sent start(2) [OF wf sent] _ left this, OF sizes] show ?thesis .
  qed
  moreover have "last = Inr None" if b: "quic_sends sn w (take j frs) = (w1, Inr (concat pieces))" for j w1
  proof -
    let ?n = "length (take j frs)"
    have "quic_recvs sn r ?reads (Suc ?n) =
        map (\<lambda>fr. Some (Inr (Some fr))) (take ?n frs) @ [Some (Inr None)]"
      using sealed_stream_run [OF law l fresh cap wf_take b] by (simp add: min_def)
    from runs_end_alike [OF run this k] show ?thesis
      using last by simp
  qed
  ultimately show ?thesis
    using last k run by (intro exI [of _ k] exI [of _ last]) auto
qed


theorem cut_transfer_is_noticed_witness:
  "\<exists>k last. k \<le> 1 \<and>
    quic_recvs counting_snow counting_stream (map Got [take 7 counting_record] @ [Finished]) (Suc k) =
      map (\<lambda>fr. Some (Inr (Some fr))) (take k [counting_frame]) @ [Some last] \<and>
    (last = Inr None \<or> last = Inl ConnectionLost)"
proof -
  from counting_sends obtain w' where w': "quic_sends counting_snow counting_stream [counting_frame] =
      (w', Inr (concat [take 7 counting_record] @ drop 7 counting_record))"
    by auto
  have "list_all frame_wf [counting_frame]"
    by (simp add: counting_frame_wf)
  from cut_transfer_is_noticed [OF counting_snow_link _ _ _ _ this w', of counting_stream] show ?thesis
    by (auto simp: counting_stream_def quic_stream_new_def)
qed

section \<open>Who is heard in a handshake\<close>

lemma io_read_write_message:
  assumes "0 < length m" and "length m \<le> room" and "room < 65536"
  shows "io_read_message (nat_be 2 (length m) @ m @ later) room = Inr m"
  using assms by (simp add: io_read_message_def PREFIX_LEN_def be_nat_of_nat_be)

text \<open>The peer that a first message reveals to the responder.\<close>

definition revealed_peer ::
  "('h, 't) snow \<Rightarrow> handshake_io \<Rightarrow> device_identity \<Rightarrow> purpose \<Rightarrow> bytes option \<Rightarrow> public_key option" where
  "revealed_peer sn io i p psk =
     (case handshake_responder sn i p psk of
        Inl _ \<Rightarrow> None
      | Inr h0 \<Rightarrow>
          case io_read_message (hio_reply io []) NOISE_MAX_MESSAGE_LEN of
            Inl _ \<Rightarrow> None
          | Inr m1 \<Rightarrow>
              case hs_read_message sn h0 m1 NOISE_MAX_MESSAGE_LEN of
                (h1, Inl _) \<Rightarrow> None
              | (h1, Inr _) \<Rightarrow> hs_remote_static sn h1)"

text \<open>
  C8: a key that is not authorised hears nothing.  The responder writes no byte at all unless the
  first message has proved a static key that the policy accepts; a completed handshake belongs to
  that key and is finished; and a rejected peer, an unreadable message and a failed decryption
  all leave the same empty answer.
\<close>

theorem strangers_hear_nothing:
  "(case respond sn io i p psk authorize of (sent, r) \<Rightarrow>
      (case revealed_peer sn io i p psk of
         None \<Rightarrow> sent = [] \<and> \<not> is_ok r
       | Some peer \<Rightarrow>
           if authorize peer
           then (case r of Inl _ \<Rightarrow> True | Inr a \<Rightarrow> au_peer a = peer \<and> hs_is_finished sn (au_handshake a))
           else sent = [] \<and> r = Inl PeerNotAuthorized))"
proof (cases "handshake_responder sn i p psk")
  case (Inl e)
  then show ?thesis by (simp add: respond_def revealed_peer_def)
next
  case (Inr h0)
  show ?thesis
  proof (cases "io_read_message (hio_reply io []) NOISE_MAX_MESSAGE_LEN")
    case (Inl e)
    with Inr show ?thesis by (simp add: respond_def revealed_peer_def)
  next
    case m1: (Inr m1)
    obtain h1 r1 where r1: "hs_read_message sn h0 m1 NOISE_MAX_MESSAGE_LEN = (h1, r1)"
      by fastforce
    obtain h2 w where w: "hs_write_message sn h1 [] NOISE_MAX_MESSAGE_LEN = (h2, w)"
      by fastforce
    show ?thesis
      using Inr m1 r1 w
      by (cases r1; cases "hs_remote_static sn h1"; cases w)
        (simp_all add: respond_def revealed_peer_def split: prod.split sum.split)
  qed
qed

text \<open>The initiator ends up with the key it dialled or with an error.\<close>

lemma initiator_gets_whom_it_dialled:
  assumes "initiate sn io i remote p psk elapsed = (sent, Inr a)"
  shows "au_peer a = remote \<and> hs_is_finished sn (au_handshake a) \<and> au_rtt a = Some elapsed"
  using assms
  by (auto simp: initiate_def Let_def case_prod_beta split: sum.splits if_splits)

end
