(* ===== verification/Mux.thy ===== *)
theory Mux
  imports Streams "HOL-Library.RBT"
begin

text \<open>
  \<open>gonomad-transport/src/mux.rs\<close>: the multiplexer that carries many streams of frames over one
  encrypted byte stream, with credit for flow control.  Maps in key order are red-black trees.

  The state is what the lock protects, with the objects it shares with the stream handles: a
  semaphore is its number of permits and whether it is closed, an unbounded queue the frames in it
  and which of its two ends still exist.  A handle is the index of its object.  A task that waits
  gets \<open>None\<close> and tries again; the wake-ups themselves are not modelled.
\<close>

section \<open>Constants, roles and configuration\<close>

type_synonym channel_id = "32 word"

definition CONTROL_CHANNEL :: channel_id where "CONTROL_CHANNEL = 0"
definition SEGMENT_HEADER_LEN :: nat where "SEGMENT_HEADER_LEN = 5"
definition MAX_SEGMENT_BODY :: nat where "MAX_SEGMENT_BODY = MAX_PLAINTEXT_LEN - SEGMENT_HEADER_LEN"
definition KIND_OPEN :: byte where "KIND_OPEN = 0"
definition KIND_DATA :: byte where "KIND_DATA = 1"
definition KIND_WINDOW :: byte where "KIND_WINDOW = 2"
definition KIND_RESET :: byte where "KIND_RESET = 3"
definition WRITE_BATCH_SEGMENTS :: nat where "WRITE_BATCH_SEGMENTS = 16"
definition RETIRED_MEMORY :: nat where "RETIRED_MEMORY = 4096"

datatype role = Initiator | Responder

fun first_channel :: "role \<Rightarrow> channel_id" where
  "first_channel Initiator = 0"
| "first_channel Responder = 1"

fun peer_parity :: "role \<Rightarrow> channel_id" where
  "peer_parity Initiator = 1"
| "peer_parity Responder = 0"

record mux_config =
  mc_initial_window :: nat
  mc_max_frame_len :: nat
  mc_max_channels :: nat

definition mux_config_default :: mux_config where
  "mux_config_default =
     \<lparr>mc_initial_window = 512 * 1024, mc_max_frame_len = 256 * 1024, mc_max_channels = 64\<rparr>"

text \<open>The largest number of permits of a semaphore is the runtime's, an argument.\<close>

definition mux_config_validate :: "nat \<Rightarrow> mux_config \<Rightarrow> (transport_error, unit) result" where
  "mux_config_validate max_permits cfg =
     (if mc_max_channels cfg = 0 then Err (Config ''max_channels must be at least 1'')
      else if mc_max_frame_len cfg = 0 then Err (Config ''max_frame_len must be at least 1'')
      else if mc_initial_window cfg > max_permits
      then Err (Config ''initial_window exceeds the maximum representable credit'')
      else
        let needed = sat_add u64_max (mc_max_frame_len cfg) HEADER_LEN
        in if mc_initial_window cfg < needed
           then Err (Config ''initial_window must be at least max_frame_len + frame header'')
           else Ok ())"

section \<open>State\<close>

record segment =
  sg_channel :: channel_id
  sg_kind :: byte
  sg_body :: bytes

definition seg_open :: "channel_id \<Rightarrow> segment" where
  "seg_open c = \<lparr>sg_channel = c, sg_kind = KIND_OPEN, sg_body = []\<rparr>"

definition seg_reset :: "channel_id \<Rightarrow> segment" where
  "seg_reset c = \<lparr>sg_channel = c, sg_kind = KIND_RESET, sg_body = []\<rparr>"

definition seg_window :: "channel_id \<Rightarrow> nat \<Rightarrow> segment" where
  "seg_window c credit = \<lparr>sg_channel = c, sg_kind = KIND_WINDOW, sg_body = nat_be 4 credit\<rparr>"

definition seg_data :: "channel_id \<Rightarrow> bytes \<Rightarrow> segment" where
  "seg_data c body = \<lparr>sg_channel = c, sg_kind = KIND_DATA, sg_body = body\<rparr>"

definition segment_encode :: "segment \<Rightarrow> bytes" where
  "segment_encode sg = nat_be 4 (unat (sg_channel sg)) @ [sg_kind sg] @ sg_body sg"

text \<open>
  What the two halves of a stream share: the credit, the queue of frames with its sender and its
  receiver, and which halves the application still holds.
\<close>

record stream_end =
  en_id :: channel_id
  en_permits :: nat
  en_sem_closed :: bool
  en_queue :: "frame list"
  en_tx :: bool
  en_send_half :: bool
  en_recv_half :: bool

record channel_state =
  ch_end :: nat
  ch_inbound :: bool
  ch_assembler :: bytes
  ch_unacked :: nat

record mux =
  mx_cfg :: mux_config
  mx_role :: role
  mx_next_local :: channel_id
  mx_urgent :: "segment list"
  mx_out :: "(channel_id, segment list) rbt"
  mx_cursor :: channel_id
  mx_channels :: "(channel_id, channel_state) rbt"
  mx_retired :: "channel_id set"
  mx_retired_order :: "channel_id list"
  mx_accept_tx :: bool
  mx_accept_rx :: bool
  mx_accept_queue :: "nat list"
  mx_closed :: bool
  mx_close_err :: "transport_error option"
  mx_ends :: "stream_end list"

text \<open>The state that \<open>Mux::spawn\<close> starts from, once the configuration has been validated.\<close>

definition mux_start :: "role \<Rightarrow> mux_config \<Rightarrow> mux" where
  "mux_start r cfg =
     \<lparr>mx_cfg = cfg, mx_role = r, mx_next_local = first_channel r, mx_urgent = [], mx_out = RBT.empty,
      mx_cursor = 0, mx_channels = RBT.empty, mx_retired = {}, mx_retired_order = [],
      mx_accept_tx = True, mx_accept_rx = True, mx_accept_queue = [], mx_closed = False,
      mx_close_err = None, mx_ends = []\<rparr>"

definition mux_spawn :: "nat \<Rightarrow> role \<Rightarrow> mux_config \<Rightarrow> (transport_error, mux) result" where
  "mux_spawn max_permits r cfg = rbind (mux_config_validate max_permits cfg) (\<lambda>_. Ok (mux_start r cfg))"

definition mux_window :: "mux \<Rightarrow> nat" where
  "mux_window mx = mc_initial_window (mx_cfg mx)"

definition mux_len :: "mux \<Rightarrow> nat" where
  "mux_len mx = length (RBT.keys (mx_channels mx))"

definition is_closed :: "mux \<Rightarrow> bool" where
  "is_closed mx = mx_closed mx"

definition close_error :: "mux \<Rightarrow> transport_error" where
  "close_error mx = (case mx_close_err mx of None \<Rightarrow> Closed | Some e \<Rightarrow> e)"

definition update_end :: "nat \<Rightarrow> (stream_end \<Rightarrow> stream_end) \<Rightarrow> mux \<Rightarrow> mux" where
  "update_end e f mx = mx\<lparr>mx_ends := (mx_ends mx)[e := f (mx_ends mx ! e)]\<rparr>"

text \<open>\<open>out.entry(id).or_default()\<close>, and the same followed by \<open>push_back\<close>.\<close>

definition out_queue :: "mux \<Rightarrow> channel_id \<Rightarrow> segment list" where
  "out_queue mx c = (case RBT.lookup (mx_out mx) c of None \<Rightarrow> [] | Some q \<Rightarrow> q)"

definition enqueue :: "channel_id \<Rightarrow> segment list \<Rightarrow> mux \<Rightarrow> mux" where
  "enqueue c sgs mx = mx\<lparr>mx_out := RBT.insert c (out_queue mx c @ sgs) (mx_out mx)\<rparr>"

lemma enqueue_fields [simp]:
  "mx_cfg (enqueue c sgs mx) = mx_cfg mx" "mx_role (enqueue c sgs mx) = mx_role mx"
  "mx_next_local (enqueue c sgs mx) = mx_next_local mx" "mx_urgent (enqueue c sgs mx) = mx_urgent mx"
  "mx_cursor (enqueue c sgs mx) = mx_cursor mx" "mx_channels (enqueue c sgs mx) = mx_channels mx"
  "mx_retired (enqueue c sgs mx) = mx_retired mx"
  "mx_retired_order (enqueue c sgs mx) = mx_retired_order mx"
  "mx_accept_tx (enqueue c sgs mx) = mx_accept_tx mx" "mx_accept_rx (enqueue c sgs mx) = mx_accept_rx mx"
  "mx_accept_queue (enqueue c sgs mx) = mx_accept_queue mx" "mx_closed (enqueue c sgs mx) = mx_closed mx"
  "mx_ends (enqueue c sgs mx) = mx_ends mx"
  "out_queue (enqueue c sgs mx) d = out_queue mx d @ (if d = c then sgs else [])"
  by (simp_all add: enqueue_def out_queue_def)

lemma update_end_fields [simp]:
  "mx_cfg (update_end e f mx) = mx_cfg mx" "mx_role (update_end e f mx) = mx_role mx"
  "mx_next_local (update_end e f mx) = mx_next_local mx" "mx_urgent (update_end e f mx) = mx_urgent mx"
  "mx_out (update_end e f mx) = mx_out mx" "mx_cursor (update_end e f mx) = mx_cursor mx"
  "mx_channels (update_end e f mx) = mx_channels mx" "mx_retired (update_end e f mx) = mx_retired mx"
  "mx_retired_order (update_end e f mx) = mx_retired_order mx"
  "mx_accept_tx (update_end e f mx) = mx_accept_tx mx" "mx_accept_rx (update_end e f mx) = mx_accept_rx mx"
  "mx_accept_queue (update_end e f mx) = mx_accept_queue mx" "mx_closed (update_end e f mx) = mx_closed mx"
  "mx_ends (update_end e f mx) = (mx_ends mx)[e := f (mx_ends mx ! e)]"
  "out_queue (update_end e f mx) d = out_queue mx d"
  by (simp_all add: update_end_def out_queue_def)

section \<open>Channels\<close>

definition insert_channel :: "mux \<Rightarrow> channel_id \<Rightarrow> mux \<times> nat" where
  "insert_channel mx c =
     (let e = length (mx_ends mx);
          en = \<lparr>en_id = c, en_permits = mux_window mx, en_sem_closed = False, en_queue = [],
                en_tx = True, en_send_half = True, en_recv_half = True\<rparr>;
          st = \<lparr>ch_end = e, ch_inbound = True, ch_assembler = [], ch_unacked = 0\<rparr>
      in (enqueue c [] (mx\<lparr>mx_channels := RBT.insert c st (mx_channels mx),
                          mx_ends := mx_ends mx @ [en]\<rparr>), e))"

definition open_local :: "mux \<Rightarrow> mux \<times> (transport_error, nat) result" where
  "open_local mx0 =
     (let c = mx_next_local mx0;
          mx = mx0\<lparr>mx_next_local := c + 2\<rparr>
      in if mx_closed mx then (mx, Err (close_error mx))
         else if mux_len mx \<ge> mc_max_channels (mx_cfg mx)
         then (mx, Err (TooManyChannels (mc_max_channels (mx_cfg mx))))
         else if RBT.lookup (mx_channels mx) c \<noteq> None \<or> c \<in> mx_retired mx
         then (mx, Err (TooManyChannels (mc_max_channels (mx_cfg mx))))
         else
           let (mx', e) = insert_channel mx c
           in (enqueue c [seg_open c] mx', Ok e))"

definition push_data :: "mux \<Rightarrow> channel_id \<Rightarrow> bytes \<Rightarrow> mux \<times> (transport_error, unit) result" where
  "push_data mx c chunk =
     (if mx_closed mx then (mx, Err (close_error mx))
      else if RBT.lookup (mx_channels mx) c = None then (mx, Err StreamClosed)
      else (enqueue c [seg_data c chunk] mx, Ok ()))"

definition return_credit :: "mux \<Rightarrow> channel_id \<Rightarrow> nat \<Rightarrow> mux" where
  "return_credit mx c n =
     (if n > u32_max then mx
      else if mx_closed mx then mx
      else
        case RBT.lookup (mx_channels mx) c of
          None \<Rightarrow> mx
        | Some st \<Rightarrow>
            mx\<lparr>mx_channels := RBT.insert c (st\<lparr>ch_unacked := ch_unacked st - n\<rparr>) (mx_channels mx),
               mx_urgent := mx_urgent mx @ [seg_window c n]\<rparr>)"

text \<open>
  \<open>Inner::retire\<close>.  An id already remembered keeps its place; beyond the limit the oldest are
  forgotten.
\<close>

fun forget_oldest :: "channel_id set \<Rightarrow> channel_id list \<Rightarrow> channel_id set \<times> channel_id list" where
  "forget_oldest ids [] = (ids, [])"
| "forget_oldest ids (old # rest) =
     (if length (old # rest) > RETIRED_MEMORY then forget_oldest (ids - {old}) rest
      else (ids, old # rest))"

definition retire :: "channel_id \<Rightarrow> mux \<Rightarrow> mux" where
  "retire c mx =
     (if c \<in> mx_retired mx then mx
      else
        let (ids, order) = forget_oldest (insert c (mx_retired mx)) (mx_retired_order mx @ [c])
        in mx\<lparr>mx_retired := ids, mx_retired_order := order\<rparr>)"

text \<open>Dropping a channel's state drops the sender of its queue.\<close>

definition close_channel :: "mux \<Rightarrow> channel_id \<Rightarrow> mux" where
  "close_channel mx c =
     (if mx_closed mx then mx
      else
        case RBT.lookup (mx_channels mx) c of
          None \<Rightarrow> mx
        | Some st \<Rightarrow>
            enqueue c [seg_reset c]
              (retire c (update_end (ch_end st) (\<lambda>en. en\<lparr>en_tx := False\<rparr>)
                 (mx\<lparr>mx_channels := RBT.delete c (mx_channels mx)\<rparr>))))"

text \<open>\<open>take_next\<close>: window updates, then the control channel, then the others in turn.\<close>

definition pick_channel :: "mux \<Rightarrow> channel_id option" where
  "pick_channel mx =
     (if out_queue mx CONTROL_CHANNEL \<noteq> [] then Some CONTROL_CHANNEL
      else
        case find (\<lambda>(c, q). mx_cursor mx \<le> c \<and> q \<noteq> []) (RBT.entries (mx_out mx)) of
          Some (c, q) \<Rightarrow> Some c
        | None \<Rightarrow> map_option fst (find (\<lambda>(c, q). q \<noteq> []) (RBT.entries (mx_out mx))))"

definition next_cursor :: "channel_id \<Rightarrow> channel_id" where
  "next_cursor c = (if c = - 1 then c else c + 1)"

definition take_next :: "mux \<Rightarrow> mux \<times> segment option" where
  "take_next mx =
     (case mx_urgent mx of
        sg # rest \<Rightarrow> (mx\<lparr>mx_urgent := rest\<rparr>, Some sg)
      | [] \<Rightarrow>
          (case pick_channel mx of
             None \<Rightarrow> (mx, None)
           | Some c \<Rightarrow>
               let mx1 = (if c \<noteq> CONTROL_CHANNEL then mx\<lparr>mx_cursor := next_cursor c\<rparr> else mx) in
               case out_queue mx1 c of
                 [] \<Rightarrow> (mx1, None)
               | sg # rest \<Rightarrow>
                   (mx1\<lparr>mx_out :=
                      (if rest = [] \<and> RBT.lookup (mx_channels mx1) c = None
                       then RBT.delete c (mx_out mx1)
                       else RBT.insert c rest (mx_out mx1))\<rparr>, Some sg)))"

definition close_ends :: "nat list \<Rightarrow> stream_end list \<Rightarrow> stream_end list" where
  "close_ends es ens =
     foldl (\<lambda>ens e. ens[e := (ens ! e)\<lparr>en_tx := False, en_sem_closed := True\<rparr>]) ens es"

definition shutdown :: "mux \<Rightarrow> transport_error option \<Rightarrow> mux" where
  "shutdown mx err =
     (if mx_closed mx then mx
      else mx\<lparr>mx_closed := True, mx_close_err := err, mx_urgent := [], mx_out := RBT.empty,
              mx_accept_tx := False,
              mx_ends := close_ends (map (\<lambda>(c, st). ch_end st) (RBT.entries (mx_channels mx))) (mx_ends mx),
              mx_channels := RBT.empty\<rparr>)"


section \<open>Stream handles\<close>

text \<open>
  Both halves of a stream hold the channel's guard; dropping the second one closes the channel.
  The receiver takes its unread frames with it.
\<close>

definition drop_guard :: "mux \<Rightarrow> nat \<Rightarrow> mux" where
  "drop_guard mx e =
     (let en = mx_ends mx ! e
      in if en_send_half en \<or> en_recv_half en then mx else close_channel mx (en_id en))"

definition drop_send :: "mux \<Rightarrow> nat \<Rightarrow> mux" where
  "drop_send mx e = drop_guard (update_end e (\<lambda>en. en\<lparr>en_send_half := False\<rparr>) mx) e"

definition drop_recv :: "mux \<Rightarrow> nat \<Rightarrow> mux" where
  "drop_recv mx e =
     drop_guard (update_end e (\<lambda>en. en\<lparr>en_recv_half := False, en_queue := []\<rparr>) mx) e"

definition mux_finish :: "mux \<Rightarrow> nat \<Rightarrow> mux" where
  "mux_finish mx e = drop_send (close_channel mx (en_id (mx_ends mx ! e))) e"

definition closed_error :: "mux \<Rightarrow> transport_error" where
  "closed_error mx = (if is_closed mx then close_error mx else StreamClosed)"

text \<open>
  \<open>MuxSend::send\<close>: the check of the size, then the loop over the chunks, which stops where there
  is not enough credit and goes on from there.
\<close>

definition send_begin :: "mux \<Rightarrow> frame \<Rightarrow> (transport_error, bytes list) result" where
  "send_begin mx fr =
     (if length (frame_payload fr) > mc_max_frame_len (mx_cfg mx)
      then Err (FrameTooLarge (length (frame_payload fr)) (mc_max_frame_len (mx_cfg mx)))
      else Ok (chunks MAX_SEGMENT_BODY (frame_encode fr)))"

definition send_chunk :: "mux \<Rightarrow> nat \<Rightarrow> bytes \<Rightarrow> mux \<times> (transport_error, unit) result option" where
  "send_chunk mx e chunk =
     (let en = mx_ends mx ! e in
      if length chunk > u32_max
      then (mx, Some (Err (FrameTooLarge (length chunk) (mc_max_frame_len (mx_cfg mx)))))
      else if en_sem_closed en then (mx, Some (Err (closed_error mx)))
      else if en_permits en < length chunk then (mx, None)
      else
        let (mx', r) =
          push_data (update_end e (\<lambda>en. en\<lparr>en_permits := en_permits en - length chunk\<rparr>) mx) (en_id en) chunk
        in (mx', Some r))"

fun send_chunks ::
  "mux \<Rightarrow> nat \<Rightarrow> bytes list \<Rightarrow> mux \<times> bytes list \<times> (transport_error, unit) result option" where
  "send_chunks mx e [] = (mx, [], Some (Ok ()))"
| "send_chunks mx e (c # cs) =
     (case send_chunk mx e c of
        (mx', None) \<Rightarrow> (mx', c # cs, None)
      | (mx', Some (Inl err)) \<Rightarrow> (mx', c # cs, Some (Err err))
      | (mx', Some (Inr _)) \<Rightarrow> send_chunks mx' e cs)"

definition mux_recv :: "mux \<Rightarrow> nat \<Rightarrow> mux \<times> (transport_error, frame option) result option" where
  "mux_recv mx e =
     (let en = mx_ends mx ! e in
      case en_queue en of
        fr # rest \<Rightarrow>
          (return_credit (update_end e (\<lambda>en. en\<lparr>en_queue := rest\<rparr>) mx) (en_id en) (wire_len fr),
           Some (Ok (Some fr)))
      | [] \<Rightarrow>
          (mx,
           if en_tx en then None
           else if is_closed mx
           then Some (if close_error mx = Closed then Ok None else Err (close_error mx))
           else Some (Ok None)))"

definition accept_bi :: "mux \<Rightarrow> mux \<times> (transport_error, nat) result option" where
  "accept_bi mx =
     (case mx_accept_queue mx of
        e # rest \<Rightarrow> (mx\<lparr>mx_accept_queue := rest\<rparr>, Some (Ok e))
      | [] \<Rightarrow> (mx, if mx_accept_tx mx then None else Some (Err (close_error mx))))"

definition mux_close :: "mux \<Rightarrow> mux" where
  "mux_close mx = shutdown mx None"

section \<open>What the peer sends\<close>

definition peer_open :: "mux \<Rightarrow> channel_id \<Rightarrow> mux \<times> (transport_error, unit) result" where
  "peer_open mx c =
     (if c mod 2 \<noteq> peer_parity (mx_role mx) then (mx, Err (Protocol (WrongChannelParity c)))
      else if mx_closed mx \<or> c \<in> mx_retired mx then (mx, Ok ())
      else if RBT.lookup (mx_channels mx) c \<noteq> None then (mx, Err (Protocol (DuplicateChannel c)))
      else if mux_len mx \<ge> mc_max_channels (mx_cfg mx)
      then (mx, Err (Protocol (TooManyPeerChannels (mc_max_channels (mx_cfg mx)))))
      else
        let (mx', e) = insert_channel mx c
        in if mx_accept_tx mx' \<and> mx_accept_rx mx'
           then (mx'\<lparr>mx_accept_queue := mx_accept_queue mx' @ [e]\<rparr>, Ok ())
           else (drop_recv (drop_send mx' e) e, Ok ()))"

text \<open>
  The loop of \<open>peer_data\<close>: frames are cut off the assembler and delivered while the receiver
  exists; otherwise their size is added to the refund.
\<close>

function deliver_frames ::
  "nat \<Rightarrow> channel_state \<Rightarrow> stream_end \<Rightarrow> nat \<Rightarrow>
     channel_state \<times> stream_end \<times> (transport_error, nat) result" where
  "deliver_frames max_frame st en refund =
     (case oversized max_frame (ch_assembler st) of
        Some declared \<Rightarrow> (st, en, Err (Protocol (OversizedFrame declared max_frame)))
      | None \<Rightarrow>
          (case frame_decode (ch_assembler st) of
             Inl e \<Rightarrow> (st, en, Err (Framing e))
           | Inr None \<Rightarrow> (st, en, Ok refund)
           | Inr (Some (fr, used)) \<Rightarrow>
               let st1 = st\<lparr>ch_assembler := drop used (ch_assembler st)\<rparr> in
               if ch_inbound st \<and> en_recv_half en
               then deliver_frames max_frame st1 (en\<lparr>en_queue := en_queue en @ [fr]\<rparr>) refund
               else deliver_frames max_frame (st1\<lparr>ch_inbound := False\<rparr>) (en\<lparr>en_tx := False\<rparr>) (refund + used)))"
  by pat_completeness auto
termination
  by (relation "measure (\<lambda>(m, st, en, r). length (ch_assembler st))")
    (auto dest!: frame_decode_sound simp: wire_len_def HEADER_LEN_def)

declare deliver_frames.simps [simp del]

definition store_channel :: "channel_id \<Rightarrow> channel_state \<Rightarrow> stream_end \<Rightarrow> mux \<Rightarrow> mux" where
  "store_channel c st en mx =
     mx\<lparr>mx_channels := RBT.insert c st (mx_channels mx), mx_ends := (mx_ends mx)[ch_end st := en]\<rparr>"

definition peer_data :: "mux \<Rightarrow> channel_id \<Rightarrow> bytes \<Rightarrow> mux \<times> (transport_error, unit) result" where
  "peer_data mx c body =
     (if body = [] then (mx, Ok ())
      else if mx_closed mx \<or> c \<in> mx_retired mx then (mx, Ok ())
      else
        case RBT.lookup (mx_channels mx) c of
          None \<Rightarrow> (mx, Err (Protocol (UnknownChannel c)))
        | Some st0 \<Rightarrow>
            let en0 = mx_ends mx ! ch_end st0;
                st1 = st0\<lparr>ch_unacked := ch_unacked st0 + length body\<rparr>
            in if ch_unacked st1 > mux_window mx
               then (store_channel c st1 en0 mx, Err (Protocol (FlowControlExceeded c)))
               else
                 case deliver_frames (mc_max_frame_len (mx_cfg mx))
                        (st1\<lparr>ch_assembler := ch_assembler st1 @ body\<rparr>) en0 0 of
                   (st2, en2, Inl err) \<Rightarrow> (store_channel c st2 en2 mx, Err err)
                 | (st2, en2, Inr refund) \<Rightarrow>
                     if refund > 0
                     then
                       let mx' = store_channel c (st2\<lparr>ch_unacked := ch_unacked st2 - refund\<rparr>) en2 mx
                       in (if refund \<le> u32_max
                           then mx'\<lparr>mx_urgent := mx_urgent mx' @ [seg_window c refund]\<rparr> else mx', Ok ())
                     else (store_channel c st2 en2 mx, Ok ()))"

definition peer_window :: "mux \<Rightarrow> channel_id \<Rightarrow> bytes \<Rightarrow> mux \<times> (transport_error, unit) result" where
  "peer_window mx c body =
     (if length body \<noteq> 4 then (mx, Err (Protocol (MalformedWindowUpdate c)))
      else
        let granted = be_nat body
        in if mx_closed mx \<or> c \<in> mx_retired mx then (mx, Ok ())
           else
             case RBT.lookup (mx_channels mx) c of
               None \<Rightarrow> (mx, Ok ())
             | Some st \<Rightarrow>
                 if en_permits (mx_ends mx ! ch_end st) + granted > mux_window mx
                 then (mx, Err (Protocol (FlowControlInflated c)))
                 else (update_end (ch_end st) (\<lambda>en. en\<lparr>en_permits := en_permits en + granted\<rparr>) mx, Ok ()))"

definition peer_reset :: "mux \<Rightarrow> channel_id \<Rightarrow> mux" where
  "peer_reset mx c =
     (if mx_closed mx then mx
      else
        let mx1 =
          (case RBT.lookup (mx_channels mx) c of
             None \<Rightarrow> mx
           | Some st \<Rightarrow>
               update_end (ch_end st) (\<lambda>en. en\<lparr>en_tx := False, en_sem_closed := True\<rparr>)
                 (mx\<lparr>mx_channels := RBT.delete c (mx_channels mx)\<rparr>))
        in retire c (mx1\<lparr>mx_out := RBT.delete c (mx_out mx1)\<rparr>))"

definition handle_segment :: "mux \<Rightarrow> bytes \<Rightarrow> mux \<times> (transport_error, unit) result" where
  "handle_segment mx sg =
     (if length sg < SEGMENT_HEADER_LEN
      then (mx, Err (Protocol (MalformedSegment (length sg) SEGMENT_HEADER_LEN)))
      else
        let c = word_of_nat (be_nat [sg ! 0, sg ! 1, sg ! 2, sg ! 3]);
            kind = sg ! 4;
            body = drop SEGMENT_HEADER_LEN sg
        in if kind = KIND_OPEN then peer_open mx c
           else if kind = KIND_DATA then peer_data mx c body
           else if kind = KIND_WINDOW then peer_window mx c body
           else if kind = KIND_RESET then (peer_reset mx c, Ok ())
           else (mx, Err (Protocol (UnknownSegmentKind kind))))"

section \<open>The two loops over the socket\<close>

lemma split_record_shrinks:
  "split_record buf = Inr (Some (c, stop)) \<Longrightarrow> length buf - stop < length buf"
  using record_stream.dec_consumed(3) [of buf c stop] split_record_sound [of buf c stop] by auto

text \<open>\<open>drain_records\<close>: every complete record, and how many bytes they took.\<close>

function drain_records ::
  "('h, 't) snow \<Rightarrow> 't session \<Rightarrow> mux \<Rightarrow> bytes \<Rightarrow> nat \<Rightarrow>
     't session \<times> mux \<times> (transport_error, nat) result" where
  "drain_records sn s mx pending at =
     (case split_record pending of
        Inl e \<Rightarrow> (s, mx, Err e)
      | Inr None \<Rightarrow> (s, mx, Ok at)
      | Inr (Some (c, stop)) \<Rightarrow>
          (case unseal sn s c MAX_PLAINTEXT_LEN of
             (s', Inl e) \<Rightarrow> (s', mx, Err e)
           | (s', Inr p) \<Rightarrow>
               (case handle_segment mx p of
                  (mx', Inl e) \<Rightarrow> (s', mx', Err e)
                | (mx', Inr _) \<Rightarrow> drain_records sn s' mx' (drop stop pending) (at + stop))))"
  by pat_completeness auto

termination
  by (relation "measure (\<lambda>(sn, s, mx, pending, at). length pending)") (auto simp: split_record_shrinks)

declare drain_records.simps [simp del]

text \<open>
  \<open>read_loop\<close> over what the socket delivers: an empty read is its end.  The result is that of the
  loop, \<open>None\<close> while it waits for more; the caller then shuts the connection down.
\<close>

datatype socket_read = SockBytes bytes | SockFailed

fun read_loop ::
  "('h, 't) snow \<Rightarrow> 't session \<Rightarrow> mux \<Rightarrow> bytes \<Rightarrow> socket_read list \<Rightarrow>
     't session \<times> mux \<times> bytes \<times> (transport_error, unit) result option" where
  "read_loop sn s mx pending [] =
     (case drain_records sn s mx pending 0 of
        (s', mx', Inl e) \<Rightarrow> (s', mx', pending, Some (Err e))
      | (s', mx', Inr consumed) \<Rightarrow> (s', mx', drop consumed pending, None))"
| "read_loop sn s mx pending (r # rs) =
     (case drain_records sn s mx pending 0 of
        (s', mx', Inl e) \<Rightarrow> (s', mx', pending, Some (Err e))
      | (s', mx', Inr consumed) \<Rightarrow>
          let pending' = drop consumed pending in
          case r of
            SockFailed \<Rightarrow> (s', mx', pending', Some (Err ConnectionLost))
          | SockBytes bs \<Rightarrow>
              if bs = []
              then (s', mx', pending', Some (if pending' = [] then Ok () else Err ConnectionLost))
              else read_loop sn s' mx' (pending' @ bs) rs)"

definition reader_task ::
  "('h, 't) snow \<Rightarrow> 't session \<Rightarrow> mux \<Rightarrow> socket_read list \<Rightarrow> 't session \<times> mux" where
  "reader_task sn s mx rs =
     (case read_loop sn s mx [] rs of
        (s', mx', _, None) \<Rightarrow> (s', mx')
      | (s', mx', _, Some (Inl e)) \<Rightarrow> (s', shutdown mx' (Some e))
      | (s', mx', _, Some (Inr _)) \<Rightarrow> (s', shutdown mx' None))"

text \<open>
  One turn of \<open>write_loop\<close>: up to a batch of segments, sealed into one buffer and written.  The
  result is \<open>None\<close> when the loop goes on.
\<close>

fun write_batch ::
  "('h, 't) snow \<Rightarrow> nat \<Rightarrow> 't session \<Rightarrow> mux \<Rightarrow> bytes \<Rightarrow>
     't session \<times> mux \<times> (transport_error, bytes) result" where
  "write_batch sn 0 s mx out = (s, mx, Ok out)"
| "write_batch sn (Suc n) s mx out =
     (case take_next mx of
        (mx', None) \<Rightarrow> (s, mx', Ok out)
      | (mx', Some sg) \<Rightarrow>
          (case encode_record sn s (segment_encode sg) out of
             (s', Inl e) \<Rightarrow> (s', mx', Err e)
           | (s', Inr out') \<Rightarrow> write_batch sn n s' mx' out'))"

definition write_turn ::
  "('h, 't) snow \<Rightarrow> bool \<Rightarrow> 't session \<Rightarrow> mux \<Rightarrow>
     't session \<times> mux \<times> bytes \<times> (transport_error, unit) result option" where
  "write_turn sn write_ok s mx =
     (case write_batch sn WRITE_BATCH_SEGMENTS s mx [] of
        (s', mx', Inl e) \<Rightarrow> (s', mx', [], Some (Err e))
      | (s', mx', Inr out) \<Rightarrow>
          if out = [] then (s', mx', [], if is_closed mx' then Some (Ok ()) else None)
          else if write_ok then (s', mx', out, None)
          else (s', mx', [], Some (Err ConnectionLost)))"


section \<open>Counting what a channel holds\<close>

definition queued :: "stream_end \<Rightarrow> nat" where
  "queued en = sum_list (map wire_len (en_queue en))"

lemma queued_simps [simp]:
  "en_queue en = [] \<Longrightarrow> queued en = 0"
  "queued (en\<lparr>en_queue := q @ [fr]\<rparr>) = sum_list (map wire_len q) + wire_len fr"
  "queued (en\<lparr>en_queue := []\<rparr>) = 0"
  "queued (en\<lparr>en_permits := p\<rparr>) = queued en"
  "queued (en\<lparr>en_tx := b\<rparr>) = queued en"
  "queued (en\<lparr>en_sem_closed := b\<rparr>) = queued en"
  "queued (en\<lparr>en_send_half := b\<rparr>) = queued en"
  by (simp_all add: queued_def)

lemma length_keys: "length (RBT.keys t) = card (dom (RBT.lookup t))"
  by (metis distinct_card distinct_keys lookup_keys)

lemma finite_dom_lookup [simp]: "finite (dom (RBT.lookup t))"
  by (metis List.finite_set lookup_keys)

lemma mux_len_insert:
  "length (RBT.keys (RBT.insert c st t)) =
     (if RBT.lookup t c = None then Suc (length (RBT.keys t)) else length (RBT.keys t))"
  by (auto simp: length_keys insert_absorb domIff)

lemma mux_len_delete: "length (RBT.keys (RBT.delete c t)) \<le> length (RBT.keys t)"
  by (simp add: length_keys card_Diff1_le)

lemma mux_len_empty [simp]: "length (RBT.keys RBT.empty) = 0"
  by (simp add: length_keys)

text \<open>The loop over complete frames neither loses nor invents a byte.\<close>

definition same_handle :: "stream_end \<Rightarrow> stream_end \<Rightarrow> bool" where
  "same_handle en en' \<longleftrightarrow> en_id en' = en_id en \<and> en_permits en' = en_permits en \<and>
     en_sem_closed en' = en_sem_closed en \<and> en_send_half en' = en_send_half en \<and>
     en_recv_half en' = en_recv_half en"

lemma deliver_frames_Some:
  assumes "deliver_frames m st en refund = (st', en', r)" and "oversized m (ch_assembler st) = None"
    and "frame_decode (ch_assembler st) = Inr (Some (fr, used))"
  shows "(\<exists>st1. ch_assembler st1 = drop used (ch_assembler st) \<and> ch_end st1 = ch_end st \<and>
      ch_unacked st1 = ch_unacked st \<and>
      (en_recv_half en \<and> ch_inbound st \<and> ch_inbound st1 \<and>
         deliver_frames m st1 (en\<lparr>en_queue := en_queue en @ [fr]\<rparr>) refund = (st', en', r) \<or>
       \<not> (en_recv_half en \<and> ch_inbound st) \<and> \<not> ch_inbound st1 \<and>
         deliver_frames m st1 (en\<lparr>en_tx := False\<rparr>) (refund + used) = (st', en', r)))"
proof (cases "ch_inbound st \<and> en_recv_half en")
  case True
  with assms show ?thesis
    by (intro exI [of _ "st\<lparr>ch_assembler := drop used (ch_assembler st)\<rparr>"])
      (simp add: deliver_frames.simps [of m st])
next
  case False
  with assms show ?thesis
    by (intro exI [of _ "st\<lparr>ch_assembler := drop used (ch_assembler st), ch_inbound := False\<rparr>"])
      (auto simp: deliver_frames.simps [of m st])
qed

lemma deliver_frames_Inr:
  assumes "deliver_frames m st en refund = (st', en', Inr refund')"
  shows "length (ch_assembler st') + queued en' + refund' = length (ch_assembler st) + queued en + refund \<and>
    length (ch_assembler st') < HEADER_LEN + m \<and> ch_end st' = ch_end st \<and> ch_unacked st' = ch_unacked st \<and>
    same_handle en en' \<and> (\<not> en_recv_half en \<longrightarrow> en_queue en' = en_queue en)"
  using assms
proof (induction "length (ch_assembler st)" arbitrary: st en refund rule: less_induct)
  case less
  from less.prems have o: "oversized m (ch_assembler st) = None"
    by (simp add: deliver_frames.simps [of m st] split: option.splits)
  from less.prems o obtain d where d: "frame_decode (ch_assembler st) = Inr d"
    by (cases "frame_decode (ch_assembler st)") (simp_all add: deliver_frames.simps [of m st])
  show ?case
  proof (cases d)
    case None
    with less.prems o d have "st' = st" "en' = en" "refund' = refund"
      by (simp_all add: deliver_frames.simps [of m st])
    moreover have "length (ch_assembler st) < HEADER_LEN + m"
    proof (rule ccontr)
      assume long: "\<not> ?thesis"
      then have "[ch_assembler st ! 0, ch_assembler st ! 1, ch_assembler st ! 2, ch_assembler st ! 3] =
          take 4 (ch_assembler st)"
        by (intro header_nths) (simp add: HEADER_LEN_def)
      with long o have "be_nat (take 4 (ch_assembler st)) \<le> m"
        by (simp add: oversized_def Let_def HEADER_LEN_def split: if_splits)
      with long d None show False
        by (auto simp: frame_decode_alt HEADER_LEN_def split: if_splits)
    qed
    ultimately show ?thesis by (simp add: same_handle_def)
  next
    case (Some fu)
    obtain fr used where fu: "fu = (fr, used)" by (cases fu)
    with d Some have dec: "frame_decode (ch_assembler st) = Inr (Some (fr, used))" by simp
    from frame_decode_sound [OF this] have used: "used = wire_len fr" "used \<le> length (ch_assembler st)"
      by simp_all
    then have "0 < used" by (simp add: wire_len_def HEADER_LEN_def)
    from deliver_frames_Some [OF less.prems o dec] obtain st1 where
      st1: "ch_assembler st1 = drop used (ch_assembler st)" "ch_end st1 = ch_end st"
        "ch_unacked st1 = ch_unacked st" and
      cont: "en_recv_half en \<and> deliver_frames m st1 (en\<lparr>en_queue := en_queue en @ [fr]\<rparr>) refund = (st', en', Inr refund') \<or>
        deliver_frames m st1 (en\<lparr>en_tx := False\<rparr>) (refund + used) = (st', en', Inr refund')"
      by blast
    have shorter: "length (ch_assembler st1) < length (ch_assembler st)"
      using used \<open>0 < used\<close> st1 by simp
    from cont show ?thesis
    proof (elim disjE conjE)
      assume "en_recv_half en"
        and "deliver_frames m st1 (en\<lparr>en_queue := en_queue en @ [fr]\<rparr>) refund = (st', en', Inr refund')"
      from less.hyps [OF shorter this(2)] this(1) used st1 show ?thesis
        by (simp add: same_handle_def queued_def)
    next
      assume "deliver_frames m st1 (en\<lparr>en_tx := False\<rparr>) (refund + used) = (st', en', Inr refund')"
      from less.hyps [OF shorter this] used st1 show ?thesis
        by (simp add: same_handle_def queued_def)
    qed
  qed
qed

text \<open>Where it fails, the shared object is still the same one.\<close>

lemma deliver_frames_handle:
  assumes "deliver_frames m st en refund = (st', en', r)"
  shows "ch_end st' = ch_end st \<and> ch_unacked st' = ch_unacked st \<and> same_handle en en'"
  using assms
proof (induction "length (ch_assembler st)" arbitrary: st en refund rule: less_induct)
  case less
  show ?case
  proof (cases "\<exists>fr used. oversized m (ch_assembler st) = None \<and>
      frame_decode (ch_assembler st) = Inr (Some (fr, used))")
    case True
    then obtain fr used where o: "oversized m (ch_assembler st) = None"
      and dec: "frame_decode (ch_assembler st) = Inr (Some (fr, used))"
      by blast
    from frame_decode_sound [OF dec] have used: "used \<le> length (ch_assembler st)" "0 < used"
      by (simp_all add: wire_len_def HEADER_LEN_def)
    from deliver_frames_Some [OF less.prems o dec] obtain st1 en1 refund1 where
      st1: "ch_assembler st1 = drop used (ch_assembler st)" "ch_end st1 = ch_end st"
        "ch_unacked st1 = ch_unacked st" and "same_handle en en1"
        "deliver_frames m st1 en1 refund1 = (st', en', r)"
    proof -
      have "same_handle en (en\<lparr>en_queue := en_queue en @ [fr]\<rparr>)" "same_handle en (en\<lparr>en_tx := False\<rparr>)"
        by (simp_all add: same_handle_def)
      with deliver_frames_Some [OF less.prems o dec] that show thesis by blast
    qed
    with less.hyps [of st1 en1 refund1] used show ?thesis
      by (simp add: same_handle_def)
  next
    case False
    with less.prems have "st' = st" "en' = en"
      by (auto simp: deliver_frames.simps [of m st] split: option.splits sum.splits)
    then show ?thesis by (simp add: same_handle_def)
  qed
qed


section \<open>Segments on the wire\<close>

lemma segment_encode_parts:
  "SEGMENT_HEADER_LEN \<le> length (segment_encode sg)"
  "segment_encode sg ! 4 = sg_kind sg"
  "drop SEGMENT_HEADER_LEN (segment_encode sg) = sg_body sg"
  by (simp_all add: segment_encode_def SEGMENT_HEADER_LEN_def nth_append)

lemma segment_encode_channel:
  "word_of_nat (be_nat [segment_encode sg ! 0, segment_encode sg ! 1, segment_encode sg ! 2, segment_encode sg ! 3])
   = sg_channel sg"
proof -
  have "[segment_encode sg ! 0, segment_encode sg ! 1, segment_encode sg ! 2, segment_encode sg ! 3] =
      take 4 (segment_encode sg)"
    using segment_encode_parts(1) [of sg] by (intro header_nths) (simp add: SEGMENT_HEADER_LEN_def)
  also have "\<dots> = nat_be 4 (unat (sg_channel sg))"
    by (simp add: segment_encode_def)
  finally have "[segment_encode sg ! 0, segment_encode sg ! 1, segment_encode sg ! 2, segment_encode sg ! 3] =
      nat_be 4 (unat (sg_channel sg))" .
  moreover have "unat (sg_channel sg) < 256 ^ 4"
    by (rule order.strict_trans2 [OF unsigned_less]) simp
  ultimately show ?thesis
    by (simp add: be_nat_of_nat_be)
qed

lemma kinds_differ [simp]:
  "KIND_OPEN \<noteq> KIND_DATA" "KIND_OPEN \<noteq> KIND_WINDOW" "KIND_OPEN \<noteq> KIND_RESET"
  "KIND_DATA \<noteq> KIND_WINDOW" "KIND_DATA \<noteq> KIND_RESET" "KIND_WINDOW \<noteq> KIND_RESET"
  "KIND_DATA \<noteq> KIND_OPEN" "KIND_WINDOW \<noteq> KIND_OPEN" "KIND_RESET \<noteq> KIND_OPEN"
  "KIND_WINDOW \<noteq> KIND_DATA" "KIND_RESET \<noteq> KIND_DATA" "KIND_RESET \<noteq> KIND_WINDOW"
  by (simp_all add: KIND_OPEN_def KIND_DATA_def KIND_WINDOW_def KIND_RESET_def)

text \<open>What the other side's segments do.\<close>

lemma handle_segment_dispatch:
  "handle_segment mx (segment_encode sg) =
     (if sg_kind sg = KIND_OPEN then peer_open mx (sg_channel sg)
      else if sg_kind sg = KIND_DATA then peer_data mx (sg_channel sg) (sg_body sg)
      else if sg_kind sg = KIND_WINDOW then peer_window mx (sg_channel sg) (sg_body sg)
      else if sg_kind sg = KIND_RESET then (peer_reset mx (sg_channel sg), Inr ())
      else (mx, Inl (Protocol (UnknownSegmentKind (sg_kind sg)))))"
  unfolding handle_segment_def Let_def segment_encode_channel segment_encode_parts(2,3)
  using segment_encode_parts(1) [of sg] by simp

lemma handle_segment_encode [simp]:
  "handle_segment mx (segment_encode (seg_open c)) = peer_open mx c"
  "handle_segment mx (segment_encode (seg_data c body)) = peer_data mx c body"
  "handle_segment mx (segment_encode (seg_window c n)) = peer_window mx c (nat_be 4 n)"
  "handle_segment mx (segment_encode (seg_reset c)) = (peer_reset mx c, Inr ())"
  by (simp_all add: handle_segment_dispatch seg_open_def seg_data_def seg_window_def seg_reset_def)


section \<open>Streams of either kind\<close>

type_synonym stream_id = "64 word"

definition CONTROL_STREAM :: stream_id where "CONTROL_STREAM = 0"

text \<open>A stream is a handle of the multiplexer or a sealed stream of its own.\<close>

datatype 't stream_backend = MuxBackend nat | QuicBackend "'t quic_stream"

definition stream_id_of :: "mux \<Rightarrow> 't stream_backend \<Rightarrow> stream_id" where
  "stream_id_of mx b =
     (case b of
        MuxBackend e \<Rightarrow> ucast (en_id (mx_ends mx ! e))
      | QuicBackend q \<Rightarrow> qs_id q)"

lemma control_stream_either_way:
  "ucast CONTROL_CHANNEL = CONTROL_STREAM" "first_channel Initiator = CONTROL_CHANNEL"
  by (simp_all add: CONTROL_CHANNEL_def CONTROL_STREAM_def)

end
