(* ===== verification/MuxBound.thy ===== *)
theory MuxBound
  imports Mux
begin

text \<open>
  What a hostile peer can make the multiplexer hold.  Every operation of \<open>Mux\<close> is one step on its
  state; the bytes of a segment are arbitrary.
\<close>

section \<open>Steps\<close>

datatype mux_op =
    OpOpen
  | OpSend nat bytes
  | OpRecv nat
  | OpAccept
  | OpDropSend nat
  | OpDropRecv nat
  | OpFinish nat
  | OpClose
  | OpPeer bytes
  | OpWrite
  | OpFail transport_error

text \<open>
  A handle is used only while it is held.  A segment that is refused ends the reader, which shuts
  the connection down.
\<close>

fun mux_step :: "mux \<Rightarrow> mux_op \<Rightarrow> mux" where
  "mux_step mx OpOpen = fst (open_local mx)"
| "mux_step mx (OpSend e chunk) =
     (if e < length (mx_ends mx) \<and> en_send_half (mx_ends mx ! e) then fst (send_chunk mx e chunk) else mx)"
| "mux_step mx (OpRecv e) =
     (if e < length (mx_ends mx) \<and> en_recv_half (mx_ends mx ! e) then fst (mux_recv mx e) else mx)"
| "mux_step mx OpAccept = fst (accept_bi mx)"
| "mux_step mx (OpDropSend e) =
     (if e < length (mx_ends mx) \<and> en_send_half (mx_ends mx ! e) then drop_send mx e else mx)"
| "mux_step mx (OpDropRecv e) =
     (if e < length (mx_ends mx) \<and> en_recv_half (mx_ends mx ! e) then drop_recv mx e else mx)"
| "mux_step mx (OpFinish e) =
     (if e < length (mx_ends mx) \<and> en_send_half (mx_ends mx ! e) then mux_finish mx e else mx)"
| "mux_step mx OpClose = mux_close mx"
| "mux_step mx (OpPeer sg) =
     (case handle_segment mx sg of
        (mx', Inl e) \<Rightarrow> shutdown mx' (Some e)
      | (mx', Inr _) \<Rightarrow> mx')"
| "mux_step mx OpWrite = fst (take_next mx)"
| "mux_step mx (OpFail e) = shutdown mx (Some e)"

fun mux_run :: "mux \<Rightarrow> mux_op list \<Rightarrow> mux" where
  "mux_run mx [] = mx"
| "mux_run mx (op # ops) = mux_run (mux_step mx op) ops"

text \<open>
  The id that a step may open, and the one thing the bound needs of the application: it does not
  leave frames of a closed channel unread until that channel's id, forgotten after \<open>RETIRED_MEMORY\<close>
  later ones, is opened again.
\<close>

fun opens_id :: "mux \<Rightarrow> mux_op \<Rightarrow> channel_id option" where
  "opens_id mx OpOpen = Some (mx_next_local mx)"
| "opens_id mx (OpPeer sg) =
     (if SEGMENT_HEADER_LEN \<le> length sg \<and> sg ! 4 = KIND_OPEN
      then Some (word_of_nat (be_nat [sg ! 0, sg ! 1, sg ! 2, sg ! 3])) else None)"
| "opens_id mx _ = None"

definition reuses_id :: "mux \<Rightarrow> mux_op \<Rightarrow> bool" where
  "reuses_id mx op =
     (case opens_id mx op of
        None \<Rightarrow> False
      | Some c \<Rightarrow> RBT.lookup (mx_channels mx) c = None \<and>
          list_ex (\<lambda>en. en_id en = c \<and> en_queue en \<noteq> []) (mx_ends mx))"

fun never_reuses :: "mux \<Rightarrow> mux_op list \<Rightarrow> bool" where
  "never_reuses mx [] = True"
| "never_reuses mx (op # ops) \<longleftrightarrow> \<not> reuses_id mx op \<and> never_reuses (mux_step mx op) ops"

section \<open>The invariant\<close>

definition chan_ok :: "mux_config \<Rightarrow> stream_end list \<Rightarrow> channel_id \<Rightarrow> channel_state \<Rightarrow> bool" where
  "chan_ok cfg ens c st \<longleftrightarrow>
     ch_end st < length ens \<and> en_id (ens ! ch_end st) = c \<and>
     en_permits (ens ! ch_end st) \<le> mc_initial_window cfg \<and>
     ch_unacked st \<le> mc_initial_window cfg \<and>
     length (ch_assembler st) < HEADER_LEN + mc_max_frame_len cfg \<and>
     length (ch_assembler st) + queued (ens ! ch_end st) \<le> ch_unacked st \<and>
     (\<forall>e < length ens. en_id (ens ! e) = c \<and> en_queue (ens ! e) \<noteq> [] \<longrightarrow> e = ch_end st)"

lemma chan_okI:
  assumes "ch_end st < length ens" and "en_id (ens ! ch_end st) = c"
    and "en_permits (ens ! ch_end st) \<le> mc_initial_window cfg" and "ch_unacked st \<le> mc_initial_window cfg"
    and "length (ch_assembler st) < HEADER_LEN + mc_max_frame_len cfg"
    and "length (ch_assembler st) + queued (ens ! ch_end st) \<le> ch_unacked st"
    and "\<And>e. e < length ens \<Longrightarrow> en_id (ens ! e) = c \<Longrightarrow> en_queue (ens ! e) \<noteq> [] \<Longrightarrow> e = ch_end st"
  shows "chan_ok cfg ens c st"
  using assms unfolding chan_ok_def by blast

lemma chan_okD:
  assumes "chan_ok cfg ens c st"
  shows "ch_end st < length ens" "en_id (ens ! ch_end st) = c"
    "en_permits (ens ! ch_end st) \<le> mc_initial_window cfg" "ch_unacked st \<le> mc_initial_window cfg"
    "length (ch_assembler st) < HEADER_LEN + mc_max_frame_len cfg"
    "length (ch_assembler st) + queued (ens ! ch_end st) \<le> ch_unacked st"
  using assms unfolding chan_ok_def by blast+

lemma chan_ok_unread:
  assumes "chan_ok cfg ens c st" and "e < length ens" and "en_id (ens ! e) = c" and "en_queue (ens ! e) \<noteq> []"
  shows "e = ch_end st"
  using assms unfolding chan_ok_def by blast

definition retired_ok :: "channel_id set \<Rightarrow> channel_id list \<Rightarrow> bool" where
  "retired_ok ids order \<longleftrightarrow> distinct order \<and> set order = ids \<and> length order \<le> RETIRED_MEMORY"

definition mux_ok :: "mux \<Rightarrow> bool" where
  "mux_ok mx \<longleftrightarrow>
     (\<forall>c st. RBT.lookup (mx_channels mx) c = Some st \<longrightarrow> chan_ok (mx_cfg mx) (mx_ends mx) c st) \<and>
     mux_len mx \<le> mc_max_channels (mx_cfg mx) \<and> retired_ok (mx_retired mx) (mx_retired_order mx)"

lemma mux_okD:
  "mux_ok mx \<Longrightarrow> RBT.lookup (mx_channels mx) c = Some st \<Longrightarrow> chan_ok (mx_cfg mx) (mx_ends mx) c st"
  by (simp add: mux_ok_def)

text \<open>Fields that the invariant does not mention.\<close>

lemma mux_ok_irrelevant [simp]:
  "mux_ok (mx\<lparr>mx_next_local := n\<rparr>) = mux_ok mx"
  "mux_ok (mx\<lparr>mx_urgent := u\<rparr>) = mux_ok mx"
  "mux_ok (mx\<lparr>mx_out := q\<rparr>) = mux_ok mx"
  "mux_ok (mx\<lparr>mx_cursor := k\<rparr>) = mux_ok mx"
  "mux_ok (mx\<lparr>mx_accept_queue := a\<rparr>) = mux_ok mx"
  "mux_ok (enqueue c sgs mx) = mux_ok mx"
  by (simp_all add: mux_ok_def mux_len_def enqueue_def)

lemma mux_ok_put:
  assumes ok: "mux_ok mx" and new: "chan_ok (mx_cfg mx) ens' c st'"
    and old: "\<And>d st. RBT.lookup (mx_channels mx) d = Some st \<Longrightarrow> d \<noteq> c \<Longrightarrow> chan_ok (mx_cfg mx) ens' d st"
    and room: "RBT.lookup (mx_channels mx) c \<noteq> None \<or> mux_len mx < mc_max_channels (mx_cfg mx)"
  shows "mux_ok (mx\<lparr>mx_channels := RBT.insert c st' (mx_channels mx), mx_ends := ens'\<rparr>)"
proof -
  have "chan_ok (mx_cfg mx) ens' d st" if "((RBT.lookup (mx_channels mx))(c \<mapsto> st')) d = Some st" for d st
    using that new old [of d st] by (simp split: if_splits)
  moreover have "length (RBT.keys (RBT.insert c st' (mx_channels mx))) \<le> mc_max_channels (mx_cfg mx)"
    using ok room by (auto simp: mux_len_insert mux_ok_def mux_len_def)
  ultimately show ?thesis
    using ok by (simp add: mux_ok_def mux_len_def del: fun_upd_apply)
qed

lemma mux_update_order [simp]:
  "mx\<lparr>mx_ends := ens, mx_channels := chs\<rparr> = mx\<lparr>mx_channels := chs, mx_ends := ens\<rparr>"
  by simp

text \<open>An object that only loses: credit, frames, or its halves.\<close>

definition no_more :: "mux_config \<Rightarrow> stream_end \<Rightarrow> stream_end \<Rightarrow> bool" where
  "no_more cfg en en' \<longleftrightarrow>
     en_id en' = en_id en \<and> (en_permits en' \<le> en_permits en \<or> en_permits en' \<le> mc_initial_window cfg) \<and>
     queued en' \<le> queued en \<and> (en_queue en' \<noteq> [] \<longrightarrow> en_queue en \<noteq> [])"

lemma chan_ok_no_more:
  assumes ok: "chan_ok cfg ens c st" and less: "no_more cfg (ens ! e) en'"
  shows "chan_ok cfg (ens[e := en']) c st"
proof (cases "e < length ens")
  case True
  have same: "en_id (ens[e := en'] ! i) = en_id (ens ! i)" for i
    using less True by (cases "i = e") (simp_all add: no_more_def)
  have unread: "en_queue (ens[e := en'] ! i) \<noteq> [] \<Longrightarrow> en_queue (ens ! i) \<noteq> []" for i
    using less True by (cases "i = e") (simp_all add: no_more_def)
  have "queued (ens[e := en'] ! i) \<le> queued (ens ! i)" for i
    using less True by (cases "i = e") (simp_all add: no_more_def)
  then have "length (ch_assembler st) + queued (ens[e := en'] ! ch_end st) \<le> ch_unacked st"
    using chan_okD(6) [OF ok] by (meson add_left_mono le_trans)
  moreover have "en_permits (ens[e := en'] ! ch_end st) \<le> mc_initial_window cfg"
    using less chan_okD(3) [OF ok] True by (cases "ch_end st = e") (auto simp: no_more_def)
  ultimately show ?thesis
  proof (intro chan_okI)
    fix i assume "i < length (ens[e := en'])" "en_id (ens[e := en'] ! i) = c" "en_queue (ens[e := en'] ! i) \<noteq> []"
    then show "i = ch_end st"
      using chan_ok_unread [OF ok, of i] unread [of i] same [of i] by simp
  qed (use chan_okD [OF ok] in \<open>simp_all add: same\<close>)
qed (use ok in \<open>simp add: list_update_beyond\<close>)

lemma mux_ok_no_more:
  "mux_ok mx \<Longrightarrow> no_more (mx_cfg mx) (mx_ends mx ! e) (f (mx_ends mx ! e)) \<Longrightarrow> mux_ok (update_end e f mx)"
  by (auto simp: mux_ok_def mux_len_def update_end_def intro!: chan_ok_no_more)

lemma mux_ok_delete: "mux_ok mx \<Longrightarrow> mux_ok (mx\<lparr>mx_channels := RBT.delete c (mx_channels mx)\<rparr>)"
  using mux_len_delete [of c "mx_channels mx"] by (auto simp: mux_ok_def mux_len_def)

text \<open>The memory of retired ids.\<close>

lemma forget_oldest_ok:
  assumes "distinct order" and "set order = ids" and "forget_oldest ids order = (ids', order')"
  shows "retired_ok ids' order'"
  using assms
proof (induction ids order rule: forget_oldest.induct)
  case (1 ids)
  then show ?case by (simp add: retired_ok_def)
next
  case (2 ids old rest)
  show ?case
  proof (cases "length (old # rest) > RETIRED_MEMORY")
    case True
    with 2 show ?thesis by auto
  next
    case False
    with "2.prems" show ?thesis by (auto simp: retired_ok_def)
  qed
qed

lemma mux_ok_retire: "mux_ok mx \<Longrightarrow> mux_ok (retire c mx)"
proof -
  assume ok: "mux_ok mx"
  obtain ids order where f: "forget_oldest (insert c (mx_retired mx)) (mx_retired_order mx @ [c]) = (ids, order)"
    by fastforce
  have "c \<notin> mx_retired mx \<Longrightarrow> retired_ok ids order"
    using ok forget_oldest_ok [OF _ _ f] by (simp add: mux_ok_def retired_ok_def)
  with ok show "mux_ok (retire c mx)"
    by (auto simp: retire_def f mux_ok_def mux_len_def)
qed

lemma mux_ok_shutdown: "mux_ok mx \<Longrightarrow> mux_ok (shutdown mx err)"
  by (simp add: shutdown_def mux_ok_def mux_len_def)

text \<open>Shutting down does not need the channels to be in order.\<close>

lemma mux_ok_shutdown_any:
  "retired_ok (mx_retired mx) (mx_retired_order mx) \<Longrightarrow> \<not> mx_closed mx \<Longrightarrow> mux_ok (shutdown mx err)"
  by (simp add: shutdown_def mux_ok_def mux_len_def)

section \<open>Every step keeps it\<close>

lemma mux_ok_close_channel: "mux_ok mx \<Longrightarrow> mux_ok (close_channel mx c)"
  by (auto simp: close_channel_def no_more_def intro!: mux_ok_retire mux_ok_no_more mux_ok_delete
      split: option.split)

lemma mux_ok_drop_guard: "mux_ok mx \<Longrightarrow> mux_ok (drop_guard mx e)"
  by (simp add: drop_guard_def Let_def mux_ok_close_channel)

lemma mux_ok_drop_send: "mux_ok mx \<Longrightarrow> mux_ok (drop_send mx e)"
  unfolding drop_send_def by (intro mux_ok_drop_guard mux_ok_no_more) (simp_all add: no_more_def)

lemma mux_ok_drop_recv: "mux_ok mx \<Longrightarrow> mux_ok (drop_recv mx e)"
  unfolding drop_recv_def by (intro mux_ok_drop_guard mux_ok_no_more) (simp_all add: no_more_def)

lemma mux_ok_finish: "mux_ok mx \<Longrightarrow> mux_ok (mux_finish mx e)"
  unfolding mux_finish_def by (intro mux_ok_drop_send mux_ok_close_channel)

lemma mux_ok_send: "mux_ok mx \<Longrightarrow> mux_ok (fst (send_chunk mx e chunk))"
  by (auto simp: send_chunk_def push_data_def Let_def no_more_def intro!: mux_ok_no_more)

lemma mux_ok_take: "mux_ok mx \<Longrightarrow> mux_ok (fst (take_next mx))"
  by (auto simp: take_next_def Let_def split: list.splits option.splits)

lemma mux_ok_accept: "mux_ok mx \<Longrightarrow> mux_ok (fst (accept_bi mx))"
  by (simp add: accept_bi_def split: list.split)

lemma mux_ok_insert:
  assumes ok: "mux_ok mx" and room: "mux_len mx < mc_max_channels (mx_cfg mx)"
    and new: "RBT.lookup (mx_channels mx) c = None"
    and unused: "\<not> list_ex (\<lambda>en. en_id en = c \<and> en_queue en \<noteq> []) (mx_ends mx)"
  shows "mux_ok (fst (insert_channel mx c))"
proof -
  let ?en = "\<lparr>en_id = c, en_permits = mux_window mx, en_sem_closed = False, en_queue = [],
      en_tx = True, en_send_half = True, en_recv_half = True\<rparr>"
  let ?st = "\<lparr>ch_end = length (mx_ends mx), ch_inbound = True, ch_assembler = [], ch_unacked = 0\<rparr>"
  let ?ens = "mx_ends mx @ [?en]"
  have at: "?ens ! i = (if i < length (mx_ends mx) then mx_ends mx ! i else ?en)"
    if "i < length ?ens" for i
    using that by (simp add: nth_append)
  have old: "chan_ok (mx_cfg mx) ?ens d st" if d: "chan_ok (mx_cfg mx) (mx_ends mx) d st" for d st
  proof (rule chan_okI)
    fix i assume "i < length ?ens" "en_id (?ens ! i) = d" "en_queue (?ens ! i) \<noteq> []"
    then show "i = ch_end st"
      using chan_ok_unread [OF d, of i] at [of i] by (simp split: if_splits)
  qed (use chan_okD [OF d] in \<open>simp_all add: nth_append\<close>)
  have "chan_ok (mx_cfg mx) ?ens c ?st"
  proof (rule chan_okI)
    fix i assume i: "i < length ?ens" "en_id (?ens ! i) = c" "en_queue (?ens ! i) \<noteq> []"
    then have "\<not> i < length (mx_ends mx)"
      using unused by (auto simp: nth_append list_ex_iff)
    with i show "i = ch_end ?st" by (simp split: if_splits)
  qed (simp_all add: mux_window_def HEADER_LEN_def)
  then have "mux_ok (mx\<lparr>mx_channels := RBT.insert c ?st (mx_channels mx), mx_ends := ?ens\<rparr>)"
    using ok room old by (intro mux_ok_put) (auto dest: mux_okD)
  then show ?thesis
    by (simp add: insert_channel_def Let_def)
qed

lemma mux_ok_open:
  assumes "mux_ok mx" and "\<not> reuses_id mx OpOpen"
  shows "mux_ok (fst (open_local mx))"
proof -
  have "mux_ok (fst (insert_channel (mx\<lparr>mx_next_local := n\<rparr>) (mx_next_local mx)))"
    if "RBT.lookup (mx_channels mx) (mx_next_local mx) = None" "mux_len mx < mc_max_channels (mx_cfg mx)" for n
    using assms that by (intro mux_ok_insert) (simp_all add: reuses_id_def mux_len_def)
  with assms(1) show ?thesis
    by (auto simp: open_local_def Let_def case_prod_beta mux_len_def)
qed

lemma chan_ok_store:
  assumes ok: "chan_ok cfg ens c st" and e: "ch_end st2 = ch_end st" and id: "en_id en2 = c"
    and "en_permits en2 = en_permits (ens ! ch_end st)"
    and "length (ch_assembler st2) + queued en2 \<le> ch_unacked st2" and "ch_unacked st2 \<le> mc_initial_window cfg"
    and "length (ch_assembler st2) < HEADER_LEN + mc_max_frame_len cfg"
  shows "chan_ok cfg (ens[ch_end st := en2]) c st2"
proof (rule chan_okI)
  fix i assume i: "i < length (ens[ch_end st := en2])" "en_id (ens[ch_end st := en2] ! i) = c"
    "en_queue (ens[ch_end st := en2] ! i) \<noteq> []"
  show "i = ch_end st2"
  proof (rule ccontr)
    assume "i \<noteq> ch_end st2"
    with i e have "i < length ens" "en_id (ens ! i) = c" "en_queue (ens ! i) \<noteq> []"
      by simp_all
    from chan_ok_unread [OF ok this] e \<open>i \<noteq> ch_end st2\<close> show False by simp
  qed
qed (use assms chan_okD [OF ok] in simp_all)

lemma chan_ok_other:
  assumes ok: "chan_ok cfg ens d st" and ne: "en_id (ens ! e) \<noteq> d" and id: "en_id en2 = en_id (ens ! e)"
  shows "chan_ok cfg (ens[e := en2]) d st"
proof (cases "e < length ens")
  case True
  have "ch_end st \<noteq> e"
    using ne chan_okD(2) [OF ok] by blast
  show ?thesis
  proof (rule chan_okI)
    fix i assume "i < length (ens[e := en2])" "en_id (ens[e := en2] ! i) = d"
      "en_queue (ens[e := en2] ! i) \<noteq> []"
    then show "i = ch_end st"
      using chan_ok_unread [OF ok, of i] ne id True by (cases "i = e") simp_all
  qed (use chan_okD [OF ok] \<open>ch_end st \<noteq> e\<close> in simp_all)
qed (use ok in \<open>simp add: list_update_beyond\<close>)

lemma mux_ok_recv:
  assumes ok: "mux_ok mx" and e: "e < length (mx_ends mx)"
  shows "mux_ok (fst (mux_recv mx e))"
proof (cases "en_queue (mx_ends mx ! e)")
  case Nil
  with ok show ?thesis by (simp add: mux_recv_def)
next
  case (Cons fr rest)
  let ?en = "mx_ends mx ! e"
  let ?c = "en_id ?en"
  let ?ens = "(mx_ends mx)[e := ?en\<lparr>en_queue := rest\<rparr>]"
  have less: "no_more (mx_cfg mx) ?en (?en\<lparr>en_queue := rest\<rparr>)"
    using Cons by (simp add: no_more_def queued_def)
  have "chan_ok (mx_cfg mx) ?ens ?c (st\<lparr>ch_unacked := ch_unacked st - wire_len fr\<rparr>)"
    if st: "RBT.lookup (mx_channels mx) ?c = Some st" for st
  proof -
    have c: "chan_ok (mx_cfg mx) (mx_ends mx) ?c st"
      using ok st by (rule mux_okD)
    with e Cons have here: "e = ch_end st"
      using chan_ok_unread [OF c, of e] by simp
    have "length (ch_assembler st) + (wire_len fr + sum_list (map wire_len rest)) \<le> ch_unacked st"
      using chan_okD(6) [OF c] Cons here by (simp add: queued_def)
    moreover have "queued (?en\<lparr>en_queue := rest\<rparr>) = sum_list (map wire_len rest)"
      by (simp add: queued_def)
    ultimately show ?thesis
      using here chan_okD [OF c] chan_ok_store [OF c, of "st\<lparr>ch_unacked := ch_unacked st - wire_len fr\<rparr>"
          "?en\<lparr>en_queue := rest\<rparr>"] by simp
  qed
  moreover have "chan_ok (mx_cfg mx) ?ens d st" if "RBT.lookup (mx_channels mx) d = Some st" for d st
    using chan_ok_no_more [OF mux_okD [OF ok that] less] .
  ultimately have "mux_ok (mx\<lparr>mx_channels := RBT.insert ?c (st\<lparr>ch_unacked := ch_unacked st - wire_len fr\<rparr>)
      (mx_channels mx), mx_ends := ?ens\<rparr>)" if "RBT.lookup (mx_channels mx) ?c = Some st" for st
    using ok that by (intro mux_ok_put) auto
  moreover have "mux_ok (update_end e (\<lambda>en. en\<lparr>en_queue := rest\<rparr>) mx)"
    using ok less by (intro mux_ok_no_more)
  ultimately show ?thesis
    using Cons by (simp add: mux_recv_def Let_def return_credit_def update_end_def split: option.split)
qed

lemma mux_ok_store:
  assumes ok: "mux_ok mx" and st: "RBT.lookup (mx_channels mx) c = Some st"
    and e: "ch_end st2 = ch_end st"
    and new: "chan_ok (mx_cfg mx) ((mx_ends mx)[ch_end st := en2]) c st2"
  shows "mux_ok (store_channel c st2 en2 mx)"
proof -
  note c = mux_okD [OF ok st]
  have id: "en_id (mx_ends mx ! ch_end st) = c"
    by (rule chan_okD(2) [OF c])
  have "en_id en2 = c"
    using chan_okD(1) [OF c] chan_okD(2) [OF new] e by simp
  then have "chan_ok (mx_cfg mx) ((mx_ends mx)[ch_end st := en2]) d s"
    if "RBT.lookup (mx_channels mx) d = Some s" "d \<noteq> c" for d s
    using mux_okD [OF ok that(1)] that(2) id by (intro chan_ok_other) simp_all
  with ok st new show ?thesis
    unfolding store_channel_def e by (intro mux_ok_put) simp_all
qed

lemma mux_ok_peer_data:
  assumes ok: "mux_ok mx"
  shows "case peer_data mx c body of (mx', Inl e) \<Rightarrow> mux_ok (shutdown mx' (Some e)) | (mx', Inr _) \<Rightarrow> mux_ok mx'"
proof (cases "body = [] \<or> mx_closed mx \<or> c \<in> mx_retired mx")
  case True
  with ok show ?thesis by (auto simp: peer_data_def)
next
  case False
  have dead: "mux_ok (shutdown (store_channel c st en mx) err)" for st en err
    using ok False by (intro mux_ok_shutdown_any) (auto simp: store_channel_def mux_ok_def)
  show ?thesis
  proof (cases "RBT.lookup (mx_channels mx) c")
    case None
    with False ok show ?thesis by (simp add: peer_data_def mux_ok_shutdown)
  next
    case (Some st)
    let ?en = "mx_ends mx ! ch_end st"
    let ?asm = "ch_assembler st @ body" and ?n = "ch_unacked st + length body"
    show ?thesis
    proof (cases "?n > mux_window mx")
      case True
      with Some False dead show ?thesis by (simp add: peer_data_def)
    next
      case fits: False
      obtain st2 en2 r where d: "deliver_frames (mc_max_frame_len (mx_cfg mx))
          (st\<lparr>ch_unacked := ?n, ch_assembler := ?asm\<rparr>) ?en 0 = (st2, en2, r)"
        by (cases "deliver_frames (mc_max_frame_len (mx_cfg mx)) (st\<lparr>ch_unacked := ?n, ch_assembler := ?asm\<rparr>) ?en 0")
      show ?thesis
      proof (cases r)
        case (Inl e)
        with Some False fits d dead show ?thesis by (simp add: peer_data_def)
      next
        case (Inr refund)
        note del = deliver_frames_Inr [OF d [unfolded Inr]]
        have c: "chan_ok (mx_cfg mx) (mx_ends mx) c st"
          using ok Some by (rule mux_okD)
        have "chan_ok (mx_cfg mx) ((mx_ends mx)[ch_end st := en2]) c
            (st2\<lparr>ch_unacked := ch_unacked st2 - refund\<rparr>)"
          using c del fits by (intro chan_ok_store [OF c]) (auto simp: chan_ok_def same_handle_def mux_window_def)
        then have "mux_ok (store_channel c (st2\<lparr>ch_unacked := ch_unacked st2 - refund\<rparr>) en2 mx)"
          using ok Some del by (intro mux_ok_store) simp_all
        moreover have "st2\<lparr>ch_unacked := ch_unacked st2 - refund\<rparr> = st2" if "refund = 0"
          using that by simp
        ultimately show ?thesis
          using Some False fits d Inr by (auto simp: peer_data_def Let_def)
      qed
    qed
  qed
qed

lemma mux_ok_peer_window:
  assumes ok: "mux_ok mx"
  shows "mux_ok (fst (peer_window mx c body))"
proof -
  have "no_more (mx_cfg mx) en (en\<lparr>en_permits := p\<rparr>)" if "p \<le> mux_window mx" for en :: stream_end and p
    using that by (simp add: no_more_def mux_window_def)
  with ok show ?thesis
    by (auto simp: peer_window_def Let_def intro!: mux_ok_no_more split: option.split)
qed

lemma mux_ok_peer_reset: "mux_ok mx \<Longrightarrow> mux_ok (peer_reset mx c)"
  by (auto simp: peer_reset_def Let_def no_more_def intro!: mux_ok_retire mux_ok_no_more mux_ok_delete
      split: option.split)

lemma mux_ok_peer_open:
  assumes "mux_ok mx"
    and "RBT.lookup (mx_channels mx) c = None \<Longrightarrow> \<not> list_ex (\<lambda>en. en_id en = c \<and> en_queue en \<noteq> []) (mx_ends mx)"
  shows "mux_ok (fst (peer_open mx c))"
proof -
  have "mux_ok (fst (insert_channel mx c))"
    if "RBT.lookup (mx_channels mx) c = None" "mux_len mx < mc_max_channels (mx_cfg mx)"
    using assms that by (intro mux_ok_insert) simp_all
  with assms(1) show ?thesis
    by (auto simp: peer_open_def Let_def case_prod_beta intro!: mux_ok_drop_recv mux_ok_drop_send)
qed

lemma mux_step_ok:
  assumes ok: "mux_ok mx" and fresh: "\<not> reuses_id mx op"
  shows "mux_ok (mux_step mx op)"
proof (cases op)
  case (OpPeer sg)
  show ?thesis
  proof (cases "length sg < SEGMENT_HEADER_LEN")
    case True
    with OpPeer ok show ?thesis by (simp add: handle_segment_def mux_ok_shutdown)
  next
    case False
    let ?c = "word_of_nat (be_nat [sg ! 0, sg ! 1, sg ! 2, sg ! 3]) :: channel_id"
    have step: "mux_ok (case r of (mx', Inl e) \<Rightarrow> shutdown mx' (Some e) | (mx', Inr _) \<Rightarrow> mx')"
      if "mux_ok (fst r)" for r :: "mux \<times> (transport_error, unit) result"
      using that by (auto simp: mux_ok_shutdown split: prod.split sum.split)
    have "mux_ok (fst (peer_open mx ?c))" if "sg ! 4 = KIND_OPEN"
      using ok fresh OpPeer False that
      by (intro mux_ok_peer_open) (auto simp: reuses_id_def)
    moreover have "mux_ok (case peer_data mx ?c (drop SEGMENT_HEADER_LEN sg) of
        (mx', Inl e) \<Rightarrow> shutdown mx' (Some e) | (mx', Inr _) \<Rightarrow> mx')"
      using mux_ok_peer_data [OF ok, of ?c "drop SEGMENT_HEADER_LEN sg"]
      by (auto split: prod.splits sum.splits)
    ultimately show ?thesis
      using OpPeer False ok step mux_ok_peer_window [OF ok] mux_ok_peer_reset [OF ok]
      by (simp add: handle_segment_def Let_def mux_ok_shutdown)
  qed
qed (use ok fresh in \<open>auto simp: mux_close_def intro: mux_ok_open mux_ok_send mux_ok_recv mux_ok_accept
    mux_ok_drop_send mux_ok_drop_recv mux_ok_finish mux_ok_shutdown mux_ok_take\<close>)

lemma mux_run_ok: "mux_ok mx \<Longrightarrow> never_reuses mx ops \<Longrightarrow> mux_ok (mux_run mx ops)"
  by (induction ops arbitrary: mx) (simp_all add: mux_step_ok)

lemma mux_start_ok: "mux_ok (mux_start r cfg)"
  by (simp add: mux_ok_def mux_start_def mux_len_def retired_ok_def)


section \<open>Everything that is held\<close>

text \<open>
  The frames that nobody has read, in the streams of closed channels too; and the unfinished frames.
\<close>

definition unread :: "mux \<Rightarrow> nat" where
  "unread mx = sum_list (map queued (mx_ends mx))"

definition over_channels :: "(channel_state \<Rightarrow> nat) \<Rightarrow> (channel_id, channel_state) RBT.rbt \<Rightarrow> nat" where
  "over_channels g t = (\<Sum>c \<in> dom (RBT.lookup t). g (the (RBT.lookup t c)))"

definition unfinished :: "mux \<Rightarrow> nat" where
  "unfinished mx = over_channels (\<lambda>st. length (ch_assembler st)) (mx_channels mx)"

lemma over_channels_empty [simp]: "over_channels g RBT.empty = 0"
  by (simp add: over_channels_def)

lemma over_channels_rest: "finite (dom (RBT.lookup t))"
  by simp

lemma over_channels_at:
  assumes "RBT.lookup t c = Some st"
  shows "over_channels g t = g st + (\<Sum>d \<in> dom (RBT.lookup t) - {c}. g (the (RBT.lookup t d)))"
  unfolding over_channels_def using assms by (subst sum.remove [of _ c]) auto

lemma over_channels_insert:
  "over_channels g (RBT.insert c st t) = g st + (\<Sum>d \<in> dom (RBT.lookup t) - {c}. g (the (RBT.lookup t d)))"
proof -
  have "RBT.lookup (RBT.insert c st t) c = Some st" by simp
  note over_channels_at [OF this, of g]
  also have "dom (RBT.lookup (RBT.insert c st t)) - {c} = dom (RBT.lookup t) - {c}" by auto
  finally show ?thesis by simp
qed

lemma over_channels_new:
  "RBT.lookup t c = None \<Longrightarrow> over_channels g (RBT.insert c st t) = g st + over_channels g t"
  unfolding over_channels_insert by (simp add: over_channels_def domIff)

lemma over_channels_delete:
  "over_channels g (RBT.delete c t) = (\<Sum>d \<in> dom (RBT.lookup t) - {c}. g (the (RBT.lookup t d)))"
  unfolding over_channels_def by (rule sum.cong) auto

lemma over_channels_delete_le: "over_channels g (RBT.delete c t) \<le> over_channels g t"
  unfolding over_channels_delete unfolding over_channels_def by (rule sum_mono2) auto

lemma over_channels_mono: "(\<And>st. g st \<le> h st) \<Longrightarrow> over_channels g t \<le> over_channels h t"
  unfolding over_channels_def by (rule sum_mono)

lemma unread_update:
  assumes "e < length ens"
  shows "sum_list (map queued (ens[e := en])) + queued (ens ! e) = sum_list (map queued ens) + queued en"
  using assms
proof (induction ens arbitrary: e)
  case (Cons x xs)
  then show ?case by (cases e) fastforce+
qed simp

text \<open>
  What a channel still lets the other side send counts as held already: so a channel costs one window
  when it is opened, reading gives as much back as it takes, and nothing else adds to the sum.
\<close>

definition reserved :: "mux \<Rightarrow> nat" where
  "reserved mx = unread mx +
     over_channels (\<lambda>st. length (ch_assembler st) + (mux_window mx - ch_unacked st)) (mx_channels mx)"

definition memory_ok :: "mux \<Rightarrow> bool" where
  "memory_ok mx \<longleftrightarrow>
     (\<forall>c st. RBT.lookup (mx_channels mx) c = Some st \<longrightarrow>
        ch_end st < length (mx_ends mx) \<and> en_permits (mx_ends mx ! ch_end st) \<le> mux_window mx \<and>
        ch_unacked st \<le> mux_window mx \<and> length (ch_assembler st) < HEADER_LEN + mc_max_frame_len (mx_cfg mx)) \<and>
     mux_len mx \<le> mc_max_channels (mx_cfg mx) \<and> retired_ok (mx_retired mx) (mx_retired_order mx) \<and>
     reserved mx \<le> length (mx_ends mx) * mux_window mx"

lemma memory_okD:
  assumes "memory_ok mx" and "RBT.lookup (mx_channels mx) c = Some st"
  shows "ch_end st < length (mx_ends mx)" "en_permits (mx_ends mx ! ch_end st) \<le> mux_window mx"
    "ch_unacked st \<le> mux_window mx" "length (ch_assembler st) < HEADER_LEN + mc_max_frame_len (mx_cfg mx)"
  using assms unfolding memory_ok_def by blast+

lemma memory_ok_reserved: "memory_ok mx \<Longrightarrow> reserved mx \<le> length (mx_ends mx) * mux_window mx"
  by (simp add: memory_ok_def)

lemma memory_ok_irrelevant [simp]:
  "memory_ok (mx\<lparr>mx_next_local := n\<rparr>) = memory_ok mx"
  "memory_ok (mx\<lparr>mx_urgent := u\<rparr>) = memory_ok mx"
  "memory_ok (mx\<lparr>mx_out := q\<rparr>) = memory_ok mx"
  "memory_ok (mx\<lparr>mx_cursor := k\<rparr>) = memory_ok mx"
  "memory_ok (mx\<lparr>mx_accept_queue := a\<rparr>) = memory_ok mx"
  "memory_ok (enqueue c sgs mx) = memory_ok mx"
  by (simp_all add: memory_ok_def mux_len_def reserved_def unread_def mux_window_def enqueue_def)

lemma memory_ok_no_more:
  assumes ok: "memory_ok mx" and less: "no_more (mx_cfg mx) (mx_ends mx ! e) (f (mx_ends mx ! e))"
  shows "memory_ok (update_end e f mx)"
proof (cases "e < length (mx_ends mx)")
  case True
  let ?en = "f (mx_ends mx ! e)" and ?ens = "(mx_ends mx)[e := f (mx_ends mx ! e)]"
  have permits: "en_permits (?ens ! i) \<le> mux_window mx" if "en_permits (mx_ends mx ! i) \<le> mux_window mx" for i
    using that less True by (cases "i = e") (auto simp: no_more_def mux_window_def)
  have "sum_list (map queued ?ens) \<le> unread mx"
    using unread_update [OF True, of ?en] less by (simp add: unread_def no_more_def)
  with ok permits show ?thesis
    by (auto simp: memory_ok_def reserved_def unread_def mux_window_def mux_len_def update_end_def)
qed (use ok in \<open>simp add: update_end_def list_update_beyond\<close>)

lemma memory_ok_delete: "memory_ok mx \<Longrightarrow> memory_ok (mx\<lparr>mx_channels := RBT.delete c (mx_channels mx)\<rparr>)"
  using mux_len_delete [of c "mx_channels mx"]
    over_channels_delete_le [of "\<lambda>st. length (ch_assembler st) + (mux_window mx - ch_unacked st)" c "mx_channels mx"]
  by (auto simp: memory_ok_def mux_len_def reserved_def unread_def mux_window_def)

lemma memory_ok_retire: "memory_ok mx \<Longrightarrow> memory_ok (retire c mx)"
proof -
  assume ok: "memory_ok mx"
  obtain ids order where f: "forget_oldest (insert c (mx_retired mx)) (mx_retired_order mx @ [c]) = (ids, order)"
    by fastforce
  have "c \<notin> mx_retired mx \<Longrightarrow> retired_ok ids order"
    using ok forget_oldest_ok [OF _ _ f] by (simp add: memory_ok_def retired_ok_def)
  with ok show "memory_ok (retire c mx)"
    by (auto simp: retire_def f memory_ok_def mux_len_def reserved_def unread_def mux_window_def)
qed

lemma close_ends_keeps: "length (close_ends es ens) = length ens \<and>
    sum_list (map queued (close_ends es ens)) = sum_list (map queued ens)"
proof (induction es arbitrary: ens)
  case (Cons e es)
  let ?ens = "ens[e := (ens ! e)\<lparr>en_tx := False, en_sem_closed := True\<rparr>]"
  have "sum_list (map queued ?ens) = sum_list (map queued ens)"
    using unread_update [of e ens "(ens ! e)\<lparr>en_tx := False, en_sem_closed := True\<rparr>"]
    by (cases "e < length ens") (simp_all add: list_update_beyond)
  with Cons [of ?ens] show ?case by (simp add: close_ends_def)
qed (simp add: close_ends_def)

lemma memory_ok_shutdown_any:
  assumes "retired_ok (mx_retired mx) (mx_retired_order mx)" and "\<not> mx_closed mx"
    and "unread mx \<le> length (mx_ends mx) * mux_window mx"
  shows "memory_ok (shutdown mx err)"
  using assms
  by (simp add: shutdown_def memory_ok_def mux_len_def reserved_def unread_def mux_window_def close_ends_keeps)

lemma memory_ok_shutdown: "memory_ok mx \<Longrightarrow> memory_ok (shutdown mx err)"
  using memory_ok_shutdown_any [of mx err]
  by (cases "mx_closed mx") (auto simp: shutdown_def memory_ok_def reserved_def)

text \<open>The steps.\<close>

lemma memory_ok_close_channel: "memory_ok mx \<Longrightarrow> memory_ok (close_channel mx c)"
  by (auto simp: close_channel_def no_more_def intro!: memory_ok_retire memory_ok_no_more memory_ok_delete
      split: option.split)

lemma memory_ok_drop_guard: "memory_ok mx \<Longrightarrow> memory_ok (drop_guard mx e)"
  by (simp add: drop_guard_def Let_def memory_ok_close_channel)

lemma memory_ok_drop_send: "memory_ok mx \<Longrightarrow> memory_ok (drop_send mx e)"
  unfolding drop_send_def by (intro memory_ok_drop_guard memory_ok_no_more) (simp_all add: no_more_def)

lemma memory_ok_drop_recv: "memory_ok mx \<Longrightarrow> memory_ok (drop_recv mx e)"
  unfolding drop_recv_def by (intro memory_ok_drop_guard memory_ok_no_more) (simp_all add: no_more_def)

lemma memory_ok_finish: "memory_ok mx \<Longrightarrow> memory_ok (mux_finish mx e)"
  unfolding mux_finish_def by (intro memory_ok_drop_send memory_ok_close_channel)

lemma memory_ok_send: "memory_ok mx \<Longrightarrow> memory_ok (fst (send_chunk mx e chunk))"
  by (auto simp: send_chunk_def push_data_def Let_def no_more_def intro!: memory_ok_no_more)

lemma memory_ok_take: "memory_ok mx \<Longrightarrow> memory_ok (fst (take_next mx))"
  by (auto simp: take_next_def Let_def split: list.splits option.splits)

lemma memory_ok_accept: "memory_ok mx \<Longrightarrow> memory_ok (fst (accept_bi mx))"
  by (simp add: accept_bi_def split: list.split)

lemma memory_ok_insert:
  assumes ok: "memory_ok mx" and room: "mux_len mx < mc_max_channels (mx_cfg mx)"
    and new: "RBT.lookup (mx_channels mx) c = None"
  shows "memory_ok (fst (insert_channel mx c))"
proof -
  let ?mx = "fst (insert_channel mx c)"
  have f: "mx_cfg ?mx = mx_cfg mx" "mx_retired ?mx = mx_retired mx" "mx_retired_order ?mx = mx_retired_order mx"
    "mx_channels ?mx = RBT.insert c \<lparr>ch_end = length (mx_ends mx), ch_inbound = True, ch_assembler = [], ch_unacked = 0\<rparr>
       (mx_channels mx)"
    "mx_ends ?mx = mx_ends mx @ [\<lparr>en_id = c, en_permits = mux_window mx, en_sem_closed = False, en_queue = [],
       en_tx = True, en_send_half = True, en_recv_half = True\<rparr>]"
    by (simp_all add: insert_channel_def Let_def)
  have w: "mux_window ?mx = mux_window mx" by (simp add: mux_window_def f)
  have "reserved ?mx = reserved mx + mux_window mx"
    using new by (simp add: reserved_def unread_def f w over_channels_new)
  moreover have "mux_len ?mx \<le> mc_max_channels (mx_cfg mx)"
    using room new by (simp add: mux_len_def f mux_len_insert)
  moreover have "ch_end st < length (mx_ends ?mx) \<and> en_permits (mx_ends ?mx ! ch_end st) \<le> mux_window mx \<and>
      ch_unacked st \<le> mux_window mx \<and> length (ch_assembler st) < HEADER_LEN + mc_max_frame_len (mx_cfg mx)"
    if "RBT.lookup (mx_channels ?mx) d = Some st" for d st
    using that memory_okD [OF ok, of d st] by (auto simp: f nth_append HEADER_LEN_def split: if_splits)
  ultimately show ?thesis
    using ok by (simp add: memory_ok_def f w)
qed

lemma memory_ok_open: "memory_ok mx \<Longrightarrow> memory_ok (fst (open_local mx))"
  using memory_ok_insert [of "mx\<lparr>mx_next_local := mx_next_local mx + 2\<rparr>" "mx_next_local mx"]
  by (auto simp: open_local_def Let_def case_prod_beta mux_len_def)

text \<open>A channel whose state and stream change together.\<close>

lemma memory_ok_store:
  assumes ok: "memory_ok mx" and st: "RBT.lookup (mx_channels mx) c = Some st" and e: "ch_end st2 = ch_end st"
    and i: "i < length (mx_ends mx)" and permits: "en_permits en2 \<le> en_permits (mx_ends mx ! i)"
    and small: "ch_unacked st2 \<le> mux_window mx" "length (ch_assembler st2) < HEADER_LEN + mc_max_frame_len (mx_cfg mx)"
    and held: "queued en2 + length (ch_assembler st2) + (mux_window mx - ch_unacked st2) \<le>
      queued (mx_ends mx ! i) + length (ch_assembler st) + (mux_window mx - ch_unacked st)"
  shows "memory_ok (mx\<lparr>mx_channels := RBT.insert c st2 (mx_channels mx), mx_ends := (mx_ends mx)[i := en2]\<rparr>)"
proof -
  let ?mx = "mx\<lparr>mx_channels := RBT.insert c st2 (mx_channels mx), mx_ends := (mx_ends mx)[i := en2]\<rparr>"
  have w: "mux_window ?mx = mux_window mx" by (simp add: mux_window_def)
  have "reserved ?mx \<le> reserved mx"
    using unread_update [OF i, of en2] held over_channels_at [OF st]
    unfolding reserved_def unread_def w
    by (simp add: over_channels_insert over_channels_at [OF st])
  moreover have "mux_len ?mx = mux_len mx"
    using st by (simp add: mux_len_def mux_len_insert)
  moreover have "ch_end s < length (mx_ends ?mx) \<and> en_permits (mx_ends ?mx ! ch_end s) \<le> mux_window mx \<and>
      ch_unacked s \<le> mux_window mx \<and> length (ch_assembler s) < HEADER_LEN + mc_max_frame_len (mx_cfg mx)"
    if s: "RBT.lookup (mx_channels ?mx) d = Some s" for d s
  proof -
    have old: "en_permits (mx_ends ?mx ! k) \<le> mux_window mx" if "en_permits (mx_ends mx ! k) \<le> mux_window mx" for k
      using that permits i by (cases "k = i") auto
    show ?thesis
    proof (cases "d = c")
      case True
      with s small e memory_okD(1,2) [OF ok st] old show ?thesis by auto
    next
      case False
      with s memory_okD [OF ok, of d s] old show ?thesis by auto
    qed
  qed
  ultimately show ?thesis
    using ok by (simp add: memory_ok_def w)
qed

lemma memory_ok_recv:
  assumes ok: "memory_ok mx" and e: "e < length (mx_ends mx)"
  shows "memory_ok (fst (mux_recv mx e))"
proof (cases "en_queue (mx_ends mx ! e)")
  case Nil
  with ok show ?thesis by (simp add: mux_recv_def)
next
  case (Cons fr rest)
  let ?en = "mx_ends mx ! e" and ?n = "wire_len fr"
  have q: "queued (?en\<lparr>en_queue := rest\<rparr>) + ?n = queued ?en"
    using Cons by (simp add: queued_def)
  have "memory_ok (mx\<lparr>mx_channels := RBT.insert (en_id ?en) (st\<lparr>ch_unacked := ch_unacked st - ?n\<rparr>) (mx_channels mx),
      mx_ends := (mx_ends mx)[e := ?en\<lparr>en_queue := rest\<rparr>]\<rparr>)"
    if st: "RBT.lookup (mx_channels mx) (en_id ?en) = Some st" for st
    using q memory_okD [OF ok st] by (intro memory_ok_store [OF ok st _ e]) auto
  moreover have "memory_ok (update_end e (\<lambda>en. en\<lparr>en_queue := rest\<rparr>) mx)"
    using ok Cons by (intro memory_ok_no_more) (simp_all add: no_more_def queued_def)
  ultimately show ?thesis
    using Cons by (simp add: mux_recv_def Let_def return_credit_def update_end_def split: option.split)
qed

text \<open>Delivering frames moves bytes on or drops them, also where it ends in an error.\<close>

lemma deliver_frames_held:
  assumes "deliver_frames m st en refund = (st', en', r)"
  shows "length (ch_assembler st') + queued en' \<le> length (ch_assembler st) + queued en"
  using assms
proof (induction "length (ch_assembler st)" arbitrary: st en refund rule: less_induct)
  case less
  show ?case
  proof (cases "\<exists>fr used. oversized m (ch_assembler st) = None \<and>
      frame_decode (ch_assembler st) = Inr (Some (fr, used))")
    case True
    then obtain fr used where o: "oversized m (ch_assembler st) = None"
      and dec: "frame_decode (ch_assembler st) = Inr (Some (fr, used))"
      by blast
    from frame_decode_sound [OF dec] have used: "used = wire_len fr" "used \<le> length (ch_assembler st)" "0 < used"
      by (simp_all add: wire_len_def HEADER_LEN_def)
    obtain st1 en1 refund1 where st1: "ch_assembler st1 = drop used (ch_assembler st)"
      "queued en1 \<le> queued en + used" "deliver_frames m st1 en1 refund1 = (st', en', r)"
    proof -
      have "queued (en\<lparr>en_queue := en_queue en @ [fr]\<rparr>) \<le> queued en + used" "queued (en\<lparr>en_tx := False\<rparr>) \<le> queued en + used"
        using used(1) by (simp_all add: queued_def)
      with deliver_frames_Some [OF less.prems o dec] that show thesis by blast
    qed
    have "length (ch_assembler st') + queued en' \<le> length (ch_assembler st1) + queued en1"
      using st1(1) used by (intro less.hyps [OF _ st1(3)]) simp
    with st1(1,2) used show ?thesis by simp
  next
    case False
    with less.prems have "st' = st" "en' = en"
      by (auto simp: deliver_frames.simps [of m st] split: option.splits sum.splits)
    then show ?thesis by simp
  qed
qed

text \<open>\<open>step_memory\<close>: what is left of a connection whose reader may have ended on a segment.\<close>

definition after_segment :: "mux \<times> (transport_error, unit) result \<Rightarrow> mux" where
  "after_segment p = (case p of (mx, Inl e) \<Rightarrow> shutdown mx (Some e) | (mx, Inr _) \<Rightarrow> mx)"

lemma after_segment_ok: "memory_ok (fst p) \<Longrightarrow> memory_ok (after_segment p)"
  by (auto simp: after_segment_def memory_ok_shutdown split: prod.split sum.split)

lemma memory_ok_peer_data:
  assumes ok: "memory_ok mx"
  shows "memory_ok (after_segment (peer_data mx c body))"
proof (cases "body = [] \<or> mx_closed mx \<or> c \<in> mx_retired mx \<or> RBT.lookup (mx_channels mx) c = None")
  case True
  with ok show ?thesis by (intro after_segment_ok) (auto simp: peer_data_def)
next
  case False
  then obtain st where st: "RBT.lookup (mx_channels mx) c = Some st" by auto
  let ?en = "mx_ends mx ! ch_end st" and ?n = "ch_unacked st + length body"
  note live = memory_okD [OF ok st]
  show ?thesis
  proof (cases "?n > mux_window mx")
    case True
    have "memory_ok (shutdown (store_channel c (st\<lparr>ch_unacked := ?n\<rparr>) ?en mx) err)" for err
      using ok False
      by (intro memory_ok_shutdown_any) (simp_all add: store_channel_def memory_ok_def reserved_def unread_def mux_window_def)
    with True False st show ?thesis by (simp add: peer_data_def after_segment_def)
  next
    case fits: False
    let ?st1 = "st\<lparr>ch_unacked := ?n, ch_assembler := ch_assembler st @ body\<rparr>"
    obtain st2 en2 r where d: "deliver_frames (mc_max_frame_len (mx_cfg mx)) ?st1 ?en 0 = (st2, en2, r)"
      by (cases "deliver_frames (mc_max_frame_len (mx_cfg mx)) ?st1 ?en 0")
    have handle: "ch_end st2 = ch_end st" "ch_unacked st2 = ?n" "en_permits en2 = en_permits ?en"
      using deliver_frames_handle [OF d] by (simp_all add: same_handle_def)
    show ?thesis
    proof (cases r)
      case (Inl err)
      have "queued en2 \<le> queued ?en + length (ch_assembler st) + (mux_window mx - ch_unacked st)"
        using deliver_frames_held [OF d] fits by simp
      then have "sum_list (map queued ((mx_ends mx)[ch_end st := en2])) \<le> reserved mx"
        using unread_update [OF live(1), of en2] over_channels_at [OF st]
        by (simp add: reserved_def unread_def)
      then have "unread (store_channel c st2 en2 mx) \<le> length (mx_ends mx) * mux_window mx"
        using memory_ok_reserved [OF ok] handle by (simp add: store_channel_def unread_def)
      then have "memory_ok (shutdown (store_channel c st2 en2 mx) (Some err))"
        using ok False by (intro memory_ok_shutdown_any) (simp_all add: store_channel_def memory_ok_def mux_window_def)
      with False st fits d Inl show ?thesis by (simp add: peer_data_def after_segment_def)
    next
      case (Inr refund)
      note del = deliver_frames_Inr [OF d [unfolded Inr]]
      have "memory_ok (store_channel c (st2\<lparr>ch_unacked := ch_unacked st2 - refund\<rparr>) en2 mx)"
      proof -
        let ?st3 = "st2\<lparr>ch_unacked := ch_unacked st2 - refund\<rparr>"
        have "memory_ok (mx\<lparr>mx_channels := RBT.insert c ?st3 (mx_channels mx), mx_ends := (mx_ends mx)[ch_end st := en2]\<rparr>)"
          using del handle fits live by (intro memory_ok_store [OF ok st _ live(1)]) auto
        then show ?thesis by (simp add: store_channel_def handle(1))
      qed
      moreover have "st2\<lparr>ch_unacked := ch_unacked st2 - refund\<rparr> = st2" if "refund = 0"
        using that by simp
      ultimately show ?thesis
        using False st fits d Inr by (auto simp: peer_data_def Let_def after_segment_def)
    qed
  qed
qed

lemma memory_ok_peer_window: "memory_ok mx \<Longrightarrow> memory_ok (fst (peer_window mx c body))"
  by (auto simp: peer_window_def Let_def no_more_def mux_window_def intro!: memory_ok_no_more split: option.split)

lemma memory_ok_peer_reset: "memory_ok mx \<Longrightarrow> memory_ok (peer_reset mx c)"
  by (auto simp: peer_reset_def Let_def no_more_def intro!: memory_ok_retire memory_ok_no_more memory_ok_delete
      split: option.split)

lemma memory_ok_peer_open: "memory_ok mx \<Longrightarrow> memory_ok (fst (peer_open mx c))"
  using memory_ok_insert [of mx c]
  by (auto simp: peer_open_def Let_def case_prod_beta intro!: memory_ok_drop_recv memory_ok_drop_send)

lemma memory_step_ok:
  assumes ok: "memory_ok mx"
  shows "memory_ok (mux_step mx op)"
proof (cases op)
  case (OpPeer sg)
  have step: "mux_step mx (OpPeer sg) = after_segment (handle_segment mx sg)"
    by (simp add: after_segment_def)
  show ?thesis
    using ok memory_ok_peer_data [OF ok] unfolding OpPeer step handle_segment_def Let_def
    by (auto intro!: after_segment_ok memory_ok_peer_window memory_ok_peer_reset memory_ok_peer_open)
qed (use ok in \<open>auto simp: mux_close_def intro: memory_ok_open memory_ok_send memory_ok_recv memory_ok_accept
    memory_ok_drop_send memory_ok_drop_recv memory_ok_finish memory_ok_shutdown memory_ok_take\<close>)

lemma memory_run_ok: "memory_ok mx \<Longrightarrow> memory_ok (mux_run mx ops)"
  by (induction ops arbitrary: mx) (simp_all add: memory_step_ok)

lemma memory_start_ok: "memory_ok (mux_start r cfg)"
  by (simp add: memory_ok_def mux_start_def mux_len_def retired_ok_def reserved_def unread_def)


section \<open>The bound\<close>

text \<open>What the live channels hold together: unfinished frames and frames nobody has read.\<close>

definition buffered :: "mux \<Rightarrow> nat" where
  "buffered mx = (\<Sum>(c, st) \<leftarrow> RBT.entries (mx_channels mx).
     length (ch_assembler st) + queued (mx_ends mx ! ch_end st))"

lemma entries_lookup_Some: "(c, st) \<in> set (RBT.entries t) \<Longrightarrow> RBT.lookup t c = Some st"
  by (metis RBT.distinct_entries RBT.map_of_entries map_of_is_SomeI)

lemma sum_list_le_mult:
  "(\<And>x. x \<in> set xs \<Longrightarrow> f x \<le> (b :: nat)) \<Longrightarrow> (\<Sum>x \<leftarrow> xs. f x) \<le> length xs * b"
  by (induction xs) (auto intro: add_mono)

lemma buffered_le:
  assumes "mux_ok mx"
  shows "buffered mx \<le> mux_len mx * mc_initial_window (mx_cfg mx)"
proof -
  have "(\<Sum>x \<leftarrow> RBT.entries (mx_channels mx). case x of (c, st) \<Rightarrow>
      length (ch_assembler st) + queued (mx_ends mx ! ch_end st))
    \<le> length (RBT.entries (mx_channels mx)) * mc_initial_window (mx_cfg mx)"
  proof (rule sum_list_le_mult)
    fix x assume x: "x \<in> set (RBT.entries (mx_channels mx))"
    obtain c st where cs: "x = (c, st)" by (cases x)
    with x have "RBT.lookup (mx_channels mx) c = Some st"
      by (simp add: entries_lookup_Some)
    from chan_okD(4,6) [OF mux_okD [OF assms this]] cs
    show "(case x of (c, st) \<Rightarrow> length (ch_assembler st) + queued (mx_ends mx ! ch_end st))
      \<le> mc_initial_window (mx_cfg mx)"
      by simp
  qed
  then show ?thesis
    by (simp add: buffered_def mux_len_def RBT.keys_def_alt)
qed

lemma mux_cfg_const:
  "mx_cfg (retire c mx) = mx_cfg mx" "mx_cfg (shutdown mx err) = mx_cfg mx"
  "mx_cfg (close_channel mx c) = mx_cfg mx" "mx_cfg (drop_guard mx e) = mx_cfg mx"
  "mx_cfg (drop_send mx e) = mx_cfg mx" "mx_cfg (drop_recv mx e) = mx_cfg mx"
  "mx_cfg (mux_finish mx e) = mx_cfg mx" "mx_cfg (return_credit mx c n) = mx_cfg mx"
  "mx_cfg (fst (insert_channel mx c)) = mx_cfg mx" "mx_cfg (store_channel c st en mx) = mx_cfg mx"
  "mx_cfg (peer_reset mx c) = mx_cfg mx"
proof -
  show r: "mx_cfg (retire c mx) = mx_cfg mx" for c mx
    by (simp add: retire_def split: prod.split)
  show "mx_cfg (shutdown mx err) = mx_cfg mx"
    by (simp add: shutdown_def)
  show k: "mx_cfg (close_channel mx c) = mx_cfg mx" for mx c
    by (simp add: close_channel_def r split: option.split)
  show g: "mx_cfg (drop_guard mx e) = mx_cfg mx" for mx e
    by (simp add: drop_guard_def Let_def k)
  show d: "mx_cfg (drop_send mx e) = mx_cfg mx" for mx e
    by (simp add: drop_send_def g)
  show "mx_cfg (drop_recv mx e) = mx_cfg mx"
    by (simp add: drop_recv_def g)
  show "mx_cfg (mux_finish mx e) = mx_cfg mx"
    by (simp add: mux_finish_def d k)
  show "mx_cfg (return_credit mx c n) = mx_cfg mx"
    by (simp add: return_credit_def split: option.split)
  show "mx_cfg (fst (insert_channel mx c)) = mx_cfg mx"
    by (simp add: insert_channel_def Let_def)
  show "mx_cfg (store_channel c st en mx) = mx_cfg mx"
    by (simp add: store_channel_def)
  show "mx_cfg (peer_reset mx c) = mx_cfg mx"
    by (simp add: peer_reset_def r Let_def split: option.split)
qed

lemma mux_step_cfg: "mx_cfg (mux_step mx op) = mx_cfg mx"
proof (cases op)
  case OpOpen
  have "mx_cfg (fst (insert_channel (mx\<lparr>mx_next_local := n\<rparr>) c)) = mx_cfg mx" for n c
    by (simp add: mux_cfg_const)
  with OpOpen show ?thesis by (simp add: open_local_def Let_def case_prod_beta)
next
  case (OpPeer sg)
  have "mx_cfg (fst (peer_open mx c)) = mx_cfg mx" for c
    by (simp add: peer_open_def Let_def case_prod_beta mux_cfg_const)
  moreover have "mx_cfg (fst (peer_data mx c body)) = mx_cfg mx" for c body
    by (simp add: peer_data_def Let_def mux_cfg_const split: option.split prod.split sum.split)
  moreover have "mx_cfg (fst (peer_window mx c body)) = mx_cfg mx" for c body
    by (simp add: peer_window_def Let_def split: option.split)
  ultimately have "mx_cfg (fst (handle_segment mx sg)) = mx_cfg mx"
    by (simp add: handle_segment_def Let_def mux_cfg_const)
  with OpPeer show ?thesis
    by (auto simp: mux_cfg_const split: prod.split sum.split)
qed (auto simp: send_chunk_def push_data_def mux_recv_def accept_bi_def mux_close_def take_next_def
    Let_def mux_cfg_const split: list.split option.split)

lemma mux_run_cfg: "mx_cfg (mux_run mx ops) = mx_cfg mx"
  by (induction ops arbitrary: mx) (simp_all add: mux_step_cfg)

text \<open>
  C7: What a peer can make the multiplexer hold.  Whatever segments arrive, in any interleaving with
  the application's own calls: at most \<open>max_channels\<close> channels are live; each was sent at most one
  window that it has not given credit back for, has an unfinished frame shorter than the frame limit
  and at most one window of send credit; the memory of closed ids stays within its limit; and all the
  bytes held, in unfinished frames and in frames nobody has read, those of closed channels included,
  are at most one window for each channel that was ever opened on the connection.  The number of live
  channels bounds the bytes of the live channels, window times \<open>max_channels\<close>, provided no id is opened
  again while frames of its closed channel are unread; it does not bound those of the closed ones,
  which stay until the application reads them or drops the stream.
\<close>

theorem hostile_peer_bounded:
  "let mx = mux_run (mux_start r cfg) ops in
    mux_len mx \<le> mc_max_channels cfg \<and>
    length (mx_retired_order mx) \<le> 4096 \<and> card (mx_retired mx) \<le> 4096 \<and>
    (\<forall>c st. RBT.lookup (mx_channels mx) c = Some st \<longrightarrow>
       ch_unacked st \<le> mc_initial_window cfg \<and> length (ch_assembler st) < mc_max_frame_len cfg + 5 \<and>
       en_permits (mx_ends mx ! ch_end st) \<le> mc_initial_window cfg) \<and>
    unread mx + unfinished mx \<le> length (mx_ends mx) * mc_initial_window cfg \<and>
    (never_reuses (mux_start r cfg) ops \<longrightarrow>
       buffered mx \<le> mc_max_channels cfg * mc_initial_window cfg \<and>
       (\<forall>c st. RBT.lookup (mx_channels mx) c = Some st \<longrightarrow>
          length (ch_assembler st) + queued (mx_ends mx ! ch_end st) \<le> mc_initial_window cfg))"
proof -
  let ?mx = "mux_run (mux_start r cfg) ops"
  have mem: "memory_ok ?mx"
    using memory_start_ok by (rule memory_run_ok)
  have cfg: "mx_cfg ?mx = cfg"
    by (simp add: mux_run_cfg) (simp add: mux_start_def)
  have len: "mux_len ?mx \<le> mc_max_channels cfg"
    and ret: "retired_ok (mx_retired ?mx) (mx_retired_order ?mx)"
    using mem cfg by (simp_all add: memory_ok_def)
  from ret have order: "length (mx_retired_order ?mx) \<le> 4096" "card (mx_retired ?mx) \<le> 4096"
    by (auto simp: retired_ok_def RETIRED_MEMORY_def simp flip: distinct_card)
  have chans: "ch_unacked st \<le> mc_initial_window cfg \<and> length (ch_assembler st) < mc_max_frame_len cfg + 5 \<and>
      en_permits (mx_ends ?mx ! ch_end st) \<le> mc_initial_window cfg"
    if "RBT.lookup (mx_channels ?mx) c = Some st" for c st
    using memory_okD [OF mem that] cfg by (simp add: HEADER_LEN_def mux_window_def)
  have "unread ?mx + unfinished ?mx \<le> reserved ?mx"
    unfolding reserved_def unfinished_def by (intro add_left_mono over_channels_mono) simp
  then have all: "unread ?mx + unfinished ?mx \<le> length (mx_ends ?mx) * mc_initial_window cfg"
    using memory_ok_reserved [OF mem] cfg by (simp add: mux_window_def)
  have live: "buffered ?mx \<le> mc_max_channels cfg * mc_initial_window cfg \<and>
       (\<forall>c st. RBT.lookup (mx_channels ?mx) c = Some st \<longrightarrow>
          length (ch_assembler st) + queued (mx_ends ?mx ! ch_end st) \<le> mc_initial_window cfg)"
    if fresh: "never_reuses (mux_start r cfg) ops"
  proof -
    have ok: "mux_ok ?mx" using mux_start_ok fresh by (rule mux_run_ok)
    have "buffered ?mx \<le> mux_len ?mx * mc_initial_window cfg"
      using buffered_le [OF ok] cfg by simp
    also have "\<dots> \<le> mc_max_channels cfg * mc_initial_window cfg"
      using len by (rule mult_le_mono1)
    finally show ?thesis
      using chan_okD(4,6) [OF mux_okD [OF ok]] cfg by (fastforce intro: le_trans)
  qed
  show ?thesis
    unfolding Let_def using len order chans all live by blast
qed

theorem hostile_peer_bounded_witness:
  "let mx = mux_run (mux_start Responder mux_config_default)
       [OpPeer (segment_encode (seg_open 0)), OpPeer (segment_encode (seg_data 0 [0, 0, 1, 0]))]
   in buffered mx \<le> 64 * 524288 \<and> unread mx + unfinished mx \<le> length (mx_ends mx) * 524288"
proof -
  let ?ops = "[OpPeer (segment_encode (seg_open 0)), OpPeer (segment_encode (seg_data 0 [0, 0, 1, 0]))]"
  have "never_reuses (mux_start Responder mux_config_default) ?ops"
    using segment_encode_parts(2) [of "seg_data 0 [0, 0, 1, 0]"]
    by (simp add: reuses_id_def mux_start_def) (simp add: seg_data_def)
  with hostile_peer_bounded [of Responder mux_config_default ?ops] show ?thesis
    by (simp add: Let_def mux_config_default_def)
qed


section \<open>What the bound leaves out\<close>

text \<open>
  The bound is on live channels.  A peer that opens a channel, sends a frame and resets the channel
  leaves the frame in a stream that waits to be accepted, and it may do so again and again.
\<close>

definition flood_round :: "channel_id \<Rightarrow> frame \<Rightarrow> mux_op list" where
  "flood_round c fr =
     [OpPeer (segment_encode (seg_open c)), OpPeer (segment_encode (seg_data c (frame_encode fr))),
      OpPeer (segment_encode (seg_reset c))]"

definition flood :: "nat \<Rightarrow> frame \<Rightarrow> mux_op list" where
  "flood n fr = concat (map (\<lambda>k. flood_round (word_of_nat (2 * k)) fr) [0..<n])"

definition flooded :: "mux_config \<Rightarrow> frame \<Rightarrow> nat \<Rightarrow> mux \<Rightarrow> bool" where
  "flooded cfg fr n mx \<longleftrightarrow>
     \<not> mx_closed mx \<and> mx_role mx = Responder \<and> mx_cfg mx = cfg \<and> mx_channels mx = RBT.empty \<and>
     mx_accept_tx mx \<and> mx_accept_rx mx \<and> unread mx = n * wire_len fr \<and>
     (\<forall>c \<in> mx_retired mx. unat c < 2 * n)"

lemma deliver_one:
  assumes "frame_wf fr" and "length (frame_payload fr) \<le> m" and "ch_inbound st" and "en_recv_half en"
    and "ch_assembler st = frame_encode fr"
  shows "deliver_frames m st en r = (st\<lparr>ch_assembler := []\<rparr>, en\<lparr>en_queue := en_queue en @ [fr]\<rparr>, Inr r)"
proof -
  have "oversized m (frame_encode fr) = None"
    using oversized_prefix [OF assms(1,2), of "frame_encode fr" "[]"] by simp
  moreover have "frame_decode (frame_encode fr) = Inr (Some (fr, wire_len fr))"
    using frame_decode_encode [OF assms(1), of "[]"] by simp
  moreover have "drop (wire_len fr) (frame_encode fr) = []"
    by simp
  ultimately show ?thesis
    using assms(3-5) by (simp add: deliver_frames.simps [of m st] deliver_frames.simps [of m "st\<lparr>ch_assembler := []\<rparr>"])
qed

lemma even_id: "(word_of_nat (2 * n) :: channel_id) mod 2 = 0"
proof -
  have "even (word_of_nat (2 * n) :: channel_id)"
    by simp
  then show ?thesis
    unfolding even_iff_mod_2_eq_zero .
qed

lemma unat_even_id: "n < 2 ^ 31 \<Longrightarrow> unat (word_of_nat (2 * n) :: channel_id) = 2 * n"
  by (simp add: unat_of_nat del: of_nat_mult)

lemma retire_subset: "c' \<in> mx_retired (retire c mx) \<Longrightarrow> c' \<in> insert c (mx_retired mx)"
proof -
  have "fst (forget_oldest ids order) \<subseteq> ids" for ids order
    by (induction ids order rule: forget_oldest.induct) auto
  then show "c' \<in> mx_retired (retire c mx) \<Longrightarrow> c' \<in> insert c (mx_retired mx)"
    by (fastforce simp: retire_def case_prod_beta split: if_splits)
qed

text \<open>A reset channel is gone, and its stream keeps what was queued.\<close>

lemma peer_reset_live:
  assumes "\<not> mx_closed mx" and "RBT.lookup (mx_channels mx) c = Some st"
  shows "mx_channels (peer_reset mx c) = RBT.delete c (mx_channels mx)"
    and "mx_ends (peer_reset mx c) = (mx_ends mx)[ch_end st := (mx_ends mx ! ch_end st)
           \<lparr>en_tx := False, en_sem_closed := True\<rparr>]"
    and "mx_closed (peer_reset mx c) = mx_closed mx" and "mx_role (peer_reset mx c) = mx_role mx"
    and "mx_accept_tx (peer_reset mx c) = mx_accept_tx mx" and "mx_accept_rx (peer_reset mx c) = mx_accept_rx mx"
    and "mx_retired (peer_reset mx c) \<subseteq> insert c (mx_retired mx)"
proof -
  have same: "mx_channels (retire c m) = mx_channels m \<and> mx_ends (retire c m) = mx_ends m \<and>
      mx_closed (retire c m) = mx_closed m \<and> mx_role (retire c m) = mx_role m \<and>
      mx_accept_tx (retire c m) = mx_accept_tx m \<and> mx_accept_rx (retire c m) = mx_accept_rx m" for m
    by (simp add: retire_def case_prod_beta)
  show "mx_channels (peer_reset mx c) = RBT.delete c (mx_channels mx)"
    "mx_ends (peer_reset mx c) = (mx_ends mx)[ch_end st := (mx_ends mx ! ch_end st)
           \<lparr>en_tx := False, en_sem_closed := True\<rparr>]"
    "mx_closed (peer_reset mx c) = mx_closed mx" "mx_role (peer_reset mx c) = mx_role mx"
    "mx_accept_tx (peer_reset mx c) = mx_accept_tx mx" "mx_accept_rx (peer_reset mx c) = mx_accept_rx mx"
    using assms by (simp_all add: peer_reset_def Let_def same)
  show "mx_retired (peer_reset mx c) \<subseteq> insert c (mx_retired mx)"
    using assms retire_subset by (fastforce simp: peer_reset_def Let_def)
qed

lemma flooded_round:
  assumes f: "flooded cfg fr n mx" and c: "c mod 2 = 0" "unat c = 2 * n" and wf: "frame_wf fr"
    and fits: "length (frame_payload fr) \<le> mc_max_frame_len cfg" "wire_len fr \<le> mc_initial_window cfg"
    and room: "0 < mc_max_channels cfg"
  shows "flooded cfg fr (Suc n) (mux_run mx (flood_round c fr))"
proof -
  let ?e = "length (mx_ends mx)"
  let ?en = "\<lparr>en_id = c, en_permits = mux_window mx, en_sem_closed = False, en_queue = [],
      en_tx = True, en_send_half = True, en_recv_half = True\<rparr>"
  let ?st = "\<lparr>ch_end = ?e, ch_inbound = True, ch_assembler = [], ch_unacked = 0\<rparr>"
  let ?mx1 = "(enqueue c [] (mx\<lparr>mx_channels := RBT.insert c ?st (mx_channels mx),
      mx_ends := mx_ends mx @ [?en]\<rparr>))\<lparr>mx_accept_queue := mx_accept_queue mx @ [?e]\<rparr>"
  let ?en2 = "?en\<lparr>en_queue := [fr]\<rparr>"
  let ?st2 = "?st\<lparr>ch_unacked := wire_len fr\<rparr>"
  let ?mx2 = "store_channel c ?st2 ?en2 ?mx1"
  let ?mx3 = "peer_reset ?mx2 c"
  have fresh: "c \<notin> mx_retired mx"
    using f c by (auto simp: flooded_def)
  have "peer_open mx c = (?mx1, Inr ())"
    using f fresh room c by (simp add: peer_open_def flooded_def mux_len_def insert_channel_def Let_def)
  then have one: "mux_step mx (OpPeer (segment_encode (seg_open c))) = ?mx1"
    by simp
  have "frame_encode fr \<noteq> []"
    by (simp add: frame_encode_def frame_encode_to_def)
  moreover have "deliver_frames (mc_max_frame_len cfg) (?st2\<lparr>ch_assembler := frame_encode fr\<rparr>) ?en 0 =
      (?st2, ?en2, Inr 0)"
    using deliver_one [OF wf fits(1), of "?st2\<lparr>ch_assembler := frame_encode fr\<rparr>" ?en 0] by simp
  ultimately have "peer_data ?mx1 c (frame_encode fr) = (?mx2, Inr ())"
    using f fresh fits by (simp add: peer_data_def flooded_def Let_def mux_window_def)
  then have two: "mux_step ?mx1 (OpPeer (segment_encode (seg_data c (frame_encode fr)))) = ?mx2"
    by simp
  have "mux_run mx (flood_round c fr) = ?mx3"
    by (simp only: flood_round_def mux_run.simps one two) simp
  moreover have live: "\<not> mx_closed ?mx2" "RBT.lookup (mx_channels ?mx2) c = Some ?st2"
    using f by (simp_all add: flooded_def store_channel_def)
  have "RBT.delete c (mx_channels ?mx2) = RBT.empty"
    using f by (simp add: flooded_def store_channel_def fun_eq_iff flip: RBT.lookup_empty_empty)
  moreover have "mx_cfg ?mx3 = mx_cfg mx"
    by (simp add: mux_cfg_const)
  moreover have "mx_ends ?mx3 = mx_ends mx @ [?en2\<lparr>en_tx := False, en_sem_closed := True\<rparr>]"
    using peer_reset_live(2) [OF live] by (simp add: store_channel_def)
  moreover have "unat c' < 2 * Suc n" if "c' \<in> mx_retired ?mx3" for c'
  proof -
    have "c' \<in> insert c (mx_retired mx)"
      using that peer_reset_live(7) [OF live] by (auto simp: store_channel_def)
    with f c show ?thesis
      by (force simp: flooded_def)
  qed
  ultimately show ?thesis
    using f peer_reset_live(1,3-6) [OF live] by (simp add: flooded_def unread_def queued_def store_channel_def)
qed

text \<open>
  So no limit of the configuration bounds the memory that a peer pins: with no channel open at the
  end, any number of frames is left unread.
\<close>

lemma closed_channels_pile_up:
  assumes "frame_wf fr" and "length (frame_payload fr) \<le> mc_max_frame_len cfg"
    and "wire_len fr \<le> mc_initial_window cfg" and "0 < mc_max_channels cfg" and "n \<le> 2 ^ 31"
  shows "let mx = mux_run (mux_start Responder cfg) (flood n fr) in
    mux_len mx = 0 \<and> \<not> mx_closed mx \<and> unread mx = n * wire_len fr"
proof -
  have run_append: "mux_run mx (a @ b) = mux_run (mux_run mx a) b" for mx a b
    by (induction a arbitrary: mx) simp_all
  have "flooded cfg fr n (mux_run (mux_start Responder cfg) (flood n fr))"
    using assms(5)
  proof (induction n)
    case 0
    show ?case by (simp add: flooded_def flood_def mux_start_def unread_def)
  next
    case (Suc n)
    then have "flooded cfg fr n (mux_run (mux_start Responder cfg) (flood n fr))"
      by simp
    from flooded_round [OF this even_id unat_even_id assms(1-4)] Suc.prems show ?case
      by (simp add: flood_def run_append del: of_nat_mult)
  qed
  then show ?thesis
    by (simp add: flooded_def mux_len_def Let_def)
qed

end
