(* ===== verification/MuxFair.thy ===== *)
theory MuxFair
  imports Mux
begin

text \<open>
  The writer's choice in \<open>take_next\<close>: what is sent next, and that no channel waits for ever behind
  the others.
\<close>

section \<open>What is picked\<close>

lemma find_sorted:
  assumes "sorted (map fst xs)" and "find P xs = Some x" and "y \<in> set xs" and "P y"
  shows "fst x \<le> fst y"
  using assms
proof (induction xs)
  case (Cons z zs)
  then show ?case
    by (cases "P z") (auto split: if_splits)
qed simp

lemma find_entries:
  assumes "find (\<lambda>(c, q). Q c \<and> q \<noteq> []) (RBT.entries (mx_out mx)) = Some (d, q)"
  shows "Q d" and "out_queue mx d \<noteq> []" and "Q c \<Longrightarrow> out_queue mx c \<noteq> [] \<Longrightarrow> d \<le> c"
proof -
  have "(d, q) \<in> set (RBT.entries (mx_out mx))" and dq: "Q d \<and> q \<noteq> []"
    using assms by (auto simp: find_Some_iff) (metis nth_mem)
  then have "RBT.lookup (mx_out mx) d = Some q"
    by (metis RBT.distinct_entries RBT.map_of_entries map_of_is_SomeI)
  with dq show "Q d" "out_queue mx d \<noteq> []"
    by (simp_all add: out_queue_def)
  assume "Q c" and "out_queue mx c \<noteq> []"
  then obtain r where "RBT.lookup (mx_out mx) c = Some r" "r \<noteq> []"
    by (auto simp: out_queue_def split: option.splits)
  then have "(c, r) \<in> set (RBT.entries (mx_out mx))" "r \<noteq> []"
    by (metis RBT.map_of_entries map_of_SomeD, simp)
  with find_sorted [OF RBT.sorted_entries assms, of "(c, r)"] \<open>Q c\<close> show "d \<le> c"
    by simp
qed

lemma find_entries_None:
  assumes "find (\<lambda>(c, q). Q c \<and> q \<noteq> []) (RBT.entries (mx_out mx)) = None" and "Q c"
  shows "out_queue mx c = []"
proof (rule ccontr)
  assume "out_queue mx c \<noteq> []"
  then obtain r where "RBT.lookup (mx_out mx) c = Some r" "r \<noteq> []"
    by (auto simp: out_queue_def split: option.splits)
  then have "(c, r) \<in> set (RBT.entries (mx_out mx))" "r \<noteq> []"
    by (metis RBT.map_of_entries map_of_SomeD, simp)
  with assms show False
    by (auto simp: find_None_iff)
qed

lemma find_any:
  "find (\<lambda>(c :: channel_id, q). q \<noteq> []) xs = find (\<lambda>(c, q). True \<and> q \<noteq> []) xs"
  by simp

text \<open>The control channel if it has anything, else the next in cyclic order.\<close>

lemma pick_channel_cases:
  obtains (control) "pick_channel mx = Some CONTROL_CHANNEL" "out_queue mx CONTROL_CHANNEL \<noteq> []"
  | (ahead) d where "pick_channel mx = Some d" "out_queue mx d \<noteq> []" "out_queue mx CONTROL_CHANNEL = []"
      "mx_cursor mx \<le> d" "\<And>c. mx_cursor mx \<le> c \<Longrightarrow> out_queue mx c \<noteq> [] \<Longrightarrow> d \<le> c"
  | (wrapped) d where "pick_channel mx = Some d" "out_queue mx d \<noteq> []" "out_queue mx CONTROL_CHANNEL = []"
      "\<And>c. mx_cursor mx \<le> c \<Longrightarrow> out_queue mx c = []" "\<And>c. out_queue mx c \<noteq> [] \<Longrightarrow> d \<le> c"
  | (nothing) "pick_channel mx = None" "\<And>c. out_queue mx c = []"
proof (cases "out_queue mx CONTROL_CHANNEL = []")
  case False
  then show ?thesis by (intro control) (simp_all add: pick_channel_def)
next
  case True
  let ?ahead = "find (\<lambda>(c, q). mx_cursor mx \<le> c \<and> q \<noteq> []) (RBT.entries (mx_out mx))"
  let ?any = "find (\<lambda>(c, q). q \<noteq> []) (RBT.entries (mx_out mx))"
  show ?thesis
  proof (cases ?ahead)
    case (Some dq)
    obtain d q where "dq = (d, q)" by (cases dq)
    with True Some find_entries [where Q = "\<lambda>c. mx_cursor mx \<le> c" and mx = mx and d = d and q = q]
    show ?thesis by (intro ahead [of d]) (simp_all add: pick_channel_def)
  next
    case None
    note empty_ahead = find_entries_None [where Q = "\<lambda>c. mx_cursor mx \<le> c", OF None]
    show ?thesis
    proof (cases ?any)
      case (Some dq)
      obtain d q where dq: "dq = (d, q)" by (cases dq)
      with Some have "find (\<lambda>(c, q). True \<and> q \<noteq> []) (RBT.entries (mx_out mx)) = Some (d, q)"
        by simp
      note f = find_entries [where Q = "\<lambda>_. True", OF this]
      show ?thesis
        using True None Some dq f empty_ahead by (intro wrapped [of d]) (simp_all add: pick_channel_def)
    next
      case any: None
      then have "find (\<lambda>(c, q). True \<and> q \<noteq> []) (RBT.entries (mx_out mx)) = None"
        by simp
      then have "out_queue mx c = []" for c
        by (rule find_entries_None) simp
      moreover have "pick_channel mx = None"
        using True None any by (simp add: pick_channel_def)
      ultimately show ?thesis
      proof -
        assume 1: "\<And>c. out_queue mx c = []" and 2: "pick_channel mx = None"
        show thesis by (rule nothing) (rule 2, rule 1)
      qed
    qed
  qed
qed

lemma pick_channel_nonempty: "pick_channel mx = Some d \<Longrightarrow> out_queue mx d \<noteq> []"
  by (rule pick_channel_cases [of mx]) auto

text \<open>
  One turn without window updates takes the head of the picked queue and nothing else; the order
  within every channel is kept.
\<close>

lemma take_next_pick:
  assumes "mx_urgent mx = []" and "pick_channel mx = Some d"
  obtains mx' where "take_next mx = (mx', Some (hd (out_queue mx d)))" "mx_urgent mx' = []"
    "\<And>c. out_queue mx' c = (if c = d then tl (out_queue mx d) else out_queue mx c)"
    "mx_cursor mx' = (if d \<noteq> CONTROL_CHANNEL then next_cursor d else mx_cursor mx)"
    "mx_channels mx' = mx_channels mx" "mx_closed mx' = mx_closed mx"
    "dom (RBT.lookup (mx_out mx')) \<subseteq> dom (RBT.lookup (mx_out mx))"
proof -
  from pick_channel_nonempty [OF assms(2)] obtain sg rest where q: "out_queue mx d = sg # rest"
    by (cases "out_queue mx d") auto
  then have dom: "d \<in> dom (RBT.lookup (mx_out mx))"
    by (auto simp: out_queue_def split: option.splits)
  let ?mx1 = "if d \<noteq> CONTROL_CHANNEL then mx\<lparr>mx_cursor := next_cursor d\<rparr> else mx"
  let ?out = "if rest = [] \<and> RBT.lookup (mx_channels mx) d = None then RBT.delete d (mx_out mx)
      else RBT.insert d rest (mx_out mx)"
  have one: "out_queue ?mx1 c = out_queue mx c" for c
    by (simp add: out_queue_def)
  then have "take_next mx = (?mx1\<lparr>mx_out := ?out\<rparr>, Some (hd (out_queue mx d)))"
    using assms q by (simp add: take_next_def Let_def)
  moreover have "out_queue (?mx1\<lparr>mx_out := ?out\<rparr>) c = (if c = d then tl (out_queue mx d) else out_queue mx c)" for c
    using q by (simp add: out_queue_def)
  moreover have "dom (RBT.lookup ?out) \<subseteq> dom (RBT.lookup (mx_out mx))"
    using dom by (auto split: if_splits)
  ultimately show thesis
    using assms(1) by (intro that [of "?mx1\<lparr>mx_out := ?out\<rparr>"]) simp_all
qed

section \<open>Every channel gets its turn\<close>

text \<open>The application queues data on some channels, then the writer takes one segment; and again.\<close>

fun push_all :: "mux \<Rightarrow> (channel_id \<times> bytes) list \<Rightarrow> mux" where
  "push_all mx [] = mx"
| "push_all mx ((c, chunk) # ps) = push_all (fst (push_data mx c chunk)) ps"

fun writer_turns :: "mux \<Rightarrow> (channel_id \<times> bytes) list list \<Rightarrow> segment option list" where
  "writer_turns mx [] = []"
| "writer_turns mx (ps # rest) =
     (let (mx', sg) = take_next (push_all mx ps) in sg # writer_turns mx' rest)"

definition stations :: "mux \<Rightarrow> channel_id set" where
  "stations mx = dom (RBT.lookup (mx_channels mx)) \<union> dom (RBT.lookup (mx_out mx))"

text \<open>The channels that may be served before \<open>c\<close>.\<close>

definition before :: "mux \<Rightarrow> channel_id \<Rightarrow> channel_id set" where
  "before mx c =
     {d \<in> stations mx. if mx_cursor mx \<le> c then mx_cursor mx \<le> d \<and> d < c else mx_cursor mx \<le> d \<or> d < c}"

lemma finite_stations [simp]: "finite (stations mx)"
  by (metis List.finite_set RBT.lookup_keys finite_UnI stations_def)

lemma push_all_facts:
  "mx_urgent (push_all mx ps) = mx_urgent mx" "mx_cursor (push_all mx ps) = mx_cursor mx"
  "mx_channels (push_all mx ps) = mx_channels mx"
  "stations (push_all mx ps) = stations mx"
  "prefix (out_queue mx c) (out_queue (push_all mx ps) c)"
  "c \<notin> fst ` set ps \<Longrightarrow> out_queue (push_all mx ps) c = out_queue mx c"
proof -
  have "mx_urgent (push_all mx ps) = mx_urgent mx \<and> mx_cursor (push_all mx ps) = mx_cursor mx \<and>
      mx_channels (push_all mx ps) = mx_channels mx \<and> stations (push_all mx ps) = stations mx \<and>
      prefix (out_queue mx c) (out_queue (push_all mx ps) c) \<and>
      (c \<notin> fst ` set ps \<longrightarrow> out_queue (push_all mx ps) c = out_queue mx c)"
  proof (induction mx ps rule: push_all.induct)
    case (2 mx d chunk ps)
    have "stations (enqueue d [seg_data d chunk] mx) = stations mx" if "RBT.lookup (mx_channels mx) d \<noteq> None"
      using that by (auto simp: stations_def enqueue_def)
    then have "stations (fst (push_data mx d chunk)) = stations mx"
      by (simp add: push_data_def)
    moreover have "prefix (out_queue mx c) (out_queue (fst (push_data mx d chunk)) c)"
      by (simp add: push_data_def)
    then have "prefix (out_queue mx c) (out_queue (push_all mx ((d, chunk) # ps)) c)"
      using 2 by (auto intro: prefix_order.trans)
    moreover have "mx_urgent (fst (push_data mx d chunk)) = mx_urgent mx"
      "mx_cursor (fst (push_data mx d chunk)) = mx_cursor mx"
      "mx_channels (fst (push_data mx d chunk)) = mx_channels mx"
      "c \<noteq> d \<Longrightarrow> out_queue (fst (push_data mx d chunk)) c = out_queue mx c"
      by (simp_all add: push_data_def)
    ultimately show ?case
      using 2 by simp
  qed simp
  then show "mx_urgent (push_all mx ps) = mx_urgent mx" "mx_cursor (push_all mx ps) = mx_cursor mx"
    "mx_channels (push_all mx ps) = mx_channels mx" "stations (push_all mx ps) = stations mx"
    "prefix (out_queue mx c) (out_queue (push_all mx ps) c)"
    "c \<notin> fst ` set ps \<Longrightarrow> out_queue (push_all mx ps) c = out_queue mx c"
    by blast+
qed

lemma queue_station: "out_queue mx c \<noteq> [] \<Longrightarrow> c \<in> stations mx"
  by (auto simp: out_queue_def stations_def split: option.splits)

lemma next_cursor_less: "d \<noteq> - 1 \<Longrightarrow> d < next_cursor d" for d :: channel_id
proof -
  assume "d \<noteq> - 1"
  then have "1 + d \<noteq> 0"
    by (metis add.inverse_unique add.commute)
  then have "unat (1 + d) = Suc (unat d)"
    by (rule unatSuc)
  with \<open>d \<noteq> - 1\<close> show "d < next_cursor d"
    by (simp add: next_cursor_def word_less_nat_alt add.commute)
qed


text \<open>A turn that serves another channel brings the writer closer to \<open>c\<close>.\<close>

lemma turn_comes_closer:
  assumes quiet: "mx_urgent mx = []" "out_queue mx CONTROL_CHANNEL = []"
    and waiting: "out_queue mx c \<noteq> []" and last: "out_queue mx (- 1) = []"
  obtains (served) mx' where "take_next mx = (mx', Some (hd (out_queue mx c)))"
  | (other) mx' sg d where "take_next mx = (mx', Some sg)" "d \<in> before mx c" "before mx' c \<subseteq> before mx c - {d}"
      "mx_urgent mx' = []" "\<And>b. b \<noteq> d \<Longrightarrow> out_queue mx' b = out_queue mx b" "d \<noteq> c" "d \<noteq> CONTROL_CHANNEL"
      "mx_channels mx' = mx_channels mx" "stations mx' \<subseteq> stations mx" "d \<noteq> - 1"
proof -
  have turn: thesis if p: "pick_channel mx = Some d" and d: "out_queue mx d \<noteq> []"
    and close: "d \<noteq> c \<Longrightarrow> d \<in> before mx c" for d
  proof -
    from take_next_pick [OF quiet(1) p] obtain mx' where t: "take_next mx = (mx', Some (hd (out_queue mx d)))"
      and u: "mx_urgent mx' = []"
      and q: "\<And>b. out_queue mx' b = (if b = d then tl (out_queue mx d) else out_queue mx b)"
      and k: "mx_cursor mx' = (if d \<noteq> CONTROL_CHANNEL then next_cursor d else mx_cursor mx)"
      and ch: "mx_channels mx' = mx_channels mx"
      and dom: "dom (RBT.lookup (mx_out mx')) \<subseteq> dom (RBT.lookup (mx_out mx))"
      by metis
    show thesis
    proof (cases "d = c")
      case True
      with t show ?thesis by (intro served) simp
    next
      case False
      have nc: "d \<noteq> CONTROL_CHANNEL" and top: "d \<noteq> - 1"
        using d quiet last by auto
      then have k': "mx_cursor mx' = d + 1" and up: "x < d + 1 \<longleftrightarrow> x \<le> d" "d + 1 \<le> x \<longleftrightarrow> d < x" for x
        using k top inc_less_eq_iff [of d x] by (auto simp: next_cursor_def linorder_not_le [symmetric])
      have st: "stations mx' \<subseteq> stations mx"
        using ch dom by (auto simp: stations_def)
      have "before mx' c \<subseteq> before mx c - {d}"
        using st close [OF False] by (auto simp: before_def k' up split: if_splits)
      with t u q ch st nc top False close [OF False] show ?thesis
        by (intro other [of mx' _ d]) simp_all
    qed
  qed
  show thesis
  proof (cases rule: pick_channel_cases [of mx])
    case control
    with quiet show ?thesis by simp
  next
    case (ahead d)
    show ?thesis
      using ahead(1,2)
    proof (rule turn)
      assume "d \<noteq> c"
      then show "d \<in> before mx c"
        using ahead(2,4) ahead(5) [of c] waiting by (auto simp: before_def queue_station)
    qed
  next
    case (wrapped d)
    show ?thesis
      using wrapped(1,2)
    proof (rule turn)
      assume "d \<noteq> c"
      have "\<not> mx_cursor mx \<le> c"
        using wrapped(4) [of c] waiting by blast
      moreover have "d < c"
        using wrapped(5) [of c] waiting \<open>d \<noteq> c\<close> by simp
      ultimately show "d \<in> before mx c"
        using wrapped(2) by (simp_all add: before_def queue_station)
    qed
  next
    case nothing
    with waiting show ?thesis by simp
  qed
qed

lemma before_push_all: "before (push_all mx ps) c = before mx c"
  by (simp add: before_def push_all_facts)

lemma waits_at_most:
  assumes "card (before mx c) < length turns"
    and "mx_urgent mx = []" and "out_queue mx CONTROL_CHANNEL = []" and "out_queue mx (- 1) = []"
    and "out_queue mx c = sg # rest" and "c \<noteq> CONTROL_CHANNEL"
    and "\<forall>ps \<in> set turns. CONTROL_CHANNEL \<notin> fst ` set ps \<and> - 1 \<notin> fst ` set ps"
  shows "\<exists>i \<le> card (before mx c). writer_turns mx turns ! i = Some sg"
  using assms
proof (induction turns arbitrary: mx rest)
  case (Cons ps turns)
  let ?mx = "push_all mx ps"
  obtain more where more: "out_queue ?mx c = sg # more"
    using push_all_facts(5) [of mx c ps] Cons.prems(5) by (auto simp: prefix_def)
  have quiet: "mx_urgent ?mx = []" "out_queue ?mx CONTROL_CHANNEL = []" "out_queue ?mx (- 1) = []"
    using Cons.prems by (simp_all add: push_all_facts)
  have waiting: "out_queue ?mx c \<noteq> []"
    using more by simp
  show ?case
    using quiet(1,2) waiting quiet(3)
  proof (cases rule: turn_comes_closer)
    case (served mx')
    with more show ?thesis
      by (intro exI [of _ 0]) simp
  next
    case (other mx' sg' d)
    have shrink: "before mx' c \<subseteq> before mx c - {d}" "d \<in> before mx c"
      using other(2,3) by (simp_all add: before_push_all)
    have "finite (before mx c)"
      by (simp add: before_def)
    with shrink have less: "card (before mx' c) < card (before mx c)"
      by (metis Diff_subset card_Diff1_less card_mono finite_Diff order_le_less_trans)
    have "\<exists>i \<le> card (before mx' c). writer_turns mx' turns ! i = Some sg"
    proof (rule Cons.IH)
      show "card (before mx' c) < length turns"
        using less Cons.prems(1) by simp
      show "out_queue mx' CONTROL_CHANNEL = []" "out_queue mx' (- 1) = []"
        using other(5,7,10) quiet(2,3) by auto
      show "out_queue mx' c = sg # more"
        using other(5) [of c] other(6) more by simp
    qed (use Cons.prems other(4) in simp_all)
    then obtain i where "i \<le> card (before mx' c)" "writer_turns mx' turns ! i = Some sg"
      by blast
    with less other(1) show ?thesis
      by (intro exI [of _ "Suc i"]) simp
  qed
qed simp


text \<open>
  C21: no channel starves behind the others.  While there are no window updates and the control
  channel is quiet, the head of any channel's queue is written within as many turns as there are
  channels, whatever data the application adds to the channels in between, a bulk transfer
  included.  The ids must stay below the last one, where the cursor no longer advances.
\<close>

theorem writer_serves_everyone:
  assumes "mx_urgent mx = []" and "out_queue mx CONTROL_CHANNEL = []" and "out_queue mx (- 1) = []"
    and "out_queue mx c = sg # rest" and "c \<noteq> CONTROL_CHANNEL"
    and "\<forall>ps \<in> set turns. CONTROL_CHANNEL \<notin> fst ` set ps \<and> - 1 \<notin> fst ` set ps"
    and "card (stations mx) \<le> length turns"
  shows "\<exists>i < card (stations mx). writer_turns mx turns ! i = Some sg"
proof -
  have "c \<in> stations mx"
    using assms(4) by (intro queue_station) simp
  moreover have "before mx c \<subseteq> stations mx - {c}"
    by (auto simp: before_def)
  ultimately have "card (before mx c) < card (stations mx)"
    by (metis card_Diff1_less card_mono finite_Diff finite_stations order_le_less_trans)
  with waits_at_most [OF _ assms(1-6)] assms(7) show ?thesis
    by (meson order_le_less_trans order_less_le_trans)
qed

definition two_waiting :: mux where
  "two_waiting = (mux_start Responder mux_config_default)
     \<lparr>mx_out := RBT.insert 3 [seg_data 3 [1]] (RBT.insert 1 [seg_data 1 [2]] RBT.empty)\<rparr>"

theorem writer_serves_everyone_witness:
  "\<exists>i < 2. writer_turns two_waiting [[], []] ! i = Some (seg_data 3 [1])"
proof -
  have out: "out_queue two_waiting c = (if c = 3 then [seg_data 3 [1]] else if c = 1 then [seg_data 1 [2]] else [])"
    for c by (simp add: two_waiting_def out_queue_def)
  have st: "stations two_waiting = {1, 3}"
    by (auto simp: stations_def two_waiting_def mux_start_def)
  have "\<exists>i < card (stations two_waiting). writer_turns two_waiting [[], []] ! i = Some (seg_data 3 [1])"
    by (rule writer_serves_everyone [where c = 3])
      (simp_all add: out st CONTROL_CHANNEL_def, simp add: two_waiting_def mux_start_def)
  moreover have "card (stations two_waiting) = 2"
    by (simp add: st)
  ultimately show ?thesis
    by (simp only:)
qed

text \<open>
  At the last id the cursor saturates instead of wrapping: a channel there is picked again and
  again for as long as it has data, however long the others wait.
\<close>

lemma last_id_starves_others:
  assumes "mx_urgent mx = []" and "out_queue mx CONTROL_CHANNEL = []" and "mx_cursor mx = - 1"
    and "out_queue mx (- 1) \<noteq> []"
  shows "\<exists>mx'. take_next mx = (mx', Some (hd (out_queue mx (- 1)))) \<and> mx_cursor mx' = - 1 \<and>
    (\<forall>c. c \<noteq> - 1 \<longrightarrow> out_queue mx' c = out_queue mx c)"
proof -
  have p: "pick_channel mx = Some (- 1)"
  proof (cases rule: pick_channel_cases [of mx])
    case (ahead d)
    with assms(3) have "d = - 1"
      by (metis word_order.extremum_unique)
    with ahead show ?thesis by simp
  next
    case (wrapped d)
    with assms show ?thesis by simp
  qed (use assms in simp_all)
  show ?thesis
    by (rule take_next_pick [OF assms(1) p]) (auto simp: next_cursor_def CONTROL_CHANNEL_def)
qed

end
