(* ===== verification/MuxPair.thy ===== *)
theory MuxPair
  imports MuxBound MuxFair
begin

text \<open>
  Two multiplexers that talk to each other.  Each side makes its own calls, its writer puts segments
  on the wire in order, and the other side's reader takes them off in order; nothing else is known of
  the order in which this happens.  The wire carries segments: that the records between the two keep
  and separate them is what theory \<open>Streams\<close> shows.
\<close>

section \<open>The two ends of a connection\<close>

record link_end =
  le_mux :: mux
  le_wire :: "segment list"

datatype pair_act = ActCall mux_op | ActWrite | ActRead

text \<open>The calls of an application that does not shut the connection down.\<close>

fun app_op :: "mux_op \<Rightarrow> bool" where
  "app_op OpOpen = True"
| "app_op (OpSend _ _) = True"
| "app_op (OpRecv _) = True"
| "app_op OpAccept = True"
| "app_op (OpDropSend _) = True"
| "app_op (OpDropRecv _) = True"
| "app_op (OpFinish _) = True"
| "app_op OpClose = False"
| "app_op (OpPeer _) = False"
| "app_op OpWrite = False"
| "app_op (OpFail _) = False"

text \<open>
  One act of the first end: a call, a turn of its writer, or its reader taking the next segment the
  other end wrote.  It is refused where the segment is, or where a closed id would have to be
  forgotten.
\<close>

fun act :: "pair_act \<Rightarrow> link_end \<times> link_end \<Rightarrow> (link_end \<times> link_end) option" where
  "act a (x, y) =
     (if length (mx_retired_order (le_mux x)) \<ge> RETIRED_MEMORY then None
      else
        case a of
          ActCall op \<Rightarrow> if app_op op then Some (x\<lparr>le_mux := mux_step (le_mux x) op\<rparr>, y) else None
        | ActWrite \<Rightarrow>
            (case take_next (le_mux x) of
               (m, None) \<Rightarrow> Some (x\<lparr>le_mux := m\<rparr>, y)
             | (m, Some sg) \<Rightarrow> Some (x\<lparr>le_mux := m, le_wire := le_wire x @ [sg]\<rparr>, y))
        | ActRead \<Rightarrow>
            (case le_wire y of
               [] \<Rightarrow> Some (x, y)
             | sg # rest \<Rightarrow>
                 (case handle_segment (le_mux x) (segment_encode sg) of
                    (m, Inl e) \<Rightarrow> None
                  | (m, Inr _) \<Rightarrow> Some (x\<lparr>le_mux := m\<rparr>, y\<lparr>le_wire := rest\<rparr>))))"

text \<open>A run of both ends: \<open>True\<close> marks an act of the one that opened the connection.\<close>

fun pair_run :: "(bool \<times> pair_act) list \<Rightarrow> link_end \<times> link_end \<Rightarrow> (link_end \<times> link_end) option" where
  "pair_run [] p = Some p"
| "pair_run ((first, a) # as) p =
     (case (if first then act a p else map_option prod.swap (act a (prod.swap p))) of
        None \<Rightarrow> None
      | Some q \<Rightarrow> pair_run as q)"

definition pair_start :: "mux_config \<Rightarrow> link_end \<times> link_end" where
  "pair_start cfg =
     (\<lparr>le_mux = mux_start Initiator cfg, le_wire = []\<rparr>, \<lparr>le_mux = mux_start Responder cfg, le_wire = []\<rparr>)"

section \<open>What an end knows of a channel\<close>

datatype chan_status = CsFresh | CsLive | CsGone

definition status :: "mux \<Rightarrow> channel_id \<Rightarrow> chan_status" where
  "status mx c =
     (if RBT.lookup (mx_channels mx) c \<noteq> None then CsLive
      else if c \<in> mx_retired mx then CsGone else CsFresh)"

definition chan_permits :: "mux \<Rightarrow> channel_id \<Rightarrow> nat" where
  "chan_permits mx c =
     (case RBT.lookup (mx_channels mx) c of None \<Rightarrow> 0 | Some st \<Rightarrow> en_permits (mx_ends mx ! ch_end st))"

definition chan_unacked :: "mux \<Rightarrow> channel_id \<Rightarrow> nat" where
  "chan_unacked mx c = (case RBT.lookup (mx_channels mx) c of None \<Rightarrow> 0 | Some st \<Rightarrow> ch_unacked st)"

text \<open>The segments of a channel but for its window updates, and the credit the updates carry.\<close>

definition line_of :: "channel_id \<Rightarrow> segment list \<Rightarrow> segment list" where
  "line_of c sgs = filter (\<lambda>sg. sg_channel sg = c \<and> sg_kind sg \<noteq> KIND_WINDOW) sgs"

definition grants_of :: "channel_id \<Rightarrow> segment list \<Rightarrow> nat" where
  "grants_of c sgs =
     sum_list (map (\<lambda>sg. if sg_channel sg = c \<and> sg_kind sg = KIND_WINDOW then be_nat (sg_body sg) else 0) sgs)"

definition data_len :: "segment list \<Rightarrow> nat" where
  "data_len sgs = sum_list (map (\<lambda>sg. if sg_kind sg = KIND_DATA then length (sg_body sg) else 0) sgs)"

lemma line_of_simps [simp]:
  "line_of c [] = []" "line_of c (xs @ ys) = line_of c xs @ line_of c ys"
  "line_of c (sg # sgs) = (if sg_channel sg = c \<and> sg_kind sg \<noteq> KIND_WINDOW then [sg] else []) @ line_of c sgs"
  by (simp_all add: line_of_def)

lemma grants_of_simps [simp]:
  "grants_of c [] = 0" "grants_of c (xs @ ys) = grants_of c xs + grants_of c ys"
  "grants_of c (sg # sgs) =
     (if sg_channel sg = c \<and> sg_kind sg = KIND_WINDOW then be_nat (sg_body sg) else 0) + grants_of c sgs"
  by (simp_all add: grants_of_def)

lemma data_len_simps [simp]:
  "data_len [] = 0" "data_len (xs @ ys) = data_len xs + data_len ys"
  "data_len (sg # sgs) = (if sg_kind sg = KIND_DATA then length (sg_body sg) else 0) + data_len sgs"
  by (simp_all add: data_len_def)

text \<open>
  Everything that matters of one channel at one end: its status, the credit it may send on, the bytes
  it received and has not given credit back for, its segments on the way to the other end, whether
  queued or on the wire, and the credit on the way there.
\<close>

record chan_flow =
  cf_status :: chan_status
  cf_permits :: nat
  cf_unacked :: nat
  cf_line :: "segment list"
  cf_credit :: nat

definition flow :: "link_end \<Rightarrow> channel_id \<Rightarrow> chan_flow" where
  "flow x c =
     \<lparr>cf_status = status (le_mux x) c, cf_permits = chan_permits (le_mux x) c,
      cf_unacked = chan_unacked (le_mux x) c, cf_line = line_of c (le_wire x) @ out_queue (le_mux x) c,
      cf_credit = grants_of c (le_wire x) + grants_of c (mx_urgent (le_mux x))\<rparr>"

section \<open>One end by itself\<close>

text \<open>What the calls of an end keep: objects belong to ids that were used, each to its own.\<close>

definition end_ok :: "mux \<Rightarrow> bool" where
  "end_ok mx \<longleftrightarrow> mux_ok mx \<and> \<not> mx_closed mx \<and> distinct (map en_id (mx_ends mx)) \<and>
     (\<forall>en \<in> set (mx_ends mx). status mx (en_id en) \<noteq> CsFresh) \<and>
     (\<forall>c \<in> mx_retired mx. RBT.lookup (mx_channels mx) c = None) \<and>
     (\<forall>c. \<forall>sg \<in> set (out_queue mx c). sg_channel sg = c \<and> sg_kind sg \<in> {KIND_OPEN, KIND_DATA, KIND_RESET}) \<and>
     (\<forall>sg \<in> set (mx_urgent mx). sg_kind sg = KIND_WINDOW \<and> length (sg_body sg) = 4) \<and>
     mx_next_local mx mod 2 = first_channel (mx_role mx)"

definition few_retired :: "mux \<Rightarrow> bool" where
  "few_retired mx \<longleftrightarrow> length (mx_retired_order mx) < RETIRED_MEMORY"

lemma end_okD:
  assumes "end_ok mx"
  shows "mux_ok mx" "\<not> mx_closed mx" "distinct (map en_id (mx_ends mx))"
    "e < length (mx_ends mx) \<Longrightarrow> status mx (en_id (mx_ends mx ! e)) \<noteq> CsFresh"
    "c \<in> mx_retired mx \<Longrightarrow> RBT.lookup (mx_channels mx) c = None"
    "RBT.lookup (mx_channels mx) c = Some st \<Longrightarrow> c \<notin> mx_retired mx"
    "sg \<in> set (out_queue mx c) \<Longrightarrow> sg_channel sg = c \<and> sg_kind sg \<in> {KIND_OPEN, KIND_DATA, KIND_RESET}"
    "sg \<in> set (mx_urgent mx) \<Longrightarrow> sg_kind sg = KIND_WINDOW \<and> length (sg_body sg) = 4"
    "mx_next_local mx mod 2 = first_channel (mx_role mx)"
  using assms by (auto simp: end_ok_def)

lemma mux_start_end_ok: "end_ok (mux_start r cfg)"
  using mux_start_ok [of r cfg] by (cases r) (auto simp: end_ok_def mux_start_def out_queue_def)

text \<open>The object of a live channel is the only one with its id.\<close>

lemma live_end:
  assumes "end_ok mx" "RBT.lookup (mx_channels mx) (en_id (mx_ends mx ! e)) = Some st" "e < length (mx_ends mx)"
  shows "ch_end st = e"
proof -
  have "ch_end st < length (mx_ends mx)" "en_id (mx_ends mx ! ch_end st) = en_id (mx_ends mx ! e)"
    using chan_okD(1,2) [OF mux_okD [OF end_okD(1) [OF assms(1)] assms(2)]] by blast+
  with end_okD(3) [OF assms(1)] assms(3) show ?thesis
    by (metis distinct_conv_nth length_map nth_map)
qed

lemma live_end_iff:
  assumes "end_ok mx" "RBT.lookup (mx_channels mx) d = Some st" "e < length (mx_ends mx)"
  shows "ch_end st = e \<longleftrightarrow> d = en_id (mx_ends mx ! e)"
proof
  assume "ch_end st = e"
  then show "d = en_id (mx_ends mx ! e)"
    using chan_okD(2) [OF mux_okD [OF end_okD(1) [OF assms(1)] assms(2)]] by simp
next
  assume "d = en_id (mx_ends mx ! e)"
  with live_end [OF assms(1) _ assms(3), of st] assms(2) show "ch_end st = e" by simp
qed

lemma retire_few:
  assumes "few_retired mx"
  shows "mx_retired (retire c mx) = insert c (mx_retired mx)"
  using assms
  by (cases "mx_retired_order mx") (auto simp: retire_def few_retired_def insert_absorb)

section \<open>Calls\<close>

text \<open>What a call of the application does to one channel; \<open>own\<close> is the parity of its ids.\<close>

inductive local_move :: "nat \<Rightarrow> channel_id \<Rightarrow> channel_id \<Rightarrow> chan_flow \<Rightarrow> chan_flow \<Rightarrow> bool" for W own c where
  opened: "cf_status f = CsFresh \<Longrightarrow> c mod 2 = own \<Longrightarrow>
    local_move W own c f (f\<lparr>cf_status := CsLive, cf_permits := W, cf_unacked := 0,
      cf_line := cf_line f @ [seg_open c]\<rparr>)"
| sent: "cf_status f = CsLive \<Longrightarrow> length body \<le> cf_permits f \<Longrightarrow>
    local_move W own c f (f\<lparr>cf_permits := cf_permits f - length body, cf_line := cf_line f @ [seg_data c body]\<rparr>)"
| credited: "cf_status f = CsLive \<Longrightarrow> n \<le> cf_unacked f \<Longrightarrow>
    local_move W own c f (f\<lparr>cf_unacked := cf_unacked f - n, cf_credit := cf_credit f + n\<rparr>)"
| closed: "cf_status f = CsLive \<Longrightarrow>
    local_move W own c f (f\<lparr>cf_status := CsGone, cf_permits := 0, cf_unacked := 0,
      cf_line := cf_line f @ [seg_reset c]\<rparr>)"

text \<open>Two states of an end that agree on everything that matters, and one that made one move.\<close>

definition same_flow :: "mux \<Rightarrow> mux \<Rightarrow> bool" where
  "same_flow mx mx' \<longleftrightarrow> (\<forall>w. flow \<lparr>le_mux = mx', le_wire = w\<rparr> = flow \<lparr>le_mux = mx, le_wire = w\<rparr>)"

definition one_move :: "mux \<Rightarrow> mux \<Rightarrow> bool" where
  "one_move mx mx' \<longleftrightarrow> (\<exists>c. \<forall>w. \<exists>f.
     local_move (mux_window mx) (first_channel (mx_role mx)) c (flow \<lparr>le_mux = mx, le_wire = w\<rparr> c) f \<and>
     flow \<lparr>le_mux = mx', le_wire = w\<rparr> = (flow \<lparr>le_mux = mx, le_wire = w\<rparr>)(c := f))"

lemma same_flow_refl [simp]: "same_flow mx mx"
  by (simp add: same_flow_def)

lemma nth_permits_update:
  "en_permits en = en_permits (ens ! e) \<Longrightarrow> en_permits (ens[e := en] ! i) = en_permits (ens ! i)"
  by (cases "e < length ens") (auto simp: nth_list_update list_update_beyond)

lemma same_flow_update_end:
  assumes "\<And>en. en_permits (f en) = en_permits en"
  shows "same_flow mx (update_end e f mx)"
proof -
  have "en_permits ((mx_ends mx)[e := f (mx_ends mx ! e)] ! i) = en_permits (mx_ends mx ! i)" for i
    using assms by (intro nth_permits_update) simp
  then show ?thesis
    by (simp add: same_flow_def flow_def fun_eq_iff status_def chan_permits_def chan_unacked_def
        split: option.split)
qed

lemma status_update_end [simp]: "status (update_end e f mx) c = status mx c"
  by (simp add: status_def)

lemma map_id_update:
  assumes "en_id en = en_id (ens ! e)"
  shows "map en_id (ens[e := en]) = map en_id ens"
proof (cases "e < length ens")
  case True
  with assms show ?thesis by (simp add: map_update list_update_same_conv)
qed (simp add: list_update_beyond)

lemma status_enqueue [simp]: "status (enqueue c sgs mx) d = status mx d"
  by (simp add: status_def)

lemma end_ok_enqueue:
  assumes "end_ok mx" and "\<forall>sg \<in> set sgs. sg_channel sg = c \<and> sg_kind sg \<in> {KIND_OPEN, KIND_DATA, KIND_RESET}"
  shows "end_ok (enqueue c sgs mx)"
proof -
  have "mux_ok (enqueue c sgs mx)" using assms(1) by (simp add: end_ok_def enqueue_def)
  with assms show ?thesis by (auto simp: end_ok_def)
qed

lemma end_ok_update_end:
  assumes "end_ok mx" and "no_more (mx_cfg mx) (mx_ends mx ! e) (f (mx_ends mx ! e))"
  shows "end_ok (update_end e f mx)"
proof -
  have ids: "map en_id ((mx_ends mx)[e := f (mx_ends mx ! e)]) = map en_id (mx_ends mx)"
    using assms(2) by (intro map_id_update) (simp add: no_more_def)
  then have idset: "en_id ` set ((mx_ends mx)[e := f (mx_ends mx ! e)]) = en_id ` set (mx_ends mx)"
    by (metis list.set_map)
  have used: "\<forall>en \<in> set ((mx_ends mx)[e := f (mx_ends mx ! e)]). status mx (en_id en) \<noteq> CsFresh"
  proof
    fix en assume "en \<in> set ((mx_ends mx)[e := f (mx_ends mx ! e)])"
    then have "en_id en \<in> en_id ` set (mx_ends mx)"
      unfolding idset [symmetric] by (rule imageI)
    then obtain en0 where "en0 \<in> set (mx_ends mx)" "en_id en = en_id en0" by (elim imageE)
    then show "status mx (en_id en) \<noteq> CsFresh"
      using assms(1) by (simp add: end_ok_def)
  qed
  from used assms ids mux_ok_no_more [of mx e f] show ?thesis
    by (simp add: end_ok_def)
qed

lemma retire_fields [simp]:
  "mx_cfg (retire c mx) = mx_cfg mx" "mx_role (retire c mx) = mx_role mx"
  "mx_next_local (retire c mx) = mx_next_local mx" "mx_urgent (retire c mx) = mx_urgent mx"
  "mx_out (retire c mx) = mx_out mx" "mx_channels (retire c mx) = mx_channels mx"
  "mx_closed (retire c mx) = mx_closed mx" "mx_ends (retire c mx) = mx_ends mx"
  "out_queue (retire c mx) d = out_queue mx d"
  by (simp_all add: retire_def out_queue_def split: prod.split)

text \<open>Closing a channel; the second of two closings finds nothing.\<close>

lemma close_channel_dead: "RBT.lookup (mx_channels mx) c = None \<Longrightarrow> close_channel mx c = mx"
  by (simp add: close_channel_def)

lemma close_channel_moves:
  assumes ok: "end_ok mx" and few: "few_retired mx" and live: "RBT.lookup (mx_channels mx) c = Some st"
  shows "end_ok (close_channel mx c) \<and> RBT.lookup (mx_channels (close_channel mx c)) c = None \<and>
    (\<forall>w. flow \<lparr>le_mux = close_channel mx c, le_wire = w\<rparr> = (flow \<lparr>le_mux = mx, le_wire = w\<rparr>)
       (c := (flow \<lparr>le_mux = mx, le_wire = w\<rparr> c)\<lparr>cf_status := CsGone, cf_permits := 0, cf_unacked := 0,
          cf_line := cf_line (flow \<lparr>le_mux = mx, le_wire = w\<rparr> c) @ [seg_reset c]\<rparr>))"
proof -
  let ?mx1 = "update_end (ch_end st) (\<lambda>en. en\<lparr>en_tx := False\<rparr>) (mx\<lparr>mx_channels := RBT.delete c (mx_channels mx)\<rparr>)"
  have mx': "close_channel mx c = enqueue c [seg_reset c] (retire c ?mx1)"
    using live end_okD(2) [OF ok] by (simp add: close_channel_def)
  have "few_retired ?mx1" using few by (simp add: few_retired_def)
  then have ret: "mx_retired (close_channel mx c) = insert c (mx_retired mx)"
    by (simp add: mx' retire_few)
  have fields: "mx_channels (close_channel mx c) = RBT.delete c (mx_channels mx)"
    "mx_urgent (close_channel mx c) = mx_urgent mx" "mx_closed (close_channel mx c) = mx_closed mx"
    "mx_next_local (close_channel mx c) = mx_next_local mx" "mx_role (close_channel mx c) = mx_role mx"
    "mx_ends (close_channel mx c) = (mx_ends mx)[ch_end st := (mx_ends mx ! ch_end st)\<lparr>en_tx := False\<rparr>]"
    "\<And>d. out_queue (close_channel mx c) d = out_queue mx d @ (if d = c then [seg_reset c] else [])"
    by (simp_all add: mx') (simp add: out_queue_def)
  have stat: "status (close_channel mx c) d = (if d = c then CsGone else status mx d)" for d
    by (simp add: status_def fields ret)
  have ids: "map en_id ((mx_ends mx)[ch_end st := (mx_ends mx ! ch_end st)\<lparr>en_tx := False\<rparr>]) = map en_id (mx_ends mx)"
    by (simp add: map_id_update)
  then have idset: "en_id ` set ((mx_ends mx)[ch_end st := (mx_ends mx ! ch_end st)\<lparr>en_tx := False\<rparr>]) = en_id ` set (mx_ends mx)"
    by (metis list.set_map)
  have "end_ok (close_channel mx c)"
    unfolding end_ok_def
  proof (intro conjI)
    show "mux_ok (close_channel mx c)" by (rule mux_ok_close_channel [OF end_okD(1) [OF ok]])
    show "\<forall>en \<in> set (mx_ends (close_channel mx c)). status (close_channel mx c) (en_id en) \<noteq> CsFresh"
    proof
      fix en assume "en \<in> set (mx_ends (close_channel mx c))"
      then have "en_id en \<in> en_id ` set (mx_ends mx)" using idset by (auto simp: fields)
      then show "status (close_channel mx c) (en_id en) \<noteq> CsFresh"
        using ok by (auto simp: stat end_ok_def)
    qed
  qed (use ok in \<open>auto simp: fields ret ids end_ok_def seg_reset_def\<close>)
  moreover have "flow \<lparr>le_mux = close_channel mx c, le_wire = w\<rparr> d =
      ((flow \<lparr>le_mux = mx, le_wire = w\<rparr>)
       (c := (flow \<lparr>le_mux = mx, le_wire = w\<rparr> c)\<lparr>cf_status := CsGone, cf_permits := 0, cf_unacked := 0,
          cf_line := cf_line (flow \<lparr>le_mux = mx, le_wire = w\<rparr> c) @ [seg_reset c]\<rparr>)) d" for w d
  proof -
    have "en_permits ((mx_ends mx)[ch_end st := (mx_ends mx ! ch_end st)\<lparr>en_tx := False\<rparr>] ! i) = en_permits (mx_ends mx ! i)" for i
      by (simp add: nth_permits_update)
    then show ?thesis
      by (simp add: flow_def stat chan_permits_def chan_unacked_def fields split: option.split)
  qed
  ultimately show ?thesis by (simp add: fields fun_eq_iff)
qed

lemma close_channel_one_move:
  assumes "end_ok mx" "few_retired mx" "RBT.lookup (mx_channels mx) c = Some st"
  shows "one_move mx (close_channel mx c)"
  unfolding one_move_def
proof (intro exI [of _ c] allI)
  fix w
  have "cf_status (flow \<lparr>le_mux = mx, le_wire = w\<rparr> c) = CsLive" using assms(3) by (simp add: flow_def status_def)
  with close_channel_moves [OF assms]
  show "\<exists>f. local_move (mux_window mx) (first_channel (mx_role mx)) c (flow \<lparr>le_mux = mx, le_wire = w\<rparr> c) f \<and>
      flow \<lparr>le_mux = close_channel mx c, le_wire = w\<rparr> = (flow \<lparr>le_mux = mx, le_wire = w\<rparr>)(c := f)"
    by (blast intro: local_move.closed)
qed

definition one_step :: "mux \<Rightarrow> mux \<Rightarrow> bool" where
  "one_step mx mx' \<longleftrightarrow> end_ok mx' \<and> mx_cfg mx' = mx_cfg mx \<and> mx_role mx' = mx_role mx \<and>
     (same_flow mx mx' \<or> one_move mx mx')"

lemma one_step_same_first:
  "same_flow mx mx1 \<Longrightarrow> mx_cfg mx1 = mx_cfg mx \<Longrightarrow> mx_role mx1 = mx_role mx \<Longrightarrow> one_step mx1 mx2 \<Longrightarrow> one_step mx mx2"
  by (auto simp: one_step_def same_flow_def one_move_def mux_window_def)

lemma one_step_same_last:
  "one_step mx mx1 \<Longrightarrow> same_flow mx1 mx2 \<Longrightarrow> end_ok mx2 \<Longrightarrow> mx_cfg mx2 = mx_cfg mx1 \<Longrightarrow> mx_role mx2 = mx_role mx1 \<Longrightarrow>
     one_step mx mx2"
  by (auto simp: one_step_def same_flow_def one_move_def)

lemma one_step_refl: "end_ok mx \<Longrightarrow> one_step mx mx"
  by (simp add: one_step_def)

lemma mx_role_const:
  "mx_role (close_channel mx c) = mx_role mx" "mx_role (drop_guard mx e) = mx_role mx"
  "mx_role (drop_send mx e) = mx_role mx" "mx_role (drop_recv mx e) = mx_role mx"
  by (simp_all add: close_channel_def drop_guard_def drop_send_def drop_recv_def Let_def split: option.split)

lemma one_step_close_channel:
  "end_ok mx \<Longrightarrow> few_retired mx \<Longrightarrow> one_step mx (close_channel mx c)"
  using close_channel_moves [of mx c] close_channel_one_move [of mx c]
  by (cases "RBT.lookup (mx_channels mx) c")
    (auto simp: close_channel_dead one_step_refl one_step_def mux_cfg_const mx_role_const)

lemma one_step_drop_guard:
  "end_ok mx \<Longrightarrow> few_retired mx \<Longrightarrow> one_step mx (drop_guard mx e)"
  by (simp add: drop_guard_def Let_def one_step_refl one_step_close_channel)

text \<open>An object that loses a half or its frames.\<close>

lemma one_step_lose:
  assumes "end_ok mx" "few_retired mx"
    and "\<And>en. en_permits (f en) = en_permits en" "no_more (mx_cfg mx) (mx_ends mx ! e) (f (mx_ends mx ! e))"
  shows "one_step mx (drop_guard (update_end e f mx) e)"
proof (rule one_step_same_first)
  show "same_flow mx (update_end e f mx)" by (rule same_flow_update_end [OF assms(3)])
  show "one_step (update_end e f mx) (drop_guard (update_end e f mx) e)"
    using assms by (intro one_step_drop_guard end_ok_update_end) (simp_all add: few_retired_def)
qed simp_all

lemma one_step_drops:
  assumes "end_ok mx" "few_retired mx"
  shows "one_step mx (drop_send mx e)" "one_step mx (drop_recv mx e)"
  unfolding drop_send_def drop_recv_def using assms
  by (intro one_step_lose; simp add: no_more_def)+

lemma one_step_finish:
  assumes ok: "end_ok mx" and few: "few_retired mx" and e: "e < length (mx_ends mx)"
  shows "one_step mx (mux_finish mx e)"
proof (cases "RBT.lookup (mx_channels mx) (en_id (mx_ends mx ! e))")
  case None
  with ok few show ?thesis by (simp add: mux_finish_def close_channel_dead one_step_drops)
next
  case (Some st)
  let ?c = "en_id (mx_ends mx ! e)" and ?f = "\<lambda>en. en\<lparr>en_send_half := False\<rparr>"
  let ?mx1 = "close_channel mx ?c"
  from close_channel_moves [OF ok few Some] close_channel_one_move [OF ok few Some] have m: "end_ok ?mx1" "one_move mx ?mx1" "RBT.lookup (mx_channels ?mx1) ?c = None"
    by blast+
  have id: "en_id (mx_ends ?mx1 ! e) = ?c"
    using Some end_okD(2) [OF ok] e live_end [OF ok Some e] by (simp add: close_channel_def)
  then have "en_id (mx_ends (update_end e ?f ?mx1) ! e) = ?c"
    by (cases "e < length (mx_ends ?mx1)") (simp_all add: list_update_beyond)
  then have "mux_finish mx e = update_end e ?f ?mx1"
    using m(3) by (simp add: mux_finish_def drop_send_def drop_guard_def Let_def close_channel_dead)
  moreover have "end_ok (update_end e ?f ?mx1)"
    using m(1) by (rule end_ok_update_end) (simp add: no_more_def)
  moreover have "same_flow ?mx1 (update_end e ?f ?mx1)"
    by (rule same_flow_update_end) simp
  moreover have "one_step mx ?mx1"
    using m by (simp add: one_step_def mux_cfg_const mx_role_const)
  ultimately show ?thesis
    using one_step_same_last [of mx ?mx1 "update_end e ?f ?mx1"] by simp
qed

lemma one_step_send:
  assumes ok: "end_ok mx" and e: "e < length (mx_ends mx)"
  shows "one_step mx (fst (send_chunk mx e chunk))"
proof -
  let ?en = "mx_ends mx ! e" and ?f = "\<lambda>en. en\<lparr>en_permits := en_permits en - length chunk\<rparr>"
  let ?c = "en_id ?en" and ?mx1 = "update_end e ?f mx"
  show ?thesis
  proof (cases "length chunk > u32_max \<or> en_sem_closed ?en \<or> en_permits ?en < length chunk")
    case True
    with ok show ?thesis by (auto simp: send_chunk_def Let_def one_step_refl)
  next
    case False
    then have sent: "fst (send_chunk mx e chunk) = fst (push_data ?mx1 ?c chunk)"
      by (simp add: send_chunk_def Let_def case_prod_beta)
    have ok1: "end_ok ?mx1" using ok by (rule end_ok_update_end) (simp add: no_more_def)
    show ?thesis
    proof (cases "RBT.lookup (mx_channels mx) ?c")
      case None
      have "same_flow mx ?mx1"
      proof -
        have "en_permits (mx_ends ?mx1 ! ch_end st) = en_permits (mx_ends mx ! ch_end st)"
          if st: "RBT.lookup (mx_channels mx) d = Some st" for d st
        proof -
          have "ch_end st \<noteq> e"
            using chan_okD(2) [OF mux_okD [OF end_okD(1) [OF ok] st]] None st by auto
          then show ?thesis by simp
        qed
        then show ?thesis
          by (simp add: same_flow_def flow_def fun_eq_iff chan_permits_def chan_unacked_def split: option.split)
      qed
      with None ok1 show ?thesis by (simp add: sent push_data_def one_step_def)
    next
      case (Some st)
      have st: "ch_end st = e" by (rule live_end [OF ok Some e])
      let ?mx2 = "enqueue ?c [seg_data ?c chunk] ?mx1"
      have "end_ok ?mx2"
        using ok1 by (rule end_ok_enqueue) (simp add: seg_data_def)
      moreover have "one_move mx ?mx2"
        unfolding one_move_def
      proof (intro exI [of _ ?c] allI)
        fix w
        let ?g = "flow \<lparr>le_mux = mx, le_wire = w\<rparr>"
        have "chan_permits ?mx2 d = (if d = ?c then chan_permits mx d - length chunk else chan_permits mx d)" for d
        proof (cases "RBT.lookup (mx_channels mx) d")
          case (Some st')
          with e live_end_iff [OF ok Some e] show ?thesis
            by (cases "ch_end st' = e") (simp_all add: chan_permits_def)
        qed (use Some in \<open>auto simp: chan_permits_def\<close>)
        then have "flow \<lparr>le_mux = ?mx2, le_wire = w\<rparr> = ?g(?c := (?g ?c)\<lparr>cf_permits := cf_permits (?g ?c) - length chunk,
            cf_line := cf_line (?g ?c) @ [seg_data ?c chunk]\<rparr>)"
          by (auto simp: flow_def fun_eq_iff status_def chan_unacked_def)
        moreover have "cf_status (?g ?c) = CsLive" "length chunk \<le> cf_permits (?g ?c)"
          using Some st False by (simp_all add: flow_def status_def chan_permits_def)
        ultimately show "\<exists>f. local_move (mux_window mx) (first_channel (mx_role mx)) ?c (?g ?c) f \<and>
            flow \<lparr>le_mux = ?mx2, le_wire = w\<rparr> = ?g(?c := f)"
          by (blast intro: local_move.sent)
      qed
      moreover have "fst (push_data ?mx1 ?c chunk) = ?mx2"
        using Some end_okD(2) [OF ok] by (simp add: push_data_def)
      ultimately show ?thesis by (simp add: sent one_step_def)
    qed
  qed
qed

lemma return_credit_fields:
  "mx_cfg (return_credit mx c n) = mx_cfg mx" "mx_role (return_credit mx c n) = mx_role mx"
  "mx_closed (return_credit mx c n) = mx_closed mx" "mx_ends (return_credit mx c n) = mx_ends mx"
  "mx_next_local (return_credit mx c n) = mx_next_local mx" "mx_retired (return_credit mx c n) = mx_retired mx"
  "out_queue (return_credit mx c n) d = out_queue mx d"
  "(RBT.lookup (mx_channels (return_credit mx c n)) d = None) = (RBT.lookup (mx_channels mx) d = None)"
  by (auto simp: return_credit_def out_queue_def split: option.splits)

lemma be_nat_window [simp]: "n \<le> u32_max \<Longrightarrow> be_nat (sg_body (seg_window c n)) = n"
  by (simp add: seg_window_def be_nat_of_nat_be u32_max_def)

lemma seg_parts [simp]:
  "sg_channel (seg_window c n) = c" "sg_kind (seg_window c n) = KIND_WINDOW" "length (sg_body (seg_window c n)) = 4"
  "sg_channel (seg_data c b) = c" "sg_kind (seg_data c b) = KIND_DATA" "sg_body (seg_data c b) = b"
  "sg_channel (seg_open c) = c" "sg_kind (seg_open c) = KIND_OPEN"
  "sg_channel (seg_reset c) = c" "sg_kind (seg_reset c) = KIND_RESET"
  by (simp_all add: seg_window_def seg_data_def seg_open_def seg_reset_def)

lemma return_credit_flow:
  assumes "\<not> mx_closed mx"
    and "\<And>st. RBT.lookup (mx_channels mx) c = Some st \<Longrightarrow> n \<le> ch_unacked st"
  shows "same_flow mx (return_credit mx c n) \<or> one_move mx (return_credit mx c n)"
proof (cases "n > u32_max \<or> RBT.lookup (mx_channels mx) c = None")
  case True
  with assms(1) show ?thesis by (auto simp: return_credit_def)
next
  case False
  then obtain st where st: "RBT.lookup (mx_channels mx) c = Some st" "n \<le> u32_max" by auto
  let ?mx' = "return_credit mx c n"
  have mx': "mx_channels ?mx' = RBT.insert c (st\<lparr>ch_unacked := ch_unacked st - n\<rparr>) (mx_channels mx)"
    "mx_urgent ?mx' = mx_urgent mx @ [seg_window c n]"
    using st assms(1) by (simp_all add: return_credit_def)
  have "one_move mx ?mx'"
    unfolding one_move_def
  proof (intro exI [of _ c] allI)
    fix w
    let ?g = "flow \<lparr>le_mux = mx, le_wire = w\<rparr>"
    have "flow \<lparr>le_mux = ?mx', le_wire = w\<rparr> = ?g(c := (?g c)\<lparr>cf_unacked := cf_unacked (?g c) - n,
        cf_credit := cf_credit (?g c) + n\<rparr>)"
      using st by (auto simp: flow_def fun_eq_iff status_def chan_permits_def chan_unacked_def
          return_credit_fields mx')
    moreover have "cf_status (?g c) = CsLive" "n \<le> cf_unacked (?g c)"
      using st assms(2) by (simp_all add: flow_def status_def chan_unacked_def)
    ultimately show "\<exists>f. local_move (mux_window mx) (first_channel (mx_role mx)) c (?g c) f \<and>
        flow \<lparr>le_mux = ?mx', le_wire = w\<rparr> = ?g(c := f)"
      by (blast intro: local_move.credited)
  qed
  then show ?thesis ..
qed

lemma one_step_recv:
  assumes ok: "end_ok mx" and e: "e < length (mx_ends mx)"
  shows "one_step mx (fst (mux_recv mx e))"
proof (cases "en_queue (mx_ends mx ! e)")
  case Nil
  with ok show ?thesis by (simp add: mux_recv_def one_step_refl)
next
  case (Cons fr rest)
  let ?f = "\<lambda>en. en\<lparr>en_queue := rest\<rparr>" and ?c = "en_id (mx_ends mx ! e)"
  let ?mx1 = "update_end e ?f mx" and ?n = "wire_len fr"
  have mx': "fst (mux_recv mx e) = return_credit ?mx1 ?c ?n"
    using Cons by (simp add: mux_recv_def)
  have ok1: "end_ok ?mx1"
    using ok Cons by (intro end_ok_update_end) (simp_all add: no_more_def queued_def)
  have "?n \<le> ch_unacked st" if st: "RBT.lookup (mx_channels ?mx1) ?c = Some st" for st
  proof -
    from st have st': "RBT.lookup (mx_channels mx) ?c = Some st" by simp
    have "?n \<le> queued (mx_ends mx ! e)" using Cons by (simp add: queued_def)
    also have "\<dots> \<le> ch_unacked st"
      using chan_okD(6) [OF mux_okD [OF end_okD(1) [OF ok] st']] live_end [OF ok st' e] by simp
    finally show ?thesis .
  qed
  then have moved: "same_flow ?mx1 (return_credit ?mx1 ?c ?n) \<or> one_move ?mx1 (return_credit ?mx1 ?c ?n)"
    using end_okD(2) [OF ok1] by (intro return_credit_flow)
  have urgent: "\<forall>sg \<in> set (mx_urgent (return_credit ?mx1 ?c ?n)). sg_kind sg = KIND_WINDOW \<and> length (sg_body sg) = 4"
    using end_okD(8) [OF ok1] by (auto simp: return_credit_def split: option.splits)
  have "status (return_credit ?mx1 ?c ?n) d = status ?mx1 d" for d
    by (simp add: status_def return_credit_fields del: update_end_fields)
  moreover have "mux_ok (return_credit ?mx1 ?c ?n)"
    using mux_ok_recv [OF end_okD(1) [OF ok] e] by (simp add: mx')
  ultimately have "end_ok (return_credit ?mx1 ?c ?n)"
    using ok1 urgent by (simp add: end_ok_def return_credit_fields del: update_end_fields)
  with moved have "one_step ?mx1 (return_credit ?mx1 ?c ?n)"
    by (simp add: one_step_def return_credit_fields)
  moreover have "same_flow mx ?mx1" by (rule same_flow_update_end) simp
  ultimately show ?thesis
    unfolding mx' by (intro one_step_same_first [of mx ?mx1]) simp_all
qed

text \<open>Fields that no channel's flow depends on.\<close>

lemma flow_irrelevant [simp]:
  "status (mx\<lparr>mx_next_local := n\<rparr>) c = status mx c" "status (mx\<lparr>mx_accept_queue := a\<rparr>) c = status mx c"
  "out_queue (mx\<lparr>mx_next_local := n\<rparr>) c = out_queue mx c" "out_queue (mx\<lparr>mx_accept_queue := a\<rparr>) c = out_queue mx c"
  "chan_permits (mx\<lparr>mx_next_local := n\<rparr>) c = chan_permits mx c"
  "chan_permits (mx\<lparr>mx_accept_queue := a\<rparr>) c = chan_permits mx c"
  "chan_unacked (mx\<lparr>mx_next_local := n\<rparr>) c = chan_unacked mx c"
  "chan_unacked (mx\<lparr>mx_accept_queue := a\<rparr>) c = chan_unacked mx c"
  "chan_permits (enqueue d sgs mx) c = chan_permits mx c" "chan_unacked (enqueue d sgs mx) c = chan_unacked mx c"
  by (simp_all add: status_def out_queue_def chan_permits_def chan_unacked_def split: option.split)

lemma end_ok_irrelevant [simp]: "end_ok (mx\<lparr>mx_accept_queue := a\<rparr>) = end_ok mx"
  by (simp add: end_ok_def)

text \<open>A new channel, on either side.\<close>

lemma insert_channel_facts:
  assumes ok: "end_ok mx" and fresh: "status mx c = CsFresh" and room: "mux_len mx < mc_max_channels (mx_cfg mx)"
    and ins: "insert_channel mx c = (mx', e)"
  shows "end_ok mx' \<and> e < length (mx_ends mx') \<and> en_id (mx_ends mx' ! e) = c \<and> mx_cfg mx' = mx_cfg mx \<and>
    mx_role mx' = mx_role mx \<and> mx_retired_order mx' = mx_retired_order mx \<and>
    (\<forall>w. flow \<lparr>le_mux = mx', le_wire = w\<rparr> = (flow \<lparr>le_mux = mx, le_wire = w\<rparr>)
       (c := (flow \<lparr>le_mux = mx, le_wire = w\<rparr> c)\<lparr>cf_status := CsLive, cf_permits := mux_window mx, cf_unacked := 0\<rparr>))"
proof -
  let ?en = "\<lparr>en_id = c, en_permits = mux_window mx, en_sem_closed = False, en_queue = [],
      en_tx = True, en_send_half = True, en_recv_half = True\<rparr>"
  let ?st = "\<lparr>ch_end = length (mx_ends mx), ch_inbound = True, ch_assembler = [], ch_unacked = 0\<rparr>"
  have none: "RBT.lookup (mx_channels mx) c = None" "c \<notin> mx_retired mx"
    using fresh by (auto simp: status_def split: if_splits)
  have unused: "en_id (mx_ends mx ! i) \<noteq> c" if "i < length (mx_ends mx)" for i
    using end_okD(4) [OF ok that] fresh by auto
  have f: "mx_channels mx' = RBT.insert c ?st (mx_channels mx)" "mx_ends mx' = mx_ends mx @ [?en]" "e = length (mx_ends mx)"
    "mx_cfg mx' = mx_cfg mx" "mx_role mx' = mx_role mx" "mx_retired mx' = mx_retired mx"
    "mx_retired_order mx' = mx_retired_order mx" "mx_closed mx' = mx_closed mx" "mx_urgent mx' = mx_urgent mx"
    "mx_next_local mx' = mx_next_local mx" "\<And>d. out_queue mx' d = out_queue mx d"
    using ins by (auto simp: insert_channel_def Let_def) (simp add: out_queue_def)+
  have "\<not> list_ex (\<lambda>en. en_id en = c \<and> en_queue en \<noteq> []) (mx_ends mx)"
    unfolding list_ex_length using unused by blast
  then have "mux_ok (fst (insert_channel mx c))"
    by (rule mux_ok_insert [OF end_okD(1) [OF ok] room none(1)])
  then have mok: "mux_ok mx'" by (simp add: ins)
  have stat: "status mx' d = (if d = c then CsLive else status mx d)" for d
    by (simp add: status_def f)
  have "c \<notin> set (map en_id (mx_ends mx))"
    unfolding in_set_conv_nth using unused by (metis length_map nth_map)
  then have "end_ok mx'"
    using ok mok none by (auto simp: end_ok_def f stat)
  moreover have "flow \<lparr>le_mux = mx', le_wire = w\<rparr> d = ((flow \<lparr>le_mux = mx, le_wire = w\<rparr>)
       (c := (flow \<lparr>le_mux = mx, le_wire = w\<rparr> c)\<lparr>cf_status := CsLive, cf_permits := mux_window mx, cf_unacked := 0\<rparr>)) d"
    for w d
  proof (cases "RBT.lookup (mx_channels mx) d")
    case (Some st)
    with none have "d \<noteq> c" by auto
    with chan_okD(1) [OF mux_okD [OF end_okD(1) [OF ok] Some]] Some show ?thesis
      by (simp add: flow_def stat chan_permits_def chan_unacked_def f nth_append)
  qed (simp add: flow_def stat chan_permits_def chan_unacked_def f)
  ultimately show ?thesis
    by (simp add: f fun_eq_iff)
qed

lemma even_step: "(c + 2) mod 2 = (c mod 2 :: channel_id)"
  by (simp add: mod_2_eq_odd)

lemma end_ok_next_local:
  "end_ok mx \<Longrightarrow> end_ok (mx\<lparr>mx_next_local := mx_next_local mx + 2\<rparr>)"
  by (auto simp: end_ok_def even_step)

lemma one_step_open:
  assumes ok: "end_ok mx"
  shows "one_step mx (fst (open_local mx))"
proof -
  let ?c = "mx_next_local mx" and ?mx0 = "mx\<lparr>mx_next_local := mx_next_local mx + 2\<rparr>"
  have ok0: "end_ok ?mx0" using ok by (rule end_ok_next_local)
  have same: "same_flow mx ?mx0"
    by (simp add: same_flow_def flow_def fun_eq_iff)
  show ?thesis
  proof (cases "mux_len ?mx0 \<ge> mc_max_channels (mx_cfg mx) \<or> RBT.lookup (mx_channels mx) ?c \<noteq> None \<or> ?c \<in> mx_retired mx")
    case True
    with end_okD(2) [OF ok] have "fst (open_local mx) = ?mx0"
      by (auto simp: open_local_def Let_def)
    with ok0 same show ?thesis by (simp add: one_step_def)
  next
    case False
    obtain mx1 e where ins: "insert_channel ?mx0 ?c = (mx1, e)" by fastforce
    have "status ?mx0 ?c = CsFresh" using False by (auto simp: status_def)
    from insert_channel_facts [OF ok0 this _ ins] False
    have f: "end_ok mx1" "mx_cfg mx1 = mx_cfg mx" "mx_role mx1 = mx_role mx"
      "\<And>w. flow \<lparr>le_mux = mx1, le_wire = w\<rparr> = (flow \<lparr>le_mux = ?mx0, le_wire = w\<rparr>)
       (?c := (flow \<lparr>le_mux = ?mx0, le_wire = w\<rparr> ?c)\<lparr>cf_status := CsLive, cf_permits := mux_window mx, cf_unacked := 0\<rparr>)"
      by (auto simp: mux_window_def)
    let ?mx2 = "enqueue ?c [seg_open ?c] mx1"
    have "one_move mx ?mx2"
      unfolding one_move_def
    proof (intro exI [of _ ?c] allI)
      fix w
      let ?g = "flow \<lparr>le_mux = mx, le_wire = w\<rparr>"
      have g: "flow \<lparr>le_mux = ?mx0, le_wire = w\<rparr> = ?g" using same by (simp add: same_flow_def)
      have "flow \<lparr>le_mux = ?mx2, le_wire = w\<rparr> d = (flow \<lparr>le_mux = mx1, le_wire = w\<rparr> d)
          \<lparr>cf_line := cf_line (flow \<lparr>le_mux = mx1, le_wire = w\<rparr> d) @ (if d = ?c then [seg_open ?c] else [])\<rparr>" for d
        by (simp add: flow_def)
      then have "flow \<lparr>le_mux = ?mx2, le_wire = w\<rparr> = ?g(?c := (?g ?c)\<lparr>cf_status := CsLive, cf_permits := mux_window mx,
          cf_unacked := 0, cf_line := cf_line (?g ?c) @ [seg_open ?c]\<rparr>)"
        by (simp add: fun_eq_iff f(4) g)
      moreover have "cf_status (?g ?c) = CsFresh" using False by (simp add: flow_def status_def)
      ultimately show "\<exists>f. local_move (mux_window mx) (first_channel (mx_role mx)) ?c (?g ?c) f \<and>
          flow \<lparr>le_mux = ?mx2, le_wire = w\<rparr> = ?g(?c := f)"
        using end_okD(9) [OF ok] by (blast intro: local_move.opened)
    qed
    moreover have "end_ok ?mx2" using f(1) by (rule end_ok_enqueue) simp
    moreover have "fst (open_local mx) = ?mx2"
      using False ins end_okD(2) [OF ok] by (auto simp: open_local_def Let_def)
    ultimately show ?thesis by (simp add: one_step_def f(2,3))
  qed
qed

lemma one_step_accept: "end_ok mx \<Longrightarrow> one_step mx (fst (accept_bi mx))"
  by (auto simp: accept_bi_def one_step_def same_flow_def flow_def fun_eq_iff split: list.split)

lemma call_step:
  assumes "end_ok mx" "few_retired mx" "app_op op"
  shows "one_step mx (mux_step mx op)"
  using assms by (cases op) (simp_all add: one_step_refl one_step_open one_step_send one_step_recv
      one_step_accept one_step_drops one_step_finish)

section \<open>The writer\<close>

definition sound_segment :: "segment \<Rightarrow> bool" where
  "sound_segment sg \<longleftrightarrow> (sg_kind sg = KIND_WINDOW \<and> length (sg_body sg) = 4) \<or>
     sg_kind sg \<in> {KIND_OPEN, KIND_DATA, KIND_RESET}"

lemma take_next_fields:
  assumes "take_next mx = (mx', r)"
  shows "mx_cfg mx' = mx_cfg mx" "mx_role mx' = mx_role mx" "mx_channels mx' = mx_channels mx"
    "mx_ends mx' = mx_ends mx" "mx_retired mx' = mx_retired mx" "mx_retired_order mx' = mx_retired_order mx"
    "mx_closed mx' = mx_closed mx" "mx_next_local mx' = mx_next_local mx"
  using assms by (auto simp: take_next_def Let_def split: list.splits option.splits if_splits)

text \<open>What leaves the queues is on the wire, in the order of its channel.\<close>

lemma take_step:
  assumes ok: "end_ok mx" and t: "take_next mx = (mx', r)"
  shows "end_ok mx' \<and>
    (\<forall>w. flow \<lparr>le_mux = mx', le_wire = w @ (case r of None \<Rightarrow> [] | Some sg \<Rightarrow> [sg])\<rparr> = flow \<lparr>le_mux = mx, le_wire = w\<rparr>) \<and>
    (\<forall>sg. r = Some sg \<longrightarrow> sound_segment sg)"
proof -
  note f = take_next_fields [OF t]
  have stat: "status mx' c = status mx c" "chan_permits mx' c = chan_permits mx c" "chan_unacked mx' c = chan_unacked mx c" for c
    by (simp_all add: status_def chan_permits_def chan_unacked_def f split: option.split)
  have mok: "mux_ok mx'" using mux_ok_take [OF end_okD(1) [OF ok]] t by simp
  show ?thesis
  proof (cases "mx_urgent mx")
    case (Cons sg rest)
    then have r: "mx' = mx\<lparr>mx_urgent := rest\<rparr>" "r = Some sg" using t by (auto simp: take_next_def)
    have q: "out_queue mx' c = out_queue mx c" for c by (simp add: r out_queue_def)
    have u: "mx_urgent mx' = rest" by (simp add: r)
    have sg: "sg_kind sg = KIND_WINDOW \<and> length (sg_body sg) = 4"
      using end_okD(8) [OF ok, of sg] Cons by simp
    have "end_ok mx'"
      using ok mok Cons by (simp add: end_ok_def f q stat u)
    with sg show ?thesis
      using Cons by (auto simp: flow_def fun_eq_iff stat q sound_segment_def r(2) u)
  next
    case Nil
    show ?thesis
    proof (cases "pick_channel mx")
      case None
      with Nil t have "mx' = mx" "r = None" by (auto simp: take_next_def)
      with ok show ?thesis by simp
    next
      case (Some d)
      obtain mx2 where m: "take_next mx = (mx2, Some (hd (out_queue mx d)))" "mx_urgent mx2 = []"
        "\<And>c. out_queue mx2 c = (if c = d then tl (out_queue mx d) else out_queue mx c)"
        using take_next_pick [OF Nil Some] by metis
      then have r: "mx2 = mx'" "r = Some (hd (out_queue mx d))" using t by auto
      from pick_channel_nonempty [OF Some] obtain sg rest where q: "out_queue mx d = sg # rest"
        by (cases "out_queue mx d") auto
      have sg: "sg_channel sg = d" "sg_kind sg \<in> {KIND_OPEN, KIND_DATA, KIND_RESET}"
        using end_okD(7) [OF ok, of sg d] q by simp_all
      have q': "out_queue mx' c = (if c = d then rest else out_queue mx c)" for c
        using m(3) r q by simp
      have "\<forall>sg \<in> set (out_queue mx' c). sg_channel sg = c \<and> sg_kind sg \<in> {KIND_OPEN, KIND_DATA, KIND_RESET}" for c
        using end_okD(7) [OF ok, of _ c] q q' by (auto split: if_splits)
      then have "end_ok mx'"
        using ok mok m(2) r by (simp add: end_ok_def f stat)
      moreover have "flow \<lparr>le_mux = mx', le_wire = w @ [sg]\<rparr> = flow \<lparr>le_mux = mx, le_wire = w\<rparr>" for w
        using sg q m(2) r Nil by (auto simp: flow_def fun_eq_iff stat q')
      ultimately show ?thesis
        using sg q r by (auto simp: sound_segment_def)
    qed
  qed
qed

section \<open>The reader\<close>

text \<open>What a segment of the other end does to its channel here.\<close>

inductive remote_move :: "nat \<Rightarrow> segment \<Rightarrow> chan_flow \<Rightarrow> chan_flow \<Rightarrow> bool" for W sg where
  peer_opened: "sg_kind sg = KIND_OPEN \<Longrightarrow> cf_status f = CsFresh \<Longrightarrow>
    remote_move W sg f (f\<lparr>cf_status := CsLive, cf_permits := W, cf_unacked := 0\<rparr>)"
| peer_refused: "sg_kind sg = KIND_OPEN \<Longrightarrow> cf_status f = CsFresh \<Longrightarrow>
    remote_move W sg f (f\<lparr>cf_status := CsGone, cf_permits := 0, cf_unacked := 0,
      cf_line := cf_line f @ [seg_reset (sg_channel sg)]\<rparr>)"
| peer_sent: "sg_kind sg = KIND_DATA \<Longrightarrow> cf_status f = CsLive \<Longrightarrow>
    back \<le> cf_unacked f + length (sg_body sg) \<Longrightarrow> given \<le> back \<Longrightarrow>
    remote_move W sg f (f\<lparr>cf_unacked := cf_unacked f + length (sg_body sg) - back, cf_credit := cf_credit f + given\<rparr>)"
| peer_credited: "sg_kind sg = KIND_WINDOW \<Longrightarrow> cf_status f = CsLive \<Longrightarrow>
    remote_move W sg f (f\<lparr>cf_permits := cf_permits f + be_nat (sg_body sg)\<rparr>)"
| peer_closed: "sg_kind sg = KIND_RESET \<Longrightarrow> cf_line f = kept @ lost \<Longrightarrow>
    remote_move W sg f (f\<lparr>cf_status := CsGone, cf_permits := 0, cf_unacked := 0, cf_line := kept\<rparr>)"
| ignored: "sg_kind sg = KIND_DATA \<or> sg_kind sg = KIND_WINDOW \<Longrightarrow> sg_kind sg = KIND_DATA \<longrightarrow> cf_status f = CsGone \<Longrightarrow>
    cf_status f \<noteq> CsLive \<Longrightarrow> remote_move W sg f f"

definition read_effect :: "segment \<Rightarrow> mux \<Rightarrow> mux \<Rightarrow> bool" where
  "read_effect sg mx mx' \<longleftrightarrow> end_ok mx' \<and> mx_cfg mx' = mx_cfg mx \<and> mx_role mx' = mx_role mx \<and>
     (\<forall>w. \<exists>f. remote_move (mux_window mx) sg (flow \<lparr>le_mux = mx, le_wire = w\<rparr> (sg_channel sg)) f \<and>
        flow \<lparr>le_mux = mx', le_wire = w\<rparr> = (flow \<lparr>le_mux = mx, le_wire = w\<rparr>)(sg_channel sg := f))"

lemma read_effectI:
  assumes "end_ok mx'" "mx_cfg mx' = mx_cfg mx" "mx_role mx' = mx_role mx"
    and "\<And>w. flow \<lparr>le_mux = mx', le_wire = w\<rparr> = (flow \<lparr>le_mux = mx, le_wire = w\<rparr>)(sg_channel sg := g w)"
    and "\<And>w. remote_move (mux_window mx) sg (flow \<lparr>le_mux = mx, le_wire = w\<rparr> (sg_channel sg)) (g w)"
  shows "read_effect sg mx mx'"
  unfolding read_effect_def using assms by blast

lemma handle_segment_kind:
  "handle_segment mx (segment_encode sg) =
     (if sg_kind sg = KIND_OPEN then peer_open mx (sg_channel sg)
      else if sg_kind sg = KIND_DATA then peer_data mx (sg_channel sg) (sg_body sg)
      else if sg_kind sg = KIND_WINDOW then peer_window mx (sg_channel sg) (sg_body sg)
      else if sg_kind sg = KIND_RESET then (peer_reset mx (sg_channel sg), Ok ())
      else (mx, Err (Protocol (UnknownSegmentKind (sg_kind sg)))))"
  using segment_encode_parts [of sg] segment_encode_channel [of sg]
  by (simp add: handle_segment_def Let_def)

text \<open>A channel that the peer opens, with and without someone who accepts.\<close>

lemma read_open:
  assumes ok: "end_ok mx" and few: "few_retired mx" and kind: "sg_kind sg = KIND_OPEN"
    and fresh: "status mx (sg_channel sg) = CsFresh" and parity: "sg_channel sg mod 2 = peer_parity (mx_role mx)"
    and run: "peer_open mx (sg_channel sg) = (mx', r)"
  shows "r = Ok () \<and> read_effect sg mx mx' \<or>
    r = Err (Protocol (TooManyPeerChannels (mc_max_channels (mx_cfg mx))))"
proof (cases "mux_len mx \<ge> mc_max_channels (mx_cfg mx)")
  case True
  with assms show ?thesis
    using end_okD(2) [OF ok] by (auto simp: peer_open_def status_def split: if_splits)
next
  case False
  let ?c = "sg_channel sg"
  obtain mx1 e where ins: "insert_channel mx ?c = (mx1, e)" by fastforce
  from insert_channel_facts [OF ok fresh _ ins] False
  have f: "end_ok mx1" "e < length (mx_ends mx1)" "en_id (mx_ends mx1 ! e) = ?c" "mx_cfg mx1 = mx_cfg mx"
    "mx_role mx1 = mx_role mx" "mx_retired_order mx1 = mx_retired_order mx"
    and flow1: "\<And>w. flow \<lparr>le_mux = mx1, le_wire = w\<rparr> = (flow \<lparr>le_mux = mx, le_wire = w\<rparr>)
       (?c := (flow \<lparr>le_mux = mx, le_wire = w\<rparr> ?c)\<lparr>cf_status := CsLive, cf_permits := mux_window mx, cf_unacked := 0\<rparr>)"
    by auto
  have was: "cf_status (flow \<lparr>le_mux = mx, le_wire = w\<rparr> ?c) = CsFresh" for w
    using fresh by (simp add: flow_def)
  have run': "(mx', r) = (if mx_accept_tx mx1 \<and> mx_accept_rx mx1
      then (mx1\<lparr>mx_accept_queue := mx_accept_queue mx1 @ [e]\<rparr>, Ok ())
      else (drop_recv (drop_send mx1 e) e, Ok ()))"
    using run False fresh parity ins end_okD(2) [OF ok]
    by (auto simp: peer_open_def status_def split: if_splits)
  show ?thesis
  proof (cases "mx_accept_tx mx1 \<and> mx_accept_rx mx1")
    case True
    with run' have "mx' = mx1\<lparr>mx_accept_queue := mx_accept_queue mx1 @ [e]\<rparr>" "r = Ok ()" by auto
    moreover from this have "flow \<lparr>le_mux = mx', le_wire = w\<rparr> = flow \<lparr>le_mux = mx1, le_wire = w\<rparr>" for w
      by (simp add: flow_def fun_eq_iff)
    ultimately have "read_effect sg mx mx'"
      using f flow1 by (intro read_effectI [OF _ _ _ _ remote_move.peer_opened [OF kind was]]) simp_all
    with \<open>r = Ok ()\<close> show ?thesis by blast
  next
    case False
    have held: "en_send_half (mx_ends mx1 ! e)" "en_recv_half (mx_ends mx1 ! e)"
      using ins by (auto simp: insert_channel_def Let_def nth_append)
    let ?mx2 = "update_end e (\<lambda>en. en\<lparr>en_send_half := False\<rparr>) mx1"
    let ?mx3 = "update_end e (\<lambda>en. en\<lparr>en_recv_half := False, en_queue := []\<rparr>) ?mx2"
    have "drop_send mx1 e = ?mx2"
      using f(2) held by (simp add: drop_send_def drop_guard_def Let_def)
    then have mx': "mx' = close_channel ?mx3 ?c" "r = Ok ()"
      using False run' f(2,3) by (auto simp: drop_recv_def drop_guard_def Let_def)
    have ok3: "end_ok ?mx3"
      using f(1) by (intro end_ok_update_end) (simp_all add: no_more_def)
    have few3: "few_retired ?mx3" using few f(6) by (simp add: few_retired_def)
    obtain st where "RBT.lookup (mx_channels ?mx3) ?c = Some st"
      using ins by (auto simp: insert_channel_def Let_def)
    from close_channel_moves [OF ok3 few3 this]
    have end3: "end_ok mx'" and flow3: "\<And>w. flow \<lparr>le_mux = mx', le_wire = w\<rparr> = (flow \<lparr>le_mux = ?mx3, le_wire = w\<rparr>)
       (?c := (flow \<lparr>le_mux = ?mx3, le_wire = w\<rparr> ?c)\<lparr>cf_status := CsGone, cf_permits := 0, cf_unacked := 0,
          cf_line := cf_line (flow \<lparr>le_mux = ?mx3, le_wire = w\<rparr> ?c) @ [seg_reset ?c]\<rparr>)"
      unfolding mx' by blast+
    have "same_flow mx1 ?mx2" "same_flow ?mx2 ?mx3"
      by (rule same_flow_update_end, simp)+
    then have same: "flow \<lparr>le_mux = ?mx3, le_wire = w\<rparr> = flow \<lparr>le_mux = mx1, le_wire = w\<rparr>" for w
      by (simp add: same_flow_def)
    have "flow \<lparr>le_mux = mx', le_wire = w\<rparr> = (flow \<lparr>le_mux = mx, le_wire = w\<rparr>)
       (?c := (flow \<lparr>le_mux = mx, le_wire = w\<rparr> ?c)\<lparr>cf_status := CsGone, cf_permits := 0, cf_unacked := 0,
          cf_line := cf_line (flow \<lparr>le_mux = mx, le_wire = w\<rparr> ?c) @ [seg_reset ?c]\<rparr>)" for w
      by (simp add: flow3 same flow1 fun_eq_iff)
    then have "read_effect sg mx mx'"
      using f end3 by (intro read_effectI [OF _ _ _ _ remote_move.peer_refused [OF kind was]])
        (simp_all add: mx'(1) mux_cfg_const mx_role_const)
    with mx'(2) show ?thesis by blast
  qed
qed

text \<open>What the bytes of a frame may still be refused for.\<close>

fun about_frames :: "transport_error \<Rightarrow> bool" where
  "about_frames (Framing _) = True"
| "about_frames (Protocol (OversizedFrame _ _)) = True"
| "about_frames _ = False"

lemma deliver_frames_Inl:
  "deliver_frames m st en refund = (st', en', Inl err) \<Longrightarrow> about_frames err"
proof (induction "length (ch_assembler st)" arbitrary: st en refund rule: less_induct)
  case less
  show ?case
  proof (cases "\<exists>fr used. oversized m (ch_assembler st) = None \<and>
      frame_decode (ch_assembler st) = Inr (Some (fr, used))")
    case True
    then obtain fr used where o: "oversized m (ch_assembler st) = None"
      and dec: "frame_decode (ch_assembler st) = Inr (Some (fr, used))"
      by blast
    from frame_decode_sound [OF dec] have used: "used \<le> length (ch_assembler st)" "0 < used"
      by (simp_all add: wire_len_def HEADER_LEN_def)
    from deliver_frames_Some [OF less.prems o dec] obtain st1 en1 refund1 where
      "ch_assembler st1 = drop used (ch_assembler st)" "deliver_frames m st1 en1 refund1 = (st', en', Inl err)"
      by blast
    with less.hyps [of st1 en1 refund1] used show ?thesis by simp
  next
    case False
    with less.prems show ?thesis
      by (auto simp: deliver_frames.simps [of m st] split: option.splits sum.splits)
  qed
qed

lemma read_data:
  assumes ok: "end_ok mx" and kind: "sg_kind sg = KIND_DATA" and known: "status mx (sg_channel sg) \<noteq> CsFresh"
    and fits: "chan_unacked mx (sg_channel sg) + length (sg_body sg) \<le> mux_window mx"
    and run: "peer_data mx (sg_channel sg) (sg_body sg) = (mx', r)"
  shows "r = Ok () \<and> read_effect sg mx mx' \<or> (\<exists>e. r = Err e \<and> about_frames e)"
proof -
  let ?c = "sg_channel sg" and ?b = "sg_body sg"
  let ?f = "\<lambda>w. flow \<lparr>le_mux = mx, le_wire = w\<rparr>"
  show ?thesis
  proof (cases "RBT.lookup (mx_channels mx) ?c")
    case None
    with known have gone: "?c \<in> mx_retired mx" "\<And>w. cf_status (?f w ?c) = CsGone"
      by (auto simp: status_def flow_def split: if_splits)
    then have mx': "mx' = mx" "r = Ok ()" using run by (auto simp: peer_data_def split: if_splits)
    have "read_effect sg mx mx"
      by (rule read_effectI [OF ok, where g = "\<lambda>w. ?f w ?c"]) (use kind gone in \<open>auto intro: remote_move.ignored\<close>)
    with mx' show ?thesis by blast
  next
    case (Some st)
    have live: "cf_status (?f w ?c) = CsLive" "cf_unacked (?f w ?c) = ch_unacked st" for w
      using Some by (simp_all add: status_def flow_def chan_unacked_def)
    show ?thesis
    proof (cases "?b = []")
      case True
      with run have mx': "mx' = mx" "r = Ok ()" by (auto simp: peer_data_def)
      have "remote_move (mux_window mx) sg (?f w ?c) (?f w ?c)" for w
        using remote_move.peer_sent [OF kind live(1) [of w], of 0 0 "mux_window mx"] True by simp
      then have "read_effect sg mx mx"
        by (intro read_effectI [OF ok, where g = "\<lambda>w. ?f w ?c"]) simp_all
      with mx' show ?thesis by blast
    next
      case False
      let ?en = "mx_ends mx ! ch_end st"
      obtain st2 en2 r2 where d: "deliver_frames (mc_max_frame_len (mx_cfg mx))
          (st\<lparr>ch_unacked := ch_unacked st + length ?b, ch_assembler := ch_assembler st @ ?b\<rparr>) ?en 0 = (st2, en2, r2)"
        by (cases "deliver_frames (mc_max_frame_len (mx_cfg mx))
          (st\<lparr>ch_unacked := ch_unacked st + length ?b, ch_assembler := ch_assembler st @ ?b\<rparr>) ?en 0")
      have opn: "\<not> mx_closed mx" "?c \<notin> mx_retired mx" "\<not> mux_window mx < ch_unacked st + length ?b"
        using end_okD(2,6) [OF ok] Some fits by (auto simp: chan_unacked_def)
      show ?thesis
      proof (cases r2)
        case (Inl err)
        with run Some False opn d deliver_frames_Inl [OF d [unfolded Inl]] show ?thesis
          by (auto simp: peer_data_def)
      next
        case (Inr refund)
        note del = deliver_frames_Inr [OF d [unfolded Inr]]
        note c = mux_okD [OF end_okD(1) [OF ok] Some]
        let ?given = "if refund \<le> u32_max then refund else 0"
        let ?mx1 = "store_channel ?c (st2\<lparr>ch_unacked := ch_unacked st2 - refund\<rparr>) en2 mx"
        have same: "st2\<lparr>ch_unacked := ch_unacked st2 - refund\<rparr> = st2" if "refund = 0" using that by simp
        have r: "r = Ok ()" and mx': "mx' = (if 0 < refund \<and> refund \<le> u32_max
            then ?mx1\<lparr>mx_urgent := mx_urgent ?mx1 @ [seg_window ?c refund]\<rparr> else ?mx1)"
          using run Some False opn d Inr same by (auto simp: peer_data_def Let_def split: if_splits)
        have f: "mx_channels mx' = RBT.insert ?c (st2\<lparr>ch_unacked := ch_unacked st2 - refund\<rparr>) (mx_channels mx)"
          "mx_ends mx' = (mx_ends mx)[ch_end st := en2]" "mx_retired mx' = mx_retired mx" "mx_closed mx' = mx_closed mx"
          "mx_cfg mx' = mx_cfg mx" "mx_role mx' = mx_role mx" "mx_next_local mx' = mx_next_local mx"
          "out_queue mx' e = out_queue mx e"
          "mx_urgent mx' = mx_urgent mx @ (if 0 < refund \<and> refund \<le> u32_max then [seg_window ?c refund] else [])" for e
          using del by (auto simp: mx' store_channel_def out_queue_def)
        have en2: "en_id en2 = ?c" "en_id en2 = en_id ?en" "en_permits en2 = en_permits ?en"
          using del chan_okD(2) [OF c] by (simp_all add: same_handle_def)
        have ids: "map en_id (mx_ends mx') = map en_id (mx_ends mx)"
          unfolding f by (rule map_id_update [OF en2(2)])
        have stat: "status mx' e = status mx e" for e
          using Some by (simp add: status_def f)
        have "mux_ok mx'"
          using mux_ok_peer_data [OF end_okD(1) [OF ok], of ?c ?b] run r by simp
        moreover have "\<forall>en \<in> set (mx_ends mx'). status mx' (en_id en) \<noteq> CsFresh"
        proof
          fix en assume "en \<in> set (mx_ends mx')"
          then have "en_id en \<in> set (map en_id (mx_ends mx'))" by simp
          then show "status mx' (en_id en) \<noteq> CsFresh"
            unfolding ids using ok by (auto simp: stat end_ok_def)
        qed
        ultimately have ok': "end_ok mx'"
          using ok ids Some opn by (auto simp: end_ok_def f)
        have returned: "refund \<le> ch_unacked st + length ?b"
          using del chan_okD(6) [OF c] by simp
        have "flow \<lparr>le_mux = mx', le_wire = w\<rparr> = (?f w)(?c := (?f w ?c)\<lparr>cf_unacked := cf_unacked (?f w ?c) + length ?b - refund,
            cf_credit := cf_credit (?f w ?c) + ?given\<rparr>)" for w
        proof
          fix e
          have perm: "chan_permits mx' e = chan_permits mx e"
          proof -
            have "en_permits (mx_ends mx' ! i) = en_permits (mx_ends mx ! i)" for i
              using en2(3) by (simp add: f nth_permits_update)
            then show ?thesis using Some del by (simp add: chan_permits_def f(1) split: option.split)
          qed
          show "flow \<lparr>le_mux = mx', le_wire = w\<rparr> e = ((?f w)(?c := (?f w ?c)\<lparr>cf_unacked := cf_unacked (?f w ?c) + length ?b - refund,
            cf_credit := cf_credit (?f w ?c) + ?given\<rparr>)) e"
            using Some del by (simp add: flow_def stat perm f(8,9)) (auto simp: chan_unacked_def f)
        qed
        moreover have "remote_move (mux_window mx) sg (?f w ?c) ((?f w ?c)\<lparr>cf_unacked := cf_unacked (?f w ?c) + length ?b - refund,
            cf_credit := cf_credit (?f w ?c) + ?given\<rparr>)" for w
          using returned by (intro remote_move.peer_sent [OF kind live(1)]) (simp_all add: live)
        ultimately have "read_effect sg mx mx'"
          using ok' f by (intro read_effectI) simp_all
        with r show ?thesis by blast
      qed
    qed
  qed
qed

lemma read_window:
  assumes ok: "end_ok mx" and kind: "sg_kind sg = KIND_WINDOW" and four: "length (sg_body sg) = 4"
    and fits: "chan_permits mx (sg_channel sg) + be_nat (sg_body sg) \<le> mux_window mx"
    and run: "peer_window mx (sg_channel sg) (sg_body sg) = (mx', r)"
  shows "r = Ok () \<and> read_effect sg mx mx'"
proof (cases "RBT.lookup (mx_channels mx) (sg_channel sg)")
  case None
  with run four have mx': "mx' = mx" "r = Ok ()" by (auto simp: peer_window_def Let_def split: if_splits)
  have "cf_status (flow \<lparr>le_mux = mx, le_wire = w\<rparr> (sg_channel sg)) \<noteq> CsLive" for w
    using None by (simp add: flow_def status_def)
  then have "read_effect sg mx mx"
    by (intro read_effectI [OF ok, where g = "\<lambda>w. flow \<lparr>le_mux = mx, le_wire = w\<rparr> (sg_channel sg)"])
      (auto intro!: remote_move.ignored simp: kind)
  with mx' show ?thesis by blast
next
  case (Some st)
  let ?c = "sg_channel sg" and ?n = "be_nat (sg_body sg)"
  let ?f = "\<lambda>en. en\<lparr>en_permits := en_permits en + ?n\<rparr>" and ?g = "\<lambda>w. flow \<lparr>le_mux = mx, le_wire = w\<rparr>"
  have le: "en_permits (mx_ends mx ! ch_end st) + ?n \<le> mux_window mx"
    using fits Some by (simp add: chan_permits_def)
  then have mx': "mx' = update_end (ch_end st) ?f mx" "r = Ok ()"
    using run Some four end_okD(2,6) [OF ok] by (auto simp: peer_window_def Let_def split: if_splits)
  have "end_ok mx'"
    unfolding mx' using le by (intro end_ok_update_end [OF ok]) (simp add: no_more_def mux_window_def)
  moreover have "chan_permits mx' d = (if d = ?c then chan_permits mx d + ?n else chan_permits mx d)" for d
  proof (cases "RBT.lookup (mx_channels mx) d")
    case (Some st')
    note c = mux_okD [OF end_okD(1) [OF ok] \<open>RBT.lookup (mx_channels mx) ?c = Some st\<close>]
    from live_end_iff [OF ok Some chan_okD(1) [OF c]] chan_okD(1,2) [OF c] Some show ?thesis
      by (cases "ch_end st' = ch_end st") (simp_all add: mx' chan_permits_def)
  qed (use Some in \<open>auto simp: mx' chan_permits_def\<close>)
  then have "flow \<lparr>le_mux = mx', le_wire = w\<rparr> = (?g w)(?c := (?g w ?c)\<lparr>cf_permits := cf_permits (?g w ?c) + ?n\<rparr>)" for w
    by (simp add: flow_def fun_eq_iff) (simp add: mx' chan_unacked_def)
  moreover have "cf_status (?g w ?c) = CsLive" for w
    using Some by (simp add: flow_def status_def)
  ultimately have "read_effect sg mx mx'"
    by (intro read_effectI [OF _ _ _ _ remote_move.peer_credited [OF kind]]) (simp_all add: mx')
  with mx' show ?thesis by blast
qed

lemma read_reset:
  assumes ok: "end_ok mx" and few: "few_retired mx" and kind: "sg_kind sg = KIND_RESET"
  shows "read_effect sg mx (peer_reset mx (sg_channel sg))"
proof -
  let ?c = "sg_channel sg" and ?mx' = "peer_reset mx (sg_channel sg)"
  let ?mx1 = "case RBT.lookup (mx_channels mx) ?c of
      None \<Rightarrow> mx
    | Some st \<Rightarrow> update_end (ch_end st) (\<lambda>en. en\<lparr>en_tx := False, en_sem_closed := True\<rparr>)
        (mx\<lparr>mx_channels := RBT.delete ?c (mx_channels mx)\<rparr>)"
  let ?mx2 = "?mx1\<lparr>mx_out := RBT.delete ?c (mx_out ?mx1)\<rparr>"
  have mx': "?mx' = retire ?c ?mx2"
    using end_okD(2) [OF ok] by (simp add: peer_reset_def Let_def)
  have "few_retired ?mx2" using few by (simp add: few_retired_def split: option.split)
  then have ret: "mx_retired ?mx' = insert ?c (mx_retired mx)"
    by (simp add: mx' retire_few split: option.split)
  have chans: "RBT.lookup (mx_channels ?mx') = (RBT.lookup (mx_channels mx))(?c := None)"
    by (auto simp: mx' fun_eq_iff split: option.split)
  have f: "mx_urgent ?mx' = mx_urgent mx" "mx_closed ?mx' = mx_closed mx" "mx_next_local ?mx' = mx_next_local mx"
    "mx_role ?mx' = mx_role mx" "mx_cfg ?mx' = mx_cfg mx"
    "out_queue ?mx' d = (if d = ?c then [] else out_queue mx d)" for d
    by (simp_all add: mx' split: option.split) (simp_all add: out_queue_def split: option.split)
  have ids: "map en_id (mx_ends ?mx') = map en_id (mx_ends mx)"
    by (simp add: mx' map_id_update split: option.split)
  have perms: "en_permits (mx_ends ?mx' ! i) = en_permits (mx_ends mx ! i)" for i
    by (auto simp: mx' nth_permits_update split: option.split)
  have stat: "status ?mx' d = (if d = ?c then CsGone else status mx d)" for d
    by (simp add: status_def chans ret)
  have "\<forall>en \<in> set (mx_ends ?mx'). status ?mx' (en_id en) \<noteq> CsFresh"
  proof
    fix en assume "en \<in> set (mx_ends ?mx')"
    then have "en_id en \<in> set (map en_id (mx_ends ?mx'))" by simp
    then show "status ?mx' (en_id en) \<noteq> CsFresh"
      unfolding ids using ok by (auto simp: stat end_ok_def)
  qed
  then have "end_ok ?mx'"
    using ok ids mux_ok_peer_reset [OF end_okD(1) [OF ok], of ?c] by (simp add: end_ok_def f chans ret)
  moreover have "flow \<lparr>le_mux = ?mx', le_wire = w\<rparr> = (flow \<lparr>le_mux = mx, le_wire = w\<rparr>)
     (?c := (flow \<lparr>le_mux = mx, le_wire = w\<rparr> ?c)\<lparr>cf_status := CsGone, cf_permits := 0, cf_unacked := 0,
        cf_line := line_of ?c w\<rparr>)" for w
    by (simp add: flow_def fun_eq_iff stat f chan_permits_def chan_unacked_def chans perms split: option.split)
  moreover have "remote_move W sg (flow \<lparr>le_mux = mx, le_wire = w\<rparr> ?c)
     ((flow \<lparr>le_mux = mx, le_wire = w\<rparr> ?c)\<lparr>cf_status := CsGone, cf_permits := 0, cf_unacked := 0,
        cf_line := line_of ?c w\<rparr>)" for W w
    by (rule remote_move.peer_closed [OF kind, of _ _ "out_queue mx ?c"]) (simp add: flow_def)
  ultimately show ?thesis
    using f by (intro read_effectI) simp_all
qed

text \<open>What must hold of a segment for it to be taken, and what happens then.\<close>

definition readable :: "mux \<Rightarrow> segment \<Rightarrow> bool" where
  "readable mx sg \<longleftrightarrow> sound_segment sg \<and>
     (sg_kind sg = KIND_OPEN \<longrightarrow>
        status mx (sg_channel sg) = CsFresh \<and> sg_channel sg mod 2 = peer_parity (mx_role mx)) \<and>
     (sg_kind sg = KIND_DATA \<longrightarrow>
        status mx (sg_channel sg) \<noteq> CsFresh \<and>
        chan_unacked mx (sg_channel sg) + length (sg_body sg) \<le> mux_window mx) \<and>
     (sg_kind sg = KIND_WINDOW \<longrightarrow> chan_permits mx (sg_channel sg) + be_nat (sg_body sg) \<le> mux_window mx)"

definition tolerable :: "mux \<Rightarrow> transport_error \<Rightarrow> bool" where
  "tolerable mx e \<longleftrightarrow> about_frames e \<or>
     (e = Protocol (TooManyPeerChannels (mc_max_channels (mx_cfg mx))) \<and> mux_len mx \<ge> mc_max_channels (mx_cfg mx))"

lemma read_step:
  assumes ok: "end_ok mx" and few: "few_retired mx" and readable: "readable mx sg"
    and run: "handle_segment mx (segment_encode sg) = (mx', r)"
  shows "r = Ok () \<and> read_effect sg mx mx' \<or> (\<exists>e. r = Err e \<and> tolerable mx e)"
proof -
  consider (fresh) "sg_kind sg = KIND_OPEN" | (data) "sg_kind sg = KIND_DATA"
    | (window) "sg_kind sg = KIND_WINDOW" "length (sg_body sg) = 4" | (reset) "sg_kind sg = KIND_RESET"
    using readable by (auto simp: readable_def sound_segment_def)
  then show ?thesis
  proof cases
    case fresh
    then have run': "peer_open mx (sg_channel sg) = (mx', r)" using run by (simp add: handle_segment_kind)
    have full: "mux_len mx \<ge> mc_max_channels (mx_cfg mx)" if "r \<noteq> Ok ()"
      using that run' fresh readable end_okD(2) [OF ok]
      by (auto simp: peer_open_def readable_def status_def Let_def split: if_splits prod.splits)
    from fresh readable read_open [OF ok few _ _ _ run'] full show ?thesis
      by (auto simp: readable_def tolerable_def)
  next
    case data
    with run readable read_data [OF ok, of sg mx' r] show ?thesis
      by (auto simp: handle_segment_kind readable_def tolerable_def)
  next
    case window
    with run readable read_window [OF ok, of sg mx' r] show ?thesis
      by (simp add: handle_segment_kind readable_def)
  next
    case reset
    with run read_reset [OF ok few, of sg] show ?thesis by (simp add: handle_segment_kind)
  qed
qed

section \<open>Both ends\<close>

text \<open>The opening of a channel, at the head of its segments and nowhere else.\<close>

fun starts_open :: "segment list \<Rightarrow> bool" where
  "starts_open [] = False"
| "starts_open (sg # sgs) = (sg_kind sg = KIND_OPEN)"

definition no_open :: "segment list \<Rightarrow> bool" where
  "no_open sgs \<longleftrightarrow> list_all (\<lambda>sg. sg_kind sg \<noteq> KIND_OPEN) sgs"

fun opens_once :: "segment list \<Rightarrow> bool" where
  "opens_once [] = True"
| "opens_once (sg # sgs) = no_open sgs"

lemma no_open_simps [simp]:
  "no_open []" "no_open (sg # sgs) = (sg_kind sg \<noteq> KIND_OPEN \<and> no_open sgs)"
  "no_open (sgs @ sgs') = (no_open sgs \<and> no_open sgs')"
  by (simp_all add: no_open_def)

lemma starts_open_append [simp]:
  "starts_open (sgs @ sgs') = (if sgs = [] then starts_open sgs' else starts_open sgs)"
  by (cases sgs) simp_all

lemma opens_once_append [simp]:
  "opens_once (sgs @ sgs') = (if sgs = [] then opens_once sgs' else opens_once sgs \<and> no_open sgs')"
  by (cases sgs) simp_all

lemma no_open_opens_once: "no_open sgs \<Longrightarrow> opens_once sgs \<and> \<not> starts_open sgs"
  by (cases sgs) simp_all

text \<open>
  What connects the two ends of a channel, in the direction from the end with \<open>f\<close> to the one with \<open>g\<close>:
  nothing is on the way from an end that never heard of the channel; an opening comes first, once, from
  the side the id belongs to, and exactly while the other side has not heard of the channel; and credit
  is never created.
\<close>

definition quiet_ok :: "chan_flow \<Rightarrow> bool" where
  "quiet_ok f \<longleftrightarrow> (cf_status f = CsFresh \<longrightarrow> cf_line f = [] \<and> cf_credit f = 0) \<and>
     (cf_status f \<noteq> CsLive \<longrightarrow> cf_permits f = 0 \<and> cf_unacked f = 0)"

definition opening_ok :: "bool \<Rightarrow> chan_flow \<Rightarrow> chan_flow \<Rightarrow> bool" where
  "opening_ok mine f g \<longleftrightarrow> opens_once (cf_line f) \<and>
     (starts_open (cf_line f) \<longrightarrow> mine \<and> cf_status g = CsFresh) \<and>
     (cf_status g = CsFresh \<longrightarrow> cf_status f \<noteq> CsFresh \<longrightarrow> starts_open (cf_line f)) \<and>
     (mine \<longrightarrow> cf_status f = CsFresh \<longrightarrow> cf_status g = CsFresh) \<and>
     (cf_status g = CsFresh \<longrightarrow> cf_unacked f = 0 \<and> cf_credit f = 0)"

definition credit_ok :: "nat \<Rightarrow> chan_flow \<Rightarrow> chan_flow \<Rightarrow> bool" where
  "credit_ok W f g \<longleftrightarrow> cf_permits f + data_len (cf_line f) + cf_unacked g + cf_credit g \<le> W"

text \<open>Both directions of a channel; the two sides differ in the parity of the ids they open.\<close>

definition chan_ok2 :: "nat \<Rightarrow> channel_id \<Rightarrow> channel_id \<Rightarrow> channel_id \<Rightarrow> chan_flow \<Rightarrow> chan_flow \<Rightarrow> bool" where
  "chan_ok2 W own own' c f g \<longleftrightarrow> quiet_ok f \<and> quiet_ok g \<and> opening_ok (c mod 2 = own) f g \<and> opening_ok (c mod 2 = own') g f \<and>
     credit_ok W f g \<and> credit_ok W g f"

lemma opening_okD:
  assumes "opening_ok mine f g"
  shows "opens_once (cf_line f)" "starts_open (cf_line f) \<Longrightarrow> mine"
    "starts_open (cf_line f) \<Longrightarrow> cf_status g = CsFresh"
    "cf_status g = CsFresh \<Longrightarrow> cf_status f \<noteq> CsFresh \<Longrightarrow> starts_open (cf_line f)"
    "mine \<Longrightarrow> cf_status f = CsFresh \<Longrightarrow> cf_status g = CsFresh"
    "cf_status g = CsFresh \<Longrightarrow> cf_unacked f = 0" "cf_status g = CsFresh \<Longrightarrow> cf_credit f = 0"
  using assms by (auto simp: opening_ok_def)

lemma quiet_okD:
  assumes "quiet_ok f"
  shows "cf_status f = CsFresh \<Longrightarrow> cf_line f = []" "cf_status f = CsFresh \<Longrightarrow> cf_credit f = 0"
    "cf_status f \<noteq> CsLive \<Longrightarrow> cf_permits f = 0" "cf_status f \<noteq> CsLive \<Longrightarrow> cf_unacked f = 0"
  using assms by (auto simp: quiet_ok_def)

lemma quiet_local:
  assumes "quiet_ok f" and m: "local_move W own c f f'"
  shows "quiet_ok f'"
  using m by cases (simp_all add: quiet_ok_def)

lemma credit_local_out:
  assumes "quiet_ok f" "quiet_ok g" "opening_ok (c mod 2 = own) f g" "credit_ok W f g" and m: "local_move W own c f f'"
  shows "credit_ok W f' g"
  using m
proof cases
  case opened
  then have "cf_status g = CsFresh" using assms(3) by (blast dest: opening_okD)
  with opened quiet_okD [OF assms(1)] quiet_okD [OF assms(2)] show ?thesis by (simp add: credit_ok_def)
qed (use assms(4) in \<open>simp_all add: credit_ok_def\<close>)

lemma credit_local_in:
  assumes "quiet_ok f" "credit_ok W g f" and m: "local_move W own c f f'"
  shows "credit_ok W g f'"
  using m by cases (use assms(2) quiet_okD [OF assms(1)] in \<open>simp_all add: credit_ok_def\<close>)

lemma opening_local_out:
  assumes q: "quiet_ok f" and ok: "opening_ok (c mod 2 = own) f g" and m: "local_move W own c f f'"
  shows "opening_ok (c mod 2 = own) f' g"
proof -
  define mine where "mine = (c mod 2 = own)"
  have ok': "opening_ok mine f g" using ok by (simp add: mine_def)
  from m have "opening_ok mine f' g"
  proof cases
    case opened
    then have "mine" by (simp add: mine_def)
    with opened(2) ok' have "cf_status g = CsFresh" by (auto dest: opening_okD)
    with opened(1,2) \<open>mine\<close> ok' quiet_okD [OF q] show ?thesis by (simp add: opening_ok_def)
  next
    case (sent body)
    with ok' show ?thesis by (auto simp: opening_ok_def)
  next
    case (credited n)
    with ok' show ?thesis by (auto simp: opening_ok_def)
  next
    case closed
    with ok' show ?thesis by (auto simp: opening_ok_def)
  qed
  then show ?thesis by (simp add: mine_def)
qed

lemma opening_local_in:
  assumes ok: "opening_ok mine' g f" and out: "opening_ok (c mod 2 = own) f g"
    and ne: "c mod 2 = own \<Longrightarrow> \<not> mine'" and m: "local_move W own c f f'"
  shows "opening_ok mine' g f'"
  using m
proof cases
  case opened
  then have "cf_status g = CsFresh" "\<not> mine'" using out ne by (auto dest: opening_okD)
  with opened ok show ?thesis by (auto simp: opening_ok_def)
qed (use ok in \<open>auto simp: opening_ok_def\<close>)

lemma chan_ok2_local:
  assumes ok: "chan_ok2 W own own' c f g" and ne: "own \<noteq> own'" and m: "local_move W own c f f'"
  shows "chan_ok2 W own own' c f' g"
proof -
  have "\<not> (c mod 2 = own')" if "c mod 2 = own" using that ne by simp
  with ok m show ?thesis
    unfolding chan_ok2_def
    by (intro conjI quiet_local [OF _ m] credit_local_out [OF _ _ _ _ m] credit_local_in [OF _ _ m]
        opening_local_out [OF _ _ m] opening_local_in [OF _ _ _ m]) (blast | assumption)+
qed

text \<open>
  What the reader of the first end takes off the line of the second.
\<close>

lemma quiet_read:
  assumes f: "quiet_ok f" and g: "quiet_ok g" "cf_line g = sg # rest" and m: "remote_move W sg f f'"
    and kind: "sg_kind sg \<noteq> KIND_WINDOW"
  shows "quiet_ok f'" "quiet_ok (g\<lparr>cf_line := rest\<rparr>)"
proof -
  show "quiet_ok f'" using m by cases (use f kind in \<open>auto simp: quiet_ok_def\<close>)
  show "quiet_ok (g\<lparr>cf_line := rest\<rparr>)" using g by (auto simp: quiet_ok_def)
qed

lemma credit_read_out:
  assumes q: "quiet_ok f" and g: "opening_ok mine' g f" "cf_line g = sg # rest" and ok: "credit_ok W f g"
    and m: "remote_move W sg f f'" and kind: "sg_kind sg \<noteq> KIND_WINDOW"
  shows "credit_ok W f' (g\<lparr>cf_line := rest\<rparr>)"
  using m
proof cases
  case peer_opened
  with quiet_okD [OF q] opening_okD [OF g(1)] show ?thesis by (simp add: credit_ok_def)
qed (use ok kind in \<open>auto simp: credit_ok_def\<close>)

lemma credit_read_in:
  assumes q: "quiet_ok f" and g: "cf_line g = sg # rest" and ok: "credit_ok W g f"
    and m: "remote_move W sg f f'" and kind: "sg_kind sg \<noteq> KIND_WINDOW"
  shows "credit_ok W (g\<lparr>cf_line := rest\<rparr>) f'"
  using m
proof cases
  case (peer_sent b given)
  with ok g show ?thesis by (simp add: credit_ok_def)
qed (use ok g kind quiet_okD [OF q] in \<open>auto simp: credit_ok_def\<close>)

lemma opening_read_out:
  assumes q: "quiet_ok f" "quiet_ok g" and ok: "opening_ok mine f g"
    and g: "opening_ok mine' g f" "cf_line g = sg # rest" and ne: "\<not> (mine \<and> mine')"
    and m: "remote_move W sg f f'" and kind: "sg_kind sg \<noteq> KIND_WINDOW"
  shows "opening_ok mine f' (g\<lparr>cf_line := rest\<rparr>)"
proof -
  have heard: "cf_status g \<noteq> CsFresh" using quiet_okD(1) [OF q(2)] g(2) by auto
  note qf = quiet_okD [OF q(1)] and og = opening_okD [OF g(1)]
  show ?thesis using m
  proof cases
    case peer_opened
    with qf og g(2) ok ne heard show ?thesis by (auto simp: opening_ok_def)
  next
    case peer_refused
    with qf og g(2) ok ne heard show ?thesis by (auto simp: opening_ok_def)
  next
    case (peer_sent b given)
    with ok heard show ?thesis by (auto simp: opening_ok_def)
  next
    case (peer_closed kept lost)
    with ok heard show ?thesis by (auto simp: opening_ok_def split: if_splits)
  qed (use ok kind in \<open>auto simp: opening_ok_def\<close>)
qed

lemma opening_read_in:
  assumes q: "quiet_ok f" "quiet_ok g" and g: "opening_ok mine' g f" "cf_line g = sg # rest"
    and m: "remote_move W sg f f'" and kind: "sg_kind sg \<noteq> KIND_WINDOW"
  shows "opening_ok mine' (g\<lparr>cf_line := rest\<rparr>) f'"
proof -
  have heard: "cf_status g \<noteq> CsFresh" using quiet_okD(1) [OF q(2)] g(2) by auto
  note og = opening_okD [OF g(1)]
  have closed: "no_open rest" using og(1) g(2) by simp
  have "cf_status f' \<noteq> CsFresh"
    using m by cases (use og(4) heard g(2) kind in auto)
  with closed heard show ?thesis by (auto simp: opening_ok_def dest: no_open_opens_once)
qed

lemma chan_ok2_read:
  assumes ok: "chan_ok2 W own own' c f g" and ne: "own \<noteq> own'" and line: "cf_line g = sg # rest"
    and m: "remote_move W sg f f'" and kind: "sg_kind sg \<noteq> KIND_WINDOW"
  shows "chan_ok2 W own own' c f' (g\<lparr>cf_line := rest\<rparr>)"
proof -
  have ne': "\<not> (c mod 2 = own \<and> c mod 2 = own')" using ne by auto
  from ok have o: "quiet_ok f" "quiet_ok g" "opening_ok (c mod 2 = own) f g" "opening_ok (c mod 2 = own') g f"
    "credit_ok W f g" "credit_ok W g f"
    by (simp_all add: chan_ok2_def)
  show ?thesis
    unfolding chan_ok2_def
    using quiet_read [OF o(1,2) line m kind] credit_read_out [OF o(1,4) line o(5) m kind]
      credit_read_in [OF o(1) line o(6) m kind] opening_read_out [OF o(1-4) line ne' m kind]
      opening_read_in [OF o(1,2,4) line m kind]
    by blast
qed

lemma opening_same:
  assumes ok: "opening_ok mine f g" and same: "cf_status f' = cf_status f" "cf_status g' = cf_status g"
    "cf_line f' = cf_line f" "cf_unacked f' = cf_unacked f" and le: "cf_credit f' \<le> cf_credit f"
  shows "opening_ok mine f' g'"
  unfolding opening_ok_def same
  using opening_okD [OF ok] le by (metis le_zero_eq)

lemma chan_ok2_read_window:
  assumes ok: "chan_ok2 W own own' c f g" and kind: "sg_kind sg = KIND_WINDOW"
    and credit: "cf_credit g = be_nat (sg_body sg) + n" and m: "remote_move W sg f f'"
  shows "chan_ok2 W own own' c f' (g\<lparr>cf_credit := n\<rparr>)"
proof -
  from ok have o: "quiet_ok f" "quiet_ok g" "opening_ok (c mod 2 = own) f g" "opening_ok (c mod 2 = own') g f"
    "credit_ok W f g" "credit_ok W g f"
    by (simp_all add: chan_ok2_def)
  from m have "cf_status f' = cf_status f \<and> cf_line f' = cf_line f \<and> cf_unacked f' = cf_unacked f \<and>
      cf_credit f' = cf_credit f \<and> cf_permits f' + n \<le> cf_permits f + cf_credit g \<and>
      (cf_status f \<noteq> CsLive \<longrightarrow> cf_permits f' = cf_permits f)"
    by cases (use kind credit in simp_all)
  then have same: "cf_status f' = cf_status f" "cf_line f' = cf_line f" "cf_unacked f' = cf_unacked f"
    "cf_credit f' = cf_credit f"
    and more_permits: "cf_permits f' + n \<le> cf_permits f + cf_credit g"
    "cf_status f \<noteq> CsLive \<Longrightarrow> cf_permits f' = cf_permits f"
    by blast+
  have "quiet_ok f'" "quiet_ok (g\<lparr>cf_credit := n\<rparr>)"
    using o(1,2) credit same more_permits by (auto simp: quiet_ok_def)
  moreover have "opening_ok (c mod 2 = own) f' (g\<lparr>cf_credit := n\<rparr>)"
    using same by (intro opening_same [OF o(3)]) simp_all
  moreover have "opening_ok (c mod 2 = own') (g\<lparr>cf_credit := n\<rparr>) f'"
    using same credit by (intro opening_same [OF o(4)]) simp_all
  moreover have "credit_ok W f' (g\<lparr>cf_credit := n\<rparr>)" "credit_ok W (g\<lparr>cf_credit := n\<rparr>) f'"
    using o(5,6) same more_permits by (simp_all add: credit_ok_def)
  ultimately show ?thesis by (simp add: chan_ok2_def)
qed

text \<open>Both ends, and the wires between them; it reads the same from either side.\<close>

definition pair_ok :: "nat \<Rightarrow> link_end \<Rightarrow> link_end \<Rightarrow> bool" where
  "pair_ok W x y \<longleftrightarrow> end_ok (le_mux x) \<and> end_ok (le_mux y) \<and>
     mux_window (le_mux x) = W \<and> mux_window (le_mux y) = W \<and>
     peer_parity (mx_role (le_mux x)) = first_channel (mx_role (le_mux y)) \<and>
     peer_parity (mx_role (le_mux y)) = first_channel (mx_role (le_mux x)) \<and>
     (\<forall>sg \<in> set (le_wire x) \<union> set (le_wire y). sound_segment sg) \<and>
     (\<forall>c. chan_ok2 W (first_channel (mx_role (le_mux x))) (first_channel (mx_role (le_mux y))) c (flow x c) (flow y c))"

lemma chan_ok2_swap: "chan_ok2 W own own' c f g \<Longrightarrow> chan_ok2 W own' own c g f"
  unfolding chan_ok2_def by blast

lemma pair_ok_swap: "pair_ok W x y \<Longrightarrow> pair_ok W y x"
  unfolding pair_ok_def by (blast intro: chan_ok2_swap)

lemma pair_okD:
  assumes "pair_ok W x y"
  shows "end_ok (le_mux x)" "end_ok (le_mux y)" "mux_window (le_mux x) = W" "mux_window (le_mux y) = W"
    "peer_parity (mx_role (le_mux x)) = first_channel (mx_role (le_mux y))"
    "peer_parity (mx_role (le_mux y)) = first_channel (mx_role (le_mux x))"
    "sg \<in> set (le_wire x) \<Longrightarrow> sound_segment sg" "sg \<in> set (le_wire y) \<Longrightarrow> sound_segment sg"
    "chan_ok2 W (first_channel (mx_role (le_mux x))) (first_channel (mx_role (le_mux y))) c (flow x c) (flow y c)"
  using assms unfolding pair_ok_def by blast+

lemma own_differs: "first_channel r \<noteq> peer_parity r"
  by (cases r) simp_all

lemma pair_ok_start: "pair_ok (mc_initial_window cfg) (fst (pair_start cfg)) (snd (pair_start cfg))"
proof -
  have f: "flow \<lparr>le_mux = mux_start r cfg, le_wire = []\<rparr> c =
      \<lparr>cf_status = CsFresh, cf_permits = 0, cf_unacked = 0, cf_line = [], cf_credit = 0\<rparr>" for r c
    by (simp add: flow_def status_def chan_permits_def chan_unacked_def mux_start_def out_queue_def)
  have "chan_ok2 W own own' c \<lparr>cf_status = CsFresh, cf_permits = 0, cf_unacked = 0, cf_line = [], cf_credit = 0\<rparr>
      \<lparr>cf_status = CsFresh, cf_permits = 0, cf_unacked = 0, cf_line = [], cf_credit = 0\<rparr>" for W own own' c
    by (simp add: chan_ok2_def quiet_ok_def opening_ok_def credit_ok_def)
  moreover have "mx_role (mux_start r cfg) = r" "mx_cfg (mux_start r cfg) = cfg" for r by (simp_all add: mux_start_def)
  ultimately show ?thesis
    by (simp add: pair_ok_def pair_start_def mux_start_end_ok mux_window_def f)
qed

text \<open>What is on the wire can be read: the line and the credit of its channel start with it.\<close>

lemma flow_read:
  assumes "le_wire y = sg # rest"
  shows "sg_kind sg \<noteq> KIND_WINDOW \<Longrightarrow> cf_line (flow y (sg_channel sg)) = sg # cf_line (flow (y\<lparr>le_wire := rest\<rparr>) (sg_channel sg))"
    "sg_kind sg \<noteq> KIND_WINDOW \<Longrightarrow> flow (y\<lparr>le_wire := rest\<rparr>) (sg_channel sg) =
      (flow y (sg_channel sg))\<lparr>cf_line := cf_line (flow (y\<lparr>le_wire := rest\<rparr>) (sg_channel sg))\<rparr>"
    "sg_kind sg = KIND_WINDOW \<Longrightarrow>
      cf_credit (flow y (sg_channel sg)) = be_nat (sg_body sg) + cf_credit (flow (y\<lparr>le_wire := rest\<rparr>) (sg_channel sg))"
    "sg_kind sg = KIND_WINDOW \<Longrightarrow> flow (y\<lparr>le_wire := rest\<rparr>) (sg_channel sg) =
      (flow y (sg_channel sg))\<lparr>cf_credit := cf_credit (flow (y\<lparr>le_wire := rest\<rparr>) (sg_channel sg))\<rparr>"
    "c \<noteq> sg_channel sg \<Longrightarrow> flow (y\<lparr>le_wire := rest\<rparr>) c = flow y c"
  using assms by (simp_all add: flow_def)

lemma pair_readable:
  assumes ok: "pair_ok W x y" and wire: "le_wire y = sg # rest"
  shows "readable (le_mux x) sg"
proof -
  let ?c = "sg_channel sg" and ?f = "flow x (sg_channel sg)" and ?g = "flow y (sg_channel sg)"
  from pair_okD(9) [OF ok, of ?c]
  have c: "quiet_ok ?g" "opening_ok (?c mod 2 = first_channel (mx_role (le_mux y))) ?g ?f"
    "credit_ok W ?f ?g" "credit_ok W ?g ?f"
    unfolding chan_ok2_def by blast+
  have f: "cf_status ?f = status (le_mux x) ?c" "cf_permits ?f = chan_permits (le_mux x) ?c"
    "cf_unacked ?f = chan_unacked (le_mux x) ?c"
    by (simp_all add: flow_def)
  have W: "mux_window (le_mux x) = W" by (rule pair_okD(3) [OF ok])
  have "sound_segment sg" using pair_okD(8) [OF ok] wire by simp
  moreover have "status (le_mux x) ?c = CsFresh \<and> ?c mod 2 = peer_parity (mx_role (le_mux x))" if k: "sg_kind sg = KIND_OPEN"
  proof -
    have "starts_open (cf_line ?g)" using flow_read(1) [OF wire] k by simp
    with opening_okD(2,3) [OF c(2)] f(1) pair_okD(5) [OF ok] show ?thesis by metis
  qed
  moreover have "status (le_mux x) ?c \<noteq> CsFresh \<and> chan_unacked (le_mux x) ?c + length (sg_body sg) \<le> mux_window (le_mux x)"
    if k: "sg_kind sg = KIND_DATA"
  proof -
    have line: "cf_line ?g = sg # cf_line (flow (y\<lparr>le_wire := rest\<rparr>) ?c)" using flow_read(1) [OF wire] k by simp
    have "\<not> starts_open (cf_line ?g)" unfolding line using k by simp
    moreover have "cf_status ?g \<noteq> CsFresh" using quiet_okD(1) [OF c(1)] line by auto
    ultimately have "cf_status ?f \<noteq> CsFresh" using opening_okD(4) [OF c(2)] by blast
    moreover have "length (sg_body sg) \<le> data_len (cf_line ?g)" unfolding line using k by simp
    ultimately show ?thesis using c(4) f W by (simp add: credit_ok_def)
  qed
  moreover have "chan_permits (le_mux x) ?c + be_nat (sg_body sg) \<le> mux_window (le_mux x)" if k: "sg_kind sg = KIND_WINDOW"
    using c(3) f W flow_read(3) [OF wire k] by (simp add: credit_ok_def)
  ultimately show ?thesis unfolding readable_def by blast
qed

text \<open>Each act keeps what connects the two.\<close>

lemma pair_ok_call:
  assumes ok: "pair_ok W x y" and few: "few_retired (le_mux x)" and op: "app_op op"
  shows "pair_ok W (x\<lparr>le_mux := mux_step (le_mux x) op\<rparr>) y"
proof -
  let ?x' = "x\<lparr>le_mux := mux_step (le_mux x) op\<rparr>" and ?own = "first_channel (mx_role (le_mux x))"
    and ?own' = "first_channel (mx_role (le_mux y))"
  from call_step [OF pair_okD(1) [OF ok] few op]
  have s: "end_ok (le_mux ?x')" "mx_cfg (le_mux ?x') = mx_cfg (le_mux x)" "mx_role (le_mux ?x') = mx_role (le_mux x)"
    "same_flow (le_mux x) (le_mux ?x') \<or> one_move (le_mux x) (le_mux ?x')"
    by (simp_all add: one_step_def)
  have x: "x = \<lparr>le_mux = le_mux x, le_wire = le_wire x\<rparr>" "?x' = \<lparr>le_mux = le_mux ?x', le_wire = le_wire x\<rparr>" by simp_all
  have ne: "?own \<noteq> ?own'" using own_differs [of "mx_role (le_mux x)"] pair_okD(5) [OF ok] by simp
  have "chan_ok2 W ?own ?own' c (flow ?x' c) (flow y c)" for c
    using s(4)
  proof
    assume "same_flow (le_mux x) (le_mux ?x')"
    then have "flow ?x' = flow x" using x unfolding same_flow_def by metis
    then show ?thesis using pair_okD(9) [OF ok] by simp
  next
    assume "one_move (le_mux x) (le_mux ?x')"
    then obtain d f where m: "local_move (mux_window (le_mux x)) ?own d (flow x d) f" "flow ?x' = (flow x)(d := f)"
      using x unfolding one_move_def by metis
    show ?thesis
    proof (cases "c = d")
      case True
      have "local_move W ?own d (flow x d) f" using m(1) pair_okD(3) [OF ok] by simp
      from chan_ok2_local [OF pair_okD(9) [OF ok] ne this] True m(2) show ?thesis by simp
    next
      case False
      with m(2) pair_okD(9) [OF ok] show ?thesis by simp
    qed
  qed
  moreover have "mux_window (le_mux ?x') = W" using s(2) pair_okD(3) [OF ok] by (simp add: mux_window_def)
  ultimately show ?thesis
    using ok s(1,3) unfolding pair_ok_def by simp
qed

lemma pair_ok_write:
  assumes ok: "pair_ok W x y" and t: "take_next (le_mux x) = (m, r)"
  shows "pair_ok W (x\<lparr>le_mux := m, le_wire := le_wire x @ (case r of None \<Rightarrow> [] | Some sg \<Rightarrow> [sg])\<rparr>) y"
proof -
  let ?x' = "x\<lparr>le_mux := m, le_wire := le_wire x @ (case r of None \<Rightarrow> [] | Some sg \<Rightarrow> [sg])\<rparr>"
  note s = take_step [OF pair_okD(1) [OF ok] t]
  have x: "x = \<lparr>le_mux = le_mux x, le_wire = le_wire x\<rparr>"
    "?x' = \<lparr>le_mux = m, le_wire = le_wire x @ (case r of None \<Rightarrow> [] | Some sg \<Rightarrow> [sg])\<rparr>" by simp_all
  have flow': "flow ?x' = flow x" using s x by metis
  have "\<forall>sg \<in> set (le_wire ?x') \<union> set (le_wire y). sound_segment sg"
    using s pair_okD(7,8) [OF ok] by (auto split: option.splits)
  moreover have "end_ok (le_mux ?x')" "mux_window (le_mux ?x') = W" "mx_role (le_mux ?x') = mx_role (le_mux x)"
    using s take_next_fields(1,2) [OF t] pair_okD(3) [OF ok] by (simp_all add: mux_window_def)
  ultimately show ?thesis
    using ok flow' unfolding pair_ok_def by simp
qed

lemma pair_ok_read:
  assumes ok: "pair_ok W x y" and few: "few_retired (le_mux x)" and wire: "le_wire y = sg # rest"
    and run: "handle_segment (le_mux x) (segment_encode sg) = (m, Inr u)"
  shows "pair_ok W (x\<lparr>le_mux := m\<rparr>) (y\<lparr>le_wire := rest\<rparr>)"
proof -
  let ?x' = "x\<lparr>le_mux := m\<rparr>" and ?y' = "y\<lparr>le_wire := rest\<rparr>" and ?own = "first_channel (mx_role (le_mux x))"
    and ?own' = "first_channel (mx_role (le_mux y))" and ?c = "sg_channel sg"
  from read_step [OF pair_okD(1) [OF ok] few pair_readable [OF ok wire] run]
  have e: "read_effect sg (le_mux x) m" by auto
  then have s: "end_ok m" "mx_cfg m = mx_cfg (le_mux x)" "mx_role m = mx_role (le_mux x)"
    unfolding read_effect_def by blast+
  have x: "x = \<lparr>le_mux = le_mux x, le_wire = le_wire x\<rparr>" "?x' = \<lparr>le_mux = m, le_wire = le_wire x\<rparr>" by simp_all
  obtain f where f: "remote_move (mux_window (le_mux x)) sg (flow x ?c) f" "flow ?x' = (flow x)(?c := f)"
    using e x unfolding read_effect_def by metis
  have move: "remote_move W sg (flow x ?c) f" using f(1) pair_okD(3) [OF ok] by simp
  have ne: "?own \<noteq> ?own'" using own_differs [of "mx_role (le_mux x)"] pair_okD(5) [OF ok] by simp
  have "chan_ok2 W ?own ?own' ?c f (flow ?y' ?c)"
  proof (cases "sg_kind sg = KIND_WINDOW")
    case True
    from chan_ok2_read_window [OF pair_okD(9) [OF ok] True flow_read(3) [OF wire True] move]
    show ?thesis by (subst flow_read(4) [OF wire True])
  next
    case False
    from chan_ok2_read [OF pair_okD(9) [OF ok] ne flow_read(1) [OF wire False] move False]
    show ?thesis by (subst flow_read(2) [OF wire False])
  qed
  then have "chan_ok2 W ?own ?own' c (flow ?x' c) (flow ?y' c)" for c
    using f(2) flow_read(5) [OF wire, of c] pair_okD(9) [OF ok, of c] by (cases "c = ?c") simp_all
  moreover have "mux_window m = W" using s(2) pair_okD(3) [OF ok] by (simp add: mux_window_def)
  moreover have "\<forall>sg \<in> set (le_wire ?x') \<union> set (le_wire ?y'). sound_segment sg"
    using pair_okD(7,8) [OF ok] wire by auto
  ultimately show ?thesis
    using ok s unfolding pair_ok_def by simp
qed

lemma pair_ok_act:
  assumes ok: "pair_ok W x y" and a: "act a (x, y) = Some (x', y')"
  shows "pair_ok W x' y'"
proof -
  have few: "few_retired (le_mux x)" using a by (auto simp: few_retired_def split: if_splits)
  show ?thesis
  proof (cases a)
    case (ActCall op)
    with a few pair_ok_call [OF ok few, of op] show ?thesis by (auto split: if_splits)
  next
    case ActWrite
    obtain m r where t: "take_next (le_mux x) = (m, r)" by fastforce
    from a ActWrite t pair_ok_write [OF ok t] show ?thesis by (auto split: if_splits option.splits)
  next
    case ActRead
    show ?thesis
    proof (cases "le_wire y")
      case Nil
      with a ActRead ok show ?thesis by (auto split: if_splits)
    next
      case (Cons sg rest)
      obtain m r where h: "handle_segment (le_mux x) (segment_encode sg) = (m, r)" by fastforce
      with a ActRead Cons obtain u where "r = Inr u" "x' = x\<lparr>le_mux := m\<rparr>" "y' = y\<lparr>le_wire := rest\<rparr>"
        by (auto split: if_splits sum.splits)
      with pair_ok_read [OF ok few Cons] h show ?thesis by simp
    qed
  qed
qed

lemma pair_ok_run:
  "pair_run as (x, y) = Some (x', y') \<Longrightarrow> pair_ok W x y \<Longrightarrow> pair_ok W x' y'"
proof (induction as arbitrary: x y)
  case (Cons fa as)
  obtain first a where fa: "fa = (first, a)" by (cases fa)
  with Cons.prems(1) obtain x1 y1 where
    s: "(if first then act a (x, y) else map_option prod.swap (act a (y, x))) = Some (x1, y1)"
    and r: "pair_run as (x1, y1) = Some (x', y')"
    by (auto split: option.splits if_splits simp del: act.simps)
  have "pair_ok W x1 y1"
  proof (cases first)
    case True
    with s pair_ok_act [OF Cons.prems(2)] show ?thesis by (simp del: act.simps)
  next
    case False
    with s have "act a (y, x) = Some (y1, x1)" by (auto simp del: act.simps)
    from pair_ok_swap [OF pair_ok_act [OF pair_ok_swap [OF Cons.prems(2)] this]] show ?thesis .
  qed
  from Cons.IH [OF r this] show ?case .
qed simp

lemma pair_ok_reached:
  assumes "pair_run as (pair_start cfg) = Some (x, y)"
  shows "pair_ok (mc_initial_window cfg) x y"
  using pair_ok_run [of as "fst (pair_start cfg)" "snd (pair_start cfg)"] assms pair_ok_start by simp


section \<open>What honest peers can do to each other\<close>







text \<open>
  Flow control conserves credit.  For every channel of two honest peers, at every moment and in each
  direction, what the sender may still send, what it has sent and the receiver has not handled, what
  the receiver holds without having returned credit for it, and the credit on its way back are together
  at most the window both were configured with; so no more than a window of bytes is ever under way.
\<close>

lemma credit_is_conserved:
  assumes run: "pair_run as (pair_start cfg) = Some (x, y)"
    and sender: "(a, b) = (x, y) \<or> (a, b) = (y, x)"
  shows "cf_permits (flow a c) + data_len (cf_line (flow a c)) + cf_unacked (flow b c) + cf_credit (flow b c)
    \<le> mc_initial_window cfg"
proof -
  have "pair_ok (mc_initial_window cfg) a b"
    using pair_ok_reached [OF run] pair_ok_swap sender by blast
  then have "credit_ok (mc_initial_window cfg) (flow a c) (flow b c)"
    using pair_okD(9) unfolding chan_ok2_def by blast
  then show ?thesis by (simp add: credit_ok_def)
qed

end
