(* ===== verification/Text.thy ===== *)
theory Text
  imports Prelude
begin

text \<open>
  The parts of Rust's string library that the later components rely on, on the UTF-8 bytes a
  string consists of: validation, and trimming of trailing white space.
\<close>

section \<open>UTF-8\<close>

definition utf8_cont :: "byte \<Rightarrow> bool" where
  "utf8_cont b \<longleftrightarrow> 0x80 \<le> b \<and> b \<le> 0xBF"

definition utf8_two :: "byte \<Rightarrow> byte \<Rightarrow> bool" where
  "utf8_two b c \<longleftrightarrow> 0xC2 \<le> b \<and> b \<le> 0xDF \<and> utf8_cont c"

definition utf8_three :: "byte \<Rightarrow> byte \<Rightarrow> byte \<Rightarrow> bool" where
  "utf8_three b c d \<longleftrightarrow> utf8_cont c \<and> utf8_cont d \<and>
     (b = 0xE0 \<and> 0xA0 \<le> c \<or> 0xE1 \<le> b \<and> b \<le> 0xEF \<and> (b = 0xED \<longrightarrow> c \<le> 0x9F))"

definition utf8_four :: "byte \<Rightarrow> byte \<Rightarrow> byte \<Rightarrow> byte \<Rightarrow> bool" where
  "utf8_four b c d e \<longleftrightarrow> utf8_cont c \<and> utf8_cont d \<and> utf8_cont e \<and>
     (b = 0xF0 \<and> 0x90 \<le> c \<or> 0xF1 \<le> b \<and> b \<le> 0xF3 \<or> b = 0xF4 \<and> c \<le> 0x8F)"

text \<open>The number of bytes of the first character, 0 when there is none or it is malformed.\<close>

fun utf8_first :: "bytes \<Rightarrow> nat" where
  "utf8_first [] = 0"
| "utf8_first (b # bs) =
     (if b < 0x80 then 1
      else (case bs of [] \<Rightarrow> 0
        | c # cs \<Rightarrow>
            if utf8_two b c then 2
            else (case cs of [] \<Rightarrow> 0
              | d # ds \<Rightarrow>
                  if utf8_three b c d then 3
                  else (case ds of [] \<Rightarrow> 0 | e # _ \<Rightarrow> if utf8_four b c d e then 4 else 0))))"

function valid_utf8 :: "bytes \<Rightarrow> bool" where
  "valid_utf8 bs = (if bs = [] then True
     else if utf8_first bs = 0 then False else valid_utf8 (drop (utf8_first bs) bs))"
  by auto
termination
proof (relation "measure length")
  fix bs :: bytes
  assume "bs \<noteq> []" "utf8_first bs \<noteq> 0"
  then show "(drop (utf8_first bs) bs, bs) \<in> measure length"
    by (cases bs) auto
qed simp

declare valid_utf8.simps [simp del]

lemma valid_utf8_Nil [simp]: "valid_utf8 []"
  by (simp add: valid_utf8.simps)

lemma valid_utf8_ascii_Cons [simp]: "b < 0x80 \<Longrightarrow> valid_utf8 (b # bs) = valid_utf8 bs"
  by (simp add: valid_utf8.simps [of "b # bs"])

lemma utf8_first_append: "utf8_first xs \<noteq> 0 \<Longrightarrow> utf8_first (xs @ ys) = utf8_first xs"
  by (cases xs rule: utf8_first.cases) (auto split: list.splits if_splits)

lemma utf8_first_le: "utf8_first xs \<le> length xs"
  by (cases xs rule: utf8_first.cases) (auto split: list.splits)

lemma valid_utf8_append: "valid_utf8 xs \<Longrightarrow> valid_utf8 ys \<Longrightarrow> valid_utf8 (xs @ ys)"
proof (induction xs rule: valid_utf8.induct)
  case (1 xs)
  show ?case
  proof (cases "xs = []")
    case True
    with 1 show ?thesis by simp
  next
    case False
    with 1(2) have first: "utf8_first xs \<noteq> 0" and rest: "valid_utf8 (drop (utf8_first xs) xs)"
      by (simp_all add: valid_utf8.simps [of xs] split: if_splits)
    from 1(1) [OF False first rest 1(3)] have "valid_utf8 (drop (utf8_first xs) xs @ ys)" .
    with False first utf8_first_le [of xs] show ?thesis
      by (simp add: valid_utf8.simps [of "xs @ ys"] utf8_first_append)
  qed
qed

lemma valid_utf8_ascii: "list_all (\<lambda>b. b < 0x80) bs \<Longrightarrow> valid_utf8 bs"
  by (induction bs) simp_all

lemma valid_utf8_ascii_append: "list_all (\<lambda>b. b < 0x80) xs \<Longrightarrow> valid_utf8 (xs @ ys) = valid_utf8 ys"
  by (induction xs) simp_all

text \<open>\<open>String::from_utf8\<close>.\<close>

definition from_utf8 :: "bytes \<Rightarrow> string option" where
  "from_utf8 bs = (if valid_utf8 bs then Some (str_of_bytes bs) else None)"

lemma from_utf8_as_bytes [simp]: "valid_utf8 (as_bytes s) \<Longrightarrow> from_utf8 (as_bytes s) = Some s"
  by (simp add: from_utf8_def)

section \<open>White space\<close>

text \<open>
  The bytes of a white-space character at the end of a text, given in reverse: the ASCII ones, then
  the two- and three-byte encodings of Unicode's \<open>White_Space\<close>.
\<close>

fun space_suffix :: "nat list \<Rightarrow> nat" where
  "space_suffix [] = 0"
| "space_suffix (c # cs) =
     (if 9 \<le> c \<and> c \<le> 13 \<or> c = 32 then 1
      else (case cs of [] \<Rightarrow> 0
        | b # bs \<Rightarrow>
            if b = 0xC2 \<and> (c = 0x85 \<or> c = 0xA0) then 2
            else (case bs of [] \<Rightarrow> 0
              | a # _ \<Rightarrow>
                  if a = 0xE1 \<and> b = 0x9A \<and> c = 0x80 \<or>
                     a = 0xE2 \<and> b = 0x80 \<and> (0x80 \<le> c \<and> c \<le> 0x8A \<or> c = 0xA8 \<or> c = 0xA9 \<or> c = 0xAF) \<or>
                     a = 0xE2 \<and> b = 0x81 \<and> c = 0x9F \<or>
                     a = 0xE3 \<and> b = 0x80 \<and> c = 0x80
                  then 3 else 0)))"

lemma space_suffix_le: "space_suffix cs \<le> length cs"
  by (cases cs rule: space_suffix.cases) (auto split: list.split)

function drop_spaces :: "nat list \<Rightarrow> nat list" where
  "drop_spaces cs = (if space_suffix cs = 0 then cs else drop_spaces (drop (space_suffix cs) cs))"
  by auto
termination
proof (relation "measure length")
  fix cs :: "nat list"
  assume "space_suffix cs \<noteq> 0"
  then show "(drop (space_suffix cs) cs, cs) \<in> measure length"
    by (cases cs) auto
qed simp

declare drop_spaces.simps [simp del]

definition trim_end :: "string \<Rightarrow> string" where
  "trim_end s = map char_of (rev (drop_spaces (rev (map of_char s))))"

lemma drop_spaces_fix: "space_suffix (drop_spaces cs) = 0"
  by (induction cs rule: drop_spaces.induct) (metis drop_spaces.simps)

lemma drop_spaces_suffix: "\<exists>n. drop_spaces cs = drop n cs"
proof (induction cs rule: drop_spaces.induct)
  case (1 cs)
  show ?case
  proof (cases "space_suffix cs = 0")
    case True
    then have "drop_spaces cs = drop 0 cs" by (simp add: drop_spaces.simps [of cs])
    then show ?thesis ..
  next
    case False
    with 1 obtain n where "drop_spaces (drop (space_suffix cs) cs) = drop n (drop (space_suffix cs) cs)"
      by blast
    with False have "drop_spaces cs = drop (n + space_suffix cs) cs"
      by (simp add: drop_spaces.simps [of cs])
    then show ?thesis ..
  qed
qed

lemma trim_end_prefix: "prefix (trim_end s) s"
proof -
  obtain n where "drop_spaces (rev (map of_char s)) = drop n (rev (map of_char s))"
    using drop_spaces_suffix by blast
  then have "trim_end s = take (length s - n) s"
    by (simp add: trim_end_def rev_drop rev_map [symmetric] take_map comp_def)
  then show ?thesis by (simp add: take_is_prefix)
qed

lemma trim_end_idem [simp]: "trim_end (trim_end s) = trim_end s"
proof -
  have "drop_spaces (drop_spaces cs) = drop_spaces cs" for cs
    using drop_spaces_fix [of cs] by (simp add: drop_spaces.simps [of "drop_spaces cs"])
  moreover have "map of_char (map char_of (rev (drop_spaces (rev (map of_char s))))) =
      rev (drop_spaces (rev (map of_char s)))" for s :: string
  proof -
    obtain n where n: "drop_spaces (rev (map of_char s)) = drop n (rev (map of_char s))"
      using drop_spaces_suffix by blast
    have "\<forall>x \<in> set (drop n (rev (map of_char s))). x < (256 :: nat)"
      by (auto dest!: in_set_dropD)
    then show ?thesis
      unfolding n by (auto simp: comp_def intro!: map_idI)
  qed
  ultimately show ?thesis
    by (simp add: trim_end_def)
qed

section \<open>White space at either end\<close>

fun space_prefix :: "nat list \<Rightarrow> nat" where
  "space_prefix [] = 0"
| "space_prefix (a # cs) =
     (if 9 \<le> a \<and> a \<le> 13 \<or> a = 32 then 1
      else (case cs of [] \<Rightarrow> 0
        | b # bs \<Rightarrow>
            if a = 0xC2 \<and> (b = 0x85 \<or> b = 0xA0) then 2
            else (case bs of [] \<Rightarrow> 0
              | c # _ \<Rightarrow>
                  if a = 0xE1 \<and> b = 0x9A \<and> c = 0x80 \<or>
                     a = 0xE2 \<and> b = 0x80 \<and> (0x80 \<le> c \<and> c \<le> 0x8A \<or> c = 0xA8 \<or> c = 0xA9 \<or> c = 0xAF) \<or>
                     a = 0xE2 \<and> b = 0x81 \<and> c = 0x9F \<or>
                     a = 0xE3 \<and> b = 0x80 \<and> c = 0x80
                  then 3 else 0)))"

function drop_leading :: "nat list \<Rightarrow> nat list" where
  "drop_leading cs = (if space_prefix cs = 0 then cs else drop_leading (drop (space_prefix cs) cs))"
  by auto
termination
proof (relation "measure length")
  fix cs :: "nat list"
  assume "space_prefix cs \<noteq> 0"
  then show "(drop (space_prefix cs) cs, cs) \<in> measure length"
    by (cases cs) auto
qed simp

declare drop_leading.simps [simp del]

definition trim :: "string \<Rightarrow> string" where
  "trim s = trim_end (map char_of (drop_leading (map of_char s)))"

text \<open>A text of printable ASCII is left as it is.\<close>

definition graphic :: "char \<Rightarrow> bool" where
  "graphic c \<longleftrightarrow> 33 \<le> (of_char c :: nat) \<and> (of_char c :: nat) < 127"

lemma trim_graphic: "list_all graphic s \<Longrightarrow> trim s = s"
proof -
  assume g: "list_all graphic s"
  have "space_prefix (map of_char s) = 0"
    using g by (cases s) (auto simp: graphic_def split: list.split)
  then have "drop_leading (map of_char s) = map of_char s"
    by (simp add: drop_leading.simps)
  then have start: "map char_of (drop_leading (map of_char s)) = s"
    by (simp add: comp_def)
  have "list_all graphic (rev s)" using g by simp
  then have "space_suffix (map of_char (rev s)) = 0"
    by (cases "rev s") (auto simp: graphic_def split: list.split)
  then have "drop_spaces (rev (map of_char s)) = rev (map of_char s)"
    by (simp add: drop_spaces.simps rev_map)
  then have "trim_end s = s"
    by (simp add: trim_end_def comp_def)
  with start show ?thesis
    by (simp add: trim_def)
qed

end
