(* ===== verification/Base32.thy ===== *)
theory Base32
  imports Prelude
begin

text \<open>
  What the pairing code relies on of the \<open>data-encoding\<close> crate: an encoding built from a
  specification with 32 symbols, no padding, and characters that are translated to a symbol before
  decoding.  The crate is a parameter of the model, a function from specifications to a codec;
  \<open>base32_laws\<close> is its documented behaviour.  A codec on lists of bits satisfies it.
\<close>

record encoding_spec =
  es_symbols :: string
  es_from :: string
  es_to :: string

record text_encoding =
  te_encode :: "bytes \<Rightarrow> string"
  te_decode :: "bytes \<Rightarrow> bytes option"

text \<open>A character that is not translated stands for itself.\<close>

definition translate :: "encoding_spec \<Rightarrow> char \<Rightarrow> char" where
  "translate sp c = (case map_of (zip (es_from sp) (es_to sp)) c of None \<Rightarrow> c | Some d \<Rightarrow> d)"

definition decodable :: "encoding_spec \<Rightarrow> string \<Rightarrow> bool" where
  "decodable sp s \<longleftrightarrow> list_all (\<lambda>c. translate sp c \<in> set (es_symbols sp)) s"

definition base32_laws :: "encoding_spec \<Rightarrow> text_encoding \<Rightarrow> bool" where
  "base32_laws sp te \<longleftrightarrow>
     (\<forall>bs. te_decode te (as_bytes (te_encode te bs)) = Some bs) \<and>
     (\<forall>bs. length (te_encode te bs) = div_ceil (8 * length bs) 5) \<and>
     (\<forall>bs. set (te_encode te bs) \<subseteq> set (es_symbols sp)) \<and>
     (\<forall>s bs. te_decode te (as_bytes s) = Some bs \<longrightarrow> te_encode te bs = map (translate sp) s) \<and>
     (\<forall>s. length s mod 8 = 0 \<longrightarrow> (te_decode te (as_bytes s) \<noteq> None \<longleftrightarrow> decodable sp s))"

lemma base32_lawsD:
  assumes "base32_laws sp te"
  shows "te_decode te (as_bytes (te_encode te bs)) = Some bs"
    and "length (te_encode te bs) = div_ceil (8 * length bs) 5"
    and "set (te_encode te bs) \<subseteq> set (es_symbols sp)"
    and "te_decode te (as_bytes s) = Some bs \<Longrightarrow> te_encode te bs = map (translate sp) s"
    and "length s mod 8 = 0 \<Longrightarrow> te_decode te (as_bytes s) \<noteq> None \<longleftrightarrow> decodable sp s"
  using assms by (simp_all add: base32_laws_def)

section \<open>Lists of bits\<close>

fun nat_bits :: "nat \<Rightarrow> nat \<Rightarrow> bool list" where
  "nat_bits 0 n = []"
| "nat_bits (Suc k) n = (n div 2 ^ k mod 2 = 1) # nat_bits k n"

fun bits_nat :: "bool list \<Rightarrow> nat" where
  "bits_nat [] = 0"
| "bits_nat (b # bs) = (if b then 2 ^ length bs else 0) + bits_nat bs"

lemma length_nat_bits [simp]: "length (nat_bits k n) = k"
  by (induction k) simp_all

lemma bits_nat_less: "bits_nat bs < 2 ^ length bs"
  by (induction bs) auto

lemma bits_nat_bits: "bits_nat (nat_bits k n) = n mod 2 ^ k"
proof (induction k)
  case (Suc k)
  have "n mod 2 ^ Suc k = 2 ^ k * (n div 2 ^ k mod 2) + n mod 2 ^ k"
    by (simp only: power_Suc2 mod_mult2_eq)
  moreover have "n div 2 ^ k mod 2 = 0 \<or> n div 2 ^ k mod 2 = 1" by arith
  ultimately show ?case using Suc by auto
qed simp

lemma nat_bits_add_high: "nat_bits k (2 ^ k * m + n) = nat_bits k n"
proof -
  have "nat_bits j (2 ^ k * m + n) = nat_bits j n" if "j \<le> k" for j
    using that
  proof (induction j)
    case (Suc j)
    then obtain i where i: "k = j + Suc i" by (metis add_Suc_right less_iff_Suc_add Suc_le_lessD)
    have "(2 ^ k * m + n) div 2 ^ j = 2 * (2 ^ i * m) + n div 2 ^ j"
    proof -
      have "2 ^ k * m + n = 2 ^ j * (2 * (2 ^ i * m)) + n" by (simp add: i power_add)
      then show ?thesis by (simp only: div_mult_self4 [of "2 ^ j"] power_not_zero) simp
    qed
    with Suc show ?case by simp
  qed simp
  then show ?thesis by simp
qed

lemma nat_bits_nat: "nat_bits (length bs) (bits_nat bs) = bs"
proof (induction bs)
  case (Cons b bs)
  have tail: "nat_bits (length bs) ((if b then 2 ^ length bs else 0) + bits_nat bs) = bs"
    using nat_bits_add_high [of "length bs" "if b then 1 else 0" "bits_nat bs"] Cons by (simp split: if_splits)
  have "((if b then 2 ^ length bs else 0) + bits_nat bs) div 2 ^ length bs = (if b then 1 else 0)"
    using bits_nat_less [of bs] by (cases b) (simp_all add: div_add_self1)
  with tail show ?case by (simp split: if_splits)
qed simp

section \<open>Groups of bits\<close>

lemma chunks_concat:
  "0 < k \<Longrightarrow> (\<forall>ys \<in> set yss. length ys = k) \<Longrightarrow> chunks k (concat yss) = yss"
proof (induction yss)
  case (Cons ys yss)
  then have "ys \<noteq> []" by auto
  then show ?case using Cons by (simp add: chunks.simps [of k "ys @ concat yss"])
qed simp

lemma length_chunk:
  "0 < k \<Longrightarrow> length xs mod k = 0 \<Longrightarrow> ys \<in> set (chunks k xs) \<Longrightarrow> length ys = k"
proof (induction k xs rule: chunks.induct)
  case (1 k xs)
  show ?case
  proof (cases "xs = []")
    case False
    then have "k \<le> length xs" using 1(3) by (metis length_0_conv less_le_not_le mod_less nat_le_linear)
    moreover have "(length xs - k) mod k = 0" using 1(3) calculation by (simp add: mod_if)
    ultimately show ?thesis using 1 False by (auto simp: chunks.simps [of k xs])
  qed (use 1 in simp)
qed

lemma length_chunks: "0 < k \<Longrightarrow> length xs mod k = 0 \<Longrightarrow> length (chunks k xs) = length xs div k"
proof -
  assume a: "0 < k" "length xs mod k = 0"
  have "length xs = length (concat (chunks k xs))" using concat_chunks [OF a(1), of xs] by simp
  also have "\<dots> = sum_list (map length (chunks k xs))" by (rule length_concat)
  also have "map length (chunks k xs) = replicate (length (chunks k xs)) k"
    using length_chunk [OF a] by (induction "chunks k xs") (auto simp: map_replicate_const [symmetric])
  finally show ?thesis using a(1) by (simp add: sum_list_replicate)
qed

section \<open>A codec with these laws\<close>

definition byte_bits :: "byte \<Rightarrow> bool list" where
  "byte_bits b = nat_bits 8 (unat b)"

definition bits_byte :: "bool list \<Rightarrow> byte" where
  "bits_byte bs = word_of_nat (bits_nat bs)"

definition pad_bits :: "bool list \<Rightarrow> bool list" where
  "pad_bits bs = bs @ replicate (5 * div_ceil (length bs) 5 - length bs) False"

fun index_in :: "char \<Rightarrow> string \<Rightarrow> nat option" where
  "index_in c [] = None"
| "index_in c (d # ds) = (if c = d then Some 0 else map_option Suc (index_in c ds))"

fun symbol_values :: "encoding_spec \<Rightarrow> string \<Rightarrow> nat list option" where
  "symbol_values sp [] = Some []"
| "symbol_values sp (c # cs) =
     (case (index_in (translate sp c) (es_symbols sp), symbol_values sp cs) of
        (Some v, Some vs) \<Rightarrow> Some (v # vs) | _ \<Rightarrow> None)"

definition base32_encode :: "encoding_spec \<Rightarrow> bytes \<Rightarrow> string" where
  "base32_encode sp bs =
     map (\<lambda>chunk. es_symbols sp ! bits_nat chunk) (chunks 5 (pad_bits (concat (map byte_bits bs))))"

definition base32_decode :: "encoding_spec \<Rightarrow> bytes \<Rightarrow> bytes option" where
  "base32_decode sp text =
     (case symbol_values sp (str_of_bytes text) of
        None \<Rightarrow> None
      | Some vs \<Rightarrow>
          (let bits = concat (map (nat_bits 5) vs); n = 8 * (length bits div 8)
           in if length bits - n < 5 \<and> True \<notin> set (drop n bits)
              then Some (map bits_byte (chunks 8 (take n bits))) else None))"

definition base32_crate :: "encoding_spec \<Rightarrow> text_encoding" where
  "base32_crate sp = \<lparr>te_encode = base32_encode sp, te_decode = base32_decode sp\<rparr>"

text \<open>What the specification must provide: 32 distinct symbols that stand for themselves.\<close>

definition spec32_ok :: "encoding_spec \<Rightarrow> bool" where
  "spec32_ok sp \<longleftrightarrow> length (es_symbols sp) = 32 \<and> distinct (es_symbols sp) \<and>
     list_all (\<lambda>c. translate sp c = c) (es_symbols sp)"

lemma index_in_nth: "distinct cs \<Longrightarrow> i < length cs \<Longrightarrow> index_in (cs ! i) cs = Some i"
proof (induction cs arbitrary: i)
  case (Cons c cs)
  then show ?case by (cases i) auto
qed simp

lemma index_in_Some: "index_in c cs = Some i \<Longrightarrow> i < length cs \<and> cs ! i = c"
  by (induction cs arbitrary: i) (auto split: if_splits)

lemma index_in_None: "index_in c cs = None \<longleftrightarrow> c \<notin> set cs"
  by (induction cs) auto

lemma symbol_values_Some:
  "symbol_values sp s = Some vs \<Longrightarrow>
     map ((!) (es_symbols sp)) vs = map (translate sp) s \<and> (\<forall>v \<in> set vs. v < length (es_symbols sp)) \<and>
     length vs = length s"
  by (induction s arbitrary: vs) (auto split: option.splits dest: index_in_Some)

lemma symbol_values_decodable: "symbol_values sp s \<noteq> None \<longleftrightarrow> decodable sp s"
proof (induction s)
  case (Cons c s)
  have "index_in (translate sp c) (es_symbols sp) \<noteq> None \<longleftrightarrow> translate sp c \<in> set (es_symbols sp)"
    by (simp only: index_in_None not_not)
  with Cons show ?case
    by (cases "index_in (translate sp c) (es_symbols sp)"; cases "symbol_values sp s")
      (auto simp: decodable_def)
qed (simp add: decodable_def)

lemma symbol_values_symbols:
  assumes "spec32_ok sp" "\<forall>v \<in> set vs. v < 32"
  shows "symbol_values sp (map ((!) (es_symbols sp)) vs) = Some vs"
  using assms(2)
proof (induction vs)
  case (Cons v vs)
  have "es_symbols sp ! v \<in> set (es_symbols sp)" using Cons(2) assms(1) by (simp add: spec32_ok_def)
  then have "translate sp (es_symbols sp ! v) = es_symbols sp ! v"
    using assms(1) by (simp add: spec32_ok_def list_all_iff)
  then show ?case using Cons assms(1) by (simp add: spec32_ok_def index_in_nth)
qed simp

lemma length_symbol_bits [simp]: "length (concat (map (nat_bits k) vs)) = k * length vs"
  by (induction vs) simp_all

lemma bits_byte_bits [simp]: "bits_byte (byte_bits b) = b"
  by (simp add: bits_byte_def byte_bits_def bits_nat_bits)

lemma byte_bits_byte: "length bs = 8 \<Longrightarrow> byte_bits (bits_byte bs) = bs"
  using bits_nat_less [of bs] nat_bits_nat [of bs]
  by (simp add: bits_byte_def byte_bits_def unat_of_nat)

lemma length_byte_bits [simp]: "length (byte_bits b) = 8"
  by (simp add: byte_bits_def)

lemma length_all_byte_bits [simp]: "length (concat (map byte_bits bs)) = 8 * length bs"
  by (induction bs) simp_all

lemma pad_length: "length (pad_bits bs) = 5 * div_ceil (length bs) 5"
proof -
  have "length bs \<le> 5 * div_ceil (length bs) 5"
    using div_ceil_ge [of 5 "length bs"] by (simp add: mult.commute)
  then show ?thesis by (simp add: pad_bits_def)
qed

lemma div_ceil_slack: "5 * div_ceil n 5 - n < (5 :: nat)"
  by (simp add: div_ceil_def; arith)

lemma pad_unique:
  assumes "length bs mod 5 = 0" "length bs - n < 5" "n \<le> length bs" "True \<notin> set (drop n bs)"
  shows "pad_bits (take n bs) = bs"
proof -
  have "5 * div_ceil n 5 = length bs"
    using assms(1-3) by (simp add: div_ceil_def) arith
  moreover have "drop n bs = replicate (length bs - n) False"
    by (rule replicate_eqI) (use assms(4) in auto)
  ultimately have "pad_bits (take n bs) = take n bs @ drop n bs"
    using assms(3) by (simp add: pad_bits_def)
  then show ?thesis by simp
qed

lemma chunk5: "ys \<in> set (chunks 5 (pad_bits bs)) \<Longrightarrow> length ys = 5"
  by (rule length_chunk) (simp_all add: pad_length)

lemma chunk5_bound:
  "\<forall>v \<in> set (map bits_nat (chunks 5 (pad_bits bs))). v < 32"
proof
  fix v
  assume "v \<in> set (map bits_nat (chunks 5 (pad_bits bs)))"
  then obtain ys where "ys \<in> set (chunks 5 (pad_bits bs))" "v = bits_nat ys" by auto
  then show "v < 32" using bits_nat_less [of ys] by (simp add: chunk5)
qed

lemma chunks5_back: "concat (map (nat_bits 5) (map bits_nat (chunks 5 (pad_bits bs)))) = pad_bits bs"
proof -
  have "map (nat_bits 5) (map bits_nat (chunks 5 (pad_bits bs))) = chunks 5 (pad_bits bs)"
    unfolding map_map
    by (rule map_idI) (metis chunk5 comp_apply nat_bits_nat)
  then show ?thesis by (simp add: concat_chunks)
qed

lemma encode_values:
  "base32_encode sp bs =
     map ((!) (es_symbols sp)) (map bits_nat (chunks 5 (pad_bits (concat (map byte_bits bs)))))"
  by (simp add: base32_encode_def comp_def)

lemma base32_decode_encode:
  assumes "spec32_ok sp"
  shows "base32_decode sp (as_bytes (base32_encode sp bs)) = Some bs"
proof -
  define B where "B = concat (map byte_bits bs)"
  define z where "z = 5 * div_ceil (length B) 5 - length B"
  have lenB: "length B = 8 * length bs" by (simp add: B_def)
  have z: "z < 5" unfolding z_def by (rule div_ceil_slack)
  have pad: "pad_bits B = B @ replicate z False" by (simp add: pad_bits_def z_def)
  have n: "8 * (length (pad_bits B) div 8) = length B" using z by (simp add: pad lenB)
  have "map bits_byte (chunks 8 B) = bs"
    by (simp add: B_def chunks_concat comp_def)
  with z n pad show ?thesis
    using symbol_values_symbols [OF assms chunk5_bound, of B] chunks5_back [of B]
    by (simp add: base32_decode_def encode_values Let_def flip: B_def)
qed

lemma base32_encode_decode:
  assumes "spec32_ok sp" "base32_decode sp (as_bytes s) = Some bs"
  shows "base32_encode sp bs = map (translate sp) s"
proof -
  obtain vs where vs: "symbol_values sp s = Some vs"
    using assms(2) by (auto simp: base32_decode_def split: option.splits)
  define bits where "bits = concat (map (nat_bits 5) vs)"
  define n where "n = 8 * (length bits div 8)"
  from assms(2) vs have ok: "length bits - n < 5" "True \<notin> set (drop n bits)"
    and bs: "bs = map bits_byte (chunks 8 (take n bits))"
    by (auto simp: base32_decode_def Let_def bits_def n_def split: if_splits)
  have le: "n \<le> length bits" by (simp add: n_def)
  then have "length (take n bits) mod 8 = 0" by (simp add: n_def)
  then have "map byte_bits bs = chunks 8 (take n bits)"
    unfolding bs map_map by (intro map_idI) (auto simp: byte_bits_byte dest: length_chunk [rotated 2])
  then have "concat (map byte_bits bs) = take n bits" by (simp add: concat_chunks)
  moreover have "pad_bits (take n bits) = bits"
    using ok le by (intro pad_unique) (simp_all add: bits_def)
  moreover have "chunks 5 bits = map (nat_bits 5) vs"
    unfolding bits_def by (rule chunks_concat) simp_all
  moreover have "map bits_nat (map (nat_bits 5) vs) = vs"
    using symbol_values_Some [OF vs] assms(1)
    unfolding map_map by (intro map_idI) (auto simp: bits_nat_bits spec32_ok_def)
  ultimately show ?thesis using symbol_values_Some [OF vs] by (simp add: encode_values)
qed

lemma base32_encode_length: "length (base32_encode sp bs) = div_ceil (8 * length bs) 5"
  by (simp add: base32_encode_def length_chunks pad_length)

lemma base32_encode_symbols: "spec32_ok sp \<Longrightarrow> set (base32_encode sp bs) \<subseteq> set (es_symbols sp)"
  using chunk5_bound [of "concat (map byte_bits bs)"] by (auto simp: encode_values spec32_ok_def)

lemma base32_decode_whole:
  assumes "length s mod 8 = 0"
  shows "base32_decode sp (as_bytes s) \<noteq> None \<longleftrightarrow> decodable sp s"
proof (cases "symbol_values sp s")
  case None
  then show ?thesis using symbol_values_decodable [of sp s] by (simp add: base32_decode_def)
next
  case (Some vs)
  then have "length (concat (map (nat_bits 5) vs)) = 5 * length s"
    by (simp add: symbol_values_Some)
  moreover have "8 * (5 * length s div 8) = 5 * length s" using assms by presburger
  ultimately show ?thesis using Some symbol_values_decodable [of sp s]
    by (simp add: base32_decode_def Let_def)
qed

lemma base32_crate_laws: "spec32_ok sp \<Longrightarrow> base32_laws sp (base32_crate sp)"
  by (simp add: base32_laws_def base32_crate_def base32_decode_encode base32_encode_length
      base32_encode_symbols base32_encode_decode base32_decode_whole del: not_None_eq)

end
