(* ===== verification/Pairing.thy ===== *)
theory Pairing
  imports Ids Text Addresses Base32
begin

text \<open>
  \<open>gonomad-core/src/pairing.rs\<close>: the ticket of the QR code with its binary hints, the typed
  fallback code, and the window in which a ticket may be used.  The base32 codec comes from the
  \<open>data-encoding\<close> crate, a parameter; what Unicode says of a character, which white space and case
  folding of typed input depend on, is a parameter as well.  A secret is its 32 bytes.
\<close>

definition PAIRING_SECRET_LEN :: nat where "PAIRING_SECRET_LEN = 32"
definition MANUAL_CODE_CHARS :: nat where "MANUAL_CODE_CHARS = 8"
definition PAIRING_WINDOW_MS :: nat where "PAIRING_WINDOW_MS = 120000"
definition MAX_PAIRING_ATTEMPTS :: nat where "MAX_PAIRING_ATTEMPTS = 3"
definition TICKET_PREFIX :: string where "TICKET_PREFIX = ''gonomad1:''"
definition TICKET_VERSION :: byte where "TICKET_VERSION = 2"
definition TICKET_FIXED_LEN :: nat where "TICKET_FIXED_LEN = 1 + 32 + 32 + PAIRING_SECRET_LEN + 2"
definition NODE_ID_AT :: nat where "NODE_ID_AT = 1 + 32"
definition SECRET_AT :: nat where "SECRET_AT = NODE_ID_AT + 32"
definition HINT_IPV4 :: byte where "HINT_IPV4 = 1"
definition HINT_IPV6 :: byte where "HINT_IPV6 = 2"
definition HINT_TEXT :: byte where "HINT_TEXT = 3"
definition HINT_RELAY :: byte where "HINT_RELAY = 4"
definition HINT_HEADER_LEN :: nat where "HINT_HEADER_LEN = 2"

lemmas pairing_consts = PAIRING_SECRET_LEN_def MANUAL_CODE_CHARS_def PAIRING_WINDOW_MS_def
  MAX_PAIRING_ATTEMPTS_def TICKET_VERSION_def TICKET_FIXED_LEN_def NODE_ID_AT_def SECRET_AT_def
  HINT_HEADER_LEN_def

lemmas hint_kinds = HINT_IPV4_def HINT_IPV6_def HINT_TEXT_def HINT_RELAY_def

definition crockford_spec :: encoding_spec where
  "crockford_spec =
     \<lparr>es_symbols = ''0123456789ABCDEFGHJKMNPQRSTVWXYZ'',
      es_from = ''OoIiLlabcdefghjkmnpqrstvwxyz'',
      es_to = ''001111ABCDEFGHJKMNPQRSTVWXYZ''\<rparr>"

type_synonym encoder = "encoding_spec \<Rightarrow> text_encoding"

definition crockford :: "encoder \<Rightarrow> text_encoding" where
  "crockford de = de crockford_spec"

datatype pairing_error =
    WrongScheme | NotBase32 | BadLength | UnsupportedVersion byte | BadCodeLength | Expired

type_synonym pairing_secret = bytes

record pairing_ticket =
  tk_daemon_key :: public_key
  tk_node_id :: public_key
  tk_addr_hints :: "string list"
  tk_relay_hint :: "string option"

section \<open>Hints\<close>

definition push_hint :: "bytes \<Rightarrow> byte \<Rightarrow> bytes \<Rightarrow> bytes" where
  "push_hint out kind payload =
     (if length payload \<le> 255 then out @ [kind, word_of_nat (length payload)] @ payload else out)"

definition port_bytes :: "16 word \<Rightarrow> bytes" where
  "port_bytes p = nat_be 2 (unat p)"

definition ipv4_octets :: "ipv4 \<Rightarrow> bytes" where
  "ipv4_octets ip = (case ip of (a, b, c, d) \<Rightarrow> [a, b, c, d])"

definition ipv6_octets :: "16 word list \<Rightarrow> bytes" where
  "ipv6_octets gs = concat (map (\<lambda>g. nat_be 2 (unat g)) gs)"

definition encode_hint :: "bytes \<Rightarrow> string \<Rightarrow> bytes" where
  "encode_hint out hint =
     (case parse_socket_addr hint of
        Some (V4 ip port) \<Rightarrow>
          (if socket_addr_text (V4 ip port) = hint
           then push_hint out HINT_IPV4 (ipv4_octets ip @ port_bytes port)
           else push_hint out HINT_TEXT (as_bytes hint))
      | Some (V6 ip port scope) \<Rightarrow>
          (if socket_addr_text (V6 ip port scope) = hint
           then push_hint out HINT_IPV6 (ipv6_octets ip @ port_bytes port)
           else push_hint out HINT_TEXT (as_bytes hint))
      | None \<Rightarrow> push_hint out HINT_TEXT (as_bytes hint))"

definition encode_hints :: "pairing_ticket \<Rightarrow> bytes" where
  "encode_hints t =
     (let out = foldl encode_hint [] (tk_addr_hints t)
      in case tk_relay_hint t of None \<Rightarrow> out | Some relay \<Rightarrow> push_hint out HINT_RELAY (as_bytes relay))"

definition bytes_port :: "bytes \<Rightarrow> 16 word" where
  "bytes_port bs = word_of_nat (be_nat bs)"

fun octets_groups :: "bytes \<Rightarrow> 16 word list" where
  "octets_groups (a # b # bs) = word_of_nat (be_nat [a, b]) # octets_groups bs"
| "octets_groups _ = []"

text \<open>What one record adds to the hints read so far.\<close>

definition take_hint ::
  "byte \<Rightarrow> bytes \<Rightarrow> string list \<times> string option \<Rightarrow> string list \<times> string option" where
  "take_hint kind payload acc =
     (case acc of (addrs, relay) \<Rightarrow>
        if kind = HINT_IPV4
        then (case payload of
                [a, b, c, d, p, q] \<Rightarrow> (addrs @ [socket_addr_text (V4 (a, b, c, d) (bytes_port [p, q]))], relay)
              | _ \<Rightarrow> (addrs, relay))
        else if kind = HINT_IPV6
        then (if length payload = 18
              then (addrs @ [socket_addr_text (V6 (octets_groups (take 16 payload))
                               (bytes_port (drop 16 payload)) 0)], relay)
              else (addrs, relay))
        else if kind = HINT_TEXT
        then (case from_utf8 payload of Some s \<Rightarrow> (addrs @ [s], relay) | None \<Rightarrow> (addrs, relay))
        else if kind = HINT_RELAY
        then (case from_utf8 payload of Some s \<Rightarrow> (addrs, Some s) | None \<Rightarrow> (addrs, relay))
        else (addrs, relay))"

function decode_hints_from ::
  "string list \<times> string option \<Rightarrow> bytes \<Rightarrow> (pairing_error, string list \<times> string option) result" where
  "decode_hints_from acc [] = Ok acc"
| "decode_hints_from acc [k] = Err BadLength"
| "decode_hints_from acc (kind # len # rest) =
     (if length rest < unat len then Err BadLength
      else decode_hints_from (take_hint kind (take (unat len) rest) acc) (drop (unat len) rest))"
  by pat_completeness auto
termination by (relation "measure (length \<circ> snd)") auto

definition decode_hints :: "bytes \<Rightarrow> (pairing_error, string list \<times> string option) result" where
  "decode_hints rest = decode_hints_from ([], None) rest"

section \<open>Tickets\<close>

definition ticket_body :: "pairing_ticket \<Rightarrow> pairing_secret \<Rightarrow> bytes" where
  "ticket_body t secret =
     (let hints = encode_hints t;
          len = (if length hints < 2 ^ 16 then length hints else 0)
      in [TICKET_VERSION] @ key_bytes (tk_daemon_key t) @ key_bytes (tk_node_id t) @ secret @
         nat_be 2 len @ take len hints)"

definition ticket_encode :: "encoder \<Rightarrow> pairing_ticket \<Rightarrow> pairing_secret \<Rightarrow> string" where
  "ticket_encode de t secret = TICKET_PREFIX @ te_encode (crockford de) (ticket_body t secret)"

definition decode_body :: "bytes \<Rightarrow> (pairing_error, pairing_ticket \<times> pairing_secret) result" where
  "decode_body body =
     (case body of
        [] \<Rightarrow> Err BadLength
      | version # _ \<Rightarrow>
          (if version \<noteq> TICKET_VERSION then Err (UnsupportedVersion version)
           else if length body < TICKET_FIXED_LEN then Err BadLength
           else let hint_len = be_nat (take 2 (drop (TICKET_FIXED_LEN - 2) body))
           in if length body \<noteq> TICKET_FIXED_LEN + hint_len then Err BadLength
           else rbind (decode_hints (drop TICKET_FIXED_LEN body)) (\<lambda>(addrs, relay).
             Ok (\<lparr>tk_daemon_key = PublicKey (take 32 (drop 1 body)),
                  tk_node_id = PublicKey (take 32 (drop NODE_ID_AT body)),
                  tk_addr_hints = addrs, tk_relay_hint = relay\<rparr>,
                 take PAIRING_SECRET_LEN (drop SECRET_AT body)))))"

definition ticket_decode ::
  "encoder \<Rightarrow> string \<Rightarrow> (pairing_error, pairing_ticket \<times> pairing_secret) result" where
  "ticket_decode de payload =
     rbind (ok_or (strip_prefix TICKET_PREFIX payload) WrongScheme) (\<lambda>encoded.
     rbind (ok_or (te_decode (crockford de) (as_bytes encoded)) NotBase32) decode_body)"

section \<open>Typed codes\<close>

text \<open>
  A typed text is its Unicode scalar values.  The tables of white space and of upper case are a
  parameter; of the ASCII characters they say what \<open>ascii_tables\<close> says.
\<close>

record unicode =
  uc_white :: "nat \<Rightarrow> bool"
  uc_upper :: "nat \<Rightarrow> nat list"

definition ascii_tables :: "unicode \<Rightarrow> bool" where
  "ascii_tables u \<longleftrightarrow> (\<forall>c < 128.
     (uc_white u c \<longleftrightarrow> 9 \<le> c \<and> c \<le> 13 \<or> c = 32) \<and>
     uc_upper u c = [if 97 \<le> c \<and> c \<le> 122 then c - 32 else c])"

definition utf8_of_scalar :: "nat \<Rightarrow> bytes" where
  "utf8_of_scalar c = map word_of_nat
     (if c < 0x80 then [c]
      else if c < 0x800 then [0xC0 + c div 0x40, 0x80 + c mod 0x40]
      else if c < 0x10000 then [0xE0 + c div 0x1000, 0x80 + c div 0x40 mod 0x40, 0x80 + c mod 0x40]
      else [0xF0 + c div 0x40000, 0x80 + c div 0x1000 mod 0x40, 0x80 + c div 0x40 mod 0x40,
            0x80 + c mod 0x40])"

datatype manual_code = ManualCode (code_text: string)

definition code_from_secret :: "hash_fn \<Rightarrow> encoder \<Rightarrow> pairing_secret \<Rightarrow> manual_code" where
  "code_from_secret hash de secret =
     ManualCode (take MANUAL_CODE_CHARS (te_encode (crockford de) (take 5 (hash secret))))"

definition code_cleaned :: "unicode \<Rightarrow> nat list \<Rightarrow> bytes" where
  "code_cleaned u typed =
     concat (map utf8_of_scalar (concat (map (uc_upper u)
       (filter (\<lambda>c. \<not> uc_white u c \<and> c \<noteq> 45 \<and> c \<noteq> 95) typed))))"

definition code_parse :: "unicode \<Rightarrow> encoder \<Rightarrow> nat list \<Rightarrow> (pairing_error, manual_code) result" where
  "code_parse u de typed =
     (let cleaned = code_cleaned u typed
      in if length cleaned \<noteq> MANUAL_CODE_CHARS then Err BadCodeLength
         else rbind (ok_or (te_decode (crockford de) cleaned) NotBase32) (\<lambda>bs.
           Ok (ManualCode (take MANUAL_CODE_CHARS (te_encode (crockford de) bs)))))"

definition code_grouped :: "manual_code \<Rightarrow> string" where
  "code_grouped c = take 4 (code_text c) @ ''-'' @ drop 4 (code_text c)"

definition pake_password :: "manual_code \<Rightarrow> string" where
  "pake_password c = code_text c"

section \<open>The window\<close>

record pairing_window =
  pw_opened_at :: nat
  pw_attempts :: nat
  pw_consumed :: bool

definition window_open :: "nat \<Rightarrow> pairing_window" where
  "window_open now = \<lparr>pw_opened_at = now, pw_attempts = 0, pw_consumed = False\<rparr>"

definition try_attempt :: "pairing_window \<Rightarrow> nat \<Rightarrow> pairing_window \<times> (pairing_error, unit) result" where
  "try_attempt w now =
     (if pw_consumed w \<or> pw_attempts w \<ge> MAX_PAIRING_ATTEMPTS \<or>
         now - pw_opened_at w > PAIRING_WINDOW_MS
      then (w, Err Expired)
      else (w\<lparr>pw_attempts := pw_attempts w + 1\<rparr>, Ok ()))"

definition window_consume :: "pairing_window \<Rightarrow> pairing_window" where
  "window_consume w = w\<lparr>pw_consumed := True\<rparr>"

definition window_is_open :: "pairing_window \<Rightarrow> nat \<Rightarrow> bool" where
  "window_is_open w now \<longleftrightarrow> \<not> pw_consumed w \<and> pw_attempts w < MAX_PAIRING_ATTEMPTS \<and>
     now - pw_opened_at w \<le> PAIRING_WINDOW_MS"

definition attempts_remaining :: "pairing_window \<Rightarrow> nat" where
  "attempts_remaining w = MAX_PAIRING_ATTEMPTS - pw_attempts w"

section \<open>Facts on the hints\<close>

lemma port_round_trip [simp]: "bytes_port (port_bytes p) = p"
proof -
  have "unat p < 256 ^ 2" using unsigned_less [of p] by simp
  then show ?thesis by (simp add: bytes_port_def port_bytes_def be_nat_of_nat_be)
qed

lemma port_bytes_two: "port_bytes p = [port_bytes p ! 0, port_bytes p ! 1]"
  by (simp add: port_bytes_def list_eq_iff_nth_eq less_2_cases_iff numeral_2_eq_2)

lemma length_port_bytes [simp]: "length (port_bytes p) = 2"
  by (simp add: port_bytes_def)

lemma octets_groups_append:
  "length bs = 2 \<Longrightarrow> octets_groups (bs @ cs) = word_of_nat (be_nat bs) # octets_groups cs"
  by (cases bs; cases "tl bs") auto

lemma octets_groups_octets [simp]: "octets_groups (ipv6_octets gs) = gs"
proof (induction gs)
  case Nil
  then show ?case by (simp add: ipv6_octets_def)
next
  case (Cons g gs)
  have "be_nat (nat_be 2 (unat g)) = unat g"
    using unsigned_less [of g] by (intro be_nat_of_nat_be) simp
  with Cons show ?case
    by (simp add: ipv6_octets_def octets_groups_append)
qed

lemma length_ipv6_octets [simp]: "length (ipv6_octets gs) = 2 * length gs"
  by (induction gs) (simp_all add: ipv6_octets_def)

lemma push_hint_append: "push_hint out k p = out @ push_hint [] k p"
  by (simp add: push_hint_def)

lemma encode_hint_append: "encode_hint out h = out @ encode_hint [] h"
proof (cases "parse_socket_addr h")
  case (Some a)
  then show ?thesis by (cases a) (simp_all add: encode_hint_def push_hint_append [of out])
qed (simp add: encode_hint_def push_hint_append [of out])

lemma foldl_encode_hint: "foldl encode_hint out hs = out @ concat (map (encode_hint []) hs)"
proof (induction hs arbitrary: out)
  case (Cons h hs)
  then show ?case by (simp add: encode_hint_append [of out])
qed simp

lemma decode_pushed:
  "length payload \<le> 255 \<Longrightarrow>
   decode_hints_from acc (push_hint [] k payload @ rest) = decode_hints_from (take_hint k payload acc) rest"
  by (simp add: push_hint_def unat_of_nat)

text \<open>What is left of a hint on the other side: a compact IPv6 address loses its scope.\<close>

definition carried_hint :: "string \<Rightarrow> string list" where
  "carried_hint h =
     (case parse_socket_addr h of
        Some (V6 ip port scope) \<Rightarrow>
          (if socket_addr_text (V6 ip port scope) = h then [socket_addr_text (V6 ip port 0)]
           else if length h \<le> 255 then [h] else [])
      | Some (V4 ip port) \<Rightarrow>
          (if socket_addr_text (V4 ip port) = h then [h] else if length h \<le> 255 then [h] else [])
      | None \<Rightarrow> if length h \<le> 255 then [h] else [])"

lemma decode_pushed_text:
  "valid_utf8 (as_bytes h) \<Longrightarrow>
   decode_hints_from (addrs, relay) (push_hint [] HINT_TEXT (as_bytes h) @ rest) =
     decode_hints_from (addrs @ (if length h \<le> 255 then [h] else []), relay) rest"
proof (cases "length h \<le> 255")
  case True
  moreover assume "valid_utf8 (as_bytes h)"
  ultimately show ?thesis by (simp add: decode_pushed take_hint_def hint_kinds)
qed (simp add: push_hint_def)

lemma decode_encoded_hint:
  assumes "valid_utf8 (as_bytes h)"
  shows "decode_hints_from (addrs, relay) (encode_hint [] h @ rest) =
    decode_hints_from (addrs @ carried_hint h, relay) rest"
proof (cases "parse_socket_addr h")
  case None
  then show ?thesis using assms by (simp add: encode_hint_def carried_hint_def decode_pushed_text)
next
  case (Some a)
  show ?thesis
  proof (cases a)
    case (V4 ip port)
    obtain a b c d where ip: "ip = (a, b, c, d)" by (cases ip)
    have "take_hint HINT_IPV4 (ipv4_octets ip @ port_bytes port) (addrs, relay) =
        (addrs @ [socket_addr_text (V4 ip port)], relay)"
    proof -
      obtain x y where xy: "port_bytes port = [x, y]" using port_bytes_two by blast
      then have "bytes_port [x, y] = port" using port_round_trip [of port] by simp
      then show ?thesis by (simp add: take_hint_def ip ipv4_octets_def xy)
    qed
    moreover have "length (ipv4_octets ip @ port_bytes port) \<le> 255"
      by (simp add: ipv4_octets_def ip)
    ultimately show ?thesis using assms Some V4
      by (simp add: encode_hint_def carried_hint_def decode_pushed decode_pushed_text
          del: socket_addr_text.simps)
  next
    case (V6 ip port scope)
    then have "length ip = 8" using Some parse_v6_length by simp
    moreover from this have "take_hint HINT_IPV6 (ipv6_octets ip @ port_bytes port) (addrs, relay) =
        (addrs @ [socket_addr_text (V6 ip port 0)], relay)"
      by (simp add: take_hint_def hint_kinds)
    ultimately show ?thesis using assms Some V6
      by (simp add: encode_hint_def carried_hint_def decode_pushed decode_pushed_text
          del: socket_addr_text.simps)
  qed
qed

section \<open>A ticket on the other side\<close>

definition carried_relay :: "string option \<Rightarrow> string option" where
  "carried_relay r = (case r of None \<Rightarrow> None | Some s \<Rightarrow> if length s \<le> 255 then Some s else None)"

definition carried :: "pairing_ticket \<Rightarrow> pairing_ticket" where
  "carried t =
     (if length (encode_hints t) < 2 ^ 16
      then t\<lparr>tk_addr_hints := concat (map carried_hint (tk_addr_hints t)),
             tk_relay_hint := carried_relay (tk_relay_hint t)\<rparr>
      else t\<lparr>tk_addr_hints := [], tk_relay_hint := None\<rparr>)"

text \<open>Keys of 32 bytes, and texts that are UTF-8: what the types of the code guarantee.\<close>

definition ticket_wf :: "pairing_ticket \<Rightarrow> bool" where
  "ticket_wf t \<longleftrightarrow> id_wf (key_bytes (tk_daemon_key t)) \<and> id_wf (key_bytes (tk_node_id t)) \<and>
     list_all (\<lambda>h. valid_utf8 (as_bytes h)) (tk_addr_hints t) \<and>
     (case tk_relay_hint t of None \<Rightarrow> True | Some r \<Rightarrow> valid_utf8 (as_bytes r))"

lemma decode_encoded_hints:
  assumes "list_all (\<lambda>h. valid_utf8 (as_bytes h)) hs"
  shows "decode_hints_from (addrs, relay) (concat (map (encode_hint []) hs) @ rest) =
    decode_hints_from (addrs @ concat (map carried_hint hs), relay) rest"
  using assms
proof (induction hs arbitrary: addrs)
  case (Cons h hs)
  then show ?case by (simp add: decode_encoded_hint)
qed simp

lemma decode_encoded_relay:
  assumes "valid_utf8 (as_bytes r)"
  shows "decode_hints_from (addrs, None) (push_hint [] HINT_RELAY (as_bytes r)) =
    Ok (addrs, carried_relay (Some r))"
proof (cases "length r \<le> 255")
  case True
  then show ?thesis using assms decode_pushed [of "as_bytes r" "(addrs, None)" HINT_RELAY "[]"]
    by (simp add: take_hint_def hint_kinds carried_relay_def)
qed (simp add: push_hint_def carried_relay_def)

lemma hints_round_trip:
  assumes "ticket_wf t"
  shows "decode_hints (encode_hints t) =
    Ok (concat (map carried_hint (tk_addr_hints t)), carried_relay (tk_relay_hint t))"
proof (cases "tk_relay_hint t")
  case None
  then show ?thesis
    using assms decode_encoded_hints [of "tk_addr_hints t" "[]" None "[]"]
    by (simp add: decode_hints_def encode_hints_def foldl_encode_hint ticket_wf_def carried_relay_def)
next
  case (Some r)
  then show ?thesis
    using assms decode_encoded_hints [of "tk_addr_hints t" "[]" None "push_hint [] HINT_RELAY (as_bytes r)"]
    by (simp add: decode_hints_def encode_hints_def foldl_encode_hint ticket_wf_def
        push_hint_append [of "concat _"] decode_encoded_relay)
qed

lemma take_drop_append:
  "length xs = n \<Longrightarrow> take k (drop n (xs @ ys)) = take k ys"
  "length xs = n \<Longrightarrow> drop n (xs @ ys) = ys"
  by simp_all

lemma body_round_trip:
  assumes "ticket_wf t" "length secret = PAIRING_SECRET_LEN"
  shows "decode_body (ticket_body t secret) = Ok (carried t, secret)"
proof -
  define hints where "hints = encode_hints t"
  define len where "len = (if length hints < 2 ^ 16 then length hints else 0)"
  have k: "length (key_bytes (tk_daemon_key t)) = 32" "length (key_bytes (tk_node_id t)) = 32"
    using assms(1) by (simp_all add: ticket_wf_def id_wf_def ID_LEN_def)
  have body: "ticket_body t secret = TICKET_VERSION # key_bytes (tk_daemon_key t) @
      key_bytes (tk_node_id t) @ secret @ nat_be 2 len @ take len hints"
    by (simp add: ticket_body_def len_def hints_def Let_def)
  have len: "be_nat (nat_be 2 len) = len"
    by (rule be_nat_of_nat_be) (simp add: len_def)
  have decoded: "decode_hints (take len hints) =
      Ok (tk_addr_hints (carried t), tk_relay_hint (carried t))"
    using hints_round_trip [OF assms(1)]
    by (simp add: len_def hints_def carried_def decode_hints_def)
  have "drop TICKET_FIXED_LEN (ticket_body t secret) = take len hints"
    using k assms(2) by (simp add: body pairing_consts)
  then have "decode_hints (drop TICKET_FIXED_LEN (ticket_body t secret)) =
      Ok (tk_addr_hints (carried t), tk_relay_hint (carried t))" by (simp only: decoded)
  moreover have "be_nat (take 2 (drop (TICKET_FIXED_LEN - 2) (ticket_body t secret))) = len"
    using k assms(2) by (simp add: body pairing_consts len)
  moreover have "take 32 (drop 1 (ticket_body t secret)) = key_bytes (tk_daemon_key t)"
    "take 32 (drop NODE_ID_AT (ticket_body t secret)) = key_bytes (tk_node_id t)"
    "take PAIRING_SECRET_LEN (drop SECRET_AT (ticket_body t secret)) = secret"
    using k assms(2) by (simp_all add: body pairing_consts)
  moreover have "length (ticket_body t secret) = TICKET_FIXED_LEN + len"
    using k assms(2) by (simp add: body pairing_consts len_def)
  moreover obtain rest where "ticket_body t secret = TICKET_VERSION # rest" using body by blast
  moreover have "carried t = \<lparr>tk_daemon_key = tk_daemon_key t, tk_node_id = tk_node_id t,
      tk_addr_hints = tk_addr_hints (carried t), tk_relay_hint = tk_relay_hint (carried t)\<rparr>"
    by (cases t) (simp add: carried_def)
  ultimately show ?thesis
    unfolding decode_body_def by (simp add: Let_def)
qed

text \<open>When nothing is lost: the records fit, and no hint carries a scope.\<close>

definition ticket_fits :: "pairing_ticket \<Rightarrow> bool" where
  "ticket_fits t \<longleftrightarrow> length (encode_hints t) < 2 ^ 16 \<and>
     list_all (\<lambda>h. length h \<le> 255 \<and>
       (case parse_socket_addr h of Some (V6 ip port scope) \<Rightarrow> scope = 0 | _ \<Rightarrow> True)) (tk_addr_hints t) \<and>
     (case tk_relay_hint t of None \<Rightarrow> True | Some r \<Rightarrow> length r \<le> 255)"

lemma carried_fits: "ticket_fits t \<Longrightarrow> carried t = t"
proof -
  assume fits: "ticket_fits t"
  then have "carried_hint h = [h]" if "h \<in> set (tk_addr_hints t)" for h
    using that by (auto simp: ticket_fits_def list_all_iff carried_hint_def split: option.splits socket_addr.splits)
  then have "concat (map carried_hint (tk_addr_hints t)) = concat (map (\<lambda>h. [h]) (tk_addr_hints t))"
    by (metis map_eq_conv)
  then have "concat (map carried_hint (tk_addr_hints t)) = tk_addr_hints t" by simp
  moreover have "carried_relay (tk_relay_hint t) = tk_relay_hint t"
    using fits by (auto simp: ticket_fits_def carried_relay_def split: option.splits)
  ultimately show ?thesis using fits by (simp add: carried_def ticket_fits_def)
qed

text \<open>
  C19: scanning a ticket gives back what was encoded: the two keys and the secret always, the address and
  relay hints as \<open>carried\<close> says (a hint over 255 bytes is left out, all hints when they do not fit,
  and a scoped IPv6 address loses its scope), which is the ticket itself when every hint fits and
  none is scoped.
\<close>

theorem ticket_round_trip:
  assumes "base32_laws crockford_spec (crockford de)" "ticket_wf t" "length secret = PAIRING_SECRET_LEN"
  shows "ticket_decode de (ticket_encode de t secret) = Ok (carried t, secret) \<and>
    (ticket_fits t \<longrightarrow> carried t = t)"
  by (simp add: ticket_decode_def ticket_encode_def base32_lawsD(1) [OF assms(1)]
      body_round_trip [OF assms(2,3)] carried_fits)

lemma crockford_spec_ok: "spec32_ok crockford_spec"
  by (simp add: spec32_ok_def crockford_spec_def translate_def)

lemma crockford_crate: "base32_laws crockford_spec (crockford base32_crate)"
  by (simp add: crockford_def base32_crate_laws crockford_spec_ok)

definition sample_ticket :: pairing_ticket where
  "sample_ticket =
     \<lparr>tk_daemon_key = PublicKey (replicate 32 7), tk_node_id = PublicKey (replicate 32 9),
      tk_addr_hints = [''192.168.1.4:80'', ''lap.local:1''], tk_relay_hint = Some ''https://r''\<rparr>"

lemmas parse_parts = read_separator_def read_number_def read_given_char_def to_digit_def
lemmas text_parts = show_nat.simps show_hex.simps hex_char_def char_of_eq_iff take_bit_eq_mod

lemma sample_ipv4: "read_ipv4 ''192.168.1.4:80'' = Some ((192, 168, 1, 4), '':80'')"
  by (simp add: read_ipv4_def read_octet_def parse_parts)

lemma sample_parsed: "parse_socket_addr ''192.168.1.4:80'' = Some (V4 (192, 168, 1, 4) 80)"
  by (simp add: parse_socket_addr_def read_socket_v4_def sample_ipv4 read_port_def parse_parts)

lemma sample_text: "socket_addr_text (V4 (192, 168, 1, 4) 80) = ''192.168.1.4:80''"
  by (simp add: ipv4_text_def text_parts)

lemma sample_name: "parse_socket_addr ''lap.local:1'' = None"
  by (simp add: parse_socket_addr_def read_socket_v4_def read_socket_v6_def read_ipv4_def
      read_octet_def parse_parts)

lemma sample_fits: "ticket_fits sample_ticket"
  by (simp add: ticket_fits_def sample_ticket_def encode_hints_def encode_hint_def push_hint_def
      sample_parsed sample_name sample_text ipv4_octets_def del: socket_addr_text.simps)

theorem ticket_round_trip_witness:
  "ticket_decode base32_crate (ticket_encode base32_crate sample_ticket (replicate 32 1)) =
     Ok (sample_ticket, replicate 32 1)"
proof -
  have "ticket_wf sample_ticket"
    by (simp add: ticket_wf_def sample_ticket_def id_wf_def ID_LEN_def as_bytes_def valid_utf8_ascii)
  then show ?thesis
    using ticket_round_trip [of base32_crate sample_ticket "replicate 32 1"] crockford_crate sample_fits
    by (simp add: PAIRING_SECRET_LEN_def)
qed

text \<open>A link-local address does not survive, although it renders back to exactly what was given.\<close>

lemma scoped_groups:
  "read_groups 8 0 ''fe80::1%3]:80'' = ([0xFE80], False, ''::1%3]:80'')"
  "read_groups 6 0 ''1%3]:80'' = ([1], False, ''%3]:80'')"
  using read_groups.simps(2) [of 7 0 "''fe80::1%3]:80''"] read_groups.simps(2) [of 6 1 "''::1%3]:80''"]
    read_groups.simps(2) [of 5 0 "''1%3]:80''"] read_groups.simps(2) [of 4 1 "''%3]:80''"]
  by (simp_all add: read_ipv4_def read_octet_def parse_parts)

lemma scoped_parsed: "parse_socket_addr ''[fe80::1%3]:80'' = Some (V6 [0xFE80, 0, 0, 0, 0, 0, 0, 1] 80 3)"
proof -
  have "replicate 6 0 = [0, 0, 0, 0, 0, 0 :: 16 word]" by (simp add: numeral_eq_Suc)
  then show ?thesis
    by (simp add: parse_socket_addr_def read_socket_v4_def read_socket_v6_def read_ipv4_def read_ipv6_def
        read_octet_def read_port_def read_scope_id_def scoped_groups parse_parts)
qed

lemma scope_is_lost:
  "socket_addr_text (V6 [0xFE80, 0, 0, 0, 0, 0, 0, 1] 80 3) = ''[fe80::1%3]:80'' \<and>
   carried_hint ''[fe80::1%3]:80'' = [''[fe80::1]:80'']"
  by (simp add: carried_hint_def scoped_parsed ipv6_text_def groups_text_def text_parts)

section \<open>The window admits three attempts\<close>

datatype window_op = TryAt nat | Consume

fun window_run :: "pairing_window \<Rightarrow> window_op list \<Rightarrow> bool list" where
  "window_run w [] = []"
| "window_run w (TryAt now # ops) =
     (let (w', r) = try_attempt w now in is_ok r # window_run w' ops)"
| "window_run w (Consume # ops) = False # window_run (window_consume w) ops"

lemma length_window_run [simp]: "length (window_run w ops) = length ops"
  by (induction w ops rule: window_run.induct) (auto split: prod.splits)

lemma window_run_nth:
  "i < length ops \<Longrightarrow> ops ! i = TryAt now \<Longrightarrow>
   window_run w ops ! i \<longleftrightarrow>
     \<not> pw_consumed w \<and> Consume \<notin> set (take i ops) \<and>
     pw_attempts w + length (filter id (take i (window_run w ops))) < MAX_PAIRING_ATTEMPTS \<and>
     now - pw_opened_at w \<le> PAIRING_WINDOW_MS"
proof (induction w ops arbitrary: i rule: window_run.induct)
  case (2 w at ops)
  obtain w' r where step: "try_attempt w at = (w', r)" by (cases "try_attempt w at")
  show ?case
  proof (cases i)
    case 0
    with 2 step show ?thesis by (auto simp: try_attempt_def split: if_splits)
  next
    case (Suc j)
    have keep: "pw_consumed w' = pw_consumed w" "pw_opened_at w' = pw_opened_at w"
      "pw_attempts w' = pw_attempts w + (if is_ok r then 1 else 0)"
      using step by (auto simp: try_attempt_def split: if_splits)
    show ?thesis using "2.IH" [OF step [symmetric] refl, of j] 2(2,3) by (simp add: Suc step keep)
  qed
next
  case (3 w ops)
  then show ?case
  proof (cases i)
    case (Suc j)
    then show ?thesis using 3(1) [of j] 3(2,3) by (simp add: window_consume_def)
  qed simp
qed simp

lemma window_run_bound:
  "pw_attempts w \<le> MAX_PAIRING_ATTEMPTS \<Longrightarrow>
   pw_attempts w + length (filter id (window_run w ops)) \<le> MAX_PAIRING_ATTEMPTS"
proof (induction w ops rule: window_run.induct)
  case (2 w at ops)
  obtain w' r where step: "try_attempt w at = (w', r)" by (cases "try_attempt w at")
  have "pw_attempts w' = pw_attempts w + (if is_ok r then 1 else 0)" "pw_attempts w' \<le> MAX_PAIRING_ATTEMPTS"
    using step 2(2) by (auto simp: try_attempt_def split: if_splits)
  then show ?case using "2.IH" [OF step [symmetric] refl] by (simp add: step split: if_splits)
qed (simp_all add: window_consume_def)

text \<open>
  C25: of all attempts against one ticket, in whatever order they come, at most three are let through;
  an attempt is let through exactly when fewer than three were before it, the ticket has not been
  used, and at most 120 seconds have passed since the window was opened.
\<close>

theorem window_admits_exactly:
  assumes "i < length ops" "ops ! i = TryAt now"
  shows "(window_run (window_open opened) ops ! i \<longleftrightarrow>
      Consume \<notin> set (take i ops) \<and>
      length (filter id (take i (window_run (window_open opened) ops))) < 3 \<and>
      now \<le> opened + 120000) \<and>
    length (filter id (window_run (window_open opened) ops)) \<le> 3"
proof -
  have "now - opened \<le> 120000 \<longleftrightarrow> now \<le> opened + 120000" by arith
  then show ?thesis
    using window_run_nth [OF assms, of "window_open opened"] window_run_bound [of "window_open opened" ops]
    by (simp add: window_open_def pairing_consts)
qed

theorem window_admits_exactly_witness:
  "window_run (window_open 5) [TryAt 6, TryAt 7, TryAt 200000, TryAt 8, TryAt 9] ! 4 = False \<and>
   length (filter id (window_run (window_open 5) [TryAt 6, TryAt 7, TryAt 200000, TryAt 8, TryAt 9])) \<le> 3"
  using window_admits_exactly [of 4 "[TryAt 6, TryAt 7, TryAt 200000, TryAt 8, TryAt 9]" 9 5]
  by (simp add: try_attempt_def window_open_def pairing_consts)

lemma is_open_iff: "window_is_open w now \<longleftrightarrow> is_ok (snd (try_attempt w now))"
  by (auto simp: window_is_open_def try_attempt_def)

section \<open>Typing the code\<close>

text \<open>What a typed ASCII text spells: separators left out, and each character as its symbol.\<close>

definition is_separator :: "char \<Rightarrow> bool" where
  "is_separator c \<longleftrightarrow> c \<in> {CHR ''-'', CHR ''_'', CHR '' ''} \<or> 9 \<le> (of_char c :: nat) \<and> (of_char c :: nat) \<le> 13"

definition spelling :: "string \<Rightarrow> string" where
  "spelling typed = map (translate crockford_spec) (filter (\<lambda>c. \<not> is_separator c) typed)"

abbreviation (input) is_ascii :: "char \<Rightarrow> bool" where
  "is_ascii c \<equiv> (of_char c :: nat) < 128"

definition small_letters :: string where
  "small_letters = ''abcdefghijklmnopqrstuvwxyz''"

lemma small_letters_range: "map char_of [97..<123::nat] = small_letters"
  by (simp add: small_letters_def upt_rec_numeral char_of_eq_iff take_bit_eq_mod)

lemma translate_upper_letters:
  "list_all (\<lambda>c. translate crockford_spec (ascii_upper c) = translate crockford_spec c \<or>
     translate crockford_spec (ascii_upper c) \<notin> set (es_symbols crockford_spec) \<and>
     translate crockford_spec c \<notin> set (es_symbols crockford_spec)) small_letters"
  by code_simp

lemma translate_upper:
  "translate crockford_spec (ascii_upper c) = translate crockford_spec c \<or>
   translate crockford_spec (ascii_upper c) \<notin> set (es_symbols crockford_spec) \<and>
   translate crockford_spec c \<notin> set (es_symbols crockford_spec)"
proof (cases "97 \<le> (of_char c :: nat) \<and> (of_char c :: nat) \<le> 122")
  case True
  then have "(of_char c :: nat) \<in> set [97..<123]"
    unfolding set_upt atLeastLessThan_iff by simp
  then have "char_of (of_char c :: nat) \<in> set (map char_of [97..<123::nat])"
    unfolding set_map by (rule imageI)
  then have "c \<in> set small_letters" by (simp only: small_letters_range char_of_char)
  then show ?thesis using translate_upper_letters by (simp add: list_all_iff)
qed (auto simp: ascii_upper_def Let_def)

lemma byte_of_char: "m < 256 \<Longrightarrow> (word_of_nat m :: byte) = of_char (char_of m :: char)"
  using of_nat_of_char [of "char_of m", where 'a = "8 word"] by (simp del: of_nat_of_char)

lemma upper_byte:
  "(of_char (ascii_upper c) :: byte) =
     word_of_nat (if 97 \<le> (of_char c :: nat) \<and> (of_char c :: nat) \<le> 122 then of_char c - 32 else of_char c)"
proof (cases "97 \<le> (of_char c :: nat) \<and> (of_char c :: nat) \<le> 122")
  case True
  then have "(of_char c :: nat) - 32 < 256" by arith
  then show ?thesis using True by (simp only: ascii_upper_def Let_def simp_thms if_True byte_of_char)
next
  case False
  then show ?thesis by (simp only: ascii_upper_def Let_def if_False of_nat_of_char)
qed

text \<open>The cleaned text of ASCII input is its upper case without the separators.\<close>

lemma cleaned_ascii:
  assumes "ascii_tables u" "list_all is_ascii typed"
  shows "code_cleaned u (map of_char typed) =
    as_bytes (map ascii_upper (filter (\<lambda>c. \<not> is_separator c) typed))"
  using assms(2)
proof (induction typed)
  case Nil
  then show ?case by (simp add: code_cleaned_def as_bytes_def)
next
  case (Cons c typed)
  define n where "n = (of_char c :: nat)"
  have n: "n < 128" using Cons(2) by (simp add: n_def)
  have sep: "is_separator c \<longleftrightarrow> uc_white u n \<or> n = 45 \<or> n = 95"
  proof -
    have "c = CHR ''-'' \<longleftrightarrow> n = 45" "c = CHR ''_'' \<longleftrightarrow> n = 95" "c = CHR '' '' \<longleftrightarrow> n = 32"
      using of_char_eq_iff [where 'a = nat, of c "CHR ''-''"] of_char_eq_iff [where 'a = nat, of c "CHR ''_''"]
        of_char_eq_iff [where 'a = nat, of c "CHR '' ''"] by (simp_all add: n_def)
    then show ?thesis using assms(1) n by (auto simp: ascii_tables_def is_separator_def simp flip: n_def)
  qed
  have "concat (map utf8_of_scalar (uc_upper u n)) = as_bytes [ascii_upper c]"
  proof -
    have "uc_upper u n = [if 97 \<le> n \<and> n \<le> 122 then n - 32 else n]"
      using assms(1) n by (simp only: ascii_tables_def)
    moreover have "(if 97 \<le> n \<and> n \<le> 122 then n - 32 else n) < 0x80" using n by arith
    ultimately show ?thesis by (simp only: list.map concat.simps utf8_of_scalar_def if_True
        as_bytes_def upper_byte n_def append_Nil2)
  qed
  with Cons sep show ?case by (simp add: code_cleaned_def as_bytes_def flip: n_def)
qed

lemma map_translate_upper:
  "decodable crockford_spec (map ascii_upper s) \<or> decodable crockford_spec s \<Longrightarrow>
   map (translate crockford_spec) (map ascii_upper s) = map (translate crockford_spec) s"
proof (induction s)
  case (Cons c s)
  then show ?case using translate_upper [of c] by (auto simp: decodable_def)
qed simp

lemma decodable_upper: "decodable crockford_spec (map ascii_upper s) \<longleftrightarrow> decodable crockford_spec s"
proof (induction s)
  case (Cons c s)
  then show ?case using translate_upper [of c] by (auto simp: decodable_def)
qed simp

text \<open>The eight symbols of a code.\<close>

definition code_wf :: "manual_code \<Rightarrow> bool" where
  "code_wf c \<longleftrightarrow> length (code_text c) = 8 \<and> set (code_text c) \<subseteq> set (es_symbols crockford_spec)"

lemma symbols_plain:
  "list_all (\<lambda>c. \<not> is_separator c \<and> translate crockford_spec c = c) (es_symbols crockford_spec)"
  by code_simp

lemma spelling_plain:
  "\<forall>d \<in> set s. d \<in> set (es_symbols crockford_spec) \<Longrightarrow> spelling s = s"
proof (induction s)
  case (Cons d s)
  then have "\<not> is_separator d \<and> translate crockford_spec d = d"
    using symbols_plain unfolding list_all_iff by (metis list.set_intros(1))
  with Cons show ?case by (simp add: spelling_def)
qed (simp add: spelling_def)

lemma spelling_append: "spelling (s @ t) = spelling s @ spelling t"
  by (simp add: spelling_def)

lemma spelling_grouped: "code_wf c \<Longrightarrow> spelling (code_grouped c) = code_text c"
proof -
  assume wf: "code_wf c"
  have "spelling (take 4 (code_text c)) = take 4 (code_text c)"
    using wf by (intro spelling_plain) (auto simp: code_wf_def dest: in_set_takeD)
  moreover have "spelling (drop 4 (code_text c)) = drop 4 (code_text c)"
    using wf by (intro spelling_plain) (auto simp: code_wf_def dest: in_set_dropD)
  moreover have "spelling ''-'' = []" by (simp add: spelling_def is_separator_def)
  ultimately show ?thesis by (simp only: code_grouped_def spelling_append append_Nil append_take_drop_id)
qed

lemma code_from_secret_wf:
  assumes "base32_laws crockford_spec (crockford de)" "hash32 hash"
  shows "code_wf (code_from_secret hash de secret)"
proof -
  have "length (take 5 (hash secret)) = 5" using assms(2) by (simp add: hash32_def id_wf_def ID_LEN_def)
  then have "length (te_encode (crockford de) (take 5 (hash secret))) = 8"
    by (simp add: base32_lawsD(2) [OF assms(1)] div_ceil_def)
  then show ?thesis using base32_lawsD(3) [OF assms(1)]
    by (simp add: code_wf_def code_from_secret_def MANUAL_CODE_CHARS_def)
qed

text \<open>
  ASCII input is accepted as the code \<open>c\<close> exactly when, dashes, underscores and white space left
  out, upper and lower case identified and O, I and L read as 0, 1 and 1, it spells the eight
  symbols of \<open>c\<close>; so the code shown on the screen, typed in any of these ways, is the code of the
  secret.
\<close>

theorem manual_code_forgiving:
  assumes "base32_laws crockford_spec (crockford de)" "ascii_tables u" "list_all is_ascii typed"
    and "hash32 hash"
  shows "(code_parse u de (map of_char typed) = Ok c \<longleftrightarrow> spelling typed = code_text c \<and> code_wf c) \<and>
    spelling (code_grouped (code_from_secret hash de secret)) = code_text (code_from_secret hash de secret) \<and>
    code_wf (code_from_secret hash de secret)"
proof -
  define kept where "kept = filter (\<lambda>c. \<not> is_separator c) typed"
  have cleaned: "code_cleaned u (map of_char typed) = as_bytes (map ascii_upper kept)"
    using cleaned_ascii [OF assms(2,3)] by (simp add: kept_def)
  have spelled: "spelling typed = map (translate crockford_spec) kept"
    by (simp add: spelling_def kept_def)
  have decodes: "length kept = 8 \<Longrightarrow>
      te_decode (crockford de) (as_bytes (map ascii_upper kept)) \<noteq> None \<longleftrightarrow> decodable crockford_spec kept"
    using base32_lawsD(5) [OF assms(1), of "map ascii_upper kept"] by (simp add: decodable_upper)
  have "code_parse u de (map of_char typed) = Ok c \<longleftrightarrow>
      length kept = 8 \<and> decodable crockford_spec kept \<and> c = ManualCode (map (translate crockford_spec) kept)"
  proof (cases "length kept = 8 \<and> decodable crockford_spec kept")
    case True
    then obtain bs where bs: "te_decode (crockford de) (as_bytes (map ascii_upper kept)) = Some bs"
      using decodes by blast
    have "te_encode (crockford de) bs = map (translate crockford_spec) kept"
      using base32_lawsD(4) [OF assms(1) bs] True by (simp add: map_translate_upper del: map_map)
    with True bs show ?thesis
      by (auto simp: code_parse_def cleaned Let_def MANUAL_CODE_CHARS_def)
  next
    case False
    then show ?thesis using decodes
      by (auto simp: code_parse_def cleaned Let_def MANUAL_CODE_CHARS_def)
  qed
  moreover have "decodable crockford_spec kept \<longleftrightarrow> set (spelling typed) \<subseteq> set (es_symbols crockford_spec)"
    by (auto simp: spelled decodable_def list_all_iff)
  ultimately have "code_parse u de (map of_char typed) = Ok c \<longleftrightarrow> spelling typed = code_text c \<and> code_wf c"
    by (cases c) (auto simp: code_wf_def spelled)
  then show ?thesis
    using code_from_secret_wf [OF assms(1,4)] spelling_grouped by blast
qed

definition plain_tables :: unicode where
  "plain_tables =
     \<lparr>uc_white = (\<lambda>c. 9 \<le> c \<and> c \<le> 13 \<or> c = 32),
      uc_upper = (\<lambda>c. [if 97 \<le> c \<and> c \<le> 122 then c - 32 else c])\<rparr>"

theorem manual_code_forgiving_witness:
  "code_parse plain_tables base32_crate (map of_char ''k7m2-9 Qlo'') = Ok (ManualCode ''K7M29Q10'')"
proof -
  have "spelling ''k7m2-9 Qlo'' = ''K7M29Q10''"
    by (simp add: spelling_def is_separator_def translate_def crockford_spec_def)
  moreover have "code_wf (ManualCode ''K7M29Q10'')"
    by (simp add: code_wf_def crockford_spec_def)
  moreover have "ascii_tables plain_tables"
    by (simp add: ascii_tables_def plain_tables_def)
  ultimately show ?thesis
    using manual_code_forgiving [of base32_crate plain_tables "''k7m2-9 Qlo''" const_hash
        "ManualCode ''K7M29Q10''"] crockford_crate hash32_const
    by simp
qed

end
