(* ===== verification/Endpoints.thy ===== *)
theory Endpoints
  imports Mux Pairing
begin

text \<open>
  \<open>gonomad-transport/src/traits.rs\<close>, \<open>discovery.rs\<close> and \<open>tcp.rs\<close>: tiers, address hints and peer
  policies, the addresses put into a ticket, and the endpoint on the local network.  What a socket
  does is an argument: whether a dial succeeds, the bytes the other side sends, which of the two
  finishes first, a future or its deadline.
\<close>

section \<open>Tiers and paths\<close>

datatype tier = TierLan | TierDirect | TierRelay

fun tier_label :: "tier \<Rightarrow> string" where
  "tier_label TierLan = ''LAN''"
| "tier_label TierDirect = ''Direct''"
| "tier_label TierRelay = ''Relay''"

record path_info =
  pi_tier :: tier
  pi_rtt_ms :: "nat option"
  pi_relayed :: bool

definition path_info_lan :: path_info where
  "path_info_lan = \<lparr>pi_tier = TierLan, pi_rtt_ms = None, pi_relayed = False\<rparr>"

definition with_rtt_ms :: "path_info \<Rightarrow> nat \<Rightarrow> path_info" where
  "with_rtt_ms p rtt = p\<lparr>pi_rtt_ms := Some rtt\<rparr>"

text \<open>A measured duration of this many milliseconds, as both bindings record it.\<close>

definition with_measured_rtt :: "nat option \<Rightarrow> path_info \<Rightarrow> path_info" where
  "with_measured_rtt rtt p = (case rtt of None \<Rightarrow> p | Some ms \<Rightarrow> with_rtt_ms p (clamp_to u32_max ms))"

section \<open>Peers and hints\<close>

datatype peer_id = PeerId (noise_key: public_key)

definition peer_short :: "hex_codec \<Rightarrow> peer_id \<Rightarrow> string" where
  "peer_short hx p = id_short hx (key_bytes (noise_key p))"

datatype addr_hint =
    HintDirect socket_addr
  | HintRelay string
  | HintNode public_key

definition hint_parse :: "string \<Rightarrow> addr_hint" where
  "hint_parse hint =
     (case parse_socket_addr hint of
        None \<Rightarrow> HintRelay hint
      | Some addr \<Rightarrow> HintDirect addr)"

definition hints_from_ticket :: "pairing_ticket \<Rightarrow> addr_hint list" where
  "hints_from_ticket t =
     [HintNode (tk_node_id t)] @ map hint_parse (tk_addr_hints t) @
     (case tk_relay_hint t of None \<Rightarrow> [] | Some r \<Rightarrow> [HintRelay r])"

fun hint_socket_addr :: "addr_hint \<Rightarrow> socket_addr option" where
  "hint_socket_addr (HintDirect addr) = Some addr"
| "hint_socket_addr (HintRelay _) = None"
| "hint_socket_addr (HintNode _) = None"

fun hint_node_id :: "addr_hint \<Rightarrow> public_key option" where
  "hint_node_id (HintNode k) = Some k"
| "hint_node_id (HintDirect _) = None"
| "hint_node_id (HintRelay _) = None"

section \<open>Who may connect\<close>

type_synonym peer_policy = "public_key \<Rightarrow> bool"

definition allow_any :: peer_policy where
  "allow_any peer = True"

text \<open>The scan counts the matching entries, so it visits all of them.\<close>

definition allowlist_authorize :: "public_key list \<Rightarrow> peer_policy" where
  "allowlist_authorize keys peer \<longleftrightarrow> length (filter (\<lambda>k. k = peer) keys) > 0"

section \<open>The addresses of this host\<close>

definition PROBE_TARGETS :: "(ipv4 \<times> 16 word) list" where
  "PROBE_TARGETS =
     [((192, 168, 0, 1), 9), ((192, 168, 1, 1), 9), ((10, 0, 0, 1), 9),
      ((172, 16, 0, 1), 9), ((100, 64, 0, 1), 9), ((1, 1, 1, 1), 9)]"

text \<open>The predicates of \<open>Ipv4Addr\<close>.\<close>

fun is_loopback :: "ipv4 \<Rightarrow> bool" where
  "is_loopback (a, b, c, d) \<longleftrightarrow> a = 127"

fun is_unspecified :: "ipv4 \<Rightarrow> bool" where
  "is_unspecified (a, b, c, d) \<longleftrightarrow> a = 0 \<and> b = 0 \<and> c = 0 \<and> d = 0"

fun is_broadcast :: "ipv4 \<Rightarrow> bool" where
  "is_broadcast (a, b, c, d) \<longleftrightarrow> a = 255 \<and> b = 255 \<and> c = 255 \<and> d = 255"

fun is_link_local :: "ipv4 \<Rightarrow> bool" where
  "is_link_local (a, b, c, d) \<longleftrightarrow> a = 169 \<and> b = 254"

definition is_advertisable :: "ipv4 \<Rightarrow> bool" where
  "is_advertisable ip \<longleftrightarrow>
     \<not> is_loopback ip \<and> \<not> is_unspecified ip \<and> \<not> is_broadcast ip \<and> \<not> is_link_local ip"

text \<open>
  The socket that asks the routing table: whether it binds, whether it connects to a target, and
  the local address it then has, each of which may fail.
\<close>

record udp_probe =
  up_binds :: bool
  up_connects :: "socket_addr \<Rightarrow> bool"
  up_local :: "socket_addr \<Rightarrow> socket_addr option"

definition route_source :: "udp_probe \<Rightarrow> socket_addr \<Rightarrow> ipv4 option" where
  "route_source u target =
     (if \<not> up_binds u then None
      else if \<not> up_connects u target then None
      else
        case up_local u target of
          None \<Rightarrow> None
        | Some (V4 ip _) \<Rightarrow> Some ip
        | Some (V6 _ _ _) \<Rightarrow> None)"

definition add_found :: "udp_probe \<Rightarrow> ipv4 list \<Rightarrow> ipv4 \<times> 16 word \<Rightarrow> ipv4 list" where
  "add_found u found t =
     (case route_source u (V4 (fst t) (snd t)) of
        None \<Rightarrow> found
      | Some a \<Rightarrow> if is_advertisable a \<and> a \<notin> set found then found @ [a] else found)"

definition local_ipv4_addresses :: "udp_probe \<Rightarrow> ipv4 list" where
  "local_ipv4_addresses u = foldl (add_found u) [] PROBE_TARGETS"

definition local_addr_hints :: "udp_probe \<Rightarrow> 16 word \<Rightarrow> string list" where
  "local_addr_hints u port = map (\<lambda>ip. socket_addr_text (V4 ip port)) (local_ipv4_addresses u)"

section \<open>The configuration of the TCP endpoint\<close>

definition DEFAULT_PORT :: "16 word" where "DEFAULT_PORT = 41234"

text \<open>Durations are in milliseconds.\<close>

definition TCP_HANDSHAKE_TIMEOUT :: nat where "TCP_HANDSHAKE_TIMEOUT = 10 * 1000"
definition TCP_CONNECT_TIMEOUT :: nat where "TCP_CONNECT_TIMEOUT = 3 * 1000"
definition MAX_PENDING_HANDSHAKES :: nat where "MAX_PENDING_HANDSHAKES = 32"
definition TCP_ACCEPT_QUEUE :: nat where "TCP_ACCEPT_QUEUE = 16"

record server_config =
  sc_identity :: device_identity
  sc_purpose :: purpose
  sc_psk :: "bytes option"
  sc_policy :: peer_policy
  sc_mux :: mux_config
  sc_handshake_timeout :: nat
  sc_max_pending :: nat
  sc_accept_queue :: nat

record client_config =
  cc_identity :: device_identity
  cc_purpose :: purpose
  cc_psk :: "bytes option"
  cc_mux :: mux_config
  cc_connect_timeout :: nat
  cc_handshake_timeout :: nat

definition server_reconnect :: "device_identity \<Rightarrow> peer_policy \<Rightarrow> server_config" where
  "server_reconnect i policy =
     \<lparr>sc_identity = i, sc_purpose = Reconnect, sc_psk = None, sc_policy = policy,
      sc_mux = mux_config_default, sc_handshake_timeout = TCP_HANDSHAKE_TIMEOUT,
      sc_max_pending = MAX_PENDING_HANDSHAKES, sc_accept_queue = TCP_ACCEPT_QUEUE\<rparr>"

definition server_pairing :: "device_identity \<Rightarrow> pairing_secret \<Rightarrow> server_config" where
  "server_pairing i secret =
     \<lparr>sc_identity = i, sc_purpose = ForPairing, sc_psk = Some secret, sc_policy = allow_any,
      sc_mux = mux_config_default, sc_handshake_timeout = TCP_HANDSHAKE_TIMEOUT,
      sc_max_pending = MAX_PENDING_HANDSHAKES, sc_accept_queue = TCP_ACCEPT_QUEUE\<rparr>"

definition client_reconnect :: "device_identity \<Rightarrow> client_config" where
  "client_reconnect i =
     \<lparr>cc_identity = i, cc_purpose = Reconnect, cc_psk = None, cc_mux = mux_config_default,
      cc_connect_timeout = TCP_CONNECT_TIMEOUT, cc_handshake_timeout = TCP_HANDSHAKE_TIMEOUT\<rparr>"

definition client_pairing :: "device_identity \<Rightarrow> pairing_secret \<Rightarrow> client_config" where
  "client_pairing i secret =
     \<lparr>cc_identity = i, cc_purpose = ForPairing, cc_psk = Some secret, cc_mux = mux_config_default,
      cc_connect_timeout = TCP_CONNECT_TIMEOUT, cc_handshake_timeout = TCP_HANDSHAKE_TIMEOUT\<rparr>"

text \<open>The check of purpose against secret, which all three configurations make.\<close>

definition psk_agrees :: "purpose \<Rightarrow> bytes option \<Rightarrow> (transport_error, unit) result" where
  "psk_agrees p psk =
     (case (p, psk \<noteq> None) of
        (ForPairing, False) \<Rightarrow> Err (Config ''Purpose::Pairing requires the pairing secret as a pre-shared key'')
      | (Reconnect, True) \<Rightarrow> Err (Config ''Purpose::Reconnect must not carry a pre-shared key'')
      | _ \<Rightarrow> Ok ())"

definition server_validate :: "nat \<Rightarrow> server_config \<Rightarrow> (transport_error, unit) result" where
  "server_validate max_permits c =
     rbind (psk_agrees (sc_purpose c) (sc_psk c)) (\<lambda>_. mux_config_validate max_permits (sc_mux c))"

definition client_validate :: "nat \<Rightarrow> client_config \<Rightarrow> (transport_error, unit) result" where
  "client_validate max_permits c =
     rbind (psk_agrees (cc_purpose c) (cc_psk c)) (\<lambda>_. mux_config_validate max_permits (cc_mux c))"

definition server_to_client :: "server_config \<Rightarrow> client_config" where
  "server_to_client c =
     \<lparr>cc_identity = sc_identity c, cc_purpose = sc_purpose c, cc_psk = sc_psk c, cc_mux = sc_mux c,
      cc_connect_timeout = TCP_CONNECT_TIMEOUT, cc_handshake_timeout = sc_handshake_timeout c\<rparr>"

section \<open>TCP connections\<close>

text \<open>The session is the two tasks' of the multiplexer.\<close>

record 't tcp_connection =
  tc_mux :: mux
  tc_session :: "'t session"
  tc_peer :: public_key
  tc_remote :: socket_addr
  tc_sas :: sas
  tc_binding :: bytes
  tc_path :: path_info

definition tcp_finish ::
  "hash_fn \<Rightarrow> ('h, 't) snow \<Rightarrow> nat \<Rightarrow> socket_addr \<Rightarrow> 'h authenticated \<Rightarrow> role \<Rightarrow> mux_config \<Rightarrow>
     (transport_error, 't tcp_connection) result" where
  "tcp_finish hash sn max_permits addr au r cfg =
     rbind (map_err from_session (hs_sas hash sn (au_handshake au))) (\<lambda>digits.
     rbind (map_err from_session (into_session sn (au_handshake au))) (\<lambda>s.
     rbind (mux_spawn max_permits r cfg) (\<lambda>mx.
     Ok \<lparr>tc_mux = mx, tc_session = s, tc_peer = au_peer au, tc_remote = addr, tc_sas = digits,
         tc_binding = channel_binding s, tc_path = with_measured_rtt (au_rtt au) path_info_lan\<rparr>)))"

definition tcp_open_bi ::
  "'t tcp_connection \<Rightarrow> 't tcp_connection \<times> (transport_error, nat) result" where
  "tcp_open_bi conn = (let (mx, r) = open_local (tc_mux conn) in (conn\<lparr>tc_mux := mx\<rparr>, r))"

definition tcp_accept_bi ::
  "'t tcp_connection \<Rightarrow> 't tcp_connection \<times> (transport_error, nat) result option" where
  "tcp_accept_bi conn = (let (mx, r) = accept_bi (tc_mux conn) in (conn\<lparr>tc_mux := mx\<rparr>, r))"

definition tcp_is_closed :: "'t tcp_connection \<Rightarrow> bool" where
  "tcp_is_closed conn = is_closed (tc_mux conn)"

definition tcp_close :: "'t tcp_connection \<Rightarrow> 't tcp_connection" where
  "tcp_close conn = conn\<lparr>tc_mux := mux_close (tc_mux conn)\<rparr>"

text \<open>\<open>greet\<close>: what was written to the peer, and the connection.\<close>

definition greet ::
  "hash_fn \<Rightarrow> ('h, 't) snow \<Rightarrow> nat \<Rightarrow> server_config \<Rightarrow> handshake_io \<Rightarrow> socket_addr \<Rightarrow>
     bytes \<times> (transport_error, 't tcp_connection) result" where
  "greet hash sn max_permits c io addr =
     (let (sent, r) = respond sn io (sc_identity c) (sc_purpose c) (sc_psk c) (sc_policy c)
      in (sent, rbind r (\<lambda>au. tcp_finish hash sn max_permits addr au Responder (sc_mux c))))"

text \<open>
  Dialling one address: the socket is refused, is not there in time, or is open, with the time
  between the two flights and whether the handshake is done before its deadline.
\<close>

datatype tcp_dial = DialRefused string | DialTimedOut | Dialled handshake_io nat bool

definition dial ::
  "hash_fn \<Rightarrow> ('h, 't) snow \<Rightarrow> nat \<Rightarrow> client_config \<Rightarrow> tcp_dial \<Rightarrow> socket_addr \<Rightarrow> peer_id \<Rightarrow>
     (transport_error, 't tcp_connection) result" where
  "dial hash sn max_permits c d addr peer =
     (case d of
        DialRefused kind \<Rightarrow> Err (connect_error addr kind)
      | DialTimedOut \<Rightarrow> Err Timeout
      | Dialled io elapsed in_time \<Rightarrow>
          if \<not> in_time then Err Timeout
          else
            rbind (snd (initiate sn io (cc_identity c) (noise_key peer) (cc_purpose c) (cc_psk c) elapsed))
              (\<lambda>au. tcp_finish hash sn max_permits addr au Initiator (cc_mux c)))"

text \<open>\<open>connect_lan\<close>: the direct hints one after the other; \<open>attempt\<close> says how each dial goes.\<close>

fun dial_all ::
  "(socket_addr \<Rightarrow> (transport_error, 'c) result) \<Rightarrow> socket_addr list \<Rightarrow> transport_error option \<Rightarrow>
     (transport_error, 'c) result" where
  "dial_all attempt [] failed =
     Err (case failed of None \<Rightarrow> NoReachableAddress | Some e \<Rightarrow> e)"
| "dial_all attempt (a # as) failed =
     (case attempt a of
        Inr c \<Rightarrow> Ok c
      | Inl e \<Rightarrow> dial_all attempt as (Some e))"

definition connect_lan ::
  "hash_fn \<Rightarrow> ('h, 't) snow \<Rightarrow> nat \<Rightarrow> client_config \<Rightarrow> (socket_addr \<Rightarrow> tcp_dial) \<Rightarrow> peer_id \<Rightarrow>
     addr_hint list \<Rightarrow> (transport_error, 't tcp_connection) result" where
  "connect_lan hash sn max_permits c net peer hints =
     dial_all (\<lambda>a. dial hash sn max_permits c (net a) a peer) (List.map_filter hint_socket_addr hints) None"

section \<open>The acceptor\<close>

text \<open>
  The loop that accepts sockets with the tasks it spawns.  A socket that was accepted waits for a
  slot before its handshake starts; a task that has its connection but finds the queue full keeps
  its slot while it waits.
\<close>

record socket =
  so_io :: handshake_io
  so_addr :: socket_addr

record 't acceptor =
  ac_waiting :: "socket option"
  ac_running :: "socket list"
  ac_sending :: "'t tcp_connection list"
  ac_queue :: "'t tcp_connection list"
  ac_receiver :: bool
  ac_stopped :: bool

definition acceptor_start :: "'t acceptor" where
  "acceptor_start =
     \<lparr>ac_waiting = None, ac_running = [], ac_sending = [], ac_queue = [], ac_receiver = True,
      ac_stopped = False\<rparr>"

definition acceptor_slots :: "'t acceptor \<Rightarrow> nat" where
  "acceptor_slots a = length (ac_running a) + length (ac_sending a)"

definition acceptor_slots_max :: "server_config \<Rightarrow> nat" where
  "acceptor_slots_max c = max (sc_max_pending c) 1"

definition acceptor_queue_max :: "server_config \<Rightarrow> nat" where
  "acceptor_queue_max c = max (sc_accept_queue c) 1"

text \<open>Sending into the queue: into the room there is, or waiting, or lost with the receiver.\<close>

definition offer :: "server_config \<Rightarrow> 't tcp_connection \<Rightarrow> 't acceptor \<Rightarrow> 't acceptor" where
  "offer c conn a =
     (if \<not> ac_receiver a then a
      else if length (ac_queue a) < acceptor_queue_max c \<and> ac_sending a = [] then a\<lparr>ac_queue := ac_queue a @ [conn]\<rparr>
      else a\<lparr>ac_sending := ac_sending a @ [conn]\<rparr>)"

text \<open>A place in the queue goes to the task that has waited longest.\<close>

definition refill_queue :: "'t acceptor \<Rightarrow> 't acceptor" where
  "refill_queue a =
     (case ac_sending a of
        [] \<Rightarrow> a
      | conn # rest \<Rightarrow> a\<lparr>ac_sending := rest, ac_queue := ac_queue a @ [conn]\<rparr>)"

definition accept_lan :: "'t acceptor option \<Rightarrow>
    't acceptor option \<times> (transport_error, 't tcp_connection) result option" where
  "accept_lan listening =
     (case listening of
        None \<Rightarrow> (None, Some (Err NotListening))
      | Some a \<Rightarrow>
          (case ac_queue a of
             conn # rest \<Rightarrow> (Some (refill_queue (a\<lparr>ac_queue := rest\<rparr>)), Some (Ok conn))
           | [] \<Rightarrow>
               (Some a,
                if ac_stopped a \<and> ac_running a = [] \<and> ac_sending a = [] then Some (Err Closed)
                else None)))"

inductive acceptor_step ::
  "hash_fn \<Rightarrow> ('h, 't) snow \<Rightarrow> nat \<Rightarrow> server_config \<Rightarrow> 't acceptor \<Rightarrow> 't acceptor \<Rightarrow> bool"
  for hash sn max_permits c where
  accept_failed: "\<not> ac_stopped a \<Longrightarrow> ac_waiting a = None \<Longrightarrow> acceptor_step hash sn max_permits c a a"
| accepted: "\<not> ac_stopped a \<Longrightarrow> ac_waiting a = None \<Longrightarrow>
    acceptor_step hash sn max_permits c a (a\<lparr>ac_waiting := Some s\<rparr>)"
| started: "\<not> ac_stopped a \<Longrightarrow> ac_waiting a = Some s \<Longrightarrow> acceptor_slots a < acceptor_slots_max c \<Longrightarrow> ac_receiver a \<Longrightarrow>
    acceptor_step hash sn max_permits c a (a\<lparr>ac_waiting := None, ac_running := ac_running a @ [s]\<rparr>)"
| gave_up: "\<not> ac_stopped a \<Longrightarrow> ac_waiting a = Some s \<Longrightarrow> acceptor_slots a < acceptor_slots_max c \<Longrightarrow> \<not> ac_receiver a \<Longrightarrow>
    acceptor_step hash sn max_permits c a (a\<lparr>ac_waiting := None, ac_stopped := True\<rparr>)"
| greeted: "ac_running a = before @ s # behind \<Longrightarrow>
    snd (greet hash sn max_permits c (so_io s) (so_addr s)) = Ok conn \<Longrightarrow>
    acceptor_step hash sn max_permits c a (offer c conn (a\<lparr>ac_running := before @ behind\<rparr>))"
| rejected: "ac_running a = before @ s # behind \<Longrightarrow>
    snd (greet hash sn max_permits c (so_io s) (so_addr s)) = Err e \<Longrightarrow>
    acceptor_step hash sn max_permits c a (a\<lparr>ac_running := before @ behind\<rparr>)"
| timed_out: "ac_running a = before @ s # behind \<Longrightarrow>
    acceptor_step hash sn max_permits c a (a\<lparr>ac_running := before @ behind\<rparr>)"
| taken: "accept_lan (Some a) = (Some a', r) \<Longrightarrow> acceptor_step hash sn max_permits c a a'"
| receiver_dropped:
    "acceptor_step hash sn max_permits c a (a\<lparr>ac_receiver := False, ac_queue := [], ac_sending := []\<rparr>)"

inductive acceptor_reach ::
  "hash_fn \<Rightarrow> ('h, 't) snow \<Rightarrow> nat \<Rightarrow> server_config \<Rightarrow> 't acceptor \<Rightarrow> bool"
  for hash sn max_permits c where
  at_start: "acceptor_reach hash sn max_permits c acceptor_start"
| after_step: "acceptor_reach hash sn max_permits c a \<Longrightarrow> acceptor_step hash sn max_permits c a a' \<Longrightarrow>
    acceptor_reach hash sn max_permits c a'"

text \<open>\<open>bind\<close> and \<open>client\<close>: the dialling side, with the acceptor when the listener could be bound.\<close>

record 't tcp_transport =
  tt_dialer :: client_config
  tt_local_addr :: "socket_addr option"
  tt_acceptor :: "'t acceptor option"

definition tcp_client :: "nat \<Rightarrow> client_config \<Rightarrow> (transport_error, 't tcp_transport) result" where
  "tcp_client max_permits c =
     rbind (client_validate max_permits c) (\<lambda>_.
     Ok \<lparr>tt_dialer = c, tt_local_addr = None, tt_acceptor = None\<rparr>)"

text \<open>Binding the listener gives its local address, or the kind of the failure.\<close>

definition tcp_bind ::
  "nat \<Rightarrow> (socket_addr \<Rightarrow> (string, socket_addr) result) \<Rightarrow> socket_addr \<Rightarrow> server_config \<Rightarrow>
     (transport_error, 't tcp_transport) result" where
  "tcp_bind max_permits listen addr c =
     rbind (server_validate max_permits c) (\<lambda>_.
     rbind (map_err (bind_error addr) (listen addr)) (\<lambda>local.
     Ok \<lparr>tt_dialer = server_to_client c, tt_local_addr = Some local, tt_acceptor = Some acceptor_start\<rparr>))"

definition tcp_path_info :: path_info where
  "tcp_path_info = path_info_lan"

section \<open>Lemmas on handshakes\<close>

lemma respond_authorized:
  assumes "snd (respond sn io i p psk authorize) = Ok au"
  shows "authorize (au_peer au)"
  using assms
  by (auto simp: respond_def Let_def case_prod_beta map_err_def split: sum.splits option.splits if_splits)

lemma initiate_peer:
  "snd (initiate sn io i remote p psk elapsed) = Ok au \<Longrightarrow> au_peer au = remote"
  using initiator_gets_whom_it_dialled by (metis prod.collapse)

lemma tcp_finish_facts:
  assumes "tcp_finish hash sn max_permits addr au r cfg = Ok conn"
  shows "tc_peer conn = au_peer au" "tc_remote conn = addr"
  using assms by (auto simp: tcp_finish_def)

lemma greet_authorized:
  "snd (greet hash sn max_permits c io addr) = Ok conn \<Longrightarrow> sc_policy c (tc_peer conn)"
  by (auto simp: greet_def Let_def case_prod_beta tcp_finish_facts dest: respond_authorized)

lemma dial_peer:
  "dial hash sn max_permits c d addr peer = Ok conn \<Longrightarrow> tc_peer conn = noise_key peer \<and> tc_remote conn = addr"
  by (auto simp: dial_def tcp_finish_facts split: tcp_dial.splits if_splits dest: initiate_peer)

section \<open>What the acceptor commits to\<close>

definition acceptor_ok :: "server_config \<Rightarrow> 't acceptor \<Rightarrow> bool" where
  "acceptor_ok c a \<longleftrightarrow>
     acceptor_slots a \<le> acceptor_slots_max c \<and> length (ac_queue a) \<le> acceptor_queue_max c \<and>
     (ac_sending a \<noteq> [] \<longrightarrow> length (ac_queue a) = acceptor_queue_max c) \<and>
     (\<forall>conn \<in> set (ac_queue a) \<union> set (ac_sending a). sc_policy c (tc_peer conn))"

lemma acceptor_ok_start: "acceptor_ok c acceptor_start"
  by (simp add: acceptor_ok_def acceptor_start_def acceptor_slots_def acceptor_slots_max_def)

lemma acceptor_ok_waiting [simp]: "acceptor_ok c (a\<lparr>ac_waiting := w\<rparr>) = acceptor_ok c a"
  by (simp add: acceptor_ok_def acceptor_slots_def)

lemma acceptor_ok_leave:
  "acceptor_ok c a \<Longrightarrow> ac_running a = before @ s # behind \<Longrightarrow>
    acceptor_ok c (a\<lparr>ac_running := before @ behind\<rparr>) \<and>
    acceptor_slots (a\<lparr>ac_running := before @ behind\<rparr>) < acceptor_slots_max c"
  by (simp add: acceptor_ok_def acceptor_slots_def)

lemma acceptor_ok_offer:
  assumes "acceptor_ok c a" and "acceptor_slots a < acceptor_slots_max c" and "sc_policy c (tc_peer conn)"
  shows "acceptor_ok c (offer c conn a)"
  using assms by (auto simp: acceptor_ok_def offer_def acceptor_slots_def)

lemma acceptor_ok_taken:
  assumes "acceptor_ok c a" and "accept_lan (Some a) = (Some a', r)"
  shows "acceptor_ok c a'"
  using assms
  by (auto simp: acceptor_ok_def accept_lan_def refill_queue_def acceptor_slots_def split: list.splits)

lemma acceptor_ok_step:
  assumes "acceptor_step hash sn max_permits c a a'" and "acceptor_ok c a"
  shows "acceptor_ok c a'"
  using assms
proof (cases rule: acceptor_step.cases)
  case (greeted before s behind conn)
  with assms(2) acceptor_ok_leave [of c a before s behind] show ?thesis
    by (auto intro!: acceptor_ok_offer greet_authorized)
qed (auto simp: acceptor_ok_taken dest: acceptor_ok_leave, auto simp: acceptor_ok_def acceptor_slots_def)

section \<open>IPv4 addresses read back\<close>

lemma is_digit_to_digit: "is_digit c \<Longrightarrow> to_digit 10 c = Some (of_char c - 48)"
  by (auto simp: is_digit_def to_digit_def Let_def)

definition digits_val :: "nat \<Rightarrow> string \<Rightarrow> nat" where
  "digits_val r s = foldl (\<lambda>acc c. acc * 10 + (of_char c - 48)) r s"

lemma digits_val_ge: "r \<le> digits_val r s"
proof (induction s arbitrary: r)
  case (Cons c s)
  from Cons [of "r * 10 + (of_char c - 48)"] show ?case
    by (simp add: digits_val_def)
qed (simp add: digits_val_def)

lemma read_digits_through:
  assumes "list_all is_digit s" and "digits_val r s \<le> hi"
    and "case maxd of None \<Rightarrow> True | Some m \<Rightarrow> k + length s \<le> m"
  shows "read_digits 10 hi maxd (s @ rest) r k = read_digits 10 hi maxd rest (digits_val r s) (k + length s)"
  using assms
proof (induction s arbitrary: r k)
  case Nil
  then show ?case by (simp add: digits_val_def)
next
  case (Cons c s)
  let ?r = "r * 10 + (of_char c - 48)"
  have v: "digits_val r (c # s) = digits_val ?r s" by (simp add: digits_val_def)
  with Cons.prems(2) digits_val_ge [of ?r s] have "?r \<le> hi" by simp
  moreover have "\<not> (case maxd of None \<Rightarrow> False | Some m \<Rightarrow> k + 1 > m)"
    using Cons.prems(3) by (auto split: option.splits)
  moreover have "read_digits 10 hi maxd (s @ rest) ?r (k + 1) =
      read_digits 10 hi maxd rest (digits_val ?r s) (k + 1 + length s)"
    using Cons.prems v by (intro Cons.IH) (auto split: option.splits)
  ultimately show ?case
    using Cons.prems(1) v by (simp add: is_digit_to_digit)
qed

definition starts_digit :: "string \<Rightarrow> bool" where
  "starts_digit s \<longleftrightarrow> s \<noteq> [] \<and> to_digit 10 (hd s) \<noteq> None"

lemma read_digits_stop: "\<not> starts_digit rest \<Longrightarrow> read_digits 10 hi maxd rest r k = Some (r, k, rest)"
  by (cases rest) (auto simp: starts_digit_def)

lemma show_nat_no_zero: "10 \<le> n \<Longrightarrow> hd (show_nat n) \<noteq> CHR ''0''"
proof (induction n rule: less_induct)
  case (less n)
  have shape: "show_nat n = show_nat (n div 10) @ [char_of (48 + n mod 10)]"
    using less.prems by (subst show_nat.simps) simp
  show ?case
  proof (cases "10 \<le> n div 10")
    case True
    with less.IH [of "n div 10"] less.prems shape show ?thesis by (simp add: hd_append)
  next
    case False
    then have "show_nat (n div 10) = [char_of (48 + n div 10)]"
      by (subst show_nat.simps) simp
    moreover have "(char_of (48 + n div 10) :: char) \<noteq> CHR ''0''"
    proof
      assume "(char_of (48 + n div 10) :: char) = CHR ''0''"
      then have "(of_char (char_of (48 + n div 10) :: char) :: nat) = of_char (CHR ''0'')" by simp
      with False less.prems show False by simp
    qed
    ultimately show ?thesis using shape by simp
  qed
qed

lemma read_number_show_nat:
  assumes "n \<le> hi" and "case maxd of None \<Rightarrow> True | Some m \<Rightarrow> length (show_nat n) \<le> m" and "\<not> starts_digit rest"
  shows "read_number 10 hi maxd z (show_nat n @ rest) = Some (n, rest)"
proof -
  have v: "digits_val 0 (show_nat n) = n"
    using of_digits_show_nat [of n] by (simp add: digits_val_def of_digits_def)
  then have r: "read_digits 10 hi maxd (show_nat n @ rest) 0 0 = Some (n, length (show_nat n), rest)"
    using assms read_digits_through [where s = "show_nat n" and r = 0 and k = 0 and hi = hi and maxd = maxd and rest = rest]
    by (cases maxd) (simp_all add: show_nat_digits read_digits_stop)
  have "\<not> (prefix ''0'' (show_nat n @ rest) \<and> length (show_nat n) > 1)"
  proof (cases "10 \<le> n")
    case True
    then have "hd (show_nat n) \<noteq> CHR ''0''" by (rule show_nat_no_zero)
    then show ?thesis by (cases "show_nat n") auto
  next
    case False
    then have "length (show_nat n) = 1" by (subst show_nat.simps) simp
    then show ?thesis by simp
  qed
  with r show ?thesis by (auto simp: read_number_def)
qed

lemma length_show_nat_3: "n < 1000 \<Longrightarrow> length (show_nat n) \<le> 3"
proof -
  assume n: "n < 1000"
  have one: "length (show_nat m) = 1" if "m < 10" for m
    using that by (subst show_nat.simps) simp
  have two: "length (show_nat m) \<le> 2" if "m < 100" for m
    using that one [of "m div 10"] by (subst show_nat.simps) simp
  show ?thesis
    using n two [of "n div 10"] by (subst show_nat.simps) simp
qed

lemma read_octet_show:
  assumes "\<not> starts_digit rest"
  shows "read_octet i ((if i = 0 then [] else ''.'') @ show_nat (unat (b :: byte)) @ rest) = Some (b, rest)"
proof -
  have "unat b \<le> 255"
    using unat_byte_less [of b] by linarith
  moreover from this have "length (show_nat (unat b)) \<le> 3"
    by (intro length_show_nat_3) linarith
  ultimately have "read_number 10 255 (Some 3) False (show_nat (unat b) @ rest) = Some (unat b, rest)"
    using assms by (intro read_number_show_nat) simp_all
  then show ?thesis
    by (simp add: read_octet_def read_separator_def read_given_char_def)
qed

lemma not_starts_digit [simp]:
  "\<not> starts_digit []" "\<not> starts_digit (CHR ''.'' # s)" "\<not> starts_digit (CHR '':'' # s)"
  by (simp_all add: starts_digit_def to_digit_def)

lemma parse_ipv4_text: "parse_socket_addr (socket_addr_text (V4 ip port)) = Some (V4 ip port)"
proof -
  obtain a b c d where ip: "ip = (a, b, c, d)" by (cases ip)
  have "unat port < 2 ^ 16" by (rule order.strict_trans2 [OF unsigned_less]) simp
  then have port: "read_port (CHR '':'' # show_nat (unat port)) = Some (port, [])"
    using read_number_show_nat [of "unat port" 65535 None "[]" True]
    by (simp add: read_port_def read_given_char_def)
  have "read_ipv4 (show_nat (unat a) @ ''.'' @ show_nat (unat b) @ ''.'' @ show_nat (unat c) @ ''.'' @
      show_nat (unat d) @ CHR '':'' # show_nat (unat port)) =
      Some ((a, b, c, d), CHR '':'' # show_nat (unat port))"
    using read_octet_show [of _ 0] read_octet_show [of _ 1] read_octet_show [of _ 2] read_octet_show [of _ 3]
    by (simp add: read_ipv4_def)
  then have "read_socket_v4 (socket_addr_text (V4 ip port)) = Some (V4 ip port, [])"
    using port by (simp add: ip read_socket_v4_def ipv4_text_def)
  then show ?thesis
    by (simp add: parse_socket_addr_def)
qed

section \<open>Properties\<close>

text \<open>
  C29: Before it has authenticated anyone, the acceptor commits to no more than the configured number
  of handshakes, however many sockets arrive and however slowly the other sides and the daemon
  behave; finished connections wait in a queue of the configured size, and each of them, queued or
  waiting to be, belongs to a key that the policy lets in.
\<close>

theorem acceptor_bounded:
  assumes "acceptor_reach hash sn max_permits c a"
  shows "acceptor_slots a \<le> acceptor_slots_max c \<and> length (ac_queue a) \<le> acceptor_queue_max c \<and>
    list_all (\<lambda>conn. sc_policy c (tc_peer conn)) (ac_queue a @ ac_sending a)"
proof -
  from assms have "acceptor_ok c a"
    by induction (auto simp: acceptor_ok_start intro: acceptor_ok_step)
  then show ?thesis
    by (auto simp: acceptor_ok_def list_all_iff)
qed

definition silent_socket :: socket where
  "silent_socket = \<lparr>so_io = \<lparr>hio_written = length, hio_reply = \<lambda>_. []\<rparr>, so_addr = V4 (10, 0, 0, 9) 9\<rparr>"

definition one_slot :: server_config where
  "one_slot = (server_reconnect (from_seed_inner toy_curves (replicate 32 1)) (\<lambda>_. False))\<lparr>sc_max_pending := 1\<rparr>"

theorem acceptor_bounded_witness:
  "acceptor_slots (acceptor_start\<lparr>ac_waiting := Some silent_socket, ac_running := [silent_socket]\<rparr> :: nat acceptor) \<le> acceptor_slots_max one_slot"
proof -
  let ?step = "acceptor_step const_hash counting_snow 9 one_slot"
  let ?waits = "acceptor_start\<lparr>ac_waiting := Some silent_socket\<rparr> :: nat acceptor"
  let ?runs = "?waits\<lparr>ac_waiting := None, ac_running := ac_running ?waits @ [silent_socket]\<rparr>"
  have "?step acceptor_start ?waits"
    by (rule accepted) (simp_all add: acceptor_start_def)
  moreover have "?step ?waits ?runs"
    by (rule started) (simp_all add: acceptor_start_def acceptor_slots_def acceptor_slots_max_def one_slot_def)
  moreover have "?step ?runs (?runs\<lparr>ac_waiting := Some silent_socket\<rparr>)"
    by (rule accepted) (simp_all add: acceptor_start_def)
  ultimately have "acceptor_reach const_hash counting_snow 9 one_slot (?runs\<lparr>ac_waiting := Some silent_socket\<rparr>)"
    by (blast intro: acceptor_reach.intros)
  from acceptor_bounded [OF this] show ?thesis
    by (simp add: acceptor_start_def acceptor_slots_def)
qed

lemma add_found_ok:
  assumes "distinct found" and "list_all is_advertisable found"
  shows "distinct (add_found u found t) \<and> list_all is_advertisable (add_found u found t) \<and>
    length (add_found u found t) \<le> length found + 1"
  using assms by (auto simp: add_found_def list_all_iff split: option.split)

lemma foldl_add_found:
  assumes "distinct found" and "list_all is_advertisable found"
  shows "distinct (foldl (add_found u) found ts) \<and> list_all is_advertisable (foldl (add_found u) found ts) \<and>
    length (foldl (add_found u) found ts) \<le> length found + length ts"
  using assms
proof (induction ts arbitrary: found)
  case (Cons t ts)
  from add_found_ok [OF Cons.prems, of u t] Cons.IH [of "add_found u found t"] show ?case
    by auto
qed simp

text \<open>
  The hints put into a ticket are the addresses found: the phone's parser reads each of them back
  as the direct address it was rendered from.  They are distinct, none is a loopback, unspecified,
  broadcast or link-local address, and there are at most as many as probes.
\<close>

theorem local_hints_dial_back:
  "map hint_parse (local_addr_hints u port) = map (\<lambda>ip. HintDirect (V4 ip port)) (local_ipv4_addresses u) \<and>
   distinct (local_ipv4_addresses u) \<and> list_all is_advertisable (local_ipv4_addresses u) \<and>
   length (local_ipv4_addresses u) \<le> length PROBE_TARGETS"
  using foldl_add_found [of "[]" u PROBE_TARGETS]
  by (simp add: local_addr_hints_def hint_parse_def parse_ipv4_text local_ipv4_addresses_def
      del: socket_addr_text.simps)

lemma dial_all_find:
  "dial_all attempt as failed =
     (case find (\<lambda>a. is_ok (attempt a)) as of
        Some a \<Rightarrow> attempt a
      | None \<Rightarrow> Err (if as = [] then case failed of None \<Rightarrow> NoReachableAddress | Some e \<Rightarrow> e
                     else projl (attempt (last as))))"
  by (induction as arbitrary: failed) (auto simp: is_ok_iff split: sum.split option.split)

abbreviation direct_hints :: "addr_hint list \<Rightarrow> socket_addr list" where
  "direct_hints hints \<equiv> List.map_filter hint_socket_addr hints"

text \<open>
  Dialling on the local network uses the first direct hint that leads to an authenticated
  connection, and no later one; if none does, the error is that of the last attempt, or that no
  address was reachable when there was no direct hint at all.  A connection it returns is with the
  key that was to be dialled.
\<close>

theorem connect_lan_exact:
  "connect_lan hash sn max_permits c net peer hints =
     (case find (\<lambda>a. is_ok (dial hash sn max_permits c (net a) a peer)) (direct_hints hints) of
        Some a \<Rightarrow> dial hash sn max_permits c (net a) a peer
      | None \<Rightarrow>
          Err (if direct_hints hints = [] then NoReachableAddress
               else projl (dial hash sn max_permits c (net (last (direct_hints hints)))
                             (last (direct_hints hints)) peer))) \<and>
    (case connect_lan hash sn max_permits c net peer hints of
       Inl e \<Rightarrow> True
     | Inr conn \<Rightarrow> tc_peer conn = noise_key peer)"
proof
  show found: "connect_lan hash sn max_permits c net peer hints =
     (case find (\<lambda>a. is_ok (dial hash sn max_permits c (net a) a peer)) (direct_hints hints) of
        Some a \<Rightarrow> dial hash sn max_permits c (net a) a peer
      | None \<Rightarrow>
          Err (if direct_hints hints = [] then NoReachableAddress
               else projl (dial hash sn max_permits c (net (last (direct_hints hints)))
                             (last (direct_hints hints)) peer)))"
    by (simp add: connect_lan_def dial_all_find)
  have "tc_peer conn = noise_key peer" if "connect_lan hash sn max_permits c net peer hints = Ok conn" for conn
  proof -
    from that found obtain a where "dial hash sn max_permits c (net a) a peer = Ok conn"
      by (auto split: option.splits)
    then show ?thesis by (simp add: dial_peer)
  qed
  then show "case connect_lan hash sn max_permits c net peer hints of Inl e \<Rightarrow> True | Inr conn \<Rightarrow> tc_peer conn = noise_key peer"
    by (simp split: sum.split)
qed

text \<open>A hint that was parsed never names a node, so a ticket's own node id is the only one.\<close>

lemma parsed_hint_no_node [simp]: "hint_node_id (hint_parse h) = None"
  by (simp add: hint_parse_def split: option.split)

lemma ticket_names_its_node:
  "List.map_filter hint_node_id (hints_from_ticket t) = [tk_node_id t]"
proof -
  have "List.map_filter hint_node_id (map hint_parse hs) = []" for hs
    by (induction hs) (simp_all add: List.map_filter_simps)
  then show ?thesis
    by (simp add: hints_from_ticket_def List.map_filter_def split: option.split)
qed

end
