(* ===== verification/Control.thy ===== *)
theory Control
  imports Errors
begin

text \<open>
  \<open>gonomad-proto/src/control.rs\<close>, \<open>events.rs\<close> and the constants of \<open>lib.rs\<close>: the messages of the
  control stream, the events the daemon pushes, and the version window.  How serde lays them out
  is not modelled; what the code computes from them is.
\<close>

section \<open>Versions\<close>

definition PROTOCOL_VERSION :: nat where "PROTOCOL_VERSION = 1"
definition MIN_PROTOCOL_VERSION :: nat where "MIN_PROTOCOL_VERSION = 1"
definition ALPN :: bytes where "ALPN = as_bytes ''gonomad/1''"

definition is_version_compatible :: "nat \<Rightarrow> bool" where
  "is_version_compatible peer \<longleftrightarrow> peer \<ge> MIN_PROTOCOL_VERSION \<and> peer \<le> PROTOCOL_VERSION"

section \<open>Control messages\<close>

type_synonym correlation_id = nat
type_synonym session_id = nat

record hello =
  he_proto_version :: nat
  he_min_supported :: nat
  he_client_version :: string
  he_device_key :: public_key
  he_requested :: capability_set
  he_dicts :: "nat list"
  he_features :: "string list"
  he_resume :: "session_id option"

record hello_ok =
  ho_proto_version :: nat
  ho_server_version :: string
  ho_granted :: capability_set
  ho_roots :: "string list"
  ho_dict :: "nat option"
  ho_features :: "string list"
  ho_session :: session_id

datatype reject_reason =
    VersionTooOld nat
  | VersionTooNew nat
  | Unpaired
  | Revoked
  | RejectRateLimited nat

record hello_reject =
  hr_reason :: reject_reason
  hr_server_version :: string

record request =
  rq_id :: correlation_id
  rq_method :: string
  rq_params :: bytes
  rq_idempotency :: "digest option"
  rq_presence :: "bytes option"

datatype response_body =
    BodyOk bytes
  | BodyProgress "nat option" "nat option" "string option"
  | BodyError proto_error

fun body_is_terminal :: "response_body \<Rightarrow> bool" where
  "body_is_terminal (BodyOk _) = True"
| "body_is_terminal (BodyError _) = True"
| "body_is_terminal (BodyProgress _ _ _) = False"

record response =
  rs_id :: correlation_id
  rs_body :: response_body

type_synonym heartbeat = nat

datatype control_message =
    Hello hello
  | HelloOk hello_ok
  | HelloReject hello_reject
  | Request request
  | Response response
  | Cancel correlation_id
  | Ping heartbeat
  | Pong heartbeat

fun message_correlation_id :: "control_message \<Rightarrow> correlation_id option" where
  "message_correlation_id (Request r) = Some (rq_id r)"
| "message_correlation_id (Response r) = Some (rs_id r)"
| "message_correlation_id (Cancel i) = Some i"
| "message_correlation_id _ = None"

fun allowed_before_handshake :: "control_message \<Rightarrow> bool" where
  "allowed_before_handshake (Hello _) = True"
| "allowed_before_handshake (HelloOk _) = True"
| "allowed_before_handshake (HelloReject _) = True"
| "allowed_before_handshake _ = False"

section \<open>Events\<close>

datatype file_change_kind = Created | Modified | Deleted | Renamed

record file_change =
  ch_path :: string
  ch_kind :: file_change_kind
  ch_from :: "string option"
  ch_is_dir :: "bool option"
  ch_hash :: "digest option"

datatype agent_state =
    AgentStarting | AgentIdle | AgentThinking | AwaitingApproval | AwaitingInput | AgentError | AgentExited

definition blocks_on_user :: "agent_state \<Rightarrow> bool" where
  "blocks_on_user s \<longleftrightarrow> s = AwaitingApproval \<or> s = AwaitingInput"

definition agent_is_terminal :: "agent_state \<Rightarrow> bool" where
  "agent_is_terminal s \<longleftrightarrow> s = AgentExited"

datatype destructiveness = ReadOnly | Routine | Elevated | Destructive

definition destructive_requires_presence :: "destructiveness \<Rightarrow> bool" where
  "destructive_requires_presence d \<longleftrightarrow> d = Elevated \<or> d = Destructive"

record approval_request =
  ap_id :: nat
  ap_summary :: string
  ap_detail :: string
  ap_destructiveness :: destructiveness
  ap_digest :: digest

datatype task_outcome = Succeeded | TaskFailed string | TaskCancelled

datatype event_payload =
    FsChanged string "file_change list"
  | PtyExited nat "int option"
  | GitStateChanged string
  | AgentStateChanged nat agent_state
  | AgentApprovalRequired nat approval_request
  | TaskFinished nat string task_outcome
  | PolicyChanged capability_set
  | DevicePresence device_id bool

fun event_code :: "event_payload \<Rightarrow> string" where
  "event_code (FsChanged _ _) = ''fs.changed''"
| "event_code (PtyExited _ _) = ''pty.exited''"
| "event_code (GitStateChanged _) = ''git.state_changed''"
| "event_code (AgentStateChanged _ _) = ''agent.state_changed''"
| "event_code (AgentApprovalRequired _ _) = ''agent.approval_required''"
| "event_code (TaskFinished _ _ _) = ''task.finished''"
| "event_code (PolicyChanged _) = ''policy.changed''"
| "event_code (DevicePresence _ _) = ''device.presence''"

fun warrants_notification :: "event_payload \<Rightarrow> bool" where
  "warrants_notification (AgentApprovalRequired _ _) = True"
| "warrants_notification (PolicyChanged _) = True"
| "warrants_notification (DevicePresence _ _) = True"
| "warrants_notification (TaskFinished _ _ outcome) = (outcome \<noteq> TaskCancelled)"
| "warrants_notification _ = False"

record event =
  ev_seq :: "64 word"
  ev_payload :: event_payload

definition event_new :: "64 word \<Rightarrow> event_payload \<Rightarrow> event" where
  "event_new seq payload = \<lparr>ev_seq = seq, ev_payload = payload\<rparr>"

text \<open>The addition is on \<open>u64\<close>.\<close>

definition follows :: "event \<Rightarrow> 64 word \<Rightarrow> bool" where
  "follows e previous \<longleftrightarrow> ev_seq e = previous + 1"

section \<open>Gap detection\<close>

text \<open>A client that checks every event it receives against the last one it accepted.\<close>

fun all_follow :: "64 word \<Rightarrow> event list \<Rightarrow> bool" where
  "all_follow previous [] = True"
| "all_follow previous (e # es) \<longleftrightarrow> follows e previous \<and> all_follow (ev_seq e) es"

lemma all_follow_front: "all_follow k (xs @ ys) \<Longrightarrow> all_follow k xs"
  by (induction xs arbitrary: k) auto

lemma all_follow_nth: "all_follow k es \<Longrightarrow> i < length es \<Longrightarrow> ev_seq (es ! i) = k + word_of_nat (Suc i)"
proof (induction es arbitrary: k i)
  case (Cons e es)
  then show ?case
    by (cases i) (auto simp: follows_def algebra_simps)
qed simp

lemma all_follow_distinct:
  assumes "all_follow k sent" "length sent \<le> 2 ^ 64" "i < length sent" "j < length sent"
    and "ev_seq (sent ! i) = ev_seq (sent ! j)"
  shows "i = j"
proof -
  have "(word_of_nat i :: 64 word) = word_of_nat j"
    using assms by (simp add: all_follow_nth)
  then have "i mod 2 ^ 64 = j mod 2 ^ 64"
    by (simp add: word_of_nat_eq_iff take_bit_eq_mod)
  with assms(2-4) show "i = j" by simp
qed

text \<open>
  A client notices every missed event.  Of a stream the daemon numbered without gaps, a client
  that checks what it receives accepts a part of it, received in order, exactly when that part is a
  beginning of the stream, so that nothing was left out, provided it is shorter than the range of
  the counter.
\<close>

theorem missed_event_detected:
  assumes "all_follow k sent" "subseq received sent" "length sent \<le> 2 ^ 64"
  shows "all_follow k received \<longleftrightarrow> prefix received sent"
proof
  assume "prefix received sent"
  with assms(1) show "all_follow k received"
    by (auto simp: prefix_def dest: all_follow_front)
next
  assume ok: "all_follow k received"
  have len: "length received \<le> length sent"
    using assms(2) by (rule list_emb_length)
  have "received ! i = sent ! i" if i: "i < length received" for i
  proof -
    have "received ! i \<in> set sent"
      using list_emb_set [OF assms(2) nth_mem [OF i]] by auto
    then obtain j where j: "j < length sent" "received ! i = sent ! j"
      by (auto simp: in_set_conv_nth)
    have "ev_seq (sent ! j) = ev_seq (sent ! i)"
      using all_follow_nth [OF ok i] all_follow_nth [OF assms(1), of i] i len j by simp
    with all_follow_distinct [OF assms(1,3), of j i] i len j show ?thesis by simp
  qed
  then have "received = take (length received) sent"
    using len by (intro nth_equalityI) auto
  then show "prefix received sent" by (metis take_is_prefix)
qed

theorem missed_event_detected_witness:
  "let sent = [event_new 6 (GitStateChanged ''r''), event_new 7 (PtyExited 1 None)]
   in \<not> all_follow 5 [sent ! 1] \<and> all_follow 5 [sent ! 0]"
proof -
  let ?sent = "[event_new 6 (GitStateChanged ''r''), event_new 7 (PtyExited 1 None)]"
  have ok: "all_follow 5 ?sent" by (simp add: event_new_def follows_def)
  have sub: "subseq [?sent ! 1] ?sent" "subseq [?sent ! 0] ?sent" by simp_all
  have "length ?sent \<le> 2 ^ 64" by simp
  from missed_event_detected [OF ok sub(1) this] missed_event_detected [OF ok sub(2) this]
  show ?thesis by (simp add: event_new_def)
qed

end
