(* ===== verification/Iroh.thy ===== *)
theory Iroh
  imports Endpoints Control
begin

text \<open>
  \<open>gonomad-transport/src/iroh.rs\<close>: the endpoint over iroh.  The crate is a parameter: its relay
  URLs, node ids and endpoint addresses, and, as arguments, what its endpoint and its connections
  do.  A stream is the sealed stream of \<open>Streams\<close>, both halves in one.
\<close>

section \<open>The crate\<close>

record ('r, 'a) iroh_crate =
  ic_parse_relay :: "string \<Rightarrow> 'r option"
  ic_relay_text :: "'r \<Rightarrow> string"
  ic_valid_id :: "bytes \<Rightarrow> bool"
  ic_addr_new :: "bytes \<Rightarrow> 'a"
  ic_with_ip :: "'a \<Rightarrow> socket_addr \<Rightarrow> 'a"
  ic_with_relay :: "'a \<Rightarrow> 'r \<Rightarrow> 'a"

section \<open>Configuration\<close>

definition IROH_HANDSHAKE_TIMEOUT :: nat where "IROH_HANDSHAKE_TIMEOUT = 10 * 1000"
definition IROH_CONNECT_TIMEOUT :: nat where "IROH_CONNECT_TIMEOUT = 20 * 1000"
definition MAX_CONCURRENT_STREAMS :: nat where "MAX_CONCURRENT_STREAMS = 64"
definition IROH_ACCEPT_QUEUE :: nat where "IROH_ACCEPT_QUEUE = 16"
definition STREAM_QUEUE :: nat where "STREAM_QUEUE = 16"

datatype relay_policy = PublicRelays | SelfHosted "string list" | NoRelay
datatype 'r relay_mode = ModeDefault | ModeDisabled | ModeCustom "'r list"

fun parse_all :: "(string \<Rightarrow> 'r option) \<Rightarrow> string list \<Rightarrow> 'r list option" where
  "parse_all parse [] = Some []"
| "parse_all parse (u # us) =
     (case parse u of
        None \<Rightarrow> None
      | Some r \<Rightarrow> map_option ((#) r) (parse_all parse us))"

definition to_relay_mode ::
  "('r, 'a) iroh_crate \<Rightarrow> relay_policy \<Rightarrow> (transport_error, 'r relay_mode) result" where
  "to_relay_mode ic p =
     (case p of
        PublicRelays \<Rightarrow> Ok ModeDefault
      | NoRelay \<Rightarrow> Ok ModeDisabled
      | SelfHosted urls \<Rightarrow>
          if urls = [] then Err (Config ''RelayPolicy::SelfHosted needs at least one relay URL'')
          else
            case parse_all (ic_parse_relay ic) urls of
              None \<Rightarrow> Err (Config ''relay URL could not be parsed'')
            | Some rs \<Rightarrow> Ok (ModeCustom rs))"

record iroh_config =
  ir_identity :: device_identity
  ir_purpose :: purpose
  ir_psk :: "bytes option"
  ir_policy :: peer_policy
  ir_accept_inbound :: bool
  ir_relay :: relay_policy
  ir_address_lookup :: bool
  ir_bind_addrs :: "socket_addr list"
  ir_max_frame_len :: nat
  ir_max_streams :: nat
  ir_handshake_timeout :: nat
  ir_connect_timeout :: nat
  ir_accept_queue :: nat

definition iroh_reconnect :: "device_identity \<Rightarrow> peer_policy \<Rightarrow> iroh_config" where
  "iroh_reconnect i policy =
     \<lparr>ir_identity = i, ir_purpose = Reconnect, ir_psk = None, ir_policy = policy,
      ir_accept_inbound = True, ir_relay = PublicRelays, ir_address_lookup = True, ir_bind_addrs = [],
      ir_max_frame_len = MAX_PAYLOAD_LEN, ir_max_streams = MAX_CONCURRENT_STREAMS,
      ir_handshake_timeout = IROH_HANDSHAKE_TIMEOUT, ir_connect_timeout = IROH_CONNECT_TIMEOUT,
      ir_accept_queue = IROH_ACCEPT_QUEUE\<rparr>"

definition iroh_pairing :: "device_identity \<Rightarrow> pairing_secret \<Rightarrow> iroh_config" where
  "iroh_pairing i secret =
     (iroh_reconnect i allow_any)\<lparr>ir_purpose := ForPairing, ir_psk := Some secret, ir_policy := allow_any\<rparr>"

definition iroh_dialer :: "device_identity \<Rightarrow> iroh_config" where
  "iroh_dialer i = (iroh_reconnect i allow_any)\<lparr>ir_accept_inbound := False\<rparr>"

definition iroh_pairing_dialer :: "device_identity \<Rightarrow> pairing_secret \<Rightarrow> iroh_config" where
  "iroh_pairing_dialer i secret = (iroh_pairing i secret)\<lparr>ir_accept_inbound := False\<rparr>"

definition iroh_validate :: "('r, 'a) iroh_crate \<Rightarrow> iroh_config \<Rightarrow> (transport_error, unit) result" where
  "iroh_validate ic c =
     rbind (psk_agrees (ir_purpose c) (ir_psk c)) (\<lambda>_.
     if ir_max_frame_len c = 0 then Err (Config ''max_frame_len must be at least 1'')
     else if ir_max_frame_len c > MAX_PAYLOAD_LEN
     then Err (Config ''max_frame_len exceeds the protocol's maximum payload'')
     else if ir_max_streams c = 0 then Err (Config ''max_concurrent_streams must be at least 1'')
     else rbind (to_relay_mode ic (ir_relay c)) (\<lambda>_. Ok ()))"

section \<open>Endpoint addresses\<close>

definition add_hint :: "('r, 'a) iroh_crate \<Rightarrow> 'a \<Rightarrow> addr_hint \<Rightarrow> 'a" where
  "add_hint ic addr hint =
     (case hint of
        HintDirect socket \<Rightarrow> ic_with_ip ic addr socket
      | HintRelay url \<Rightarrow>
          (case ic_parse_relay ic url of
             Some relay \<Rightarrow> ic_with_relay ic addr relay
           | None \<Rightarrow> addr)
      | HintNode _ \<Rightarrow> addr)"

definition node_addr_from_hints ::
  "('r, 'a) iroh_crate \<Rightarrow> addr_hint list \<Rightarrow> (transport_error, 'a) result" where
  "node_addr_from_hints ic hints =
     (case List.map_filter hint_node_id hints of
        [] \<Rightarrow> Err NoNodeId
      | node # _ \<Rightarrow>
          if \<not> ic_valid_id ic (key_bytes node) then Err NoNodeId
          else Ok (foldl (add_hint ic) (ic_addr_new ic (key_bytes node)) hints))"

text \<open>The addresses and relays that the endpoint reports of itself.\<close>

definition iroh_addr_hints ::
  "('r, 'a) iroh_crate \<Rightarrow> public_key \<Rightarrow> socket_addr list \<Rightarrow> 'r list \<Rightarrow> addr_hint list" where
  "iroh_addr_hints ic node ips relays =
     HintNode node # map HintDirect ips @ map (\<lambda>r. HintRelay (ic_relay_text ic r)) relays"

section \<open>Paths\<close>

record iroh_path =
  ip_selected :: bool
  ip_is_ip :: bool
  ip_rtt_ms :: nat

definition tier_for :: "bool \<Rightarrow> tier \<times> bool" where
  "tier_for is_ip = (if is_ip then (TierDirect, False) else (TierRelay, True))"

definition no_path :: path_info where
  "no_path = \<lparr>pi_tier = TierRelay, pi_rtt_ms = None, pi_relayed = True\<rparr>"

definition path_info_of :: "iroh_path list \<Rightarrow> path_info" where
  "path_info_of paths =
     (case (case find ip_selected paths of
              Some p \<Rightarrow> Some p
            | None \<Rightarrow> (case paths of [] \<Rightarrow> None | p # _ \<Rightarrow> Some p)) of
        None \<Rightarrow> no_path
      | Some p \<Rightarrow>
          let (t, relayed) = tier_for (ip_is_ip p)
          in \<lparr>pi_tier = t,
              pi_rtt_ms = (if ip_rtt_ms p \<le> u32_max then Some (ip_rtt_ms p) else None),
              pi_relayed = relayed\<rparr>)"

section \<open>Connections\<close>

text \<open>
  A bidirectional QUIC stream as this side sees it: its id, the bytes of the handshake on it, the
  time between the two flights, and whether the handshake is done before its deadline.
\<close>

record quic_open =
  qo_id :: "64 word"
  qo_io :: handshake_io
  qo_elapsed :: nat
  qo_in_time :: bool

record 't iroh_connection =
  co_config :: iroh_config
  co_peer :: public_key
  co_node_id :: public_key
  co_sas :: sas
  co_binding :: bytes
  co_dialled :: bool
  co_control :: "'t quic_stream option"
  co_incoming :: "'t quic_stream list"
  co_path :: path_info
  co_closed :: bool

definition split_stream :: "64 word \<Rightarrow> 't session \<Rightarrow> nat \<Rightarrow> 't quic_stream" where
  "split_stream i s max_len = quic_stream_new i s max_len"

text \<open>
  \<open>IrohConnection::establish\<close>.  The stream is the one that was opened or accepted, if that
  succeeded; \<open>expected\<close> is the peer that was dialled.
\<close>

definition iroh_establish ::
  "hash_fn \<Rightarrow> ('h, 't) snow \<Rightarrow> iroh_config \<Rightarrow> public_key \<Rightarrow> iroh_path list \<Rightarrow> quic_open option \<Rightarrow>
     peer_id option \<Rightarrow> (transport_error, 't iroh_connection) result" where
  "iroh_establish hash sn c node paths stream expected =
     rbind (ok_or stream ConnectionLost) (\<lambda>q.
     rbind
       (case expected of
          Some peer \<Rightarrow>
            snd (initiate sn (qo_io q) (ir_identity c) (noise_key peer) (ir_purpose c) (ir_psk c) (qo_elapsed q))
        | None \<Rightarrow>
            snd (respond sn (qo_io q) (ir_identity c) (ir_purpose c) (ir_psk c) (ir_policy c))) (\<lambda>au.
     rbind (map_err from_session (hs_sas hash sn (au_handshake au))) (\<lambda>digits.
     rbind (map_err from_session (into_session sn (au_handshake au))) (\<lambda>s.
     Ok \<lparr>co_config = c, co_peer = au_peer au, co_node_id = node, co_sas = digits,
         co_binding = channel_binding s, co_dialled = (expected \<noteq> None),
         co_control = Some (split_stream (qo_id q) s (ir_max_frame_len c)), co_incoming = [],
         co_path = with_measured_rtt (au_rtt au) (path_info_of paths), co_closed = False\<rparr>))))"

text \<open>
  Dialling: the QUIC connection fails, does not come up in time, or comes up with this node id,
  these paths and this first stream.
\<close>

datatype iroh_dial =
    QuicFailed
  | QuicTimedOut
  | QuicUp public_key "iroh_path list" "quic_open option"

definition connect_iroh ::
  "hash_fn \<Rightarrow> ('h, 't) snow \<Rightarrow> ('r, 'a) iroh_crate \<Rightarrow> iroh_config \<Rightarrow> ('a \<Rightarrow> iroh_dial) \<Rightarrow> peer_id \<Rightarrow>
     addr_hint list \<Rightarrow> (transport_error, 't iroh_connection) result" where
  "connect_iroh hash sn ic c net peer hints =
     rbind (node_addr_from_hints ic hints) (\<lambda>addr.
     case net addr of
       QuicFailed \<Rightarrow> Err NoReachableAddress
     | QuicTimedOut \<Rightarrow> Err Timeout
     | QuicUp node paths stream \<Rightarrow>
         (case stream of
            Some q \<Rightarrow> if qo_in_time q then iroh_establish hash sn c node paths stream (Some peer) else Err Timeout
          | None \<Rightarrow> iroh_establish hash sn c node paths None (Some peer)))"

text \<open>The control stream goes to the first \<open>open\<close> of the dialling side, or \<open>accept\<close> of the other.\<close>

definition take_control :: "bool \<Rightarrow> 't iroh_connection \<Rightarrow> 't iroh_connection \<times> 't quic_stream option" where
  "take_control dialling_side conn =
     (if co_dialled conn \<noteq> dialling_side then (conn, None)
      else (conn\<lparr>co_control := None\<rparr>, co_control conn))"

definition open_stream ::
  "('h, 't) snow \<Rightarrow> quic_open option \<Rightarrow> 't iroh_connection \<Rightarrow>
     't iroh_connection \<times> (transport_error, 't quic_stream) result" where
  "open_stream sn stream conn =
     (case take_control True conn of
        (conn', Some control) \<Rightarrow> (conn', Ok control)
      | (conn', None) \<Rightarrow>
          (conn',
           rbind (ok_or stream ConnectionLost) (\<lambda>q.
           let c = co_config conn in
           if \<not> qo_in_time q then Err Timeout
           else
             rbind (snd (initiate sn (qo_io q) (ir_identity c) (co_peer conn) (ir_purpose c) (ir_psk c)
                          (qo_elapsed q))) (\<lambda>au.
             rbind (map_err from_session (into_session sn (au_handshake au))) (\<lambda>s.
             Ok (split_stream (qo_id q) s (ir_max_frame_len c)))))))"

text \<open>\<open>accept_stream\<close> waits while nothing has come in and the task below is still running.\<close>

definition accept_stream ::
  "'t iroh_connection \<Rightarrow> 't iroh_connection \<times> (transport_error, 't quic_stream) result option" where
  "accept_stream conn =
     (case take_control False conn of
        (conn', Some control) \<Rightarrow> (conn', Some (Ok control))
      | (conn', None) \<Rightarrow>
          (case co_incoming conn' of
             st # rest \<Rightarrow> (conn'\<lparr>co_incoming := rest\<rparr>, Some (Ok st))
           | [] \<Rightarrow> (conn', if co_closed conn' then Some (Err Closed) else None)))"

text \<open>
  One stream that the peer opens, in \<open>accept_streams\<close>: its handshake is run against the key of the
  connection, and what fails is dropped.
\<close>

definition stream_handshake ::
  "('h, 't) snow \<Rightarrow> quic_open \<Rightarrow> 't iroh_connection \<Rightarrow> 't quic_stream option" where
  "stream_handshake sn q conn =
     (let c = co_config conn in
      if \<not> qo_in_time q then None
      else
        case snd (respond sn (qo_io q) (ir_identity c) (ir_purpose c) (ir_psk c)
                    (allowlist_authorize [co_peer conn])) of
          Inl _ \<Rightarrow> None
        | Inr au \<Rightarrow>
            (case into_session sn (au_handshake au) of
               Inl _ \<Rightarrow> None
             | Inr s \<Rightarrow> Some (split_stream (qo_id q) s (ir_max_frame_len c))))"

definition stream_arrives :: "('h, 't) snow \<Rightarrow> quic_open \<Rightarrow> 't iroh_connection \<Rightarrow> 't iroh_connection" where
  "stream_arrives sn q conn =
     (if co_closed conn then conn
      else
        case stream_handshake sn q conn of
          None \<Rightarrow> conn
        | Some st \<Rightarrow> conn\<lparr>co_incoming := co_incoming conn @ [st]\<rparr>)"

text \<open>One event of \<open>watch_paths\<close>: the new state, and what subscribers are told.\<close>

definition path_event :: "iroh_path list \<Rightarrow> 't iroh_connection \<Rightarrow> 't iroh_connection \<times> path_info option" where
  "path_event paths conn =
     (let new = path_info_of paths in
      if co_path conn = new then (conn, None) else (conn\<lparr>co_path := new\<rparr>, Some new))"

definition iroh_close :: "'t iroh_connection \<Rightarrow> 't iroh_connection" where
  "iroh_close conn = conn\<lparr>co_closed := True\<rparr>"

section \<open>The endpoint\<close>

record 't iroh_transport =
  it_config :: iroh_config
  it_incoming :: "'t iroh_connection list"
  it_stopped :: bool

text \<open>A task that waits for room in the queue is counted as in it.\<close>

text \<open>
  Bringing the endpoint up: which addresses the builder takes, and whether it binds.  Without
  inbound connections no acceptor runs.
\<close>

definition iroh_bind ::
  "('r, 'a) iroh_crate \<Rightarrow> (socket_addr \<Rightarrow> bool) \<Rightarrow> bool \<Rightarrow> iroh_config \<Rightarrow>
     (transport_error, 't iroh_transport) result" where
  "iroh_bind ic usable comes_up c =
     rbind (iroh_validate ic c) (\<lambda>_.
     if \<not> list_all usable (ir_bind_addrs c) then Err (Config ''bind address is not usable'')
     else if \<not> comes_up
     then Err (Bind (case ir_bind_addrs c of [] \<Rightarrow> V4 (0, 0, 0, 0) 0 | a # _ \<Rightarrow> a) ''AddrNotAvailable'')
     else Ok \<lparr>it_config = c, it_incoming = [], it_stopped = \<not> ir_accept_inbound c\<rparr>)"

definition accept_iroh ::
  "'t iroh_transport \<Rightarrow> 't iroh_transport \<times> (transport_error, 't iroh_connection) result option" where
  "accept_iroh t =
     (if \<not> ir_accept_inbound (it_config t) then (t, Some (Err NotListening))
      else
        case it_incoming t of
          conn # rest \<Rightarrow> (t\<lparr>it_incoming := rest\<rparr>, Some (Ok conn))
        | [] \<Rightarrow> (t, if it_stopped t then Some (Err Closed) else None))"

text \<open>
  One inbound connection in \<open>accept_loop\<close>: the QUIC handshake may fail; then the protocol it
  negotiated, its node id, paths and first stream.  A connection without that stream waits for it
  until the deadline.
\<close>

record quic_inbound =
  qi_accepts :: bool
  qi_comes_up :: bool
  qi_alpn :: bytes
  qi_node :: public_key
  qi_paths :: "iroh_path list"
  qi_stream :: "quic_open option"

definition inbound_connection ::
  "hash_fn \<Rightarrow> ('h, 't) snow \<Rightarrow> iroh_config \<Rightarrow> quic_inbound \<Rightarrow> 't iroh_connection option" where
  "inbound_connection hash sn c q =
     (if \<not> qi_accepts q \<or> \<not> qi_comes_up q then None
      else if qi_alpn q \<noteq> ALPN then None
      else if (case qi_stream q of None \<Rightarrow> False | Some s \<Rightarrow> \<not> qo_in_time s) then None
      else
        case iroh_establish hash sn c (qi_node q) (qi_paths q) (qi_stream q) None of
          Inl _ \<Rightarrow> None
        | Inr conn \<Rightarrow> Some conn)"

definition connection_arrives ::
  "hash_fn \<Rightarrow> ('h, 't) snow \<Rightarrow> quic_inbound \<Rightarrow> 't iroh_transport \<Rightarrow> 't iroh_transport" where
  "connection_arrives hash sn q t =
     (if it_stopped t then t
      else
        case inbound_connection hash sn (it_config t) q of
          None \<Rightarrow> t
        | Some conn \<Rightarrow> t\<lparr>it_incoming := it_incoming t @ [conn]\<rparr>)"

section \<open>Properties\<close>

text \<open>
  C22: Every stream of a connection is with the peer that authenticated the connection.  A connection
  that was dialled has the key that was dialled, one that was accepted a key the policy lets in; a
  stream that comes in later was opened by the holder of the connection's key, whatever else the
  policy would let in, and a stream opened later was answered by it.
\<close>

theorem streams_belong_to_peer:
  "(case iroh_establish hash sn c node paths stream expected of
      Inl e \<Rightarrow> True
    | Inr conn \<Rightarrow>
        (case expected of Some peer \<Rightarrow> co_peer conn = noise_key peer | None \<Rightarrow> ir_policy c (co_peer conn))) \<and>
   (case stream_handshake sn q conn of
      None \<Rightarrow> True
    | Some st \<Rightarrow>
        \<exists>au. snd (respond sn (qo_io q) (ir_identity (co_config conn)) (ir_purpose (co_config conn))
                   (ir_psk (co_config conn)) (allowlist_authorize [co_peer conn])) = Ok au \<and>
          au_peer au = co_peer conn) \<and>
   (case (take_control True conn, snd (open_stream sn (Some q) conn)) of
      ((conn', None), Inr st) \<Rightarrow>
        \<exists>au. snd (initiate sn (qo_io q) (ir_identity (co_config conn)) (co_peer conn)
                   (ir_purpose (co_config conn)) (ir_psk (co_config conn)) (qo_elapsed q)) = Ok au \<and>
          au_peer au = co_peer conn
    | _ \<Rightarrow> True)"
proof (intro conjI)
  show "case iroh_establish hash sn c node paths stream expected of
      Inl e \<Rightarrow> True
    | Inr conn \<Rightarrow>
        (case expected of Some peer \<Rightarrow> co_peer conn = noise_key peer | None \<Rightarrow> ir_policy c (co_peer conn))"
    by (auto simp: iroh_establish_def split: sum.split option.splits dest: initiate_peer respond_authorized)
  have "au_peer au = co_peer conn"
    if "snd (respond sn (qo_io q) i p psk (allowlist_authorize [co_peer conn])) = Ok au" for i p psk au
    using respond_authorized [OF that] by (auto simp: allowlist_authorize_def split: if_splits)
  then show "case stream_handshake sn q conn of
      None \<Rightarrow> True
    | Some st \<Rightarrow>
        \<exists>au. snd (respond sn (qo_io q) (ir_identity (co_config conn)) (ir_purpose (co_config conn))
                   (ir_psk (co_config conn)) (allowlist_authorize [co_peer conn])) = Ok au \<and>
          au_peer au = co_peer conn"
    by (auto simp: stream_handshake_def Let_def split: option.split sum.splits if_splits)
  show "case (take_control True conn, snd (open_stream sn (Some q) conn)) of
      ((conn', None), Inr st) \<Rightarrow>
        \<exists>au. snd (initiate sn (qo_io q) (ir_identity (co_config conn)) (co_peer conn)
                   (ir_purpose (co_config conn)) (ir_psk (co_config conn)) (qo_elapsed q)) = Ok au \<and>
          au_peer au = co_peer conn
    | _ \<Rightarrow> True"
    by (auto simp: open_stream_def Let_def split: prod.split option.split sum.splits if_splits
        dest: initiate_peer)
qed

text \<open>
  A ticket is dialled at its own node id, whatever its other hints say: none of them can name
  another node, and those that cannot be parsed are left out.  The only failure is that the id is not
  one of the crate's.
\<close>

theorem ticket_dials_its_node:
  "node_addr_from_hints ic (hints_from_ticket t) =
     (if ic_valid_id ic (key_bytes (tk_node_id t))
      then Ok (foldl (add_hint ic) (ic_addr_new ic (key_bytes (tk_node_id t)))
                 (map hint_parse (tk_addr_hints t) @
                  (case tk_relay_hint t of None \<Rightarrow> [] | Some r \<Rightarrow> [HintRelay r])))
      else Err NoNodeId)"
  by (simp add: node_addr_from_hints_def ticket_names_its_node)
    (simp add: hints_from_ticket_def add_hint_def)

text \<open>
  The path shown to the user is never better than the path in use.  It is direct only if the
  selected path, or the first one where none is selected, goes to an IP address, and relayed in every
  other case; a round trip is shown only if one was measured and fits.
\<close>

theorem path_never_overclaims:
  "(pi_relayed (path_info_of paths) \<longleftrightarrow> pi_tier (path_info_of paths) = TierRelay) \<and>
   (pi_tier (path_info_of paths) = TierDirect \<longleftrightarrow>
      (\<exists>p. (if \<exists>s \<in> set paths. ip_selected s then find ip_selected paths = Some p
            else paths \<noteq> [] \<and> p = hd paths) \<and> ip_is_ip p)) \<and>
   (pi_tier (path_info_of paths) \<noteq> TierLan)"
proof (cases "find ip_selected paths")
  case None
  then have "\<not> (\<exists>s \<in> set paths. ip_selected s)" by (auto simp: find_None_iff)
  with None show ?thesis
    by (cases paths) (auto simp: path_info_of_def no_path_def tier_for_def)
next
  case (Some p)
  then have "\<exists>s \<in> set paths. ip_selected s" by (auto simp: find_Some_iff)
  with Some show ?thesis
    by (auto simp: path_info_of_def tier_for_def)
qed

text \<open>The four ways to build a configuration agree with the checks.\<close>

lemma iroh_configs_valid:
  "iroh_validate ic (iroh_reconnect i policy) = Ok ()"
  "iroh_validate ic (iroh_pairing i secret) = Ok ()"
  "iroh_validate ic (iroh_dialer i) = Ok ()"
  "iroh_validate ic (iroh_pairing_dialer i secret) = Ok ()"
  by (simp_all add: iroh_validate_def iroh_reconnect_def iroh_pairing_def iroh_dialer_def
      iroh_pairing_dialer_def psk_agrees_def to_relay_mode_def MAX_PAYLOAD_LEN_def MAX_CONCURRENT_STREAMS_def)

lemma secret_iff_pairing:
  "is_ok (psk_agrees p psk) \<longleftrightarrow> (p = ForPairing \<longleftrightarrow> psk \<noteq> None)"
  by (cases p; cases psk) (simp_all add: psk_agrees_def)

end
