(* ===== verification/StateDir.thy ===== *)
theory StateDir
  imports Noise Text
begin

text \<open>
  \<open>gonomad-server/src/state.rs\<close> and \<open>gonomad-ffi/src/storage.rs\<close>: the files that hold an identity,
  on the daemon and on the phone, and the phone's record of its daemon.

  A disk is a map from paths to files with their permissions, and directories.  A record gives what
  the operating system answers: which calls fail and with which text, how far a failing write gets,
  the permissions of a new file.  Joining a path is a parameter too.
\<close>

section \<open>Disks\<close>

datatype node = File bytes nat | Dir nat

type_synonym disk = "string \<Rightarrow> node option"

text \<open>A write succeeds, fails before it touches the file, or stops after some bytes.\<close>

datatype write_outcome = Written | NotOpened string | StoppedAfter nat string

record os =
  os_unix :: bool
  os_join :: "string \<Rightarrow> string \<Rightarrow> string"
  os_mkdir :: "string \<Rightarrow> string option"
  os_read :: "string \<Rightarrow> string option"
  os_write :: "string \<Rightarrow> write_outcome"
  os_rename :: "string \<Rightarrow> string option"
  os_remove :: "string \<Rightarrow> string option"
  os_chmod :: "string \<Rightarrow> bool"
  os_new_file_mode :: nat
  os_new_dir_mode :: nat

definition is_file :: "disk \<Rightarrow> string \<Rightarrow> bool" where
  "is_file d p = (case d p of Some (File _ _) \<Rightarrow> True | _ \<Rightarrow> False)"

definition file_bytes :: "disk \<Rightarrow> string \<Rightarrow> bytes option" where
  "file_bytes d p = (case d p of Some (File bs _) \<Rightarrow> Some bs | _ \<Rightarrow> None)"

definition create_dir_all :: "os \<Rightarrow> string \<Rightarrow> disk \<Rightarrow> disk \<times> (string, unit) result" where
  "create_dir_all os p d =
     (case os_mkdir os p of
        Some e \<Rightarrow> (d, Err e)
      | None \<Rightarrow>
          (case d p of
             None \<Rightarrow> (d(p \<mapsto> Dir (os_new_dir_mode os)), Ok ())
           | Some (Dir _) \<Rightarrow> (d, Ok ())
           | Some (File _ _) \<Rightarrow> (d, Err ''File exists'')))"

definition file_mode :: "os \<Rightarrow> disk \<Rightarrow> string \<Rightarrow> nat" where
  "file_mode os d p = (case d p of Some (File _ m) \<Rightarrow> m | _ \<Rightarrow> os_new_file_mode os)"

definition write_file :: "os \<Rightarrow> string \<Rightarrow> bytes \<Rightarrow> disk \<Rightarrow> disk \<times> (string, unit) result" where
  "write_file os p bs d =
     (case d p of
        Some (Dir _) \<Rightarrow> (d, Err ''Is a directory'')
      | _ \<Rightarrow>
          (case os_write os p of
             Written \<Rightarrow> (d(p \<mapsto> File bs (file_mode os d p)), Ok ())
           | NotOpened e \<Rightarrow> (d, Err e)
           | StoppedAfter n e \<Rightarrow> (d(p \<mapsto> File (take n bs) (file_mode os d p)), Err e)))"

definition read_file :: "os \<Rightarrow> string \<Rightarrow> disk \<Rightarrow> (string, bytes) result" where
  "read_file os p d =
     (case os_read os p of
        Some e \<Rightarrow> Err e
      | None \<Rightarrow> ok_or (file_bytes d p) ''No such file or directory'')"

definition read_to_string :: "os \<Rightarrow> string \<Rightarrow> disk \<Rightarrow> (string, string) result" where
  "read_to_string os p d =
     rbind (read_file os p d) (\<lambda>bs. ok_or (from_utf8 bs) ''stream did not contain valid UTF-8'')"

definition rename_file :: "os \<Rightarrow> string \<Rightarrow> string \<Rightarrow> disk \<Rightarrow> disk \<times> (string, unit) result" where
  "rename_file os p q d =
     (case os_rename os p of
        Some e \<Rightarrow> (d, Err e)
      | None \<Rightarrow>
          (case (d p, d q) of
             (None, _) \<Rightarrow> (d, Err ''No such file or directory'')
           | (Some _, Some (Dir _)) \<Rightarrow> (d, Err ''Is a directory'')
           | (Some f, _) \<Rightarrow> (d(q \<mapsto> f, p := None), Ok ())))"

text \<open>\<open>remove_if_present\<close>: the kind "not found" is success.\<close>

definition remove_if_present :: "os \<Rightarrow> string \<Rightarrow> disk \<Rightarrow> disk \<times> (string, unit) result" where
  "remove_if_present os p d =
     (case os_remove os p of
        Some e \<Rightarrow> (d, Err e)
      | None \<Rightarrow>
          (case d p of
             None \<Rightarrow> (d, Ok ())
           | Some (File _ _) \<Rightarrow> (d(p := None), Ok ())
           | Some (Dir _) \<Rightarrow> (d, Err ''Is a directory'')))"

definition MODE_DIR :: nat where "MODE_DIR = 7 * 64"
definition MODE_FILE :: nat where "MODE_FILE = 6 * 64"

definition restrict_permissions :: "os \<Rightarrow> string \<Rightarrow> disk \<Rightarrow> disk" where
  "restrict_permissions os p d =
     (if \<not> os_unix os \<or> \<not> os_chmod os p then d
      else
        case d p of
          None \<Rightarrow> d
        | Some (Dir _) \<Rightarrow> d(p \<mapsto> Dir MODE_DIR)
        | Some (File bs _) \<Rightarrow> d(p \<mapsto> File bs MODE_FILE))"

section \<open>The daemon's identity\<close>

datatype state_error =
    StateDirectory string string
  | StateIdentity string string
  | NotInitialised

record paths =
  ps_root :: string
  ps_identity :: string
  ps_database :: string
  ps_config :: string

definition paths_under :: "os \<Rightarrow> string \<Rightarrow> paths" where
  "paths_under os root =
     \<lparr>ps_root = root, ps_identity = os_join os root ''identity.key'',
      ps_database = os_join os root ''gonomad.db'', ps_config = os_join os root ''config.toml''\<rparr>"

definition paths_discover :: "os \<Rightarrow> string option \<Rightarrow> (state_error, paths) result" where
  "paths_discover os home =
     rbind (ok_or home (StateDirectory ''<home>'' ''no home directory could be determined'')) (\<lambda>h.
     Ok (paths_under os (os_join os h ''.gonomad'')))"

definition paths_ensure :: "os \<Rightarrow> paths \<Rightarrow> disk \<Rightarrow> disk \<times> (state_error, unit) result" where
  "paths_ensure os ps d =
     (case create_dir_all os (ps_root ps) d of
        (d', Inl e) \<Rightarrow> (d', Err (StateDirectory (ps_root ps) e))
      | (d', Inr _) \<Rightarrow> (restrict_permissions os (ps_root ps) d', Ok ()))"

definition is_initialised :: "paths \<Rightarrow> disk \<Rightarrow> bool" where
  "is_initialised ps d = is_file d (ps_identity ps)"

definition write_identity ::
  "os \<Rightarrow> hex_codec \<Rightarrow> string \<Rightarrow> bytes \<Rightarrow> disk \<Rightarrow> disk \<times> (state_error, unit) result" where
  "write_identity os hx p seed d =
     (case write_file os p (as_bytes (hex_encode hx seed)) d of
        (d', Inl e) \<Rightarrow> (d', Err (StateIdentity p e))
      | (d', Inr _) \<Rightarrow> (restrict_permissions os p d', Ok ()))"

definition IDENTITY_EXISTS :: string where
  "IDENTITY_EXISTS =
     ''an identity already exists; delete it only if you intend to invalidate every paired device''"

text \<open>The random seed is an argument.\<close>

definition create_identity ::
  "os \<Rightarrow> hex_codec \<Rightarrow> curves \<Rightarrow> paths \<Rightarrow> bytes \<Rightarrow> disk \<Rightarrow> disk \<times> (state_error, device_identity) result" where
  "create_identity os hx cv ps seed d =
     (case paths_ensure os ps d of
        (d1, Inl e) \<Rightarrow> (d1, Err e)
      | (d1, Inr _) \<Rightarrow>
          if d1 (ps_identity ps) \<noteq> None then (d1, Err (StateIdentity (ps_identity ps) IDENTITY_EXISTS))
          else
            let i = identity_generate cv seed in
            case write_identity os hx (ps_identity ps) (expose_seed i) d1 of
              (d2, Inl e) \<Rightarrow> (d2, Err e)
            | (d2, Inr _) \<Rightarrow> (d2, Ok i))"

text \<open>What a file that holds a seed says, on both sides; \<open>wrong\<close> wraps the complaint.\<close>

definition parse_seed :: "hex_codec \<Rightarrow> (string \<Rightarrow> 'e) \<Rightarrow> string \<Rightarrow> ('e, bytes) result" where
  "parse_seed hx wrong t =
     rbind (ok_or (hex_decode hx (trim t)) (wrong ''not valid hex'')) (\<lambda>raw.
     if length raw = SEED_LEN then Ok raw
     else Err (wrong (''expected 32 bytes, found '' @ show_nat (length raw))))"

definition load_identity ::
  "os \<Rightarrow> hex_codec \<Rightarrow> curves \<Rightarrow> paths \<Rightarrow> disk \<Rightarrow> (state_error, device_identity) result" where
  "load_identity os hx cv ps d =
     (if \<not> is_file d (ps_identity ps) then Err NotInitialised
      else
        rbind (map_err (StateIdentity (ps_identity ps)) (read_to_string os (ps_identity ps) d)) (\<lambda>t.
        rbind (parse_seed hx (StateIdentity (ps_identity ps)) t) (\<lambda>seed.
        Ok (from_seed cv seed))))"

section \<open>The phone's state\<close>

definition IDENTITY_FILE :: string where "IDENTITY_FILE = ''identity.key''"
definition DAEMON_FILE :: string where "DAEMON_FILE = ''daemon.cbor''"

datatype storage_error =
    BadDirectory string string
  | BadIdentity string string
  | BadDaemon string string

record paired_daemon =
  pd_noise_key :: public_key
  pd_node_id :: "public_key option"
  pd_device_id :: string
  pd_registered_id :: string
  pd_name :: string
  pd_addr_hints :: "string list"
  pd_paired_at :: int
  pd_last_seen :: "int option"

text \<open>The CBOR of the record, written and read by the \<open>ciborium\<close> crate.\<close>

record daemon_cbor =
  dc_encode :: "paired_daemon \<Rightarrow> bytes option"
  dc_decode :: "bytes \<Rightarrow> paired_daemon option"

definition daemon_cbor_laws :: "daemon_cbor \<Rightarrow> bool" where
  "daemon_cbor_laws dc \<longleftrightarrow> (\<forall>pd bs. dc_encode dc pd = Some bs \<longrightarrow> dc_decode dc bs = Some pd)"

text \<open>A storage is its root directory.\<close>

type_synonym storage = string

definition identity_path :: "os \<Rightarrow> storage \<Rightarrow> string" where
  "identity_path os root = os_join os root IDENTITY_FILE"

definition daemon_path :: "os \<Rightarrow> storage \<Rightarrow> string" where
  "daemon_path os root = os_join os root DAEMON_FILE"

text \<open>\<open>with_extension\<close> on the path of the record.\<close>

definition daemon_temp_path :: "os \<Rightarrow> storage \<Rightarrow> string" where
  "daemon_temp_path os root = os_join os root ''daemon.cbor.tmp''"

definition ensure_dir :: "os \<Rightarrow> storage \<Rightarrow> disk \<Rightarrow> disk \<times> (storage_error, unit) result" where
  "ensure_dir os root d =
     (case create_dir_all os root d of
        (d', Inl e) \<Rightarrow> (d', Err (BadDirectory root e))
      | (d', Inr _) \<Rightarrow> (restrict_permissions os root d', Ok ()))"

definition storage_load_identity ::
  "os \<Rightarrow> hex_codec \<Rightarrow> curves \<Rightarrow> storage \<Rightarrow> disk \<Rightarrow> (storage_error, device_identity) result" where
  "storage_load_identity os hx cv root d =
     (let p = identity_path os root in
      rbind (map_err (BadIdentity p) (read_to_string os p d)) (\<lambda>t.
      rbind (parse_seed hx (BadIdentity p) t) (\<lambda>seed.
      Ok (from_seed cv seed))))"

definition load_or_create_identity ::
  "os \<Rightarrow> hex_codec \<Rightarrow> curves \<Rightarrow> storage \<Rightarrow> bytes \<Rightarrow> disk \<Rightarrow> disk \<times> (storage_error, device_identity) result" where
  "load_or_create_identity os hx cv root seed d =
     (case ensure_dir os root d of
        (d1, Inl e) \<Rightarrow> (d1, Err e)
      | (d1, Inr _) \<Rightarrow>
          let p = identity_path os root in
          if is_file d1 p then (d1, storage_load_identity os hx cv root d1)
          else
            let i = identity_generate cv seed in
            case write_file os p (as_bytes (hex_encode hx (expose_seed i))) d1 of
              (d2, Inl e) \<Rightarrow> (d2, Err (BadIdentity p e))
            | (d2, Inr _) \<Rightarrow> (restrict_permissions os p d2, Ok i))"

definition load_daemon ::
  "os \<Rightarrow> daemon_cbor \<Rightarrow> storage \<Rightarrow> disk \<Rightarrow> (storage_error, paired_daemon option) result" where
  "load_daemon os dc root d =
     (let p = daemon_path os root in
      if \<not> is_file d p then Ok None
      else
        rbind (map_err (BadDaemon p) (read_file os p d)) (\<lambda>bs.
        case dc_decode dc bs of
          Some pd \<Rightarrow> Ok (Some pd)
        | None \<Rightarrow> Err (BadDaemon p ''the record is not valid CBOR for this app version'')))"

definition save_daemon ::
  "os \<Rightarrow> daemon_cbor \<Rightarrow> storage \<Rightarrow> paired_daemon \<Rightarrow> disk \<Rightarrow> disk \<times> (storage_error, unit) result" where
  "save_daemon os dc root pd d =
     (case ensure_dir os root d of
        (d1, Inl e) \<Rightarrow> (d1, Err e)
      | (d1, Inr _) \<Rightarrow>
          let p = daemon_path os root; tmp = daemon_temp_path os root in
          case dc_encode dc pd of
            None \<Rightarrow> (d1, Err (BadDaemon p ''the record could not be encoded''))
          | Some bs \<Rightarrow>
              (case write_file os tmp bs d1 of
                 (d2, Inl e) \<Rightarrow> (d2, Err (BadDaemon p e))
               | (d2, Inr _) \<Rightarrow>
                   (case rename_file os tmp p (restrict_permissions os tmp d2) of
                      (d3, Inl e) \<Rightarrow> (d3, Err (BadDaemon p e))
                    | (d3, Inr _) \<Rightarrow> (restrict_permissions os p d3, Ok ()))))"

definition forget_daemon :: "os \<Rightarrow> storage \<Rightarrow> disk \<Rightarrow> disk \<times> (storage_error, unit) result" where
  "forget_daemon os root d =
     (let (d', r) = remove_if_present os (daemon_path os root) d
      in (d', map_err (BadDaemon (daemon_path os root)) r))"

text \<open>Both removals are made, and the first failure is reported.\<close>

definition wipe :: "os \<Rightarrow> storage \<Rightarrow> disk \<Rightarrow> disk \<times> (storage_error, unit) result" where
  "wipe os root d =
     (let (d1, daemon) = forget_daemon os root d;
          (d2, r) = remove_if_present os (identity_path os root) d1;
          identity = map_err (BadIdentity (identity_path os root)) r
      in (d2, rbind daemon (\<lambda>_. identity)))"

section \<open>What the files hold afterwards\<close>

text \<open>The three names of a storage and its root are different paths.\<close>

definition os_paths_differ :: "os \<Rightarrow> storage \<Rightarrow> bool" where
  "os_paths_differ os root \<longleftrightarrow>
     distinct [root, identity_path os root, daemon_path os root, daemon_temp_path os root]"

definition hex_plain :: "hex_codec \<Rightarrow> bool" where
  "hex_plain hx \<longleftrightarrow> hex_laws hx \<and> (\<forall>bs. list_all graphic (hex_encode hx bs))"

lemma graphic_utf8: "list_all graphic s \<Longrightarrow> valid_utf8 (as_bytes s)"
proof (rule valid_utf8_ascii)
  assume "list_all graphic s"
  then show "list_all (\<lambda>b. b < 0x80) (as_bytes s)"
    by (auto simp: as_bytes_def list_all_iff graphic_def word_less_nat_alt)
qed

lemma parse_seed_written:
  "hex_plain hx \<Longrightarrow> length seed = SEED_LEN \<Longrightarrow> parse_seed hx wrong (hex_encode hx seed) = Ok seed"
  by (simp add: parse_seed_def hex_plain_def trim_graphic hex_lawsD)

lemma from_utf8_hex: "hex_plain hx \<Longrightarrow> from_utf8 (as_bytes (hex_encode hx bs)) = Some (hex_encode hx bs)"
  by (simp add: hex_plain_def graphic_utf8)

lemma restrict_other [simp]: "q \<noteq> p \<Longrightarrow> restrict_permissions os p d q = d q"
  by (simp add: restrict_permissions_def split: option.split node.split)

lemma restrict_is_file [simp]: "is_file (restrict_permissions os p d) q = is_file d q"
  by (auto simp: is_file_def restrict_permissions_def split: option.split node.split)

lemma restrict_bytes [simp]: "file_bytes (restrict_permissions os p d) q = file_bytes d q"
  by (auto simp: file_bytes_def restrict_permissions_def split: option.split node.split)

lemma is_file_bytes: "is_file d p \<longleftrightarrow> file_bytes d p \<noteq> None"
  by (simp add: is_file_def file_bytes_def split: option.split node.split)

lemma create_dir_all_bytes: "create_dir_all os p d = (d', r) \<Longrightarrow> file_bytes d' q = file_bytes d q"
  by (cases "q = p") (auto simp: create_dir_all_def file_bytes_def split: option.splits node.splits)

lemma ensure_dir_bytes: "ensure_dir os root d = (d1, r) \<Longrightarrow> file_bytes d1 q = file_bytes d q"
  by (auto simp: ensure_dir_def create_dir_all_bytes split: prod.splits sum.splits)

lemma write_file_other: "write_file os p bs d = (d', r) \<Longrightarrow> q \<noteq> p \<Longrightarrow> d' q = d q"
  by (auto simp: write_file_def split: option.splits node.splits write_outcome.splits)

lemma write_file_bytes: "write_file os p bs d = (d', Ok ()) \<Longrightarrow> file_bytes d' p = Some bs"
  by (auto simp: write_file_def file_bytes_def split: option.splits node.splits write_outcome.splits)

lemma rename_other: "rename_file os p q d = (d', r) \<Longrightarrow> x \<noteq> p \<Longrightarrow> x \<noteq> q \<Longrightarrow> file_bytes d' x = file_bytes d x"
  by (auto simp: rename_file_def file_bytes_def split: option.splits node.splits)

lemma rename_target:
  "rename_file os p q d = (d', r) \<Longrightarrow> p \<noteq> q \<Longrightarrow>
    file_bytes d' q = (if r = Ok () then file_bytes d p else file_bytes d q)"
  by (auto simp: rename_file_def file_bytes_def split: option.splits node.splits)

lemma ensure_dir_root:
  "ensure_dir os root d = (d1, Ok ()) \<Longrightarrow> \<exists>m. d1 root = Some (Dir m)"
  by (auto simp: ensure_dir_def create_dir_all_def restrict_permissions_def
      split: prod.splits sum.splits option.splits node.splits if_splits)

lemma ensure_dir_again:
  "d root = Some (Dir m) \<Longrightarrow> os_mkdir os root = None \<Longrightarrow> \<exists>d1. ensure_dir os root d = (d1, Ok ())"
  by (simp add: ensure_dir_def create_dir_all_def)

lemma load_identity_bytes:
  assumes "file_bytes d' (identity_path os root) = file_bytes d (identity_path os root)"
    and "os_join os' = os_join os" and "os_read os' (identity_path os root) = None"
    and "storage_load_identity os hx cv root d = Ok i"
  shows "storage_load_identity os' hx cv root d' = Ok i"
  using assms
  by (auto simp: storage_load_identity_def identity_path_def Let_def read_to_string_def read_file_def
      split: option.splits)

section \<open>Properties\<close>

text \<open>
  The phone keeps its identity across restarts.  Once the identity has been loaded or made, every
  later start, whatever random bytes it would have used, gets the same one, provided it can prepare
  the directory and read the file; and an identity file that is there is never changed, whatever it
  contains and whatever fails.
\<close>

theorem identity_survives_restart:
  assumes "hex_plain hx" and "os_paths_differ os root" and "length seed = SEED_LEN"
    and "load_or_create_identity os hx cv root seed d = (d', Ok i)"
    and "os_join os' = os_join os" and "os_mkdir os' root = None"
    and "os_read os' (identity_path os root) = None"
  shows "\<exists>d''. load_or_create_identity os' hx cv root seed' d' = (d'', Ok i) \<and>
    file_bytes d'' (identity_path os root) = file_bytes d' (identity_path os root)"
proof -
  let ?p = "identity_path os root"
  have p': "identity_path os' root = ?p" using assms(5) by (simp add: identity_path_def)
  from assms(4) obtain d1 where d1: "ensure_dir os root d = (d1, Ok ())"
    by (auto simp: load_or_create_identity_def split: prod.splits sum.splits)
  have after: "(\<exists>m. d' root = Some (Dir m)) \<and> is_file d' ?p \<and> storage_load_identity os' hx cv root d' = Ok i"
  proof (cases "is_file d1 ?p")
    case True
    with assms(4) d1 have "d' = d1" "storage_load_identity os hx cv root d1 = Ok i"
      by (auto simp: load_or_create_identity_def Let_def)
    then show ?thesis
      using True assms(5,7) ensure_dir_root [OF d1] load_identity_bytes [of d' os root d1 os'] by simp
  next
    case False
    with assms(4) d1 obtain d2 where
      w: "write_file os ?p (as_bytes (hex_encode hx seed)) d1 = (d2, Ok ())"
      and i: "i = from_seed cv seed" and d': "d' = restrict_permissions os ?p d2"
      by (auto simp: load_or_create_identity_def Let_def identity_generate_def from_seed_def
          from_seed_inner_def expose_seed_def split: prod.splits sum.splits)
    have bytes: "file_bytes d' ?p = Some (as_bytes (hex_encode hx seed))"
      using write_file_bytes [OF w] d' by simp
    have "d' root = d1 root"
      using write_file_other [OF w, of root] assms(2) d' by (simp add: os_paths_differ_def)
    moreover have "storage_load_identity os' hx cv root d' = Ok i"
      using bytes assms(1,3,7) i p'
      by (simp add: storage_load_identity_def Let_def read_to_string_def read_file_def from_utf8_hex
          parse_seed_written)
    ultimately show ?thesis
      using bytes ensure_dir_root [OF d1] by (simp add: is_file_bytes)
  qed
  then obtain m where "d' root = Some (Dir m)" by blast
  then obtain d'' where e: "ensure_dir os' root d' = (d'', Ok ())"
    using ensure_dir_again assms(6) by blast
  from ensure_dir_bytes [OF e] have same: "file_bytes d'' ?p = file_bytes d' ?p" .
  then have "storage_load_identity os' hx cv root d'' = Ok i"
    using after assms(7) p' load_identity_bytes [of d'' os' root d' os'] by simp
  then show ?thesis
    using same after e p' by (simp add: load_or_create_identity_def Let_def is_file_bytes)
qed

text \<open>An operating system on which nothing fails.\<close>

definition fair_os :: os where
  "fair_os =
     \<lparr>os_unix = True, os_join = (\<lambda>a b. a @ ''/'' @ b), os_mkdir = \<lambda>_. None, os_read = \<lambda>_. None,
      os_write = \<lambda>_. Written, os_rename = \<lambda>_. None, os_remove = \<lambda>_. None, os_chmod = \<lambda>_. True,
      os_new_file_mode = 420, os_new_dir_mode = 493\<rparr>"

lemma fair_os_paths: "os_paths_differ fair_os ''s''"
  by (simp add: os_paths_differ_def fair_os_def identity_path_def daemon_path_def daemon_temp_path_def
      IDENTITY_FILE_def DAEMON_FILE_def)

lemma graphic_digit: "n < 16 \<Longrightarrow> graphic (hex_digit n)"
  by (auto simp: graphic_def hex_digit_def)

lemma hex_plain_crate: "hex_plain hex_crate"
proof -
  have "list_all graphic (hex_enc bs)" for bs
    by (induction bs) (auto simp: graphic_digit div_le_dividend less_mult_imp_div_less)
  then show ?thesis
    by (simp add: hex_plain_def hex_laws_crate) (simp add: hex_crate_def)
qed

definition first_start :: "disk \<times> (storage_error, device_identity) result" where
  "first_start = load_or_create_identity fair_os hex_crate toy_curves ''s'' (replicate 32 1) (\<lambda>_. None)"

lemma first_start_ok: "first_start = (fst first_start, Ok (from_seed toy_curves (replicate 32 1)))"
  by (simp add: first_start_def load_or_create_identity_def ensure_dir_def create_dir_all_def
      restrict_permissions_def fair_os_def is_file_def identity_path_def IDENTITY_FILE_def write_file_def
      identity_generate_def from_seed_def Let_def)

theorem identity_survives_restart_witness:
  "\<exists>d''. load_or_create_identity fair_os hex_crate toy_curves ''s'' (replicate 32 2) (fst first_start) =
     (d'', Ok (from_seed toy_curves (replicate 32 1)))"
  using identity_survives_restart [OF hex_plain_crate fair_os_paths, where seed = "replicate 32 1"
      and d = "\<lambda>_. None" and os' = fair_os and seed' = "replicate 32 2" and cv = toy_curves
      and i = "from_seed toy_curves (replicate 32 1)" and d' = "fst first_start"] first_start_ok
  unfolding first_start_def
  by (auto simp: SEED_LEN_def fair_os_def)

lemma identity_never_overwritten:
  assumes "is_file d (identity_path os root)"
  shows "file_bytes (fst (load_or_create_identity os hx cv root seed d)) (identity_path os root) =
    file_bytes d (identity_path os root)"
proof (cases "ensure_dir os root d")
  case (Pair d1 r)
  from ensure_dir_bytes [OF Pair] have "file_bytes d1 (identity_path os root) = file_bytes d (identity_path os root)" .
  with assms Pair show ?thesis
    by (auto simp: load_or_create_identity_def Let_def is_file_bytes split: sum.split)
qed

lemma save_daemon_bytes:
  assumes "os_paths_differ os root" and "save_daemon os dc root pd d = (d', r)"
  shows "file_bytes d' (daemon_path os root) =
      (if is_ok r then dc_encode dc pd else file_bytes d (daemon_path os root)) \<and>
    file_bytes d' (identity_path os root) = file_bytes d (identity_path os root) \<and>
    (is_ok r \<longrightarrow> dc_encode dc pd \<noteq> None)"
proof -
  let ?p = "daemon_path os root" and ?t = "daemon_temp_path os root" and ?i = "identity_path os root"
  have ne: "?t \<noteq> ?p" "?i \<noteq> ?p" "?i \<noteq> ?t" using assms(1) by (auto simp: os_paths_differ_def)
  obtain d1 r1 where e: "ensure_dir os root d = (d1, r1)" by fastforce
  note b1 = ensure_dir_bytes [OF e]
  show ?thesis
  proof (cases "r1 = Ok () \<and> dc_encode dc pd \<noteq> None")
    case False
    with assms(2) e have "d' = d1" "\<not> is_ok r"
      by (auto simp: save_daemon_def Let_def split: sum.splits option.splits)
    then show ?thesis using b1 by simp
  next
    case True
    then obtain bs where bs: "dc_encode dc pd = Some bs" by blast
    obtain d2 r2 where w: "write_file os ?t bs d1 = (d2, r2)" by fastforce
    have b2: "file_bytes d2 x = file_bytes d x" if "x \<noteq> ?t" for x
      using write_file_other [OF w that] b1 by (simp add: file_bytes_def)
    obtain d3 r3 where n: "rename_file os ?t ?p (restrict_permissions os ?t d2) = (d3, r3)" by fastforce
    show ?thesis
    proof (cases "r2 = Ok () \<and> r3 = Ok ()")
      case True
      with assms(2) e \<open>r1 = Ok () \<and> _\<close> bs w n have d': "d' = restrict_permissions os ?p d3" "is_ok r"
        by (auto simp: save_daemon_def Let_def)
      then show ?thesis
        using rename_target [OF n ne(1)] True w write_file_bytes bs rename_other [OF n ne(3,2)] b2 [OF ne(3)]
        by simp
    next
      case False
      with assms(2) e \<open>r1 = Ok () \<and> _\<close> bs w n have d': "d' = (if r2 = Ok () then d3 else d2)" "\<not> is_ok r"
        by (auto simp: save_daemon_def Let_def split: sum.splits)
      then show ?thesis
        using False rename_target [OF n ne(1)] b2 [of ?p] ne rename_other [OF n ne(3,2)] b2 [OF ne(3)] by auto
    qed
  qed
qed

text \<open>
  C23: Saving the phone's record of its daemon is all or nothing: if it succeeds the record on disk is
  the new one, and reading it gives it back; whatever step fails, and however far the write got, the
  record on disk is still the old one.  The identity is not touched either way.
\<close>

theorem daemon_record_atomic:
  assumes "os_paths_differ os root" and "daemon_cbor_laws dc"
    and "save_daemon os dc root pd d = (d', r)"
  shows "(if is_ok r then dc_encode dc pd \<noteq> None \<and> file_bytes d' (daemon_path os root) = dc_encode dc pd \<and>
              (os_read os (daemon_path os root) = None \<longrightarrow> load_daemon os dc root d' = Ok (Some pd))
          else file_bytes d' (daemon_path os root) = file_bytes d (daemon_path os root) \<and>
              load_daemon os dc root d' = load_daemon os dc root d) \<and>
    file_bytes d' (identity_path os root) = file_bytes d (identity_path os root)"
proof -
  let ?p = "daemon_path os root"
  note b = save_daemon_bytes [OF assms(1,3)]
  have same: "load_daemon os dc root d' = load_daemon os dc root d" if "file_bytes d' ?p = file_bytes d ?p"
    unfolding load_daemon_def Let_def is_file_bytes read_file_def that by (rule refl)
  show ?thesis
  proof (cases "is_ok r")
    case True
    with b assms(2) show ?thesis
      by (auto simp: load_daemon_def Let_def is_file_bytes read_file_def daemon_cbor_laws_def)
  next
    case False
    with b same show ?thesis by simp
  qed
qed

text \<open>A codec that reads back the one record it writes, and a write that stops half way.\<close>

definition one_record :: paired_daemon where
  "one_record =
     \<lparr>pd_noise_key = PublicKey (replicate 32 9), pd_node_id = None, pd_device_id = ''09'',
      pd_registered_id = ''01'', pd_name = ''lap'', pd_addr_hints = [], pd_paired_at = 5, pd_last_seen = None\<rparr>"

definition one_cbor :: daemon_cbor where
  "one_cbor =
     \<lparr>dc_encode = (\<lambda>pd. if pd = one_record then Some [1, 2, 3] else None),
      dc_decode = (\<lambda>bs. if bs = [1, 2, 3] then Some one_record else None)\<rparr>"

lemma one_cbor_laws: "daemon_cbor_laws one_cbor"
  by (simp add: daemon_cbor_laws_def one_cbor_def)

definition full_os :: os where
  "full_os = fair_os\<lparr>os_write := \<lambda>_. StoppedAfter 1 ''no space''\<rparr>"

lemma full_os_paths: "os_paths_differ full_os ''s''"
  by (simp add: os_paths_differ_def full_os_def fair_os_def identity_path_def daemon_path_def
      daemon_temp_path_def IDENTITY_FILE_def DAEMON_FILE_def)

theorem daemon_record_atomic_witness:
  "\<exists>d' e. save_daemon full_os one_cbor ''s'' one_record [''s/daemon.cbor'' \<mapsto> File [7] 384] = (d', Err e) \<and>
     file_bytes d' ''s/daemon.cbor'' = Some [7]"
proof -
  obtain d' r where s: "save_daemon full_os one_cbor ''s'' one_record [''s/daemon.cbor'' \<mapsto> File [7] 384] = (d', r)"
    by fastforce
  then have bad: "\<exists>e. r = Err e"
    by (auto simp: save_daemon_def ensure_dir_def create_dir_all_def full_os_def fair_os_def Let_def
        one_cbor_def write_file_def restrict_permissions_def daemon_temp_path_def split: if_splits)
  have "daemon_path full_os ''s'' = ''s/daemon.cbor''"
    by (simp add: daemon_path_def full_os_def fair_os_def DAEMON_FILE_def)
  with daemon_record_atomic [OF full_os_paths one_cbor_laws s] bad have
    "file_bytes d' ''s/daemon.cbor'' = Some [7]"
    by (auto simp: file_bytes_def)
  with s bad show ?thesis by blast
qed

text \<open>
  Unpairing wipes the key even when the daemon's record cannot be removed: the seed is gone unless
  its own removal fails, and success means that both files are gone.
\<close>

theorem wipe_tries_both:
  assumes "os_paths_differ os root" and "wipe os root d = (d', r)"
  shows "(os_remove os (identity_path os root) = None \<longrightarrow> file_bytes d' (identity_path os root) = None) \<and>
    (is_ok r \<longrightarrow> file_bytes d' (identity_path os root) = None \<and> file_bytes d' (daemon_path os root) = None)"
proof -
  have ne: "identity_path os root \<noteq> daemon_path os root"
    using assms(1) by (auto simp: os_paths_differ_def)
  have gone: "file_bytes d2 p = None" if "remove_if_present os p d1 = (d2, Ok ())" for p d1 d2
    using that by (auto simp: remove_if_present_def file_bytes_def split: option.splits node.splits)
  have tried: "file_bytes d2 p = None" if "remove_if_present os p d1 = (d2, x)" "os_remove os p = None" for p d1 d2 x
    using that by (auto simp: remove_if_present_def file_bytes_def split: option.splits node.splits)
  have other: "d2 q = d1 q" if "remove_if_present os p d1 = (d2, x)" "q \<noteq> p" for p q d1 d2 x
    using that by (auto simp: remove_if_present_def split: option.splits node.splits)
  obtain d1 x where f: "remove_if_present os (daemon_path os root) d = (d1, x)" by fastforce
  obtain d2 y where g: "remove_if_present os (identity_path os root) d1 = (d2, y)" by fastforce
  have d': "d' = d2" and ok: "is_ok r \<Longrightarrow> x = Ok () \<and> y = Ok ()"
    using assms(2) f g by (auto simp: wipe_def forget_daemon_def is_ok_iff)
  have kept: "d2 (daemon_path os root) = d1 (daemon_path os root)"
    using other [OF g] ne by metis
  show ?thesis
    using d' ok tried [OF g] gone f g kept by (auto simp: file_bytes_def)
qed

theorem wipe_tries_both_witness:
  "file_bytes (fst (wipe (fair_os\<lparr>os_remove := \<lambda>p. if p = ''s/daemon.cbor'' then Some ''busy'' else None\<rparr>) ''s''
     [''s/identity.key'' \<mapsto> File [1] 384])) ''s/identity.key'' = None"
proof -
  let ?os = "fair_os\<lparr>os_remove := \<lambda>p. if p = ''s/daemon.cbor'' then Some ''busy'' else None\<rparr>"
  have paths: "os_paths_differ ?os ''s''" and p: "identity_path ?os ''s'' = ''s/identity.key''"
    by (simp_all add: os_paths_differ_def fair_os_def identity_path_def daemon_path_def
        daemon_temp_path_def IDENTITY_FILE_def DAEMON_FILE_def)
  show ?thesis
    using wipe_tries_both [OF paths prod.collapse [symmetric]] p
    by simp
qed

text \<open>
  A first start that is cut off while it writes the seed leaves a file that is taken for an identity
  and refused from then on: unlike the daemon's record, the seed is not written to the side first.
\<close>

lemma cut_identity_sticks:
  "\<exists>d1 e1. load_or_create_identity full_os hex_crate toy_curves ''s'' (replicate 32 1) (\<lambda>_. None) = (d1, Err e1) \<and>
     (\<exists>d2. load_or_create_identity fair_os hex_crate toy_curves ''s'' (replicate 32 1) d1 =
        (d2, Err (BadIdentity ''s/identity.key'' ''not valid hex'')))"
proof -
  have seed: "replicate 32 (1 :: byte) = 1 # replicate 31 1" by (simp add: numeral_eq_Suc)
  have zero: "hex_digit 0 = CHR ''0''" by code_simp
  have first: "load_or_create_identity full_os hex_crate toy_curves ''s'' (replicate 32 1) (\<lambda>_. None) =
      ([''s'' \<mapsto> Dir MODE_DIR, ''s/identity.key'' \<mapsto> File (as_bytes ''0'') 420], Err (BadIdentity ''s/identity.key'' ''no space''))"
    by (simp add: load_or_create_identity_def ensure_dir_def create_dir_all_def restrict_permissions_def
        full_os_def fair_os_def is_file_def identity_path_def IDENTITY_FILE_def write_file_def Let_def
        identity_generate_def expose_seed_def from_seed_inner_def hex_crate_def seed as_bytes_def
        zero file_mode_def)
  have "trim ''0'' = ''0''" by (rule trim_graphic) (simp add: graphic_def)
  moreover have "valid_utf8 (as_bytes ''0'')" by (simp add: as_bytes_def)
  ultimately show ?thesis
    unfolding first
    by (simp add: load_or_create_identity_def ensure_dir_def create_dir_all_def restrict_permissions_def
        fair_os_def is_file_def identity_path_def IDENTITY_FILE_def Let_def storage_load_identity_def
        read_to_string_def read_file_def file_bytes_def parse_seed_def hex_crate_def)
qed

end
