(* ===== verification/PathGuard.thy ===== *)
theory PathGuard
  imports Errors
begin

text \<open>
  \<open>gonomad-policy/src/path_guard.rs\<close>: whether a requested path is inside a workspace root.

  A path is its text together with the components \<open>std::path\<close> parses it into; the two are kept
  side by side because the guard looks at both.  The host is a parameter: whether it is Windows
  (where a path may have a prefix and names are compared case-insensitively), the Unicode
  lower-casing of the standard library and its lossy conversion of text that is not UTF-8.  The file system is a parameter too: canonicalisation
  (the crate \<open>dunce\<close>) and \<open>symlink_metadata\<close>, each with the three outcomes the code tells apart.
  \<open>unix_path\<close> parses a text the way \<open>std::path\<close> does on a host with \<open>/\<close> as its only separator.
\<close>

section \<open>Paths\<close>

text \<open>An \<open>OsStr\<close>: text, or bytes that are not UTF-8 (an unpaired surrogate on Windows).\<close>

datatype os_string = Utf8 string | NonUtf8 bytes

fun to_str :: "os_string \<Rightarrow> string option" where
  "to_str (Utf8 s) = Some s"
| "to_str (NonUtf8 _) = None"

datatype prefix_kind =
    Verbatim string
  | VerbatimUNC string string
  | VerbatimDisk char
  | DeviceNS string
  | UNC string string
  | Disk char

datatype component =
    Prefix prefix_kind os_string
  | RootDir
  | CurDir
  | ParentDir
  | Normal os_string

record path =
  path_text :: os_string
  path_comps :: "component list"

record host =
  host_windows :: bool
  host_lower :: "string \<Rightarrow> string"
  host_lossy :: "bytes \<Rightarrow> string"

definition separator :: "host \<Rightarrow> string" where
  "separator h = (if host_windows h then [CHR 0x5C] else ''/'')"

fun comp_os_str :: "host \<Rightarrow> component \<Rightarrow> os_string" where
  "comp_os_str h (Prefix k raw) = raw"
| "comp_os_str h RootDir = Utf8 (separator h)"
| "comp_os_str h CurDir = Utf8 ''.''"
| "comp_os_str h ParentDir = Utf8 ''..''"
| "comp_os_str h (Normal n) = n"

text \<open>\<open>Component\<close>'s derived equality: a prefix is compared by what it parsed to.\<close>

fun comp_same :: "component \<Rightarrow> component \<Rightarrow> bool" where
  "comp_same (Prefix k _) (Prefix l _) = (k = l)"
| "comp_same a b = (a = b)"

text \<open>The text of a path assembled from components; bytes stand in where the text is not UTF-8.\<close>

fun os_append :: "os_string \<Rightarrow> os_string \<Rightarrow> os_string" where
  "os_append (Utf8 s) (Utf8 t) = Utf8 (s @ t)"
| "os_append (Utf8 s) (NonUtf8 t) = NonUtf8 (as_bytes s @ t)"
| "os_append (NonUtf8 s) (Utf8 t) = NonUtf8 (s @ as_bytes t)"
| "os_append (NonUtf8 s) (NonUtf8 t) = NonUtf8 (s @ t)"

fun render :: "host \<Rightarrow> component list \<Rightarrow> os_string" where
  "render h [] = Utf8 []"
| "render h [c] = comp_os_str h c"
| "render h (Prefix k raw # c # cs) = os_append raw (render h (c # cs))"
| "render h (RootDir # c # cs) = os_append (Utf8 (separator h)) (render h (c # cs))"
| "render h (x # c # cs) =
     os_append (os_append (comp_os_str h x) (Utf8 (separator h))) (render h (c # cs))"

definition path_of :: "host \<Rightarrow> component list \<Rightarrow> path" where
  "path_of h cs = \<lparr>path_text = render h cs, path_comps = cs\<rparr>"

text \<open>\<open>Path::file_name\<close> and \<open>Path::parent\<close> look at the last component.\<close>

definition file_name :: "path \<Rightarrow> os_string option" where
  "file_name p =
     (if path_comps p = [] then None
      else case last (path_comps p) of Normal n \<Rightarrow> Some n | _ \<Rightarrow> None)"

definition parent :: "host \<Rightarrow> path \<Rightarrow> path option" where
  "parent h p =
     (if path_comps p = [] then None
      else case last (path_comps p) of
             Prefix _ _ \<Rightarrow> None
           | RootDir \<Rightarrow> None
           | _ \<Rightarrow> Some (path_of h (butlast (path_comps p))))"

text \<open>\<open>PathBuf::push\<close> of a single file name.\<close>

definition push_name :: "host \<Rightarrow> path \<Rightarrow> os_string \<Rightarrow> path" where
  "push_name h p n = path_of h (path_comps p @ [Normal n])"

text \<open>\<open>has_root\<close> and \<open>is_absolute\<close>: off Windows they are the same question.\<close>

fun has_root :: "component list \<Rightarrow> bool" where
  "has_root (RootDir # _) = True"
| "has_root (Prefix (Disk _) _ # cs) = (case cs of RootDir # _ \<Rightarrow> True | _ \<Rightarrow> False)"
| "has_root (Prefix _ _ # _) = True"
| "has_root _ = False"

definition is_absolute :: "host \<Rightarrow> path \<Rightarrow> bool" where
  "is_absolute h p \<longleftrightarrow>
     has_root (path_comps p) \<and>
     (host_windows h \<longrightarrow> (case path_comps p of Prefix _ _ # _ \<Rightarrow> True | _ \<Rightarrow> False))"

text \<open>The parser of a Unix path: empty names and all but a leading dot vanish.\<close>

fun split_on :: "char \<Rightarrow> string \<Rightarrow> string list" where
  "split_on sep [] = [[]]"
| "split_on sep (c # cs) =
     (if c = sep then [] # split_on sep cs
      else (case split_on sep cs of [] \<Rightarrow> [[c]] | w # ws \<Rightarrow> (c # w) # ws))"

definition unix_name :: "string \<Rightarrow> component" where
  "unix_name s = (if s = ''..'' then ParentDir else Normal (Utf8 s))"

definition unix_components :: "string \<Rightarrow> component list" where
  "unix_components s =
     (let parts = split_on CHR ''/'' s;
          body = map unix_name (filter (\<lambda>w. w \<noteq> [] \<and> w \<noteq> ''.'') parts)
      in (if prefix ''/'' s then [RootDir]
          else if parts \<noteq> [] \<and> hd parts = ''.'' then [CurDir] else []) @ body)"

definition unix_path :: "string \<Rightarrow> path" where
  "unix_path s = \<lparr>path_text = Utf8 s, path_comps = unix_components s\<rparr>"

definition unix_host :: host where
  "unix_host = \<lparr>host_windows = False, host_lower = id, host_lossy = str_of_bytes\<rparr>"

section \<open>Denial reasons\<close>

definition MAX_PATH_BYTES :: nat where "MAX_PATH_BYTES = 4096"
definition MAX_PATH_COMPONENTS :: nat where "MAX_PATH_COMPONENTS = 256"

datatype deny_reason =
    NotUtf8 | NullByte | TooLong | TooManyComponents | NotAbsolute | ReservedDeviceName
  | AlternateDataStream | TrailingDotOrSpace | VerbatimPrefix | UncNotConfigured
  | NoRootsConfigured | UnresolvableAncestor | TraversalIntoMissingPath | OutsideRoots

fun deny_code :: "deny_reason \<Rightarrow> string" where
  "deny_code NotUtf8 = ''not_utf8''"
| "deny_code NullByte = ''null_byte''"
| "deny_code TooLong = ''too_long''"
| "deny_code TooManyComponents = ''too_many_components''"
| "deny_code NotAbsolute = ''not_absolute''"
| "deny_code ReservedDeviceName = ''reserved_device_name''"
| "deny_code AlternateDataStream = ''alternate_data_stream''"
| "deny_code TrailingDotOrSpace = ''trailing_dot_or_space''"
| "deny_code VerbatimPrefix = ''verbatim_prefix''"
| "deny_code UncNotConfigured = ''unc_not_configured''"
| "deny_code NoRootsConfigured = ''no_roots_configured''"
| "deny_code UnresolvableAncestor = ''unresolvable_ancestor''"
| "deny_code TraversalIntoMissingPath = ''traversal_into_missing_path''"
| "deny_code OutsideRoots = ''outside_roots''"

definition is_malformed_name :: "deny_reason \<Rightarrow> bool" where
  "is_malformed_name r \<longleftrightarrow>
     r \<in> {NotUtf8, NullByte, TooLong, TooManyComponents, NotAbsolute, ReservedDeviceName,
          AlternateDataStream, TrailingDotOrSpace, VerbatimPrefix}"

definition deny_to_proto_error :: "deny_reason \<Rightarrow> proto_error" where
  "deny_to_proto_error r =
     (if is_malformed_name r then err_bad_request ''invalid path'' else err_not_found)"

datatype path_denied = PathDenied (denied_reason: deny_reason)

definition denied_to_proto :: "path_denied \<Rightarrow> proto_error" where
  "denied_to_proto d = deny_to_proto_error (denied_reason d)"

section \<open>Resolved paths\<close>

record file_identity =
  id_volume :: "64 word"
  id_object :: "128 word"

definition file_identity_new :: "64 word \<Rightarrow> 128 word \<Rightarrow> file_identity" where
  "file_identity_new v n = \<lparr>id_volume = v, id_object = n\<rparr>"

record resolved_path =
  rp_path :: path
  rp_root :: path
  rp_exists :: bool
  rp_expected :: "file_identity option"

definition with_expected_identity :: "resolved_path \<Rightarrow> file_identity \<Rightarrow> resolved_path" where
  "with_expected_identity r i = r\<lparr>rp_expected := Some i\<rparr>"

definition confirm_identity :: "resolved_path \<Rightarrow> file_identity \<Rightarrow> (proto_error, unit) result" where
  "confirm_identity r observed =
     (case rp_expected r of
        Some expected \<Rightarrow> (if expected \<noteq> observed then Err err_not_found else Ok ())
      | None \<Rightarrow> Ok ())"

section \<open>The file system as the guard sees it\<close>

datatype 'a fs_result = FsOk 'a | FsNotFound | FsOther

record fs =
  fs_canonicalize :: "path \<Rightarrow> path fs_result"
  fs_symlink_metadata :: "path \<Rightarrow> unit fs_result"

section \<open>Roots and options\<close>

record workspace_root =
  root_canonical :: path
  root_configured :: path

text \<open>\<open>WorkspaceRoot::new\<close> fails with whatever canonicalisation failed with.\<close>

definition workspace_root_new :: "fs \<Rightarrow> path \<Rightarrow> workspace_root fs_result" where
  "workspace_root_new F p =
     (case fs_canonicalize F p of
        FsOk c \<Rightarrow> FsOk \<lparr>root_canonical = c, root_configured = p\<rparr>
      | FsNotFound \<Rightarrow> FsNotFound
      | FsOther \<Rightarrow> FsOther)"

definition path_is_unc :: "path \<Rightarrow> bool" where
  "path_is_unc p =
     (case path_comps p of
        Prefix (UNC _ _) _ # _ \<Rightarrow> True
      | Prefix (VerbatimUNC _ _) _ # _ \<Rightarrow> True
      | _ \<Rightarrow> False)"

definition root_is_unc :: "workspace_root \<Rightarrow> bool" where
  "root_is_unc r = path_is_unc (root_canonical r)"

record guard_options =
  windows_name_rules :: bool
  allow_unc :: bool

definition guard_options_default :: guard_options where
  "guard_options_default = \<lparr>windows_name_rules = True, allow_unc = False\<rparr>"

section \<open>Names\<close>

definition RESERVED_DEVICE_NAMES :: "string list" where
  "RESERVED_DEVICE_NAMES =
     [''CON'', ''PRN'', ''AUX'', ''NUL'', ''CONIN$'', ''CONOUT$'']
     @ map (\<lambda>d. ''COM'' @ d)
         ([''1'', ''2'', ''3'', ''4'', ''5'', ''6'', ''7'', ''8'', ''9'']
          @ [[CHR 0xC2, CHR 0xB9], [CHR 0xC2, CHR 0xB2], [CHR 0xC2, CHR 0xB3]])
     @ map (\<lambda>d. ''LPT'' @ d)
         ([''1'', ''2'', ''3'', ''4'', ''5'', ''6'', ''7'', ''8'', ''9'']
          @ [[CHR 0xC2, CHR 0xB9], [CHR 0xC2, CHR 0xB2], [CHR 0xC2, CHR 0xB3]])"

definition trim_blanks :: "string \<Rightarrow> string" where
  "trim_blanks s =
     (let blank = (\<lambda>c. c = CHR '' '' \<or> c = CHR 0x09)
      in rev (dropWhile blank (rev (dropWhile blank s))))"

definition is_reserved_device_name :: "string \<Rightarrow> bool" where
  "is_reserved_device_name name =
     (let stem = trim_blanks (takeWhile (\<lambda>c. c \<noteq> CHR ''.'' \<and> c \<noteq> CHR '':'') name)
      in list_ex (\<lambda>reserved. eq_ignore_ascii_case stem reserved \<or> stem = reserved)
           RESERVED_DEVICE_NAMES)"

definition has_alternate_data_stream :: "string \<Rightarrow> bool" where
  "has_alternate_data_stream name \<longleftrightarrow> CHR '':'' \<in> set name"

definition has_trailing_dot_or_space :: "string \<Rightarrow> bool" where
  "has_trailing_dot_or_space name \<longleftrightarrow>
     name \<noteq> [] \<and> (last name = CHR ''.'' \<or> last name = CHR '' '')"

definition path_is_verbatim :: "path \<Rightarrow> bool" where
  "path_is_verbatim p =
     (case path_comps p of
        Prefix (Verbatim _) _ # _ \<Rightarrow> True
      | Prefix (VerbatimUNC _ _) _ # _ \<Rightarrow> True
      | Prefix (VerbatimDisk _) _ # _ \<Rightarrow> True
      | Prefix (DeviceNS _) _ # _ \<Rightarrow> True
      | _ \<Rightarrow> False)"

definition components_eq :: "host \<Rightarrow> component \<Rightarrow> component \<Rightarrow> bool" where
  "components_eq h a b =
     (if comp_same a b then True
      else if host_windows h then
        (case (to_str (comp_os_str h a), to_str (comp_os_str h b)) of
           (Some x, Some y) \<Rightarrow> host_lower h x = host_lower h y
         | _ \<Rightarrow> False)
      else False)"

section \<open>The guard\<close>

record path_guard =
  pg_roots :: "workspace_root list"
  pg_options :: guard_options
  pg_has_unc_root :: bool

definition guard_with_options :: "workspace_root list \<Rightarrow> guard_options \<Rightarrow> path_guard" where
  "guard_with_options roots opts =
     \<lparr>pg_roots = roots, pg_options = opts, pg_has_unc_root = list_ex root_is_unc roots\<rparr>"

definition guard_new :: "workspace_root list \<Rightarrow> path_guard" where
  "guard_new roots = guard_with_options roots guard_options_default"

text \<open>The loop of \<open>is_within\<close>, one component of each path per turn.\<close>

fun is_within_comps :: "host \<Rightarrow> component list \<Rightarrow> component list \<Rightarrow> bool" where
  "is_within_comps h [] _ = True"
| "is_within_comps h (r # rs) [] = False"
| "is_within_comps h (r # rs) (c # cs) =
     (if \<not> components_eq h r c then False else is_within_comps h rs cs)"

definition is_within :: "host \<Rightarrow> path \<Rightarrow> path \<Rightarrow> bool" where
  "is_within h root candidate = is_within_comps h (path_comps root) (path_comps candidate)"

definition check_component :: "guard_options \<Rightarrow> string \<Rightarrow> (path_denied, unit) result" where
  "check_component opts name =
     (if \<not> windows_name_rules opts then Ok ()
      else if has_alternate_data_stream name then Err (PathDenied AlternateDataStream)
      else if has_trailing_dot_or_space name then Err (PathDenied TrailingDotOrSpace)
      else if is_reserved_device_name name then Err (PathDenied ReservedDeviceName)
      else Ok ())"

text \<open>The loop of \<open>check_syntax\<close>; \<open>count\<close> is the number of components already seen.\<close>

fun check_comps :: "guard_options \<Rightarrow> nat \<Rightarrow> component list \<Rightarrow> (path_denied, unit) result" where
  "check_comps opts count [] = Ok ()"
| "check_comps opts count (c # cs) =
     (if count + 1 > MAX_PATH_COMPONENTS then Err (PathDenied TooManyComponents)
      else (case c of
              Normal part \<Rightarrow>
                rbind (ok_or (to_str part) (PathDenied NotUtf8)) (\<lambda>name.
                rbind (check_component opts name) (\<lambda>_. check_comps opts (count + 1) cs))
            | _ \<Rightarrow> check_comps opts (count + 1) cs))"

definition check_syntax :: "host \<Rightarrow> guard_options \<Rightarrow> path \<Rightarrow> (path_denied, unit) result" where
  "check_syntax h opts requested =
     rbind (ok_or (to_str (path_text requested)) (PathDenied NotUtf8)) (\<lambda>text.
       if CHR 0x00 \<in> set text then Err (PathDenied NullByte)
       else if length text > MAX_PATH_BYTES then Err (PathDenied TooLong)
       else if path_is_verbatim requested then Err (PathDenied VerbatimPrefix)
       else if \<not> is_absolute h requested then Err (PathDenied NotAbsolute)
       else check_comps opts 0 (path_comps requested))"

definition verify_still_missing :: "fs \<Rightarrow> path \<Rightarrow> (path_denied, unit) result" where
  "verify_still_missing F probe =
     (case fs_symlink_metadata F probe of
        FsNotFound \<Rightarrow> Ok ()
      | _ \<Rightarrow> Err (PathDenied UnresolvableAncestor))"

text \<open>
  The loop of \<open>canonicalise_deepest_ancestor\<close>.  Its first argument counts the turns the \<open>for\<close>
  loop still has; \<open>tail\<close> collects the missing names, innermost first.
\<close>

fun deepest_ancestor ::
  "host \<Rightarrow> fs \<Rightarrow> nat \<Rightarrow> path \<Rightarrow> os_string list \<Rightarrow> (path_denied, path \<times> os_string list) result" where
  "deepest_ancestor h F 0 cursor tail = Err (PathDenied TooManyComponents)"
| "deepest_ancestor h F (Suc n) cursor tail =
     (case fs_canonicalize F cursor of
        FsOk canonical \<Rightarrow>
          (case rev tail of
             [] \<Rightarrow> Ok (canonical, [])
           | first_missing # rest \<Rightarrow>
               rbind (verify_still_missing F (push_name h canonical first_missing))
                 (\<lambda>_. Ok (canonical, first_missing # rest)))
      | FsNotFound \<Rightarrow>
          (case file_name cursor of
             None \<Rightarrow> Err (PathDenied (if parent h cursor = None then UnresolvableAncestor
                                      else TraversalIntoMissingPath))
           | Some name \<Rightarrow>
               (case parent h cursor of
                  None \<Rightarrow> Err (PathDenied UnresolvableAncestor)
                | Some up \<Rightarrow> deepest_ancestor h F n up (tail @ [name])))
      | FsOther \<Rightarrow> Err (PathDenied UnresolvableAncestor))"

definition canonicalise_deepest_ancestor ::
  "host \<Rightarrow> fs \<Rightarrow> path \<Rightarrow> (path_denied, path \<times> os_string list) result" where
  "canonicalise_deepest_ancestor h F p =
     deepest_ancestor h F (Suc (MAX_PATH_COMPONENTS + 2)) p []"

definition unc_refused :: "path_guard \<Rightarrow> path \<Rightarrow> bool" where
  "unc_refused g p \<longleftrightarrow> path_is_unc p \<and> \<not> (allow_unc (pg_options g) \<and> pg_has_unc_root g)"

definition guard_resolve ::
  "host \<Rightarrow> fs \<Rightarrow> path_guard \<Rightarrow> path \<Rightarrow> (path_denied, resolved_path) result" where
  "guard_resolve h F g requested =
     rbind (check_syntax h (pg_options g) requested) (\<lambda>_.
       if pg_roots g = [] then Err (PathDenied NoRootsConfigured)
       else if unc_refused g requested then Err (PathDenied UncNotConfigured)
       else rbind (canonicalise_deepest_ancestor h F requested) (\<lambda>(ancestor, tail).
         let canonical = foldl (push_name h) ancestor tail in
         if unc_refused g canonical then Err (PathDenied UncNotConfigured)
         else rbind (ok_or (find (\<lambda>r. is_within h (root_canonical r) canonical) (pg_roots g))
                       (PathDenied OutsideRoots)) (\<lambda>root.
           Ok \<lparr>rp_path = canonical, rp_root = root_canonical root, rp_exists = (tail = []),
               rp_expected = None\<rparr>)))"

definition resolve_existing ::
  "host \<Rightarrow> fs \<Rightarrow> path_guard \<Rightarrow> path \<Rightarrow> (path_denied, resolved_path) result" where
  "resolve_existing h F g requested =
     rbind (guard_resolve h F g requested) (\<lambda>r.
       if rp_exists r then Ok r else Err (PathDenied OutsideRoots))"

text \<open>\<open>Path::join\<close> of a relative path: a dot that is no longer leading vanishes.\<close>

definition join_relative :: "host \<Rightarrow> path \<Rightarrow> path \<Rightarrow> path" where
  "join_relative h base rel =
     \<lparr>path_text = os_append (os_append (path_text base) (Utf8 (separator h))) (path_text rel),
      path_comps = path_comps base @ filter (\<lambda>c. c \<noteq> CurDir) (path_comps rel)\<rparr>"

definition escapes_root :: "host \<Rightarrow> path \<Rightarrow> bool" where
  "escapes_root h rel \<longleftrightarrow>
     is_absolute h rel \<or> has_root (path_comps rel) \<or>
     (case path_comps rel of
        Prefix _ _ # _ \<Rightarrow> True
      | RootDir # _ \<Rightarrow> True
      | _ \<Rightarrow> False)"

definition resolve_in_root ::
  "host \<Rightarrow> fs \<Rightarrow> path_guard \<Rightarrow> workspace_root \<Rightarrow> path \<Rightarrow> (path_denied, resolved_path) result" where
  "resolve_in_root h F g root relative =
     (if escapes_root h relative then Err (PathDenied NotAbsolute)
      else guard_resolve h F g (join_relative h (root_canonical root) relative))"

section \<open>Containment\<close>

lemma is_within_comps_iff:
  "is_within_comps h r c \<longleftrightarrow>
     length r \<le> length c \<and> list_all2 (components_eq h) r (take (length r) c)"
proof (induction h r c rule: is_within_comps.induct)
  case (3 h r rs c cs)
  then show ?case by auto
qed simp_all

lemma comp_same_refl [simp]: "comp_same c c"
  by (cases c) simp_all

lemma components_eq_refl [simp]: "components_eq h c c"
  by (simp add: components_eq_def)

lemma is_within_refl [simp]: "is_within h p p"
  by (simp add: is_within_def is_within_comps_iff list_all2_refl)

lemma is_within_append: "path_comps c = path_comps r @ ext \<Longrightarrow> is_within h r c"
  by (simp add: is_within_def is_within_comps_iff list_all2_refl)

text \<open>Off Windows a path without a prefix component compares its components exactly.\<close>

definition unprefixed :: "component list \<Rightarrow> bool" where
  "unprefixed cs \<longleftrightarrow> list_all (\<lambda>c. case c of Prefix _ _ \<Rightarrow> False | _ \<Rightarrow> True) cs"

lemma unprefixed_simps [simp]:
  "unprefixed []"
  "unprefixed (c # cs) \<longleftrightarrow> (\<forall>k raw. c \<noteq> Prefix k raw) \<and> unprefixed cs"
  "unprefixed (xs @ ys) \<longleftrightarrow> unprefixed xs \<and> unprefixed ys"
  by (auto simp: unprefixed_def split: component.splits)

lemma components_eq_unix:
  assumes "\<not> host_windows h" and "\<forall>k raw. a \<noteq> Prefix k raw"
  shows "components_eq h a b \<longleftrightarrow> a = b"
  using assms by (cases a; cases b) (simp_all add: components_eq_def)

lemma is_within_unix:
  assumes "\<not> host_windows h" and "unprefixed (path_comps r)"
  shows "is_within h r c \<longleftrightarrow> prefix (path_comps r) (path_comps c)"
proof -
  have "unprefixed rs \<Longrightarrow> is_within_comps h rs cs \<longleftrightarrow> prefix rs cs" for rs cs
  proof (induction rs arbitrary: cs)
    case (Cons r rs)
    then have "components_eq h r c \<longleftrightarrow> r = c" for c
      using components_eq_unix [OF assms(1)] by simp
    with Cons show ?case by (cases cs) auto
  qed simp
  with assms show ?thesis
    by (simp add: is_within_def)
qed

section \<open>Syntax\<close>

definition name_allowed :: "guard_options \<Rightarrow> string \<Rightarrow> bool" where
  "name_allowed opts name \<longleftrightarrow>
     (windows_name_rules opts \<longrightarrow>
        \<not> has_alternate_data_stream name \<and> \<not> has_trailing_dot_or_space name \<and>
        \<not> is_reserved_device_name name)"

definition comp_allowed :: "guard_options \<Rightarrow> component \<Rightarrow> bool" where
  "comp_allowed opts c =
     (case c of Normal part \<Rightarrow> (\<exists>name. part = Utf8 name \<and> name_allowed opts name) | _ \<Rightarrow> True)"

lemma to_str_eq_Some: "to_str n = Some s \<longleftrightarrow> n = Utf8 s"
  by (cases n) simp_all

lemma check_component_Ok [simp]: "check_component opts name = Inr u \<longleftrightarrow> name_allowed opts name"
  by (simp add: check_component_def name_allowed_def)

lemma check_comps_Ok [simp]:
  "check_comps opts count cs = Inr u \<longleftrightarrow>
     count + length cs \<le> MAX_PATH_COMPONENTS + (if cs = [] then count else 0) \<and>
     list_all (comp_allowed opts) cs"
proof (induction opts count cs rule: check_comps.induct)
  case (2 opts count c cs)
  then show ?case
    by (cases c) (auto simp: comp_allowed_def to_str_eq_Some)
qed simp

lemma check_syntax_Ok:
  "check_syntax h opts p = Inr u \<longleftrightarrow>
     (\<exists>text. path_text p = Utf8 text \<and> CHR 0x00 \<notin> set text \<and> length text \<le> MAX_PATH_BYTES) \<and>
     \<not> path_is_verbatim p \<and> is_absolute h p \<and>
     length (path_comps p) \<le> MAX_PATH_COMPONENTS \<and>
     list_all (comp_allowed opts) (path_comps p)"
  by (cases "path_text p") (auto simp: check_syntax_def)

text \<open>Every refusal on syntax is one the client may be told about.\<close>

lemma check_component_Err: "check_component opts name = Inl d \<Longrightarrow> is_malformed_name (denied_reason d)"
  by (auto simp: check_component_def is_malformed_name_def split: if_splits)

lemma check_comps_Err: "check_comps opts count cs = Inl d \<Longrightarrow> is_malformed_name (denied_reason d)"
proof (induction opts count cs rule: check_comps.induct)
  case (2 opts count c cs)
  then show ?case
    by (cases c)
      (auto simp: rbind_eq_Inl ok_or_def is_malformed_name_def dest: check_component_Err
        split: if_splits option.splits)
qed simp

lemma check_syntax_Err: "check_syntax h opts p = Inl d \<Longrightarrow> is_malformed_name (denied_reason d)"
  by (auto simp: check_syntax_def rbind_eq_Inl ok_or_def is_malformed_name_def
      dest: check_comps_Err split: if_splits option.splits)

section \<open>The deepest existing ancestor\<close>

lemma file_name_Some: "file_name p = Some n \<longleftrightarrow> (\<exists>base. path_comps p = base @ [Normal n])"
proof
  assume "file_name p = Some n"
  then have "path_comps p \<noteq> []" "last (path_comps p) = Normal n"
    by (auto simp: file_name_def split: if_splits component.splits)
  then show "\<exists>base. path_comps p = base @ [Normal n]"
    by (metis append_butlast_last_id)
qed (auto simp: file_name_def)

lemma parent_of_name: "path_comps p = base @ [Normal n] \<Longrightarrow> parent h p = Some (path_of h base)"
  by (simp add: parent_def)

lemma path_comps_of [simp]: "path_comps (path_of h cs) = cs"
  by (simp add: path_of_def)

lemma path_comps_push [simp]: "path_comps (push_name h p n) = path_comps p @ [Normal n]"
  by (simp add: push_name_def)

lemma path_comps_push_all [simp]:
  "path_comps (foldl (push_name h) p names) = path_comps p @ map Normal names"
  by (induction names arbitrary: p) simp_all

text \<open>
  What a successful walk has established: the names trimmed off are the last components of the
  path, every longer ancestor was absent, and the first of them is absent below the canonical
  ancestor as well.
\<close>

definition walked ::
  "host \<Rightarrow> fs \<Rightarrow> path \<Rightarrow> os_string list \<Rightarrow> path \<Rightarrow> os_string list \<Rightarrow> bool" where
  "walked h F cursor tail canonical names \<longleftrightarrow>
     (\<exists>base extra.
        path_comps cursor = base @ map Normal extra \<and> names = extra @ rev tail \<and>
        fs_canonicalize F (if extra = [] then cursor else path_of h base) = FsOk canonical \<and>
        (names \<noteq> [] \<longrightarrow> fs_symlink_metadata F (push_name h canonical (hd names)) = FsNotFound))"

lemma deepest_ancestor_walked:
  "deepest_ancestor h F n cursor tail = Inr (canonical, names) \<Longrightarrow>
     walked h F cursor tail canonical names"
proof (induction n arbitrary: cursor tail)
  case 0
  then show ?case by simp
next
  case (Suc n)
  show ?case
  proof (cases "fs_canonicalize F cursor")
    case (FsOk c)
    with Suc.prems have "c = canonical" "names = rev tail"
      "names \<noteq> [] \<longrightarrow> fs_symlink_metadata F (push_name h canonical (hd names)) = FsNotFound"
      by (auto simp: verify_still_missing_def split: list.splits fs_result.splits)
    with FsOk show ?thesis
      unfolding walked_def by (intro exI [of _ "path_comps cursor"] exI [of _ "[]"]) simp
  next
    case FsNotFound
    with Suc.prems obtain name up where name: "file_name cursor = Some name"
      and up: "parent h cursor = Some up"
      and rec: "deepest_ancestor h F n up (tail @ [name]) = Inr (canonical, names)"
      by (auto split: option.splits)
    from name obtain pre where pre: "path_comps cursor = pre @ [Normal name]"
      by (auto simp: file_name_Some)
    with up have "up = path_of h pre"
      by (simp add: parent_of_name)
    with Suc.IH [OF rec] obtain base extra where
      be: "pre = base @ map Normal extra" "names = extra @ name # rev tail"
      and canon: "fs_canonicalize F (if extra = [] then path_of h pre else path_of h base)
                    = FsOk canonical"
      and probe: "fs_symlink_metadata F (push_name h canonical (hd names)) = FsNotFound"
      by (auto simp: walked_def)
    have "path_comps cursor = base @ map Normal (extra @ [name])"
      and "names = (extra @ [name]) @ rev tail"
      using pre be by simp_all
    moreover have "fs_canonicalize F (path_of h base) = FsOk canonical"
      using canon be by (auto split: if_splits)
    ultimately show ?thesis
      using probe unfolding walked_def
      by (intro exI [of _ base] exI [of _ "extra @ [name]"]) simp
  next
    case FsOther
    with Suc.prems show ?thesis by simp
  qed
qed

text \<open>The turn bound is never what ends the walk: each turn removes a component.\<close>

lemma deepest_ancestor_enough:
  "length (path_comps cursor) < n \<Longrightarrow>
     deepest_ancestor h F n cursor tail \<noteq> Inl (PathDenied TooManyComponents)"
proof (induction n arbitrary: cursor tail)
  case 0
  then show ?case by simp
next
  case (Suc n)
  show ?case
  proof (cases "file_name cursor")
    case None
    then show ?thesis
      by (auto simp: verify_still_missing_def rbind_eq_Inl split: fs_result.splits list.splits)
  next
    case (Some name)
    then obtain pre where pre: "path_comps cursor = pre @ [Normal name]"
      by (auto simp: file_name_Some)
    with Suc.prems have "length (path_comps (path_of h pre)) < n"
      by simp
    from Suc.IH [OF this, of "tail @ [name]"] show ?thesis
      using Some parent_of_name [OF pre]
      by (auto simp: verify_still_missing_def rbind_eq_Inl split: fs_result.splits list.splits)
  qed
qed

lemma deepest_ancestor_Err:
  "deepest_ancestor h F n cursor tail = Inl d \<Longrightarrow> length (path_comps cursor) < n \<Longrightarrow>
     denied_reason d \<in> {UnresolvableAncestor, TraversalIntoMissingPath}"
proof (induction n arbitrary: cursor tail)
  case 0
  then show ?case by simp
next
  case (Suc n)
  show ?case
  proof (cases "file_name cursor")
    case None
    with Suc.prems show ?thesis
      by (auto simp: verify_still_missing_def rbind_eq_Inl
          split: fs_result.splits list.splits if_splits)
  next
    case (Some name)
    then obtain pre where pre: "path_comps cursor = pre @ [Normal name]"
      by (auto simp: file_name_Some)
    with Suc.prems have "length (path_comps (path_of h pre)) < n"
      by simp
    from Suc.IH [OF _ this, of "tail @ [name]"] show ?thesis
      using Some Suc.prems parent_of_name [OF pre, of h]
      by (auto simp: verify_still_missing_def rbind_eq_Inl
          split: fs_result.splits list.splits if_splits)
  qed
qed

section \<open>What the guard promises\<close>

lemma find_Inr: "ok_or (find P xs) e = Inr x \<Longrightarrow> x \<in> set xs \<and> P x"
  by (auto simp: find_Some_iff)

lemma guard_resolve_cases:
  assumes "guard_resolve h F g p = Inr r"
  obtains root ancestor tail where
    "root \<in> set (pg_roots g)" "rp_root r = root_canonical root"
    "is_within h (root_canonical root) (rp_path r)"
    "check_syntax h (pg_options g) p = Inr ()"
    "walked h F p [] ancestor tail"
    "path_comps (rp_path r) = path_comps ancestor @ map Normal tail"
    "rp_exists r = (tail = [])" "rp_expected r = None"
    "\<not> unc_refused g (rp_path r)" "\<not> unc_refused g p"
proof -
  from assms obtain ancestor tail root where syn: "check_syntax h (pg_options g) p = Inr ()"
    and walk: "canonicalise_deepest_ancestor h F p = Inr (ancestor, tail)"
    and root: "find (\<lambda>r. is_within h (root_canonical r) (foldl (push_name h) ancestor tail))
                 (pg_roots g) = Some root"
    and unc: "\<not> unc_refused g p" "\<not> unc_refused g (foldl (push_name h) ancestor tail)"
    and r: "r = \<lparr>rp_path = foldl (push_name h) ancestor tail, rp_root = root_canonical root,
                 rp_exists = (tail = []), rp_expected = None\<rparr>"
    by (auto simp: guard_resolve_def Let_def split: if_splits)
  have "root \<in> set (pg_roots g) \<and>
      is_within h (root_canonical root) (foldl (push_name h) ancestor tail)"
    using root by (auto simp: find_Some_iff)
  moreover have "walked h F p [] ancestor tail"
    using walk unfolding canonicalise_deepest_ancestor_def by (rule deepest_ancestor_walked)
  ultimately show thesis
    using syn unc by (intro that [of root ancestor tail]) (simp_all add: r)
qed

lemma guard_resolve_within:
  "guard_resolve h F g p = Inr r \<Longrightarrow>
     \<exists>root\<in>set (pg_roots g). rp_root r = root_canonical root \<and> is_within h (rp_root r) (rp_path r)"
  by (elim guard_resolve_cases) auto

lemma walk_ends:
  assumes "check_syntax h opts p = Inr ()"
  shows "canonicalise_deepest_ancestor h F p \<noteq> Inl (PathDenied TooManyComponents)"
    and "canonicalise_deepest_ancestor h F p = Inl d \<Longrightarrow>
      denied_reason d \<in> {UnresolvableAncestor, TraversalIntoMissingPath}"
proof -
  from assms have "length (path_comps p) < Suc (MAX_PATH_COMPONENTS + 2)"
    by (simp add: check_syntax_Ok)
  then show "canonicalise_deepest_ancestor h F p \<noteq> Inl (PathDenied TooManyComponents)"
    and "canonicalise_deepest_ancestor h F p = Inl d \<Longrightarrow>
      denied_reason d \<in> {UnresolvableAncestor, TraversalIntoMissingPath}"
    unfolding canonicalise_deepest_ancestor_def
    using deepest_ancestor_enough deepest_ancestor_Err by blast+
qed

lemma guard_resolve_wire_error:
  assumes "guard_resolve h F g p = Inl d"
  shows "denied_to_proto d =
     (if is_ok (check_syntax h (pg_options g) p) then err_not_found
      else err_bad_request ''invalid path'')"
proof (cases "check_syntax h (pg_options g) p")
  case (Inl e)
  with assms have "d = e" by (simp add: guard_resolve_def)
  with Inl show ?thesis
    using check_syntax_Err [OF Inl] by (simp add: denied_to_proto_def deny_to_proto_error_def)
next
  case (Inr u)
  with assms have "denied_reason d \<in> {NoRootsConfigured, UncNotConfigured, OutsideRoots,
      UnresolvableAncestor, TraversalIntoMissingPath}"
    using walk_ends(2) [of h "pg_options g" p F]
    by (auto simp: guard_resolve_def rbind_eq_Inl Let_def ok_or_def
        split: if_splits option.splits)
  with Inr show ?thesis
    by (auto simp: denied_to_proto_def deny_to_proto_error_def is_malformed_name_def)
qed

text \<open>
  Canonicalisation is documented to return an absolute path with no dots, every link resolved.
  The guard needs the part about dots, and only for the answers it was given.
\<close>

definition dotless :: "component list \<Rightarrow> bool" where
  "dotless cs \<longleftrightarrow> CurDir \<notin> set cs \<and> ParentDir \<notin> set cs"

definition canonical_results :: "fs \<Rightarrow> bool" where
  "canonical_results F \<longleftrightarrow> (\<forall>p c. fs_canonicalize F p = FsOk c \<longrightarrow> dotless (path_comps c))"

lemma dotless_names [simp]: "dotless (cs @ map Normal names) \<longleftrightarrow> dotless cs"
  by (auto simp: dotless_def)

text \<open>A file system of plain files and directories, given by the texts of their paths.\<close>

definition plain_fs :: "string list \<Rightarrow> fs" where
  "plain_fs paths =
     \<lparr>fs_canonicalize = (\<lambda>p. if path_comps p \<in> set (map unix_components paths)
                             then FsOk (path_of unix_host (path_comps p)) else FsNotFound),
      fs_symlink_metadata = (\<lambda>p. if path_comps p \<in> set (map unix_components paths)
                             then FsOk () else FsNotFound)\<rparr>"

lemma canonical_results_plain:
  "list_all (\<lambda>s. dotless (unix_components s)) paths \<Longrightarrow> canonical_results (plain_fs paths)"
  by (auto simp: canonical_results_def plain_fs_def list_all_iff split: if_splits)

definition unix_root :: "string \<Rightarrow> workspace_root" where
  "unix_root s = \<lparr>root_canonical = unix_path s, root_configured = unix_path s\<rparr>"

section \<open>Properties\<close>

text \<open>
  C1: a path the guard approves lies inside one of the configured roots, compared component by
  component: the root's components match the front of the approved path's, and off Windows they
  are literally a prefix of them.
\<close>

theorem guard_resolve_contained:
  assumes "guard_resolve h F g p = Inr r"
  shows "(\<exists>root\<in>set (pg_roots g). rp_root r = root_canonical root) \<and>
    (\<exists>front ext. path_comps (rp_path r) = front @ ext \<and>
       list_all2 (components_eq h) (path_comps (rp_root r)) front) \<and>
    (\<not> host_windows h \<and> unprefixed (path_comps (rp_root r)) \<longrightarrow>
       prefix (path_comps (rp_root r)) (path_comps (rp_path r)))"
proof -
  from guard_resolve_within [OF assms] obtain root where
    root: "root \<in> set (pg_roots g)" "rp_root r = root_canonical root"
    and within: "is_within h (rp_root r) (rp_path r)" by blast
  from within have "list_all2 (components_eq h) (path_comps (rp_root r))
      (take (length (path_comps (rp_root r))) (path_comps (rp_path r)))"
    by (simp add: is_within_def is_within_comps_iff)
  moreover have "\<not> host_windows h \<and> unprefixed (path_comps (rp_root r)) \<longrightarrow>
      prefix (path_comps (rp_root r)) (path_comps (rp_path r))"
    using within is_within_unix by blast
  ultimately show ?thesis
    using root by (metis append_take_drop_id)
qed

theorem guard_resolve_contained_witness:
  "(let r = \<lparr>rp_path = path_of unix_host (unix_components ''/p/new''), rp_root = unix_path ''/p'',
             rp_exists = False, rp_expected = None\<rparr>
    in prefix (path_comps (rp_root r)) (path_comps (rp_path r)))"
proof -
  have "guard_resolve unix_host (plain_fs [''/'', ''/p'', ''/p-evil'']) (guard_new [unix_root ''/p''])
      (unix_path ''/p/new'') =
    Inr \<lparr>rp_path = path_of unix_host (unix_components ''/p/new''), rp_root = unix_path ''/p'',
         rp_exists = False, rp_expected = None\<rparr>"
    by code_simp
  from guard_resolve_contained [OF this] show ?thesis
    by (simp add: unix_host_def unix_path_def unix_components_def unix_name_def Let_def)
qed

text \<open>
  No dot component survives into an approved path: it is the canonical form of an ancestor of
  the request followed by names that do not exist yet, and every such name has passed the name
  rules.  This is what makes a traversal through a missing directory impossible.
\<close>

theorem guard_resolve_no_traversal:
  assumes "canonical_results F" and "guard_resolve h F g p = Inr r"
  shows "dotless (path_comps (rp_path r)) \<and>
    (\<exists>ancestor canonical names.
       fs_canonicalize F ancestor = FsOk canonical \<and>
       path_comps (rp_path r) = path_comps canonical @ map Normal names \<and>
       (rp_exists r \<longleftrightarrow> names = []) \<and>
       list_all (\<lambda>n. comp_allowed (pg_options g) (Normal n)) names)"
proof -
  from assms(2) obtain canonical names where
    syn: "check_syntax h (pg_options g) p = Inr ()"
    and walk: "walked h F p [] canonical names"
    and comps: "path_comps (rp_path r) = path_comps canonical @ map Normal names"
    and ex: "rp_exists r = (names = [])"
    by (elim guard_resolve_cases)
  from walk obtain base ancestor where anc: "fs_canonicalize F ancestor = FsOk canonical"
    and split: "path_comps p = base @ map Normal names"
    by (auto simp: walked_def)
  have "list_all (\<lambda>n. comp_allowed (pg_options g) (Normal n)) names"
    using syn split by (auto simp: check_syntax_Ok list_all_iff)
  moreover have "dotless (path_comps canonical)"
    using assms(1) anc by (auto simp: canonical_results_def)
  ultimately show ?thesis
    using anc comps ex by auto
qed

theorem guard_resolve_no_traversal_witness:
  "canonical_results (plain_fs [''/'', ''/p'']) \<and>
   dotless (path_comps (path_of unix_host (unix_components ''/p/new'')))"
proof -
  have c: "canonical_results (plain_fs [''/'', ''/p''])"
    by (rule canonical_results_plain) code_simp
  have "guard_resolve unix_host (plain_fs [''/'', ''/p'']) (guard_new [unix_root ''/p''])
      (unix_path ''/p/new'') =
    Inr \<lparr>rp_path = path_of unix_host (unix_components ''/p/new''), rp_root = unix_path ''/p'',
         rp_exists = False, rp_expected = None\<rparr>"
    by code_simp
  from guard_resolve_no_traversal [OF c this] c show ?thesis by simp
qed

text \<open>
  C38: a refusal is no oracle for the file system.  Which of the two wire errors a client gets
  depends on its request and the options alone: two daemons that both refuse it, whatever their
  files and their roots are, answer alike, and what is refused for where it points is
  indistinguishable from a path that does not exist.
\<close>

theorem guard_refusal_no_oracle:
  assumes "guard_resolve h F g p = Inl d" and "guard_resolve h F' g' p = Inl d'"
    and "pg_options g = pg_options g'"
  shows "denied_to_proto d = denied_to_proto d' \<and>
    denied_to_proto d \<in> {err_not_found, err_bad_request ''invalid path''} \<and>
    (is_ok (check_syntax h (pg_options g) p) \<longrightarrow> denied_to_proto d = err_not_found)"
  using guard_resolve_wire_error [OF assms(1)] guard_resolve_wire_error [OF assms(2)] assms(3)
  by simp

theorem guard_refusal_no_oracle_witness:
  "denied_to_proto (PathDenied OutsideRoots) = denied_to_proto (PathDenied TraversalIntoMissingPath)"
proof -
  have outside: "guard_resolve unix_host (plain_fs [''/'', ''/q'', ''/etc'']) (guard_new [unix_root ''/p''])
      (unix_path ''/q/../etc'') = Inl (PathDenied TraversalIntoMissingPath)"
    by code_simp
  have missing: "guard_resolve unix_host
      \<lparr>fs_canonicalize = (\<lambda>_. FsOk (unix_path ''/etc'')), fs_symlink_metadata = (\<lambda>_. FsOk ())\<rparr>
      (guard_new [unix_root ''/p'']) (unix_path ''/q/../etc'') = Inl (PathDenied OutsideRoots)"
    by code_simp
  from guard_refusal_no_oracle [OF missing outside] show ?thesis
    by (simp add: guard_new_def guard_with_options_def)
qed

text \<open>
  C40: the bounded walk to the deepest existing ancestor always ends by itself: for a request that
  passed the syntax checks the turn limit is never the reason of a refusal, for any file system.
\<close>

theorem ancestor_walk_ends:
  assumes "check_syntax h opts p = Inr ()"
  shows "(\<exists>canonical names. canonicalise_deepest_ancestor h F p = Inr (canonical, names)) \<or>
    canonicalise_deepest_ancestor h F p = Inl (PathDenied UnresolvableAncestor) \<or>
    canonicalise_deepest_ancestor h F p = Inl (PathDenied TraversalIntoMissingPath)"
proof (cases "canonicalise_deepest_ancestor h F p")
  case (Inl d)
  with walk_ends(2) [OF assms, of F d] show ?thesis
    by (cases d) auto
next
  case (Inr cn)
  then show ?thesis by (cases cn) auto
qed

theorem ancestor_walk_ends_witness:
  "check_syntax unix_host guard_options_default (unix_path ''/a/b/c'') = Inr () \<and>
   canonicalise_deepest_ancestor unix_host (plain_fs []) (unix_path ''/a/b/c'')
     = Inl (PathDenied UnresolvableAncestor)"
proof -
  have c: "check_syntax unix_host guard_options_default (unix_path ''/a/b/c'') = Inr ()"
    by code_simp
  have "canonicalise_deepest_ancestor unix_host (plain_fs []) (unix_path ''/a/b/c'')
     = Inl (PathDenied UnresolvableAncestor)"
    by code_simp
  with c ancestor_walk_ends [OF c, of "plain_fs []"] show ?thesis by simp
qed

text \<open>
  What the syntax checks let through, in full.  A request passes exactly when it is UTF-8
  text without a null byte, at most 4096 bytes and 256 components long, absolute, not verbatim,
  and each of its names is text that the name rules allow.
\<close>

theorem check_syntax_accepts:
  "is_ok (check_syntax h opts p) \<longleftrightarrow>
     (\<exists>text. path_text p = Utf8 text \<and> CHR 0x00 \<notin> set text \<and> length text \<le> 4096) \<and>
     \<not> path_is_verbatim p \<and> is_absolute h p \<and> length (path_comps p) \<le> 256 \<and>
     (\<forall>part. Normal part \<in> set (path_comps p) \<longrightarrow>
        (\<exists>name. part = Utf8 name \<and>
           (windows_name_rules opts \<longrightarrow>
              CHR '':'' \<notin> set name \<and>
              (name = [] \<or> last name \<noteq> CHR ''.'' \<and> last name \<noteq> CHR '' '') \<and>
              \<not> is_reserved_device_name name)))"
proof -
  have "list_all (comp_allowed opts) cs \<longleftrightarrow>
      (\<forall>part. Normal part \<in> set cs \<longrightarrow> (\<exists>name. part = Utf8 name \<and> name_allowed opts name))" for cs
    by (auto simp: list_all_iff comp_allowed_def split: component.splits)
  then show ?thesis
    by (simp add: is_ok_iff check_syntax_Ok MAX_PATH_BYTES_def MAX_PATH_COMPONENTS_def
        name_allowed_def has_alternate_data_stream_def has_trailing_dot_or_space_def)
qed

theorem check_syntax_accepts_witness:
  "\<not> is_ok (check_syntax unix_host guard_options_default (unix_path ''/p/con.txt''))"
proof -
  have "Normal (Utf8 ''con.txt'') \<in> set (path_comps (unix_path ''/p/con.txt''))"
    and "is_reserved_device_name ''con.txt''"
    by code_simp+
  then show ?thesis
    unfolding check_syntax_accepts by (auto simp: guard_options_default_def)
qed

text \<open>
  A request expressed relative to a root cannot smuggle in an absolute path: one that has a
  root or a prefix of its own is refused as not relative before anything is joined or looked up,
  and any other is confined to the configured roots like every request.
\<close>

theorem resolve_in_root_confined:
  "(escapes_root h rel \<longrightarrow> resolve_in_root h F g root rel = Inl (PathDenied NotAbsolute)) \<and>
   (\<forall>r. resolve_in_root h F g root rel = Inr r \<longrightarrow>
      \<not> has_root (path_comps rel) \<and>
      (\<exists>root'\<in>set (pg_roots g). rp_root r = root_canonical root' \<and>
        is_within h (rp_root r) (rp_path r)))"
  by (auto simp: resolve_in_root_def escapes_root_def dest: guard_resolve_within)

theorem resolve_in_root_confined_witness:
  "resolve_in_root unix_host (plain_fs [''/p'']) (guard_new [unix_root ''/p'']) (unix_root ''/p'')
     (unix_path ''/etc/passwd'') = Inl (PathDenied NotAbsolute) \<and>
   \<not> has_root (path_comps (unix_path ''src''))"
proof -
  have "escapes_root unix_host (unix_path ''/etc/passwd'')"
    by code_simp
  moreover have "resolve_in_root unix_host (plain_fs [''/p'', ''/p/src'']) (guard_new [unix_root ''/p''])
      (unix_root ''/p'') (unix_path ''src'') =
    Inr \<lparr>rp_path = path_of unix_host (unix_components ''/p/src''), rp_root = unix_path ''/p'',
         rp_exists = True, rp_expected = None\<rparr>"
    by code_simp
  ultimately show ?thesis
    using resolve_in_root_confined by metis
qed

end
