(* ===== verification/Denylist.thy ===== *)
theory Denylist
  imports PathGuard
begin

text \<open>
  \<open>gonomad-policy/src/denylist.rs\<close>: the patterns that mark a path as a secret.  The crate
  \<open>globset\<close> is a parameter: which patterns it compiles (with the separator and case settings of
  \<open>compile\<close>), whether a set of compiled patterns builds, and which texts a pattern matches.  The
  code relies on one fact about it, that a set matches a text when one of its patterns does; the
  model has it built in, since the set is the list of its patterns.
\<close>

definition DEFAULT_PATTERNS :: "string list" where
  "DEFAULT_PATTERNS =
     [''**/.ssh'', ''**/.ssh/**'', ''**/id_rsa*'', ''**/id_ed25519*'',
      ''**/.aws'', ''**/.aws/**'', ''**/.kube/config'', ''**/.config/gcloud'',
      ''**/.config/gcloud/**'',
      ''**/.env*'', ''**/*.pem'', ''**/*.key'', ''**/*.p12'',
      ''**/.netrc'', ''**/.npmrc'', ''**/.pypirc'', ''**/.docker/config.json'',
      ''**/.git-credentials'',
      ''**/.gnupg'', ''**/.gnupg/**'',
      ''**/.claude'', ''**/.claude/**'', ''**/.cursor'', ''**/.cursor/**'']"

record globset =
  glob_compiles :: "string \<Rightarrow> bool"
  globset_builds :: "string list \<Rightarrow> bool"
  glob_matches :: "string \<Rightarrow> string \<Rightarrow> bool"

datatype invalid_pattern = InvalidPattern string

record denylist_config =
  cfg_extra :: "string list"
  cfg_remove_defaults :: "string list"

definition denylist_config_default :: denylist_config where
  "denylist_config_default = \<lparr>cfg_extra = [], cfg_remove_defaults = []\<rparr>"

text \<open>The two kinds of warning; their wording is not modelled.\<close>

datatype denylist_warning = DefaultDisabled string | NotADefault string

record secret_denylist =
  dl_set :: "string list"
  dl_patterns :: "string list"
  dl_warnings :: "denylist_warning list"

definition compile_pattern :: "globset \<Rightarrow> string \<Rightarrow> (invalid_pattern, string) result" where
  "compile_pattern G p = (if glob_compiles G p then Ok p else Err (InvalidPattern p))"

text \<open>The first loop of \<open>from_config\<close>: each default is kept, or dropped with a warning.\<close>

fun keep_defaults ::
  "string list \<Rightarrow> string list \<Rightarrow> string list \<times> denylist_warning list \<Rightarrow> string list \<times> denylist_warning list"
where
  "keep_defaults removed [] (patterns, warnings) = (patterns, warnings)"
| "keep_defaults removed (d # ds) (patterns, warnings) =
     (if list_ex (\<lambda>r. r = d) removed
      then keep_defaults removed ds (patterns, warnings @ [DefaultDisabled d])
      else keep_defaults removed ds (patterns @ [d], warnings))"

text \<open>The loop over \<open>remove_defaults\<close>: an entry that is no default is reported.\<close>

fun report_unknown :: "string list \<Rightarrow> denylist_warning list \<Rightarrow> denylist_warning list" where
  "report_unknown [] warnings = warnings"
| "report_unknown (r # rs) warnings =
     report_unknown rs
       (if r \<notin> set DEFAULT_PATTERNS then warnings @ [NotADefault r] else warnings)"

text \<open>The loop that feeds the builder stops at the first pattern that does not compile.\<close>

fun add_patterns :: "globset \<Rightarrow> string list \<Rightarrow> string list \<Rightarrow> (invalid_pattern, string list) result" where
  "add_patterns G [] builder = Ok builder"
| "add_patterns G (p # ps) builder =
     rbind (compile_pattern G p) (\<lambda>glob. add_patterns G ps (builder @ [glob]))"

definition denylist_from_config ::
  "globset \<Rightarrow> denylist_config \<Rightarrow> (invalid_pattern, secret_denylist) result" where
  "denylist_from_config G cfg =
     (let (kept, narrowed) = keep_defaults (cfg_remove_defaults cfg) DEFAULT_PATTERNS ([], []);
          warnings = report_unknown (cfg_remove_defaults cfg) narrowed;
          patterns = kept @ cfg_extra cfg
      in rbind (add_patterns G patterns []) (\<lambda>builder.
           if globset_builds G builder
           then Ok \<lparr>dl_set = builder, dl_patterns = patterns, dl_warnings = warnings\<rparr>
           else Err (InvalidPattern ''<denylist>'')))"

text \<open>\<open>with_defaults\<close> panics where this is an error.\<close>

definition denylist_with_defaults :: "globset \<Rightarrow> (invalid_pattern, secret_denylist) result" where
  "denylist_with_defaults G = denylist_from_config G denylist_config_default"

text \<open>\<open>normalise\<close>: the path's text with every backslash turned into a slash.\<close>

fun to_string_lossy :: "host \<Rightarrow> os_string \<Rightarrow> string" where
  "to_string_lossy h (Utf8 s) = s"
| "to_string_lossy h (NonUtf8 bs) = host_lossy h bs"

definition normalise :: "host \<Rightarrow> path \<Rightarrow> string" where
  "normalise h p =
     map (\<lambda>c. if c = CHR 0x5C then CHR ''/'' else c) (to_string_lossy h (path_text p))"

definition is_secret :: "globset \<Rightarrow> host \<Rightarrow> secret_denylist \<Rightarrow> path \<Rightarrow> bool" where
  "is_secret G h d p = list_ex (\<lambda>pat. glob_matches G pat (normalise h p)) (dl_set d)"

text \<open>\<open>GlobSet::matches\<close> gives the indices of the matching patterns, in order.\<close>

definition matched_pattern :: "globset \<Rightarrow> host \<Rightarrow> secret_denylist \<Rightarrow> path \<Rightarrow> string option" where
  "matched_pattern G h d p =
     (case filter (\<lambda>i. glob_matches G (dl_set d ! i) (normalise h p)) [0..<length (dl_set d)] of
        [] \<Rightarrow> None
      | i # _ \<Rightarrow> (if i < length (dl_patterns d) then Some (dl_patterns d ! i) else None))"

definition denylist_check ::
  "globset \<Rightarrow> host \<Rightarrow> secret_denylist \<Rightarrow> path \<Rightarrow> capability_set \<Rightarrow> (proto_error, unit) result" where
  "denylist_check G h d p caps =
     (if is_secret G h d p \<and> \<not> cs_contains caps FsSecrets then Err (err_denied FsSecrets)
      else Ok ())"

definition denylist_filter ::
  "globset \<Rightarrow> host \<Rightarrow> secret_denylist \<Rightarrow> capability_set \<Rightarrow> path list \<Rightarrow> path list" where
  "denylist_filter G h d caps entries =
     (if cs_contains caps FsSecrets then entries
      else filter (\<lambda>p. \<not> is_secret G h d p) entries)"

definition denylist_hidden_count ::
  "globset \<Rightarrow> host \<Rightarrow> secret_denylist \<Rightarrow> capability_set \<Rightarrow> path list \<Rightarrow> nat" where
  "denylist_hidden_count G h d caps entries =
     (if cs_contains caps FsSecrets then 0
      else length (filter (\<lambda>p. is_secret G h d p) entries))"

section \<open>Facts\<close>

lemma keep_defaults_eq:
  "keep_defaults removed ds (ps, ws) =
     (ps @ filter (\<lambda>d. d \<notin> set removed) ds,
      ws @ map DefaultDisabled (filter (\<lambda>d. d \<in> set removed) ds))"
  by (induction ds arbitrary: ps ws) (auto simp: list_ex_iff)

lemma report_unknown_eq:
  "report_unknown rs ws = ws @ map NotADefault (filter (\<lambda>r. r \<notin> set DEFAULT_PATTERNS) rs)"
  by (induction rs arbitrary: ws) auto

lemma add_patterns_Ok [simp]:
  "add_patterns G ps b = Inr out \<longleftrightarrow> list_all (glob_compiles G) ps \<and> out = b @ ps"
  by (induction ps arbitrary: b) (auto simp: compile_pattern_def)

lemma add_patterns_Err:
  "add_patterns G ps b = Inl (InvalidPattern p) \<Longrightarrow>
     \<exists>front rest. ps = front @ p # rest \<and> list_all (glob_compiles G) front \<and> \<not> glob_compiles G p"
proof (induction ps arbitrary: b)
  case Nil
  then show ?case by simp
next
  case (Cons q qs)
  show ?case
  proof (cases "glob_compiles G q")
    case True
    with Cons.prems have "add_patterns G qs (b @ [q]) = Inl (InvalidPattern p)"
      by (simp add: compile_pattern_def)
    from Cons.IH [OF this] obtain front rest where "qs = front @ p # rest"
      "list_all (glob_compiles G) front" "\<not> glob_compiles G p" by blast
    with True show ?thesis
      by (intro exI [of _ "q # front"] exI [of _ rest]) simp
  next
    case False
    with Cons.prems show ?thesis
      by (intro exI [of _ "[]"] exI [of _ qs]) (auto simp: compile_pattern_def)
  qed
qed

definition config_patterns :: "denylist_config \<Rightarrow> string list" where
  "config_patterns cfg =
     filter (\<lambda>p. p \<notin> set (cfg_remove_defaults cfg)) DEFAULT_PATTERNS @ cfg_extra cfg"

definition config_warnings :: "denylist_config \<Rightarrow> denylist_warning list" where
  "config_warnings cfg =
     map DefaultDisabled (filter (\<lambda>p. p \<in> set (cfg_remove_defaults cfg)) DEFAULT_PATTERNS)
     @ map NotADefault (filter (\<lambda>r. r \<notin> set DEFAULT_PATTERNS) (cfg_remove_defaults cfg))"

lemma denylist_from_config_alt:
  "denylist_from_config G cfg =
     rbind (add_patterns G (config_patterns cfg) []) (\<lambda>builder.
       if globset_builds G builder
       then Ok \<lparr>dl_set = builder, dl_patterns = config_patterns cfg, dl_warnings = config_warnings cfg\<rparr>
       else Err (InvalidPattern ''<denylist>''))"
  unfolding denylist_from_config_def keep_defaults_eq report_unknown_eq config_patterns_def
    config_warnings_def Let_def by simp

lemma denylist_from_config_Ok:
  "denylist_from_config G cfg = Inr d \<longleftrightarrow>
     list_all (glob_compiles G) (config_patterns cfg) \<and> globset_builds G (config_patterns cfg) \<and>
     d = \<lparr>dl_set = config_patterns cfg, dl_patterns = config_patterns cfg,
          dl_warnings = config_warnings cfg\<rparr>"
  by (auto simp: denylist_from_config_alt)

lemma is_secret_iff:
  "is_secret G h d p \<longleftrightarrow> (\<exists>pat\<in>set (dl_set d). glob_matches G pat (normalise h p))"
  by (simp add: is_secret_def list_ex_iff)

lemma denylist_filter_subseq: "subseq (denylist_filter G h d caps entries) entries"
  by (simp add: denylist_filter_def)

lemma denylist_filter_set:
  "set (denylist_filter G h d caps entries) =
     {p \<in> set entries. cs_contains caps FsSecrets \<or> \<not> is_secret G h d p}"
  by (auto simp: denylist_filter_def)

text \<open>
  A globset for examples: every non-empty pattern compiles, and a text matches a pattern when it
  contains the pattern's first stretch without a wildcard.
\<close>

definition contains_globset :: globset where
  "contains_globset =
     \<lparr>glob_compiles = (\<lambda>p. p \<noteq> []), globset_builds = (\<lambda>_. True),
      glob_matches = (\<lambda>p t.
        list_ex (prefix (takeWhile (\<lambda>c. c \<noteq> CHR ''*'')
                          (dropWhile (\<lambda>c. c = CHR ''*'' \<or> c = CHR ''/'') p)))
          (suffixes t))\<rparr>"

section \<open>Properties\<close>

text \<open>
  Configuring the denylist can widen it silently but never narrow it silently.  Every path
  the default patterns gate stays gated under any configuration that loads, unless a default
  pattern matching it was switched off, and then the warning naming that pattern is raised.
\<close>

theorem denylist_narrowing_warned:
  assumes "denylist_from_config G cfg = Inr d" and "denylist_with_defaults G = Inr d0"
    and "is_secret G h d0 p"
  shows "is_secret G h d p \<or>
    (\<exists>pat\<in>set DEFAULT_PATTERNS. glob_matches G pat (normalise h p) \<and>
       DefaultDisabled pat \<in> set (dl_warnings d))"
proof -
  from assms(2) have "dl_set d0 = DEFAULT_PATTERNS"
    by (auto simp: denylist_with_defaults_def denylist_from_config_Ok config_patterns_def
        denylist_config_default_def)
  with assms(3) obtain pat where pat: "pat \<in> set DEFAULT_PATTERNS"
    "glob_matches G pat (normalise h p)"
    by (auto simp: is_secret_iff)
  show ?thesis
  proof (cases "pat \<in> set (cfg_remove_defaults cfg)")
    case True
    with assms(1) pat have "DefaultDisabled pat \<in> set (dl_warnings d)"
      by (auto simp: denylist_from_config_Ok config_warnings_def)
    with pat show ?thesis by blast
  next
    case False
    with assms(1) pat have "pat \<in> set (dl_set d)"
      by (auto simp: denylist_from_config_Ok config_patterns_def)
    with pat show ?thesis
      by (auto simp: is_secret_iff)
  qed
qed

theorem denylist_narrowing_warned_witness:
  "(let cfg = \<lparr>cfg_extra = [''**/*.crt''], cfg_remove_defaults = [''**/*.pem'']\<rparr>;
        d = \<lparr>dl_set = config_patterns cfg, dl_patterns = config_patterns cfg,
             dl_warnings = config_warnings cfg\<rparr>
    in \<not> is_secret contains_globset unix_host d (unix_path ''/p/a.pem'') \<and>
       DefaultDisabled ''**/*.pem'' \<in> set (dl_warnings d))"
proof -
  let ?cfg = "\<lparr>cfg_extra = [''**/*.crt''], cfg_remove_defaults = [''**/*.pem'']\<rparr>"
  let ?d = "\<lparr>dl_set = config_patterns ?cfg, dl_patterns = config_patterns ?cfg,
             dl_warnings = config_warnings ?cfg\<rparr>"
  let ?dflt = "\<lparr>dl_set = DEFAULT_PATTERNS, dl_patterns = DEFAULT_PATTERNS, dl_warnings = []\<rparr>"
  have "list_all (glob_compiles contains_globset) (config_patterns ?cfg)"
    and "globset_builds contains_globset (config_patterns ?cfg)"
    by code_simp+
  then have d: "denylist_from_config contains_globset ?cfg = Inr ?d"
    by (simp add: denylist_from_config_Ok)
  have d0: "denylist_with_defaults contains_globset = Inr ?dflt"
    by code_simp
  have s0: "is_secret contains_globset unix_host ?dflt (unix_path ''/p/a.pem'')"
    by code_simp
  have "\<not> is_secret contains_globset unix_host ?d (unix_path ''/p/a.pem'')"
    and "DefaultDisabled ''**/*.pem'' \<in> set (dl_warnings ?d)"
    by code_simp+
  with denylist_narrowing_warned [OF d d0 s0] show ?thesis
    unfolding Let_def by blast
qed

text \<open>
  A configuration error is fatal and names the culprit: nothing is returned unless every
  pattern compiles, and the reported pattern is the first that does not (or the set as a whole).
\<close>

theorem denylist_config_error:
  assumes "denylist_from_config G cfg = Inl (InvalidPattern p)"
  shows "(\<exists>front rest. config_patterns cfg = front @ p # rest \<and>
            list_all (glob_compiles G) front \<and> \<not> glob_compiles G p) \<or>
    (p = ''<denylist>'' \<and> list_all (glob_compiles G) (config_patterns cfg) \<and>
       \<not> globset_builds G (config_patterns cfg))"
proof (cases "add_patterns G (config_patterns cfg) []")
  case (Inl e)
  with assms have "add_patterns G (config_patterns cfg) [] = Inl (InvalidPattern p)"
    by (simp add: denylist_from_config_alt)
  from add_patterns_Err [OF this] show ?thesis by blast
next
  case (Inr b)
  then have ok: "list_all (glob_compiles G) (config_patterns cfg)" "b = config_patterns cfg"
    by simp_all
  from assms Inr have "\<not> globset_builds G b" "p = ''<denylist>''"
    by (simp_all add: denylist_from_config_alt split: if_splits)
  with ok show ?thesis by simp
qed

theorem denylist_config_error_witness:
  "denylist_from_config contains_globset \<lparr>cfg_extra = [''a'', [], ''b''], cfg_remove_defaults = []\<rparr>
     = Inl (InvalidPattern []) \<and>
   \<not> glob_compiles contains_globset []"
proof -
  have e: "denylist_from_config contains_globset
      \<lparr>cfg_extra = [''a'', [], ''b''], cfg_remove_defaults = []\<rparr> = Inl (InvalidPattern [])"
    by code_simp
  from denylist_config_error [OF e] e show ?thesis by auto
qed

text \<open>
  Filtering a listing hides exactly the secrets from a device without \<open>fs:secrets\<close> and nothing
  from one with it, keeps the order, and the count shown to the user is the number removed.
\<close>

theorem denylist_filter_exact:
  "subseq (denylist_filter G h d caps entries) entries \<and>
   set (denylist_filter G h d caps entries) =
     {p \<in> set entries. FsSecrets \<in> caps_of caps \<or> \<not> is_secret G h d p} \<and>
   length (denylist_filter G h d caps entries) + denylist_hidden_count G h d caps entries
     = length entries"
  using sum_length_filter_compl [of "is_secret G h d" entries]
  by (auto simp: denylist_filter_subseq denylist_filter_set cs_contains_caps_of
      denylist_hidden_count_def denylist_filter_def)

theorem denylist_filter_exact_witness:
  "(let d = \<lparr>dl_set = DEFAULT_PATTERNS, dl_patterns = DEFAULT_PATTERNS, dl_warnings = []\<rparr>;
        entries = [unix_path ''/p/a.rs'', unix_path ''/p/a.pem'']
    in denylist_filter contains_globset unix_host d cs_EMPTY entries = [unix_path ''/p/a.rs''] \<and>
       length (denylist_filter contains_globset unix_host d cs_EMPTY entries) +
         denylist_hidden_count contains_globset unix_host d cs_EMPTY entries = 2)"
proof -
  let ?d = "\<lparr>dl_set = DEFAULT_PATTERNS, dl_patterns = DEFAULT_PATTERNS, dl_warnings = []\<rparr>"
  let ?entries = "[unix_path ''/p/a.rs'', unix_path ''/p/a.pem'']"
  have "denylist_filter contains_globset unix_host ?d cs_EMPTY ?entries = [unix_path ''/p/a.rs'']"
    by code_simp
  with denylist_filter_exact [of contains_globset unix_host ?d cs_EMPTY ?entries] show ?thesis
    unfolding Let_def by simp
qed

end
