(* ===== verification/Engine.thy ===== *)
theory Engine
  imports Denylist
begin

text \<open>
  \<open>gonomad-policy/src/engine.rs\<close>: the device grant, the presence challenge, and the composed
  decision.  The guard and the denylist are those of their own theories; the hash, the host, the
  file system and the pattern crate stay parameters.  The policy engine keeps no state: every
  decision is a function of the grant that was loaded for this one request.
\<close>

section \<open>Grants\<close>

record device_grant =
  grant_device :: device_id
  grant_capabilities :: capability_set
  grant_revoked :: bool

definition grant_new :: "device_id \<Rightarrow> capability_set \<Rightarrow> device_grant" where
  "grant_new dev caps =
     \<lparr>grant_device = dev, grant_capabilities = caps, grant_revoked = False\<rparr>"

definition newly_paired :: "device_id \<Rightarrow> device_grant" where
  "newly_paired dev = grant_new dev cs_default_grant"

definition grant_revoke :: "device_grant \<Rightarrow> device_grant" where
  "grant_revoke g = g\<lparr>grant_revoked := True\<rparr>"

definition effective_capabilities :: "device_grant \<Rightarrow> capability_set" where
  "effective_capabilities g = (if grant_revoked g then cs_EMPTY else grant_capabilities g)"

section \<open>Presence\<close>

datatype presence = Absent | Signed digest

definition PRESENCE_DOMAIN :: bytes where
  "PRESENCE_DOMAIN = as_bytes ''gonomad/presence/v1'' @ [0]"

definition challenge_parts :: "device_id \<Rightarrow> string \<Rightarrow> digest \<Rightarrow> bytes list" where
  "challenge_parts dev method args =
     [PRESENCE_DOMAIN, device_bytes dev, nat_le 4 (clamp_to u32_max (length method)),
      as_bytes method, digest_bytes args]"

definition operation_challenge :: "hash_fn \<Rightarrow> device_id \<Rightarrow> string \<Rightarrow> digest \<Rightarrow> digest" where
  "operation_challenge hash dev method args =
     digest_of_parts hash (challenge_parts dev method args)"

definition check_grant :: "device_grant option \<Rightarrow> capability \<Rightarrow> (proto_error, unit) result" where
  "check_grant grant required =
     (case grant of
        Some g \<Rightarrow> (if cs_contains (effective_capabilities g) required then Ok ()
                   else Err (err_denied required))
      | None \<Rightarrow> Err (err_denied required))"

definition check_presence ::
  "capability \<Rightarrow> digest \<Rightarrow> presence \<Rightarrow> (proto_error, unit) result" where
  "check_presence required expected pres =
     (if \<not> capability_requires_presence required then Ok ()
      else (case pres of
              Signed d \<Rightarrow> (if d = expected then Ok () else Err (err_presence_required expected))
            | Absent \<Rightarrow> Err (err_presence_required expected)))"

section \<open>The engine\<close>

record path_request =
  req_grant :: "device_grant option"
  req_capability :: capability
  req_path :: path
  req_method :: string
  req_args :: digest
  req_presence :: presence

record policy_engine =
  pe_guard :: path_guard
  pe_denylist :: secret_denylist

definition policy_engine_new :: "path_guard \<Rightarrow> secret_denylist \<Rightarrow> policy_engine" where
  "policy_engine_new g d = \<lparr>pe_guard = g, pe_denylist = d\<rparr>"

definition request_challenge :: "hash_fn \<Rightarrow> path_request \<Rightarrow> digest" where
  "request_challenge hash req =
     (case req_grant req of
        None \<Rightarrow> operation_challenge hash (DeviceId (replicate ID_LEN 0)) (req_method req) (req_args req)
      | Some g \<Rightarrow> operation_challenge hash (grant_device g) (req_method req) (req_args req))"

definition authorize_path ::
  "hash_fn \<Rightarrow> host \<Rightarrow> fs \<Rightarrow> globset \<Rightarrow> policy_engine \<Rightarrow> path_request \<Rightarrow>
     (proto_error, resolved_path) result" where
  "authorize_path hash h F G e req =
     (let challenge = request_challenge hash req in
      rbind (check_grant (req_grant req) (req_capability req)) (\<lambda>_.
      rbind (check_presence (req_capability req) challenge (req_presence req)) (\<lambda>_.
      rbind (map_err denied_to_proto (guard_resolve h F (pe_guard e) (req_path req))) (\<lambda>resolved.
      rbind (if is_secret G h (pe_denylist e) (rp_path resolved)
             then rbind (check_grant (req_grant req) FsSecrets) (\<lambda>_.
                    check_presence FsSecrets challenge (req_presence req))
             else Ok ()) (\<lambda>_.
        Ok resolved)))))"

definition listing_capabilities :: "device_grant option \<Rightarrow> capability_set" where
  "listing_capabilities grant =
     (case grant of None \<Rightarrow> cs_EMPTY | Some g \<Rightarrow> effective_capabilities g)"

definition filter_listing ::
  "host \<Rightarrow> globset \<Rightarrow> policy_engine \<Rightarrow> device_grant option \<Rightarrow> path list \<Rightarrow> path list" where
  "filter_listing h G e grant entries =
     (let capabilities = listing_capabilities grant;
          within_roots = filter (\<lambda>entry.
            list_ex (\<lambda>root. is_within h (root_canonical root) entry) (pg_roots (pe_guard e))) entries
      in denylist_filter G h (pe_denylist e) capabilities within_roots)"

definition hidden_count ::
  "host \<Rightarrow> globset \<Rightarrow> policy_engine \<Rightarrow> device_grant option \<Rightarrow> path list \<Rightarrow> nat" where
  "hidden_count h G e grant entries =
     denylist_hidden_count G h (pe_denylist e) (listing_capabilities grant) entries"

section \<open>The checks\<close>

text \<open>What a device may do right now: nothing for an unknown or a revoked one.\<close>

definition may :: "device_grant option \<Rightarrow> capability \<Rightarrow> bool" where
  "may grant c \<longleftrightarrow> (\<exists>g. grant = Some g \<and> \<not> grant_revoked g \<and> c \<in> caps_of (grant_capabilities g))"

lemma may_iff: "may grant c \<longleftrightarrow> c \<in> caps_of (listing_capabilities grant)"
  by (cases grant) (auto simp: may_def listing_capabilities_def effective_capabilities_def)

lemma check_grant_alt:
  "check_grant grant c = (if may grant c then Ok () else Err (err_denied c))"
  by (cases grant)
    (auto simp: check_grant_def may_def effective_capabilities_def cs_contains_caps_of)

lemma check_presence_alt:
  "check_presence c d pres =
     (if capability_requires_presence c \<longrightarrow> pres = Signed d then Ok ()
      else Err (err_presence_required d))"
  by (cases pres) (auto simp: check_presence_def)

text \<open>The challenge determines the operation, up to collisions of the hash.\<close>

definition challenge_preimage :: "device_id \<Rightarrow> string \<Rightarrow> digest \<Rightarrow> bytes" where
  "challenge_preimage dev method args = concat (challenge_parts dev method args)"

lemma operation_challenge_preimage:
  "operation_challenge hash dev method args = digest_of hash (challenge_preimage dev method args)"
  by (simp add: operation_challenge_def digest_of_parts_eq challenge_preimage_def)

lemma challenge_preimage_inj:
  assumes eq: "challenge_preimage dev method args = challenge_preimage dev' method' args'"
    and wf: "id_wf (device_bytes dev)" "id_wf (device_bytes dev')"
    and small: "length method \<le> u32_max" "length method' \<le> u32_max"
  shows "dev = dev' \<and> method = method' \<and> args = args'"
proof -
  let ?n = "nat_le 4 (length method)" and ?n' = "nat_le 4 (length method')"
  have "device_bytes dev @ ?n @ as_bytes method @ digest_bytes args =
      device_bytes dev' @ ?n' @ as_bytes method' @ digest_bytes args'"
    using eq small by (simp add: challenge_preimage_def challenge_parts_def clamp_to_exact)
  then have dev: "device_bytes dev = device_bytes dev'"
    and rest: "?n @ as_bytes method @ digest_bytes args = ?n' @ as_bytes method' @ digest_bytes args'"
    using wf by (simp_all add: id_wf_def)
  from rest have "?n = ?n'" and body: "as_bytes method @ digest_bytes args =
      as_bytes method' @ digest_bytes args'"
    by simp_all
  then have "nat_be 4 (length method) = nat_be 4 (length method')"
    by (simp add: nat_le_def)
  then have "length method = length method'"
    using small by (intro nat_be_inj [of _ 4]) (simp_all add: u32_max_def)
  with body have "as_bytes method = as_bytes method'" "digest_bytes args = digest_bytes args'"
    by simp_all
  with dev show ?thesis
    by (simp add: as_bytes_inj device_id.expand digest.expand)
qed

section \<open>What the engine needs of a path authority\<close>

text \<open>
  The engine relies on one promise of whatever resolves its paths: an answer is within bounds.
  A pipeline that runs some checks, resolves, and runs a last check on the answer hands out
  nothing else, whatever its checks are.
\<close>

locale path_authority =
  fixes resolve :: "'p \<Rightarrow> ('e, 'r) result"
    and permitted :: "'r \<Rightarrow> bool"
  assumes resolve_permitted: "resolve p = Inr r \<Longrightarrow> permitted r"
begin

lemma pipeline_permitted:
  "rbind before (\<lambda>_. rbind (map_err f (resolve p)) (\<lambda>r. rbind (after r) (\<lambda>_. Ok r))) = Inr r
     \<Longrightarrow> before = Inr () \<and> resolve p = Inr r \<and> after r = Inr () \<and> permitted r"
  by (auto dest: resolve_permitted)

end

definition in_some_root :: "host \<Rightarrow> path_guard \<Rightarrow> path \<Rightarrow> bool" where
  "in_some_root h g p \<longleftrightarrow> (\<exists>root\<in>set (pg_roots g). is_within h (root_canonical root) p)"

lemma guard_resolve_in_root:
  "guard_resolve h F g p = Inr r \<Longrightarrow> in_some_root h g (rp_path r)"
  by (elim guard_resolve_cases) (auto simp: in_some_root_def)

interpretation guarded: path_authority "guard_resolve h F g" "\<lambda>r. in_some_root h g (rp_path r)"
  for h F g
  by unfold_locales (rule guard_resolve_in_root)

interpretation guarded_existing: path_authority "resolve_existing h F g"
  "\<lambda>r. in_some_root h g (rp_path r) \<and> rp_exists r" for h F g
  by unfold_locales
    (auto simp: resolve_existing_def dest: guarded.resolve_permitted split: if_splits)

section \<open>The decision\<close>

text \<open>The capability and the presence checks that precede every look at the file system.\<close>

definition preflight :: "hash_fn \<Rightarrow> path_request \<Rightarrow> (proto_error, unit) result" where
  "preflight hash req =
     rbind (check_grant (req_grant req) (req_capability req)) (\<lambda>_.
       check_presence (req_capability req) (request_challenge hash req) (req_presence req))"

definition secret_gate ::
  "hash_fn \<Rightarrow> host \<Rightarrow> globset \<Rightarrow> policy_engine \<Rightarrow> path_request \<Rightarrow> resolved_path \<Rightarrow>
     (proto_error, unit) result" where
  "secret_gate hash h G e req r =
     (if is_secret G h (pe_denylist e) (rp_path r)
      then rbind (check_grant (req_grant req) FsSecrets) (\<lambda>_.
             check_presence FsSecrets (request_challenge hash req) (req_presence req))
      else Ok ())"

lemma rbind_assoc: "rbind (rbind r f) g = rbind r (\<lambda>x. rbind (f x) g)"
  by (cases r) simp_all

lemma authorize_path_pipeline:
  "authorize_path hash h F G e req =
     rbind (preflight hash req) (\<lambda>_.
       rbind (map_err denied_to_proto (guard_resolve h F (pe_guard e) (req_path req))) (\<lambda>r.
         rbind (secret_gate hash h G e req r) (\<lambda>_. Ok r)))"
  by (simp add: authorize_path_def preflight_def secret_gate_def Let_def rbind_assoc)

lemma preflight_alt:
  "preflight hash req =
     (if \<not> may (req_grant req) (req_capability req) then Err (err_denied (req_capability req))
      else if capability_requires_presence (req_capability req) \<and>
              req_presence req \<noteq> Signed (request_challenge hash req)
      then Err (err_presence_required (request_challenge hash req))
      else Ok ())"
  by (simp add: preflight_def check_grant_alt check_presence_alt)

lemma secret_gate_Ok:
  "secret_gate hash h G e req r = Inr () \<longleftrightarrow>
     (is_secret G h (pe_denylist e) (rp_path r) \<longrightarrow>
        may (req_grant req) FsSecrets \<and> req_presence req = Signed (request_challenge hash req))"
  by (simp add: secret_gate_def check_grant_alt check_presence_alt)

lemma authorize_path_Ok:
  "authorize_path hash h F G e req = Inr r \<longleftrightarrow>
     preflight hash req = Inr () \<and> guard_resolve h F (pe_guard e) (req_path req) = Inr r \<and>
     secret_gate hash h G e req r = Inr ()"
  by (auto simp: authorize_path_pipeline)

lemma filter_listing_set:
  "set (filter_listing h G e grant entries) =
     {p \<in> set entries. in_some_root h (pe_guard e) p \<and>
        (may grant FsSecrets \<or> \<not> is_secret G h (pe_denylist e) p)}"
  by (auto simp: filter_listing_def Let_def denylist_filter_set in_some_root_def list_ex_iff
      may_iff cs_contains_caps_of)

section \<open>Properties\<close>

text \<open>
  C2: the composed decision, in full.  A request is authorised exactly when its live grant has the
  capability it needs, a presence signature over this very operation accompanies it if that
  capability is presence gated, the guard resolves the path, and, where the resolved path is a
  secret, the grant also has \<open>fs:secrets\<close> and the signature is there; the answer is the guard's.
\<close>

theorem authorize_path_exact:
  "authorize_path hash h F G e req = Inr r \<longleftrightarrow>
     may (req_grant req) (req_capability req) \<and>
     (capability_requires_presence (req_capability req) \<longrightarrow>
        req_presence req = Signed (request_challenge hash req)) \<and>
     guard_resolve h F (pe_guard e) (req_path req) = Inr r \<and>
     in_some_root h (pe_guard e) (rp_path r) \<and>
     (is_secret G h (pe_denylist e) (rp_path r) \<longrightarrow>
        may (req_grant req) FsSecrets \<and> req_presence req = Signed (request_challenge hash req))"
proof -
  have "authorize_path hash h F G e req = Inr r \<Longrightarrow> in_some_root h (pe_guard e) (rp_path r)"
    using guarded.pipeline_permitted unfolding authorize_path_pipeline by blast
  then show ?thesis
    by (auto simp: authorize_path_Ok preflight_alt secret_gate_Ok)
qed

text \<open>A request of a freshly paired device for a file of the examples' project root.\<close>

definition sample_engine :: policy_engine where
  "sample_engine = policy_engine_new (guard_new [unix_root ''/p''])
     \<lparr>dl_set = DEFAULT_PATTERNS, dl_patterns = DEFAULT_PATTERNS, dl_warnings = []\<rparr>"

definition sample_device :: device_id where
  "sample_device = DeviceId (replicate 32 1)"

definition sample_request :: "string \<Rightarrow> presence \<Rightarrow> path_request" where
  "sample_request p pres =
     \<lparr>req_grant = Some (grant_new sample_device cs_all), req_capability = FsRead,
      req_path = unix_path p, req_method = ''fs.read'', req_args = Digest (replicate 32 2),
      req_presence = pres\<rparr>"

definition sample_fs :: fs where
  "sample_fs = plain_fs [''/'', ''/p'', ''/p/a.pem'', ''/p/main.rs'', ''/etc'']"

definition sample_answer :: "string \<Rightarrow> resolved_path" where
  "sample_answer p =
     \<lparr>rp_path = path_of unix_host (unix_components p), rp_root = unix_path ''/p'',
      rp_exists = True, rp_expected = None\<rparr>"

lemma sample_resolve:
  "guard_resolve unix_host sample_fs (pe_guard sample_engine) (unix_path ''/p/a.pem'') =
     Inr (sample_answer ''/p/a.pem'')"
  "guard_resolve unix_host sample_fs (pe_guard sample_engine) (unix_path ''/p/main.rs'') =
     Inr (sample_answer ''/p/main.rs'')"
  by code_simp+

lemma sample_secret:
  "is_secret contains_globset unix_host (pe_denylist sample_engine)
     (rp_path (sample_answer ''/p/a.pem''))"
  "\<not> is_secret contains_globset unix_host (pe_denylist sample_engine)
     (rp_path (sample_answer ''/p/main.rs''))"
  by code_simp+

lemma sample_may: "may (req_grant (sample_request p pres)) c"
  by (simp add: sample_request_def may_def grant_new_def cs_all_def)

lemma sample_request_sel [simp]:
  "req_capability (sample_request p pres) = FsRead"
  "req_path (sample_request p pres) = unix_path p"
  "req_presence (sample_request p pres) = pres"
  by (simp_all add: sample_request_def)

lemma sample_allowed:
  "authorize_path id unix_host sample_fs contains_globset sample_engine
     (sample_request ''/p/main.rs'' pres) = Inr (sample_answer ''/p/main.rs'')"
  by (simp add: authorize_path_Ok preflight_alt secret_gate_Ok sample_resolve sample_secret
      sample_may)

lemma sample_allowed_secret:
  "authorize_path id unix_host sample_fs contains_globset sample_engine
     (sample_request ''/p/a.pem''
        (Signed (operation_challenge id sample_device ''fs.read'' (Digest (replicate 32 2)))))
   = Inr (sample_answer ''/p/a.pem'')"
  unfolding authorize_path_Ok preflight_alt secret_gate_Ok sample_request_sel sample_resolve
  by (simp add: sample_may)
    (simp add: request_challenge_def sample_request_def grant_new_def)

theorem authorize_path_exact_witness:
  "(\<forall>r. authorize_path id unix_host sample_fs contains_globset sample_engine
          (sample_request ''/p/a.pem'' Absent) \<noteq> Inr r) \<and>
   is_ok (authorize_path id unix_host sample_fs contains_globset sample_engine
          (sample_request ''/p/main.rs'' Absent))"
proof -
  have "authorize_path id unix_host sample_fs contains_globset sample_engine
      (sample_request ''/p/a.pem'' Absent) \<noteq> Inr r" for r
    unfolding authorize_path_exact by (auto simp: sample_resolve sample_secret)
  then show ?thesis
    by (simp add: sample_allowed)
qed

text \<open>
  C26: a device without the capability, or without the signature its capability needs, learns
  nothing about the file system: its refusal is the same whatever the files, the roots and the
  denylist are, and it names only the capability or the challenge.
\<close>

theorem unauthorised_learns_nothing:
  assumes "\<not> may (req_grant req) (req_capability req) \<or>
    capability_requires_presence (req_capability req) \<and>
    req_presence req \<noteq> Signed (request_challenge hash req)"
  shows "authorize_path hash h F G e req = authorize_path hash h' F' G' e' req \<and>
    authorize_path hash h F G e req \<in>
      {Inl (err_denied (req_capability req)), Inl (err_presence_required (request_challenge hash req))}"
  using assms unfolding authorize_path_pipeline preflight_alt by auto

theorem unauthorised_learns_nothing_witness:
  "(let req = (sample_request ''/etc/passwd'' Absent)\<lparr>req_grant := None\<rparr>
    in authorize_path id unix_host sample_fs contains_globset sample_engine req =
       authorize_path id unix_host (plain_fs []) contains_globset sample_engine req)"
proof -
  have "\<not> may (req_grant ((sample_request ''/etc/passwd'' Absent)\<lparr>req_grant := None\<rparr>)) c" for c
    by (simp add: may_def)
  then show ?thesis
    unfolding Let_def by (intro unauthorised_learns_nothing [THEN conjunct1] disjI1)
qed

text \<open>
  Revocation takes effect on the very next request.  With the revoked flag set, every path
  request is denied naming the capability asked for and a listing hides every secret, exactly as
  for a device the daemon has never seen, whatever capabilities the grant still lists.
\<close>

theorem revocation_is_immediate:
  assumes "req_grant req = Some (grant_revoke g)"
  shows "authorize_path hash h F G e req = Inl (err_denied (req_capability req)) \<and>
    authorize_path hash h F G e req = authorize_path hash h F G e (req\<lparr>req_grant := None\<rparr>) \<and>
    filter_listing h G e (Some (grant_revoke g)) entries = filter_listing h G e None entries"
  using assms
  by (auto simp: authorize_path_pipeline preflight_alt may_def grant_revoke_def
      filter_listing_def listing_capabilities_def effective_capabilities_def)

theorem revocation_is_immediate_witness:
  "authorize_path id unix_host sample_fs contains_globset sample_engine
     ((sample_request ''/p/main.rs'' Absent)
        \<lparr>req_grant := Some (grant_revoke (grant_new sample_device cs_all))\<rparr>)
   = Inl (err_denied FsRead)"
  using revocation_is_immediate
    [of "(sample_request ''/p/main.rs'' Absent)
           \<lparr>req_grant := Some (grant_revoke (grant_new sample_device cs_all))\<rparr>"
        "grant_new sample_device cs_all" id unix_host sample_fs contains_globset sample_engine "[]"]
  by (simp add: sample_request_def)

text \<open>
  C37: a presence signature is good for one operation.  If the signature harvested for one device,
  method and argument digest gets a gated request through, then that request is for the same
  device, the same method and the same arguments, unless the hash collides on these two inputs.
\<close>

theorem presence_not_transferable:
  assumes "authorize_path hash h F G e req = Inr r"
    and "req_presence req = Signed (operation_challenge hash dev method args)"
    and "req_grant req = Some g"
    and "capability_requires_presence (req_capability req) \<or>
      is_secret G h (pe_denylist e) (rp_path r)"
    and "id_wf (device_bytes dev)" "id_wf (device_bytes (grant_device g))"
    and "length method \<le> u32_max" "length (req_method req) \<le> u32_max"
    and "inj_on hash {challenge_preimage dev method args,
           challenge_preimage (grant_device g) (req_method req) (req_args req)}"
  shows "grant_device g = dev \<and> req_method req = method \<and> req_args req = args"
proof -
  from assms(1,4) have "req_presence req = Signed (request_challenge hash req)"
    by (auto simp: authorize_path_Ok preflight_alt secret_gate_Ok split: if_splits)
  with assms(2,3) have "operation_challenge hash dev method args =
      operation_challenge hash (grant_device g) (req_method req) (req_args req)"
    by (simp add: request_challenge_def)
  then have "challenge_preimage dev method args =
      challenge_preimage (grant_device g) (req_method req) (req_args req)"
    using digest_of_eq [OF assms(9)] by (simp add: operation_challenge_preimage)
  from challenge_preimage_inj [OF this assms(5,6,7,8)] show ?thesis by simp
qed

theorem presence_not_transferable_witness:
  "is_ok (authorize_path id unix_host sample_fs contains_globset sample_engine
     (sample_request ''/p/a.pem''
        (Signed (operation_challenge id sample_device ''fs.read'' (Digest (replicate 32 2))))))"
proof -
  have "grant_device (grant_new sample_device cs_all) = sample_device \<and>
      ''fs.read'' = ''fs.read'' \<and> Digest (replicate 32 2) = Digest (replicate 32 2)"
    using presence_not_transferable [OF sample_allowed_secret, of sample_device "''fs.read''"
        "Digest (replicate 32 2)" "grant_new sample_device cs_all"]
    by (simp add: sample_secret) (simp add: sample_request_def sample_device_def grant_new_def
        id_wf_def ID_LEN_def u32_max_def)
  then show ?thesis
    by (simp add: sample_allowed_secret)
qed

text \<open>
  A filtered listing keeps the order of the entries and holds exactly those that are lexically
  inside some root and, for a device that may not read secrets, match no secret pattern.
\<close>

theorem filter_listing_exact:
  "subseq (filter_listing h G e grant entries) entries \<and>
   set (filter_listing h G e grant entries) =
     {p \<in> set entries. in_some_root h (pe_guard e) p \<and>
        (may grant FsSecrets \<or> \<not> is_secret G h (pe_denylist e) p)}"
proof
  show "subseq (filter_listing h G e grant entries) entries"
    unfolding filter_listing_def Let_def
    by (rule subseq_order.trans [OF denylist_filter_subseq]) simp
qed (rule filter_listing_set)

theorem filter_listing_exact_witness:
  "filter_listing unix_host contains_globset sample_engine None
     [unix_path ''/p/a.rs'', unix_path ''/etc/passwd''] = [unix_path ''/p/a.rs''] \<and>
   subseq [unix_path ''/p/a.rs''] [unix_path ''/p/a.rs'', unix_path ''/etc/passwd'']"
proof -
  have eq: "filter_listing unix_host contains_globset sample_engine None
     [unix_path ''/p/a.rs'', unix_path ''/etc/passwd''] = [unix_path ''/p/a.rs'']"
    by code_simp
  with filter_listing_exact [of unix_host contains_globset sample_engine None
      "[unix_path ''/p/a.rs'', unix_path ''/etc/passwd'']"] show ?thesis
    by simp
qed

text \<open>
  The containment test of a listing is lexical: it looks at the entries as they are given.  An
  entry that climbs out of the root with a parent component stays in the listing, although the
  guard refuses to resolve it.
\<close>

lemma filter_listing_is_lexical:
  "filter_listing unix_host contains_globset sample_engine None [unix_path ''/p/../etc'']
     = [unix_path ''/p/../etc''] \<and>
   \<not> is_ok (guard_resolve unix_host
       \<lparr>fs_canonicalize = (\<lambda>_. FsOk (unix_path ''/etc'')), fs_symlink_metadata = (\<lambda>_. FsOk ())\<rparr>
       (pe_guard sample_engine) (unix_path ''/p/../etc''))"
  by code_simp

text \<open>
  The count of hidden entries is the denylist's alone: an entry that the listing drops for being
  outside every root is not counted.
\<close>

lemma hidden_count_misses_outside:
  "filter_listing unix_host contains_globset sample_engine None [unix_path ''/etc/hosts''] = [] \<and>
   hidden_count unix_host contains_globset sample_engine None [unix_path ''/etc/hosts''] = 0"
  by code_simp

end
