(* ===== verification/FsService.thy ===== *)
theory FsService
  imports Engine Text "HOL-Library.List_Lexorder" "HOL-Library.Product_Lexorder"
begin

text \<open>
  \<open>gonomad-server/src/fs_service.rs\<close>: directory listings and file reads behind the policy engine.

  A record holds what the service is given from outside: the hash, the host and its path parser, the
  file system the guard resolves against, the pattern crate, and the four calls of \<open>std::fs\<close> the
  service itself makes, each with its failures.
\<close>

record file_meta =
  md_len :: nat
  md_modified :: "int option"

datatype link_type = LinkSymlink | LinkDir | LinkOther

record server_env =
  se_hash :: hash_fn
  se_host :: host
  se_fs :: fs
  se_globs :: globset
  se_parse :: "string \<Rightarrow> path"
  se_read_dir :: "path \<Rightarrow> path option list option"
  se_link :: "path \<Rightarrow> link_type option"
  se_metadata :: "path \<Rightarrow> file_meta option"
  se_read :: "path \<Rightarrow> bytes option"

definition MAX_READ_BYTES :: nat where "MAX_READ_BYTES = 512 * 1024"

datatype entry_kind = EkFile | EkDirectory | EkSymlink

record dir_entry =
  de_name :: string
  de_kind :: entry_kind
  de_size :: "nat option"
  de_modified :: "int option"
  de_hidden :: bool

record file_content =
  fc_path :: string
  fc_text :: string
  fc_hash :: digest
  fc_truncated :: bool

section \<open>Names and times\<close>

datatype ordering = Less | Equal | Greater

definition compare :: "'a::linorder \<Rightarrow> 'a \<Rightarrow> ordering" where
  "compare a b = (if a < b then Less else if a = b then Equal else Greater)"

fun then_with :: "ordering \<Rightarrow> ordering \<Rightarrow> ordering" where
  "then_with Equal o2 = o2"
| "then_with o1 o2 = o1"

definition cmp_names :: "host \<Rightarrow> string \<Rightarrow> string \<Rightarrow> ordering" where
  "cmp_names h a b =
     then_with (compare (as_bytes (host_lower h a)) (as_bytes (host_lower h b)))
       (compare (as_bytes a) (as_bytes b))"

definition is_hidden :: "string \<Rightarrow> bool" where
  "is_hidden name \<longleftrightarrow> prefix ''.'' name"

text \<open>A modification time in nanoseconds since the epoch, negative before it.\<close>

definition modified_ms :: "file_meta \<Rightarrow> int option" where
  "modified_ms m =
     (case md_modified m of
        None \<Rightarrow> None
      | Some t \<Rightarrow>
          (if t < 0 then None
           else let ms = t div 1000000 in if ms < 2 ^ 63 then Some ms else None))"

text \<open>The comparator of the listing, and the sort by it: \<open>sort_by\<close> is stable.\<close>

definition entry_cmp :: "host \<Rightarrow> dir_entry \<Rightarrow> dir_entry \<Rightarrow> ordering" where
  "entry_cmp h a b =
     (case (de_kind a, de_kind b) of
        (EkDirectory, EkDirectory) \<Rightarrow> cmp_names h (de_name a) (de_name b)
      | (EkDirectory, _) \<Rightarrow> Less
      | (_, EkDirectory) \<Rightarrow> Greater
      | _ \<Rightarrow> cmp_names h (de_name a) (de_name b))"

definition entry_key :: "host \<Rightarrow> dir_entry \<Rightarrow> bool \<times> bytes \<times> bytes" where
  "entry_key h e =
     (de_kind e \<noteq> EkDirectory, as_bytes (host_lower h (de_name e)), as_bytes (de_name e))"

definition sort_entries :: "host \<Rightarrow> dir_entry list \<Rightarrow> dir_entry list" where
  "sort_entries h es = sort_key (entry_key h) es"

lemma cmp_names_key:
  "cmp_names h a b = compare (as_bytes (host_lower h a), as_bytes a) (as_bytes (host_lower h b), as_bytes b)"
  by (auto simp: cmp_names_def compare_def less_prod_def)

lemma entry_cmp_key: "entry_cmp h a b = compare (entry_key h a) (entry_key h b)"
  by (cases "de_kind a"; cases "de_kind b")
    (auto simp: entry_cmp_def entry_key_def cmp_names_key compare_def less_prod_def)

section \<open>The service\<close>

text \<open>The policy checks every public method goes through.\<close>

definition fs_request :: "server_env \<Rightarrow> device_grant option \<Rightarrow> capability \<Rightarrow> string \<Rightarrow> string \<Rightarrow> path_request" where
  "fs_request env grant c method requested =
     \<lparr>req_grant = grant, req_capability = c, req_path = se_parse env requested, req_method = method,
      req_args = digest_of (se_hash env) (as_bytes requested), req_presence = Absent\<rparr>"

definition fs_authorize ::
  "server_env \<Rightarrow> policy_engine \<Rightarrow> device_grant option \<Rightarrow> capability \<Rightarrow> string \<Rightarrow> string \<Rightarrow>
     (proto_error, resolved_path) result" where
  "fs_authorize env e grant c method requested =
     (if CHR 0x00 \<in> set requested then Err (err_bad_request ''path contains a null byte'')
      else authorize_path (se_hash env) (se_host env) (se_fs env) (se_globs env) e
             (fs_request env grant c method requested))"

definition entry_of_path :: "server_env \<Rightarrow> path \<Rightarrow> dir_entry option" where
  "entry_of_path env p =
     (case file_name p of
        None \<Rightarrow> None
      | Some n \<Rightarrow>
          (case se_link env p of
             None \<Rightarrow> None
           | Some link \<Rightarrow>
               (let name = to_string_lossy (se_host env) n;
                    kind = (case link of LinkSymlink \<Rightarrow> EkSymlink | LinkDir \<Rightarrow> EkDirectory
                            | LinkOther \<Rightarrow> EkFile);
                    meta = se_metadata env p
                in Some \<lparr>de_name = name, de_kind = kind,
                     de_size = (case kind of EkFile \<Rightarrow> map_option md_len meta | _ \<Rightarrow> None),
                     de_modified = Option.bind meta modified_ms, de_hidden = is_hidden name\<rparr>)))"

definition fs_list ::
  "server_env \<Rightarrow> policy_engine \<Rightarrow> device_grant option \<Rightarrow> string \<Rightarrow> (proto_error, dir_entry list) result" where
  "fs_list env e grant requested =
     rbind (fs_authorize env e grant FsRead ''fs.list'' requested) (\<lambda>resolved.
     rbind (ok_or (se_read_dir env (rp_path resolved)) err_not_found) (\<lambda>listed.
       let candidates = List.map_filter id listed;
           visible = filter_listing (se_host env) (se_globs env) e grant candidates
       in Ok (sort_entries (se_host env) (List.map_filter (entry_of_path env) visible))))"

definition fs_read ::
  "server_env \<Rightarrow> policy_engine \<Rightarrow> device_grant option \<Rightarrow> string \<Rightarrow> (proto_error, file_content) result" where
  "fs_read env e grant requested =
     rbind (fs_authorize env e grant FsRead ''fs.read'' requested) (\<lambda>resolved.
     rbind (ok_or (se_read env (rp_path resolved)) err_not_found) (\<lambda>bs.
       let truncated = length bs > MAX_READ_BYTES;
           slice = (if truncated then take MAX_READ_BYTES bs else bs)
       in rbind (ok_or (from_utf8 slice) (err_bad_request ''file is not valid UTF-8 text'')) (\<lambda>txt.
          Ok \<lparr>fc_path = requested, fc_text = txt, fc_hash = digest_of (se_hash env) slice,
             fc_truncated = truncated\<rparr>)))"

definition authorize_dir ::
  "server_env \<Rightarrow> policy_engine \<Rightarrow> device_grant option \<Rightarrow> string \<Rightarrow> (proto_error, string) result" where
  "authorize_dir env e grant requested =
     rbind (fs_authorize env e grant PtySpawn ''pty.spawn'' requested) (\<lambda>resolved.
       Ok (to_string_lossy (se_host env) (path_text (rp_path resolved))))"

section \<open>Facts\<close>

lemma fs_authorize_Ok:
  "fs_authorize env e grant c m requested = Inr r \<longleftrightarrow>
     CHR 0x00 \<notin> set requested \<and> may grant c \<and> \<not> capability_requires_presence c \<and>
     guard_resolve (se_host env) (se_fs env) (pe_guard e) (se_parse env requested) = Inr r \<and>
     in_some_root (se_host env) (pe_guard e) (rp_path r) \<and>
     \<not> is_secret (se_globs env) (se_host env) (pe_denylist e) (rp_path r)"
proof -
  have "authorize_path (se_hash env) (se_host env) (se_fs env) (se_globs env) e
      (fs_request env grant c m requested) = Inr r \<longleftrightarrow>
    may grant c \<and> \<not> capability_requires_presence c \<and>
     guard_resolve (se_host env) (se_fs env) (pe_guard e) (se_parse env requested) = Inr r \<and>
     in_some_root (se_host env) (pe_guard e) (rp_path r) \<and>
     \<not> is_secret (se_globs env) (se_host env) (pe_denylist e) (rp_path r)"
    unfolding authorize_path_Ok preflight_alt secret_gate_Ok fs_request_def
    by (auto dest: guard_resolve_in_root)
  then show ?thesis by (simp add: fs_authorize_def)
qed

lemma map_filter_set: "y \<in> set (List.map_filter f xs) \<longleftrightarrow> (\<exists>x \<in> set xs. f x = Some y)"
  by (force simp: List.map_filter_def)

lemma from_utf8_Some: "from_utf8 bs = Some s \<longleftrightarrow> valid_utf8 bs \<and> as_bytes s = bs"
  by (auto simp: from_utf8_def)

lemma sort_entries_set [simp]: "set (sort_entries h es) = set es"
  by (simp add: sort_entries_def)

section \<open>Properties\<close>

definition sample_env :: "bytes \<Rightarrow> server_env" where
  "sample_env contents =
     \<lparr>se_hash = id, se_host = unix_host, se_fs = sample_fs, se_globs = contains_globset,
      se_parse = unix_path,
      se_read_dir = (\<lambda>p. Some [Some (unix_path ''/p/main.rs''), None, Some (unix_path ''/p/a.pem'')]),
      se_link = (\<lambda>p. Some LinkOther),
      se_metadata = (\<lambda>p. Some \<lparr>md_len = length contents, md_modified = None\<rparr>),
      se_read = (\<lambda>p. Some contents)\<rparr>"

lemma sample_env_sel [simp]:
  "se_hash (sample_env bs) = id" "se_host (sample_env bs) = unix_host" "se_fs (sample_env bs) = sample_fs"
  "se_globs (sample_env bs) = contains_globset" "se_parse (sample_env bs) = unix_path"
  "se_read (sample_env bs) p = Some bs"
  "se_read_dir (sample_env bs) p = Some [Some (unix_path ''/p/main.rs''), None, Some (unix_path ''/p/a.pem'')]"
  by (simp_all add: sample_env_def)

definition sample_grant :: "device_grant option" where
  "sample_grant = Some (newly_paired sample_device)"

lemma sample_grant_may: "may sample_grant c \<longleftrightarrow> c \<in> caps_of cs_default_grant"
  by (simp add: sample_grant_def may_def newly_paired_def grant_new_def)

lemma sample_authorized:
  "fs_authorize (sample_env bs) sample_engine sample_grant FsRead m ''/p/main.rs'' =
     Inr (sample_answer ''/p/main.rs'')"
proof -
  have "in_some_root unix_host (pe_guard sample_engine) (rp_path (sample_answer ''/p/main.rs''))"
    by (rule guard_resolve_in_root [OF sample_resolve(2)])
  moreover have "FsRead \<in> caps_of cs_default_grant"
    by (simp add: cs_default_grant_def DEFAULT_GRANT_def)
  ultimately show ?thesis
    unfolding fs_authorize_Ok by (simp add: sample_grant_may sample_resolve sample_secret)
qed

text \<open>
  C32: reading a file discloses nothing it should not.  A read that succeeds is by a device that may
  read, of a path the guard resolved inside a root and that is no secret, whatever the grant holds;
  the text is the file's first 512 KiB, the hash is that of exactly these bytes, and the flag says
  whether there was more.
\<close>

theorem fs_read_confined:
  assumes "fs_read env e grant requested = Inr c"
  shows "may grant FsRead \<and> (\<exists>r bs.
     guard_resolve (se_host env) (se_fs env) (pe_guard e) (se_parse env requested) = Inr r \<and>
     in_some_root (se_host env) (pe_guard e) (rp_path r) \<and>
     \<not> is_secret (se_globs env) (se_host env) (pe_denylist e) (rp_path r) \<and>
     se_read env (rp_path r) = Some bs \<and> as_bytes (fc_text c) = take MAX_READ_BYTES bs \<and>
     fc_hash c = digest_of (se_hash env) (as_bytes (fc_text c)) \<and>
     fc_truncated c = (length bs > MAX_READ_BYTES))"
  using assms
  by (auto simp: fs_read_def fs_authorize_Ok Let_def from_utf8_Some split: if_splits)

theorem fs_read_confined_witness:
  "\<exists>c. fs_read (sample_env (as_bytes ''fn main'')) sample_engine sample_grant ''/p/main.rs'' = Inr c \<and>
     fc_text c = ''fn main'' \<and> \<not> fc_truncated c"
proof -
  have "valid_utf8 (as_bytes ''fn main'')" by code_simp
  then obtain c where c: "fs_read (sample_env (as_bytes ''fn main'')) sample_engine sample_grant ''/p/main.rs''
      = Inr c"
    by (auto simp: fs_read_def sample_authorized Let_def MAX_READ_BYTES_def)
  from fs_read_confined [OF this] have "as_bytes (fc_text c) = as_bytes ''fn main''" "\<not> fc_truncated c"
    by (auto simp: MAX_READ_BYTES_def)
  with c show ?thesis by (auto simp: as_bytes_inj)
qed

text \<open>
  A listing shows exactly the entries it should, in order.  An entry is listed exactly when the
  directory has it, it is lexically inside a root, it is no secret unless the device may read
  secrets, and it can be described; directories come first and names are in case-insensitive order.
\<close>

theorem fs_list_exact:
  assumes "fs_list env e grant requested = Inr es"
  shows "\<exists>r listed. fs_authorize env e grant FsRead ''fs.list'' requested = Inr r \<and>
     se_read_dir env (rp_path r) = Some listed \<and>
     sorted_wrt (\<lambda>a b. entry_cmp (se_host env) a b \<noteq> Greater) es \<and>
     (\<forall>entry. entry \<in> set es \<longleftrightarrow> (\<exists>p. Some p \<in> set listed \<and> in_some_root (se_host env) (pe_guard e) p \<and>
        (may grant FsSecrets \<or> \<not> is_secret (se_globs env) (se_host env) (pe_denylist e) p) \<and>
        entry_of_path env p = Some entry))"
proof -
  from assms obtain r listed where r: "fs_authorize env e grant FsRead ''fs.list'' requested = Inr r"
    "se_read_dir env (rp_path r) = Some listed"
    and es: "es = sort_entries (se_host env) (List.map_filter (entry_of_path env)
      (filter_listing (se_host env) (se_globs env) e grant (List.map_filter id listed)))"
    by (auto simp: fs_list_def Let_def)
  have "sorted_wrt (\<lambda>a b. entry_cmp (se_host env) a b \<noteq> Greater) es"
  proof (rule sorted_wrt_mono_rel)
    show "sorted_wrt (\<lambda>a b. entry_key (se_host env) a \<le> entry_key (se_host env) b) es"
      using sorted_sort_key [of "entry_key (se_host env)"] by (simp add: es sort_entries_def sorted_map)
  qed (auto simp: entry_cmp_key compare_def)
  moreover have "entry \<in> set es \<longleftrightarrow> (\<exists>p. Some p \<in> set listed \<and> in_some_root (se_host env) (pe_guard e) p \<and>
        (may grant FsSecrets \<or> \<not> is_secret (se_globs env) (se_host env) (pe_denylist e) p) \<and>
        entry_of_path env p = Some entry)" for entry
    by (auto simp: es map_filter_set filter_listing_set)
  ultimately show ?thesis
    using r by blast
qed

theorem fs_list_exact_witness:
  "\<exists>es. fs_list (sample_env []) sample_engine sample_grant ''/p/main.rs'' = Inr es \<and>
     (\<forall>entry \<in> set es. de_name entry = ''main.rs'')"
proof -
  obtain es where es: "fs_list (sample_env []) sample_engine sample_grant ''/p/main.rs'' = Inr es"
    by (auto simp: fs_list_def sample_authorized Let_def)
  have no: "\<not> may sample_grant FsSecrets"
    by (simp add: sample_grant_may cs_default_grant_def DEFAULT_GRANT_def)
  have secret: "is_secret contains_globset unix_host (pe_denylist sample_engine) (unix_path ''/p/a.pem'')"
    by code_simp
  have "de_name entry = ''main.rs''" if "entry_of_path (sample_env []) (unix_path ''/p/main.rs'') = Some entry"
    for entry
  proof -
    have "file_name (unix_path ''/p/main.rs'') = Some (Utf8 ''main.rs'')" by code_simp
    with that show ?thesis by (auto simp: entry_of_path_def sample_env_def Let_def)
  qed
  with fs_list_exact [OF es] no secret show ?thesis
    by (intro exI [of _ es] conjI es) auto
qed

text \<open>
  The cut at 512 KiB ignores characters.  A longer file whose cut falls inside a character is
  refused as not being UTF-8 text, although the whole file is.
\<close>

theorem fs_read_cut_refused:
  assumes "fs_authorize env e grant FsRead ''fs.read'' requested = Inr r"
    and "se_read env (rp_path r) = Some bs" "length bs > MAX_READ_BYTES" "valid_utf8 bs"
    and "\<not> valid_utf8 (take MAX_READ_BYTES bs)"
  shows "fs_read env e grant requested = Inl (err_bad_request ''file is not valid UTF-8 text'')"
  using assms by (simp add: fs_read_def from_utf8_def)

theorem fs_read_cut_refused_witness:
  "fs_read (sample_env (replicate (MAX_READ_BYTES - 1) 97 @ [0xC3, 0xA9])) sample_engine sample_grant
     ''/p/main.rs'' = Inl (err_bad_request ''file is not valid UTF-8 text'') \<and>
   valid_utf8 (replicate (MAX_READ_BYTES - 1) 97 @ [0xC3, 0xA9])"
proof -
  let ?pad = "replicate (MAX_READ_BYTES - 1) (97 :: byte)"
  have max: "MAX_READ_BYTES = Suc (MAX_READ_BYTES - 1)"
    by (simp add: MAX_READ_BYTES_def)
  have pad: "list_all (\<lambda>b. b < 0x80) ?pad"
    by (simp add: list_all_iff)
  have "valid_utf8 [0xC3, 0xA9]" by code_simp
  then have whole: "valid_utf8 (?pad @ [0xC3, 0xA9])"
    unfolding valid_utf8_ascii_append [OF pad] .
  have "take MAX_READ_BYTES (?pad @ [0xC3, 0xA9]) = ?pad @ [0xC3]"
    by (subst (1) max) simp
  moreover have "\<not> valid_utf8 [0xC3]" by code_simp
  ultimately have cut: "\<not> valid_utf8 (take MAX_READ_BYTES (?pad @ [0xC3, 0xA9]))"
    using valid_utf8_ascii_append [OF pad, of "[0xC3]"] by presburger
  have "length (?pad @ [0xC3, 0xA9]) > MAX_READ_BYTES"
    by (subst max) simp
  from fs_read_cut_refused [OF sample_authorized _ this whole cut] whole show ?thesis
    by simp
qed

end
