(* ===== verification/Terminals.thy ===== *)
theory Terminals
  imports Text PathGuard "HOL-Library.Multiset"
begin

text \<open>
  \<open>gonomad-pty/src/session.rs\<close> and \<open>shell.rs\<close>: the terminals the daemon owns, and the shells it finds.

  The VT emulator (the crate \<open>vt100\<close>) is a parameter, a record of the operations used on its state
  \<open>'v\<close>.  The operating system's answers are arguments: whether starting a shell on a new
  pseudo-terminal succeeds, whether a write or a resize does.  What the two threads of a session do
  on their own, feeding output to the emulator and noticing the exit, are operations as well.  The next
  identifier is a natural number: its 64 bits in the code do not run out.
\<close>

section \<open>Shells\<close>

record shell =
  sh_id :: string
  sh_display :: string
  sh_program :: path
  sh_args :: "string list"
  sh_foreign :: bool

definition shell_new :: "string \<Rightarrow> string \<Rightarrow> path \<Rightarrow> string list \<Rightarrow> shell" where
  "shell_new i display program args =
     \<lparr>sh_id = i, sh_display = display, sh_program = program, sh_args = args, sh_foreign = False\<rparr>"

text \<open>\<open>which\<close> answers on Windows, \<open>exists\<close> and the value of \<open>SHELL\<close> on Unix.\<close>

definition detect_windows :: "(string \<Rightarrow> path option) \<Rightarrow> shell list" where
  "detect_windows which =
     (case which ''pwsh.exe'' of None \<Rightarrow> [] | Some p \<Rightarrow> [shell_new ''pwsh'' ''PowerShell 7'' p [''-NoLogo'']]) @
     (case which ''powershell.exe'' of None \<Rightarrow> []
       | Some p \<Rightarrow> [shell_new ''powershell'' ''Windows PowerShell'' p [''-NoLogo'']]) @
     (case which ''wsl.exe'' of None \<Rightarrow> []
       | Some p \<Rightarrow> [(shell_new ''wsl'' ''WSL'' p [''--cd'', ''~''])\<lparr>sh_foreign := True\<rparr>]) @
     (case which ''cmd.exe'' of None \<Rightarrow> [] | Some p \<Rightarrow> [shell_new ''cmd'' ''Command Prompt'' p []])"

definition unix_candidates :: "(string \<times> string) list" where
  "unix_candidates = [(''zsh'', ''/bin/zsh''), (''bash'', ''/bin/bash''), (''sh'', ''/bin/sh'')]"

definition login_shell :: "(path \<Rightarrow> bool) \<Rightarrow> path option \<Rightarrow> shell list" where
  "login_shell exists env =
     (case env of
        None \<Rightarrow> []
      | Some sh \<Rightarrow>
          (if exists sh
           then let name = (case Option.bind (file_name sh) to_str of None \<Rightarrow> ''shell'' | Some n \<Rightarrow> n)
                in [shell_new name name sh [''-l'']]
           else []))"

fun add_candidates :: "(path \<Rightarrow> bool) \<Rightarrow> (string \<times> string) list \<Rightarrow> shell list \<Rightarrow> shell list" where
  "add_candidates exists [] found = found"
| "add_candidates exists ((i, candidate) # cs) found =
     (let p = unix_path candidate in
      if exists p \<and> \<not> list_ex (\<lambda>s. path_comps (sh_program s) = path_comps p) found
      then add_candidates exists cs (found @ [shell_new i i p [''-l'']])
      else add_candidates exists cs found)"

definition detect_unix :: "(path \<Rightarrow> bool) \<Rightarrow> path option \<Rightarrow> shell list" where
  "detect_unix exists env = add_candidates exists unix_candidates (login_shell exists env)"

text \<open>What the two lookups make of the list of detected shells.\<close>

definition default_shell :: "shell list \<Rightarrow> shell option" where
  "default_shell detected = (case detected of [] \<Rightarrow> None | s # _ \<Rightarrow> Some s)"

definition by_id :: "shell list \<Rightarrow> string \<Rightarrow> shell option" where
  "by_id detected i = find (\<lambda>s. sh_id s = i) detected"

section \<open>Sessions\<close>

type_synonym pty_id = nat

definition DEFAULT_COLS :: nat where "DEFAULT_COLS = 80"
definition DEFAULT_ROWS :: nat where "DEFAULT_ROWS = 24"
definition SCROLLBACK_LINES :: nat where "SCROLLBACK_LINES = 10000"

datatype pty_error =
    PtyNotFound
  | SpawnFailed string string
  | NoShell
  | Closed
  | TooManyTerminals nat

text \<open>The emulator: rows first, as in the crate.\<close>

record 'v emulator =
  em_new :: "nat \<Rightarrow> nat \<Rightarrow> nat \<Rightarrow> 'v"
  em_process :: "bytes \<Rightarrow> 'v \<Rightarrow> 'v"
  em_set_size :: "nat \<Rightarrow> nat \<Rightarrow> 'v \<Rightarrow> 'v"
  em_cursor :: "'v \<Rightarrow> nat \<times> nat"
  em_contents_between :: "'v \<Rightarrow> nat \<Rightarrow> nat \<Rightarrow> nat \<Rightarrow> nat \<Rightarrow> string"

record 'v pty_session =
  ps_shell_id :: string
  ps_parser :: 'v
  ps_exited :: bool
  ps_cols :: nat
  ps_rows :: nat

record screen_snapshot =
  sc_pty_id :: pty_id
  sc_rows :: "string list"
  sc_cursor_row :: nat
  sc_cursor_col :: nat
  sc_cols :: nat
  sc_exited :: bool

definition screen_text :: "screen_snapshot \<Rightarrow> string" where
  "screen_text s = join [CHR 0x0A] (sc_rows s)"

text \<open>
  The manager.  Its hash map is a list of bindings, the oldest first; the order is used only where
  the code's result is in the unspecified order of the map.
\<close>

record 'v pty_manager =
  pm_sessions :: "(pty_id \<times> 'v pty_session) list"
  pm_next_id :: pty_id
  pm_max :: nat

definition pty_with_limit :: "nat \<Rightarrow> 'v pty_manager" where
  "pty_with_limit n = \<lparr>pm_sessions = [], pm_next_id = 1, pm_max = n\<rparr>"

definition pty_new :: "'v pty_manager" where
  "pty_new = pty_with_limit 16"

definition session_at :: "'v pty_manager \<Rightarrow> pty_id \<Rightarrow> 'v pty_session option" where
  "session_at m i = map_of (pm_sessions m) i"

text \<open>\<open>get_mut\<close> and the writes through the reference it returns.\<close>

definition set_session :: "pty_id \<Rightarrow> 'v pty_session \<Rightarrow> 'v pty_manager \<Rightarrow> 'v pty_manager" where
  "set_session i s m =
     m\<lparr>pm_sessions := map (\<lambda>(j, t). if j = i then (j, s) else (j, t)) (pm_sessions m)\<rparr>"

text \<open>
  \<open>start\<close> is the answer of the operating system to everything from \<open>openpty\<close> to starting the two
  threads: the detail of the first call that failed, if one did.
\<close>

definition pty_spawn ::
  "'v emulator \<Rightarrow> shell list \<Rightarrow> (shell \<Rightarrow> string option \<Rightarrow> nat \<Rightarrow> nat \<Rightarrow> string option) \<Rightarrow>
     'v pty_manager \<Rightarrow> shell option \<Rightarrow> string option \<Rightarrow> nat \<Rightarrow> nat \<Rightarrow>
     (pty_error, 'v pty_manager \<times> pty_id) result" where
  "pty_spawn E detected start m sh cwd cols rows =
     (if length (pm_sessions m) \<ge> pm_max m then Err (TooManyTerminals (pm_max m))
      else rbind (case sh of Some s \<Rightarrow> Ok s | None \<Rightarrow> ok_or (default_shell detected) NoShell) (\<lambda>s.
        let cols = max cols 1; rows = max rows 1 in
        case start s cwd rows cols of
          Some detail \<Rightarrow> Err (SpawnFailed (sh_display s) detail)
        | None \<Rightarrow>
            (let i = pm_next_id m in
             Ok (m\<lparr>pm_next_id := i + 1,
                   pm_sessions := pm_sessions m @
                     [(i, \<lparr>ps_shell_id = sh_id s, ps_parser = em_new E rows cols SCROLLBACK_LINES,
                           ps_exited = False, ps_cols = cols, ps_rows = rows\<rparr>)]\<rparr>, i))))"

definition pty_write :: "'v pty_manager \<Rightarrow> pty_id \<Rightarrow> bool \<Rightarrow> (pty_error, unit) result" where
  "pty_write m i accepted =
     rbind (ok_or (session_at m i) PtyNotFound) (\<lambda>_. if accepted then Ok () else Err Closed)"

definition pty_resize ::
  "'v emulator \<Rightarrow> bool \<Rightarrow> 'v pty_manager \<Rightarrow> pty_id \<Rightarrow> nat \<Rightarrow> nat \<Rightarrow> (pty_error, 'v pty_manager) result" where
  "pty_resize E accepted m i cols rows =
     rbind (ok_or (session_at m i) PtyNotFound) (\<lambda>s.
       let cols = max cols 1; rows = max rows 1 in
       if \<not> accepted then Err Closed
       else Ok (set_session i
         (s\<lparr>ps_parser := em_set_size E rows cols (ps_parser s), ps_cols := cols, ps_rows := rows\<rparr>) m))"

definition pty_screen ::
  "'v emulator \<Rightarrow> 'v pty_manager \<Rightarrow> pty_id \<Rightarrow> (pty_error, screen_snapshot) result" where
  "pty_screen E m i =
     rbind (ok_or (session_at m i) PtyNotFound) (\<lambda>s.
       let (cursor_row, cursor_col) = em_cursor E (ps_parser s);
           rows = map (\<lambda>row. trim_end (em_contents_between E (ps_parser s) row 0 row (ps_cols s)))
                    [0..<ps_rows s]
       in Ok \<lparr>sc_pty_id = i, sc_rows = rows, sc_cursor_row = cursor_row, sc_cursor_col = cursor_col,
              sc_cols = ps_cols s, sc_exited = ps_exited s\<rparr>)"

definition pty_kill :: "'v pty_manager \<Rightarrow> pty_id \<Rightarrow> (pty_error, 'v pty_manager) result" where
  "pty_kill m i =
     rbind (ok_or (session_at m i) PtyNotFound) (\<lambda>_.
       Ok (m\<lparr>pm_sessions := filter (\<lambda>(j, _). j \<noteq> i) (pm_sessions m)\<rparr>))"

definition pty_list :: "'v pty_manager \<Rightarrow> pty_id list" where
  "pty_list m = sort (map fst (pm_sessions m))"

definition shell_of :: "'v pty_manager \<Rightarrow> pty_id \<Rightarrow> string option" where
  "shell_of m i = map_option ps_shell_id (session_at m i)"

definition pty_len :: "'v pty_manager \<Rightarrow> nat" where
  "pty_len m = length (pm_sessions m)"

definition pty_is_empty :: "'v pty_manager \<Rightarrow> bool" where
  "pty_is_empty m \<longleftrightarrow> pm_sessions m = []"

definition reap_exited :: "'v pty_manager \<Rightarrow> 'v pty_manager \<times> pty_id list" where
  "reap_exited m =
     (m\<lparr>pm_sessions := filter (\<lambda>(_, s). \<not> ps_exited s) (pm_sessions m)\<rparr>,
      map fst (filter (\<lambda>(_, s). ps_exited s) (pm_sessions m)))"

text \<open>The reader thread hands output to the emulator; the watcher thread records the exit.\<close>

definition reader_output :: "'v emulator \<Rightarrow> bytes \<Rightarrow> pty_id \<Rightarrow> 'v pty_manager \<Rightarrow> 'v pty_manager" where
  "reader_output E buf i m =
     (case session_at m i of None \<Rightarrow> m
      | Some s \<Rightarrow> set_session i (s\<lparr>ps_parser := em_process E buf (ps_parser s)\<rparr>) m)"

definition watcher_exit :: "pty_id \<Rightarrow> 'v pty_manager \<Rightarrow> 'v pty_manager" where
  "watcher_exit i m =
     (case session_at m i of None \<Rightarrow> m | Some s \<Rightarrow> set_session i (s\<lparr>ps_exited := True\<rparr>) m)"

section \<open>Steps\<close>

datatype pty_event = EvSpawn | EvResize pty_id | EvKill pty_id | EvReap | EvOutput pty_id | EvExit pty_id

inductive pty_step ::
  "'v emulator \<Rightarrow> pty_event \<Rightarrow> 'v pty_manager \<Rightarrow> 'v pty_manager \<Rightarrow> bool" for E :: "'v emulator" where
  spawned: "pty_spawn E detected start m sh cwd cols rows = Inr (m', i) \<Longrightarrow> pty_step E EvSpawn m m'"
| resized: "pty_resize E accepted m i cols rows = Inr m' \<Longrightarrow> pty_step E (EvResize i) m m'"
| killed: "pty_kill m i = Inr m' \<Longrightarrow> pty_step E (EvKill i) m m'"
| reaped: "reap_exited m = (m', dead) \<Longrightarrow> pty_step E EvReap m m'"
| drained: "pty_step E (EvOutput i) m (reader_output E buf i m)"
| exited: "pty_step E (EvExit i) m (watcher_exit i m)"

inductive pty_reachable :: "'v emulator \<Rightarrow> nat \<Rightarrow> 'v pty_manager \<Rightarrow> bool" for E n where
  start: "pty_reachable E n (pty_with_limit n)"
| step: "pty_reachable E n m \<Longrightarrow> pty_step E ev m m' \<Longrightarrow> pty_reachable E n m'"

inductive_cases pty_stepE: "pty_step E ev m m'"

definition pty_ok :: "'v pty_manager \<Rightarrow> bool" where
  "pty_ok m \<longleftrightarrow>
     distinct (map fst (pm_sessions m)) \<and> length (pm_sessions m) \<le> pm_max m \<and>
     (\<forall>(i, s) \<in> set (pm_sessions m). i < pm_next_id m \<and> 1 \<le> ps_cols s \<and> 1 \<le> ps_rows s)"

lemma set_session_fst [simp]: "map fst (pm_sessions (set_session i s m)) = map fst (pm_sessions m)"
  by (simp add: set_session_def comp_def case_prod_beta if_distrib)

lemma set_session_sel [simp]:
  "pm_next_id (set_session i s m) = pm_next_id m" "pm_max (set_session i s m) = pm_max m"
  "length (pm_sessions (set_session i s m)) = length (pm_sessions m)"
  by (simp_all add: set_session_def)

lemma session_at_set_session:
  "session_at (set_session i s m) j =
     (if j = i \<and> session_at m i \<noteq> None then Some s else session_at m j)"
proof -
  have "map_of (map (\<lambda>(j, t). if j = i then (j, s) else (j, t)) xs) j =
      (if j = i \<and> map_of xs i \<noteq> None then Some s else map_of xs j)" for xs
    by (induction xs) auto
  then show ?thesis by (simp add: session_at_def set_session_def)
qed

lemma set_session_ok:
  assumes "pty_ok m" "1 \<le> ps_cols s" "1 \<le> ps_rows s"
  shows "pty_ok (set_session i s m)"
proof -
  have "\<forall>(j, t) \<in> set (pm_sessions (set_session i s m)).
      j < pm_next_id m \<and> 1 \<le> ps_cols t \<and> 1 \<le> ps_rows t"
    using assms by (auto simp: pty_ok_def set_session_def split: if_splits)
  with assms(1) show ?thesis
    unfolding pty_ok_def by simp
qed

lemma session_at_ok: "pty_ok m \<Longrightarrow> session_at m i = Some s \<Longrightarrow> 1 \<le> ps_cols s \<and> 1 \<le> ps_rows s \<and> i < pm_next_id m"
  by (auto simp: pty_ok_def session_at_def dest: map_of_SomeD)

lemma session_at_filter:
  "distinct (map fst (pm_sessions m)) \<Longrightarrow>
   session_at (m\<lparr>pm_sessions := filter P (pm_sessions m)\<rparr>) i =
     (case session_at m i of None \<Rightarrow> None | Some s \<Rightarrow> if P (i, s) then Some s else None)"
proof -
  have "distinct (map fst xs) \<Longrightarrow> map_of (filter P xs) i =
      (case map_of xs i of None \<Rightarrow> None | Some s \<Rightarrow> if P (i, s) then Some s else None)" for xs
    by (induction xs) (force split: option.splits dest: map_of_SomeD)+
  then show "distinct (map fst (pm_sessions m)) \<Longrightarrow> ?thesis"
    by (simp add: session_at_def)
qed

lemma pty_spawn_Ok:
  assumes "pty_spawn E detected start m sh cwd cols rows = Inr (m', i)"
  obtains s :: shell where "i = pm_next_id m" "length (pm_sessions m) < pm_max m"
    "m' = m\<lparr>pm_next_id := i + 1, pm_sessions := pm_sessions m @
        [(i, \<lparr>ps_shell_id = sh_id s, ps_parser = em_new E (max rows 1) (max cols 1) SCROLLBACK_LINES,
              ps_exited = False, ps_cols = max cols 1, ps_rows = max rows 1\<rparr>)]\<rparr>"
proof -
  have len: "length (pm_sessions m) < pm_max m"
    using assms by (simp add: pty_spawn_def split: if_splits)
  with assms obtain s where "(case start s cwd (max rows 1) (max cols 1) of
      Some detail \<Rightarrow> Inl (SpawnFailed (sh_display s) detail)
    | None \<Rightarrow> Inr (m\<lparr>pm_next_id := pm_next_id m + 1, pm_sessions := pm_sessions m @
        [(pm_next_id m, \<lparr>ps_shell_id = sh_id s,
            ps_parser = em_new E (max rows 1) (max cols 1) SCROLLBACK_LINES,
            ps_exited = False, ps_cols = max cols 1, ps_rows = max rows 1\<rparr>)]\<rparr>, pm_next_id m)) = Inr (m', i)"
    unfolding pty_spawn_def Let_def if_not_P [OF leD] by auto
  then show thesis
    using len by (cases "start s cwd (max rows 1) (max cols 1)") (auto intro: that [of s])
qed

lemma pty_step_ok:
  assumes "pty_step E ev m m'" "pty_ok m"
  shows "pty_ok m' \<and> pm_max m' = pm_max m \<and> pm_next_id m \<le> pm_next_id m'"
  using assms(1)
proof (cases rule: pty_step.cases)
  case (spawned detected start sh cwd cols rows i)
  from spawned(2) obtain s :: shell where "i = pm_next_id m" "length (pm_sessions m) < pm_max m"
    "m' = m\<lparr>pm_next_id := i + 1, pm_sessions := pm_sessions m @
        [(i, \<lparr>ps_shell_id = sh_id s, ps_parser = em_new E (max rows 1) (max cols 1) SCROLLBACK_LINES,
              ps_exited = False, ps_cols = max cols 1, ps_rows = max rows 1\<rparr>)]\<rparr>"
    by (rule pty_spawn_Ok)
  with assms(2) show ?thesis
    by (auto simp: pty_ok_def)
next
  case (resized accepted i cols rows)
  then obtain s where "session_at m i = Some s" "m' = set_session i (s\<lparr>ps_parser :=
      em_set_size E (max rows 1) (max cols 1) (ps_parser s), ps_cols := max cols 1,
      ps_rows := max rows 1\<rparr>) m"
    by (auto simp: pty_resize_def Let_def split: if_splits)
  with assms(2) show ?thesis by (simp add: set_session_ok)
next
  case (killed i)
  then have "m' = m\<lparr>pm_sessions := filter (\<lambda>(j, _). j \<noteq> i) (pm_sessions m)\<rparr>"
    by (auto simp: pty_kill_def)
  with assms(2) show ?thesis
    by (auto simp: pty_ok_def distinct_map_filter intro: order_trans [OF length_filter_le])
next
  case (reaped dead)
  then have "m' = m\<lparr>pm_sessions := filter (\<lambda>(_, s). \<not> ps_exited s) (pm_sessions m)\<rparr>"
    by (auto simp: reap_exited_def)
  with assms(2) show ?thesis
    by (auto simp: pty_ok_def distinct_map_filter intro: order_trans [OF length_filter_le])
next
  case (drained i buf)
  with assms(2) show ?thesis
    using session_at_ok [OF assms(2), of i]
    by (cases "session_at m i") (simp_all add: reader_output_def set_session_ok)
next
  case (exited i)
  with assms(2) show ?thesis
    using session_at_ok [OF assms(2), of i]
    by (cases "session_at m i") (simp_all add: watcher_exit_def set_session_ok)
qed

lemma pty_reachable_ok: "pty_reachable E n m \<Longrightarrow> pty_ok m \<and> pm_max m = n"
proof (induction rule: pty_reachable.induct)
  case start
  show ?case by (simp add: pty_with_limit_def pty_ok_def)
next
  case (step m ev m')
  with pty_step_ok [OF step(2)] show ?case by simp
qed

lemma session_at_spawned:
  assumes "pty_ok m"
  shows "session_at (m\<lparr>pm_next_id := k, pm_sessions := pm_sessions m @ [(pm_next_id m, s)]\<rparr>) i =
    (if i = pm_next_id m then Some s else session_at m i)"
proof -
  have "map_of (pm_sessions m) (pm_next_id m) = None"
    using assms by (auto simp: pty_ok_def map_of_eq_None_iff)
  then show ?thesis
    by (auto simp: session_at_def map_add_def split: option.split)
qed

text \<open>What a step does to the session of one terminal.\<close>

lemma pty_step_session:
  assumes step: "pty_step E ev m m'" and ok: "pty_ok m"
  shows "(i < pm_next_id m \<and> session_at m i = None \<longrightarrow> session_at m' i = None) \<and>
    (\<forall>s. session_at m i = Some s \<longrightarrow>
       (ev \<notin> {EvResize i, EvKill i, EvReap, EvOutput i, EvExit i} \<longrightarrow> session_at m' i = Some s) \<and>
       (ev \<noteq> EvKill i \<and> (ev = EvReap \<longrightarrow> \<not> ps_exited s) \<longrightarrow>
          (\<exists>s'. session_at m' i = Some s' \<and> ps_shell_id s' = ps_shell_id s)))"
  using step
proof (cases rule: pty_step.cases)
  case (spawned detected start sh cwd cols rows j)
  from spawned(2) obtain s :: shell where m': "j = pm_next_id m"
    "m' = m\<lparr>pm_next_id := j + 1, pm_sessions := pm_sessions m @
        [(j, \<lparr>ps_shell_id = sh_id s, ps_parser = em_new E (max rows 1) (max cols 1) SCROLLBACK_LINES,
              ps_exited = False, ps_cols = max cols 1, ps_rows = max rows 1\<rparr>)]\<rparr>"
    by (rule pty_spawn_Ok)
  then have "session_at m' i = session_at m i" if "i < pm_next_id m"
    using that session_at_spawned [OF ok, where k = "j + 1" and i = i] by simp
  with session_at_ok [OF ok, of i] show ?thesis by auto
next
  case (resized accepted j cols rows)
  then obtain t where "session_at m j = Some t" "m' = set_session j (t\<lparr>ps_parser :=
      em_set_size E (max rows 1) (max cols 1) (ps_parser t), ps_cols := max cols 1,
      ps_rows := max rows 1\<rparr>) m"
    by (auto simp: pty_resize_def Let_def split: if_splits)
  with resized(1) show ?thesis by (auto simp: session_at_set_session)
next
  case (killed j)
  then have "m' = m\<lparr>pm_sessions := filter (\<lambda>(k, _). k \<noteq> j) (pm_sessions m)\<rparr>"
    by (auto simp: pty_kill_def)
  with killed(1) ok show ?thesis
    by (auto simp: session_at_filter pty_ok_def)
next
  case (reaped dead)
  then have "m' = m\<lparr>pm_sessions := filter (\<lambda>(_, s). \<not> ps_exited s) (pm_sessions m)\<rparr>"
    by (auto simp: reap_exited_def)
  with reaped(1) ok show ?thesis
    by (auto simp: session_at_filter pty_ok_def)
next
  case (drained j buf)
  then show ?thesis
    by (cases "session_at m j") (auto simp: reader_output_def session_at_set_session)
next
  case (exited j)
  then show ?thesis
    by (cases "session_at m j") (auto simp: watcher_exit_def session_at_set_session)
qed

section \<open>Properties\<close>

definition plain_emulator :: "string emulator" where
  "plain_emulator =
     \<lparr>em_new = (\<lambda>rows cols n. []), em_process = (\<lambda>buf s. s @ str_of_bytes buf),
      em_set_size = (\<lambda>rows cols s. s), em_cursor = (\<lambda>s. (0, length s)),
      em_contents_between = (\<lambda>s r c r' c'. if r = 0 then take c' s else [])\<rparr>"

definition sample_shell :: shell where
  "sample_shell = shell_new ''sh'' ''sh'' (unix_path ''/bin/sh'') [''-l'']"

definition one_terminal :: "string pty_manager" where
  "one_terminal =
     \<lparr>pm_sessions = [(1, \<lparr>ps_shell_id = ''sh'', ps_parser = [], ps_exited = False, ps_cols = 80, ps_rows = 24\<rparr>)],
      pm_next_id = 2, pm_max = 1\<rparr>"

lemma one_terminal_step: "pty_step plain_emulator EvSpawn (pty_with_limit 1) one_terminal"
  by (rule pty_step.spawned [of _ "[sample_shell]" "\<lambda>_ _ _ _. None" _ None None 80 24 _ 1])
    (simp add: pty_spawn_def default_shell_def one_terminal_def pty_with_limit_def sample_shell_def
      shell_new_def plain_emulator_def)

lemma one_terminal_reachable: "pty_reachable plain_emulator 1 one_terminal"
  by (rule pty_reachable.step [OF pty_reachable.start one_terminal_step])

text \<open>
  C35: the terminal cap and the identifiers.  In every state the daemon can reach there are at most as
  many terminals as the cap allows, no two have the same identifier, every one has at least one
  row and one column, and an identifier that is no longer in use, because its terminal was killed
  or reaped, is never given to another.
\<close>

theorem terminals_bounded:
  assumes "pty_reachable E n m"
  shows "pty_len m \<le> n \<and> distinct (pty_list m) \<and>
    (\<forall>i s. session_at m i = Some s \<longrightarrow> 1 \<le> ps_cols s \<and> 1 \<le> ps_rows s \<and> i < pm_next_id m) \<and>
    (\<forall>ev m' i. pty_step E ev m m' \<and> i < pm_next_id m \<and> session_at m i = None \<longrightarrow>
       session_at m' i = None \<and> i < pm_next_id m')"
proof (intro conjI allI impI)
  note ok = pty_reachable_ok [OF assms]
  then show "pty_len m \<le> n" "distinct (pty_list m)"
    by (simp_all add: pty_len_def pty_list_def pty_ok_def)
  fix i s assume "session_at m i = Some s"
  with ok session_at_ok show "1 \<le> ps_cols s" "1 \<le> ps_rows s" "i < pm_next_id m" by blast+
next
  note ok = pty_reachable_ok [OF assms]
  fix ev m' i assume step: "pty_step E ev m m' \<and> i < pm_next_id m \<and> session_at m i = None"
  with ok pty_step_session [of E ev m m' i] show "session_at m' i = None" by blast
  from step ok pty_step_ok [of E ev m m'] show "i < pm_next_id m'" by auto
qed

theorem terminals_bounded_witness:
  "pty_len one_terminal \<le> 1 \<and> pty_list one_terminal = [1]"
  using terminals_bounded [OF one_terminal_reachable] by (simp add: pty_list_def one_terminal_def)

text \<open>
  Terminals are independent and survive.  Whatever happens to the others, a terminal's session
  is exactly what it was unless the step is about it; only killing it, or reaping it after it has
  exited, makes it disappear, and it runs the shell it was started with for as long as it exists.
\<close>

theorem terminals_survive:
  assumes "pty_reachable E n m" and "pty_step E ev m m'" and "session_at m i = Some s"
  shows "(ev \<notin> {EvResize i, EvKill i, EvReap, EvOutput i, EvExit i} \<longrightarrow> session_at m' i = Some s) \<and>
    (ev \<noteq> EvKill i \<and> (ev = EvReap \<longrightarrow> \<not> ps_exited s) \<longrightarrow>
       shell_of m' i = Some (ps_shell_id s))"
  using pty_step_session [OF assms(2), of i] pty_reachable_ok [OF assms(1)] assms(3)
  by (auto simp: shell_of_def)

theorem terminals_survive_witness:
  "shell_of (fst (reap_exited one_terminal)) 1 = Some ''sh''"
proof -
  have "session_at one_terminal 1 = Some \<lparr>ps_shell_id = ''sh'', ps_parser = [], ps_exited = False,
      ps_cols = 80, ps_rows = 24\<rparr>"
    by (simp add: one_terminal_def session_at_def)
  from terminals_survive [OF one_terminal_reachable pty_step.reaped [OF surjective_pairing] this]
  show ?thesis by simp
qed

text \<open>
  A terminal that has just been spawned can be shown.  Spawning succeeds exactly when the cap is
  not reached, a shell is known and the system starts it; the screen of the new terminal is then
  available under the identifier returned, with the size asked for (at least one by one) and no
  line ending in white space.
\<close>

theorem spawned_terminal_shown:
  assumes "pty_reachable E n m"
    and "pty_spawn E detected start m sh cwd cols rows = Inr (m', i)"
  shows "\<exists>screen. pty_screen E m' i = Inr screen \<and> sc_pty_id screen = i \<and>
    sc_cols screen = max cols 1 \<and> length (sc_rows screen) = max rows 1 \<and> \<not> sc_exited screen \<and>
    (\<forall>line \<in> set (sc_rows screen). trim_end line = line) \<and>
    pty_len m < n \<and> pty_list m' = pty_list m @ [i]"
proof -
  note ok = pty_reachable_ok [OF assms(1)]
  from assms(2) obtain s :: shell where m': "i = pm_next_id m" "length (pm_sessions m) < pm_max m"
    "m' = m\<lparr>pm_next_id := i + 1, pm_sessions := pm_sessions m @
        [(i, \<lparr>ps_shell_id = sh_id s, ps_parser = em_new E (max rows 1) (max cols 1) SCROLLBACK_LINES,
              ps_exited = False, ps_cols = max cols 1, ps_rows = max rows 1\<rparr>)]\<rparr>"
    by (rule pty_spawn_Ok)
  have "session_at m' i = Some \<lparr>ps_shell_id = sh_id s,
      ps_parser = em_new E (max rows 1) (max cols 1) SCROLLBACK_LINES,
      ps_exited = False, ps_cols = max cols 1, ps_rows = max rows 1\<rparr>"
    using session_at_spawned [of m, where k = "i + 1" and i = i] ok unfolding m'(3) m'(1) by simp
  moreover have "pty_list m' = pty_list m @ [i]"
  proof -
    have "\<forall>x \<in> set (map fst (pm_sessions m)). x \<le> i"
      using ok m'(1) by (auto simp: pty_ok_def)
    then have "sorted (sort (map fst (pm_sessions m)) @ [i])"
      by (simp add: sorted_append)
    moreover have "mset (sort (map fst (pm_sessions m)) @ [i]) = mset (map fst (pm_sessions m'))"
      by (simp add: m'(3))
    ultimately show ?thesis
      unfolding pty_list_def by (metis properties_for_sort)
  qed
  ultimately show ?thesis
    using m'(2) ok
    by (auto simp: pty_screen_def case_prod_beta Let_def pty_len_def trim_end_idem)
qed

theorem spawned_terminal_shown_witness:
  "\<exists>screen. pty_screen plain_emulator one_terminal 1 = Inr screen \<and> length (sc_rows screen) = 24"
proof -
  have "pty_spawn plain_emulator [sample_shell] (\<lambda>_ _ _ _. None) (pty_with_limit 1) None None 80 24
      = Inr (one_terminal, 1)"
    by (simp add: pty_spawn_def default_shell_def one_terminal_def pty_with_limit_def sample_shell_def
      shell_new_def plain_emulator_def)
  from spawned_terminal_shown [OF pty_reachable.start this] show ?thesis by auto
qed

text \<open>
  Two shells can be detected under one name: the login shell by its path and a standard candidate
  of the same name elsewhere.  Looking the name up then finds the first.
\<close>

lemma duplicate_shell_ids:
  "map sh_id (detect_unix (\<lambda>_. True) (Some (unix_path ''/usr/bin/bash''))) =
     [''bash'', ''zsh'', ''bash'', ''sh'']"
  by code_simp

end
