(* ===== verification/Router.thy ===== *)
theory Router
  imports FsService Terminals Control
begin

text \<open>
  \<open>gonomad-server/src/router.rs\<close> and \<open>gonomad-proto/src/methods.rs\<close>: the dispatch of one connection's
  requests, and the pairing gate.

  A router is a record, the terminals are the shared manager; a handler returns both with its
  result, because some state changes are made before a later step can still fail.  CBOR is a
  parameter: a decoder for each parameter struct and one encoder of results, each of which may fail.
\<close>

section \<open>Methods\<close>

definition SYS_INFO :: string where "SYS_INFO = ''sys.info''"
definition SYS_REGISTER :: string where "SYS_REGISTER = ''sys.register''"
definition FS_LIST :: string where "FS_LIST = ''fs.list''"
definition FS_READ :: string where "FS_READ = ''fs.read''"
definition PTY_SPAWN :: string where "PTY_SPAWN = ''pty.spawn''"
definition PTY_INPUT :: string where "PTY_INPUT = ''pty.input''"
definition PTY_RESIZE :: string where "PTY_RESIZE = ''pty.resize''"
definition PTY_SCREEN :: string where "PTY_SCREEN = ''pty.screen''"
definition PTY_KILL :: string where "PTY_KILL = ''pty.kill''"
definition PTY_LIST :: string where "PTY_LIST = ''pty.list''"

definition METHOD_ALL :: "string list" where
  "METHOD_ALL = [SYS_INFO, SYS_REGISTER, FS_LIST, FS_READ, PTY_SPAWN, PTY_INPUT, PTY_RESIZE,
     PTY_SCREEN, PTY_KILL, PTY_LIST]"

lemmas method_defs = SYS_INFO_def SYS_REGISTER_def FS_LIST_def FS_READ_def PTY_SPAWN_def
  PTY_INPUT_def PTY_RESIZE_def PTY_SCREEN_def PTY_KILL_def PTY_LIST_def

record sys_register_params =
  sr_device_name :: string
  sr_device_model :: "string option"
  sr_sas :: string

record pty_spawn_params =
  sp_cwd :: "string option"
  sp_shell :: "string option"
  sp_cols :: nat
  sp_rows :: nat

record pty_input_params =
  in_pty_id :: pty_id
  in_data :: string

record pty_resize_params =
  rz_pty_id :: pty_id
  rz_cols :: nat
  rz_rows :: nat

record sys_info_result =
  si_host_name :: string
  si_daemon_version :: string
  si_os :: string
  si_capabilities :: capability_set
  si_workspace_roots :: "string list"
  si_shells :: "string list"

record screen_frame =
  sf_pty_id :: pty_id
  sf_rows :: "string list"
  sf_cursor_row :: nat
  sf_cursor_col :: nat
  sf_cols :: nat
  sf_exited :: bool

text \<open>
  The results.  The wire's directory entries and file contents have the fields of the service's,
  so the records of \<open>FsService\<close> stand for both.
\<close>

datatype reply =
    RSysInfo sys_info_result
  | RSysRegister string capability_set
  | RFsList string "dir_entry list"
  | RFsRead file_content
  | RPtySpawn pty_id screen_frame string
  | RScreen screen_frame
  | RPtyList "pty_id list"
  | REmpty

record codec =
  cd_register :: "bytes \<Rightarrow> sys_register_params option"
  cd_list :: "bytes \<Rightarrow> string option"
  cd_read :: "bytes \<Rightarrow> string option"
  cd_spawn :: "bytes \<Rightarrow> pty_spawn_params option"
  cd_input :: "bytes \<Rightarrow> pty_input_params option"
  cd_resize :: "bytes \<Rightarrow> pty_resize_params option"
  cd_id :: "bytes \<Rightarrow> pty_id option"
  cd_encode :: "reply \<Rightarrow> bytes option"

section \<open>The router\<close>

datatype pairing_state = is_pairing: Pairing (expected_sas: string) | Established

datatype effect = EffNone | EffRegistered public_key string "string option"

text \<open>What is outside: the service's environment, the codec, the emulator and the system's answers.\<close>

record 'v daemon_env =
  ve_server :: server_env
  ve_hex :: hex_codec
  ve_codec :: codec
  ve_emulator :: "'v emulator"
  ve_shells :: "shell list"
  ve_start :: "shell \<Rightarrow> string option \<Rightarrow> nat \<Rightarrow> nat \<Rightarrow> string option"
  ve_write_ok :: "pty_id \<Rightarrow> bytes \<Rightarrow> bool"
  ve_resize_ok :: "pty_id \<Rightarrow> nat \<Rightarrow> nat \<Rightarrow> bool"
  ve_os :: string
  ve_version :: string

record daemon =
  dm_engine :: policy_engine
  dm_workspace_roots :: "string list"
  dm_host_name :: string

record router =
  rt_peer_key :: public_key
  rt_grant :: "device_grant option"
  rt_state :: pairing_state

definition router_established :: "public_key \<Rightarrow> device_grant \<Rightarrow> router" where
  "router_established key grant = \<lparr>rt_peer_key = key, rt_grant = Some grant, rt_state = Established\<rparr>"

definition router_pairing :: "public_key \<Rightarrow> string \<Rightarrow> router" where
  "router_pairing key sas = \<lparr>rt_peer_key = key, rt_grant = None, rt_state = Pairing sas\<rparr>"

definition router_capabilities :: "router \<Rightarrow> capability_set" where
  "router_capabilities rt =
     (case rt_grant rt of None \<Rightarrow> cs_EMPTY | Some g \<Rightarrow> effective_capabilities g)"

definition require :: "router \<Rightarrow> capability \<Rightarrow> (proto_error, unit) result" where
  "require rt c = (if cs_contains (router_capabilities rt) c then Ok () else Err (err_denied c))"

definition encode :: "'v daemon_env \<Rightarrow> reply \<Rightarrow> (proto_error, bytes) result" where
  "encode env r = ok_or (cd_encode (ve_codec env) r) (err_internal ''encode'')"

definition decode :: "(bytes \<Rightarrow> 'p option) \<Rightarrow> bytes \<Rightarrow> (proto_error, 'p) result" where
  "decode f bs = ok_or (f bs) (err_bad_request ''malformed parameters'')"

fun pty_error_to_proto :: "pty_error \<Rightarrow> proto_error" where
  "pty_error_to_proto PtyNotFound = err_not_found"
| "pty_error_to_proto Closed = err_not_found"
| "pty_error_to_proto (TooManyTerminals limit) =
     proto_error_new (ResourceExhausted ''terminals'' (clamp_to u32_max limit))"
| "pty_error_to_proto NoShell = proto_error_new (Unsupported ''no usable shell on this machine'' None)"
| "pty_error_to_proto (SpawnFailed _ _) =
     proto_error_new (Unsupported ''no usable shell on this machine'' None)"

definition to_frame :: "screen_snapshot \<Rightarrow> screen_frame" where
  "to_frame s =
     \<lparr>sf_pty_id = sc_pty_id s, sf_rows = sc_rows s, sf_cursor_row = sc_cursor_row s,
      sf_cursor_col = sc_cursor_col s, sf_cols = sc_cols s, sf_exited = sc_exited s\<rparr>"

section \<open>Handlers\<close>

definition sys_info :: "'v daemon_env \<Rightarrow> daemon \<Rightarrow> router \<Rightarrow> (proto_error, bytes) result" where
  "sys_info env dm rt = encode env (RSysInfo
     \<lparr>si_host_name = dm_host_name dm, si_daemon_version = ve_version env, si_os = ve_os env,
      si_capabilities = router_capabilities rt, si_workspace_roots = dm_workspace_roots dm,
      si_shells = map sh_id (ve_shells env)\<rparr>)"

definition is_ascii_digit :: "char \<Rightarrow> bool" where
  "is_ascii_digit c \<longleftrightarrow> 48 \<le> (of_char c :: nat) \<and> (of_char c :: nat) \<le> 57"

definition sys_register ::
  "'v daemon_env \<Rightarrow> router \<Rightarrow> request \<Rightarrow> router \<times> (proto_error, bytes \<times> effect) result" where
  "sys_register env rt req =
     (case decode (cd_register (ve_codec env)) (rq_params req) of
        Inl e \<Rightarrow> (rt, Err e)
      | Inr p \<Rightarrow>
          (case rt_state rt of
             Established \<Rightarrow> (rt, Err (err_bad_request ''not pairing''))
           | Pairing expected \<Rightarrow>
               (let presented = filter is_ascii_digit (sr_sas p) in
                if presented \<noteq> expected then (rt, Err (err_bad_request ''pairing code mismatch''))
                else
                  let d = device_id_from_public_key (se_hash (ve_server env)) (rt_peer_key rt);
                      rt' = rt\<lparr>rt_grant := Some (newly_paired d), rt_state := Established\<rparr>
                  in (rt', rbind (encode env (RSysRegister (id_to_hex (ve_hex env) (device_bytes d))
                                                cs_default_grant)) (\<lambda>result.
                       Ok (result, EffRegistered (rt_peer_key rt) (sr_device_name p)
                             (sr_device_model p)))))))"

definition router_fs_list ::
  "'v daemon_env \<Rightarrow> daemon \<Rightarrow> router \<Rightarrow> request \<Rightarrow> (proto_error, bytes) result" where
  "router_fs_list env dm rt req =
     rbind (decode (cd_list (ve_codec env)) (rq_params req)) (\<lambda>path.
     rbind (fs_list (ve_server env) (dm_engine dm) (rt_grant rt) path) (\<lambda>entries.
       encode env (RFsList path entries)))"

definition router_fs_read ::
  "'v daemon_env \<Rightarrow> daemon \<Rightarrow> router \<Rightarrow> request \<Rightarrow> (proto_error, bytes) result" where
  "router_fs_read env dm rt req =
     rbind (decode (cd_read (ve_codec env)) (rq_params req)) (\<lambda>path.
     rbind (fs_read (ve_server env) (dm_engine dm) (rt_grant rt) path) (\<lambda>content.
       encode env (RFsRead content)))"

definition spawn_checked ::
  "'v daemon_env \<Rightarrow> daemon \<Rightarrow> router \<Rightarrow> 'v pty_manager \<Rightarrow> request \<Rightarrow>
     (proto_error, 'v pty_manager \<times> pty_id) result" where
  "spawn_checked env dm rt m req =
     rbind (require rt PtySpawn) (\<lambda>_.
     rbind (decode (cd_spawn (ve_codec env)) (rq_params req)) (\<lambda>p.
     rbind (case sp_cwd p of
              None \<Rightarrow> Ok None
            | Some dir \<Rightarrow> rbind (authorize_dir (ve_server env) (dm_engine dm) (rt_grant rt) dir)
                           (\<lambda>d. Ok (Some d))) (\<lambda>cwd.
     rbind (case sp_shell p of
              None \<Rightarrow> Ok None
            | Some i \<Rightarrow> rbind (ok_or (by_id (ve_shells env) i)
                         (proto_error_new (Unsupported (''shell '' @ i) None))) (\<lambda>s. Ok (Some s))) (\<lambda>sh.
       map_err pty_error_to_proto
         (pty_spawn (ve_emulator env) (ve_shells env) (ve_start env) m sh cwd (sp_cols p) (sp_rows p))))))"

definition router_pty_spawn ::
  "'v daemon_env \<Rightarrow> daemon \<Rightarrow> router \<Rightarrow> 'v pty_manager \<Rightarrow> request \<Rightarrow>
     'v pty_manager \<times> (proto_error, bytes) result" where
  "router_pty_spawn env dm rt m req =
     (case spawn_checked env dm rt m req of
        Inl e \<Rightarrow> (m, Err e)
      | Inr (m', i) \<Rightarrow>
          (m', rbind (map_err pty_error_to_proto (pty_screen (ve_emulator env) m' i)) (\<lambda>screen.
             encode env (RPtySpawn i (to_frame screen)
               (case shell_of m' i of None \<Rightarrow> ''unknown'' | Some s \<Rightarrow> s)))))"

definition router_pty_input ::
  "'v daemon_env \<Rightarrow> router \<Rightarrow> 'v pty_manager \<Rightarrow> request \<Rightarrow> (proto_error, bytes) result" where
  "router_pty_input env rt m req =
     rbind (require rt PtySpawn) (\<lambda>_.
     rbind (decode (cd_input (ve_codec env)) (rq_params req)) (\<lambda>p.
     rbind (map_err pty_error_to_proto
              (pty_write m (in_pty_id p) (ve_write_ok env (in_pty_id p) (as_bytes (in_data p))))) (\<lambda>_.
       encode env REmpty)))"

definition router_pty_resize ::
  "'v daemon_env \<Rightarrow> router \<Rightarrow> 'v pty_manager \<Rightarrow> request \<Rightarrow>
     'v pty_manager \<times> (proto_error, bytes) result" where
  "router_pty_resize env rt m req =
     (case rbind (require rt PtySpawn) (\<lambda>_.
           rbind (decode (cd_resize (ve_codec env)) (rq_params req)) (\<lambda>p.
             map_err pty_error_to_proto
               (pty_resize (ve_emulator env) (ve_resize_ok env (rz_pty_id p) (rz_cols p) (rz_rows p))
                  m (rz_pty_id p) (rz_cols p) (rz_rows p)))) of
        Inl e \<Rightarrow> (m, Err e)
      | Inr m' \<Rightarrow> (m', encode env REmpty))"

definition router_pty_screen ::
  "'v daemon_env \<Rightarrow> router \<Rightarrow> 'v pty_manager \<Rightarrow> request \<Rightarrow> (proto_error, bytes) result" where
  "router_pty_screen env rt m req =
     rbind (require rt PtySpawn) (\<lambda>_.
     rbind (decode (cd_id (ve_codec env)) (rq_params req)) (\<lambda>i.
     rbind (map_err pty_error_to_proto (pty_screen (ve_emulator env) m i)) (\<lambda>screen.
       encode env (RScreen (to_frame screen)))))"

definition router_pty_kill ::
  "'v daemon_env \<Rightarrow> router \<Rightarrow> 'v pty_manager \<Rightarrow> request \<Rightarrow>
     'v pty_manager \<times> (proto_error, bytes) result" where
  "router_pty_kill env rt m req =
     (case rbind (require rt PtySpawn) (\<lambda>_.
           rbind (decode (cd_id (ve_codec env)) (rq_params req)) (\<lambda>i.
             map_err pty_error_to_proto (pty_kill m i))) of
        Inl e \<Rightarrow> (m, Err e)
      | Inr m' \<Rightarrow> (m', encode env REmpty))"

definition router_pty_list ::
  "'v daemon_env \<Rightarrow> router \<Rightarrow> 'v pty_manager \<Rightarrow> (proto_error, bytes) result" where
  "router_pty_list env rt m =
     rbind (require rt PtySpawn) (\<lambda>_. encode env (RPtyList (pty_list m)))"

section \<open>Dispatch\<close>

definition with_no_effect :: "(proto_error, bytes) result \<Rightarrow> (proto_error, bytes \<times> effect) result" where
  "with_no_effect r = rbind r (\<lambda>bs. Ok (bs, EffNone))"

definition unsupported :: "string \<Rightarrow> proto_error" where
  "unsupported feature = proto_error_new (Unsupported feature None)"

definition dispatch ::
  "'v daemon_env \<Rightarrow> daemon \<Rightarrow> router \<Rightarrow> 'v pty_manager \<Rightarrow> request \<Rightarrow>
     router \<times> 'v pty_manager \<times> (proto_error, bytes \<times> effect) result" where
  "dispatch env dm rt m req =
     (let name = rq_method req in
      if name \<notin> set METHOD_ALL then (rt, m, Err (unsupported name))
      else if is_pairing (rt_state rt) \<and> name \<noteq> SYS_REGISTER
      then (rt, m, Err (err_denied FsRead))
      else if rt_state rt = Established \<and> name = SYS_REGISTER
      then (rt, m, Err (unsupported ''sys.register outside a pairing window''))
      else if name = SYS_INFO then (rt, m, with_no_effect (sys_info env dm rt))
      else if name = SYS_REGISTER then (let (rt', r) = sys_register env rt req in (rt', m, r))
      else if name = FS_LIST then (rt, m, with_no_effect (router_fs_list env dm rt req))
      else if name = FS_READ then (rt, m, with_no_effect (router_fs_read env dm rt req))
      else if name = PTY_SPAWN
      then (let (m', r) = router_pty_spawn env dm rt m req in (rt, m', with_no_effect r))
      else if name = PTY_INPUT then (rt, m, with_no_effect (router_pty_input env rt m req))
      else if name = PTY_RESIZE
      then (let (m', r) = router_pty_resize env rt m req in (rt, m', with_no_effect r))
      else if name = PTY_SCREEN then (rt, m, with_no_effect (router_pty_screen env rt m req))
      else if name = PTY_KILL
      then (let (m', r) = router_pty_kill env rt m req in (rt, m', with_no_effect r))
      else if name = PTY_LIST then (rt, m, with_no_effect (router_pty_list env rt m))
      else (rt, m, Err (unsupported name)))"

definition handle ::
  "'v daemon_env \<Rightarrow> daemon \<Rightarrow> router \<Rightarrow> 'v pty_manager \<Rightarrow> request \<Rightarrow>
     router \<times> 'v pty_manager \<times> response \<times> effect" where
  "handle env dm rt m req =
     (case dispatch env dm rt m req of
        (rt', m', Inr (result, eff)) \<Rightarrow> (rt', m', \<lparr>rs_id = rq_id req, rs_body = BodyOk result\<rparr>, eff)
      | (rt', m', Inl e) \<Rightarrow> (rt', m', \<lparr>rs_id = rq_id req, rs_body = BodyError e\<rparr>, EffNone))"

section \<open>Facts\<close>

lemma require_Ok: "require rt c = Inr () \<longleftrightarrow> may (rt_grant rt) c"
  by (cases "rt_grant rt")
    (auto simp: require_def router_capabilities_def may_def effective_capabilities_def cs_contains_caps_of)

lemma with_no_effect_Ok [simp]:
  "with_no_effect r = Inr (bs, eff) \<longleftrightarrow> r = Inr bs \<and> eff = EffNone"
  "with_no_effect r = Inl e \<longleftrightarrow> r = Inl e"
  by (cases r; auto simp: with_no_effect_def)+

lemma method_distinct: "distinct METHOD_ALL"
  by (simp add: METHOD_ALL_def method_defs)

lemmas method_neq = method_distinct [unfolded METHOD_ALL_def, simplified]

lemma sys_register_cases:
  assumes "sys_register env rt req = (rt', r)" "rt_state rt = Pairing sas"
  obtains (refused) e where "rt' = rt" "r = Inl e"
  | (registered) p where "cd_register (ve_codec env) (rq_params req) = Some p"
    "filter is_ascii_digit (sr_sas p) = sas"
    "rt' = rt\<lparr>rt_grant := Some (newly_paired
       (device_id_from_public_key (se_hash (ve_server env)) (rt_peer_key rt))), rt_state := Established\<rparr>"
    "(\<exists>bs. r = Inr (bs, EffRegistered (rt_peer_key rt) (sr_device_name p) (sr_device_model p))) \<or>
     r = Inl (err_internal ''encode'')"
proof (cases "cd_register (ve_codec env) (rq_params req)")
  case None
  with assms refused show thesis by (auto simp: sys_register_def decode_def)
next
  case (Some p)
  show thesis
  proof (cases "filter is_ascii_digit (sr_sas p) = sas")
    case False
    with Some assms refused show thesis by (auto simp: sys_register_def decode_def Let_def)
  next
    case True
    have "(\<exists>bs. r = Inr (bs, EffRegistered (rt_peer_key rt) (sr_device_name p) (sr_device_model p))) \<or>
        r = Inl (err_internal ''encode'')"
      using Some True assms
      by (cases "cd_encode (ve_codec env) (RSysRegister (id_to_hex (ve_hex env) (device_bytes
          (device_id_from_public_key (se_hash (ve_server env)) (rt_peer_key rt)))) cs_default_grant)")
        (auto simp: sys_register_def decode_def encode_def Let_def)
    with Some True assms registered show thesis
      by (auto simp: sys_register_def decode_def Let_def)
  qed
qed

lemma dispatch_pairing:
  assumes "rt_state rt = Pairing sas" "dispatch env dm rt m req = (rt', m', r)"
  shows "m' = m" "rq_method req = SYS_REGISTER \<Longrightarrow> sys_register env rt req = (rt', r)"
    "rq_method req \<noteq> SYS_REGISTER \<Longrightarrow> rt' = rt \<and>
       r = Inl (if rq_method req \<in> set METHOD_ALL then err_denied FsRead else unsupported (rq_method req))"
proof -
  have reg: "SYS_REGISTER \<in> set METHOD_ALL" "SYS_REGISTER \<noteq> SYS_INFO"
    by (simp_all add: METHOD_ALL_def method_defs)
  show "m' = m"
    using assms reg by (auto simp: dispatch_def Let_def split: if_splits prod.splits)
  show "rq_method req = SYS_REGISTER \<Longrightarrow> sys_register env rt req = (rt', r)"
    using assms reg by (auto simp: dispatch_def Let_def split: if_splits prod.splits)
  show "rq_method req \<noteq> SYS_REGISTER \<Longrightarrow> rt' = rt \<and>
       r = Inl (if rq_method req \<in> set METHOD_ALL then err_denied FsRead else unsupported (rq_method req))"
    using assms by (auto simp: dispatch_def Let_def split: if_splits)
qed

lemma spawn_checked_may: "spawn_checked env dm rt m req = Inr x \<Longrightarrow> may (rt_grant rt) PtySpawn"
  by (auto simp: spawn_checked_def require_Ok)

lemma fs_may:
  "fs_list env e grant requested = Inr es \<Longrightarrow> may grant FsRead"
  "fs_read env e grant requested = Inr c \<Longrightarrow> may grant FsRead"
  by (auto simp: fs_list_def fs_read_def fs_authorize_Ok)

definition terminal_methods :: "string set" where
  "terminal_methods = {PTY_SPAWN, PTY_INPUT, PTY_RESIZE, PTY_SCREEN, PTY_KILL, PTY_LIST}"

text \<open>On an established connection: what changes, and what an answer presupposes.\<close>

lemma dispatch_router_same:
  assumes "rt_state rt = Established" "dispatch env dm rt m req = (rt', m', r)"
  shows "rt' = rt"
  using assms by (auto simp: dispatch_def Let_def split: if_splits prod.splits)

lemma pty_handlers_same:
  assumes "\<not> may (rt_grant rt) PtySpawn"
  shows "router_pty_spawn env dm rt m req = (m', r) \<Longrightarrow> m' = m"
    "router_pty_resize env rt m req = (m', r) \<Longrightarrow> m' = m"
    "router_pty_kill env rt m req = (m', r) \<Longrightarrow> m' = m"
proof -
  have "require rt PtySpawn = Inl (err_denied PtySpawn)"
    using assms require_Ok [of rt PtySpawn] by (auto simp: require_def split: if_splits)
  then show "router_pty_spawn env dm rt m req = (m', r) \<Longrightarrow> m' = m"
    "router_pty_resize env rt m req = (m', r) \<Longrightarrow> m' = m"
    "router_pty_kill env rt m req = (m', r) \<Longrightarrow> m' = m"
    by (simp_all add: router_pty_spawn_def spawn_checked_def router_pty_resize_def router_pty_kill_def)
qed

lemma pty_handlers_Ok:
  "router_pty_spawn env dm rt m req = (m', Inr bs) \<Longrightarrow> may (rt_grant rt) PtySpawn"
  "router_pty_resize env rt m req = (m', Inr bs) \<Longrightarrow> may (rt_grant rt) PtySpawn"
  "router_pty_kill env rt m req = (m', Inr bs) \<Longrightarrow> may (rt_grant rt) PtySpawn"
  "router_pty_input env rt m req = Inr bs \<Longrightarrow> may (rt_grant rt) PtySpawn"
  "router_pty_screen env rt m req = Inr bs \<Longrightarrow> may (rt_grant rt) PtySpawn"
  "router_pty_list env rt m = Inr bs \<Longrightarrow> may (rt_grant rt) PtySpawn"
  by (auto simp: router_pty_spawn_def router_pty_resize_def router_pty_kill_def router_pty_input_def
      router_pty_screen_def router_pty_list_def require_Ok split: sum.splits dest: spawn_checked_may)

lemma dispatch_terminals_same:
  assumes "\<not> may (rt_grant rt) PtySpawn" "dispatch env dm rt m req = (rt', m', r)"
  shows "m' = m"
  using assms
  by (auto simp: dispatch_def Let_def split: if_splits prod.splits
      dest: pty_handlers_same(1) [rotated] pty_handlers_same(2) [rotated] pty_handlers_same(3) [rotated])

lemma dispatch_Ok_may:
  assumes "rt_state rt = Established" "dispatch env dm rt m req = (rt', m', Inr (bs, eff))"
  shows "eff = EffNone \<and> (rq_method req \<in> terminal_methods \<longrightarrow> may (rt_grant rt) PtySpawn) \<and>
    (rq_method req \<in> {FS_LIST, FS_READ} \<longrightarrow> may (rt_grant rt) FsRead) \<and>
    rq_method req \<in> insert SYS_INFO ({FS_LIST, FS_READ} \<union> terminal_methods)"
  using assms unfolding dispatch_def Let_def terminal_methods_def
  by (auto simp: router_fs_list_def router_fs_read_def method_defs split: if_splits prod.splits
      dest: fs_may pty_handlers_Ok)

section \<open>Properties\<close>

definition sample_codec :: codec where
  "sample_codec =
     \<lparr>cd_register = (\<lambda>bs. Some \<lparr>sr_device_name = ''P'', sr_device_model = None, sr_sas = str_of_bytes bs\<rparr>),
      cd_list = (\<lambda>bs. Some (str_of_bytes bs)), cd_read = (\<lambda>bs. Some (str_of_bytes bs)),
      cd_spawn = (\<lambda>_. Some \<lparr>sp_cwd = None, sp_shell = None, sp_cols = 80, sp_rows = 24\<rparr>),
      cd_input = (\<lambda>_. None), cd_resize = (\<lambda>_. None), cd_id = (\<lambda>bs. Some (be_nat bs)),
      cd_encode = (\<lambda>_. Some [])\<rparr>"

definition sample_daemon_env :: "string daemon_env" where
  "sample_daemon_env =
     \<lparr>ve_server = sample_env [], ve_hex = hex_crate, ve_codec = sample_codec,
      ve_emulator = plain_emulator, ve_shells = [sample_shell], ve_start = (\<lambda>_ _ _ _. None),
      ve_write_ok = (\<lambda>_ _. True), ve_resize_ok = (\<lambda>_ _ _. True), ve_os = ''linux'',
      ve_version = ''0.0.1''\<rparr>"

definition sample_daemon :: daemon where
  "sample_daemon = \<lparr>dm_engine = sample_engine, dm_workspace_roots = [''/p''], dm_host_name = ''h''\<rparr>"

definition sample_call :: "string \<Rightarrow> string \<Rightarrow> request" where
  "sample_call name params =
     \<lparr>rq_id = 7, rq_method = name, rq_params = as_bytes params, rq_idempotency = None, rq_presence = None\<rparr>"

definition sample_peer :: public_key where "sample_peer = PublicKey (replicate 32 4)"

text \<open>
  C4: the pairing gate.  While a connection is pairing, nothing a peer sends touches a terminal, and
  every request but one is refused with the router unchanged.  The one that is not is a registration
  that presents the very digits this side derived; it grants the default capabilities to the device
  of the authenticated key, and the registration reported is for that key.
\<close>

theorem pairing_gate:
  assumes "rt_state rt = Pairing sas" and "dispatch env dm rt m req = (rt', m', r)"
  shows "m' = m \<and>
    (rt' = rt \<and> (\<exists>e. r = Inl e) \<or>
     rq_method req = SYS_REGISTER \<and>
     (\<exists>p. cd_register (ve_codec env) (rq_params req) = Some p \<and>
        filter is_ascii_digit (sr_sas p) = sas \<and> rt_state rt' = Established \<and>
        rt_peer_key rt' = rt_peer_key rt \<and>
        rt_grant rt' = Some (newly_paired
          (device_id_from_public_key (se_hash (ve_server env)) (rt_peer_key rt))) \<and>
        (\<forall>bs eff. r = Inr (bs, eff) \<longrightarrow>
           eff = EffRegistered (rt_peer_key rt) (sr_device_name p) (sr_device_model p))))"
proof (cases "rq_method req = SYS_REGISTER")
  case True
  from dispatch_pairing(2) [OF assms True] have reg: "sys_register env rt req = (rt', r)" .
  from reg assms(1) show ?thesis
  proof (cases rule: sys_register_cases)
    case (refused e)
    with dispatch_pairing(1) [OF assms] show ?thesis by blast
  next
    case (registered p)
    with dispatch_pairing(1) [OF assms] True show ?thesis by auto
  qed
next
  case False
  from dispatch_pairing(1,3) [OF assms] False show ?thesis by blast
qed

theorem pairing_gate_witness:
  "rt_grant (fst (dispatch sample_daemon_env sample_daemon (router_pairing sample_peer ''418273'')
      one_terminal (sample_call ''sys.register'' ''418-274''))) = None \<and>
   rt_grant (fst (dispatch sample_daemon_env sample_daemon (router_pairing sample_peer ''418273'')
      one_terminal (sample_call ''sys.register'' ''418-273''))) \<noteq> None"
proof -
  let ?rt = "router_pairing sample_peer ''418273''"
  have state: "rt_state ?rt = Pairing ''418273''" by (simp add: router_pairing_def)
  have digits: "filter is_ascii_digit ''418-274'' = ''418274''" "filter is_ascii_digit ''418-273'' = ''418273''"
    by code_simp+
  obtain rt' m' r where d: "dispatch sample_daemon_env sample_daemon ?rt one_terminal
      (sample_call ''sys.register'' ''418-274'') = (rt', m', r)"
    by (rule prod_cases3)
  from pairing_gate [OF state d] digits(1) have "rt_grant rt' = None"
    by (auto simp: router_pairing_def sample_daemon_env_def sample_codec_def sample_call_def)
  moreover have "sys_register sample_daemon_env ?rt (sample_call ''sys.register'' ''418-273'') =
      (?rt\<lparr>rt_grant := Some (newly_paired (device_id_from_public_key id sample_peer)),
           rt_state := Established\<rparr>, Inr ([], EffRegistered sample_peer ''P'' None))"
    using digits(2)
    by (simp add: sys_register_def decode_def encode_def sample_daemon_env_def sample_codec_def
        sample_call_def router_pairing_def)
  ultimately show ?thesis
    using d
    by (simp add: dispatch_def Let_def router_pairing_def METHOD_ALL_def method_defs sample_call_def)
qed

text \<open>
  C5: least privilege.  On an established connection no request changes the grant the connection was
  opened with, and none registers anything.  Only a device that may start terminals changes any
  terminal or gets an answer about one, only a device that may read files gets a listing or
  contents, and beyond these there is only the answer to \<open>sys.info\<close>.
\<close>

theorem least_privilege:
  assumes "rt_state rt = Established" and "dispatch env dm rt m req = (rt', m', r)"
  shows "rt' = rt \<and> (m' \<noteq> m \<longrightarrow> may (rt_grant rt) PtySpawn) \<and>
    (\<forall>bs eff. r = Inr (bs, eff) \<longrightarrow> eff = EffNone \<and>
       (rq_method req \<in> terminal_methods \<longrightarrow> may (rt_grant rt) PtySpawn) \<and>
       (rq_method req \<in> {FS_LIST, FS_READ} \<longrightarrow> may (rt_grant rt) FsRead) \<and>
       rq_method req \<in> insert SYS_INFO ({FS_LIST, FS_READ} \<union> terminal_methods))"
proof (intro conjI impI allI)
  show "rt' = rt" by (rule dispatch_router_same [OF assms])
  show "m' \<noteq> m \<Longrightarrow> may (rt_grant rt) PtySpawn"
    using dispatch_terminals_same [OF _ assms(2)] by blast
  fix bs eff assume "r = Inr (bs, eff)"
  note ok = dispatch_Ok_may [OF assms(1) assms(2) [unfolded this]]
  from ok show "eff = EffNone"
    "rq_method req \<in> terminal_methods \<Longrightarrow> may (rt_grant rt) PtySpawn"
    "rq_method req \<in> {FS_LIST, FS_READ} \<Longrightarrow> may (rt_grant rt) FsRead"
    "rq_method req \<in> insert SYS_INFO ({FS_LIST, FS_READ} \<union> terminal_methods)" by blast+
qed

theorem least_privilege_witness:
  "let rt = router_established sample_peer (grant_new sample_device cs_EMPTY)
   in fst (snd (dispatch sample_daemon_env sample_daemon rt one_terminal (sample_call ''pty.kill'' ''1'')))
        = one_terminal"
proof -
  let ?rt = "router_established sample_peer (grant_new sample_device cs_EMPTY)"
  have state: "rt_state ?rt = Established" and no: "\<not> may (rt_grant ?rt) PtySpawn"
    by (simp_all add: router_established_def may_def grant_new_def)
  obtain rt' m' r where d: "dispatch sample_daemon_env sample_daemon ?rt one_terminal
      (sample_call ''pty.kill'' ''1'') = (rt', m', r)"
    by (rule prod_cases3)
  from least_privilege [OF state d] no d show ?thesis by auto
qed

text \<open>
  Every request is answered once, under its own number, with a result or an error and never with
  mere progress; a method this build does not have is reported as unsupported, whatever the state of
  the connection, and changes nothing.
\<close>

theorem every_request_answered:
  assumes "handle env dm rt m req = (rt', m', resp, eff)"
  shows "rs_id resp = rq_id req \<and> body_is_terminal (rs_body resp) \<and>
    (rq_method req \<notin> set METHOD_ALL \<longrightarrow>
       rs_body resp = BodyError (unsupported (rq_method req)) \<and> rt' = rt \<and> m' = m \<and> eff = EffNone)"
proof -
  have "rs_id resp = rq_id req \<and> body_is_terminal (rs_body resp)"
    using assms by (auto simp: handle_def split: prod.splits sum.splits)
  moreover have "rs_body resp = BodyError (unsupported (rq_method req)) \<and> rt' = rt \<and> m' = m \<and> eff = EffNone"
    if "rq_method req \<notin> set METHOD_ALL"
    using assms that by (auto simp: handle_def dispatch_def Let_def)
  ultimately show ?thesis by blast
qed

theorem every_request_answered_witness:
  "\<exists>resp. handle sample_daemon_env sample_daemon (router_pairing sample_peer ''418273'') one_terminal
      (sample_call ''git.push'' []) = (router_pairing sample_peer ''418273'', one_terminal, resp, EffNone) \<and>
     rs_id resp = 7"
proof -
  obtain rt' m' resp eff where h: "handle sample_daemon_env sample_daemon
      (router_pairing sample_peer ''418273'') one_terminal (sample_call ''git.push'' []) = (rt', m', resp, eff)"
    by (rule prod_cases4)
  have "rq_method (sample_call ''git.push'' []) \<notin> set METHOD_ALL"
    by (simp add: sample_call_def METHOD_ALL_def method_defs)
  with every_request_answered [OF h] h show ?thesis
    by (auto simp: sample_call_def)
qed

end
