(* ===== verification/Phone.thy ===== *)
theory Phone
  imports Iroh StateDir Router
begin

text \<open>
  \<open>gonomad-ffi/src/client.rs\<close>, its parts: the errors of the phone's client, the requests that wait
  for an answer, the live connection with its reader, and how a connection is established.  The
  client that uses them is in \<open>PhoneClient\<close>.

  What travels on the control stream is in \<open>Streams\<close>; here a send is the frame and whether it
  succeeded, and the reader is told what arrives.
\<close>

section \<open>Constants, errors and status\<close>

definition CLIENT_VERSION :: string where "CLIENT_VERSION = ''gonomad-android/0.0.1''"
definition DEFAULT_REQUEST_TIMEOUT :: nat where "DEFAULT_REQUEST_TIMEOUT = 20 * 1000"
definition HELLO_TIMEOUT :: nat where "HELLO_TIMEOUT = 10 * 1000"
definition DEFAULT_COLS :: nat where "DEFAULT_COLS = 80"
definition DEFAULT_ROWS :: nat where "DEFAULT_ROWS = 24"

datatype client_error =
    NotPaired
  | NotConnected
  | RefusedUnpaired
  | RefusedRevoked
  | DaemonTooOld nat
  | AppTooOld nat
  | TooManyAttempts nat
  | TransportFailed transport_error
  | PairingRejected
  | BadTicket pairing_error
  | StorageFailed storage_error
  | Remote proto_error
  | FramingFailed frame_error
  | RequestTimeout
  | RequestLost
  | MalformedReply string
  | TooLarge nat nat
  | NoPairingInProgress
  | InternalError string

datatype conn_phase = PhDisconnected | PhConnecting | PhConnected | PhUnpaired | PhRevoked

record connection_status =
  ss_phase :: conn_phase
  ss_daemon_name :: "string option"
  ss_rtt_ms :: "nat option"
  ss_transport :: "tier option"

definition status_idle :: "paired_daemon option \<Rightarrow> connection_status" where
  "status_idle daemon =
     \<lparr>ss_phase = (case daemon of Some _ \<Rightarrow> PhDisconnected | None \<Rightarrow> PhUnpaired),
      ss_daemon_name = map_option pd_name daemon, ss_rtt_ms = None, ss_transport = None\<rparr>"

definition from_reject :: "reject_reason \<Rightarrow> client_error" where
  "from_reject reason =
     (case reason of
        VersionTooOld server_min \<Rightarrow> AppTooOld server_min
      | VersionTooNew server_max \<Rightarrow> DaemonTooOld server_max
      | Unpaired \<Rightarrow> RefusedUnpaired
      | Revoked \<Rightarrow> RefusedRevoked
      | RejectRateLimited retry_after \<Rightarrow> TooManyAttempts retry_after)"

section \<open>The codec\<close>

text \<open>
  The parameters of a method and the type its result is read at; the CBOR of both is the codec's.
  A reader that is typed never gives a value of another type.
\<close>

datatype rpc_params =
    PRegister sys_register_params
  | PSysInfo
  | PList string
  | PRead string
  | PSpawn pty_spawn_params
  | PInput pty_input_params
  | PResize pty_resize_params
  | PPtyId pty_id
  | PEmpty

datatype result_type = TSysInfo | TRegister | TList | TRead | TSpawn | TScreen | TPtys | TEmpty

fun reply_type :: "reply \<Rightarrow> result_type" where
  "reply_type (RSysInfo _) = TSysInfo"
| "reply_type (RSysRegister _ _) = TRegister"
| "reply_type (RFsList _ _) = TList"
| "reply_type (RFsRead _) = TRead"
| "reply_type (RPtySpawn _ _ _) = TSpawn"
| "reply_type (RScreen _) = TScreen"
| "reply_type (RPtyList _) = TPtys"
| "reply_type REmpty = TEmpty"

record phone_codec =
  pc_to_cbor :: "control_message \<Rightarrow> bytes option"
  pc_from_cbor :: "bytes \<Rightarrow> control_message option"
  pc_params :: "rpc_params \<Rightarrow> bytes option"
  pc_result :: "result_type \<Rightarrow> bytes \<Rightarrow> reply option"

definition decode_result :: "phone_codec \<Rightarrow> result_type \<Rightarrow> bytes \<Rightarrow> (client_error, reply) result" where
  "decode_result pc ty bs =
     (case pc_result pc ty bs of
        Some r \<Rightarrow>
          if reply_type r = ty then Ok r
          else Err (MalformedReply ''the result did not match what this app expected'')
      | None \<Rightarrow> Err (MalformedReply ''the result did not match what this app expected''))"

definition encode_request ::
  "phone_codec \<Rightarrow> correlation_id \<Rightarrow> string \<Rightarrow> rpc_params \<Rightarrow> (client_error, frame) result" where
  "encode_request pc i meth params =
     rbind (ok_or (pc_params pc params) (InternalError ''request parameters could not be encoded'')) (\<lambda>encoded.
     let message = Request \<lparr>rq_id = i, rq_method = meth, rq_params = encoded, rq_idempotency = None,
                            rq_presence = None\<rparr> in
     rbind (map_err FramingFailed (frame_cbor (pc_to_cbor pc) FLAGS_LAST message)) (\<lambda>fr.
     let max_len = mc_max_frame_len mux_config_default in
     if length (frame_payload fr) > max_len then Err (TooLarge (length (frame_payload fr)) max_len)
     else Ok fr))"

section \<open>Requests that wait\<close>

text \<open>
  A one-shot channel as its receiver finds it: nothing yet, the answer, or the sender gone.  The map
  of slots gives the channel of each request that waits.
\<close>

type_synonym answer = "(proto_error, bytes) result"

datatype oneshot = Waiting | Sent answer | SenderGone

record pending_map =
  pm_slots :: "(correlation_id \<times> nat) list"
  pm_channels :: "oneshot list"

definition pending_new :: pending_map where
  "pending_new = \<lparr>pm_slots = [], pm_channels = []\<rparr>"

definition without :: "'k \<Rightarrow> ('k \<times> 'v) list \<Rightarrow> ('k \<times> 'v) list" where
  "without k xs = filter (\<lambda>p. fst p \<noteq> k) xs"

text \<open>A sender that is dropped is noticed only where nothing was sent.\<close>

definition drop_sender :: "nat \<Rightarrow> oneshot list \<Rightarrow> oneshot list" where
  "drop_sender ch chans = (if ch < length chans \<and> chans ! ch = Waiting then chans[ch := SenderGone] else chans)"

definition pending_register :: "correlation_id \<Rightarrow> pending_map \<Rightarrow> pending_map \<times> nat" where
  "pending_register i pm =
     (let ch = length (pm_channels pm);
          chans = (case map_of (pm_slots pm) i of Some old \<Rightarrow> drop_sender old (pm_channels pm) | None \<Rightarrow> pm_channels pm)
      in (\<lparr>pm_slots = (i, ch) # without i (pm_slots pm), pm_channels = chans @ [Waiting]\<rparr>, ch))"

definition pending_take :: "correlation_id \<Rightarrow> pending_map \<Rightarrow> pending_map \<times> nat option" where
  "pending_take i pm = (pm\<lparr>pm_slots := without i (pm_slots pm)\<rparr>, map_of (pm_slots pm) i)"

definition pending_deliver :: "response \<Rightarrow> pending_map \<Rightarrow> pending_map" where
  "pending_deliver rs pm =
     (case (case rs_body rs of
              BodyOk result \<Rightarrow> Some (Ok result)
            | BodyError e \<Rightarrow> Some (Err e)
            | BodyProgress _ _ _ \<Rightarrow> None) of
        None \<Rightarrow> pm
      | Some r \<Rightarrow>
          (case pending_take (rs_id rs) pm of
             (pm', Some ch) \<Rightarrow> pm'\<lparr>pm_channels := (pm_channels pm')[ch := Sent r]\<rparr>
           | (pm', None) \<Rightarrow> pm'))"

text \<open>Every sender in the map is dropped.\<close>

definition abandon_all :: "pending_map \<Rightarrow> pending_map" where
  "abandon_all pm =
     \<lparr>pm_slots = [],
      pm_channels = map (\<lambda>(ch, x). if x = Waiting \<and> ch \<in> snd ` set (pm_slots pm) then SenderGone else x)
                      (enumerate 0 (pm_channels pm))\<rparr>"

section \<open>A live connection\<close>

text \<open>
  \<open>lv_reading\<close> says that the reader task runs, \<open>lv_sent\<close> lists the frames that went out.  The counter
  of correlation ids is a \<open>u64\<close> that wraps.
\<close>

record 't live =
  lv_conn :: "'t iroh_connection"
  lv_pending :: pending_map
  lv_next_id :: nat
  lv_hello :: hello_ok
  lv_reading :: bool
  lv_sent :: "frame list"

definition live_start :: "'t iroh_connection \<Rightarrow> hello_ok \<Rightarrow> frame \<Rightarrow> 't live" where
  "live_start conn ok hello_frame =
     \<lparr>lv_conn = conn, lv_pending = pending_new, lv_next_id = 1, lv_hello = ok, lv_reading = True,
      lv_sent = [hello_frame]\<rparr>"

definition live_drop :: "'t live \<Rightarrow> 't live" where
  "live_drop l = l\<lparr>lv_reading := False, lv_conn := iroh_close (lv_conn l)\<rparr>"

text \<open>
  \<open>Live::request\<close> up to its first send: the id is taken and the slot registered before the frame is
  on its way.  The result is the frame, the id and the channel to wait on.
\<close>

definition request_start ::
  "phone_codec \<Rightarrow> string \<Rightarrow> rpc_params \<Rightarrow> 't live \<Rightarrow>
     't live \<times> (client_error, frame \<times> correlation_id \<times> nat) result" where
  "request_start pc meth params l =
     (let i = lv_next_id l;
          l1 = l\<lparr>lv_next_id := Suc i mod 2 ^ 64\<rparr>
      in case encode_request pc i meth params of
           Inl e \<Rightarrow> (l1, Err e)
         | Inr fr \<Rightarrow>
             let (pm, ch) = pending_register i (lv_pending l1)
             in (l1\<lparr>lv_pending := pm\<rparr>, Ok (fr, i, ch)))"

text \<open>The slot is given up, its sender dropped: the send failed, or the deadline passed.\<close>

definition request_abandon :: "correlation_id \<Rightarrow> 't live \<Rightarrow> 't live" where
  "request_abandon i l =
     (case pending_take i (lv_pending l) of
        (pm, None) \<Rightarrow> l\<lparr>lv_pending := pm\<rparr>
      | (pm, Some ch) \<Rightarrow> l\<lparr>lv_pending := pm\<lparr>pm_channels := drop_sender ch (pm_channels pm)\<rparr>\<rparr>)"

definition live_send :: "frame \<Rightarrow> 't live \<Rightarrow> 't live" where
  "live_send fr l = l\<lparr>lv_sent := lv_sent l @ [fr]\<rparr>"

text \<open>What the request makes of its channel; \<open>None\<close> while it waits.\<close>

definition request_outcome ::
  "phone_codec \<Rightarrow> result_type \<Rightarrow> oneshot \<Rightarrow> (client_error, reply) result option" where
  "request_outcome pc ty chan =
     (case chan of
        Waiting \<Rightarrow> None
      | Sent (Inr bs) \<Rightarrow> Some (decode_result pc ty bs)
      | Sent (Inl e) \<Rightarrow> Some (Err (Remote e))
      | SenderGone \<Rightarrow> Some (Err RequestLost))"

definition cancel_frame :: "phone_codec \<Rightarrow> correlation_id \<Rightarrow> frame option" where
  "cancel_frame pc i =
     (case frame_cbor (pc_to_cbor pc) FLAGS_LAST (Cancel i) of Inl _ \<Rightarrow> None | Inr fr \<Rightarrow> Some fr)"

text \<open>One turn of \<open>route_control\<close>, with whether an answer to a heartbeat could be sent.\<close>

datatype control_read = GotFrame frame | StreamEnded | StreamFailed transport_error

definition reader_ends :: "'t live \<Rightarrow> 't live" where
  "reader_ends l = l\<lparr>lv_reading := False, lv_pending := abandon_all (lv_pending l)\<rparr>"

definition route_control :: "phone_codec \<Rightarrow> control_read \<Rightarrow> bool \<Rightarrow> 't live \<Rightarrow> 't live" where
  "route_control pc r pong_ok l =
     (if \<not> lv_reading l then l
      else
        case r of
          StreamEnded \<Rightarrow> reader_ends l
        | StreamFailed _ \<Rightarrow> reader_ends l
        | GotFrame fr \<Rightarrow>
            (case frame_decode_cbor (pc_from_cbor pc) fr of
               Inl _ \<Rightarrow> l
             | Inr message \<Rightarrow>
                 (case message of
                    Response rs \<Rightarrow>
                      if body_is_terminal (rs_body rs)
                      then l\<lparr>lv_pending := pending_deliver rs (lv_pending l)\<rparr>
                      else l
                  | Ping beat \<Rightarrow>
                      (case frame_cbor (pc_to_cbor pc) FLAGS_LAST (Pong beat) of
                         Inl _ \<Rightarrow> l
                       | Inr pong \<Rightarrow> if pong_ok then live_send pong l else reader_ends l)
                  | _ \<Rightarrow> l)))"

section \<open>Establishing a connection\<close>

text \<open>What arrives on the control stream until a verdict on the hello; \<open>None\<close> while there is none.\<close>

fun read_hello :: "phone_codec \<Rightarrow> control_read list \<Rightarrow> (client_error, hello_ok) result option" where
  "read_hello pc [] = None"
| "read_hello pc (r # rs) =
     (case r of
        StreamFailed e \<Rightarrow> Some (Err (TransportFailed e))
      | StreamEnded \<Rightarrow> Some (Err RequestLost)
      | GotFrame fr \<Rightarrow>
          (case frame_decode_cbor (pc_from_cbor pc) fr of
             Inr (HelloOk ok) \<Rightarrow> Some (Ok ok)
           | Inr (HelloReject rej) \<Rightarrow> Some (Err (from_reject (hr_reason rej)))
           | Inr _ \<Rightarrow> read_hello pc rs
           | Inl _ \<Rightarrow> Some (Err (MalformedReply ''the hello reply was not a control message''))))"

text \<open>
  The network under one attempt: whether the endpoint comes up, what dialling an address gives,
  whether the hello can be sent, and what is read until the deadline.
\<close>

record 'a phone_net =
  pn_comes_up :: bool
  pn_dial :: "'a \<Rightarrow> iroh_dial"
  pn_hello :: "transport_error option"
  pn_reads :: "control_read list"

definition dial_config ::
  "device_identity \<Rightarrow> purpose \<Rightarrow> pairing_secret option \<Rightarrow> (client_error, iroh_config) result" where
  "dial_config i p psk =
     (case (p, psk) of
        (ForPairing, Some secret) \<Rightarrow> Ok (iroh_pairing_dialer i secret)
      | (Reconnect, None) \<Rightarrow> Ok (iroh_dialer i)
      | _ \<Rightarrow> Err NotPaired)"

definition hello_message :: "curves \<Rightarrow> device_identity \<Rightarrow> control_message" where
  "hello_message cv i =
     Hello \<lparr>he_proto_version = PROTOCOL_VERSION, he_min_supported = MIN_PROTOCOL_VERSION,
            he_client_version = CLIENT_VERSION, he_device_key = identity_public_key cv i,
            he_requested = cs_default_grant, he_dicts = [], he_features = [], he_resume = None\<rparr>"

record ('h, 't, 'r, 'a) phone_env =
  pe_hash :: hash_fn
  pe_curves :: curves
  pe_snow :: "('h, 't) snow"
  pe_crate :: "('r, 'a) iroh_crate"
  pe_codec :: phone_codec
  pe_os :: os
  pe_cbor :: daemon_cbor
  pe_hex :: hex_codec
  pe_encoder :: encoder
  pe_root :: storage

definition establish ::
  "('h, 't, 'r, 'a) phone_env \<Rightarrow> 'a phone_net \<Rightarrow> device_identity \<Rightarrow> purpose \<Rightarrow> pairing_secret option \<Rightarrow>
     peer_id \<Rightarrow> addr_hint list \<Rightarrow> (client_error, 't live) result" where
  "establish en net i p psk peer hints =
     rbind (dial_config i p psk) (\<lambda>c.
     rbind (map_err TransportFailed
              (iroh_bind (pe_crate en) (\<lambda>_. True) (pn_comes_up net) c :: (transport_error, 't iroh_transport) result)) (\<lambda>_.
     rbind (map_err TransportFailed
              (connect_iroh (pe_hash en) (pe_snow en) (pe_crate en) c (pn_dial net) peer hints)) (\<lambda>conn0.
     let (conn, opened) = open_stream (pe_snow en) None conn0 in
     rbind (map_err TransportFailed opened) (\<lambda>_.
     rbind (map_err FramingFailed
              (frame_cbor (pc_to_cbor (pe_codec en)) FLAGS_LAST (hello_message (pe_curves en) i))) (\<lambda>hello.
     case pn_hello net of
       Some e \<Rightarrow> Err (TransportFailed e)
     | None \<Rightarrow>
         (case read_hello (pe_codec en) (pn_reads net) of
            None \<Rightarrow> Err RequestTimeout
          | Some (Inl e) \<Rightarrow> Err e
          | Some (Inr ok) \<Rightarrow> Ok (live_start conn ok hello)))))))"

text \<open>
  \<open>daemon_name\<close>, from how the request for it went: the host's name, or where the machine was
  reached.
\<close>

definition daemon_name :: "(client_error, reply) result \<Rightarrow> string list \<Rightarrow> string" where
  "daemon_name info hints =
     (case info of
        Inr (RSysInfo si) \<Rightarrow> si_host_name si
      | _ \<Rightarrow> (case hints of h # _ \<Rightarrow> h | [] \<Rightarrow> ''Your machine''))"

section \<open>Facts\<close>

lemma map_of_without [simp]: "map_of (without k xs) x = (if x = k then None else map_of xs x)"
  by (induction xs) (auto simp: without_def)

lemma set_without [simp]: "set (without k xs) = {p \<in> set xs. fst p \<noteq> k}"
  by (auto simp: without_def)

lemma distinct_without: "distinct (map fst xs) \<Longrightarrow> distinct (map fst (without k xs))"
  by (simp add: without_def distinct_map_filter)

lemma length_drop_sender [simp]: "length (drop_sender ch xs) = length xs"
  by (simp add: drop_sender_def)

lemma nth_drop_sender:
  "j < length xs \<Longrightarrow> drop_sender ch xs ! j = (if j = ch \<and> xs ! j = Waiting then SenderGone else xs ! j)"
  by (auto simp: drop_sender_def nth_list_update)

lemma length_abandon [simp]: "length (pm_channels (abandon_all pm)) = length (pm_channels pm)"
  by (simp add: abandon_all_def)

lemma slots_abandon [simp]: "pm_slots (abandon_all pm) = []"
  by (simp add: abandon_all_def)

lemma nth_abandon:
  "j < length (pm_channels pm) \<Longrightarrow>
    pm_channels (abandon_all pm) ! j =
      (if pm_channels pm ! j = Waiting \<and> j \<in> snd ` set (pm_slots pm) then SenderGone else pm_channels pm ! j)"
  by (simp add: abandon_all_def nth_enumerate_eq)

text \<open>
  The slots are a map into the channels, and nobody waits without a slot.
\<close>

definition pending_ok :: "pending_map \<Rightarrow> bool" where
  "pending_ok pm \<longleftrightarrow> distinct (map fst (pm_slots pm)) \<and>
     (\<forall>p \<in> set (pm_slots pm). snd p < length (pm_channels pm)) \<and>
     (\<forall>ch < length (pm_channels pm). pm_channels pm ! ch = Waiting \<longrightarrow> ch \<in> snd ` set (pm_slots pm))"

text \<open>
  What may change in a map while requests wait on it: channels are added, slots are given up or
  point to the channels added, and an answer comes only through a slot, from those in \<open>G\<close>.
\<close>

definition pending_le :: "(correlation_id \<times> answer) set \<Rightarrow> pending_map \<Rightarrow> pending_map \<Rightarrow> bool" where
  "pending_le G pm pm' \<longleftrightarrow> length (pm_channels pm) \<le> length (pm_channels pm') \<and>
     (\<forall>p \<in> set (pm_slots pm'). p \<in> set (pm_slots pm) \<or> length (pm_channels pm) \<le> snd p) \<and>
     (\<forall>ch < length (pm_channels pm). \<forall>r. pm_channels pm' ! ch = Sent r \<longrightarrow>
        pm_channels pm ! ch = Sent r \<or> (\<exists>i. (i, ch) \<in> set (pm_slots pm) \<and> (i, r) \<in> G))"

lemma pending_le_refl [simp]: "pending_le G pm pm"
  by (simp add: pending_le_def)

lemma pending_new_ok [simp]: "pending_ok pending_new"
  by (simp add: pending_ok_def pending_new_def)

lemma pending_register_ok:
  assumes "pending_ok pm" and "pending_register i pm = (pm', ch)"
  shows "pending_ok pm' \<and> pending_le G pm pm' \<and> ch < length (pm_channels pm') \<and>
    pm_channels pm' ! ch = Waiting \<and> (\<forall>p \<in> set (pm_slots pm'). snd p = ch \<longrightarrow> fst p = i)"
proof -
  let ?old = "case map_of (pm_slots pm) i of Some old \<Rightarrow> drop_sender old (pm_channels pm) | None \<Rightarrow> pm_channels pm"
  have len: "length ?old = length (pm_channels pm)" by (simp split: option.split)
  have pm': "pm_slots pm' = (i, length (pm_channels pm)) # without i (pm_slots pm)"
    "pm_channels pm' = ?old @ [Waiting]" and ch: "ch = length (pm_channels pm)"
    using assms(2) by (auto simp: pending_register_def Let_def)
  have old: "?old ! j = (if map_of (pm_slots pm) i = Some j \<and> pm_channels pm ! j = Waiting then SenderGone
      else pm_channels pm ! j)" if "j < length (pm_channels pm)" for j
    using that by (auto simp: nth_drop_sender split: option.split)
  have waits: "j \<in> snd ` set (pm_slots pm')" if "j < length (pm_channels pm')" "pm_channels pm' ! j = Waiting" for j
  proof (cases "j < length (pm_channels pm)")
    case True
    with that old [OF True] len have "pm_channels pm ! j = Waiting" "map_of (pm_slots pm) i \<noteq> Some j"
      by (auto simp: pm' nth_append split: if_splits)
    moreover from this assms(1) True obtain k where k: "(k, j) \<in> set (pm_slots pm)"
      by (force simp: pending_ok_def)
    ultimately have "k \<noteq> i" using assms(1) by (auto simp: pending_ok_def)
    with k have "(k, j) \<in> set (pm_slots pm')" by (simp add: pm')
    then show ?thesis by force
  next
    case False
    with that len show ?thesis by (simp add: pm')
  qed
  show ?thesis
    using assms(1) len waits old
    by (auto simp: pending_ok_def pending_le_def pm' ch distinct_without nth_append split: if_splits)
qed

lemma pending_deliver_other [simp]: "\<not> body_is_terminal (rs_body rs) \<Longrightarrow> pending_deliver rs pm = pm"
  by (cases "rs_body rs") (simp_all add: pending_deliver_def)

definition body_answer :: "response_body \<Rightarrow> answer option" where
  "body_answer b =
     (case b of BodyOk bs \<Rightarrow> Some (Ok bs) | BodyError e \<Rightarrow> Some (Err e) | BodyProgress _ _ _ \<Rightarrow> None)"

lemma pending_deliver_ok:
  assumes "pending_ok pm" and "\<And>r. body_answer (rs_body rs) = Some r \<Longrightarrow> (rs_id rs, r) \<in> G"
  shows "pending_ok (pending_deliver rs pm) \<and> pending_le G pm (pending_deliver rs pm)"
proof (cases "body_answer (rs_body rs)")
  case None
  then show ?thesis using assms(1) by (simp add: pending_deliver_def body_answer_def)
next
  case (Some r)
  show ?thesis
  proof (cases "map_of (pm_slots pm) (rs_id rs)")
    case None
    then have "pending_deliver rs pm = pm\<lparr>pm_slots := without (rs_id rs) (pm_slots pm)\<rparr>"
      using Some by (simp add: pending_deliver_def body_answer_def pending_take_def)
    moreover have "without (rs_id rs) (pm_slots pm) = pm_slots pm"
      using None by (force simp: without_def map_of_eq_None_iff intro!: filter_True)
    ultimately show ?thesis using assms(1) by simp
  next
    case slot: (Some ch)
    then have pm': "pending_deliver rs pm =
        pm\<lparr>pm_slots := without (rs_id rs) (pm_slots pm), pm_channels := (pm_channels pm)[ch := Sent r]\<rparr>"
      using Some by (simp add: pending_deliver_def body_answer_def pending_take_def)
    have mem: "(rs_id rs, ch) \<in> set (pm_slots pm)" using slot by (rule map_of_SomeD)
    have only: "j = ch" if "(rs_id rs, j) \<in> set (pm_slots pm)" for j
      using that slot assms(1) by (auto simp: pending_ok_def)
    have "j \<in> snd ` set (without (rs_id rs) (pm_slots pm))"
      if j: "j < length (pm_channels pm)" "(pm_channels pm)[ch := Sent r] ! j = Waiting" for j
    proof -
      have "j \<noteq> ch" using j by auto
      with j assms(1) obtain k where k: "(k, j) \<in> set (pm_slots pm)"
        by (force simp: pending_ok_def)
      with only \<open>j \<noteq> ch\<close> have "k \<noteq> rs_id rs" by auto
      with k have "(k, j) \<in> set (without (rs_id rs) (pm_slots pm))" by simp
      then show ?thesis by force
    qed
    then show ?thesis
      using assms mem Some
      by (auto simp: pm' pending_ok_def pending_le_def distinct_without nth_list_update split: if_splits)
  qed
qed

lemma abandon_all_ok:
  assumes "pending_ok pm"
  shows "pending_ok (abandon_all pm) \<and> pending_le G pm (abandon_all pm) \<and>
    (\<forall>ch < length (pm_channels pm). pm_channels (abandon_all pm) ! ch \<noteq> Waiting)"
  using assms by (auto simp: pending_ok_def pending_le_def nth_abandon split: if_splits)

text \<open>The same of a connection: who it is with does not change.\<close>

definition live_le :: "(correlation_id \<times> answer) set \<Rightarrow> 't live \<Rightarrow> 't live \<Rightarrow> bool" where
  "live_le G l l' \<longleftrightarrow> pending_le G (lv_pending l) (lv_pending l') \<and>
     co_peer (lv_conn l') = co_peer (lv_conn l) \<and> co_config (lv_conn l') = co_config (lv_conn l)"

lemma live_le_refl [simp]: "live_le G l l"
  by (simp add: live_le_def)

abbreviation live_ok :: "'t live \<Rightarrow> bool" where
  "live_ok l \<equiv> pending_ok (lv_pending l)"

lemma request_abandon_ok:
  assumes "live_ok l"
  shows "live_ok (request_abandon i l) \<and> live_le G l (request_abandon i l)"
proof (cases "map_of (pm_slots (lv_pending l)) i")
  case None
  then have "without i (pm_slots (lv_pending l)) = pm_slots (lv_pending l)"
    by (force simp: without_def map_of_eq_None_iff intro!: filter_True)
  with None show ?thesis using assms by (simp add: request_abandon_def pending_take_def)
next
  case (Some ch)
  let ?pm = "lv_pending l"
  have only: "j = ch" if "(i, j) \<in> set (pm_slots ?pm)" for j
    using that Some assms by (auto simp: pending_ok_def)
  have "j \<in> snd ` set (without i (pm_slots ?pm))"
    if j: "j < length (pm_channels ?pm)" "drop_sender ch (pm_channels ?pm) ! j = Waiting" for j
  proof -
    have "j \<noteq> ch" "pm_channels ?pm ! j = Waiting" using j by (auto simp: nth_drop_sender split: if_splits)
    with j(1) assms obtain k where k: "(k, j) \<in> set (pm_slots ?pm)"
      by (force simp: pending_ok_def)
    with only \<open>j \<noteq> ch\<close> have "k \<noteq> i" by auto
    with k have "(k, j) \<in> set (without i (pm_slots ?pm))" by simp
    then show ?thesis by force
  qed
  then show ?thesis
    using assms Some
    by (auto simp: request_abandon_def pending_take_def live_le_def pending_ok_def pending_le_def
        distinct_without nth_drop_sender split: if_splits)
qed

lemma request_start_ok:
  assumes "live_ok l" and "request_start pc meth params l = (l', r)"
  shows "live_ok l' \<and> live_le G l l' \<and>
    (\<forall>fr i ch. r = Ok (fr, i, ch) \<longrightarrow> ch < length (pm_channels (lv_pending l')) \<and>
       pm_channels (lv_pending l') ! ch = Waiting \<and> (\<forall>p \<in> set (pm_slots (lv_pending l')). snd p = ch \<longrightarrow> fst p = i))"
proof (cases "encode_request pc (lv_next_id l) meth params")
  case (Inl e)
  with assms show ?thesis by (auto simp: request_start_def Let_def live_le_def)
next
  case (Inr fr)
  obtain pm ch where reg: "pending_register (lv_next_id l) (lv_pending l) = (pm, ch)" by fastforce
  from pending_register_ok [OF assms(1) reg, of G] show ?thesis
    using assms(2) Inr reg by (auto simp: request_start_def Let_def live_le_def)
qed

lemma live_send_ok [simp]:
  "lv_pending (live_send fr l) = lv_pending l" "lv_conn (live_send fr l) = lv_conn l"
  by (simp_all add: live_send_def)

lemma live_send_le [simp]: "live_le G l (live_send fr l)"
  by (simp add: live_le_def)

lemma live_drop_ok [simp]: "lv_pending (live_drop l) = lv_pending l"
  by (simp add: live_drop_def)

lemma live_drop_le [simp]: "live_le G l (live_drop l)"
  by (simp add: live_le_def live_drop_def iroh_close_def)

lemma reader_ends_ok:
  assumes "live_ok l"
  shows "live_ok (reader_ends l) \<and> live_le G l (reader_ends l)"
  using abandon_all_ok [OF assms] by (simp add: reader_ends_def live_le_def)

text \<open>The answers that a frame brings.\<close>

definition heard_in :: "phone_codec \<Rightarrow> control_read \<Rightarrow> (correlation_id \<times> answer) set" where
  "heard_in pc r =
     (case r of
        GotFrame fr \<Rightarrow>
          (case frame_decode_cbor (pc_from_cbor pc) fr of
             Inr (Response rs) \<Rightarrow> (case body_answer (rs_body rs) of Some a \<Rightarrow> {(rs_id rs, a)} | None \<Rightarrow> {})
           | _ \<Rightarrow> {})
      | _ \<Rightarrow> {})"

lemma route_control_ok:
  assumes "live_ok l" and "heard_in pc r \<subseteq> G"
  shows "live_ok (route_control pc r ok l) \<and> live_le G l (route_control pc r ok l)"
proof (cases "\<exists>fr rs. r = GotFrame fr \<and> frame_decode_cbor (pc_from_cbor pc) fr = Inr (Response rs)")
  case True
  then obtain fr rs where r: "r = GotFrame fr" "frame_decode_cbor (pc_from_cbor pc) fr = Inr (Response rs)"
    by blast
  have "(rs_id rs, a) \<in> G" if "body_answer (rs_body rs) = Some a" for a
    using assms(2) that by (auto simp: heard_in_def r)
  from pending_deliver_ok [OF assms(1) this] assms(1) show ?thesis
    by (auto simp: route_control_def r live_le_def)
next
  case False
  then show ?thesis
    using assms(1) reader_ends_ok [OF assms(1)]
    by (auto simp: route_control_def split: control_read.split sum.split control_message.split)
qed

text \<open>A connection that is established is with the peer that was dialled.\<close>

lemma iroh_establish_peer:
  assumes "iroh_establish hash sn c node paths stream (Some peer) = Ok conn"
  shows "co_peer conn = noise_key peer \<and> co_config conn = c"
  using assms by (auto simp: iroh_establish_def dest: initiate_peer)

lemma connect_iroh_peer:
  assumes "connect_iroh hash sn ic c net peer hints = Ok conn"
  shows "co_peer conn = noise_key peer \<and> co_config conn = c"
proof -
  from assms obtain addr where addr: "node_addr_from_hints ic hints = Ok addr"
    by (auto simp: connect_iroh_def)
  with assms show ?thesis
    using iroh_establish_peer
    by (cases "net addr") (fastforce simp: connect_iroh_def split: option.splits if_splits)+
qed

lemma open_stream_keeps:
  "open_stream sn q conn = (conn', r) \<Longrightarrow> co_peer conn' = co_peer conn \<and> co_config conn' = co_config conn"
  by (auto simp: open_stream_def take_control_def split: prod.splits option.splits if_splits)

lemma establish_peer:
  assumes "establish en net i p psk peer hints = Ok l"
  shows "live_ok l \<and> co_peer (lv_conn l) = noise_key peer \<and> ir_purpose (co_config (lv_conn l)) = p \<and>
    pm_channels (lv_pending l) = []"
proof -
  from assms obtain c conn0 conn op hello ok where
    c: "dial_config i p psk = Ok c" and
    conn: "connect_iroh (pe_hash en) (pe_snow en) (pe_crate en) c (pn_dial net) peer hints = Ok conn0"
      "open_stream (pe_snow en) None conn0 = (conn, op)" and l: "l = live_start conn ok hello"
    by (auto simp: establish_def case_prod_beta Let_def split: option.splits sum.splits) (metis prod.collapse)
  have "co_peer conn0 = noise_key peer \<and> co_config conn0 = c"
    using conn(1) by (rule connect_iroh_peer)
  moreover have "ir_purpose c = p"
    using c by (auto simp: dial_config_def iroh_pairing_dialer_def iroh_pairing_def iroh_dialer_def
        iroh_reconnect_def split: purpose.splits option.splits)
  ultimately show ?thesis
    using open_stream_keeps [OF conn(2)] l by (simp add: live_start_def pending_new_def pending_ok_def)
qed

end
