(* ===== verification/PhoneClient.thy ===== *)
theory PhoneClient
  imports Phone
begin

text \<open>
  \<open>gonomad-ffi/src/client.rs\<close>, the client: its state, its operations, and the tasks that run them.

  An operation that waits is a task.  What it does between two waits is one event, and the events of
  different tasks, of the readers and of the network come in any order; each says what the outside
  answered.  Threads are not interleaved within an event: each of its locks is held for a single section,
  and where two sections follow one another on the same path, \<open>adopt\<close> and \<open>tear_down\<close>, they are
  functions of their own.  Connections are kept in a list and named by their place in it; one that nothing refers
  to any more is closed, which is what dropping its last handle does.
\<close>

section \<open>State\<close>

record pairing_info =
  pg_live :: nat
  pg_sas :: sas
  pg_peer :: public_key
  pg_node_id :: public_key
  pg_addr_hints :: "string list"

text \<open>A request on its way: what it waits for, and how far it has come.\<close>

datatype stage = StSending frame | StAwaiting | StCancelling "frame option"

record in_flight =
  fl_live :: nat
  fl_id :: correlation_id
  fl_chan :: nat
  fl_type :: result_type
  fl_stage :: stage

datatype call_kind =
    CallValue
  | CallUnit
  | CallEntries
  | CallPtys
  | CallSpawn
  | CallAttach pty_id
  | CallPoll pty_id "screen_frame option"

datatype job =
    JobRegister pairing_info
  | JobName pairing_info string
  | JobCall call_kind

datatype answer_value =
    NoValue
  | DigitsShown string
  | Roots "string list"
  | Entries "dir_entry list"
  | PtyIds "pty_id list"
  | Result reply

datatype task =
    Dialling paired_daemon
  | PairDialling pairing_ticket pairing_secret
  | Asking in_flight job
  | Polling pty_id "screen_frame option"
  | Returned "(client_error, answer_value) result"
  | Stopped

record 't client =
  ph_identity :: device_identity
  ph_disk :: disk
  ph_daemon :: "paired_daemon option"
  ph_status :: connection_status
  ph_live :: "nat option"
  ph_lives :: "'t live list"
  ph_pairing :: "pairing_info option"
  ph_terminals :: "(pty_id \<times> nat) list"
  ph_tasks :: "task list"
  ph_observing :: bool
  ph_told :: "connection_status list"
  ph_watching :: bool
  ph_shown :: "screen_frame list"

text \<open>\<open>GonomadClient::create\<close>, with the random seed and whether the runtime starts.\<close>

definition client_create ::
  "('h, 't, 'r, 'a) phone_env \<Rightarrow> bytes \<Rightarrow> bool \<Rightarrow> disk \<Rightarrow> disk \<times> (client_error, 't client) result" where
  "client_create en seed runtime_ok d =
     (case load_or_create_identity (pe_os en) (pe_hex en) (pe_curves en) (pe_root en) seed d of
        (d', Inl e) \<Rightarrow> (d', Err (StorageFailed e))
      | (d', Inr i) \<Rightarrow>
          (d',
           rbind (map_err StorageFailed (load_daemon (pe_os en) (pe_cbor en) (pe_root en) d')) (\<lambda>daemon.
           if \<not> runtime_ok then Err (InternalError ''could not start the async runtime'')
           else Ok \<lparr>ph_identity = i, ph_disk = d', ph_daemon = daemon, ph_status = status_idle daemon,
                    ph_live = None, ph_lives = [], ph_pairing = None, ph_terminals = [], ph_tasks = [],
                    ph_observing = False, ph_told = [], ph_watching = False, ph_shown = []\<rparr>)))"

definition is_paired :: "'t client \<Rightarrow> bool" where
  "is_paired c \<longleftrightarrow> ph_daemon c \<noteq> None"

section \<open>Status and connection\<close>

definition update_status :: "(connection_status \<Rightarrow> connection_status) \<Rightarrow> 't client \<Rightarrow> 't client" where
  "update_status change c =
     (let new = change (ph_status c)
      in if new = ph_status c then c
         else c\<lparr>ph_status := new, ph_told := (if ph_observing c then ph_told c @ [new] else ph_told c)\<rparr>)"

definition set_phase :: "conn_phase \<Rightarrow> 't client \<Rightarrow> 't client" where
  "set_phase p c = update_status (\<lambda>s. s\<lparr>ss_phase := p\<rparr>) c"

definition abort_task :: "nat \<Rightarrow> 't client \<Rightarrow> 't client" where
  "abort_task n c = c\<lparr>ph_tasks := (ph_tasks c)[n := Stopped]\<rparr>"

text \<open>
  \<open>tear_down\<close> and \<open>adopt\<close> each take the lock of the connection first and that of the status
  afterwards, so there are two functions for each.  They are called one after the other within an
  event; no property below speaks of the status, and lemma \<open>status_may_lie\<close> shows what another
  thread between the two does to it.
\<close>

definition tear_down_live :: "'t client \<Rightarrow> 't client" where
  "tear_down_live c =
     (foldl (\<lambda>c (_, poller). abort_task poller c) c (ph_terminals c))\<lparr>ph_terminals := [], ph_live := None\<rparr>"

definition tear_down_status :: "'t client \<Rightarrow> 't client" where
  "tear_down_status c =
     update_status
       (\<lambda>s. s\<lparr>ss_phase := (if ss_phase s = PhConnected \<or> ss_phase s = PhConnecting then PhDisconnected
                           else ss_phase s),
              ss_rtt_ms := None, ss_transport := None\<rparr>) c"

definition tear_down :: "'t client \<Rightarrow> 't client" where
  "tear_down c = tear_down_status (tear_down_live c)"

definition healthy_live :: "'t client \<Rightarrow> 't client \<times> nat option" where
  "healthy_live c =
     (case ph_live c of
        None \<Rightarrow> (c, None)
      | Some i \<Rightarrow> if co_closed (lv_conn (ph_lives c ! i)) then (tear_down c, None) else (c, Some i))"

definition require_live :: "'t client \<Rightarrow> 't client \<times> (client_error, nat) result" where
  "require_live c =
     (case healthy_live c of
        (c', Some i) \<Rightarrow> (c', Ok i)
      | (c', None) \<Rightarrow> (c', Err (if ph_daemon c' = None then NotPaired else NotConnected)))"

text \<open>A connection is put at the end of the list; its place is its name.\<close>

definition add_live :: "'t live \<Rightarrow> 't client \<Rightarrow> 't client \<times> nat" where
  "add_live l c = (c\<lparr>ph_lives := ph_lives c @ [l]\<rparr>, length (ph_lives c))"

definition touch_daemon_seen ::
  "('h, 't, 'r, 'a) phone_env \<Rightarrow> int \<Rightarrow> paired_daemon \<Rightarrow> 't client \<Rightarrow> 't client" where
  "touch_daemon_seen en now pd c =
     (let updated = pd\<lparr>pd_last_seen := Some now\<rparr>
      in case save_daemon (pe_os en) (pe_cbor en) (pe_root en) updated (ph_disk c) of
           (d', Inl _) \<Rightarrow> c\<lparr>ph_disk := d'\<rparr>
         | (d', Inr _) \<Rightarrow> c\<lparr>ph_disk := d', ph_daemon := Some updated\<rparr>)"

definition adopt_live :: "'t live \<Rightarrow> 't client \<Rightarrow> 't client" where
  "adopt_live l c = (let (c1, i) = add_live l c in c1\<lparr>ph_live := Some i\<rparr>)"

definition adopt_status :: "path_info \<Rightarrow> paired_daemon \<Rightarrow> 't client \<Rightarrow> 't client" where
  "adopt_status path pd c =
     update_status
       (\<lambda>s. s\<lparr>ss_phase := PhConnected, ss_daemon_name := Some (pd_name pd),
              ss_rtt_ms := pi_rtt_ms path, ss_transport := Some (pi_tier path)\<rparr>) c"

definition adopt ::
  "('h, 't, 'r, 'a) phone_env \<Rightarrow> int \<Rightarrow> 't live \<Rightarrow> paired_daemon \<Rightarrow> 't client \<Rightarrow> 't client" where
  "adopt en now l pd c =
     touch_daemon_seen en now pd (adopt_status (co_path (lv_conn l)) pd (adopt_live l c))"

text \<open>\<open>connect\<close> up to its dialling, and what it does with the outcome.\<close>

definition connect_start :: "'t client \<Rightarrow> 't client \<times> task" where
  "connect_start c =
     (case ph_daemon c of
        None \<Rightarrow> (set_phase PhUnpaired c, Returned (Err NotPaired))
      | Some pd \<Rightarrow>
          (case healthy_live c of
             (c', Some _) \<Rightarrow> (c', Returned (Ok NoValue))
           | (c', None) \<Rightarrow> (set_phase PhConnecting c', Dialling pd)))"

definition connect_hints :: "paired_daemon \<Rightarrow> addr_hint list" where
  "connect_hints pd =
     (case pd_node_id pd of Some node \<Rightarrow> [HintNode node] | None \<Rightarrow> []) @ map hint_parse (pd_addr_hints pd)"

definition connect_done ::
  "('h, 't, 'r, 'a) phone_env \<Rightarrow> 'a phone_net \<Rightarrow> int \<Rightarrow> paired_daemon \<Rightarrow> 't client \<Rightarrow> 't client \<times> task" where
  "connect_done en net now pd c =
     (case establish en net (ph_identity c) Reconnect None (PeerId (pd_noise_key pd)) (connect_hints pd) of
        Inr l \<Rightarrow> (adopt en now l pd c, Returned (Ok NoValue))
      | Inl e \<Rightarrow>
          (set_phase (case e of RefusedUnpaired \<Rightarrow> PhUnpaired | RefusedRevoked \<Rightarrow> PhRevoked | _ \<Rightarrow> PhDisconnected) c,
           Returned (Err e)))"

section \<open>Requests\<close>

definition ask ::
  "('h, 't, 'r, 'a) phone_env \<Rightarrow> nat \<Rightarrow> string \<Rightarrow> rpc_params \<Rightarrow> result_type \<Rightarrow> 't client \<Rightarrow>
     't client \<times> (client_error, in_flight) result" where
  "ask en i meth params ty c =
     (let (l, r) = request_start (pe_codec en) meth params (ph_lives c ! i)
      in (c\<lparr>ph_lives := (ph_lives c)[i := l]\<rparr>,
          rbind r (\<lambda>(fr, rid, ch).
          Ok \<lparr>fl_live = i, fl_id = rid, fl_chan = ch, fl_type = ty, fl_stage = StSending fr\<rparr>)))"

definition attach_poller :: "pty_id \<Rightarrow> 't client \<Rightarrow> 't client" where
  "attach_poller pty c =
     (let n = length (ph_tasks c);
          c1 = c\<lparr>ph_tasks := ph_tasks c @ [Polling pty None],
                 ph_terminals := (pty, n) # without pty (ph_terminals c)\<rparr>
      in case map_of (ph_terminals c) pty of
           Some previous \<Rightarrow> abort_task previous c1
         | None \<Rightarrow> c1)"

text \<open>\<open>call\<close> once the request has returned, and the rest of the operation that made it.\<close>

fun call_value :: "call_kind \<Rightarrow> reply \<Rightarrow> answer_value" where
  "call_value CallUnit _ = NoValue"
| "call_value CallEntries (RFsList _ entries) = Entries entries"
| "call_value CallPtys (RPtyList ids) = PtyIds ids"
| "call_value _ r = Result r"

definition poll_done ::
  "pty_id \<Rightarrow> screen_frame option \<Rightarrow> screen_frame \<Rightarrow> 't client \<Rightarrow> 't client \<times> task" where
  "poll_done pty shown fr c =
     (let c1 = (if shown \<noteq> Some fr \<and> ph_watching c then c\<lparr>ph_shown := ph_shown c @ [fr]\<rparr> else c)
      in if sf_exited fr then (c1\<lparr>ph_terminals := without pty (ph_terminals c1)\<rparr>, Stopped)
         else (c1, Polling pty (Some fr)))"

definition loses_connection :: "client_error \<Rightarrow> bool" where
  "loses_connection e \<longleftrightarrow> e = RequestLost \<or> (\<exists>t. e = TransportFailed t)"

lemma loses_connection_code [code]:
  "loses_connection e = (case e of RequestLost \<Rightarrow> True | TransportFailed _ \<Rightarrow> True | _ \<Rightarrow> False)"
  by (simp add: loses_connection_def split: client_error.split)

definition call_done ::
  "call_kind \<Rightarrow> (client_error, reply) result \<Rightarrow> 't client \<Rightarrow> 't client \<times> task" where
  "call_done k r c =
     (case r of
        Inl e \<Rightarrow>
          (if loses_connection e then tear_down c else c,
           case k of CallPoll _ _ \<Rightarrow> Stopped | _ \<Rightarrow> Returned (Err e))
      | Inr rep \<Rightarrow>
          (case (k, rep) of
             (CallPoll pty shown, RScreen fr) \<Rightarrow> poll_done pty shown fr c
           | (CallSpawn, RPtySpawn pty _ _) \<Rightarrow> (attach_poller pty c, Returned (Ok (Result rep)))
           | (CallAttach pty, _) \<Rightarrow> (attach_poller pty c, Returned (Ok (Result rep)))
           | _ \<Rightarrow> (c, Returned (Ok (call_value k rep)))))"

definition call_start ::
  "('h, 't, 'r, 'a) phone_env \<Rightarrow> string \<Rightarrow> rpc_params \<Rightarrow> result_type \<Rightarrow> call_kind \<Rightarrow> 't client \<Rightarrow>
     't client \<times> task" where
  "call_start en meth params ty k c =
     (case require_live c of
        (c1, Inl e) \<Rightarrow> (c1, case k of CallPoll _ _ \<Rightarrow> Stopped | _ \<Rightarrow> Returned (Err e))
      | (c1, Inr i) \<Rightarrow>
          (case ask en i meth params ty c1 of
             (c2, Inl e) \<Rightarrow> call_done k (Err e) c2
           | (c2, Inr fl) \<Rightarrow> (c2, Asking fl (JobCall k))))"

section \<open>Pairing\<close>

definition cancel_pairing :: "'t client \<Rightarrow> 't client" where
  "cancel_pairing c = c\<lparr>ph_pairing := None\<rparr>"

definition begin_pairing_start ::
  "('h, 't, 'r, 'a) phone_env \<Rightarrow> string \<Rightarrow> 't client \<Rightarrow> 't client \<times> task" where
  "begin_pairing_start en payload c =
     (case ticket_decode (pe_encoder en) payload of
        Inl e \<Rightarrow> (c, Returned (Err (BadTicket e)))
      | Inr (ticket, secret) \<Rightarrow> (set_phase PhConnecting (cancel_pairing c), PairDialling ticket secret))"

definition begin_pairing_done ::
  "('h, 't, 'r, 'a) phone_env \<Rightarrow> 'a phone_net \<Rightarrow> pairing_ticket \<Rightarrow> pairing_secret \<Rightarrow> 't client \<Rightarrow>
     't client \<times> task" where
  "begin_pairing_done en net ticket secret c =
     (case establish en net (ph_identity c) ForPairing (Some secret) (PeerId (tk_daemon_key ticket))
             (hints_from_ticket ticket) of
        Inl e \<Rightarrow>
          (set_phase (if ph_daemon c \<noteq> None then PhDisconnected else PhUnpaired) c,
           Returned (Err (if e = TransportFailed HandshakeRefused then PairingRejected else e)))
      | Inr l \<Rightarrow>
          let (c1, i) = add_live l c
          in (c1\<lparr>ph_pairing := Some \<lparr>pg_live = i, pg_sas = co_sas (lv_conn l), pg_peer = co_peer (lv_conn l),
                                      pg_node_id = tk_node_id ticket, pg_addr_hints = tk_addr_hints ticket\<rparr>\<rparr>,
              Returned (Ok (DigitsShown (sas_grouped (co_sas (lv_conn l)))))))"

text \<open>
  \<open>confirm_pairing\<close>: the registration is asked for; once it is granted the name is asked for; once
  that has an outcome the record is written.
\<close>

definition confirm_start ::
  "('h, 't, 'r, 'a) phone_env \<Rightarrow> string \<Rightarrow> 't client \<Rightarrow> 't client \<times> task" where
  "confirm_start en device c =
     (case ph_pairing c of
        None \<Rightarrow> (c, Returned (Err NoPairingInProgress))
      | Some pg \<Rightarrow>
          (case ask en (pg_live pg) SYS_REGISTER
                  (PRegister \<lparr>sr_device_name = device, sr_device_model = None, sr_sas = sas_digits (pg_sas pg)\<rparr>)
                  TRegister c of
             (c1, Inl e) \<Rightarrow> (cancel_pairing c1, Returned (Err e))
           | (c1, Inr fl) \<Rightarrow> (c1, Asking fl (JobRegister pg))))"

definition confirm_record ::
  "('h, 't, 'r, 'a) phone_env \<Rightarrow> pairing_info \<Rightarrow> string \<Rightarrow> string \<Rightarrow> int \<Rightarrow> paired_daemon" where
  "confirm_record en pg registered name now =
     \<lparr>pd_noise_key = pg_peer pg, pd_node_id = Some (pg_node_id pg),
      pd_device_id = id_to_hex (pe_hex en) (key_bytes (pg_peer pg)), pd_registered_id = registered,
      pd_name = name, pd_addr_hints = pg_addr_hints pg, pd_paired_at = now, pd_last_seen = Some now\<rparr>"

definition confirm_named ::
  "('h, 't, 'r, 'a) phone_env \<Rightarrow> int \<Rightarrow> pairing_info \<Rightarrow> string \<Rightarrow> (client_error, reply) result \<Rightarrow> 't client \<Rightarrow>
     't client \<times> task" where
  "confirm_named en now pg registered info c =
     (let pd = confirm_record en pg registered (daemon_name info (pg_addr_hints pg)) now
      in case save_daemon (pe_os en) (pe_cbor en) (pe_root en) pd (ph_disk c) of
           (d', Inl e) \<Rightarrow> (c\<lparr>ph_disk := d'\<rparr>, Returned (Err (StorageFailed e)))
         | (d', Inr _) \<Rightarrow>
             (update_status (\<lambda>s. s\<lparr>ss_phase := PhDisconnected, ss_daemon_name := Some (pd_name pd)\<rparr>)
                (cancel_pairing (c\<lparr>ph_disk := d', ph_daemon := Some pd\<rparr>)),
              Returned (Ok NoValue)))"

definition confirm_registered ::
  "('h, 't, 'r, 'a) phone_env \<Rightarrow> int \<Rightarrow> pairing_info \<Rightarrow> (client_error, reply) result \<Rightarrow> 't client \<Rightarrow>
     't client \<times> task" where
  "confirm_registered en now pg r c =
     (case r of
        Inl e \<Rightarrow> (cancel_pairing c, Returned (Err e))
      | Inr (RSysRegister registered _) \<Rightarrow>
          (case ask en (pg_live pg) SYS_INFO PSysInfo TSysInfo c of
             (c1, Inl e) \<Rightarrow> confirm_named en now pg registered (Err e) c1
           | (c1, Inr fl) \<Rightarrow> (c1, Asking fl (JobName pg registered)))
      | Inr _ \<Rightarrow> (c, Stopped))"

definition unpair :: "('h, 't, 'r, 'a) phone_env \<Rightarrow> 't client \<Rightarrow> 't client \<times> (client_error, unit) result" where
  "unpair en c =
     (let c1 = (tear_down (cancel_pairing c))\<lparr>ph_daemon := None\<rparr>;
          c2 = update_status (\<lambda>s. s\<lparr>ss_phase := PhUnpaired, ss_daemon_name := None\<rparr>) c1;
          (d', r) = wipe (pe_os en) (pe_root en) (ph_disk c2)
      in (c2\<lparr>ph_disk := d'\<rparr>, map_err StorageFailed r))"

section \<open>Operations on the machine\<close>

datatype operation =
    ListDir string
  | ReadFile string
  | SysInfo
  | SpawnTerminal "string option"
  | SendInput pty_id string
  | ResizeTerminal pty_id nat nat
  | Screen pty_id
  | ListTerminals
  | AttachTerminal pty_id
  | CloseTerminal pty_id

fun op_request :: "operation \<Rightarrow> string \<times> rpc_params \<times> result_type \<times> call_kind" where
  "op_request (ListDir path) = (FS_LIST, PList path, TList, CallEntries)"
| "op_request (ReadFile path) = (FS_READ, PRead path, TRead, CallValue)"
| "op_request SysInfo = (SYS_INFO, PSysInfo, TSysInfo, CallValue)"
| "op_request (SpawnTerminal cwd) =
     (PTY_SPAWN, PSpawn \<lparr>sp_cwd = cwd, sp_shell = None, sp_cols = DEFAULT_COLS, sp_rows = DEFAULT_ROWS\<rparr>,
      TSpawn, CallSpawn)"
| "op_request (SendInput pty input) =
     (PTY_INPUT, PInput \<lparr>in_pty_id = pty, in_data = input\<rparr>, TEmpty, CallUnit)"
| "op_request (ResizeTerminal pty cols rows) =
     (PTY_RESIZE, PResize \<lparr>rz_pty_id = pty, rz_cols = cols, rz_rows = rows\<rparr>, TEmpty, CallUnit)"
| "op_request (Screen pty) = (PTY_SCREEN, PPtyId pty, TScreen, CallValue)"
| "op_request ListTerminals = (PTY_LIST, PEmpty, TPtys, CallPtys)"
| "op_request (AttachTerminal pty) = (PTY_SCREEN, PPtyId pty, TScreen, CallAttach pty)"
| "op_request (CloseTerminal pty) = (PTY_KILL, PPtyId pty, TEmpty, CallUnit)"

text \<open>\<open>close_terminal\<close> stops the poller before it asks.\<close>

definition detach_poller :: "pty_id \<Rightarrow> 't client \<Rightarrow> 't client" where
  "detach_poller pty c =
     (case map_of (ph_terminals c) pty of
        Some poller \<Rightarrow> abort_task poller (c\<lparr>ph_terminals := without pty (ph_terminals c)\<rparr>)
      | None \<Rightarrow> c)"

definition operation_start ::
  "('h, 't, 'r, 'a) phone_env \<Rightarrow> operation \<Rightarrow> 't client \<Rightarrow> 't client \<times> task" where
  "operation_start en opn c =
     (let (meth, params, ty, k) = op_request opn;
          c1 = (case opn of CloseTerminal pty \<Rightarrow> detach_poller pty c | _ \<Rightarrow> c)
      in call_start en meth params ty k c1)"

definition workspace_roots :: "'t client \<Rightarrow> 't client \<times> (client_error, string list) result" where
  "workspace_roots c =
     (let (c', r) = require_live c
      in (c', rbind r (\<lambda>i. Ok (ho_roots (lv_hello (ph_lives c' ! i))))))"

section \<open>Events\<close>

datatype 'a event =
    EvConnect
  | EvDialled nat "'a phone_net" int
  | EvDisconnect
  | EvBeginPairing string
  | EvPairDialled nat "'a phone_net"
  | EvConfirm string
  | EvCancelPairing
  | EvUnpair
  | EvOperation operation
  | EvRoots
  | EvSent nat "transport_error option" int
  | EvReply nat int
  | EvDeadline nat
  | EvCancelSent nat bool int
  | EvTick nat
  | EvRead nat control_read bool
  | EvLost nat
  | EvObserve
  | EvWatch

definition task_at :: "'t client \<Rightarrow> nat \<Rightarrow> task" where
  "task_at c n = (if n < length (ph_tasks c) then ph_tasks c ! n else Stopped)"

text \<open>A new task, and one that goes on.\<close>

definition spawned :: "'t client \<times> task \<Rightarrow> 't client" where
  "spawned s = (fst s)\<lparr>ph_tasks := ph_tasks (fst s) @ [snd s]\<rparr>"

definition resumed :: "nat \<Rightarrow> 't client \<times> task \<Rightarrow> 't client" where
  "resumed n s = (fst s)\<lparr>ph_tasks := (ph_tasks (fst s))[n := snd s]\<rparr>"

definition on_live :: "nat \<Rightarrow> ('t live \<Rightarrow> 't live) \<Rightarrow> 't client \<Rightarrow> 't client" where
  "on_live i f c = c\<lparr>ph_lives := (ph_lives c)[i := f (ph_lives c ! i)]\<rparr>"

text \<open>What a task does once its request has returned.\<close>

definition job_done ::
  "('h, 't, 'r, 'a) phone_env \<Rightarrow> int \<Rightarrow> job \<Rightarrow> (client_error, reply) result \<Rightarrow> 't client \<Rightarrow> 't client \<times> task" where
  "job_done en now jb r c =
     (case jb of
        JobRegister pg \<Rightarrow> confirm_registered en now pg r c
      | JobName pg registered \<Rightarrow> confirm_named en now pg registered r c
      | JobCall k \<Rightarrow> call_done k r c)"

definition request_sent ::
  "('h, 't, 'r, 'a) phone_env \<Rightarrow> nat \<Rightarrow> transport_error option \<Rightarrow> int \<Rightarrow> 't client \<Rightarrow> 't client" where
  "request_sent en n failed now c =
     (case task_at c n of
        Asking fl jb \<Rightarrow>
          (case fl_stage fl of
             StSending fr \<Rightarrow>
               (case failed of
                  None \<Rightarrow> resumed n (on_live (fl_live fl) (live_send fr) c, Asking (fl\<lparr>fl_stage := StAwaiting\<rparr>) jb)
                | Some e \<Rightarrow>
                    resumed n (job_done en now jb (Err (TransportFailed e))
                                 (on_live (fl_live fl) (request_abandon (fl_id fl)) c)))
           | _ \<Rightarrow> c)
      | _ \<Rightarrow> c)"

definition channel_of :: "'t client \<Rightarrow> in_flight \<Rightarrow> oneshot" where
  "channel_of c fl = pm_channels (lv_pending (ph_lives c ! fl_live fl)) ! fl_chan fl"

definition request_reply ::
  "('h, 't, 'r, 'a) phone_env \<Rightarrow> nat \<Rightarrow> int \<Rightarrow> 't client \<Rightarrow> 't client" where
  "request_reply en n now c =
     (case task_at c n of
        Asking fl jb \<Rightarrow>
          (if fl_stage fl \<noteq> StAwaiting then c
           else
             case request_outcome (pe_codec en) (fl_type fl) (channel_of c fl) of
               None \<Rightarrow> c
             | Some r \<Rightarrow> resumed n (job_done en now jb r c))
      | _ \<Rightarrow> c)"

text \<open>The deadline counts only while there is nothing in the channel.\<close>

definition request_deadline :: "('h, 't, 'r, 'a) phone_env \<Rightarrow> nat \<Rightarrow> 't client \<Rightarrow> 't client" where
  "request_deadline en n c =
     (case task_at c n of
        Asking fl jb \<Rightarrow>
          (if fl_stage fl = StAwaiting \<and> channel_of c fl = Waiting
           then resumed n (on_live (fl_live fl) (request_abandon (fl_id fl)) c,
                           Asking (fl\<lparr>fl_stage := StCancelling (cancel_frame (pe_codec en) (fl_id fl))\<rparr>) jb)
           else c)
      | _ \<Rightarrow> c)"

definition request_cancelled ::
  "('h, 't, 'r, 'a) phone_env \<Rightarrow> nat \<Rightarrow> bool \<Rightarrow> int \<Rightarrow> 't client \<Rightarrow> 't client" where
  "request_cancelled en n sent now c =
     (case task_at c n of
        Asking fl jb \<Rightarrow>
          (case fl_stage fl of
             StCancelling fro \<Rightarrow>
               resumed n (job_done en now jb (Err RequestTimeout)
                            (case fro of
                               Some fr \<Rightarrow> if sent then on_live (fl_live fl) (live_send fr) c else c
                             | None \<Rightarrow> c))
           | _ \<Rightarrow> c)
      | _ \<Rightarrow> c)"

text \<open>A connection that is held by the client, by a pairing or by a task is not dropped.\<close>

fun task_holds :: "nat \<Rightarrow> task \<Rightarrow> bool" where
  "task_holds i (Asking fl _) \<longleftrightarrow> fl_live fl = i"
| "task_holds i _ \<longleftrightarrow> False"

definition held :: "'t client \<Rightarrow> nat \<Rightarrow> bool" where
  "held c i \<longleftrightarrow> ph_live c = Some i \<or> (case ph_pairing c of Some pg \<Rightarrow> pg_live pg = i | None \<Rightarrow> False) \<or>
     list_ex (task_holds i) (ph_tasks c)"

definition drop_unheld :: "'t client \<Rightarrow> 't client" where
  "drop_unheld c =
     c\<lparr>ph_lives := map (\<lambda>(i, l). if held c i then l else live_drop l) (enumerate 0 (ph_lives c))\<rparr>"

definition handle_event :: "('h, 't, 'r, 'a) phone_env \<Rightarrow> 'a event \<Rightarrow> 't client \<Rightarrow> 't client" where
  "handle_event en ev c =
     (case ev of
        EvConnect \<Rightarrow> spawned (connect_start c)
      | EvDialled n net now \<Rightarrow>
          (case task_at c n of Dialling pd \<Rightarrow> resumed n (connect_done en net now pd c) | _ \<Rightarrow> c)
      | EvDisconnect \<Rightarrow> tear_down c
      | EvBeginPairing payload \<Rightarrow> spawned (begin_pairing_start en payload c)
      | EvPairDialled n net \<Rightarrow>
          (case task_at c n of
             PairDialling ticket secret \<Rightarrow> resumed n (begin_pairing_done en net ticket secret c)
           | _ \<Rightarrow> c)
      | EvConfirm device \<Rightarrow> spawned (confirm_start en device c)
      | EvCancelPairing \<Rightarrow> cancel_pairing c
      | EvUnpair \<Rightarrow> spawned (case unpair en c of (c', r) \<Rightarrow> (c', Returned (rbind r (\<lambda>_. Ok NoValue))))
      | EvOperation opn \<Rightarrow> spawned (operation_start en opn c)
      | EvRoots \<Rightarrow> spawned (case workspace_roots c of (c', r) \<Rightarrow> (c', Returned (rbind r (\<lambda>rs. Ok (Roots rs)))))
      | EvSent n failed now \<Rightarrow> request_sent en n failed now c
      | EvReply n now \<Rightarrow> request_reply en n now c
      | EvDeadline n \<Rightarrow> request_deadline en n c
      | EvCancelSent n sent now \<Rightarrow> request_cancelled en n sent now c
      | EvTick n \<Rightarrow>
          (case task_at c n of
             Polling pty shown \<Rightarrow> resumed n (call_start en PTY_SCREEN (PPtyId pty) TScreen (CallPoll pty shown) c)
           | _ \<Rightarrow> c)
      | EvRead i r pong_ok \<Rightarrow>
          (if i < length (ph_lives c) then on_live i (route_control (pe_codec en) r pong_ok) c else c)
      | EvLost i \<Rightarrow>
          (if i < length (ph_lives c) then on_live i (\<lambda>l. l\<lparr>lv_conn := iroh_close (lv_conn l)\<rparr>) c else c)
      | EvObserve \<Rightarrow> c\<lparr>ph_observing := True\<rparr>
      | EvWatch \<Rightarrow> c\<lparr>ph_watching := True\<rparr>)"

definition client_step :: "('h, 't, 'r, 'a) phone_env \<Rightarrow> 't client \<Rightarrow> 'a event \<Rightarrow> 't client" where
  "client_step en c ev = drop_unheld (handle_event en ev c)"

definition client_run :: "('h, 't, 'r, 'a) phone_env \<Rightarrow> 't client \<Rightarrow> 'a event list \<Rightarrow> 't client" where
  "client_run en c evs = foldl (client_step en) c evs"

section \<open>What every reachable client satisfies\<close>

text \<open>
  \<open>G\<close> is what has been heard: on which connection, in answer to which request, what.  \<open>S\<close> is what was
  remembered when the client was created: the key and the identifier of the record on the disk, if
  there was one.  A machine has granted a registration if it is that machine, or if a pairing
  connection with it heard the grant.
\<close>

type_synonym kept_set = "(public_key \<times> string) set"
type_synonym heard_set = "(nat \<times> correlation_id \<times> answer) set"

definition heard_on :: "heard_set \<Rightarrow> nat \<Rightarrow> (correlation_id \<times> answer) set" where
  "heard_on G i = {p. (i, p) \<in> G}"

definition granted ::
  "('h, 't, 'r, 'a) phone_env \<Rightarrow> kept_set \<Rightarrow> heard_set \<Rightarrow> 't live list \<Rightarrow> public_key \<Rightarrow> string \<Rightarrow> bool" where
  "granted en S G ls k rid \<longleftrightarrow> (k, rid) \<in> S \<or>
     (\<exists>i rq bs caps. (i, rq, Ok bs) \<in> G \<and> i < length ls \<and> co_peer (lv_conn (ls ! i)) = k \<and>
        ir_purpose (co_config (lv_conn (ls ! i))) = ForPairing \<and>
        pc_result (pe_codec en) TRegister bs = Some (RSysRegister rid caps))"

definition record_ok :: "('h, 't, 'r, 'a) phone_env \<Rightarrow> kept_set \<Rightarrow> heard_set \<Rightarrow> 't live list \<Rightarrow> paired_daemon \<Rightarrow> bool" where
  "record_ok en S G ls pd \<longleftrightarrow> granted en S G ls (pd_noise_key pd) (pd_registered_id pd)"

definition pairing_ok :: "'t live list \<Rightarrow> pairing_info \<Rightarrow> bool" where
  "pairing_ok ls pg \<longleftrightarrow> pg_live pg < length ls \<and> co_peer (lv_conn (ls ! pg_live pg)) = pg_peer pg \<and>
     ir_purpose (co_config (lv_conn (ls ! pg_live pg))) = ForPairing"

definition flight_ok :: "heard_set \<Rightarrow> 't live list \<Rightarrow> in_flight \<Rightarrow> bool" where
  "flight_ok G ls fl \<longleftrightarrow> fl_live fl < length ls \<and>
     fl_chan fl < length (pm_channels (lv_pending (ls ! fl_live fl))) \<and>
     (\<forall>p \<in> set (pm_slots (lv_pending (ls ! fl_live fl))). snd p = fl_chan fl \<longrightarrow> fst p = fl_id fl) \<and>
     (\<forall>r. pm_channels (lv_pending (ls ! fl_live fl)) ! fl_chan fl = Sent r \<longrightarrow> (fl_live fl, fl_id fl, r) \<in> G)"

definition slot_ok :: "('h, 't, 'r, 'a) phone_env \<Rightarrow> kept_set \<Rightarrow> heard_set \<Rightarrow> 't live list \<Rightarrow> nat \<Rightarrow> bool" where
  "slot_ok en S G ls i \<longleftrightarrow> i < length ls \<and> ir_purpose (co_config (lv_conn (ls ! i))) = Reconnect \<and>
     (\<exists>rid. granted en S G ls (co_peer (lv_conn (ls ! i))) rid)"

fun task_ok :: "('h, 't, 'r, 'a) phone_env \<Rightarrow> kept_set \<Rightarrow> heard_set \<Rightarrow> 't live list \<Rightarrow> task \<Rightarrow> bool" where
  "task_ok en S G ls (Dialling pd) \<longleftrightarrow> record_ok en S G ls pd"
| "task_ok en S G ls (Asking fl (JobRegister pg)) \<longleftrightarrow> flight_ok G ls fl \<and> pairing_ok ls pg \<and>
     fl_live fl = pg_live pg \<and> fl_type fl = TRegister"
| "task_ok en S G ls (Asking fl (JobName pg rid)) \<longleftrightarrow> flight_ok G ls fl \<and> granted en S G ls (pg_peer pg) rid"
| "task_ok en S G ls (Asking fl (JobCall _)) \<longleftrightarrow> flight_ok G ls fl \<and> slot_ok en S G ls (fl_live fl)"
| "task_ok en S G ls _ \<longleftrightarrow> True"

definition disk_ok :: "('h, 't, 'r, 'a) phone_env \<Rightarrow> kept_set \<Rightarrow> heard_set \<Rightarrow> 't live list \<Rightarrow> disk \<Rightarrow> bool" where
  "disk_ok en S G ls d \<longleftrightarrow>
     (\<forall>bs pd. file_bytes d (daemon_path (pe_os en) (pe_root en)) = Some bs \<longrightarrow>
        dc_decode (pe_cbor en) bs = Some pd \<longrightarrow> record_ok en S G ls pd)"

definition client_ok :: "('h, 't, 'r, 'a) phone_env \<Rightarrow> kept_set \<Rightarrow> heard_set \<Rightarrow> 't client \<Rightarrow> bool" where
  "client_ok en S G c \<longleftrightarrow>
     (\<forall>l \<in> set (ph_lives c). live_ok l) \<and> (\<forall>t \<in> set (ph_tasks c). task_ok en S G (ph_lives c) t) \<and>
     (\<forall>pd. ph_daemon c = Some pd \<longrightarrow> record_ok en S G (ph_lives c) pd) \<and> disk_ok en S G (ph_lives c) (ph_disk c) \<and>
     (\<forall>pg. ph_pairing c = Some pg \<longrightarrow> pairing_ok (ph_lives c) pg) \<and>
     (\<forall>i. ph_live c = Some i \<longrightarrow> slot_ok en S G (ph_lives c) i)"

text \<open>Connections are only added, and change as \<open>live_le\<close> allows.\<close>

definition lives_le :: "heard_set \<Rightarrow> 't live list \<Rightarrow> 't live list \<Rightarrow> bool" where
  "lives_le G ls ls' \<longleftrightarrow> length ls \<le> length ls' \<and>
     (\<forall>i < length ls. live_le (heard_on G i) (ls ! i) (ls' ! i))"

lemma lives_le_refl [simp]: "lives_le G ls ls"
  by (simp add: lives_le_def)

lemma lives_le_append [simp]: "lives_le G ls (ls @ xs)"
  by (simp add: lives_le_def nth_append)

lemma lives_le_update:
  "i < length ls \<Longrightarrow> live_le (heard_on G i) (ls ! i) l \<Longrightarrow> lives_le G ls (ls[i := l])"
  by (auto simp: lives_le_def nth_list_update)

lemma lives_leD:
  assumes "lives_le G ls ls'" and "i < length ls"
  shows "i < length ls'" "co_peer (lv_conn (ls' ! i)) = co_peer (lv_conn (ls ! i))"
    "co_config (lv_conn (ls' ! i)) = co_config (lv_conn (ls ! i))"
    "pending_le (heard_on G i) (lv_pending (ls ! i)) (lv_pending (ls' ! i))"
  using assms by (auto simp: lives_le_def live_le_def)

lemma granted_mono: "granted en S G ls k rid \<Longrightarrow> lives_le G ls ls' \<Longrightarrow> granted en S G ls' k rid"
  unfolding granted_def using lives_leD(1-3) [of G ls ls']
  by (elim disjE exE conjE) (blast, intro disjI2 exI conjI, auto)

lemma record_mono: "record_ok en S G ls pd \<Longrightarrow> lives_le G ls ls' \<Longrightarrow> record_ok en S G ls' pd"
  unfolding record_ok_def by (rule granted_mono)

lemma pairing_mono: "pairing_ok ls pg \<Longrightarrow> lives_le G ls ls' \<Longrightarrow> pairing_ok ls' pg"
  by (simp add: pairing_ok_def lives_leD)

lemma flight_mono:
  assumes "flight_ok G ls fl" and "lives_le G ls ls'"
  shows "flight_ok G ls' fl"
proof -
  let ?i = "fl_live fl"
  from assms(1) have i: "?i < length ls" by (simp add: flight_ok_def)
  have le: "pending_le (heard_on G ?i) (lv_pending (ls ! ?i)) (lv_pending (ls' ! ?i))"
    using lives_leD(4) [OF assms(2) i] .
  have "(?i, fl_id fl, r) \<in> G" if "pm_channels (lv_pending (ls' ! ?i)) ! fl_chan fl = Sent r" for r
    using that le assms(1) unfolding pending_le_def flight_ok_def heard_on_def by fastforce
  moreover have "fst p = fl_id fl"
    if "p \<in> set (pm_slots (lv_pending (ls' ! ?i)))" "snd p = fl_chan fl" for p
    using that le assms(1) unfolding pending_le_def flight_ok_def by fastforce
  ultimately show ?thesis
    using le assms(1) lives_leD(1) [OF assms(2) i] unfolding pending_le_def flight_ok_def by simp
qed

lemma slot_mono: "slot_ok en S G ls i \<Longrightarrow> lives_le G ls ls' \<Longrightarrow> slot_ok en S G ls' i"
  by (auto simp: slot_ok_def lives_leD intro: granted_mono)

lemma task_mono: "task_ok en S G ls t \<Longrightarrow> lives_le G ls ls' \<Longrightarrow> task_ok en S G ls' t"
  by (induction en S G ls t rule: task_ok.induct)
    (auto intro: record_mono granted_mono pairing_mono flight_mono slot_mono)

lemma client_ok_lives:
  assumes "client_ok en S G c" and "lives_le G (ph_lives c) ls" and "\<forall>l \<in> set ls. live_ok l"
  shows "client_ok en S G (c\<lparr>ph_lives := ls\<rparr>)"
proof -
  note keeps = task_mono [OF _ assms(2)] record_mono [OF _ assms(2)] pairing_mono [OF _ assms(2)]
    slot_mono [OF _ assms(2)]
  show ?thesis
    using assms(1,3) by (auto simp: client_ok_def disk_ok_def intro: keeps)
qed

text \<open>More may have been heard.\<close>

lemma granted_more: "granted en S G ls k rid \<Longrightarrow> G \<subseteq> G' \<Longrightarrow> granted en S G' ls k rid"
  unfolding granted_def by blast

lemma slot_more: "slot_ok en S G ls i \<Longrightarrow> G \<subseteq> G' \<Longrightarrow> slot_ok en S G' ls i"
  using granted_more unfolding slot_ok_def by blast

lemma task_more: "task_ok en S G ls t \<Longrightarrow> G \<subseteq> G' \<Longrightarrow> task_ok en S G' ls t"
proof (induction en S G ls t rule: task_ok.induct)
qed (auto simp: record_ok_def flight_ok_def intro: granted_more slot_more)

lemma client_ok_more: "client_ok en S G c \<Longrightarrow> G \<subseteq> G' \<Longrightarrow> client_ok en S G' c"
  by (auto simp: client_ok_def disk_ok_def record_ok_def intro: task_more granted_more slot_more)

section \<open>Every operation keeps it\<close>

definition step_ok :: "('h, 't, 'r, 'a) phone_env \<Rightarrow> kept_set \<Rightarrow> heard_set \<Rightarrow> 't client \<times> task \<Rightarrow> bool" where
  "step_ok en S G s \<longleftrightarrow> client_ok en S G (fst s) \<and> task_ok en S G (ph_lives (fst s)) (snd s)"

lemma spawned_ok: "step_ok en S G s \<Longrightarrow> client_ok en S G (spawned s)"
  by (auto simp: step_ok_def spawned_def client_ok_def)

lemma resumed_ok: "step_ok en S G s \<Longrightarrow> client_ok en S G (resumed n s)"
  by (auto simp: step_ok_def resumed_def client_ok_def dest!: set_update_subset_insert [THEN subsetD])

lemma update_status_fields [simp]:
  "ph_lives (update_status f c) = ph_lives c" "ph_tasks (update_status f c) = ph_tasks c"
  "ph_daemon (update_status f c) = ph_daemon c" "ph_disk (update_status f c) = ph_disk c"
  "ph_pairing (update_status f c) = ph_pairing c" "ph_live (update_status f c) = ph_live c"
  "ph_terminals (update_status f c) = ph_terminals c" "ph_status (update_status f c) = f (ph_status c)"
  "ph_identity (update_status f c) = ph_identity c"
  by (simp_all add: update_status_def Let_def)

lemma update_status_ok: "client_ok en S G c \<Longrightarrow> client_ok en S G (update_status f c)"
  by (simp add: client_ok_def)

lemma set_phase_ok: "client_ok en S G c \<Longrightarrow> client_ok en S G (set_phase p c)"
  by (simp add: set_phase_def update_status_ok)

lemma abort_task_ok: "client_ok en S G c \<Longrightarrow> client_ok en S G (abort_task n c)"
  by (auto simp: abort_task_def client_ok_def dest!: set_update_subset_insert [THEN subsetD])

lemma abort_task_fields [simp]:
  "ph_lives (abort_task n c) = ph_lives c" "ph_daemon (abort_task n c) = ph_daemon c"
  "ph_disk (abort_task n c) = ph_disk c" "ph_pairing (abort_task n c) = ph_pairing c"
  "ph_live (abort_task n c) = ph_live c" "ph_status (abort_task n c) = ph_status c"
  "ph_terminals (abort_task n c) = ph_terminals c" "ph_identity (abort_task n c) = ph_identity c"
  by (simp_all add: abort_task_def)

lemma abort_all_facts:
  fixes c :: "'t client"
  defines "stop \<equiv> \<lambda>ps (c :: 't client). foldl (\<lambda>c (_, poller). abort_task poller c) c ps"
  shows "client_ok en S G c \<Longrightarrow> client_ok en S G (stop ps c)"
    and "ph_lives (stop ps c) = ph_lives c \<and> ph_daemon (stop ps c) = ph_daemon c \<and>
      ph_disk (stop ps c) = ph_disk c \<and> ph_pairing (stop ps c) = ph_pairing c \<and>
      ph_status (stop ps c) = ph_status c \<and> ph_identity (stop ps c) = ph_identity c"
  unfolding stop_def by (induction ps arbitrary: c) (auto intro: abort_task_ok)

lemma tear_down_fields [simp]:
  "ph_lives (tear_down c) = ph_lives c" "ph_daemon (tear_down c) = ph_daemon c"
  "ph_disk (tear_down c) = ph_disk c" "ph_pairing (tear_down c) = ph_pairing c"
  "ph_live (tear_down c) = None" "ph_terminals (tear_down c) = []" "ph_identity (tear_down c) = ph_identity c"
  by (simp_all add: tear_down_def tear_down_live_def tear_down_status_def abort_all_facts(2))

lemma tear_down_ok:
  assumes "client_ok en S G c"
  shows "client_ok en S G (tear_down c)"
proof -
  have "client_ok en S G (foldl (\<lambda>c (_, poller). abort_task poller c) c (ph_terminals c))"
    using assms by (rule abort_all_facts(1))
  then show ?thesis by (simp add: tear_down_def tear_down_live_def tear_down_status_def client_ok_def)
qed

lemma cancel_pairing_ok: "client_ok en S G c \<Longrightarrow> client_ok en S G (cancel_pairing c)"
  by (simp add: cancel_pairing_def client_ok_def)

lemma healthy_live_ok:
  assumes "client_ok en S G c" and "healthy_live c = (c', r)"
  shows "client_ok en S G c' \<and> ph_lives c' = ph_lives c \<and> ph_daemon c' = ph_daemon c \<and>
    (\<forall>i. r = Some i \<longrightarrow> c' = c \<and> i < length (ph_lives c))"
proof -
  have "i < length (ph_lives c)" if "ph_live c = Some i" for i
    using assms(1) that by (simp add: client_ok_def slot_ok_def)
  then show ?thesis
    using assms(2) assms(1) tear_down_ok [OF assms(1)]
    by (cases "ph_live c") (auto simp: healthy_live_def split: if_splits)
qed

lemma require_live_ok:
  assumes "client_ok en S G c" and "require_live c = (c', r)"
  shows "client_ok en S G c' \<and> (\<forall>i. r = Ok i \<longrightarrow> i < length (ph_lives c') \<and> slot_ok en S G (ph_lives c') i)"
proof -
  obtain c1 x where h: "healthy_live c = (c1, x)" by fastforce
  have "slot_ok en S G (ph_lives c) i" if "ph_live c = Some i" for i
    using assms(1) that by (simp add: client_ok_def)
  moreover have "ph_live c = Some i \<and> c1 = c" if "x = Some i" for i
    using h that by (auto simp: healthy_live_def split: option.splits if_splits)
  ultimately show ?thesis
    using healthy_live_ok [OF assms(1) h] assms(2) h
    by (cases x) (auto simp: require_live_def)
qed

lemma ask_ok:
  assumes "client_ok en S G c" and "i < length (ph_lives c)" and "ask en i meth params ty c = (c', r)"
  shows "client_ok en S G c' \<and> lives_le G (ph_lives c) (ph_lives c') \<and>
    (\<forall>fl. r = Ok fl \<longrightarrow> flight_ok G (ph_lives c') fl \<and> fl_live fl = i \<and> fl_type fl = ty)"
proof -
  let ?l = "ph_lives c ! i"
  obtain l x where rs: "request_start (pe_codec en) meth params ?l = (l, x)" by fastforce
  have "live_ok ?l" using assms(1,2) by (simp add: client_ok_def)
  note ok = request_start_ok [OF this rs, of "heard_on G i"]
  have le: "lives_le G (ph_lives c) ((ph_lives c)[i := l])" using ok assms(2) by (blast intro: lives_le_update)
  have c': "c' = c\<lparr>ph_lives := (ph_lives c)[i := l]\<rparr>" using assms(3) rs by (simp add: ask_def)
  have "\<forall>m \<in> set ((ph_lives c)[i := l]). live_ok m"
    using assms(1) ok by (auto simp: client_ok_def dest!: set_update_subset_insert [THEN subsetD])
  with assms(1) le have "client_ok en S G c'" unfolding c' by (rule client_ok_lives)
  moreover have "flight_ok G (ph_lives c') fl \<and> fl_live fl = i \<and> fl_type fl = ty" if "r = Ok fl" for fl
  proof -
    from that assms(3) rs obtain fr rid ch where x: "x = Ok (fr, rid, ch)"
      and fl: "fl = \<lparr>fl_live = i, fl_id = rid, fl_chan = ch, fl_type = ty, fl_stage = StSending fr\<rparr>"
      by (auto simp: ask_def)
    with ok assms(2) show ?thesis by (simp add: c' flight_ok_def)
  qed
  ultimately show ?thesis using le by (simp add: c')
qed

lemma step_okI: "client_ok en S G c \<Longrightarrow> task_ok en S G (ph_lives c) t \<Longrightarrow> step_ok en S G (c, t)"
  by (simp add: step_ok_def)

lemma attach_poller_ok: "client_ok en S G c \<Longrightarrow> client_ok en S G (attach_poller pty c)"
  by (auto simp: attach_poller_def Let_def client_ok_def abort_task_def
      dest!: set_update_subset_insert [THEN subsetD] split: option.split)

lemma detach_poller_ok: "client_ok en S G c \<Longrightarrow> client_ok en S G (detach_poller pty c)"
  by (auto simp: detach_poller_def client_ok_def abort_task_def
      dest!: set_update_subset_insert [THEN subsetD] split: option.split)

lemma poll_done_ok: "client_ok en S G c \<Longrightarrow> step_ok en S G (poll_done pty shown fr c)"
  by (simp add: poll_done_def Let_def step_ok_def client_ok_def)

lemma call_done_ok: "client_ok en S G c \<Longrightarrow> step_ok en S G (call_done k r c)"
  by (auto simp: call_done_def intro!: step_okI tear_down_ok attach_poller_ok poll_done_ok
      split: sum.split call_kind.split reply.split)

lemma call_start_ok:
  assumes "client_ok en S G c"
  shows "step_ok en S G (call_start en meth params ty k c)"
proof -
  obtain c1 r where r: "require_live c = (c1, r)" by fastforce
  note l = require_live_ok [OF assms r]
  show ?thesis
  proof (cases r)
    case (Inl e)
    with l r show ?thesis by (auto simp: call_start_def intro!: step_okI split: call_kind.split)
  next
    case (Inr i)
    obtain c2 x where a: "ask en i meth params ty c1 = (c2, x)" by fastforce
    have i: "client_ok en S G c1" "i < length (ph_lives c1)" "slot_ok en S G (ph_lives c1) i" using l Inr by simp_all
    note k = ask_ok [OF i(1,2) a]
    then have "slot_ok en S G (ph_lives c2) i" using slot_mono [OF i(3)] by blast
    with k Inr r a show ?thesis
      by (cases x) (auto simp: call_start_def intro: step_okI call_done_ok)
  qed
qed

lemma save_disk_ok:
  assumes "os_paths_differ (pe_os en) (pe_root en)" and "daemon_cbor_laws (pe_cbor en)"
    and "save_daemon (pe_os en) (pe_cbor en) (pe_root en) pd d = (d', r)"
    and "disk_ok en S G ls d" and "record_ok en S G ls pd"
  shows "disk_ok en S G ls d'"
proof (cases "is_ok r")
  case True
  with save_daemon_bytes [OF assms(1,3)]
  have "file_bytes d' (daemon_path (pe_os en) (pe_root en)) = dc_encode (pe_cbor en) pd" by simp
  with assms(2,5) show ?thesis by (auto simp: disk_ok_def daemon_cbor_laws_def)
next
  case False
  with save_daemon_bytes [OF assms(1,3)] assms(4) show ?thesis by (simp add: disk_ok_def)
qed

text \<open>What the disk is asked for: different names, and a codec that reads what it writes.\<close>

definition env_ok :: "('h, 't, 'r, 'a) phone_env \<Rightarrow> bool" where
  "env_ok en \<longleftrightarrow> os_paths_differ (pe_os en) (pe_root en) \<and> daemon_cbor_laws (pe_cbor en)"

lemma touch_daemon_seen_ok:
  assumes "env_ok en" and "client_ok en S G c" and "record_ok en S G (ph_lives c) pd"
  shows "client_ok en S G (touch_daemon_seen en now pd c)"
proof -
  let ?pd = "pd\<lparr>pd_last_seen := Some now\<rparr>"
  obtain d' r where s: "save_daemon (pe_os en) (pe_cbor en) (pe_root en) ?pd (ph_disk c) = (d', r)" by fastforce
  have rec: "record_ok en S G (ph_lives c) ?pd" using assms(3) by (simp add: record_ok_def)
  have "disk_ok en S G (ph_lives c) d'"
    using save_disk_ok [OF _ _ s _ rec] assms(1,2) by (simp add: env_ok_def client_ok_def)
  then show ?thesis
    using assms(2) s rec by (auto simp: touch_daemon_seen_def Let_def client_ok_def split: sum.split)
qed

lemma add_live_ok:
  assumes "client_ok en S G c" and "live_ok l"
  shows "client_ok en S G (c\<lparr>ph_lives := ph_lives c @ [l]\<rparr>)"
  by (rule client_ok_lives [OF assms(1) lives_le_append]) (use assms in \<open>auto simp: client_ok_def\<close>)

lemma connect_start_ok:
  assumes "client_ok en S G c"
  shows "step_ok en S G (connect_start c)"
proof (cases "ph_daemon c")
  case None
  with assms show ?thesis by (auto simp: connect_start_def intro!: step_okI set_phase_ok)
next
  case (Some pd)
  obtain c1 r where h: "healthy_live c = (c1, r)" by fastforce
  from healthy_live_ok [OF assms h] h Some assms show ?thesis
    by (cases r) (auto simp: connect_start_def client_ok_def [of _ _ _ c] set_phase_def intro!: step_okI update_status_ok)
qed

lemma connect_done_ok:
  assumes "env_ok en" and "client_ok en S G c" and "record_ok en S G (ph_lives c) pd"
  shows "step_ok en S G (connect_done en net now pd c)"
proof (cases "establish en net (ph_identity c) Reconnect None (PeerId (pd_noise_key pd)) (connect_hints pd)")
  case (Inl e)
  with assms(2) show ?thesis
    by (auto simp: connect_done_def intro!: step_okI set_phase_ok split: client_error.split)
next
  case (Inr l)
  note l = establish_peer [OF Inr]
  let ?c1 = "c\<lparr>ph_lives := ph_lives c @ [l], ph_live := Some (length (ph_lives c))\<rparr>"
  have rec: "record_ok en S G (ph_lives c @ [l]) pd" using assms(3) by (rule record_mono) simp
  have "slot_ok en S G (ph_lives c @ [l]) (length (ph_lives c))"
    using l rec by (auto simp: slot_ok_def record_ok_def)
  with add_live_ok [OF assms(2), of l] l have "client_ok en S G ?c1"
    by (simp add: client_ok_def)
  then have "client_ok en S G (adopt en now l pd c)"
    using rec unfolding adopt_def adopt_status_def adopt_live_def add_live_def Let_def prod.case
    by (intro touch_daemon_seen_ok [OF assms(1)] update_status_ok) simp_all
  with Inr show ?thesis by (simp add: connect_done_def step_ok_def)
qed

lemma begin_pairing_start_ok: "client_ok en S G c \<Longrightarrow> step_ok en S G (begin_pairing_start en payload c)"
  by (auto simp: begin_pairing_start_def intro!: step_okI set_phase_ok cancel_pairing_ok split: sum.split)

lemma begin_pairing_done_ok:
  assumes "client_ok en S G c"
  shows "step_ok en S G (begin_pairing_done en net ticket secret c)"
proof (cases "establish en net (ph_identity c) ForPairing (Some secret) (PeerId (tk_daemon_key ticket))
    (hints_from_ticket ticket)")
  case (Inl e)
  with assms show ?thesis by (auto simp: begin_pairing_done_def intro!: step_okI set_phase_ok)
next
  case (Inr l)
  from establish_peer [OF Inr] add_live_ok [OF assms, of l] Inr show ?thesis
    by (simp add: begin_pairing_done_def add_live_def step_ok_def client_ok_def pairing_ok_def)
qed

lemma confirm_start_ok:
  assumes "client_ok en S G c"
  shows "step_ok en S G (confirm_start en device c)"
proof (cases "ph_pairing c")
  case None
  with assms show ?thesis by (simp add: confirm_start_def step_ok_def)
next
  case (Some pg)
  obtain c1 r where a: "ask en (pg_live pg) SYS_REGISTER
      (PRegister \<lparr>sr_device_name = device, sr_device_model = None, sr_sas = sas_digits (pg_sas pg)\<rparr>) TRegister c = (c1, r)"
    by fastforce
  have pg: "pairing_ok (ph_lives c) pg" using Some assms by (simp add: client_ok_def)
  then have "pg_live pg < length (ph_lives c)" by (simp add: pairing_ok_def)
  from ask_ok [OF assms this a] Some a pairing_mono [OF pg] show ?thesis
    by (cases r) (auto simp: confirm_start_def step_ok_def intro: cancel_pairing_ok)
qed

lemma confirm_named_ok:
  assumes "env_ok en" and "client_ok en S G c" and "granted en S G (ph_lives c) (pg_peer pg) rid"
  shows "step_ok en S G (confirm_named en now pg rid info c)"
proof -
  let ?pd = "confirm_record en pg rid (daemon_name info (pg_addr_hints pg)) now"
  obtain d' r where s: "save_daemon (pe_os en) (pe_cbor en) (pe_root en) ?pd (ph_disk c) = (d', r)" by fastforce
  have rec: "record_ok en S G (ph_lives c) ?pd" using assms(3) by (simp add: record_ok_def confirm_record_def)
  have "disk_ok en S G (ph_lives c) d'"
    using save_disk_ok [OF _ _ s _ rec] assms(1,2) by (simp add: env_ok_def client_ok_def)
  then show ?thesis
    using assms(2) s rec
    by (auto simp: confirm_named_def Let_def step_ok_def client_ok_def cancel_pairing_def split: sum.split)
qed

lemma confirm_registered_ok:
  assumes "env_ok en" and "client_ok en S G c" and "pairing_ok (ph_lives c) pg"
    and "\<And>rid caps. r = Ok (RSysRegister rid caps) \<Longrightarrow> granted en S G (ph_lives c) (pg_peer pg) rid"
  shows "step_ok en S G (confirm_registered en now pg r c)"
proof (cases "\<exists>rid caps. r = Ok (RSysRegister rid caps)")
  case False
  with assms(2) show ?thesis
    by (auto simp: confirm_registered_def intro!: step_okI cancel_pairing_ok split: sum.split reply.split)
next
  case True
  then obtain rid caps where r: "r = Ok (RSysRegister rid caps)" by blast
  obtain c1 x where a: "ask en (pg_live pg) SYS_INFO PSysInfo TSysInfo c = (c1, x)" by fastforce
  have "pg_live pg < length (ph_lives c)" using assms(3) by (simp add: pairing_ok_def)
  note k = ask_ok [OF assms(2) this a]
  have "granted en S G (ph_lives c1) (pg_peer pg) rid"
    using assms(4) [OF r] k by (blast intro: granted_mono)
  with k a show ?thesis
    by (cases x) (auto simp: confirm_registered_def r step_ok_def
        dest: confirm_named_ok [OF assms(1), unfolded step_ok_def])
qed

lemma remove_bytes:
  "remove_if_present os p d = (d', r) \<Longrightarrow> file_bytes d' q = Some bs \<Longrightarrow> file_bytes d q = Some bs"
  by (auto simp: remove_if_present_def file_bytes_def split: option.splits node.splits if_splits)

lemma wipe_bytes:
  assumes "wipe os root d = (d', r)" and "file_bytes d' q = Some bs"
  shows "file_bytes d q = Some bs"
  using assms by (auto simp: wipe_def forget_daemon_def Let_def case_prod_beta dest: remove_bytes [OF prod.collapse [symmetric]])

lemma wipe_done:
  assumes "wipe os root d = (d', Ok ())"
  shows "file_bytes d' (identity_path os root) = None \<and> file_bytes d' (daemon_path os root) = None"
proof -
  obtain d1 r1 where f: "remove_if_present os (daemon_path os root) d = (d1, r1)" by fastforce
  obtain d2 r2 where g: "remove_if_present os (identity_path os root) d1 = (d2, r2)" by fastforce
  have gone: "file_bytes e' p = None" if "remove_if_present os p e = (e', Ok ())" for p e e'
    using that by (auto simp: remove_if_present_def file_bytes_def split: option.splits node.splits)
  have "r1 = Ok ()" "r2 = Ok ()" "d' = d2"
    using assms f g by (auto simp: wipe_def forget_daemon_def Let_def)
  with gone [of _ d d1] gone [of _ d1 d2] f g remove_bytes [OF g, of "daemon_path os root"] show ?thesis
    by fastforce
qed

lemma unpair_ok:
  assumes "client_ok en S G c" and "unpair en c = (c', r)"
  shows "client_ok en S G c'"
proof -
  let ?c1 = "tear_down (cancel_pairing c)"
  have ok: "client_ok en S G ?c1" using assms(1) by (intro tear_down_ok cancel_pairing_ok)
  obtain d' x where w: "wipe (pe_os en) (pe_root en) (ph_disk c) = (d', x)" by fastforce
  have "disk_ok en S G (ph_lives c) d'"
    using assms(1) wipe_bytes [OF w] by (auto simp: client_ok_def disk_ok_def)
  with ok w assms(2) show ?thesis
    by (auto simp: unpair_def Let_def client_ok_def cancel_pairing_def)
qed

lemma task_at_ok: "client_ok en S G c \<Longrightarrow> task_at c n = t \<Longrightarrow> task_ok en S G (ph_lives c) t"
  by (auto simp: task_at_def client_ok_def)

lemma task_asking_flight: "task_ok en S G ls (Asking fl jb) \<Longrightarrow> flight_ok G ls fl"
  by (cases jb) simp_all

lemma flight_stage [simp]: "flight_ok G ls (fl\<lparr>fl_stage := st\<rparr>) = flight_ok G ls fl"
  by (simp add: flight_ok_def)

lemma task_stage: "task_ok en S G ls (Asking fl jb) \<Longrightarrow> task_ok en S G ls (Asking (fl\<lparr>fl_stage := st\<rparr>) jb)"
  by (cases jb) simp_all

lemma task_live: "task_ok en S G ls (Asking fl jb) \<Longrightarrow> fl_live fl < length ls"
  by (drule task_asking_flight) (simp add: flight_ok_def)

lemma on_live_ok:
  assumes "client_ok en S G c" and "i < length (ph_lives c)"
    and "live_ok (f (ph_lives c ! i)) \<and> live_le (heard_on G i) (ph_lives c ! i) (f (ph_lives c ! i))"
  shows "client_ok en S G (on_live i f c) \<and> lives_le G (ph_lives c) (ph_lives (on_live i f c))"
proof -
  let ?ls = "(ph_lives c)[i := f (ph_lives c ! i)]"
  have le: "lives_le G (ph_lives c) ?ls" using assms(2,3) by (blast intro: lives_le_update)
  have "\<forall>l \<in> set ?ls. live_ok l"
    using assms(1,3) by (auto simp: client_ok_def dest!: set_update_subset_insert [THEN subsetD])
  with client_ok_lives [OF assms(1) le] le show ?thesis by (simp add: on_live_def)
qed

lemma live_at_ok: "client_ok en S G c \<Longrightarrow> i < length (ph_lives c) \<Longrightarrow> live_ok (ph_lives c ! i)"
  by (simp add: client_ok_def)

lemma job_done_ok:
  assumes "env_ok en" and "client_ok en S G c" and "task_ok en S G (ph_lives c) (Asking fl jb)"
    and "\<And>pg rid caps. jb = JobRegister pg \<Longrightarrow> r = Ok (RSysRegister rid caps) \<Longrightarrow>
           granted en S G (ph_lives c) (pg_peer pg) rid"
  shows "step_ok en S G (job_done en now jb r c)"
  using assms
  by (cases jb) (auto simp: job_done_def intro: confirm_registered_ok confirm_named_ok call_done_ok)

lemma heard_grant:
  assumes "task_ok en S G ls (Asking fl (JobRegister pg))"
    and "request_outcome (pe_codec en) (fl_type fl) (pm_channels (lv_pending (ls ! fl_live fl)) ! fl_chan fl) =
           Some (Ok (RSysRegister rid caps))"
  shows "granted en S G ls (pg_peer pg) rid"
proof -
  from assms(1) have ty: "fl_type fl = TRegister" and f: "flight_ok G ls fl" by simp_all
  from assms(2) obtain bs where ch: "pm_channels (lv_pending (ls ! fl_live fl)) ! fl_chan fl = Sent (Ok bs)"
    and dec: "pc_result (pe_codec en) TRegister bs = Some (RSysRegister rid caps)"
    unfolding ty
    by (auto simp: request_outcome_def decode_result_def split: oneshot.splits sum.splits option.splits if_splits)
  from f ch have "(fl_live fl, fl_id fl, Ok bs) \<in> G"
    by (simp add: flight_ok_def)
  with dec show ?thesis
    using assms(1) unfolding granted_def
    by (intro disjI2 exI [where x = "fl_live fl"] exI [where x = "fl_id fl"] exI [where x = bs] exI [where x = caps])
      (simp add: pairing_ok_def)
qed

lemma request_sent_ok:
  assumes "env_ok en" and "client_ok en S G c"
  shows "client_ok en S G (request_sent en n failed now c)"
proof (cases "\<exists>fl jb fr. task_at c n = Asking fl jb \<and> fl_stage fl = StSending fr")
  case False
  with assms(2) show ?thesis by (auto simp: request_sent_def split: task.split stage.split)
next
  case True
  then obtain fl jb fr where t: "task_at c n = Asking fl jb" "fl_stage fl = StSending fr" by blast
  let ?i = "fl_live fl"
  have tok: "task_ok en S G (ph_lives c) (Asking fl jb)" using task_at_ok [OF assms(2) t(1)] .
  then have i: "?i < length (ph_lives c)" by (rule task_live)
  note l = live_at_ok [OF assms(2) i]
  show ?thesis
  proof (cases failed)
    case None
    have "client_ok en S G (on_live ?i (live_send fr) c) \<and> lives_le G (ph_lives c) (ph_lives (on_live ?i (live_send fr) c))"
      by (rule on_live_ok [OF assms(2) i]) (simp add: l)
    with tok have "step_ok en S G (on_live ?i (live_send fr) c, Asking (fl\<lparr>fl_stage := StAwaiting\<rparr>) jb)"
      by (auto simp: step_ok_def intro: task_mono task_stage)
    with None t show ?thesis by (simp add: request_sent_def resumed_ok)
  next
    case (Some e)
    let ?c = "on_live ?i (request_abandon (fl_id fl)) c"
    have "client_ok en S G ?c \<and> lives_le G (ph_lives c) (ph_lives ?c)"
      by (rule on_live_ok [OF assms(2) i]) (rule request_abandon_ok [OF l])
    then have "step_ok en S G (job_done en now jb (Err (TransportFailed e)) ?c)"
      using task_mono [OF tok] by (intro job_done_ok [OF assms(1)]) auto
    with Some t show ?thesis by (simp add: request_sent_def resumed_ok)
  qed
qed

lemma request_reply_ok:
  assumes "env_ok en" and "client_ok en S G c"
  shows "client_ok en S G (request_reply en n now c)"
proof (cases "\<exists>fl jb r. task_at c n = Asking fl jb \<and> fl_stage fl = StAwaiting \<and>
    request_outcome (pe_codec en) (fl_type fl) (channel_of c fl) = Some r")
  case False
  with assms(2) show ?thesis by (auto simp: request_reply_def split: task.split option.split)
next
  case True
  then obtain fl jb r where t: "task_at c n = Asking fl jb" "fl_stage fl = StAwaiting"
    and r: "request_outcome (pe_codec en) (fl_type fl) (channel_of c fl) = Some r" by blast
  have tok: "task_ok en S G (ph_lives c) (Asking fl jb)" using task_at_ok [OF assms(2) t(1)] .
  have "step_ok en S G (job_done en now jb r c)"
  proof (rule job_done_ok [OF assms tok])
    fix pg rid caps
    assume "jb = JobRegister pg" and "r = Ok (RSysRegister rid caps)"
    with tok r show "granted en S G (ph_lives c) (pg_peer pg) rid"
      unfolding channel_of_def by (blast intro: heard_grant)
  qed
  with t r show ?thesis by (simp add: request_reply_def resumed_ok)
qed

lemma request_deadline_ok:
  assumes "client_ok en S G c"
  shows "client_ok en S G (request_deadline en n c)"
proof (cases "\<exists>fl jb. task_at c n = Asking fl jb \<and> fl_stage fl = StAwaiting \<and> channel_of c fl = Waiting")
  case False
  with assms show ?thesis by (auto simp: request_deadline_def split: task.split)
next
  case True
  then obtain fl jb where t: "task_at c n = Asking fl jb" "fl_stage fl = StAwaiting" "channel_of c fl = Waiting"
    by blast
  let ?i = "fl_live fl"
  let ?c = "on_live ?i (request_abandon (fl_id fl)) c"
  have tok: "task_ok en S G (ph_lives c) (Asking fl jb)" using task_at_ok [OF assms t(1)] .
  then have i: "?i < length (ph_lives c)" by (rule task_live)
  have "client_ok en S G ?c \<and> lives_le G (ph_lives c) (ph_lives ?c)"
    by (rule on_live_ok [OF assms i]) (rule request_abandon_ok [OF live_at_ok [OF assms i]])
  with tok have "step_ok en S G (?c, Asking (fl\<lparr>fl_stage := StCancelling (cancel_frame (pe_codec en) (fl_id fl))\<rparr>) jb)"
    by (auto simp: step_ok_def intro: task_mono task_stage)
  with t show ?thesis by (simp add: request_deadline_def resumed_ok)
qed

lemma request_cancelled_ok:
  assumes "env_ok en" and "client_ok en S G c"
  shows "client_ok en S G (request_cancelled en n sent now c)"
proof (cases "\<exists>fl jb fro. task_at c n = Asking fl jb \<and> fl_stage fl = StCancelling fro")
  case False
  with assms(2) show ?thesis by (auto simp: request_cancelled_def split: task.split stage.split)
next
  case True
  then obtain fl jb fro where t: "task_at c n = Asking fl jb" "fl_stage fl = StCancelling fro" by blast
  let ?i = "fl_live fl"
  let ?c = "case fro of Some fr \<Rightarrow> if sent then on_live ?i (live_send fr) c else c | None \<Rightarrow> c"
  have tok: "task_ok en S G (ph_lives c) (Asking fl jb)" using task_at_ok [OF assms(2) t(1)] .
  then have i: "?i < length (ph_lives c)" by (rule task_live)
  have "client_ok en S G (on_live ?i (live_send fr) c) \<and> lives_le G (ph_lives c) (ph_lives (on_live ?i (live_send fr) c))" for fr
    by (rule on_live_ok [OF assms(2) i]) (simp add: live_at_ok [OF assms(2) i])
  then have c: "client_ok en S G ?c" "lives_le G (ph_lives c) (ph_lives ?c)"
    using assms(2) by (simp_all split: option.split)
  then have "step_ok en S G (job_done en now jb (Err RequestTimeout) ?c)"
    using task_mono [OF tok] by (intro job_done_ok [OF assms(1)]) auto
  with t show ?thesis by (simp add: request_cancelled_def resumed_ok)
qed

lemma drop_unheld_ok:
  assumes "client_ok en S G c"
  shows "client_ok en S G (drop_unheld c)"
proof -
  let ?ls = "map (\<lambda>(i, l). if held c i then l else live_drop l) (enumerate 0 (ph_lives c))"
  have "lives_le G (ph_lives c) ?ls"
    by (simp add: lives_le_def nth_enumerate_eq)
  moreover have "\<forall>l \<in> set ?ls. live_ok l"
    using assms by (auto simp: client_ok_def in_set_enumerate_eq)
  ultimately show ?thesis
    unfolding drop_unheld_def by (rule client_ok_lives [OF assms])
qed

text \<open>What an event, and what a run, lets the client hear.\<close>

definition heard_of :: "('h, 't, 'r, 'a) phone_env \<Rightarrow> 't client \<Rightarrow> 'a event \<Rightarrow> heard_set" where
  "heard_of en c ev =
     (case ev of
        EvRead i r _ \<Rightarrow>
          if i < length (ph_lives c) \<and> lv_reading (ph_lives c ! i) then Pair i ` heard_in (pe_codec en) r else {}
      | _ \<Rightarrow> {})"

fun heard_by :: "('h, 't, 'r, 'a) phone_env \<Rightarrow> 't client \<Rightarrow> 'a event list \<Rightarrow> heard_set" where
  "heard_by en c [] = {}"
| "heard_by en c (ev # evs) = heard_of en c ev \<union> heard_by en (client_step en c ev) evs"

lemma client_step_ok:
  assumes "env_ok en" and "client_ok en S G c" and "heard_of en c ev \<subseteq> G"
  shows "client_ok en S G (client_step en c ev)"
proof -
  have "client_ok en S G (handle_event en ev c)"
  proof (cases ev)
    case (EvDialled n net now)
    with task_at_ok [OF assms(2)] show ?thesis
      using assms(2) by (auto simp: handle_event_def intro!: resumed_ok connect_done_ok assms(1) split: task.split)
        (metis task_ok.simps(1))
  next
    case (EvRead i r ok)
    show ?thesis
    proof (cases "i < length (ph_lives c) \<and> lv_reading (ph_lives c ! i)")
      case True
      with assms(3) have "heard_in (pe_codec en) r \<subseteq> heard_on G i"
        by (auto simp: EvRead heard_of_def heard_on_def)
      from route_control_ok [OF live_at_ok [OF assms(2)] this] True on_live_ok [OF assms(2)]
      show ?thesis by (simp add: EvRead handle_event_def)
    next
      case False
      then show ?thesis using assms(2) by (simp add: EvRead handle_event_def on_live_def route_control_def)
    qed
  next
    case (EvLost i)
    then show ?thesis
      using assms(2) on_live_ok [OF assms(2), of i "\<lambda>l. l\<lparr>lv_conn := iroh_close (lv_conn l)\<rparr>"]
      by (simp add: handle_event_def live_le_def iroh_close_def live_at_ok)
  next
    case EvUnpair
    obtain c' r where u: "unpair en c = (c', r)" by fastforce
    from unpair_ok [OF assms(2) u] u show ?thesis
      by (simp add: EvUnpair handle_event_def spawned_ok step_ok_def)
  next
    case EvRoots
    obtain c' r where w: "workspace_roots c = (c', r)" by fastforce
    obtain c1 x where l: "require_live c = (c1, x)" by fastforce
    from require_live_ok [OF assms(2) l] l w show ?thesis
      by (auto simp: EvRoots handle_event_def workspace_roots_def intro!: spawned_ok step_okI)
  next
    case (EvOperation opn)
    have "step_ok en S G (operation_start en opn c)"
      using assms(2) by (auto simp: operation_start_def Let_def case_prod_beta
          intro!: call_start_ok detach_poller_ok split: operation.split)
    then show ?thesis by (simp add: EvOperation handle_event_def spawned_ok)
  next
    case (EvTick n)
    then show ?thesis
      using assms(2) by (auto simp: handle_event_def intro!: resumed_ok call_start_ok split: task.split)
  next
    case (EvPairDialled n net)
    then show ?thesis
      using assms(2) by (auto simp: handle_event_def intro!: resumed_ok begin_pairing_done_ok split: task.split)
  qed (use assms(2) in \<open>auto simp: handle_event_def client_ok_def [of _ _ _ "c\<lparr>ph_observing := True\<rparr>"]
      client_ok_def [of _ _ _ "c\<lparr>ph_watching := True\<rparr>"]
      intro!: spawned_ok connect_start_ok tear_down_ok begin_pairing_start_ok confirm_start_ok
        cancel_pairing_ok request_sent_ok request_reply_ok request_deadline_ok request_cancelled_ok assms(1)
      simp: client_ok_def [of en S G c]\<close>)
  then show ?thesis by (simp add: client_step_def drop_unheld_ok)
qed

lemma client_run_ok:
  assumes "env_ok en" and "client_ok en S G c" and "heard_by en c evs \<subseteq> G"
  shows "client_ok en S G (client_run en c evs)"
  using assms(2,3)
  by (induction evs arbitrary: c) (auto simp: client_run_def intro: client_step_ok [OF assms(1)])

section \<open>Which requests there are\<close>

text \<open>
  A connection gives its requests the numbers from one on.  An event starts at most one request; it
  takes the number that the connection has next.  The counter starts again only after \<open>2 ^ 64\<close> requests,
  so the bound on the length of a run is none in practice.
\<close>

abbreviation next_ids :: "'t client \<Rightarrow> nat list" where
  "next_ids c \<equiv> map lv_next_id (ph_lives c)"

fun is_asking :: "task \<Rightarrow> bool" where
  "is_asking (Asking _ _) = True"
| "is_asking _ = False"

definition no_new_asks :: "'t client \<Rightarrow> 't client \<Rightarrow> bool" where
  "no_new_asks c c' \<longleftrightarrow> (\<forall>m fl jb. task_at c' m = Asking fl jb \<longrightarrow> task_at c m = Asking fl jb)"

definition calm :: "'t client \<Rightarrow> 't client \<Rightarrow> bool" where
  "calm c c' \<longleftrightarrow> next_ids c' = next_ids c \<and> no_new_asks c c' \<and> length (ph_tasks c) \<le> length (ph_tasks c')"

definition asked :: "nat \<Rightarrow> 't client \<Rightarrow> 't client \<Rightarrow> bool" where
  "asked i c c' \<longleftrightarrow> i < length (ph_lives c) \<and> no_new_asks c c' \<and> length (ph_tasks c) \<le> length (ph_tasks c') \<and>
     next_ids c' = (next_ids c)[i := Suc (next_ids c ! i) mod 2 ^ 64]"

definition grown :: "'t client \<Rightarrow> 't client \<Rightarrow> bool" where
  "grown c c' \<longleftrightarrow> next_ids c' = next_ids c @ [1] \<and> no_new_asks c c' \<and> length (ph_tasks c) \<le> length (ph_tasks c')"

lemma no_new_asks_trans: "no_new_asks c c1 \<Longrightarrow> no_new_asks c1 c2 \<Longrightarrow> no_new_asks c c2"
  unfolding no_new_asks_def by blast

lemma calm_refl [simp]: "calm c c"
  by (simp add: calm_def no_new_asks_def)

lemma calm_trans: "calm c c1 \<Longrightarrow> calm c1 c2 \<Longrightarrow> calm c c2"
  unfolding calm_def using no_new_asks_trans by (metis le_trans)

lemma calm_asked: "calm c c1 \<Longrightarrow> asked i c1 c2 \<Longrightarrow> asked i c c2"
  unfolding calm_def asked_def using no_new_asks_trans [of c c1 c2] by (metis le_trans length_map)

lemma asked_calm: "asked i c c1 \<Longrightarrow> calm c1 c2 \<Longrightarrow> asked i c c2"
  unfolding calm_def asked_def using no_new_asks_trans [of c c1 c2] by (metis le_trans)

lemma grown_calm: "grown c c1 \<Longrightarrow> calm c1 c2 \<Longrightarrow> grown c c2"
  unfolding calm_def grown_def using no_new_asks_trans [of c c1 c2] by (metis le_trans)

lemma calm_same: "next_ids c' = next_ids c \<Longrightarrow> ph_tasks c' = ph_tasks c \<Longrightarrow> calm c c'"
  by (simp add: calm_def no_new_asks_def task_at_def)

lemma calm_update_status [simp]: "calm c (update_status f c)"
  by (rule calm_same) simp_all

lemma calm_set_phase [simp]: "calm c (set_phase p c)"
  by (simp add: set_phase_def)

lemma task_at_put:
  "task_at (c\<lparr>ph_tasks := (ph_tasks c)[n := t]\<rparr>) m = (if m = n \<and> n < length (ph_tasks c) then t else task_at c m)"
  by (cases "m = n") (simp_all add: task_at_def)

lemma calm_abort: "calm c (abort_task n c)"
  by (simp add: calm_def no_new_asks_def abort_task_def task_at_put)

lemma calm_abort_all: "calm c (foldl (\<lambda>c (_, poller). abort_task poller c) c ps)"
proof (induction ps arbitrary: c)
  case (Cons p ps)
  obtain t n where p: "p = (t, n)" by (cases p)
  from Cons [of "abort_task n c"] calm_abort [of c n] show ?case
    unfolding p foldl_Cons prod.case by (rule calm_trans [rotated])
qed simp

lemma calm_tear_down [simp]: "calm c (tear_down c)"
proof -
  let ?c1 = "foldl (\<lambda>c (_, poller). abort_task poller c) c (ph_terminals c)"
  have "calm ?c1 (?c1\<lparr>ph_terminals := [], ph_live := None\<rparr>)" by (rule calm_same) simp_all
  from calm_trans [OF calm_abort_all this] show ?thesis
    unfolding tear_down_def tear_down_status_def tear_down_live_def
    by (rule calm_trans) simp
qed

lemma calm_cancel_pairing [simp]: "calm c (cancel_pairing c)"
  by (rule calm_same) (simp_all add: cancel_pairing_def)

lemma calm_healthy_live: "healthy_live c = (c', r) \<Longrightarrow> calm c c'"
  by (auto simp: healthy_live_def split: option.splits if_splits)

lemma calm_require_live: "require_live c = (c', r) \<Longrightarrow> calm c c'"
  by (auto simp: require_live_def split: prod.splits option.splits dest: calm_healthy_live)

lemma calm_attach_poller: "calm c (attach_poller pty c)"
proof -
  let ?c1 = "c\<lparr>ph_tasks := ph_tasks c @ [Polling pty None],
     ph_terminals := (pty, length (ph_tasks c)) # without pty (ph_terminals c)\<rparr>"
  have "calm c ?c1" by (auto simp: calm_def no_new_asks_def task_at_def nth_append split: if_splits)
  then show ?thesis
    using calm_trans [OF _ calm_abort, of c ?c1] by (simp add: attach_poller_def Let_def split: option.split)
qed

lemma calm_detach_poller: "calm c (detach_poller pty c)"
proof -
  have "calm c (c\<lparr>ph_terminals := without pty (ph_terminals c)\<rparr>)" by (rule calm_same) simp_all
  from calm_trans [OF this calm_abort] show ?thesis
    by (auto simp: detach_poller_def split: option.split)
qed

lemma calm_on_live:
  assumes "lv_next_id (f (ph_lives c ! i)) = lv_next_id (ph_lives c ! i)"
  shows "calm c (on_live i f c)"
proof (rule calm_same)
  show "next_ids (on_live i f c) = next_ids c"
    using assms by (cases "i < length (ph_lives c)")
      (simp_all add: on_live_def map_update list_update_same_conv list_update_beyond)
qed (simp add: on_live_def)

lemma ask_asked:
  assumes "i < length (ph_lives c)" and "ask en i meth params ty c = (c', r)"
  shows "asked i c c' \<and> (\<forall>fl. r = Ok fl \<longrightarrow> fl_live fl = i \<and> fl_id fl = next_ids c ! i)"
proof -
  let ?l = "ph_lives c ! i"
  obtain l x where rs: "request_start (pe_codec en) meth params ?l = (l, x)" by fastforce
  then have l: "lv_next_id l = Suc (lv_next_id ?l) mod 2 ^ 64"
    and id: "\<forall>fr rid ch. x = Ok (fr, rid, ch) \<longrightarrow> rid = lv_next_id ?l"
    by (auto simp: request_start_def Let_def split: sum.splits prod.splits)
  have c': "c' = c\<lparr>ph_lives := (ph_lives c)[i := l]\<rparr>"
    and r: "r = rbind x (\<lambda>(fr, rid, ch).
          Ok \<lparr>fl_live = i, fl_id = rid, fl_chan = ch, fl_type = ty, fl_stage = StSending fr\<rparr>)"
    using assms(2) rs by (simp_all add: ask_def)
  have "asked i c c'"
    using assms(1) l by (simp add: asked_def c' no_new_asks_def task_at_def map_update)
  with r id assms(1) show ?thesis by (cases x) auto
qed

text \<open>What an operation leaves: nothing asked, a connection more, or one number used.\<close>

definition goes :: "'t client \<Rightarrow> 't client \<times> task \<Rightarrow> bool" where
  "goes c s \<longleftrightarrow> (calm c (fst s) \<or> grown c (fst s)) \<and> \<not> is_asking (snd s) \<or>
     (\<exists>i. asked i c (fst s) \<and> (\<forall>fl jb. snd s = Asking fl jb \<longrightarrow> fl_live fl = i \<and> fl_id fl = next_ids c ! i))"

lemma goes_calm: "calm c c' \<Longrightarrow> \<not> is_asking t \<Longrightarrow> goes c (c', t)"
  by (simp add: goes_def)

lemma goes_grown: "grown c c' \<Longrightarrow> \<not> is_asking t \<Longrightarrow> goes c (c', t)"
  by (simp add: goes_def)

lemma goes_asked: "asked i c c' \<Longrightarrow> \<not> is_asking t \<Longrightarrow> goes c (c', t)"
  by (auto simp: goes_def)

lemma calm_goes: "calm c c1 \<Longrightarrow> goes c1 s \<Longrightarrow> goes c s"
proof -
  assume c: "calm c c1" and g: "goes c1 s"
  from c have "grown c1 (fst s) \<Longrightarrow> grown c (fst s)"
    unfolding calm_def grown_def using no_new_asks_trans [of c c1 "fst s"] by (metis le_trans)
  moreover from c have "next_ids c1 = next_ids c" by (simp add: calm_def)
  ultimately show ?thesis
    using g calm_trans [OF c] calm_asked [OF c] unfolding goes_def by metis
qed

lemma asked_goes: "asked i c c1 \<Longrightarrow> calm c1 (fst s) \<Longrightarrow> \<not> is_asking (snd s) \<Longrightarrow> goes c s"
  using goes_asked [OF asked_calm, of i c c1 "fst s" "snd s"] by simp

lemma call_done_calm: "calm c (fst (call_done k r c)) \<and> \<not> is_asking (snd (call_done k r c))"
proof -
  have poll: "calm c (fst (poll_done pty shown fr c)) \<and> \<not> is_asking (snd (poll_done pty shown fr c))" for pty shown fr
    by (auto simp: poll_done_def Let_def intro!: calm_same)
  show ?thesis
    by (auto simp: call_done_def poll intro: calm_attach_poller split: sum.split call_kind.split reply.split)
qed

lemma call_done_goes: "goes c (call_done k r c)"
  using call_done_calm [of c k r] by (simp add: goes_def)

lemma call_start_goes:
  assumes ok: "client_ok en S G c"
  shows "goes c (call_start en meth params ty k c)"
proof -
  obtain c1 r where r: "require_live c = (c1, r)" by fastforce
  note calm1 = calm_require_live [OF r]
  show ?thesis
  proof (cases r)
    case (Inl e)
    with r calm1 show ?thesis by (auto simp: call_start_def intro!: goes_calm split: call_kind.split)
  next
    case (Inr i)
    obtain c2 x where a: "ask en i meth params ty c1 = (c2, x)" by fastforce
    have "i < length (ph_lives c1)" using require_live_ok [OF ok r] Inr by simp
    note k = ask_asked [OF this a]
    have "goes c1 (call_start en meth params ty k c)"
    proof (cases x)
      case e: (Inl e)
      have "call_start en meth params ty k c = call_done k (Err e) c2"
        using r Inr a e by (simp add: call_start_def)
      with k call_done_calm [of c2 k "Err e"] asked_goes show ?thesis by metis
    next
      case (Inr fl)
      with k a r \<open>r = Inr i\<close> show ?thesis by (auto simp: call_start_def goes_def)
    qed
    with calm1 show ?thesis by (rule calm_goes)
  qed
qed

lemma connect_start_goes: "goes c (connect_start c)"
proof (cases "ph_daemon c")
  case (Some pd)
  obtain c1 r where h: "healthy_live c = (c1, r)" by fastforce
  note calm1 = calm_healthy_live [OF h]
  from calm1 calm_trans [OF calm1 calm_set_phase] Some h show ?thesis
    by (cases r) (simp_all add: connect_start_def goes_calm)
qed (simp add: connect_start_def goes_calm)

lemma establish_next:
  assumes "establish en net i p psk peer hints = Ok l"
  shows "lv_next_id l = 1"
  using assms
  by (auto simp: establish_def case_prod_beta Let_def live_start_def split: option.splits sum.splits)

lemma add_live_grown:
  assumes "lv_next_id l = 1"
  shows "grown c (c\<lparr>ph_lives := ph_lives c @ [l], ph_live := x\<rparr>)" "grown c (c\<lparr>ph_lives := ph_lives c @ [l], ph_pairing := y\<rparr>)"
  using assms by (simp_all add: grown_def no_new_asks_def task_at_def)

lemma touch_calm: "calm c (touch_daemon_seen en now pd c)"
  by (auto simp: touch_daemon_seen_def Let_def intro!: calm_same split: prod.split sum.split)

lemma connect_done_goes: "goes c (connect_done en net now pd c)"
proof (cases "establish en net (ph_identity c) Reconnect None (PeerId (pd_noise_key pd)) (connect_hints pd)")
  case (Inl e)
  then show ?thesis by (simp add: connect_done_def goes_calm)
next
  case (Inr l)
  have "grown c (adopt_live l c)"
    using add_live_grown(1) [OF establish_next [OF Inr], of c]
    by (simp add: adopt_live_def add_live_def)
  moreover have "calm (adopt_live l c) (adopt en now l pd c)"
    unfolding adopt_def by (rule calm_trans [OF _ touch_calm]) (simp add: adopt_status_def)
  ultimately have "grown c (adopt en now l pd c)" by (rule grown_calm)
  with Inr show ?thesis by (simp add: connect_done_def goes_grown)
qed

lemma begin_pairing_done_goes: "goes c (begin_pairing_done en net ticket secret c)"
proof (cases "establish en net (ph_identity c) ForPairing (Some secret) (PeerId (tk_daemon_key ticket))
    (hints_from_ticket ticket)")
  case (Inl e)
  then show ?thesis by (simp add: begin_pairing_done_def goes_calm)
next
  case (Inr l)
  from add_live_grown(2) [OF establish_next [OF Inr], of c] Inr show ?thesis
    by (simp add: begin_pairing_done_def add_live_def goes_grown)
qed

lemma confirm_start_goes:
  assumes ok: "client_ok en S G c"
  shows "goes c (confirm_start en device c)"
proof (cases "ph_pairing c")
  case None
  then show ?thesis by (simp add: confirm_start_def goes_calm)
next
  case (Some pg)
  obtain c1 r where a: "ask en (pg_live pg) SYS_REGISTER
      (PRegister \<lparr>sr_device_name = device, sr_device_model = None, sr_sas = sas_digits (pg_sas pg)\<rparr>) TRegister c = (c1, r)"
    by fastforce
  have "pg_live pg < length (ph_lives c)" using Some ok by (simp add: client_ok_def pairing_ok_def)
  note k = ask_asked [OF this a]
  show ?thesis
  proof (cases r)
    case (Inl e)
    with k a Some show ?thesis by (auto simp: confirm_start_def intro!: goes_asked [OF asked_calm])
  next
    case (Inr fl)
    with k a Some show ?thesis by (auto simp: confirm_start_def goes_def)
  qed
qed

lemma confirm_named_calm:
  "calm c (fst (confirm_named en now pg rid info c)) \<and> \<not> is_asking (snd (confirm_named en now pg rid info c))"
  by (auto simp: confirm_named_def Let_def cancel_pairing_def intro!: calm_same split: prod.split sum.split)

lemma confirm_registered_goes:
  assumes "pg_live pg < length (ph_lives c)"
  shows "goes c (confirm_registered en now pg r c)"
proof (cases "\<exists>rid caps. r = Ok (RSysRegister rid caps)")
  case False
  then show ?thesis by (auto simp: confirm_registered_def intro!: goes_calm split: sum.split reply.split)
next
  case True
  then obtain rid caps where r: "r = Ok (RSysRegister rid caps)" by blast
  obtain c1 x where a: "ask en (pg_live pg) SYS_INFO PSysInfo TSysInfo c = (c1, x)" by fastforce
  note k = ask_asked [OF assms a]
  show ?thesis
  proof (cases x)
    case (Inl e)
    then have "confirm_registered en now pg r c = confirm_named en now pg rid (Err e) c1"
      using a by (simp add: confirm_registered_def r)
    with k confirm_named_calm [of c1] asked_goes show ?thesis by metis
  next
    case (Inr fl)
    with k a show ?thesis by (auto simp: confirm_registered_def r goes_def)
  qed
qed

text \<open>One event: the requests there are were there before, but for at most one that takes the next number.\<close>

definition same_request :: "in_flight \<Rightarrow> in_flight \<Rightarrow> bool" where
  "same_request fl0 fl \<longleftrightarrow> fl_live fl0 = fl_live fl \<and> fl_id fl0 = fl_id fl \<and> fl_chan fl0 = fl_chan fl"

definition was_asked :: "'t client \<Rightarrow> nat \<Rightarrow> in_flight \<Rightarrow> bool" where
  "was_asked c m fl \<longleftrightarrow> (\<exists>fl0 jb0. task_at c m = Asking fl0 jb0 \<and> same_request fl0 fl)"

definition old_asks :: "'t client \<Rightarrow> 't client \<Rightarrow> bool" where
  "old_asks c c' \<longleftrightarrow> (\<forall>m fl jb. task_at c' m = Asking fl jb \<longrightarrow> was_asked c m fl)"

definition stepped :: "'t client \<Rightarrow> 't client \<Rightarrow> bool" where
  "stepped c c' \<longleftrightarrow>
     (next_ids c' = next_ids c \<or> next_ids c' = next_ids c @ [1]) \<and> old_asks c c' \<or>
     (\<exists>i k. i < length (ph_lives c) \<and> next_ids c' = (next_ids c)[i := Suc (next_ids c ! i) mod 2 ^ 64] \<and>
        (\<forall>m fl jb. task_at c' m = Asking fl jb \<longrightarrow>
           was_asked c m fl \<or> m = k \<and> fl_live fl = i \<and> fl_id fl = next_ids c ! i))"

lemma was_asked_at: "task_at c m = Asking fl jb \<Longrightarrow> was_asked c m fl"
  by (auto simp: was_asked_def same_request_def)

lemma no_new_old: "no_new_asks c c' \<Longrightarrow> old_asks c c'"
  unfolding no_new_asks_def old_asks_def using was_asked_at by blast

lemma calm_stepped: "calm c c' \<Longrightarrow> stepped c c'"
  unfolding calm_def stepped_def using no_new_old by blast

lemma stepped_calm:
  assumes step: "stepped c c1" and calm: "calm c1 c2"
  shows "stepped c c2"
proof -
  have ids: "next_ids c2 = next_ids c1" using calm by (simp add: calm_def)
  have asks: "task_at c1 m = Asking fl jb" if "task_at c2 m = Asking fl jb" for m fl jb
    using calm that unfolding calm_def no_new_asks_def by blast
  from step asks show ?thesis
    unfolding stepped_def old_asks_def ids by blast
qed

text \<open>A task takes its place; \<open>k\<close> is where.\<close>

lemma goes_placed:
  assumes g: "goes c s" and ids: "next_ids c' = next_ids (fst s)"
    and at: "\<And>m. task_at c' m = task_at (fst s) m \<or> m = k \<and> task_at c' m = snd s"
  shows "stepped c c'"
proof -
  from g consider (plain) "calm c (fst s) \<or> grown c (fst s)" "\<not> is_asking (snd s)"
    | (new) i where "asked i c (fst s)" "\<forall>fl jb. snd s = Asking fl jb \<longrightarrow> fl_live fl = i \<and> fl_id fl = next_ids c ! i"
    unfolding goes_def by blast
  then show ?thesis
  proof cases
    case plain
    then have "no_new_asks c (fst s)" by (auto simp: calm_def grown_def)
    moreover have "task_at c' m = task_at (fst s) m" if "task_at c' m = Asking fl jb" for m fl jb
    proof (rule ccontr)
      assume "task_at c' m \<noteq> task_at (fst s) m"
      with at [of m] that have "snd s = Asking fl jb" by auto
      with plain(2) show False by simp
    qed
    ultimately have "no_new_asks c c'" unfolding no_new_asks_def by metis
    then have "old_asks c c'" by (rule no_new_old)
    moreover have "next_ids c' = next_ids c \<or> next_ids c' = next_ids c @ [1]"
      using plain(1) unfolding ids calm_def grown_def by blast
    ultimately show ?thesis unfolding stepped_def by blast
  next
    case new
    then have "no_new_asks c (fst s)" by (simp add: asked_def)
    then have "was_asked c m fl \<or> m = k \<and> fl_live fl = i \<and> fl_id fl = next_ids c ! i"
      if "task_at c' m = Asking fl jb" for m fl jb
    proof (cases "task_at c' m = task_at (fst s) m")
      case True
      with that \<open>no_new_asks c (fst s)\<close> was_asked_at show ?thesis unfolding no_new_asks_def by metis
    next
      case False
      with at [of m] new(2) that show ?thesis by metis
    qed
    with new(1) ids show ?thesis
      unfolding stepped_def asked_def by metis
  qed
qed

lemma spawned_stepped: "goes c s \<Longrightarrow> stepped c (spawned s)"
  by (erule goes_placed [where k = "length (ph_tasks (fst s))"])
    (auto simp: spawned_def task_at_def nth_append)

lemma resumed_stepped: "goes c s \<Longrightarrow> stepped c (resumed n s)"
  by (erule goes_placed [where k = n]) (simp_all add: resumed_def task_at_put)

lemma stage_stepped:
  assumes "task_at c n = Asking fl jb" and "calm c c1"
  shows "stepped c (resumed n (c1, Asking (fl\<lparr>fl_stage := st\<rparr>) jb'))"
proof -
  have "was_asked c m fl'" if "task_at (resumed n (c1, Asking (fl\<lparr>fl_stage := st\<rparr>) jb')) m = Asking fl' jb2" for m fl' jb2
  proof (cases "m = n")
    case True
    have "fl' = fl\<lparr>fl_stage := st\<rparr> \<or> task_at c1 m = Asking fl' jb2"
      using that True by (auto simp: resumed_def task_at_put split: if_splits)
    with assms True show ?thesis
      by (auto simp: was_asked_def same_request_def calm_def no_new_asks_def)
  next
    case False
    then have "task_at c1 m = Asking fl' jb2" using that by (simp add: resumed_def task_at_put)
    with assms(2) was_asked_at show ?thesis unfolding calm_def no_new_asks_def by blast
  qed
  moreover have "next_ids (resumed n (c1, Asking (fl\<lparr>fl_stage := st\<rparr>) jb')) = next_ids c"
    using assms(2) by (simp add: resumed_def calm_def)
  ultimately show ?thesis unfolding stepped_def old_asks_def by blast
qed

lemma calm_drop_unheld:
  fixes c :: "'a client"
  shows "calm c (drop_unheld c)"
proof (rule calm_same)
  have "lv_next_id (if held c i then l else live_drop l) = lv_next_id l" for i and l :: "'a live"
    by (simp add: live_drop_def)
  then show "next_ids (drop_unheld c) = next_ids c"
    by (intro nth_equalityI) (simp_all add: drop_unheld_def nth_enumerate_eq)
qed (simp add: drop_unheld_def)

lemma job_done_goes:
  assumes "task_ok en S G ls (Asking fl jb)" and "length ls = length (ph_lives c)"
  shows "goes c (job_done en now jb r c)"
proof (cases jb)
  case (JobRegister pg)
  with assms have "pg_live pg < length (ph_lives c)" by (simp add: pairing_ok_def)
  with JobRegister show ?thesis by (simp add: job_done_def confirm_registered_goes)
next
  case (JobName pg rid)
  then show ?thesis
    using confirm_named_calm [of c en now pg rid r] by (simp add: job_done_def goes_def)
qed (simp add: job_done_def call_done_goes)

lemma request_abandon_next [simp]: "lv_next_id (request_abandon i l) = lv_next_id l"
  by (simp add: request_abandon_def split: prod.split option.split)

lemma live_send_next [simp]: "lv_next_id (live_send fr l) = lv_next_id l"
  by (simp add: live_send_def)

lemma route_control_next [simp]: "lv_next_id (route_control pc r b l) = lv_next_id l"
  by (simp add: route_control_def reader_ends_def split: control_read.split sum.split control_message.split)

lemma length_on_live [simp]: "length (ph_lives (on_live i f c)) = length (ph_lives c)"
  by (simp add: on_live_def)

lemma request_sent_stepped:
  assumes ok: "client_ok en S G c"
  shows "stepped c (request_sent en n failed now c)"
proof (cases "\<exists>fl jb fr. task_at c n = Asking fl jb \<and> fl_stage fl = StSending fr")
  case False
  then show ?thesis by (auto simp: request_sent_def intro: calm_stepped split: task.split stage.split)
next
  case True
  then obtain fl jb fr where t: "task_at c n = Asking fl jb" "fl_stage fl = StSending fr" by blast
  have tok: "task_ok en S G (ph_lives c) (Asking fl jb)" using task_at_ok [OF ok t(1)] .
  show ?thesis
  proof (cases failed)
    case None
    from stage_stepped [OF t(1) calm_on_live, of "live_send fr" "fl_live fl"] None t show ?thesis
      by (simp add: request_sent_def)
  next
    case (Some e)
    let ?c = "on_live (fl_live fl) (request_abandon (fl_id fl)) c"
    have "goes ?c (job_done en now jb (Err (TransportFailed e)) ?c)"
      by (rule job_done_goes [OF tok]) simp
    then have "goes c (job_done en now jb (Err (TransportFailed e)) ?c)"
      by (rule calm_goes [OF calm_on_live, rotated]) simp
    with Some t show ?thesis by (simp add: request_sent_def resumed_stepped)
  qed
qed

lemma request_reply_stepped:
  assumes ok: "client_ok en S G c"
  shows "stepped c (request_reply en n now c)"
proof (cases "\<exists>fl jb r. task_at c n = Asking fl jb \<and> fl_stage fl = StAwaiting \<and>
    request_outcome (pe_codec en) (fl_type fl) (channel_of c fl) = Some r")
  case False
  then show ?thesis by (auto simp: request_reply_def intro: calm_stepped split: task.split option.split)
next
  case True
  then obtain fl jb r where t: "task_at c n = Asking fl jb" "fl_stage fl = StAwaiting"
    and r: "request_outcome (pe_codec en) (fl_type fl) (channel_of c fl) = Some r" by blast
  have "goes c (job_done en now jb r c)"
    by (rule job_done_goes [OF task_at_ok [OF ok t(1)]]) simp
  with t r show ?thesis by (simp add: request_reply_def resumed_stepped)
qed

lemma request_deadline_stepped: "stepped c (request_deadline en n c)"
proof (cases "\<exists>fl jb. task_at c n = Asking fl jb \<and> fl_stage fl = StAwaiting \<and> channel_of c fl = Waiting")
  case False
  then show ?thesis by (auto simp: request_deadline_def intro: calm_stepped split: task.split)
next
  case True
  then obtain fl jb where t: "task_at c n = Asking fl jb" "fl_stage fl = StAwaiting" "channel_of c fl = Waiting"
    by blast
  from stage_stepped [OF t(1) calm_on_live, of "request_abandon (fl_id fl)" "fl_live fl"] t show ?thesis
    by (simp add: request_deadline_def)
qed

lemma request_cancelled_stepped:
  assumes ok: "client_ok en S G c"
  shows "stepped c (request_cancelled en n sent now c)"
proof (cases "\<exists>fl jb fro. task_at c n = Asking fl jb \<and> fl_stage fl = StCancelling fro")
  case False
  then show ?thesis by (auto simp: request_cancelled_def intro: calm_stepped split: task.split stage.split)
next
  case True
  then obtain fl jb fro where t: "task_at c n = Asking fl jb" "fl_stage fl = StCancelling fro" by blast
  let ?c = "case fro of Some fr \<Rightarrow> if sent then on_live (fl_live fl) (live_send fr) c else c | None \<Rightarrow> c"
  have "calm c ?c" by (auto intro: calm_on_live split: option.split)
  moreover have "goes ?c (job_done en now jb (Err RequestTimeout) ?c)"
    by (rule job_done_goes [OF task_at_ok [OF ok t(1)]]) (simp split: option.split)
  ultimately have "goes c (job_done en now jb (Err RequestTimeout) ?c)" by (rule calm_goes)
  with t show ?thesis by (simp add: request_cancelled_def resumed_stepped)
qed

lemma client_step_stepped:
  assumes ok: "client_ok en S G c"
  shows "stepped c (client_step en c ev)"
proof -
  have "stepped c (handle_event en ev c)"
  proof (cases ev)
    case EvUnpair
    have "calm c (fst (unpair en c))"
      unfolding unpair_def Let_def case_prod_beta fst_conv
      by (rule calm_trans [OF calm_trans [OF calm_cancel_pairing calm_tear_down]]) (auto intro: calm_same)
    then show ?thesis
      by (auto simp: EvUnpair handle_event_def intro!: spawned_stepped goes_calm split: prod.split)
  next
    case EvRoots
    then show ?thesis
      by (auto simp: handle_event_def workspace_roots_def intro!: spawned_stepped goes_calm dest: calm_require_live
          split: prod.splits)
  next
    case (EvOperation opn)
    let ?c = "case opn of CloseTerminal pty \<Rightarrow> detach_poller pty c | _ \<Rightarrow> c"
    have "calm c ?c" by (simp add: calm_detach_poller split: operation.split)
    moreover have "client_ok en S G ?c" using ok by (simp add: detach_poller_ok split: operation.split)
    ultimately have "goes c (operation_start en opn c)"
      using calm_goes call_start_goes by (fastforce simp: operation_start_def Let_def case_prod_beta)
    then show ?thesis by (simp add: EvOperation handle_event_def spawned_stepped)
  next
    case (EvDialled n net now)
    then show ?thesis
      by (auto simp: handle_event_def intro: calm_stepped resumed_stepped connect_done_goes split: task.split)
  next
    case (EvPairDialled n net)
    then show ?thesis
      by (auto simp: handle_event_def intro: calm_stepped resumed_stepped begin_pairing_done_goes split: task.split)
  next
    case (EvTick n)
    then show ?thesis
      using ok by (auto simp: handle_event_def intro: calm_stepped resumed_stepped call_start_goes split: task.split)
  next
    case (EvBeginPairing payload)
    have "calm c (set_phase PhConnecting (cancel_pairing c))" by (rule calm_trans [OF calm_cancel_pairing]) simp
    then show ?thesis
      by (auto simp: EvBeginPairing handle_event_def begin_pairing_start_def intro!: spawned_stepped goes_calm
          split: sum.split)
  next
    case (EvRead i r b)
    then show ?thesis by (auto simp: handle_event_def intro!: calm_stepped calm_on_live)
  next
    case (EvLost i)
    then show ?thesis by (auto simp: handle_event_def intro!: calm_stepped calm_on_live)
  next
    case EvObserve
    have "calm c (c\<lparr>ph_observing := True\<rparr>)" by (rule calm_same) simp_all
    with EvObserve show ?thesis by (simp add: handle_event_def calm_stepped)
  next
    case EvWatch
    have "calm c (c\<lparr>ph_watching := True\<rparr>)" by (rule calm_same) simp_all
    with EvWatch show ?thesis by (simp add: handle_event_def calm_stepped)
  qed (use ok in \<open>simp_all add: handle_event_def spawned_stepped connect_start_goes confirm_start_goes
      request_sent_stepped request_reply_stepped request_deadline_stepped request_cancelled_stepped
      calm_stepped\<close>)
  then show ?thesis
    unfolding client_step_def by (rule stepped_calm [OF _ calm_drop_unheld])
qed

section \<open>Properties\<close>

lemma load_or_create_daemon:
  assumes "load_or_create_identity os hx cv root seed d = (d', r)" and "os_paths_differ os root"
  shows "file_bytes d' (daemon_path os root) = file_bytes d (daemon_path os root)"
proof -
  let ?p = "daemon_path os root" and ?i = "identity_path os root"
  have ne: "?p \<noteq> ?i" using assms(2) by (auto simp: os_paths_differ_def)
  obtain d1 r1 where e: "ensure_dir os root d = (d1, r1)" by fastforce
  obtain d2 r2 where w: "write_file os ?i (as_bytes (hex_encode hx (expose_seed (identity_generate cv seed)))) d1 = (d2, r2)"
    by fastforce
  have "file_bytes d2 ?p = file_bytes d1 ?p"
    using write_file_other [OF w ne] by (simp add: file_bytes_def)
  then show ?thesis
    using assms(1) e w ensure_dir_bytes [OF e, of ?p]
    by (auto simp: load_or_create_identity_def Let_def split: sum.splits if_splits)
qed

definition no_record :: "('h, 't, 'r, 'a) phone_env \<Rightarrow> disk \<Rightarrow> bool" where
  "no_record en d \<longleftrightarrow> file_bytes d (daemon_path (pe_os en) (pe_root en)) = None"

text \<open>The machine of the record on the disk, if there is one.\<close>

definition remembered :: "('h, 't, 'r, 'a) phone_env \<Rightarrow> disk \<Rightarrow> kept_set" where
  "remembered en d =
     (case Option.bind (file_bytes d (daemon_path (pe_os en) (pe_root en))) (dc_decode (pe_cbor en)) of
        None \<Rightarrow> {}
      | Some pd \<Rightarrow> {(pd_noise_key pd, pd_registered_id pd)})"

lemma no_record_remembered: "no_record en d \<Longrightarrow> remembered en d = {}"
  by (simp add: no_record_def remembered_def)

text \<open>A client that was just created, on a disk with or without a record.\<close>

lemma created_ok:
  assumes "env_ok en" and "client_create en seed rt d = (d', Ok c)"
  shows "client_ok en (remembered en d) {} c"
proof -
  let ?p = "daemon_path (pe_os en) (pe_root en)"
  obtain d1 i where l: "load_or_create_identity (pe_os en) (pe_hex en) (pe_curves en) (pe_root en) seed d = (d1, Ok i)"
    using assms(2) by (auto simp: client_create_def split: prod.splits sum.splits)
  have same: "file_bytes d1 ?p = file_bytes d ?p"
    using load_or_create_daemon [OF l] assms(1) by (simp add: env_ok_def)
  obtain r where load: "load_daemon (pe_os en) (pe_cbor en) (pe_root en) d1 = Ok r"
    and c: "ph_daemon c = r" "ph_disk c = d1" "ph_lives c = []" "ph_tasks c = []" "ph_pairing c = None" "ph_live c = None"
    using assms(2) l by (auto simp: client_create_def split: if_splits sum.splits)
  have rec: "record_ok en (remembered en d) {} [] pd" if "file_bytes d1 ?p = Some bs" "dc_decode (pe_cbor en) bs = Some pd" for bs pd
    using that same by (simp add: record_ok_def granted_def remembered_def)
  have "record_ok en (remembered en d) {} [] pd" if "r = Some pd" for pd
    using load that rec
    by (auto simp: load_daemon_def read_file_def Let_def split: if_splits option.splits)
  with rec show ?thesis
    by (simp add: client_ok_def disk_ok_def c)
qed

lemma created_run_ok:
  assumes "env_ok en" and "client_create en seed rt d = (d', Ok c)"
  shows "client_ok en (remembered en d) (heard_by en c evs) (client_run en c evs)"
proof -
  have "client_ok en (remembered en d) (heard_by en c evs) c"
    using created_ok [OF assms] client_ok_more by blast
  then show ?thesis by (rule client_run_ok [OF assms(1)]) simp
qed

lemma client_run_append: "client_run en c (evs @ evs') = client_run en (client_run en c evs) evs'"
  by (simp add: client_run_def)

lemma heard_by_append: "heard_by en c (evs @ evs') = heard_by en c evs \<union> heard_by en (client_run en c evs) evs'"
  by (induction evs arbitrary: c) (auto simp: client_run_def)

text \<open>
  C13: Only a machine that granted the registration is remembered.  However the events come in after a
  client was created where no record was, the record that it has in memory or on disk names the key and
  the identifier of a grant that the client heard over a pairing connection which that very key had
  authenticated.
\<close>

theorem registered_before_remembered:
  assumes "env_ok en" and "no_record en d" and "client_create en seed True d = (d', Ok c)"
    and "ph_daemon (client_run en c evs) = Some pd \<or>
      load_daemon (pe_os en) (pe_cbor en) (pe_root en) (ph_disk (client_run en c evs)) = Ok (Some pd)"
  shows "\<exists>i rq bs caps. (i, rq, Ok bs) \<in> heard_by en c evs \<and> i < length (ph_lives (client_run en c evs)) \<and>
    pc_result (pe_codec en) TRegister bs = Some (RSysRegister (pd_registered_id pd) caps) \<and>
    (let conn = lv_conn (ph_lives (client_run en c evs) ! i)
     in co_peer conn = pd_noise_key pd \<and> ir_purpose (co_config conn) = ForPairing)"
proof -
  let ?G = "heard_by en c evs" and ?c = "client_run en c evs"
  have ok: "client_ok en {} ?G ?c"
    using created_run_ok [OF assms(1,3), of evs] no_record_remembered [OF assms(2)] by simp
  have "record_ok en {} ?G (ph_lives ?c) pd"
    using assms(4)
  proof
    assume "load_daemon (pe_os en) (pe_cbor en) (pe_root en) (ph_disk ?c) = Ok (Some pd)"
    with ok show ?thesis
      by (auto simp: client_ok_def disk_ok_def load_daemon_def read_file_def Let_def split: if_splits option.splits)
  qed (use ok in \<open>simp add: client_ok_def\<close>)
  then show ?thesis by (auto simp: record_ok_def granted_def Let_def)
qed

text \<open>The numbers of the requests under way: used, and each used once.\<close>

definition numbered :: "nat \<Rightarrow> 't client \<Rightarrow> bool" where
  "numbered n c \<longleftrightarrow> (\<forall>x \<in> set (next_ids c). x \<le> Suc n) \<and>
     (\<forall>m fl jb. task_at c m = Asking fl jb \<longrightarrow> fl_live fl < length (ph_lives c) \<and> fl_id fl < next_ids c ! fl_live fl) \<and>
     (\<forall>m m' fl fl' jb jb'. task_at c m = Asking fl jb \<longrightarrow> task_at c m' = Asking fl' jb' \<longrightarrow>
        fl_live fl' = fl_live fl \<longrightarrow> fl_id fl' = fl_id fl \<longrightarrow> m' = m)"

lemma numberedD:
  assumes "numbered n c" and "task_at c m = Asking fl jb"
  shows "fl_live fl < length (ph_lives c)" "fl_id fl < next_ids c ! fl_live fl"
    "task_at c m' = Asking fl' jb' \<Longrightarrow> fl_live fl' = fl_live fl \<Longrightarrow> fl_id fl' = fl_id fl \<Longrightarrow> m' = m"
  using assms unfolding numbered_def by blast+

text \<open>Later on: the same requests at the same places, and others with numbers that were not used.\<close>

definition later :: "'t client \<Rightarrow> 't client \<Rightarrow> bool" where
  "later c c' \<longleftrightarrow> length (ph_lives c) \<le> length (ph_lives c') \<and>
     (\<forall>i < length (ph_lives c). next_ids c ! i \<le> next_ids c' ! i) \<and>
     (\<forall>m fl jb. task_at c' m = Asking fl jb \<longrightarrow>
        was_asked c m fl \<or> length (ph_lives c) \<le> fl_live fl \<or> next_ids c ! fl_live fl \<le> fl_id fl)"

lemma later_refl: "later c c"
  using was_asked_at by (auto simp: later_def)

lemma was_asked_same: "was_asked c m fl \<Longrightarrow> same_request fl fl' \<Longrightarrow> was_asked c m fl'"
  by (auto simp: was_asked_def same_request_def)

lemma later_trans:
  assumes "later c c1" and "later c1 c2"
  shows "later c c2"
proof -
  have "was_asked c m fl \<or> length (ph_lives c) \<le> fl_live fl \<or> next_ids c ! fl_live fl \<le> fl_id fl"
    if t: "task_at c2 m = Asking fl jb" for m fl jb
  proof -
    from assms(2) t consider (old) "was_asked c1 m fl" | (new) "length (ph_lives c1) \<le> fl_live fl \<or> next_ids c1 ! fl_live fl \<le> fl_id fl"
      unfolding later_def by blast
    then show ?thesis
    proof cases
      case old
      then obtain fl0 jb0 where "task_at c1 m = Asking fl0 jb0" "same_request fl0 fl" by (auto simp: was_asked_def)
      with assms(1) was_asked_same show ?thesis unfolding later_def same_request_def by metis
    next
      case new
      with assms(1) show ?thesis unfolding later_def by (meson le_trans not_le)
    qed
  qed
  with assms show ?thesis unfolding later_def by (meson le_trans order_less_le_trans)
qed

lemma stepped_numbered:
  assumes num: "numbered n c" and step: "stepped c c'" and n: "Suc (Suc n) < 2 ^ 64"
  shows "numbered (Suc n) c' \<and> later c c'"
proof -
  have old: "fl_live fl < length (ph_lives c)" "fl_id fl < next_ids c ! fl_live fl" if "was_asked c m fl" for m fl
    using that numberedD(1,2) [OF num] unfolding was_asked_def same_request_def by metis+
  have uniq: "m' = m" if "was_asked c m fl" "was_asked c m' fl'" "fl_live fl' = fl_live fl" "fl_id fl' = fl_id fl" for m m' fl fl'
    using that numberedD(3) [OF num] by (fastforce simp: was_asked_def same_request_def)
  have small: "next_ids c ! i \<le> Suc n" if "i < length (ph_lives c)" for i
    using num that unfolding numbered_def by (metis length_map nth_mem)
  from step consider
    (quiet) "next_ids c' = next_ids c \<or> next_ids c' = next_ids c @ [1]" "old_asks c c'"
  | (new) i k where "i < length (ph_lives c)" "next_ids c' = (next_ids c)[i := Suc (next_ids c ! i) mod 2 ^ 64]"
      "\<And>m fl jb. task_at c' m = Asking fl jb \<Longrightarrow> was_asked c m fl \<or> m = k \<and> fl_live fl = i \<and> fl_id fl = next_ids c ! i"
    unfolding stepped_def by blast
  then show ?thesis
  proof cases
    case quiet
    have len: "length (ph_lives c) \<le> length (ph_lives c')"
      using quiet(1) by (metis length_append length_map le_add1 order_refl)
    have at: "next_ids c' ! i = next_ids c ! i" if "i < length (ph_lives c)" for i
      using quiet(1) that by (elim disjE) (simp_all add: nth_append)
    have was: "was_asked c m fl" if "task_at c' m = Asking fl jb" for m fl jb
      using quiet(2) that unfolding old_asks_def by blast
    have "\<forall>x \<in> set (next_ids c'). x \<le> Suc (Suc n)"
      using quiet(1) num unfolding numbered_def by (elim disjE) auto
    moreover have "fl_live fl < length (ph_lives c') \<and> fl_id fl < next_ids c' ! fl_live fl"
      if t: "task_at c' m = Asking fl jb" for m fl jb
      using old [OF was [OF t]] at [of "fl_live fl"] len by simp
    moreover have "m' = m" if "task_at c' m = Asking fl jb" "task_at c' m' = Asking fl' jb'"
      "fl_live fl' = fl_live fl" "fl_id fl' = fl_id fl" for m m' fl fl' jb jb'
      using uniq [OF was [OF that(1)] was [OF that(2)] that(3,4)] .
    ultimately have "numbered (Suc n) c'"
      unfolding numbered_def by blast
    moreover have "later c c'"
      unfolding later_def using len at was by auto
    ultimately show ?thesis ..
  next
    case new
    have len: "length (ph_lives c') = length (ph_lives c)"
      using new(2) by (metis length_list_update length_map)
    have bumped: "Suc (next_ids c ! i) mod 2 ^ 64 = Suc (next_ids c ! i)"
      using small [OF new(1)] n by simp
    have at: "next_ids c' ! j = (if j = i then Suc (next_ids c ! i) else next_ids c ! j)" if "j < length (ph_lives c)" for j
      using that new(1) bumped unfolding new(2) by simp
    have all: "\<forall>x \<in> set (next_ids c'). x \<le> Suc (Suc n)"
    proof
      fix x assume "x \<in> set (next_ids c')"
      then obtain j where "j < length (ph_lives c)" "x = next_ids c' ! j"
        using len by (metis in_set_conv_nth length_map)
      with at small [of j] small [OF new(1)] show "x \<le> Suc (Suc n)" by (auto split: if_splits)
    qed
    have range: "fl_live fl < length (ph_lives c') \<and> fl_id fl < next_ids c' ! fl_live fl"
      if t: "task_at c' m = Asking fl jb" for m fl jb
      using new(3) [OF t]
    proof
      assume "was_asked c m fl"
      from old [OF this] at [of "fl_live fl"] len show ?thesis by (auto split: if_splits)
    next
      assume "m = k \<and> fl_live fl = i \<and> fl_id fl = next_ids c ! i"
      with at [OF new(1)] new(1) len show ?thesis by simp
    qed
    have one: "m' = m" if t: "task_at c' m = Asking fl jb" "task_at c' m' = Asking fl' jb'"
      and same: "fl_live fl' = fl_live fl" "fl_id fl' = fl_id fl" for m m' fl fl' jb jb'
    proof (cases "was_asked c m fl = was_asked c m' fl'")
      case True
      with new(3) [OF t(1)] new(3) [OF t(2)] uniq [OF _ _ same] show ?thesis by blast
    next
      case False
      with new(3) [OF t(1)] new(3) [OF t(2)] old(2) [of m fl] old(2) [of m' fl'] same show ?thesis by auto
    qed
    have "numbered (Suc n) c'"
      unfolding numbered_def using all range one by blast
    moreover have "was_asked c m fl \<or> length (ph_lives c) \<le> fl_live fl \<or> next_ids c ! fl_live fl \<le> fl_id fl"
      if t: "task_at c' m = Asking fl jb" for m fl jb
      using new(3) [OF t] by fastforce
    then have "later c c'"
      unfolding later_def using len at by auto
    ultimately show ?thesis ..
  qed
qed

lemma run_numbered:
  assumes "env_ok en" and "client_ok en S G c" and "heard_by en c evs \<subseteq> G" and "numbered n c"
    and "n + length evs < 2 ^ 64 - 1"
  shows "numbered (n + length evs) (client_run en c evs) \<and> later c (client_run en c evs)"
  using assms(2-5)
proof (induction evs arbitrary: c n)
  case Nil
  then show ?case by (simp add: client_run_def later_refl)
next
  case (Cons ev evs)
  let ?c1 = "client_step en c ev"
  have run: "client_run en c (ev # evs) = client_run en ?c1 evs" by (simp add: client_run_def)
  have one: "numbered (Suc n) ?c1 \<and> later c ?c1"
    using Cons.prems(3,4) by (intro stepped_numbered [OF _ client_step_stepped [OF Cons.prems(1)]]) simp_all
  have "client_ok en S G ?c1" using Cons.prems(1,2) by (intro client_step_ok [OF assms(1)]) simp_all
  from Cons.IH [OF this, of "Suc n"] Cons.prems(2,4) one show ?case
    unfolding run using later_trans by auto
qed

lemma created_numbered:
  assumes "client_create en seed rt d = (d', Ok c)"
  shows "numbered 0 c"
  using assms
  by (auto simp: client_create_def numbered_def task_at_def split: prod.splits sum.splits if_splits)

text \<open>
  C14: An answer goes to the request it answers, and to no other.  Whatever a request finds in its
  channel was heard on the request's own connection, in a response that carries the request's own
  number; and no other request that is under way on the connection, then or at any later time, has
  that number: one that has it is the same request, of the same operation and with the same channel.
  This is so for every client, whether it was created with a machine remembered or without, for as
  long as fewer than \<open>2 ^ 64 - 1\<close> events have come in, after which the counter starts again.
\<close>

theorem answers_go_to_their_request:
  assumes "env_ok en" and "client_create en seed True d = (d', Ok c)"
    and "task_at (client_run en c evs) n = Asking fl jb"
  shows "(\<forall>r. channel_of (client_run en c evs) fl = Sent r \<longrightarrow> (fl_live fl, fl_id fl, r) \<in> heard_by en c evs) \<and>
    (\<forall>evs' m fl' jb'. task_at (client_run en c (evs @ evs')) m = Asking fl' jb' \<longrightarrow>
       fl_live fl' = fl_live fl \<longrightarrow> fl_id fl' = fl_id fl \<longrightarrow> length (evs @ evs') < 2 ^ 64 - 1 \<longrightarrow>
       m = n \<and> fl_chan fl' = fl_chan fl)"
proof (intro conjI allI impI)
  fix r assume "channel_of (client_run en c evs) fl = Sent r"
  with task_asking_flight [OF task_at_ok [OF created_run_ok [OF assms(1,2)] assms(3)]]
  show "(fl_live fl, fl_id fl, r) \<in> heard_by en c evs"
    by (simp add: flight_ok_def channel_of_def)
next
  fix evs' m fl' jb'
  let ?c1 = "client_run en c evs"
  assume t: "task_at (client_run en c (evs @ evs')) m = Asking fl' jb'"
    and same: "fl_live fl' = fl_live fl" "fl_id fl' = fl_id fl" and short: "length (evs @ evs') < 2 ^ 64 - 1"
  have ok: "client_ok en (remembered en d) (heard_by en c (evs @ evs')) c"
    using created_ok [OF assms(1,2)] client_ok_more by blast
  have n1: "numbered (length evs) ?c1"
    using run_numbered [OF assms(1) ok _ created_numbered [OF assms(2)], of evs] short by (simp add: heard_by_append)
  have ok1: "client_ok en (remembered en d) (heard_by en c (evs @ evs')) ?c1"
    using client_run_ok [OF assms(1) ok, of evs] by (simp add: heard_by_append)
  have "later ?c1 (client_run en c (evs @ evs'))"
    using run_numbered [OF assms(1) ok1 _ n1, of evs'] short by (simp add: heard_by_append client_run_append)
  with t have "was_asked ?c1 m fl' \<or> length (ph_lives ?c1) \<le> fl_live fl' \<or> next_ids ?c1 ! fl_live fl' \<le> fl_id fl'"
    unfolding later_def by blast
  with numberedD(1,2) [OF n1 assms(3)] same have "was_asked ?c1 m fl'" by auto
  then obtain fl0 jb0 where f: "task_at ?c1 m = Asking fl0 jb0" "same_request fl0 fl'" by (auto simp: was_asked_def)
  with numberedD(3) [OF n1 assms(3) f(1)] same have "m = n" by (simp add: same_request_def)
  with f assms(3) show "m = n" "fl_chan fl' = fl_chan fl" by (simp_all add: same_request_def)
qed

text \<open>
  C24: No operation is sent to a machine that did not register this device.  A request of an operation
  or of a terminal's poller is under way only on a connection that was dialled to reconnect, and whose
  peer proved the key of a machine that granted a registration: the grant was heard on a pairing
  connection with that very key, or the machine was the one remembered on the disk when the client was
  created.  A connection made for pairing, whose peer may still be anybody, carries none.
\<close>

theorem operations_reach_registered:
  assumes "env_ok en" and "client_create en seed True d = (d', Ok c)"
    and "task_at (client_run en c evs) n = Asking fl (JobCall k)"
  shows "\<exists>l rid. fl_live fl < length (ph_lives (client_run en c evs)) \<and> l = ph_lives (client_run en c evs) ! fl_live fl \<and>
    ir_purpose (co_config (lv_conn l)) = Reconnect \<and>
    ((co_peer (lv_conn l), rid) \<in> remembered en d \<or>
     (\<exists>i rq bs caps. (i, rq, Ok bs) \<in> heard_by en c evs \<and> i < length (ph_lives (client_run en c evs)) \<and>
        pc_result (pe_codec en) TRegister bs = Some (RSysRegister rid caps) \<and>
        (let conn = lv_conn (ph_lives (client_run en c evs) ! i)
         in co_peer conn = co_peer (lv_conn l) \<and> ir_purpose (co_config conn) = ForPairing)))"
proof -
  let ?c = "client_run en c evs" and ?l = "ph_lives (client_run en c evs) ! fl_live fl"
  have "slot_ok en (remembered en d) (heard_by en c evs) (ph_lives ?c) (fl_live fl)"
    using task_at_ok [OF created_run_ok [OF assms(1,2)] assms(3)] by simp
  then obtain rid where i: "fl_live fl < length (ph_lives ?c)" "ir_purpose (co_config (lv_conn ?l)) = Reconnect"
    and "granted en (remembered en d) (heard_by en c evs) (ph_lives ?c) (co_peer (lv_conn ?l)) rid"
    by (auto simp: slot_ok_def)
  then show ?thesis
    unfolding granted_def Let_def by (intro exI [where x = ?l] exI [where x = rid]) blast
qed

text \<open>The three ways in which a reader learns that its connection is over.\<close>

definition ends_connection :: "phone_codec \<Rightarrow> control_read \<Rightarrow> bool \<Rightarrow> bool" where
  "ends_connection pc r pong_ok \<longleftrightarrow> r = StreamEnded \<or> (\<exists>e. r = StreamFailed e) \<or>
     (\<exists>fr beat pong. r = GotFrame fr \<and> frame_decode_cbor (pc_from_cbor pc) fr = Ok (Ping beat) \<and>
        frame_cbor (pc_to_cbor pc) FLAGS_LAST (Pong beat) = Ok pong \<and> \<not> pong_ok)"

lemma ends_connection_reader:
  "lv_reading l \<Longrightarrow> ends_connection pc r b \<Longrightarrow> route_control pc r b l = reader_ends l"
  by (auto simp: ends_connection_def route_control_def)

text \<open>
  C15: When a connection ends, every request that waits on it returns: with the answer that had already
  come in, or else with the error that the connection was lost.  This is so however the reader learns of
  the end: the stream ended, it failed in transport, or a heartbeat could not be answered.
\<close>

theorem lost_connection_wakes_all:
  assumes "env_ok en" and "client_create en seed True d = (d', Ok c)"
    and "c1 = client_run en c evs" and "i < length (ph_lives c1)" and "lv_reading (ph_lives c1 ! i)"
    and "ends_connection (pe_codec en) r b" and "c2 = client_step en c1 (EvRead i r b)"
  shows "\<not> lv_reading (ph_lives c2 ! i) \<and>
    (\<forall>n fl jb. task_at c2 n = Asking fl jb \<longrightarrow> fl_live fl = i \<longrightarrow>
       channel_of c2 fl \<noteq> Waiting \<and>
       request_outcome (pe_codec en) (fl_type fl) (channel_of c2 fl) =
         (if channel_of c1 fl = Waiting then Some (Err RequestLost)
          else request_outcome (pe_codec en) (fl_type fl) (channel_of c1 fl)))"
proof -
  let ?G = "heard_by en c evs" and ?pm = "lv_pending (ph_lives c1 ! i)"
  have ok: "client_ok en (remembered en d) ?G c1" unfolding assms(3) using assms(1,2) by (rule created_run_ok)
  have tasks: "task_at c2 n = task_at c1 n" for n
    using assms(4) by (simp add: assms(7) client_step_def handle_event_def drop_unheld_def on_live_def task_at_def)
  have ended: "lv_pending (ph_lives c2 ! i) = abandon_all ?pm \<and> \<not> lv_reading (ph_lives c2 ! i)"
    using assms(4) ends_connection_reader [OF assms(5,6)]
    by (simp add: assms(7) client_step_def handle_event_def drop_unheld_def on_live_def nth_enumerate_eq
        reader_ends_def live_drop_def)
  have woken: "channel_of c2 fl = (if channel_of c1 fl = Waiting then SenderGone else channel_of c1 fl)"
    if t: "task_at c2 n = Asking fl jb" "fl_live fl = i" for n fl jb
  proof -
    have "flight_ok ?G (ph_lives c1) fl"
      using task_at_ok [OF ok, of n] t(1) tasks task_asking_flight by metis
    then have "fl_chan fl < length (pm_channels ?pm)"
      using t(2) by (simp add: flight_ok_def)
    moreover have "pending_ok ?pm" using live_at_ok [OF ok assms(4)] .
    ultimately show ?thesis
      using t(2) ended by (auto simp: channel_of_def nth_abandon pending_ok_def)
  qed
  show ?thesis
  proof (intro conjI allI impI)
    fix n fl jb assume t: "task_at c2 n = Asking fl jb" "fl_live fl = i"
    show "channel_of c2 fl \<noteq> Waiting" using woken [OF t] by simp
    show "request_outcome (pe_codec en) (fl_type fl) (channel_of c2 fl) =
         (if channel_of c1 fl = Waiting then Some (Err RequestLost)
          else request_outcome (pe_codec en) (fl_type fl) (channel_of c1 fl))"
      unfolding woken [OF t] by (simp add: request_outcome_def)
  qed (use ended in blast)
qed

text \<open>
  Unpairing forgets, whatever the disk does: no machine, no connection, no pairing and no terminal
  is left in memory, the status says unpaired, and no operation reaches a machine any more.  If the
  disk does its part, neither the identity nor the record is left on it.
\<close>

theorem unpair_forgets:
  "case unpair en c of
      (c', r) \<Rightarrow>
        ph_daemon c' = None \<and> ph_live c' = None \<and> ph_pairing c' = None \<and> ph_terminals c' = [] \<and>
        ss_phase (ph_status c') = PhUnpaired \<and> ss_daemon_name (ph_status c') = None \<and>
        snd (operation_start en opn c') = Returned (Err NotPaired) \<and>
        snd (connect_start c') = Returned (Err NotPaired) \<and>
        (if r = Ok () then file_bytes (ph_disk c') (identity_path (pe_os en) (pe_root en)) = None \<and>
            file_bytes (ph_disk c') (daemon_path (pe_os en) (pe_root en)) = None
         else True)"
proof -
  obtain c' r where u: "unpair en c = (c', r)" by fastforce
  obtain d' x where w: "wipe (pe_os en) (pe_root en) (ph_disk c) = (d', x)" by fastforce
  have mem: "ph_daemon c' = None" "ph_live c' = None" "ph_pairing c' = None" "ph_terminals c' = []"
    "ss_phase (ph_status c') = PhUnpaired" "ss_daemon_name (ph_status c') = None" "ph_disk c' = d'"
    "r = map_err StorageFailed x"
    using u w by (auto simp: unpair_def Let_def cancel_pairing_def)
  have "require_live c' = (c', Err NotPaired)"
    using mem by (simp add: require_live_def healthy_live_def)
  then have "snd (operation_start en opn c') = Returned (Err NotPaired)"
    using mem(4) by (cases opn) (simp_all add: operation_start_def detach_poller_def call_start_def)
  moreover have "snd (connect_start c') = Returned (Err NotPaired)"
    using mem(1) by (simp add: connect_start_def)
  moreover have "file_bytes d' (identity_path (pe_os en) (pe_root en)) = None \<and>
      file_bytes d' (daemon_path (pe_os en) (pe_root en)) = None" if "r = Ok ()"
    using wipe_done [of _ _ _ d'] w that mem(8) by (cases x) auto
  ultimately show ?thesis using u mem by simp
qed

section \<open>Where the client falls short\<close>

text \<open>
  The status is written under another lock than the connection.  If another thread disconnects between
  the two, the client reports that it is connected and holds no connection; if it connects between the
  two halves of a disconnection, the client reports that it is disconnected and holds one.
\<close>

lemma status_may_lie:
  "ss_phase (ph_status (adopt_status path pd (tear_down (adopt_live l c)))) = PhConnected \<and>
   ph_live (adopt_status path pd (tear_down (adopt_live l c))) = None"
  "ss_phase (ph_status (tear_down_status (adopt_status path pd (adopt_live l (tear_down_live c))))) = PhDisconnected \<and>
   ph_live (tear_down_status (adopt_status path pd (adopt_live l (tear_down_live c)))) \<noteq> None"
  by (simp_all add: adopt_status_def tear_down_status_def adopt_live_def add_live_def)

text \<open>A connection that was being dialled when the user unpaired brings the machine back.\<close>

lemma dial_undoes_unpair:
  assumes "establish en net (ph_identity c) Reconnect None (PeerId (pd_noise_key pd)) (connect_hints pd) = Ok l"
    and "save_daemon (pe_os en) (pe_cbor en) (pe_root en) (pd\<lparr>pd_last_seen := Some now\<rparr>) (ph_disk c) = (d', Ok ())"
  shows "\<exists>c'. connect_done en net now pd c = (c', Returned (Ok NoValue)) \<and>
    ph_daemon c' = Some (pd\<lparr>pd_last_seen := Some now\<rparr>)"
  using assms by (simp add: connect_done_def adopt_def adopt_status_def adopt_live_def add_live_def
      touch_daemon_seen_def Let_def)

text \<open>The wiped identity stays in memory, and is what the next pairing in the same process uses.\<close>

lemma unpair_keeps_identity: "ph_identity (fst (unpair en c)) = ph_identity c"
  by (simp add: unpair_def Let_def cancel_pairing_def case_prod_beta)

text \<open>A request that starts after the reader has ended finds nobody to answer or to wake it.\<close>

lemma late_request_waits:
  assumes "\<not> lv_reading l" and "live_ok l" and "request_start pc meth params l = (l', Ok (fr, i, ch))"
  shows "route_control pc r b l' = l' \<and> pm_channels (lv_pending l') ! ch = Waiting"
proof -
  have "\<not> lv_reading l'"
    using assms(1,3) by (auto simp: request_start_def Let_def split: sum.splits prod.splits)
  then show ?thesis
    using request_start_ok [OF assms(2,3)] by (simp add: route_control_def)
qed

text \<open>
  A pairing that fails while a connection is up reports the client as disconnected, and \<open>connect\<close>,
  which finds the connection usable, leaves it at that.
\<close>

lemma failed_pairing_hides_connection:
  assumes "ph_live c = Some i" and "\<not> co_closed (lv_conn (ph_lives c ! i))" and "ph_daemon c = Some pd"
    and "establish en net (ph_identity c) ForPairing (Some secret) (PeerId (tk_daemon_key ticket))
           (hints_from_ticket ticket) = Err e"
    and "begin_pairing_done en net ticket secret c = (c1, t)" and "connect_start c1 = (c2, t')"
  shows "ss_phase (ph_status c2) = PhDisconnected \<and> ph_live c2 = Some i \<and> t' = Returned (Ok NoValue)"
proof -
  have c1: "c1 = set_phase PhDisconnected c"
    using assms(3-5) by (auto simp: begin_pairing_done_def)
  then have "healthy_live c1 = (c1, Some i)"
    using assms(1,2) by (simp add: healthy_live_def set_phase_def)
  then show ?thesis
    using assms(1,3,6) c1 by (auto simp: connect_start_def set_phase_def)
qed

section \<open>A run\<close>

text \<open>
  A machine, a phone, and a network on which everything goes well.  The codec writes nothing and
  reads the few messages the run needs; the request for the machine's name cannot be encoded, so the
  machine is called by its default name.
\<close>

definition demo_key :: public_key where "demo_key = PublicKey (replicate 32 9)"

definition demo_record :: "int \<Rightarrow> paired_daemon" where
  "demo_record seen =
     \<lparr>pd_noise_key = demo_key, pd_node_id = Some (PublicKey (replicate 32 8)),
      pd_device_id = id_to_hex hex_crate (replicate 32 9), pd_registered_id = ''01'', pd_name = ''Your machine'',
      pd_addr_hints = [], pd_paired_at = 5, pd_last_seen = Some seen\<rparr>"

definition demo_codec :: phone_codec where
  "demo_codec =
     \<lparr>pc_to_cbor = \<lambda>_. Some [],
      pc_from_cbor = \<lambda>bs.
        if bs = [1] then Some (HelloOk \<lparr>ho_proto_version = 1, ho_server_version = ''1'', ho_granted = cs_default_grant,
                                        ho_roots = [''/w''], ho_dict = None, ho_features = [], ho_session = 1\<rparr>)
        else if bs = [2] then Some (Response \<lparr>rs_id = 1, rs_body = BodyOk [3]\<rparr>) else None,
      pc_params = \<lambda>p. case p of PSysInfo \<Rightarrow> None | _ \<Rightarrow> Some [],
      pc_result = \<lambda>ty _. case ty of TRegister \<Rightarrow> Some (RSysRegister ''01'' cs_default_grant) | _ \<Rightarrow> None\<rparr>"

definition demo_cbor :: daemon_cbor where
  "demo_cbor =
     \<lparr>dc_encode = \<lambda>pd. if pd = demo_record 5 then Some [5] else if pd = demo_record 6 then Some [6] else None,
      dc_decode = \<lambda>bs. if bs = [5] then Some (demo_record 5) else if bs = [6] then Some (demo_record 6) else None\<rparr>"

definition demo_body :: bytes where
  "demo_body = [2] @ replicate 32 9 @ replicate 32 8 @ replicate 32 7 @ [0, 0]"

definition demo_env :: "(bytes, nat, unit, unit) phone_env" where
  "demo_env =
     \<lparr>pe_hash = const_hash, pe_curves = toy_curves, pe_snow = counting_snow,
      pe_crate = \<lparr>ic_parse_relay = \<lambda>_. None, ic_relay_text = \<lambda>_. [], ic_valid_id = \<lambda>_. True,
                  ic_addr_new = \<lambda>_. (), ic_with_ip = \<lambda>a _. a, ic_with_relay = \<lambda>a _. a\<rparr>,
      pe_codec = demo_codec, pe_os = fair_os, pe_cbor = demo_cbor, pe_hex = hex_crate,
      pe_encoder = \<lambda>_. \<lparr>te_encode = \<lambda>_. [], te_decode = \<lambda>_. Some demo_body\<rparr>, pe_root = ''s''\<rparr>"

definition demo_net :: "unit phone_net" where
  "demo_net =
     \<lparr>pn_comes_up = True,
      pn_dial = \<lambda>_. QuicUp (PublicKey (replicate 32 8)) []
        (Some \<lparr>qo_id = 0, qo_io = \<lparr>hio_written = length, hio_reply = \<lambda>_. [0, 1, 5]\<rparr>, qo_elapsed = 3,
               qo_in_time = True\<rparr>),
      pn_hello = None, pn_reads = [GotFrame \<lparr>frame_flags = FLAGS_LAST, frame_payload = [1]\<rparr>]\<rparr>"

definition demo_state ::
  "connection_status \<Rightarrow> nat live list \<Rightarrow> nat option \<Rightarrow> pairing_info option \<Rightarrow> task list \<Rightarrow>
     paired_daemon option \<Rightarrow> disk \<Rightarrow> nat client" where
  "demo_state st ls lv pg ts pd d =
     \<lparr>ph_identity = from_seed toy_curves (replicate 32 1), ph_disk = d, ph_daemon = pd, ph_status = st,
      ph_live = lv, ph_lives = ls, ph_pairing = pg, ph_terminals = [], ph_tasks = ts, ph_observing = False,
      ph_told = [], ph_watching = False, ph_shown = []\<rparr>"

definition demo_client :: "nat client" where
  "demo_client = demo_state (status_idle None) [] None None [] None (fst first_start)"

lemma demo_env_ok: "env_ok demo_env"
  using fair_os_paths by (auto simp: env_ok_def demo_env_def daemon_cbor_laws_def demo_cbor_def demo_record_def)

lemma demo_created: "client_create demo_env (replicate 32 1) True (\<lambda>_. None) = (fst first_start, Ok demo_client)"
  "no_record demo_env (\<lambda>_. None)"
proof -
  have load: "load_or_create_identity fair_os hex_crate toy_curves ''s'' (replicate 32 1) (\<lambda>_. None) =
      (fst first_start, Ok (from_seed toy_curves (replicate 32 1)))"
    using first_start_ok by (simp add: first_start_def)
  have "file_bytes (fst first_start) (daemon_path fair_os ''s'') = None"
    using load_or_create_daemon [OF load fair_os_paths] by (simp add: file_bytes_def)
  then have "load_daemon fair_os demo_cbor ''s'' (fst first_start) = Ok None"
    by (simp add: load_daemon_def Let_def is_file_bytes)
  with load show "client_create demo_env (replicate 32 1) True (\<lambda>_. None) = (fst first_start, Ok demo_client)"
    by (simp add: client_create_def demo_env_def demo_client_def demo_state_def)
  show "no_record demo_env (\<lambda>_. None)" by (simp add: no_record_def file_bytes_def)
qed

lemma last_plain [simp]: "\<not> is_raw FLAGS_LAST" "\<not> is_compressed FLAGS_LAST"
  by code_simp+

lemma demo_decodes:
  "frame_decode_cbor f \<lparr>frame_flags = FLAGS_LAST, frame_payload = bs\<rparr> = ok_or (f bs) MalformedPayload"
  by (simp add: frame_decode_cbor_def)

lemma demo_dial:
  assumes "(p, psk) = (ForPairing, Some secret) \<or> (p, psk) = (Reconnect, None)"
    and "List.map_filter hint_node_id hints = [node]"
  shows "\<exists>l. establish demo_env demo_net i p psk (PeerId demo_key) hints = Ok l \<and> lv_pending l = pending_new \<and>
    lv_next_id l = 1 \<and> lv_reading l \<and> \<not> co_closed (lv_conn l)"
proof -
  obtain c where c: "dial_config i p psk = Ok c" and
    cf: "ir_relay c = PublicRelays" "ir_max_frame_len c = MAX_PAYLOAD_LEN" "ir_max_streams c = MAX_CONCURRENT_STREAMS"
      "ir_bind_addrs c = []" "ir_accept_inbound c = False" "ir_purpose c = p" "ir_psk c = psk" "ir_identity c = i"
    using assms(1) by (auto simp: dial_config_def iroh_pairing_dialer_def iroh_pairing_def iroh_dialer_def iroh_reconnect_def)
  have one: "be_nat [0, 1 :: byte] = 1" by code_simp
  have psk: "psk_agrees p psk = Ok ()" using assms(1) by (auto simp: psk_agrees_def)
  have "iroh_bind (pe_crate demo_env) (\<lambda>_. True) True c = Ok \<lparr>it_config = c, it_incoming = [], it_stopped = True\<rparr>"
    using cf psk by (simp add: iroh_bind_def iroh_validate_def to_relay_mode_def MAX_CONCURRENT_STREAMS_def
        MAX_PAYLOAD_LEN_def)
  moreover obtain conn where "connect_iroh const_hash counting_snow (pe_crate demo_env) c (pn_dial demo_net) (PeerId demo_key) hints = Ok conn"
    "\<not> co_closed conn" "co_dialled conn" "co_control conn \<noteq> None"
    using assms(2) cf
    by (simp add: one connect_iroh_def demo_net_def node_addr_from_hints_def demo_env_def iroh_establish_def initiate_def
        handshake_initiator_def handshake_params_def counting_snow_def hs_write_message_def io_write_message_def
        io_read_message_def PREFIX_LEN_def hs_read_message_def hs_is_finished_def hs_remote_static_def demo_key_def
        id_from_slice_def ID_LEN_def hs_sas_def into_session_def nat_be_2 NOISE_MAX_MESSAGE_LEN_def Let_def)
  ultimately show ?thesis
    using c
    by (auto simp: establish_def demo_env_def demo_net_def open_stream_def take_control_def frame_cbor_def
        demo_codec_def frame_new_def frame_decode_cbor_def Let_def live_start_def)
qed


text \<open>Saving works as long as no directory is in the way.\<close>

definition free_disk :: "disk \<Rightarrow> bool" where
  "free_disk d \<longleftrightarrow> (\<exists>m. d ''s'' = Some (Dir m)) \<and> (\<forall>m. d ''s/daemon.cbor'' \<noteq> Some (Dir m)) \<and>
     (\<forall>m. d ''s/daemon.cbor.tmp'' \<noteq> Some (Dir m))"

lemma demo_save:
  assumes "free_disk d" and "dc_encode demo_cbor pd = Some bs"
  shows "\<exists>d'. save_daemon fair_os demo_cbor ''s'' pd d = (d', Ok ()) \<and> free_disk d'"
  using assms
  by (auto simp: save_daemon_def ensure_dir_def create_dir_all_def fair_os_def Let_def daemon_path_def
      daemon_temp_path_def DAEMON_FILE_def write_file_def rename_file_def restrict_permissions_def free_disk_def
      split: option.splits node.splits)

lemma first_disk_free: "free_disk (fst first_start)"
  by (simp add: free_disk_def first_start_def load_or_create_identity_def ensure_dir_def create_dir_all_def
      fair_os_def Let_def is_file_def identity_path_def IDENTITY_FILE_def write_file_def restrict_permissions_def
      identity_generate_def)


text \<open>
  The phone scans the code, dials, shows the digits, asks for its registration, hears the grant, and
  remembers the machine; then it connects.
\<close>

definition demo_pairing :: "unit event list" where
  "demo_pairing =
     [EvBeginPairing ''gonomad1:'', EvPairDialled 0 demo_net, EvConfirm ''phone'', EvSent 1 None 4,
      EvRead 0 (GotFrame \<lparr>frame_flags = FLAGS_LAST, frame_payload = [2]\<rparr>) True]"

definition demo_ticket :: pairing_ticket where
  "demo_ticket = \<lparr>tk_daemon_key = demo_key, tk_node_id = PublicKey (replicate 32 8), tk_addr_hints = [],
                   tk_relay_hint = None\<rparr>"

lemma demo_ticket_decode: "ticket_decode (pe_encoder demo_env) ''gonomad1:'' = Ok (demo_ticket, replicate 32 7)"
proof -
  have len: "length demo_body = 99" by (simp add: demo_body_def)
  have body: "demo_body = 2 # replicate 32 9 @ replicate 32 8 @ replicate 32 7 @ [0, 0]" by (simp add: demo_body_def)
  have "be_nat (take 2 (drop 97 demo_body)) = 0" by code_simp
  then show ?thesis
    by (simp add: ticket_decode_def demo_env_def crockford_def strip_prefix_def TICKET_PREFIX_def decode_body_def
        len body pairing_consts decode_hints_def demo_ticket_def demo_key_def)
qed


definition fresh_live :: "purpose \<Rightarrow> nat live \<Rightarrow> bool" where
  "fresh_live p l \<longleftrightarrow> lv_pending l = pending_new \<and> lv_next_id l = 1 \<and> lv_reading l \<and> \<not> co_closed (lv_conn l) \<and>
     co_peer (lv_conn l) = demo_key \<and> ir_purpose (co_config (lv_conn l)) = p"

definition demo_info :: "nat live \<Rightarrow> pairing_info" where
  "demo_info l = \<lparr>pg_live = 0, pg_sas = co_sas (lv_conn l), pg_peer = demo_key,
                  pg_node_id = PublicKey (replicate 32 8), pg_addr_hints = []\<rparr>"

definition demo_flight :: in_flight where
  "demo_flight = \<lparr>fl_live = 0, fl_id = 1, fl_chan = 0, fl_type = TRegister, fl_stage = StAwaiting\<rparr>"

definition connecting :: connection_status where
  "connecting = (status_idle None)\<lparr>ss_phase := PhConnecting\<rparr>"

lemmas demo_defs = client_step_def handle_event_def spawned_def resumed_def Let_def demo_state_def drop_unheld_def
  held_def set_phase_def update_status_def task_at_def on_live_def

lemma demo_scanned:
  "client_step demo_env demo_client (EvBeginPairing ''gonomad1:'' :: unit event) =
     demo_state connecting [] None None [PairDialling demo_ticket (replicate 32 7)] None (fst first_start)"
  by (simp add: demo_defs begin_pairing_start_def demo_ticket_decode cancel_pairing_def demo_client_def
      status_idle_def connecting_def)

lemma demo_shown:
  "\<exists>l digits. fresh_live ForPairing l \<and>
     client_step demo_env (demo_state connecting [] None None [PairDialling demo_ticket (replicate 32 7)] None d)
       (EvPairDialled 0 demo_net) =
     demo_state connecting [l] None (Some (demo_info l)) [Returned (Ok (DigitsShown digits))] None d"
proof -
  have "List.map_filter hint_node_id (hints_from_ticket demo_ticket) = [PublicKey (replicate 32 8)]"
    by (simp add: hints_from_ticket_def demo_ticket_def)
  from demo_dial [OF _ this, of ForPairing "Some (replicate 32 7)" "replicate 32 7" "from_seed toy_curves (replicate 32 1)"]
  obtain l where l: "establish demo_env demo_net (from_seed toy_curves (replicate 32 1)) ForPairing (Some (replicate 32 7))
      (PeerId demo_key) (hints_from_ticket demo_ticket) = Ok l" "lv_pending l = pending_new"
    "lv_next_id l = 1" "lv_reading l" "\<not> co_closed (lv_conn l)"
    by blast
  then have "fresh_live ForPairing l"
    using establish_peer [OF l(1)] by (simp add: fresh_live_def)
  then show ?thesis
    using l(1)
    by (intro exI [where x = l] exI [where x = "sas_grouped (co_sas (lv_conn l))"])
      (simp add: demo_defs begin_pairing_done_def add_live_def demo_info_def demo_ticket_def fresh_live_def)
qed

lemma demo_heard:
  assumes "fresh_live ForPairing l"
  shows "\<exists>l'. client_run demo_env (demo_state connecting [l] None (Some (demo_info l)) [t] None d) [EvConfirm ''phone'', EvSent 1 None 4,
        EvRead 0 (GotFrame \<lparr>frame_flags = FLAGS_LAST, frame_payload = [2]\<rparr>) True :: unit event] =
      demo_state connecting [l'] None (Some (demo_info l)) [t, Asking demo_flight (JobRegister (demo_info l))] None d \<and>
    lv_pending l' = \<lparr>pm_slots = [], pm_channels = [Sent (Ok [3])]\<rparr> \<and> lv_reading l' \<and> lv_next_id l' = 2 \<and>
    lv_conn l' = lv_conn l"
proof -
  let ?fr = "\<lparr>frame_flags = FLAGS_LAST, frame_payload = []\<rparr>"
  have enc: "encode_request demo_codec 1 SYS_REGISTER (PRegister p) = Ok ?fr" for p
    by (simp add: encode_request_def demo_codec_def frame_cbor_def frame_new_def mux_config_default_def)
  let ?l1 = "l\<lparr>lv_next_id := 2, lv_pending := \<lparr>pm_slots = [(1, 0)], pm_channels = [Waiting]\<rparr>\<rparr>"
  let ?info = "demo_info l"
  have s1: "client_step demo_env (demo_state connecting [l] None (Some ?info) [t] None d) (EvConfirm ''phone'' :: unit event) =
      demo_state connecting [?l1] None (Some ?info)
        [t, Asking (demo_flight\<lparr>fl_stage := StSending ?fr\<rparr>) (JobRegister ?info)] None d"
    using assms(1) enc
    by (simp add: demo_defs confirm_start_def ask_def request_start_def fresh_live_def demo_info_def
        demo_env_def pending_register_def pending_new_def without_def demo_flight_def)
  let ?l2 = "live_send ?fr ?l1"
  have s2: "client_step demo_env (demo_state connecting [?l1] None (Some ?info)
        [t, Asking (demo_flight\<lparr>fl_stage := StSending ?fr\<rparr>) (JobRegister ?info)] None d) (EvSent 1 None 4 :: unit event) =
      demo_state connecting [?l2] None (Some ?info) [t, Asking demo_flight (JobRegister ?info)] None d"
    by (simp add: demo_defs request_sent_def demo_flight_def demo_info_def)
  let ?l3 = "?l2\<lparr>lv_pending := \<lparr>pm_slots = [], pm_channels = [Sent (Ok [3])]\<rparr>\<rparr>"
  have s3: "client_step demo_env (demo_state connecting [?l2] None (Some ?info)
        [t, Asking demo_flight (JobRegister ?info)] None d)
        (EvRead 0 (GotFrame \<lparr>frame_flags = FLAGS_LAST, frame_payload = [2]\<rparr>) True :: unit event) =
      demo_state connecting [?l3] None (Some ?info) [t, Asking demo_flight (JobRegister ?info)] None d"
    using assms(1)
    by (simp add: demo_defs route_control_def demo_decodes demo_env_def demo_codec_def pending_deliver_def
        pending_take_def without_def live_send_def fresh_live_def demo_info_def)
  show ?thesis
    unfolding client_run_def foldl.simps s1 s2 s3
    using assms(1) by (intro exI [where x = ?l3]) (simp add: fresh_live_def live_send_def)
qed


lemma demo_run_heard:
  "\<exists>l pg digits. client_run demo_env demo_client demo_pairing =
      demo_state connecting [l] None (Some pg) [Returned (Ok (DigitsShown digits)), Asking demo_flight (JobRegister pg)]
        None (fst first_start) \<and>
    lv_pending l = \<lparr>pm_slots = [], pm_channels = [Sent (Ok [3])]\<rparr> \<and> lv_reading l \<and> lv_next_id l = 2 \<and>
    pg_live pg = 0 \<and> pg_peer pg = demo_key \<and> pg_node_id pg = PublicKey (replicate 32 8) \<and> pg_addr_hints pg = []"
proof -
  obtain l digits where l: "fresh_live ForPairing l" and
    s2: "client_step demo_env (demo_state connecting [] None None [PairDialling demo_ticket (replicate 32 7)] None (fst first_start))
       (EvPairDialled 0 demo_net) =
     demo_state connecting [l] None (Some (demo_info l)) [Returned (Ok (DigitsShown digits))] None (fst first_start)"
    using demo_shown [of "fst first_start"] by blast
  obtain l' where "client_run demo_env (demo_state connecting [l] None (Some (demo_info l)) [Returned (Ok (DigitsShown digits))]
        None (fst first_start))
      [EvConfirm ''phone'', EvSent 1 None 4,
        EvRead 0 (GotFrame \<lparr>frame_flags = FLAGS_LAST, frame_payload = [2]\<rparr>) True :: unit event] =
      demo_state connecting [l'] None (Some (demo_info l))
        [Returned (Ok (DigitsShown digits)), Asking demo_flight (JobRegister (demo_info l))] None (fst first_start)"
    "lv_pending l' = \<lparr>pm_slots = [], pm_channels = [Sent (Ok [3])]\<rparr>" "lv_reading l'" "lv_next_id l' = 2"
    using demo_heard [OF l] by blast
  with s2 show ?thesis
    by (intro exI [where x = l'] exI [where x = "demo_info l"] exI [where x = digits])
      (simp add: demo_pairing_def client_run_def demo_scanned demo_info_def)
qed

text \<open>The grant is taken, and the machine is remembered and connected to.\<close>

definition demo_connected :: "unit event list" where
  "demo_connected = demo_pairing @ [EvReply 1 5, EvConnect, EvDialled 2 demo_net 6]"

lemma demo_run_remembered:
  "\<exists>st ls ts d. client_run demo_env demo_client (demo_pairing @ [EvReply 1 5]) =
      demo_state st ls None None ts (Some (demo_record 5)) d \<and> length ts = 2 \<and> free_disk d \<and> length ls = 1 \<and>
    list_all (\<lambda>t. \<forall>i. \<not> task_holds i t) ts"
proof -
  obtain l pg digits where run: "client_run demo_env demo_client demo_pairing =
      demo_state connecting [l] None (Some pg) [Returned (Ok (DigitsShown digits)), Asking demo_flight (JobRegister pg)]
        None (fst first_start)"
    and l: "lv_pending l = \<lparr>pm_slots = [], pm_channels = [Sent (Ok [3])]\<rparr>"
    and pg: "pg_live pg = 0" "pg_peer pg = demo_key" "pg_node_id pg = PublicKey (replicate 32 8)" "pg_addr_hints pg = []"
    using demo_run_heard by blast
  have rec: "confirm_record demo_env pg ''01'' ''Your machine'' 5 = demo_record 5"
    by (simp add: confirm_record_def demo_record_def pg demo_env_def demo_key_def)
  obtain d where d: "save_daemon fair_os demo_cbor ''s'' (demo_record 5) (fst first_start) = (d, Ok ())" "free_disk d"
    using demo_save [OF first_disk_free, of "demo_record 5" "[5]"] by (auto simp: demo_cbor_def)
  have env: "pe_os demo_env = fair_os" "pe_cbor demo_env = demo_cbor" "pe_root demo_env = ''s''" "pe_codec demo_env = demo_codec"
    by (simp_all add: demo_env_def)
  have outcome: "request_outcome demo_codec TRegister (Sent (Ok [3])) = Some (Ok (RSysRegister ''01'' cs_default_grant))"
    by (simp add: request_outcome_def decode_result_def demo_codec_def)
  have noenc: "encode_request demo_codec i SYS_INFO PSysInfo = Err (InternalError ''request parameters could not be encoded'')" for i
    by (simp add: encode_request_def demo_codec_def)
  show ?thesis
    using run l pg rec d
    by (simp add: client_run_def demo_defs request_reply_def demo_flight_def channel_of_def env outcome job_done_def
        confirm_registered_def ask_def request_start_def noenc confirm_named_def daemon_name_def cancel_pairing_def
        connecting_def status_idle_def)
qed


lemma demo_run_connected:
  "\<exists>i. ph_live (client_run demo_env demo_client demo_connected) = Some i \<and>
     i < length (ph_lives (client_run demo_env demo_client demo_connected)) \<and>
     \<not> co_closed (lv_conn (ph_lives (client_run demo_env demo_client demo_connected) ! i))"
proof -
  obtain st ls ts d where run: "client_run demo_env demo_client (demo_pairing @ [EvReply 1 5]) =
      demo_state st ls None None ts (Some (demo_record 5)) d"
    and ts: "length ts = 2" "list_all (\<lambda>t. \<forall>i. \<not> task_holds i t) ts" "free_disk d" "length ls = 1"
    using demo_run_remembered by blast
  let ?c = "client_step demo_env (demo_state st ls None None ts (Some (demo_record 5)) d) (EvConnect :: unit event)"
  have step: "ph_tasks ?c = ts @ [Dialling (demo_record 5)]" "ph_identity ?c = from_seed toy_curves (replicate 32 1)"
    by (simp_all add: client_step_def handle_event_def drop_unheld_def spawned_def connect_start_def healthy_live_def
        set_phase_def) (simp_all add: demo_state_def connect_start_def healthy_live_def set_phase_def)
  have "List.map_filter hint_node_id (connect_hints (demo_record 5)) = [PublicKey (replicate 32 8)]"
    by (simp add: connect_hints_def demo_record_def List.map_filter_def)
  from demo_dial [OF _ this, of Reconnect None "[]" "from_seed toy_curves (replicate 32 1)"] obtain l where
    l: "establish demo_env demo_net (from_seed toy_curves (replicate 32 1)) Reconnect None (PeerId demo_key)
      (connect_hints (demo_record 5)) = Ok l" "\<not> co_closed (lv_conn l)"
    by blast
  then have dn: "connect_done demo_env demo_net 6 (demo_record 5) ?c =
      (adopt demo_env 6 l (demo_record 5) ?c, Returned (Ok NoValue))"
    using step by (simp add: connect_done_def) (simp add: demo_record_def)
  have ad: "ph_live (adopt demo_env 6 l (demo_record 5) ?c) = Some (length (ph_lives ?c))"
    "ph_lives (adopt demo_env 6 l (demo_record 5) ?c) = ph_lives ?c @ [l]"
    by (simp_all add: adopt_def adopt_status_def adopt_live_def add_live_def touch_daemon_seen_def Let_def
        split: sum.split prod.split)
  have "client_run demo_env demo_client demo_connected = client_step demo_env ?c (EvDialled 2 demo_net 6)"
    using run by (simp add: demo_connected_def client_run_def)
  also have "\<dots> = drop_unheld (resumed 2 (adopt demo_env 6 l (demo_record 5) ?c, Returned (Ok NoValue)))"
    using dn step ts(1)
    by (simp add: client_step_def [of _ ?c] handle_event_def [of _ "EvDialled 2 demo_net 6"] task_at_def nth_append)
  finally show ?thesis
    using ad l(2) by (simp add: drop_unheld_def resumed_def nth_enumerate_eq held_def nth_append)
qed

text \<open>An operation then goes out on the connection.\<close>

lemma demo_run_asking:
  "\<exists>n fl. task_at (client_run demo_env demo_client (demo_connected @ [EvOperation ListTerminals])) n =
     Asking fl (JobCall CallPtys)"
proof -
  let ?c = "client_run demo_env demo_client demo_connected"
  obtain i where i: "ph_live ?c = Some i" "\<not> co_closed (lv_conn (ph_lives ?c ! i))"
    using demo_run_connected by blast
  have "\<exists>fr. encode_request demo_codec r PTY_LIST PEmpty = Ok fr" for r
    by (simp add: encode_request_def demo_codec_def frame_cbor_def frame_new_def mux_config_default_def)
  then obtain fr where "encode_request demo_codec (lv_next_id (ph_lives ?c ! i)) PTY_LIST PEmpty = Ok fr" by blast
  then have "\<exists>fl. snd (operation_start demo_env ListTerminals ?c) = Asking fl (JobCall CallPtys)"
    using i by (simp add: operation_start_def call_start_def require_live_def healthy_live_def ask_def request_start_def
        demo_env_def Let_def split: prod.split)
  then obtain fl where "snd (operation_start demo_env ListTerminals ?c) = Asking fl (JobCall CallPtys)" by blast
  then have "task_at (client_run demo_env demo_client (demo_connected @ [EvOperation ListTerminals]))
      (length (ph_tasks (fst (operation_start demo_env ListTerminals ?c)))) = Asking fl (JobCall CallPtys)"
    by (simp add: client_run_append) (simp add: client_run_def client_step_def handle_event_def drop_unheld_def spawned_def task_at_def)
  then show ?thesis by blast
qed

theorem registered_before_remembered_witness:
  "\<exists>i rq bs caps. (i, rq, Ok bs) \<in> heard_by demo_env demo_client (demo_pairing @ [EvReply 1 5]) \<and>
     pc_result (pe_codec demo_env) TRegister bs = Some (RSysRegister ''01'' caps)"
proof -
  have "ph_daemon (client_run demo_env demo_client (demo_pairing @ [EvReply 1 5])) = Some (demo_record 5)"
    using demo_run_remembered by (auto simp: demo_state_def)
  from registered_before_remembered [OF demo_env_ok demo_created(2,1), of "demo_pairing @ [EvReply 1 5]" "demo_record 5"] this
  show ?thesis by (fastforce simp: demo_record_def)
qed

theorem answers_go_to_their_request_witness:
  "(0, 1, Ok [3]) \<in> heard_by demo_env demo_client demo_pairing \<and>
   \<not> (\<exists>m fl jb. task_at (client_run demo_env demo_client (demo_pairing @ [EvConfirm ''again''])) m = Asking fl jb \<and>
      fl_live fl = 0 \<and> fl_id fl = 1 \<and> m \<noteq> 1)"
proof -
  obtain l pg digits where run: "client_run demo_env demo_client demo_pairing =
      demo_state connecting [l] None (Some pg) [Returned (Ok (DigitsShown digits)), Asking demo_flight (JobRegister pg)]
        None (fst first_start)"
    and l: "lv_pending l = \<lparr>pm_slots = [], pm_channels = [Sent (Ok [3])]\<rparr>"
    using demo_run_heard by blast
  have "task_at (client_run demo_env demo_client demo_pairing) 1 = Asking demo_flight (JobRegister pg)"
    and ch: "channel_of (client_run demo_env demo_client demo_pairing) demo_flight = Sent (Ok [3])"
    using l by (simp_all add: run task_at_def channel_of_def demo_state_def demo_flight_def)
  note found = answers_go_to_their_request [OF demo_env_ok demo_created(1) this(1)]
  have short: "length (demo_pairing @ [EvConfirm ''again'']) < 2 ^ 64 - 1"
    by (simp add: demo_pairing_def)
  have "(0, 1, Ok [3]) \<in> heard_by demo_env demo_client demo_pairing"
    using conjunct1 [OF found] ch by (simp add: demo_flight_def)
  moreover have "m = 1" if "task_at (client_run demo_env demo_client (demo_pairing @ [EvConfirm ''again''])) m = Asking fl jb"
    "fl_live fl = 0" "fl_id fl = 1" for m fl jb
  proof -
    have "fl_live demo_flight = 0" "fl_id demo_flight = 1" by (simp_all add: demo_flight_def)
    with conjunct2 [OF found] that short show ?thesis by metis
  qed
  ultimately show ?thesis by blast
qed

theorem operations_reach_registered_witness:
  "\<exists>n fl. task_at (client_run demo_env demo_client (demo_connected @ [EvOperation ListTerminals])) n =
       Asking fl (JobCall CallPtys) \<and>
     ir_purpose (co_config (lv_conn (ph_lives (client_run demo_env demo_client
       (demo_connected @ [EvOperation ListTerminals])) ! fl_live fl))) = Reconnect"
proof -
  obtain n fl where t: "task_at (client_run demo_env demo_client (demo_connected @ [EvOperation ListTerminals])) n =
      Asking fl (JobCall CallPtys)"
    using demo_run_asking by blast
  from operations_reach_registered [OF demo_env_ok demo_created(1) t] t show ?thesis by blast
qed

theorem lost_connection_wakes_all_witness:
  "request_outcome demo_codec TRegister
     (channel_of (client_step demo_env (client_run demo_env demo_client demo_pairing)
        (EvRead 0 (StreamFailed ConnectionLost) True)) demo_flight) =
   Some (Ok (RSysRegister ''01'' cs_default_grant))"
proof -
  obtain l pg digits where run: "client_run demo_env demo_client demo_pairing =
      demo_state connecting [l] None (Some pg) [Returned (Ok (DigitsShown digits)), Asking demo_flight (JobRegister pg)]
        None (fst first_start)"
    and l: "lv_pending l = \<lparr>pm_slots = [], pm_channels = [Sent (Ok [3])]\<rparr>" "lv_reading l"
    using demo_run_heard by blast
  let ?c1 = "client_run demo_env demo_client demo_pairing"
  let ?c2 = "client_step demo_env ?c1 (EvRead 0 (StreamFailed ConnectionLost) True :: unit event)"
  have t: "task_at ?c2 1 = Asking demo_flight (JobRegister pg)"
    by (simp add: run demo_defs)
  have at: "0 < length (ph_lives ?c1)" "lv_reading (ph_lives ?c1 ! 0)" "channel_of ?c1 demo_flight = Sent (Ok [3])"
    using l by (simp_all add: run demo_state_def channel_of_def demo_flight_def)
  have ends: "ends_connection (pe_codec demo_env) (StreamFailed ConnectionLost) True"
    by (simp add: ends_connection_def)
  have fl: "fl_live demo_flight = 0" by (simp add: demo_flight_def)
  note woken = conjunct2 [OF lost_connection_wakes_all [OF demo_env_ok demo_created(1) refl at(1,2) ends refl]]
  have "channel_of ?c1 demo_flight \<noteq> Waiting" by (simp only: at(3) oneshot.distinct not_False_eq_True)
  with woken [rule_format, OF t fl, THEN conjunct2] have "request_outcome (pe_codec demo_env) (fl_type demo_flight) (channel_of ?c2 demo_flight) =
      request_outcome (pe_codec demo_env) (fl_type demo_flight) (channel_of ?c1 demo_flight)"
    by (simp only: if_False)
  then show ?thesis
    unfolding at(3) by (simp add: demo_flight_def) (simp add: demo_env_def request_outcome_def decode_result_def demo_codec_def)
qed

end
