(* ===== verification/PhoneFfi.thy ===== *)
theory PhoneFfi
  imports PhoneClient
begin

text \<open>
  \<open>gonomad-ffi/src/ffi.rs\<close>: what the phone's user interface is handed, the status, the machine, the
  entries, the screens, and the closed set of errors with the sentences shown to a user.
\<close>

section \<open>What is shown\<close>

datatype conn_state = CsDisconnected | CsConnecting | CsConnected | CsUnpaired | CsRevoked

fun conn_state_from :: "conn_phase \<Rightarrow> conn_state" where
  "conn_state_from PhDisconnected = CsDisconnected"
| "conn_state_from PhConnecting = CsConnecting"
| "conn_state_from PhConnected = CsConnected"
| "conn_state_from PhUnpaired = CsUnpaired"
| "conn_state_from PhRevoked = CsRevoked"

record device_info =
  dv_device_id :: string
  dv_name :: string
  dv_paired_at :: int
  dv_last_seen :: "int option"

definition device_info_from :: "paired_daemon \<Rightarrow> device_info" where
  "device_info_from pd =
     \<lparr>dv_device_id = pd_device_id pd, dv_name = pd_name pd, dv_paired_at = pd_paired_at pd,
      dv_last_seen = pd_last_seen pd\<rparr>"

record shown_status =
  st_state :: conn_state
  st_daemon_name :: "string option"
  st_rtt_ms :: "nat option"
  st_transport :: "string option"

definition status_from :: "connection_status \<Rightarrow> shown_status" where
  "status_from s =
     \<lparr>st_state = conn_state_from (ss_phase s), st_daemon_name = ss_daemon_name s, st_rtt_ms = ss_rtt_ms s,
      st_transport = map_option tier_label (ss_transport s)\<rparr>"

datatype shown_kind = ShownFile | ShownDirectory | ShownSymlink

record shown_entry =
  sh_name :: string
  sh_kind :: shown_kind
  sh_size :: "nat option"
  sh_modified :: "int option"
  sh_hidden :: bool
  sh_git_ignored :: bool

definition entry_from :: "dir_entry \<Rightarrow> shown_entry" where
  "entry_from e =
     \<lparr>sh_name = de_name e,
      sh_kind = (case de_kind e of EkDirectory \<Rightarrow> ShownDirectory | EkSymlink \<Rightarrow> ShownSymlink | EkFile \<Rightarrow> ShownFile),
      sh_size = de_size e, sh_modified = de_modified e, sh_hidden = de_hidden e, sh_git_ignored = False\<rparr>"

record shown_file =
  sf_path :: string
  sf_text :: string
  sf_content_hash :: string
  sf_truncated :: bool

definition file_from :: "hex_codec \<Rightarrow> file_content \<Rightarrow> shown_file" where
  "file_from hx f =
     \<lparr>sf_path = fc_path f, sf_text = fc_text f, sf_content_hash = id_to_hex hx (digest_bytes (fc_hash f)),
      sf_truncated = fc_truncated f\<rparr>"

record terminal_frame =
  tf_pty_id :: pty_id
  tf_screen :: string
  tf_cursor_row :: nat
  tf_cursor_col :: nat

definition NEWLINE :: string where "NEWLINE = [CHR 0x0A]"

definition terminal_frame_from :: "screen_frame \<Rightarrow> terminal_frame" where
  "terminal_frame_from f =
     \<lparr>tf_pty_id = sf_pty_id f, tf_screen = join NEWLINE (sf_rows f), tf_cursor_row = sf_cursor_row f,
      tf_cursor_col = sf_cursor_col f\<rparr>"

record terminal_handle =
  th_pty_id :: pty_id
  th_initial :: terminal_frame

section \<open>Errors\<close>

datatype gonomad_error =
    GeDenied string
  | GeNotFound
  | GeRateLimited nat
  | GeUnsupported string
  | GeTransport string
  | GeProtocol string
  | GePairingRejected
  | GeNotPaired

text \<open>The messages of a \<open>PairingError\<close>, which pass through.\<close>

fun pairing_error_display :: "pairing_error \<Rightarrow> string" where
  "pairing_error_display WrongScheme = ''not a GoNomad pairing ticket''"
| "pairing_error_display NotBase32 = ''pairing payload is not valid base32''"
| "pairing_error_display BadLength = ''pairing payload has the wrong length''"
| "pairing_error_display (UnsupportedVersion v) =
     ''pairing ticket version '' @ show_nat (unat v) @ '' is not supported''"
| "pairing_error_display BadCodeLength = ''manual code must be '' @ show_nat MANUAL_CODE_CHARS @ '' characters''"
| "pairing_error_display Expired = ''this pairing code has expired''"

fun transport_detail :: "transport_error \<Rightarrow> string" where
  "transport_detail NoReachableAddress =
     ''Could not reach your machine. Check it is awake and GoNomad is running on it.''"
| "transport_detail (Connect _ _) =
     ''Could not reach your machine. Check it is awake and GoNomad is running on it.''"
| "transport_detail (Bind _ _) =
     ''Could not reach your machine. Check it is awake and GoNomad is running on it.''"
| "transport_detail HandshakeRefused = ''Could not agree a secure connection with your machine.''"
| "transport_detail NoNodeId =
     ''That pairing code does not say which machine to call. Run `gonomad pair` again and scan the new QR.''"
| "transport_detail PeerNotAuthorized = ''That is not the machine this device is paired with.''"
| "transport_detail WrongPeer = ''That is not the machine this device is paired with.''"
| "transport_detail Crypto = ''The secure connection failed. Try connecting again.''"
| "transport_detail NoncesExhausted = ''The secure connection failed. Try connecting again.''"
| "transport_detail Timeout = ''Your machine did not answer in time.''"
| "transport_detail transport_error.Closed = ''The connection to your machine was lost.''"
| "transport_detail ConnectionLost = ''The connection to your machine was lost.''"
| "transport_detail StreamClosed = ''The connection to your machine was lost.''"
| "transport_detail NotListening = ''This app is misconfigured. Please report this.''"
| "transport_detail (Config _) = ''This app is misconfigured. Please report this.''"
| "transport_detail _ = ''The connection to your machine failed.''"

definition from_remote :: "proto_error \<Rightarrow> gonomad_error" where
  "from_remote e =
     (case err_kind e of
        Denied cap \<Rightarrow> GeDenied (capability_as_str cap)
      | NotFound \<Rightarrow> GeNotFound
      | RateLimited ms \<Rightarrow> GeRateLimited ms
      | Unsupported feature _ \<Rightarrow> GeUnsupported feature
      | other \<Rightarrow> GeProtocol (user_message other))"

fun gonomad_error_from :: "client_error \<Rightarrow> gonomad_error" where
  "gonomad_error_from NotPaired = GeNotPaired"
| "gonomad_error_from RefusedUnpaired = GeNotPaired"
| "gonomad_error_from (TooManyAttempts ms) = GeRateLimited ms"
| "gonomad_error_from (Remote e) = from_remote e"
| "gonomad_error_from PairingRejected = GePairingRejected"
| "gonomad_error_from (TransportFailed e) = GeTransport (transport_detail e)"
| "gonomad_error_from RequestTimeout = GeTransport ''Your machine did not answer in time.''"
| "gonomad_error_from RequestLost = GeTransport ''The connection to your machine was lost.''"
| "gonomad_error_from NotConnected = GeTransport ''Not connected to your machine yet.''"
| "gonomad_error_from RefusedRevoked =
     GeProtocol ''This device's access was revoked. Pair again to restore it.''"
| "gonomad_error_from (DaemonTooOld _) = GeUnsupported ''this version of the app''"
| "gonomad_error_from (AppTooOld _) = GeUnsupported ''this version of the app; update it''"
| "gonomad_error_from (TooLarge _ limit) =
     GeProtocol (''That is too large to send in one piece (limit '' @ show_nat limit @ '' bytes).'')"
| "gonomad_error_from (BadTicket e) = GeProtocol (pairing_error_display e)"
| "gonomad_error_from (StorageFailed _) = GeProtocol ''This device could not save its pairing.''"
| "gonomad_error_from NoPairingInProgress =
     GeProtocol ''That pairing is no longer in progress. Scan the code again.''"
| "gonomad_error_from (MalformedReply _) = GeProtocol ''Your machine sent something this app could not read.''"
| "gonomad_error_from (FramingFailed _) = GeProtocol ''Your machine sent something this app could not read.''"
| "gonomad_error_from (InternalError _) = GeProtocol ''Something went wrong in the app.''"

section \<open>The object the interface holds\<close>

definition ffi_create ::
  "('h, 't, 'r, 'a) phone_env \<Rightarrow> bytes \<Rightarrow> bool \<Rightarrow> disk \<Rightarrow> disk \<times> (gonomad_error, 't client) result" where
  "ffi_create en seed runtime_ok d =
     (let (d', r) = client_create en seed runtime_ok d in (d', map_err gonomad_error_from r))"

definition ffi_paired_daemon :: "'t client \<Rightarrow> device_info option" where
  "ffi_paired_daemon c = map_option device_info_from (ph_daemon c)"

definition ffi_status :: "'t client \<Rightarrow> shown_status" where
  "ffi_status c = status_from (ph_status c)"

text \<open>What the observers registered through the bridges have been told.\<close>

definition status_bridge :: "'t client \<Rightarrow> shown_status list" where
  "status_bridge c = map status_from (ph_told c)"

definition terminal_bridge :: "'t client \<Rightarrow> terminal_frame list" where
  "terminal_bridge c = map terminal_frame_from (ph_shown c)"

text \<open>The value an operation hands to the interface.\<close>

datatype shown_value =
    ShownNothing
  | ShownDigits string
  | ShownRoots "string list"
  | ShownEntries "shown_entry list"
  | ShownPtys "pty_id list"
  | ShownContent shown_file
  | ShownScreen terminal_frame
  | ShownHandle terminal_handle

definition shown_value_from :: "hex_codec \<Rightarrow> answer_value \<Rightarrow> shown_value option" where
  "shown_value_from hx v =
     (case v of
        NoValue \<Rightarrow> Some ShownNothing
      | DigitsShown digits \<Rightarrow> Some (ShownDigits digits)
      | Roots rs \<Rightarrow> Some (ShownRoots rs)
      | Entries es \<Rightarrow> Some (ShownEntries (map entry_from es))
      | PtyIds ids \<Rightarrow> Some (ShownPtys ids)
      | Result (RFsRead f) \<Rightarrow> Some (ShownContent (file_from hx f))
      | Result (RScreen f) \<Rightarrow> Some (ShownScreen (terminal_frame_from f))
      | Result (RPtySpawn pty f _) \<Rightarrow> Some (ShownHandle \<lparr>th_pty_id = pty, th_initial = terminal_frame_from f\<rparr>)
      | Result _ \<Rightarrow> None)"

definition ffi_outcome ::
  "hex_codec \<Rightarrow> task \<Rightarrow> (gonomad_error, shown_value option) result option" where
  "ffi_outcome hx t =
     (case t of
        Returned (Inl e) \<Rightarrow> Some (Err (gonomad_error_from e))
      | Returned (Inr v) \<Rightarrow> Some (Ok (shown_value_from hx v))
      | _ \<Rightarrow> None)"

section \<open>Properties\<close>

lemma error_rejected: "gonomad_error_from e = GePairingRejected \<longleftrightarrow> e = PairingRejected"
  by (cases e) (simp_all add: from_remote_def split: error_kind.split)

lemma reject_not_pairing: "from_reject r \<noteq> PairingRejected"
  by (cases r) (simp_all add: from_reject_def)

lemma read_hello_not_rejected: "read_hello pc rs \<noteq> Some (Err PairingRejected)"
  by (induction rs) (auto simp: reject_not_pairing reject_not_pairing [symmetric]
      split: control_read.split sum.split control_message.split)

lemma establish_not_rejected: "establish en net i p psk peer hints \<noteq> Err PairingRejected"
proof -
  have "dial_config i p psk \<noteq> Err PairingRejected"
    by (simp add: dial_config_def split: purpose.split option.split)
  then show ?thesis
    using read_hello_not_rejected [of "pe_codec en" "pn_reads net"]
    by (auto simp: establish_def rbind_def map_err_def case_prod_beta Let_def split: sum.splits option.splits)
qed

text \<open>
  The user is told that the code was wrong exactly when the pairing handshake failed.  Of all the
  errors only that one reaches the interface as a rejected pairing; an attempt to pair ends with it
  exactly if establishing the connection failed in the handshake, and an attempt to reconnect never.
\<close>

theorem only_handshake_blames_code:
  "(ffi_outcome hx (snd (begin_pairing_done en net ticket secret c)) = Some (Err GePairingRejected) \<longleftrightarrow>
      establish en net (ph_identity c) ForPairing (Some secret) (PeerId (tk_daemon_key ticket))
        (hints_from_ticket ticket) = Err (TransportFailed HandshakeRefused)) \<and>
   ffi_outcome hx (snd (connect_done en net now pd c)) \<noteq> Some (Err GePairingRejected)"
proof
  let ?r = "establish en net (ph_identity c) ForPairing (Some secret) (PeerId (tk_daemon_key ticket))
        (hints_from_ticket ticket)"
  show "ffi_outcome hx (snd (begin_pairing_done en net ticket secret c)) = Some (Err GePairingRejected) \<longleftrightarrow>
      ?r = Err (TransportFailed HandshakeRefused)"
    using establish_not_rejected [of en net "ph_identity c" ForPairing "Some secret" "PeerId (tk_daemon_key ticket)"
        "hints_from_ticket ticket"]
    by (cases ?r) (auto simp: begin_pairing_done_def ffi_outcome_def error_rejected case_prod_beta Let_def)
  show "ffi_outcome hx (snd (connect_done en net now pd c)) \<noteq> Some (Err GePairingRejected)"
    using establish_not_rejected [of en net "ph_identity c" Reconnect None "PeerId (pd_noise_key pd)" "connect_hints pd"]
    by (auto simp: connect_done_def ffi_outcome_def error_rejected split: sum.split)
qed

text \<open>
  But a connection that is cut in the middle of the handshake fails there too, and is blamed on the
  code.
\<close>

lemma cut_handshake_blames_code:
  assumes "\<And>sent. hio_reply io sent = []" and "initiate sn io i remote p psk t = (out, r)"
    and "out \<noteq> []"
  shows "r = Err HandshakeRefused"
  using assms
  by (auto simp: initiate_def io_read_message_def PREFIX_LEN_def Let_def case_prod_beta
      io_write_message_def split: sum.splits if_splits)

end
