(* ===== verification/Serve.thy ===== *)
theory Serve
  imports Router Devices Frames Endpoints
begin

text \<open>
  \<open>gonomad-server/src/serve.rs\<close>: who is let in, the loop that serves one connection's control stream, the pairing window around it, and
  the sweep that closes the connections of devices that were revoked.  A connection's control stream
  is the list of the frames that arrive on it, how it ends, and which messages the transport
  accepts; the list of connections under way is explicit state.  What the loop prints is left out.
\<close>

section \<open>Who may connect\<close>

text \<open>\<open>LiveAllowlist\<close> asks the tables at every handshake; a poisoned lock or an error refuses.\<close>

definition live_authorize :: "hash_fn \<Rightarrow> hex_codec \<Rightarrow> bool \<Rightarrow> devices_db \<Rightarrow> public_key \<Rightarrow> bool" where
  "live_authorize hash hx poisoned db peer =
     (if poisoned then False
      else (case list_active hash hx db of
              Inl _ \<Rightarrow> False
            | Inr devices \<Rightarrow> allowlist_authorize (map dev_key devices) peer))"

section \<open>The sweep\<close>

type_synonym conn_id = nat

record live_connections =
  lv_open :: "(device_id \<times> conn_id) list"
  lv_closed :: "conn_id set"

definition REVOCATION_SWEEP_SECS :: nat where "REVOCATION_SWEEP_SECS = 5"

definition sweep_once ::
  "hash_fn \<Rightarrow> hex_codec \<Rightarrow> bool \<Rightarrow> devices_db \<Rightarrow> live_connections \<Rightarrow> live_connections" where
  "sweep_once hash hx poisoned db live =
     (if poisoned then live
      else (case list_active hash hx db of
              Inl _ \<Rightarrow> live
            | Inr devices \<Rightarrow>
                (let active = map dev_id devices;
                     revoked = filter (\<lambda>(d, c). c \<notin> lv_closed live \<and> d \<notin> set active) (lv_open live)
                 in \<lparr>lv_open = filter (\<lambda>(d, c). c \<notin> lv_closed live \<and> d \<in> set active) (lv_open live),
                     lv_closed = lv_closed live \<union> snd ` set revoked\<rparr>)))"

section \<open>One connection\<close>

record paired_device =
  pd_name :: string
  pd_key :: public_key

datatype serve_error =
    NoControlStream | StreamFailed | MalformedMessage | NotRecorded store_error | SendFailed

record link =
  lk_stream :: bool
  lk_frames :: "frame list"
  lk_clean_end :: bool
  lk_accepts :: "control_message list \<Rightarrow> control_message \<Rightarrow> bool"

record 'v serve_env =
  sv_daemon :: "'v daemon_env"
  sv_from_cbor :: "bytes \<Rightarrow> control_message option"
  sv_to_cbor :: "control_message \<Rightarrow> bytes option"

record ('v, 's) serving =
  sg_router :: router
  sg_terms :: "'v pty_manager"
  sg_store :: "'s"
  sg_sent :: "control_message list"
  sg_registered :: "paired_device option"

type_synonym 's on_register =
  "'s \<Rightarrow> public_key \<Rightarrow> string \<Rightarrow> string option \<Rightarrow> (store_error, 's) result"

definition send_message ::
  "'v serve_env \<Rightarrow> link \<Rightarrow> ('v, 's) serving \<Rightarrow> control_message \<Rightarrow> ('v, 's) serving \<times> (serve_error, unit) result" where
  "send_message env lk s msg =
     (if is_ok (frame_cbor (sv_to_cbor env) FLAGS_LAST msg) \<and> lk_accepts lk (sg_sent s) msg
      then (s\<lparr>sg_sent := sg_sent s @ [msg]\<rparr>, Ok ()) else (s, Err SendFailed))"

text \<open>A registration is recorded before the reply is sent.\<close>

definition serve_request ::
  "'v serve_env \<Rightarrow> daemon \<Rightarrow> 's on_register \<Rightarrow> link \<Rightarrow> ('v, 's) serving \<Rightarrow> request \<Rightarrow>
     ('v, 's) serving \<times> (serve_error, unit) result" where
  "serve_request env dm reg lk s req =
     (let (rt', m', resp, eff) = handle (sv_daemon env) dm (sg_router s) (sg_terms s) req;
          s1 = s\<lparr>sg_router := rt', sg_terms := m'\<rparr>
      in case eff of
           EffNone \<Rightarrow> send_message env lk s1 (Response resp)
         | EffRegistered key name model \<Rightarrow>
             (case reg (sg_store s1) key name model of
                Inl e \<Rightarrow> (s1, Err (NotRecorded e))
              | Inr st \<Rightarrow>
                  send_message env lk
                    (s1\<lparr>sg_store := st, sg_registered := Some \<lparr>pd_name = name, pd_key = key\<rparr>\<rparr>)
                    (Response resp)))"

definition serve_message ::
  "'v serve_env \<Rightarrow> daemon \<Rightarrow> 's on_register \<Rightarrow> link \<Rightarrow> ('v, 's) serving \<Rightarrow> control_message \<Rightarrow>
     ('v, 's) serving \<times> (serve_error, unit) result" where
  "serve_message env dm reg lk s msg =
     (case msg of
        Request req \<Rightarrow> serve_request env dm reg lk s req
      | Ping beat \<Rightarrow> send_message env lk s (Pong beat)
      | _ \<Rightarrow> (s, Ok ()))"

fun serve_frames ::
  "'v serve_env \<Rightarrow> daemon \<Rightarrow> 's on_register \<Rightarrow> link \<Rightarrow> ('v, 's) serving \<Rightarrow> frame list \<Rightarrow>
     ('v, 's) serving \<times> (serve_error, unit) result" where
  "serve_frames env dm reg lk s [] = (s, if lk_clean_end lk then Ok () else Err StreamFailed)"
| "serve_frames env dm reg lk s (fr # frs) =
     (case frame_decode_cbor (sv_from_cbor env) fr of
        Inl _ \<Rightarrow> (s, Err MalformedMessage)
      | Inr msg \<Rightarrow>
          (case serve_message env dm reg lk s msg of
             (s', Inl e) \<Rightarrow> (s', Err e)
           | (s', Inr _) \<Rightarrow> serve_frames env dm reg lk s' frs))"

definition serve_connection ::
  "'v serve_env \<Rightarrow> daemon \<Rightarrow> 's on_register \<Rightarrow> link \<Rightarrow> router \<Rightarrow> 'v pty_manager \<Rightarrow> 's \<Rightarrow>
     ('v, 's) serving \<times> (serve_error, paired_device option) result" where
  "serve_connection env dm reg lk rt m st =
     (let s0 = \<lparr>sg_router = rt, sg_terms = m, sg_store = st, sg_sent = [], sg_registered = None\<rparr>
      in if \<not> lk_stream lk then (s0, Err NoControlStream)
         else let (s, r) = serve_frames env dm reg lk s0 (lk_frames lk)
              in (s, rbind r (\<lambda>_. Ok (sg_registered s))))"

section \<open>The pairing window\<close>

definition persist :: "hash_fn \<Rightarrow> hex_codec \<Rightarrow> int \<Rightarrow> devices_db on_register" where
  "persist hash hx now db key name model =
     rbind (device_pair hash hx db key name model cs_default_grant now) (\<lambda>(db', _). Ok db')"

text \<open>
  What the loop meets: how many milliseconds of the window are gone when it waits, the clock when it
  records, and nothing before the time is up, a failed handshake, or a connection with its peer, its
  short authentication string and its control stream.
\<close>

datatype accepted = TimedOut | HandshakeFailed | Connected public_key string link

datatype pairing_result = WindowExpired | PairedWith paired_device | StillWaiting

fun run_pairing ::
  "'v serve_env \<Rightarrow> daemon \<Rightarrow> nat \<Rightarrow> devices_db \<Rightarrow> 'v pty_manager \<Rightarrow> (nat \<times> int \<times> accepted) list \<Rightarrow>
     devices_db \<times> 'v pty_manager \<times> pairing_result" where
  "run_pairing env dm window db m [] = (db, m, StillWaiting)"
| "run_pairing env dm window db m ((elapsed, now, a) # evs) =
     (if window - elapsed = 0 then (db, m, WindowExpired)
      else (case a of
          TimedOut \<Rightarrow> (db, m, WindowExpired)
        | HandshakeFailed \<Rightarrow> run_pairing env dm window db m evs
        | Connected peer sas lk \<Rightarrow>
            (let de = sv_daemon env;
                 (s, r) = serve_connection env dm (persist (se_hash (ve_server de)) (ve_hex de) now) lk
                   (router_pairing peer sas) m db
             in (case r of
                   Inr (Some device) \<Rightarrow> (sg_store s, sg_terms s, PairedWith device)
                 | _ \<Rightarrow> run_pairing env dm window (sg_store s) (sg_terms s) evs))))"

section \<open>Serving paired devices\<close>

text \<open>
  \<open>serve_iroh\<close>.  The endpoint asks the policy while it runs a peer's handshake and queues the connection
  if it is let in; the loop takes it from the queue and registers it, with the rights the tables give
  then.  \<open>iroh_accept\<close> is both with the same tables in between; lemma \<open>queued_connection_is_powerless\<close>
  is about tables that have changed meanwhile.
\<close>

record iroh_server =
  is_live :: live_connections
  is_next :: conn_id

definition live_grant :: "hash_fn \<Rightarrow> hex_codec \<Rightarrow> bool \<Rightarrow> devices_db \<Rightarrow> device_id \<Rightarrow> device_grant" where
  "live_grant hash hx poisoned db d =
     grant_new d (if poisoned then cs_EMPTY
       else (case device_grants hash hx db d of Inl _ \<Rightarrow> cs_EMPTY | Inr caps \<Rightarrow> caps))"

definition iroh_register ::
  "hash_fn \<Rightarrow> hex_codec \<Rightarrow> bool \<Rightarrow> devices_db \<Rightarrow> iroh_server \<Rightarrow> public_key \<Rightarrow> iroh_server \<times> router" where
  "iroh_register hash hx poisoned db sv peer =
     (let d = device_id_from_public_key hash peer;
          grant = live_grant hash hx poisoned db d
      in (sv\<lparr>is_live := (is_live sv)\<lparr>lv_open := lv_open (is_live sv) @ [(d, is_next sv)]\<rparr>,
             is_next := is_next sv + 1\<rparr>,
          router_established peer grant))"

definition iroh_accept ::
  "hash_fn \<Rightarrow> hex_codec \<Rightarrow> bool \<Rightarrow> devices_db \<Rightarrow> iroh_server \<Rightarrow> public_key \<Rightarrow> iroh_server \<times> router option" where
  "iroh_accept hash hx poisoned db sv peer =
     (if \<not> live_authorize hash hx poisoned db peer then (sv, None)
      else case iroh_register hash hx poisoned db sv peer of (sv', rt) \<Rightarrow> (sv', Some rt))"

definition iroh_disconnect :: "iroh_server \<Rightarrow> conn_id \<Rightarrow> iroh_server" where
  "iroh_disconnect sv c =
     sv\<lparr>is_live := \<lparr>lv_open = filter (\<lambda>(_, c'). c' \<noteq> c) (lv_open (is_live sv)),
                     lv_closed = insert c (lv_closed (is_live sv))\<rparr>\<rparr>"

text \<open>
  Both servers refuse to start while nothing is paired; \<open>serve\<close>, the TCP one, keeps the list of keys
  it read then.
\<close>

datatype start_error = DevicesUnreadable store_error | NothingPaired

definition serve_start :: "hash_fn \<Rightarrow> hex_codec \<Rightarrow> devices_db \<Rightarrow> (start_error, public_key list) result" where
  "serve_start hash hx db =
     rbind (map_err DevicesUnreadable (list_active hash hx db)) (\<lambda>ds.
       let allowed = map dev_key ds in if allowed = [] then Err NothingPaired else Ok allowed)"

definition tcp_accept ::
  "hash_fn \<Rightarrow> hex_codec \<Rightarrow> public_key list \<Rightarrow> devices_db \<Rightarrow> public_key \<Rightarrow> router option" where
  "tcp_accept hash hx allowed db peer =
     (if \<not> allowlist_authorize allowed peer then None
      else Some (router_established peer (live_grant hash hx False db (device_id_from_public_key hash peer))))"

section \<open>Facts on admission\<close>

lemma allowlist_member: "allowlist_authorize keys peer \<longleftrightarrow> peer \<in> set keys"
  by (auto simp: allowlist_authorize_def filter_empty_conv)

lemma live_authorize_active:
  assumes "hex_laws hx" "hash32 hash" "devices_wf hash hx db" "live_authorize hash hx poisoned db peer"
  shows "\<not> poisoned \<and> reg_active (registry_of hx db) (device_id_from_public_key hash peer)"
proof -
  obtain ds where ds: "list_active hash hx db = Inr ds"
    "\<And>d. d \<in> dev_id ` set ds \<longleftrightarrow> reg_active (registry_of hx db) d"
    "\<And>dev. dev \<in> set ds \<Longrightarrow> dev_id dev = device_id_from_public_key hash (dev_key dev)"
    by (rule list_active_registry [OF assms(1-3)]) blast
  from assms(4) ds(1) obtain dev where "dev \<in> set ds" "dev_key dev = peer" "\<not> poisoned"
    by (auto simp: live_authorize_def allowlist_member split: if_splits)
  with ds(2,3) show ?thesis by (metis imageI)
qed

lemma sweep_once_registry:
  assumes "hex_laws hx" "hash32 hash" "devices_wf hash hx db"
  shows "sweep_once hash hx False db live =
    \<lparr>lv_open = filter (\<lambda>(d, c). c \<notin> lv_closed live \<and> reg_active (registry_of hx db) d) (lv_open live),
     lv_closed = lv_closed live \<union>
       {c. \<exists>d. (d, c) \<in> set (lv_open live) \<and> \<not> reg_active (registry_of hx db) d}\<rparr>"
proof -
  obtain ds where ds: "list_active hash hx db = Inr ds"
    and act: "\<And>d. d \<in> dev_id ` set ds \<longleftrightarrow> reg_active (registry_of hx db) d"
    by (rule list_active_registry [OF assms]) blast
  then have "(\<lambda>(d, c). c \<notin> lv_closed live \<and> d \<in> set (map dev_id ds)) =
      (\<lambda>(d, c). c \<notin> lv_closed live \<and> reg_active (registry_of hx db) d)" by (auto simp: fun_eq_iff)
  moreover have "lv_closed live \<union> snd ` set (filter (\<lambda>(d, c). c \<notin> lv_closed live \<and> d \<notin> set (map dev_id ds)) (lv_open live)) =
      lv_closed live \<union> {c. \<exists>d. (d, c) \<in> set (lv_open live) \<and> \<not> reg_active (registry_of hx db) d}"
    using act by (force simp: image_iff)
  ultimately show ?thesis unfolding sweep_once_def ds by simp
qed

lemma revoked_inactive:
  assumes laws: "hex_laws hx" "hash32 hash" and wf: "devices_wf hash hx db"
    and revoke: "device_revoke hash hx db d now = Inr (db1, first)"
    and steps: "(dev_step hash hx)\<^sup>*\<^sup>* db1 db2"
  shows "devices_wf hash hx db2 \<and> \<not> reg_active (registry_of hx db2) d"
proof -
  from device_revoke_registry [OF laws wf, of d now] revoke obtain e where
    e: "devices_wf hash hx db1"
      "registry_of hx db1 = (registry_of hx db)(d \<mapsto>
         e\<lparr>re_revoked := (case re_revoked e of None \<Rightarrow> Some now | Some t \<Rightarrow> Some t)\<rparr>)"
    by (auto split: option.splits)
  then obtain e1 t where e1: "registry_of hx db1 d = Some e1" "re_revoked e1 = Some t"
    by (cases "re_revoked e") auto
  from revoked_stays_steps [OF laws steps e(1) e1] dev_steps_wf [OF laws steps e(1)]
  show ?thesis by (auto simp: reg_active_def)
qed

text \<open>
  C6: revocation reaches open connections.  Once a device has been revoked, whatever else is done to
  the tables, no handshake with a key of that device is accepted any more, and the next sweep closes
  every connection of it and takes it off the list, while a connection of a device that is still
  active, if it was open, stays open and listed.
\<close>

theorem revocation_reaches_connections:
  assumes laws: "hex_laws hx" "hash32 hash" and wf: "devices_wf hash hx db"
    and revoke: "device_revoke hash hx db d now = Inr (db1, first)"
    and steps: "(dev_step hash hx)\<^sup>*\<^sup>* db1 db2"
    and ids: "distinct (map snd (lv_open live))"
    and sweep: "live' = sweep_once hash hx False db2 live"
  shows "(\<forall>peer poisoned. device_id_from_public_key hash peer = d \<longrightarrow>
        snd (iroh_accept hash hx poisoned db2 sv peer) = None) \<and>
    (\<forall>c. (d, c) \<in> set (lv_open live) \<longrightarrow> c \<in> lv_closed live' \<and> (d, c) \<notin> set (lv_open live')) \<and>
    (\<forall>d' c. (d', c) \<in> set (lv_open live) \<and> c \<notin> lv_closed live \<and>
        reg_active (registry_of hx db2) d' \<longrightarrow> (d', c) \<in> set (lv_open live') \<and> c \<notin> lv_closed live')"
proof -
  have wf2: "devices_wf hash hx db2" and gone: "\<not> reg_active (registry_of hx db2) d"
    using revoked_inactive [OF laws wf revoke steps] by simp_all
  have "\<not> live_authorize hash hx poisoned db2 peer" if "device_id_from_public_key hash peer = d" for peer poisoned
    using live_authorize_active [OF laws wf2, of poisoned peer] gone that by auto
  then have shut: "\<forall>peer poisoned. device_id_from_public_key hash peer = d \<longrightarrow>
      snd (iroh_accept hash hx poisoned db2 sv peer) = None"
    by (simp add: iroh_accept_def)
  have live': "live' =
      \<lparr>lv_open = filter (\<lambda>(d, c). c \<notin> lv_closed live \<and> reg_active (registry_of hx db2) d) (lv_open live),
       lv_closed = lv_closed live \<union>
         {c. \<exists>d. (d, c) \<in> set (lv_open live) \<and> \<not> reg_active (registry_of hx db2) d}\<rparr>"
    using sweep_once_registry [OF laws wf2] sweep by simp
  have owner: "d1 = d2" if "(d1, c) \<in> set (lv_open live)" "(d2, c) \<in> set (lv_open live)" for d1 d2 c
    using inj_onD [of snd "set (lv_open live)" "(d1, c)" "(d2, c)"] that ids by (simp add: distinct_map)
  have "c \<in> lv_closed live' \<and> (d, c) \<notin> set (lv_open live')" if "(d, c) \<in> set (lv_open live)" for c
    using that gone unfolding live' by auto
  moreover have "(d', c) \<in> set (lv_open live') \<and> c \<notin> lv_closed live'"
    if "(d', c) \<in> set (lv_open live)" "c \<notin> lv_closed live" "reg_active (registry_of hx db2) d'" for d' c
  proof -
    have "\<not> (\<exists>d. (d, c) \<in> set (lv_open live) \<and> \<not> reg_active (registry_of hx db2) d)"
      using that(3) owner [OF that(1)] by blast
    then show ?thesis using that unfolding live' by simp
  qed
  ultimately show ?thesis using shut by blast
qed

text \<open>
  A connection that was let in before its device was revoked, and is registered only afterwards, has no
  rights at all, and the next sweep closes it.
\<close>

lemma queued_connection_is_powerless:
  assumes laws: "hex_laws hx" "hash32 hash" and wf: "devices_wf hash hx db"
    and revoke: "device_revoke hash hx db d now = Inr (db1, first)"
    and steps: "(dev_step hash hx)\<^sup>*\<^sup>* db1 db2" "(dev_step hash hx)\<^sup>*\<^sup>* db2 db3"
    and peer: "device_id_from_public_key hash peer = d"
    and reg: "iroh_register hash hx poisoned db2 sv peer = (sv', rt)"
  shows "router_capabilities rt = cs_EMPTY \<and> (d, is_next sv) \<in> set (lv_open (is_live sv')) \<and>
    is_next sv \<in> lv_closed (sweep_once hash hx False db3 (is_live sv'))"
proof -
  from device_revoke_registry [OF laws wf, of d now] revoke obtain e where
    e: "devices_wf hash hx db1"
      "registry_of hx db1 = (registry_of hx db)(d \<mapsto>
         e\<lparr>re_revoked := (case re_revoked e of None \<Rightarrow> Some now | Some t \<Rightarrow> Some t)\<rparr>)"
    by (auto split: option.splits)
  then obtain e1 t where e1: "registry_of hx db1 d = Some e1" "re_revoked e1 = Some t"
    by (cases "re_revoked e") auto
  from revoked_stays_steps [OF laws steps(1) e(1) e1] obtain e2 where
    e2: "registry_of hx db2 d = Some e2" "re_revoked e2 = Some t" by blast
  have "devices_wf hash hx db2" by (rule dev_steps_wf [OF laws steps(1) e(1)])
  then have grants: "device_grants hash hx db2 d = Inr cs_EMPTY"
    using device_grants_revoked [OF laws _ e2(1)] e2(2) by simp
  have gone: "devices_wf hash hx db3" "\<not> reg_active (registry_of hx db3) d"
    using revoked_inactive [OF laws wf revoke rtranclp_trans [OF steps]] by simp_all
  show ?thesis
    using reg grants peer gone(2) sweep_once_registry [OF laws gone(1), of "is_live sv'"]
    by (auto simp: iroh_register_def Let_def live_grant_def router_established_def router_capabilities_def
        effective_capabilities_def grant_new_def)
qed

text \<open>Connection numbers stay unique.\<close>

definition server_ok :: "iroh_server \<Rightarrow> bool" where
  "server_ok sv \<longleftrightarrow> distinct (map snd (lv_open (is_live sv))) \<and>
     (\<forall>c \<in> snd ` set (lv_open (is_live sv)). c < is_next sv)"

lemma server_ok_accept: "server_ok sv \<Longrightarrow> server_ok (fst (iroh_accept hash hx poisoned db sv peer))"
  by (auto simp: server_ok_def iroh_accept_def iroh_register_def Let_def)

lemma server_ok_disconnect: "server_ok sv \<Longrightarrow> server_ok (iroh_disconnect sv c)"
  by (auto simp: server_ok_def iroh_disconnect_def distinct_map_filter)

lemma server_ok_sweep:
  "server_ok sv \<Longrightarrow> server_ok (sv\<lparr>is_live := sweep_once hash hx poisoned db (is_live sv)\<rparr>)"
  by (auto simp: server_ok_def sweep_once_def Let_def distinct_map_filter split: sum.split)

theorem revocation_reaches_connections_witness:
  "\<exists>db1 live'. live' = sweep_once const_hash hex_crate False db1
       \<lparr>lv_open = [(device_id_from_public_key const_hash some_key, 4)], lv_closed = {}\<rparr> \<and>
     4 \<in> lv_closed live' \<and>
     snd (iroh_accept const_hash hex_crate False db1 \<lparr>is_live = live', is_next = 5\<rparr> some_key) = None"
proof -
  let ?d = "device_id_from_public_key const_hash some_key"
  let ?live = "\<lparr>lv_open = [(?d, 4)], lv_closed = {}\<rparr>"
  obtain db dev where db: "device_pair const_hash hex_crate no_devices some_key ''P'' None cs_default_grant 5
      = Inr (db, dev)" "devices_wf const_hash hex_crate db"
    "registry_of hex_crate db = (registry_of hex_crate no_devices)
      (?d \<mapsto> \<lparr>re_key = some_key, re_revoked = None, re_caps = caps_of cs_default_grant, re_roots = {}\<rparr>)"
    by (rule device_pair_fresh [OF hex_laws_crate hash32_const no_devices_facts(1,3,2)])
  from device_revoke_registry [OF hex_laws_crate hash32_const db(2), of ?d 9] db(3)
  obtain db1 where r: "device_revoke const_hash hex_crate db ?d 9 = Inr (db1, True)"
    by auto
  define live' where "live' = sweep_once const_hash hex_crate False db1 ?live"
  from revocation_reaches_connections [OF hex_laws_crate hash32_const db(2) r rtranclp.rtrancl_refl _ live'_def,
      of "\<lparr>is_live = live', is_next = 5\<rparr>"]
  have "4 \<in> lv_closed live'" "snd (iroh_accept const_hash hex_crate False db1
      \<lparr>is_live = live', is_next = 5\<rparr> some_key) = None" by auto
  then show ?thesis unfolding live'_def by blast
qed

section \<open>Registration\<close>

text \<open>A message that tells the peer that something succeeded.\<close>

fun tells_success :: "control_message \<Rightarrow> bool" where
  "tells_success (Response resp) = (case rs_body resp of BodyOk _ \<Rightarrow> True | _ \<Rightarrow> False)"
| "tells_success _ = False"

text \<open>A frame that asks for registration with the digits \<open>sas\<close>.\<close>

definition asks_registration :: "'v serve_env \<Rightarrow> string \<Rightarrow> frame \<Rightarrow> bool" where
  "asks_registration env sas fr \<longleftrightarrow>
     (\<exists>req p. frame_decode_cbor (sv_from_cbor env) fr = Inr (Request req) \<and> rq_method req = SYS_REGISTER \<and>
        cd_register (ve_codec (sv_daemon env)) (rq_params req) = Some p \<and>
        filter is_ascii_digit (sr_sas p) = sas)"

text \<open>The codec serialises the reply to a registration.\<close>

definition register_encodes :: "'v serve_env \<Rightarrow> bool" where
  "register_encodes env \<longleftrightarrow>
     (\<forall>s caps. cd_encode (ve_codec (sv_daemon env)) (RSysRegister s caps) \<noteq> None)"

definition recorded_as ::
  "'v serve_env \<Rightarrow> devices_db \<Rightarrow> public_key \<Rightarrow> int \<Rightarrow> devices_db \<Rightarrow> bool" where
  "recorded_as env db peer now db' \<longleftrightarrow>
     (\<exists>name model dev. device_pair (se_hash (ve_server (sv_daemon env))) (ve_hex (sv_daemon env))
        db peer name model cs_default_grant now = Inr (db', dev))"

text \<open>What holds of a pairing connection between two messages.\<close>

definition before_registration ::
  "devices_db \<Rightarrow> public_key \<Rightarrow> string \<Rightarrow> ('v, devices_db) serving \<Rightarrow> bool" where
  "before_registration db peer sas s \<longleftrightarrow> rt_state (sg_router s) = Pairing sas \<and>
     rt_peer_key (sg_router s) = peer \<and> sg_store s = db \<and> sg_registered s = None \<and>
     list_all (\<lambda>m. \<not> tells_success m) (sg_sent s)"

definition after_registration ::
  "'v serve_env \<Rightarrow> devices_db \<Rightarrow> public_key \<Rightarrow> int \<Rightarrow> ('v, devices_db) serving \<Rightarrow> bool" where
  "after_registration env db peer now s \<longleftrightarrow> rt_state (sg_router s) = Established \<and>
     recorded_as env db peer now (sg_store s) \<and>
     (\<exists>dev. sg_registered s = Some dev \<and> pd_key dev = peer)"

lemma send_message_keeps:
  "send_message env lk s msg = (s', r) \<Longrightarrow>
     sg_router s' = sg_router s \<and> sg_store s' = sg_store s \<and> sg_terms s' = sg_terms s \<and>
     sg_registered s' = sg_registered s \<and> (sg_sent s' = sg_sent s \<or> sg_sent s' = sg_sent s @ [msg])"
  by (auto simp: send_message_def split: if_splits)

lemma handle_pairing:
  assumes "rt_state rt = Pairing sas" "handle env dm rt m req = (rt', m', resp, eff)"
    and "\<forall>s caps. cd_encode (ve_codec env) (RSysRegister s caps) \<noteq> None"
  obtains (refused) "rt' = rt" "eff = EffNone" "\<not> tells_success (Response resp)"
  | (registered) p where "rq_method req = SYS_REGISTER"
    "cd_register (ve_codec env) (rq_params req) = Some p" "filter is_ascii_digit (sr_sas p) = sas"
    "rt_state rt' = Established"
    "eff = EffRegistered (rt_peer_key rt) (sr_device_name p) (sr_device_model p)"
proof -
  obtain r where d: "dispatch env dm rt m req = (rt', m', r)"
    using assms(2) by (auto simp: handle_def split: prod.splits sum.splits)
  have out: "\<not> tells_success (Response resp) \<and> eff = EffNone" if "r = Inl e" for e
    using assms(2) d that by (auto simp: handle_def)
  show thesis
  proof (cases "rq_method req = SYS_REGISTER")
    case False
    then have "rt' = rt" "\<exists>e. r = Inl e" using dispatch_pairing(3) [OF assms(1) d] by auto
    with out refused show thesis by blast
  next
    case True
    from dispatch_pairing(2) [OF assms(1) d True] assms(1) show thesis
    proof (cases rule: sys_register_cases)
      case (refused e)
      with out that(1) show thesis by blast
    next
      case (registered p)
      obtain bs where "cd_encode (ve_codec env) (RSysRegister (id_to_hex (ve_hex env) (device_bytes
          (device_id_from_public_key (se_hash (ve_server env)) (rt_peer_key rt)))) cs_default_grant) = Some bs"
        using assms(3) by blast
      then have "r = Inr (bs, EffRegistered (rt_peer_key rt) (sr_device_name p) (sr_device_model p))"
        using registered(1-3) assms(1) dispatch_pairing(2) [OF assms(1) d True]
        by (auto simp: sys_register_def decode_def encode_def Let_def)
      with assms(2) d have "eff = EffRegistered (rt_peer_key rt) (sr_device_name p) (sr_device_model p)"
        by (auto simp: handle_def)
      with registered True that(2) show thesis by simp
    qed
  qed
qed

lemma handle_established:
  assumes "rt_state rt = Established" "handle env dm rt m req = (rt', m', resp, eff)"
  shows "rt' = rt" "eff = EffNone"
proof -
  obtain r where d: "dispatch env dm rt m req = (rt', m', r)"
    using assms(2) by (auto simp: handle_def split: prod.splits sum.splits)
  show "rt' = rt" by (rule dispatch_router_same [OF assms(1) d])
  show "eff = EffNone"
  proof (cases r)
    case (Inr a)
    with d have "dispatch env dm rt m req = (rt', m', Inr (fst a, snd a))" by simp
    from dispatch_Ok_may [OF assms(1) this] assms(2) d Inr show ?thesis
      by (cases a) (simp add: handle_def)
  qed (use assms(2) d in \<open>simp add: handle_def\<close>)
qed

text \<open>A message on a connection on which nothing was registered yet.\<close>

lemma before_step:
  assumes before: "before_registration db peer sas s" and enc: "register_encodes env"
    and step: "serve_message env dm (persist (se_hash (ve_server (sv_daemon env))) (ve_hex (sv_daemon env)) now)
        lk s msg = (s', r)"
  shows "before_registration db peer sas s' \<or>
    r \<noteq> Ok () \<and> sg_store s' = db \<and> sg_registered s' = None \<and> list_all (\<lambda>m. \<not> tells_success m) (sg_sent s') \<or>
    after_registration env db peer now s' \<and>
      (\<exists>req p. msg = Request req \<and> rq_method req = SYS_REGISTER \<and>
         cd_register (ve_codec (sv_daemon env)) (rq_params req) = Some p \<and>
         filter is_ascii_digit (sr_sas p) = sas)"
proof -
  let ?reg = "persist (se_hash (ve_server (sv_daemon env))) (ve_hex (sv_daemon env)) now"
  have state: "rt_state (sg_router s) = Pairing sas" using before by (simp add: before_registration_def)
  consider (ask) req where "msg = Request req" | (beat) b where "msg = Ping b" | (other) "(s', r) = (s, Ok ())"
    using step by (cases msg) (auto simp: serve_message_def)
  then show ?thesis
  proof cases
    case (beat b)
    with step have "send_message env lk s (Pong b) = (s', r)" by (simp add: serve_message_def)
    from send_message_keeps [OF this] before have "before_registration db peer sas s'"
      by (auto simp: before_registration_def)
    then show ?thesis ..
  next
    case other
    with before show ?thesis by simp
  next
    case (ask req)
    obtain rt' m' resp eff where h:
      "handle (sv_daemon env) dm (sg_router s) (sg_terms s) req = (rt', m', resp, eff)"
      by (rule prod_cases4)
    let ?s1 = "s\<lparr>sg_router := rt', sg_terms := m'\<rparr>"
    from enc have enc': "\<forall>s caps. cd_encode (ve_codec (sv_daemon env)) (RSysRegister s caps) \<noteq> None"
      by (simp add: register_encodes_def)
    from state h enc' show ?thesis
    proof (cases rule: handle_pairing)
      case refused
      with step ask h have "send_message env lk ?s1 (Response resp) = (s', r)"
        by (simp add: serve_message_def serve_request_def)
      from send_message_keeps [OF this] before refused have "before_registration db peer sas s'"
        by (auto simp: before_registration_def)
      then show ?thesis ..
    next
      case (registered p)
      show ?thesis
      proof (cases "?reg db peer (sr_device_name p) (sr_device_model p)")
        case (Inl e)
        with step ask h registered before have "(s', r) = (?s1, Err (NotRecorded e))"
          by (simp add: serve_message_def serve_request_def before_registration_def)
        with before show ?thesis by (simp add: before_registration_def)
      next
        case (Inr st)
        let ?s2 = "?s1\<lparr>sg_store := st, sg_registered := Some \<lparr>pd_name = sr_device_name p, pd_key = peer\<rparr>\<rparr>"
        from Inr step ask h registered before have "send_message env lk ?s2 (Response resp) = (s', r)"
          by (simp add: serve_message_def serve_request_def before_registration_def)
        from send_message_keeps [OF this] registered(4) Inr have "after_registration env db peer now s'"
          by (auto simp: after_registration_def recorded_as_def persist_def)
        with ask registered(1-3) show ?thesis by blast
      qed
    qed
  qed
qed

lemma after_step:
  assumes after: "after_registration env db peer now s"
    and step: "serve_message env dm reg lk s msg = (s', r)"
  shows "after_registration env db peer now s'"
proof -
  have state: "rt_state (sg_router s) = Established" using after by (simp add: after_registration_def)
  consider (ask) req where "msg = Request req" | (beat) b where "msg = Ping b" | (other) "s' = s"
    using step by (cases msg) (auto simp: serve_message_def)
  then show ?thesis
  proof cases
    case (beat b)
    with step have "send_message env lk s (Pong b) = (s', r)" by (simp add: serve_message_def)
    from send_message_keeps [OF this] after show ?thesis by (simp add: after_registration_def)
  next
    case (ask req)
    obtain rt' m' resp eff where h:
      "handle (sv_daemon env) dm (sg_router s) (sg_terms s) req = (rt', m', resp, eff)"
      by (rule prod_cases4)
    with step ask handle_established [OF state h]
    have "send_message env lk (s\<lparr>sg_router := rt', sg_terms := m'\<rparr>) (Response resp) = (s', r)"
      by (simp add: serve_message_def serve_request_def)
    from send_message_keeps [OF this] after handle_established [OF state h] show ?thesis
      by (simp add: after_registration_def)
  qed (use after in simp)
qed

definition nothing_registered :: "devices_db \<Rightarrow> ('v, devices_db) serving \<Rightarrow> bool" where
  "nothing_registered db s \<longleftrightarrow> sg_store s = db \<and> sg_registered s = None \<and>
     list_all (\<lambda>m. \<not> tells_success m) (sg_sent s)"

lemma before_nothing: "before_registration db peer sas s \<Longrightarrow> nothing_registered db s"
  by (simp add: before_registration_def nothing_registered_def)

lemma after_frames:
  "after_registration env db peer now s \<Longrightarrow> serve_frames env dm reg lk s frs = (s', r) \<Longrightarrow>
     after_registration env db peer now s'"
proof (induction frs arbitrary: s)
  case (Cons fr frs)
  show ?case
  proof (cases "frame_decode_cbor (sv_from_cbor env) fr")
    case (Inr msg)
    obtain s1 r1 where m: "serve_message env dm reg lk s msg = (s1, r1)" by fastforce
    from after_step [OF Cons.prems(1) m] Cons.IH [of s1] Cons.prems(2) Inr m show ?thesis
      by (cases r1) auto
  qed (use Cons.prems in auto)
qed auto

lemma before_frames:
  assumes "before_registration db peer sas s" "register_encodes env"
    "serve_frames env dm (persist (se_hash (ve_server (sv_daemon env))) (ve_hex (sv_daemon env)) now)
       lk s frs = (s', r)"
  shows "nothing_registered db s' \<or>
    after_registration env db peer now s' \<and> (\<exists>fr \<in> set frs. asks_registration env sas fr)"
  using assms(1,3)
proof (induction frs arbitrary: s)
  case Nil
  then show ?case by (auto dest: before_nothing)
next
  case (Cons fr frs)
  let ?reg = "persist (se_hash (ve_server (sv_daemon env))) (ve_hex (sv_daemon env)) now"
  show ?case
  proof (cases "frame_decode_cbor (sv_from_cbor env) fr")
    case (Inl e)
    with Cons.prems show ?thesis by (auto dest: before_nothing)
  next
    case (Inr msg)
    obtain s1 r1 where m: "serve_message env dm ?reg lk s msg = (s1, r1)" by fastforce
    from before_step [OF Cons.prems(1) assms(2) m]
    consider (before) "before_registration db peer sas s1"
      | (failed) "r1 \<noteq> Ok ()" "nothing_registered db s1"
      | (after) "after_registration env db peer now s1" "asks_registration env sas fr"
      using Inr by (auto simp: nothing_registered_def asks_registration_def)
    then show ?thesis
    proof cases
      case before
      with Cons.IH [of s1] Cons.prems(2) Inr m show ?thesis
        by (cases r1) (auto dest: before_nothing)
    next
      case failed
      with Cons.prems(2) Inr m show ?thesis by (cases r1) auto
    next
      case after
      then have "after_registration env db peer now s'"
        using Cons.prems(2) Inr m after_frames [OF after(1), of dm ?reg lk frs s' r]
        by (cases r1) auto
      with after show ?thesis by auto
    qed
  qed
qed

lemma recorded_registry:
  assumes "hex_laws (ve_hex (sv_daemon env))" "hash32 (se_hash (ve_server (sv_daemon env)))"
    "devices_wf (se_hash (ve_server (sv_daemon env))) (ve_hex (sv_daemon env)) db" "id_wf (key_bytes peer)"
    "recorded_as env db peer now db'"
  shows "devices_wf (se_hash (ve_server (sv_daemon env))) (ve_hex (sv_daemon env)) db' \<and>
    registry_of (ve_hex (sv_daemon env)) db' = (registry_of (ve_hex (sv_daemon env)) db)
      (device_id_from_public_key (se_hash (ve_server (sv_daemon env))) peer \<mapsto>
        \<lparr>re_key = peer, re_revoked = None, re_caps = caps_of cs_default_grant, re_roots = {}\<rparr>)"
proof -
  let ?hash = "se_hash (ve_server (sv_daemon env))" and ?hx = "ve_hex (sv_daemon env)"
  obtain name model dev where p: "device_pair ?hash ?hx db peer name model cs_default_grant now = Inr (db', dev)"
    using assms(5) by (auto simp: recorded_as_def)
  have fresh: "registry_of ?hx db (device_id_from_public_key ?hash peer) = None"
    using device_pair_known [OF assms(1-3), of peer _ name model cs_default_grant now] p
    by (cases "registry_of ?hx db (device_id_from_public_key ?hash peer)") (auto split: if_splits)
  obtain db2 dev2 where "device_pair ?hash ?hx db peer name model cs_default_grant now = Inr (db2, dev2)"
    "devices_wf ?hash ?hx db2" "registry_of ?hx db2 = (registry_of ?hx db)
      (device_id_from_public_key ?hash peer \<mapsto>
        \<lparr>re_key = peer, re_revoked = None, re_caps = caps_of cs_default_grant, re_roots = {}\<rparr>)"
    by (rule device_pair_fresh [OF assms(1-4) fresh])
  with p show ?thesis by simp
qed

lemma connection_outcome:
  assumes "register_encodes env"
    and "serve_connection env dm (persist (se_hash (ve_server (sv_daemon env))) (ve_hex (sv_daemon env)) now) lk
       (router_pairing peer sas) m db = (s, r)"
  shows "nothing_registered db s \<or>
    after_registration env db peer now s \<and> (\<exists>fr \<in> set (lk_frames lk). asks_registration env sas fr)"
proof -
  let ?s0 = "\<lparr>sg_router = router_pairing peer sas, sg_terms = m, sg_store = db, sg_sent = [],
    sg_registered = None\<rparr>"
  have before: "before_registration db peer sas ?s0"
    by (simp add: before_registration_def router_pairing_def)
  show ?thesis
    using assms(2) before_nothing [OF before] before_frames [OF before assms(1)]
    by (auto simp: serve_connection_def Let_def split: if_splits prod.splits)
qed

lemma connection_result: "serve_connection env dm reg lk rt m db = (s, Inr x) \<Longrightarrow> x = sg_registered s"
  by (auto simp: serve_connection_def Let_def split: if_splits prod.splits)

text \<open>
  C9: a phone is never told that something worked on a pairing connection before it is paired for good,
  given a codec that can encode the reply to a registration.
  However the connection runs and ends, either nothing was recorded and no success was reported, or
  the peer's key is in the tables, active and with exactly the default grant, and a frame of the
  connection asked for registration with the digits of this handshake.
\<close>

theorem paired_before_told:
  assumes "hex_laws (ve_hex (sv_daemon env))" "hash32 (se_hash (ve_server (sv_daemon env)))"
    and "devices_wf (se_hash (ve_server (sv_daemon env))) (ve_hex (sv_daemon env)) db"
    and "id_wf (key_bytes peer)" "register_encodes env"
    and run: "serve_connection env dm
       (persist (se_hash (ve_server (sv_daemon env))) (ve_hex (sv_daemon env)) now) lk
       (router_pairing peer sas) m db = (s, r)"
  shows "sg_store s = db \<and> sg_registered s = None \<and> list_all (\<lambda>m. \<not> tells_success m) (sg_sent s) \<or>
    reg_rights (registry_of (ve_hex (sv_daemon env)) (sg_store s))
       (device_id_from_public_key (se_hash (ve_server (sv_daemon env))) peer) = caps_of cs_default_grant \<and>
    (\<exists>dev. sg_registered s = Some dev \<and> pd_key dev = peer) \<and>
    (\<exists>fr \<in> set (lk_frames lk). asks_registration env sas fr)"
  using connection_outcome [OF assms(5) run] recorded_registry [OF assms(1-4)]
  by (auto simp: nothing_registered_def after_registration_def reg_rights_def)

definition sample_serve_env :: "string serve_env" where
  "sample_serve_env =
     \<lparr>sv_daemon = sample_daemon_env\<lparr>ve_server := (sample_env [])\<lparr>se_hash := const_hash\<rparr>\<rparr>,
      sv_from_cbor = (\<lambda>bs. Some (Request (sample_call ''sys.register'' (str_of_bytes bs)))),
      sv_to_cbor = (\<lambda>_. Some [])\<rparr>"

text \<open>A peer that asks to be registered with the given digits, and is then cut off.\<close>

definition sample_link :: "string \<Rightarrow> link" where
  "sample_link digits =
     \<lparr>lk_stream = True, lk_frames = [\<lparr>frame_flags = FLAGS_LAST, frame_payload = as_bytes digits\<rparr>],
      lk_clean_end = False, lk_accepts = (\<lambda>_ _. True)\<rparr>"

lemma sample_serve_env_facts:
  "ve_hex (sv_daemon sample_serve_env) = hex_crate"
  "se_hash (ve_server (sv_daemon sample_serve_env)) = const_hash"
  "ve_codec (sv_daemon sample_serve_env) = sample_codec"
  "register_encodes sample_serve_env"
  by (simp_all add: sample_serve_env_def sample_daemon_env_def register_encodes_def sample_codec_def)

lemma sample_decodes:
  "frame_decode_cbor (sv_from_cbor sample_serve_env) \<lparr>frame_flags = FLAGS_LAST, frame_payload = as_bytes digits\<rparr> =
     Inr (Request (sample_call ''sys.register'' digits))"
proof -
  have "\<not> is_raw FLAGS_LAST" "\<not> is_compressed FLAGS_LAST" by code_simp+
  then show ?thesis by (simp add: frame_decode_cbor_def sample_serve_env_def)
qed

lemma sample_digits:
  "filter is_ascii_digit ''418-274'' = ''418274''" "filter is_ascii_digit ''418-273'' = ''418273''"
  by code_simp+

lemma sample_params:
  "cd_register sample_codec (rq_params (sample_call n digits)) =
     Some \<lparr>sr_device_name = ''P'', sr_device_model = None, sr_sas = digits\<rparr>"
  by (simp add: sample_codec_def sample_call_def)

theorem paired_before_told_witness:
  "sg_store (fst (serve_connection sample_serve_env sample_daemon (persist const_hash hex_crate 5)
      (sample_link ''418-274'') (router_pairing some_key ''418273'') one_terminal no_devices)) = no_devices"
proof -
  obtain s r where run: "serve_connection sample_serve_env sample_daemon (persist const_hash hex_crate 5)
      (sample_link ''418-274'') (router_pairing some_key ''418273'') one_terminal no_devices = (s, r)"
    by fastforce
  have "\<not> asks_registration sample_serve_env ''418273'' fr" if "fr \<in> set (lk_frames (sample_link ''418-274''))" for fr
    using that sample_digits
    by (auto simp: asks_registration_def sample_link_def sample_decodes sample_serve_env_facts sample_params)
  with paired_before_told [of sample_serve_env no_devices some_key sample_daemon 5 "sample_link ''418-274''"
      "''418273''" one_terminal s r] run hex_laws_crate hash32_const no_devices_facts
  show ?thesis by (auto simp: sample_serve_env_facts)
qed

lemma sample_registers:
  "handle (sv_daemon sample_serve_env) dm (router_pairing some_key ''418273'') m
     (sample_call ''sys.register'' ''418-273'') =
   ((router_pairing some_key ''418273'')
      \<lparr>rt_grant := Some (newly_paired (device_id_from_public_key const_hash some_key)), rt_state := Established\<rparr>,
    m, \<lparr>rs_id = 7, rs_body = BodyOk []\<rparr>, EffRegistered some_key ''P'' None)"
proof -
  let ?rt = "router_pairing some_key ''418273''"
  have "sys_register (sv_daemon sample_serve_env) ?rt (sample_call ''sys.register'' ''418-273'') =
      (?rt\<lparr>rt_grant := Some (newly_paired (device_id_from_public_key const_hash some_key)), rt_state := Established\<rparr>,
       Inr ([], EffRegistered some_key ''P'' None))"
    using sample_digits
    by (simp add: sys_register_def decode_def encode_def sample_serve_env_facts sample_params router_pairing_def)
      (simp add: sample_codec_def)
  then show ?thesis
    by (simp add: handle_def dispatch_def Let_def METHOD_ALL_def method_defs sample_call_def router_pairing_def)
qed

lemma sample_sends: "is_ok (frame_cbor (sv_to_cbor sample_serve_env) FLAGS_LAST msg)"
  by (simp add: sample_serve_env_def frame_cbor_def frame_new_def)

text \<open>
  The window is not closed by a registration whose connection then fails: the device is in the tables,
  and the loop goes on waiting for another one.
\<close>

lemma window_outlives_registration:
  "\<exists>db. fst (run_pairing sample_serve_env sample_daemon 120000 no_devices one_terminal
        [(0, 5, Connected some_key ''418273'' (sample_link ''418-273''))]) = db \<and>
     snd (snd (run_pairing sample_serve_env sample_daemon 120000 no_devices one_terminal
        [(0, 5, Connected some_key ''418273'' (sample_link ''418-273''))])) = StillWaiting \<and>
     reg_active (registry_of hex_crate db) (device_id_from_public_key const_hash some_key)"
proof -
  let ?d = "device_id_from_public_key const_hash some_key"
  let ?rt = "router_pairing some_key ''418273''"
  obtain db dev where db: "device_pair const_hash hex_crate no_devices some_key ''P'' None cs_default_grant 5
      = Inr (db, dev)"
    "registry_of hex_crate db = (registry_of hex_crate no_devices)
      (?d \<mapsto> \<lparr>re_key = some_key, re_revoked = None, re_caps = caps_of cs_default_grant, re_roots = {}\<rparr>)"
    by (rule device_pair_fresh [OF hex_laws_crate hash32_const no_devices_facts(1,3,2)])
  then have "serve_connection sample_serve_env sample_daemon (persist const_hash hex_crate 5)
      (sample_link ''418-273'') ?rt one_terminal no_devices =
    (\<lparr>sg_router = ?rt\<lparr>rt_grant := Some (newly_paired ?d), rt_state := Established\<rparr>, sg_terms = one_terminal,
      sg_store = db, sg_sent = [Response \<lparr>rs_id = 7, rs_body = BodyOk []\<rparr>],
      sg_registered = Some \<lparr>pd_name = ''P'', pd_key = some_key\<rparr>\<rparr>, Err StreamFailed)"
    by (simp add: serve_connection_def sample_link_def sample_decodes serve_message_def serve_request_def
        sample_registers sample_sends persist_def send_message_def)
  then show ?thesis using db(2)
    by (simp add: sample_serve_env_facts reg_active_def)
qed

end
