(* ===== verification/Schema.thy ===== *)
theory Schema
  imports Store
begin

text \<open>
  \<open>gonomad-store/src/migrations.rs\<close>, \<open>db.rs\<close> and \<open>clock.rs\<close>: the numbered migrations and the set
  that ships, opening a database with the backup before a migration, and the two clocks.

  A database is its contents and the bookkeeping table, if that exists.  What a script does is a
  parameter; for the shipped set the contents are the catalogue of tables and indexes, and the
  script a list of definitions.  A record says which calls of the engine fail.  A transaction that
  does not commit leaves the database as it was, which is how SQLite documents it.
\<close>

section \<open>Migrations\<close>

record 'q migration =
  mi_version :: nat
  mi_name :: string
  mi_sql :: 'q

record version_row =
  vr_version :: int
  vr_name :: string
  vr_applied_at :: int

record 'c database =
  db_content :: 'c
  db_versions :: "version_row list option"

text \<open>The engine: what a script makes of a database, if it succeeds, and the other calls.\<close>

record ('q, 'c) engine =
  en_exec :: "'q \<Rightarrow> 'c database \<Rightarrow> 'c database option"
  en_ensure_ok :: bool
  en_query_ok :: bool
  en_begin_ok :: bool
  en_commit_ok :: bool

record migration_report =
  mr_from :: nat
  mr_to :: nat
  mr_applied :: "nat list"

definition report_is_noop :: "migration_report \<Rightarrow> bool" where
  "report_is_noop r \<longleftrightarrow> mr_applied r = []"

definition ensure_version_table ::
  "('q, 'c) engine \<Rightarrow> 'c database \<Rightarrow> 'c database \<times> (store_error, unit) result" where
  "ensure_version_table en d =
     (if \<not> en_ensure_ok en then (d, Err Database)
      else (case db_versions d of
              None \<Rightarrow> (d\<lparr>db_versions := Some []\<rparr>, Ok ())
            | Some _ \<Rightarrow> (d, Ok ())))"

definition max_version :: "version_row list \<Rightarrow> int" where
  "max_version rows = (if rows = [] then 0 else Max (vr_version ` set rows))"

definition current_version ::
  "('q, 'c) engine \<Rightarrow> 'c database \<Rightarrow> 'c database \<times> (store_error, nat) result" where
  "current_version en d =
     (case ensure_version_table en d of
        (d', Inl e) \<Rightarrow> (d', Err e)
      | (d', Inr _) \<Rightarrow>
          (d',
           if \<not> en_query_ok en then Err Database
           else
             let v = max_version (case db_versions d' of None \<Rightarrow> [] | Some rows \<Rightarrow> rows)
             in if 0 \<le> v \<and> v \<le> int u32_max then Ok (nat v)
                else Err (CorruptRow ''schema_version'' (BadSchemaVersion v))))"

fun validate_from :: "nat \<Rightarrow> 'q migration list \<Rightarrow> (store_error, unit) result" where
  "validate_from previous [] = Ok ()"
| "validate_from previous (m # ms) =
     (if mi_version m = 0
      then Err (InvalidMigrationSet ''version 0 is reserved for an unmigrated database'')
      else if mi_version m \<le> previous
      then Err (InvalidMigrationSet (''version '' @ show_nat (mi_version m) @ '' follows '' @
             show_nat previous @ ''; migrations must ascend and be unique''))
      else validate_from (mi_version m) ms)"

definition validate :: "'q migration list \<Rightarrow> (store_error, unit) result" where
  "validate ms = validate_from 0 ms"

text \<open>One migration inside the transaction; the insert fails where the version is recorded already.\<close>

definition run_one ::
  "('q, 'c) engine \<Rightarrow> int \<Rightarrow> 'q migration \<Rightarrow> 'c database \<Rightarrow> 'c database option" where
  "run_one en now m d =
     Option.bind (en_exec en (mi_sql m) d) (\<lambda>d1.
       case db_versions d1 of
         None \<Rightarrow> None
       | Some rows \<Rightarrow>
           if int (mi_version m) \<in> vr_version ` set rows then None
           else Some (d1\<lparr>db_versions := Some (rows @
                  [\<lparr>vr_version = int (mi_version m), vr_name = mi_name m, vr_applied_at = now\<rparr>])\<rparr>))"

fun run_pending ::
  "('q, 'c) engine \<Rightarrow> int \<Rightarrow> 'q migration list \<Rightarrow> 'c database \<Rightarrow> ('q migration, 'c database) result" where
  "run_pending en now [] d = Ok d"
| "run_pending en now (m # ms) d =
     (case run_one en now m d of
        None \<Rightarrow> Err m
      | Some d' \<Rightarrow> run_pending en now ms d')"

definition newest_version :: "'q migration list \<Rightarrow> nat" where
  "newest_version ms = fold (\<lambda>m hi. max hi (mi_version m)) ms 0"

definition apply_set ::
  "('q, 'c) engine \<Rightarrow> int \<Rightarrow> 'q migration list \<Rightarrow> 'c database \<Rightarrow>
     'c database \<times> (store_error, migration_report) result" where
  "apply_set en now ms d0 =
     (case validate ms of
        Inl e \<Rightarrow> (d0, Err e)
      | Inr _ \<Rightarrow>
          (case current_version en d0 of
             (d, Inl e) \<Rightarrow> (d, Err e)
           | (d, Inr from_v) \<Rightarrow>
               let pending = filter (\<lambda>m. mi_version m > from_v) ms in
               if from_v > newest_version ms then (d, Err (SchemaTooNew from_v (newest_version ms)))
               else if pending = [] then (d, Ok \<lparr>mr_from = from_v, mr_to = from_v, mr_applied = []\<rparr>)
               else if \<not> en_begin_ok en then (d, Err Database)
               else
                 case run_pending en now pending d of
                   Inl m \<Rightarrow> (d, Err (Migration (mi_version m) (mi_name m) from_v))
                 | Inr d' \<Rightarrow>
                     if \<not> en_commit_ok en then (d, Err Database)
                     else (d', Ok \<lparr>mr_from = from_v,
                                   mr_to = (if pending = [] then from_v else Max (set (map mi_version pending))),
                                   mr_applied = map mi_version pending\<rparr>)))"

section \<open>The shipped schema\<close>

datatype sql_type = SqlInteger | SqlText | SqlBlob

text \<open>
  A column: its name and type, whether it may be null, whether it is unique, its default, and the
  table it references with the rule that rows go with what they reference.
\<close>

record column =
  cl_name :: string
  cl_type :: sql_type
  cl_not_null :: bool
  cl_unique :: bool
  cl_default :: "int option"
  cl_references :: "string option"

record table =
  tb_name :: string
  tb_columns :: "column list"
  tb_key :: "string list"
  tb_unique :: "string list list"

datatype ddl =
    CreateTable table
  | CreateIndex string string "string list"

definition col :: "string \<Rightarrow> sql_type \<Rightarrow> column" where
  "col n t = \<lparr>cl_name = n, cl_type = t, cl_not_null = False, cl_unique = False, cl_default = None,
               cl_references = None\<rparr>"

definition needed :: "string \<Rightarrow> sql_type \<Rightarrow> column" where
  "needed n t = (col n t)\<lparr>cl_not_null := True\<rparr>"

definition counted :: "string \<Rightarrow> column" where
  "counted n = (needed n SqlInteger)\<lparr>cl_default := Some 0\<rparr>"

definition of_device :: "string \<Rightarrow> column" where
  "of_device n = (needed n SqlText)\<lparr>cl_references := Some ''devices''\<rparr>"

definition V1_INITIAL_SCHEMA :: "ddl list" where
  "V1_INITIAL_SCHEMA =
     [CreateTable \<lparr>tb_name = ''devices'', tb_columns =
        [col ''id'' SqlText, (needed ''pubkey'' SqlText)\<lparr>cl_unique := True\<rparr>, needed ''name'' SqlText,
         col ''model'' SqlText, needed ''paired_at'' SqlInteger, col ''last_seen'' SqlInteger,
         col ''revoked_at'' SqlInteger], tb_key = [''id''], tb_unique = []\<rparr>,
      CreateIndex ''devices_active'' ''devices'' [''revoked_at''],
      CreateTable \<lparr>tb_name = ''grants'', tb_columns =
        [of_device ''device_id'', needed ''capability'' SqlText, needed ''granted_at'' SqlInteger,
         col ''granted_by'' SqlText], tb_key = [''device_id'', ''capability''], tb_unique = []\<rparr>,
      CreateTable \<lparr>tb_name = ''workspace_roots'', tb_columns =
        [of_device ''device_id'', needed ''path'' SqlText, needed ''added_at'' SqlInteger],
        tb_key = [''device_id'', ''path''], tb_unique = []\<rparr>,
      CreateTable \<lparr>tb_name = ''audit'', tb_columns =
        [col ''seq'' SqlInteger, needed ''ts_utc'' SqlInteger, needed ''monotonic_ns'' SqlInteger,
         col ''device_id'' SqlText, needed ''operation'' SqlText, needed ''args_digest'' SqlBlob,
         needed ''result'' SqlText, needed ''prev_hash'' SqlBlob, needed ''hash'' SqlBlob],
        tb_key = [''seq''], tb_unique = []\<rparr>,
      CreateIndex ''audit_ts'' ''audit'' [''ts_utc''],
      CreateIndex ''audit_device'' ''audit'' [''device_id'', ''seq''],
      CreateTable \<lparr>tb_name = ''audit_checkpoints'', tb_columns =
        [col ''truncated_through_seq'' SqlInteger, needed ''chain_hash'' SqlBlob,
         needed ''entries_removed'' SqlInteger, needed ''ts_utc'' SqlInteger, needed ''signer'' SqlText,
         needed ''signature'' SqlBlob], tb_key = [''truncated_through_seq''], tb_unique = []\<rparr>,
      CreateTable \<lparr>tb_name = ''pty_sessions'', tb_columns =
        [col ''id'' SqlText, needed ''name'' SqlText, needed ''shell'' SqlText, needed ''cwd'' SqlText,
         needed ''created_at'' SqlInteger, col ''exited_at'' SqlInteger, col ''scrollback_path'' SqlText],
        tb_key = [''id''], tb_unique = []\<rparr>,
      CreateTable \<lparr>tb_name = ''agent_sessions'', tb_columns =
        [col ''id'' SqlText, needed ''adapter'' SqlText, needed ''workspace'' SqlText, needed ''state'' SqlText,
         needed ''created_at'' SqlInteger, needed ''last_activity'' SqlInteger, col ''transcript_path'' SqlText,
         col ''agent_native_session_id'' SqlText], tb_key = [''id''], tb_unique = []\<rparr>,
      CreateTable \<lparr>tb_name = ''editor_tabs'', tb_columns =
        [of_device ''device_id'', needed ''path'' SqlText, counted ''cursor_line'', counted ''cursor_col'',
         counted ''scroll_top'', counted ''dirty''], tb_key = [''device_id'', ''path''], tb_unique = []\<rparr>,
      CreateTable \<lparr>tb_name = ''snippets'', tb_columns =
        [col ''id'' SqlInteger, needed ''workspace'' SqlText, needed ''label'' SqlText,
         needed ''command'' SqlText, counted ''use_count''], tb_key = [''id''],
        tb_unique = [[''workspace'', ''label'']]\<rparr>,
      CreateTable \<lparr>tb_name = ''notifications'', tb_columns =
        [col ''id'' SqlInteger, needed ''ts'' SqlInteger, needed ''kind'' SqlText, needed ''payload'' SqlText,
         counted ''delivered'', counted ''read''], tb_key = [''id''], tb_unique = []\<rparr>,
      CreateIndex ''notifications_undelivered'' ''notifications'' [''delivered'', ''ts''],
      CreateTable \<lparr>tb_name = ''settings'', tb_columns =
        [col ''key'' SqlText, needed ''value'' SqlText], tb_key = [''key''], tb_unique = []\<rparr>]"

definition MIGRATIONS :: "ddl list migration list" where
  "MIGRATIONS = [\<lparr>mi_version = 1, mi_name = ''initial_schema'', mi_sql = V1_INITIAL_SCHEMA\<rparr>]"

definition LATEST_VERSION :: nat where
  "LATEST_VERSION = fold (\<lambda>m hi. if mi_version m > hi then mi_version m else hi) MIGRATIONS 0"

definition migrations_apply ::
  "(ddl list, 'c) engine \<Rightarrow> int \<Rightarrow> 'c database \<Rightarrow> 'c database \<times> (store_error, migration_report) result" where
  "migrations_apply en now d = apply_set en now MIGRATIONS d"

text \<open>
  The catalogue, and what these definitions do to it: a name can be used once, a table's columns
  have different names, its keys are columns, and what is indexed or referenced is there.
\<close>

record catalogue =
  ct_tables :: "table list"
  ct_indexes :: "string list"

definition catalogue_names :: "catalogue \<Rightarrow> string list" where
  "catalogue_names ct = map tb_name (ct_tables ct) @ ct_indexes ct"

definition column_names :: "table \<Rightarrow> string list" where
  "column_names t = map cl_name (tb_columns t)"

fun exec_ddl :: "ddl \<Rightarrow> catalogue \<Rightarrow> catalogue option" where
  "exec_ddl (CreateTable t) ct =
     (if tb_name t \<in> set (catalogue_names ct) \<or> \<not> distinct (column_names t) \<or>
         \<not> set (tb_key t) \<subseteq> set (column_names t) \<or> \<not> list_all (\<lambda>u. set u \<subseteq> set (column_names t)) (tb_unique t)
      then None else Some (ct\<lparr>ct_tables := ct_tables ct @ [t]\<rparr>))"
| "exec_ddl (CreateIndex i t cols) ct =
     (if i \<in> set (catalogue_names ct) then None
      else
        case find (\<lambda>tb. tb_name tb = t) (ct_tables ct) of
          None \<Rightarrow> None
        | Some tb \<Rightarrow>
            if set cols \<subseteq> set (column_names tb) then Some (ct\<lparr>ct_indexes := ct_indexes ct @ [i]\<rparr>) else None)"

fun exec_script :: "ddl list \<Rightarrow> catalogue \<Rightarrow> catalogue option" where
  "exec_script [] ct = Some ct"
| "exec_script (q # qs) ct = Option.bind (exec_ddl q ct) (exec_script qs)"

definition ddl_engine :: "(ddl list, catalogue) engine" where
  "ddl_engine =
     \<lparr>en_exec = (\<lambda>q d. map_option (\<lambda>ct. d\<lparr>db_content := ct\<rparr>) (exec_script q (db_content d))),
      en_ensure_ok = True, en_query_ok = True, en_begin_ok = True, en_commit_ok = True\<rparr>"

definition empty_database :: "catalogue database" where
  "empty_database = \<lparr>db_content = \<lparr>ct_tables = [], ct_indexes = []\<rparr>, db_versions = None\<rparr>"

section \<open>Lemmas on a run\<close>

definition recorded :: "'c database \<Rightarrow> version_row list" where
  "recorded d = (case db_versions d of None \<Rightarrow> [] | Some rows \<Rightarrow> rows)"

text \<open>What is relied on of the scripts: none of them touches the bookkeeping table.\<close>

definition keeps_bookkeeping :: "('q, 'c) engine \<Rightarrow> bool" where
  "keeps_bookkeeping en \<longleftrightarrow> (\<forall>q d d'. en_exec en q d = Some d' \<longrightarrow> db_versions d' = db_versions d)"

lemma keeps_bookkeepingD: "keeps_bookkeeping en \<Longrightarrow> en_exec en q d = Some d' \<Longrightarrow> db_versions d' = db_versions d"
  by (simp add: keeps_bookkeeping_def)

definition version_entry :: "int \<Rightarrow> 'q migration \<Rightarrow> version_row" where
  "version_entry now m = \<lparr>vr_version = int (mi_version m), vr_name = mi_name m, vr_applied_at = now\<rparr>"

text \<open>
  What the scripts of a set do to the contents, one after the other, where \<open>f\<close> is what one script
  does, or \<open>None\<close> if it fails.
\<close>

fun scripts_run :: "('q \<Rightarrow> 'c \<Rightarrow> 'c option) \<Rightarrow> 'q list \<Rightarrow> 'c \<Rightarrow> 'c option" where
  "scripts_run f [] ct = Some ct"
| "scripts_run f (q # qs) ct = Option.bind (f q ct) (scripts_run f qs)"

definition runs_scripts :: "('q, 'c) engine \<Rightarrow> ('q \<Rightarrow> 'c \<Rightarrow> 'c option) \<Rightarrow> bool" where
  "runs_scripts en f \<longleftrightarrow>
     (\<forall>q d. en_exec en q d = map_option (\<lambda>ct. d\<lparr>db_content := ct\<rparr>) (f q (db_content d)))"

lemma runs_scripts_keeps: "runs_scripts en f \<Longrightarrow> keeps_bookkeeping en"
  by (auto simp: runs_scripts_def keeps_bookkeeping_def)

lemma run_one_content:
  assumes "runs_scripts en f" and "run_one en now m d = Some d'"
  shows "f (mi_sql m) (db_content d) = Some (db_content d')"
  using assms by (auto simp: runs_scripts_def run_one_def bind_eq_Some_conv split: option.splits if_splits)

lemma run_pending_content:
  assumes "runs_scripts en f" and "run_pending en now ms d = Ok d'"
  shows "scripts_run f (map mi_sql ms) (db_content d) = Some (db_content d')"
  using assms(2)
  by (induction ms arbitrary: d) (auto simp: run_one_content [OF assms(1)] split: option.splits)

lemma ensure_version_table_facts:
  assumes "ensure_version_table en d = (d', r)"
  shows "db_content d' = db_content d" "recorded d' = recorded d"
    "r = Ok () \<Longrightarrow> db_versions d' = Some (recorded d)" "r = Ok () \<longleftrightarrow> en_ensure_ok en"
  using assms by (auto simp: ensure_version_table_def recorded_def split: if_splits option.splits)

lemma current_version_facts:
  assumes "current_version en d = (d', r)"
  shows "db_content d' = db_content d" "recorded d' = recorded d"
    "r = Ok v \<Longrightarrow> db_versions d' = Some (recorded d) \<and> int v = max_version (recorded d) \<and>
       en_ensure_ok en \<and> en_query_ok en \<and> v \<le> u32_max"
proof -
  obtain d1 x where e: "ensure_version_table en d = (d1, x)" by fastforce
  note f = ensure_version_table_facts [OF e]
  show "db_content d' = db_content d" "recorded d' = recorded d"
    using assms e f by (auto simp: current_version_def split: sum.splits)
  assume "r = Ok v"
  with assms e have "x = Ok ()" "d' = d1" "en_query_ok en"
    "0 \<le> max_version (recorded d1) \<and> max_version (recorded d1) \<le> int u32_max \<and> v = nat (max_version (recorded d1))"
    by (auto simp: current_version_def recorded_def Let_def split: sum.splits if_splits)
  with f show "db_versions d' = Some (recorded d) \<and> int v = max_version (recorded d) \<and>
       en_ensure_ok en \<and> en_query_ok en \<and> v \<le> u32_max"
    by auto
qed

lemma current_version_again:
  assumes "db_versions d = Some rows" and "en_ensure_ok en" and "en_query_ok en"
    and "max_version rows = int v" and "v \<le> u32_max"
  shows "current_version en d = (d, Ok v)"
  using assms by (simp add: current_version_def ensure_version_table_def)

lemma run_pending_recorded:
  assumes "keeps_bookkeeping en" and "run_pending en now ms d = Ok d'" and "db_versions d = Some rows"
  shows "db_versions d' = Some (rows @ map (version_entry now) ms)"
  using assms(2,3)
proof (induction ms arbitrary: d rows)
  case (Cons m ms)
  from Cons.prems obtain d1 where one: "run_one en now m d = Some d1" and rest: "run_pending en now ms d1 = Ok d'"
    by (auto split: option.splits)
  from one obtain d0 where "en_exec en (mi_sql m) d = Some d0"
    and "db_versions d1 = Some (the (db_versions d0) @ [version_entry now m])" "db_versions d0 \<noteq> None"
    by (auto simp: run_one_def bind_eq_Some_conv version_entry_def split: option.splits if_splits)
  with keeps_bookkeepingD [OF assms(1)] Cons.prems(2) have "db_versions d1 = Some (rows @ [version_entry now m])"
    by fastforce
  from Cons.IH [OF rest this] show ?case by simp
qed simp

lemma validate_from_ascending:
  "validate_from p ms = Ok () \<longleftrightarrow> sorted_wrt (<) (p # map mi_version ms) \<and> 0 \<notin> set (map mi_version ms)"
  by (induction ms arbitrary: p) auto

lemma newest_version_Max: "newest_version ms = Max (insert 0 (set (map mi_version ms)))"
proof -
  have "fold (\<lambda>m hi. max hi (mi_version m)) ms a = Max (insert a (set (map mi_version ms)))" for a
  proof (induction ms arbitrary: a)
    case (Cons m ms)
    then show ?case
      by (cases "ms = []") (simp_all add: max.commute max.left_commute)
  qed simp
  then show ?thesis by (simp add: newest_version_def)
qed

lemma max_version_recorded:
  assumes "int v = max_version rows" and "pending = filter (\<lambda>m. v < mi_version m) ms" and "v \<le> newest_version ms"
  shows "max_version (rows @ map (version_entry now) pending) = int (newest_version ms)"
proof (cases "pending = []")
  case True
  then have "\<forall>m \<in> set ms. mi_version m \<le> v"
    using assms(2) by (auto simp: filter_empty_conv not_less)
  then have "newest_version ms \<le> v"
    by (simp add: newest_version_Max)
  with assms(1,3) True show ?thesis by simp
next
  case False
  let ?new = "(\<lambda>m. int (mi_version m)) ` set pending"
  have "vr_version ` set (rows @ map (version_entry now) pending) = vr_version ` set rows \<union> ?new"
    by (simp add: image_Un image_image version_entry_def)
  then have "max_version (rows @ map (version_entry now) pending) = Max (vr_version ` set rows \<union> ?new)"
    using False by (simp add: max_version_def)
  also have "\<dots> = int (newest_version ms)"
  proof (rule Max_eqI)
    show "finite (vr_version ` set rows \<union> ?new)" by simp
    fix y assume "y \<in> vr_version ` set rows \<union> ?new"
    then show "y \<le> int (newest_version ms)"
    proof
      assume y: "y \<in> vr_version ` set rows"
      then have "y \<le> max_version rows" by (auto simp: max_version_def)
      with assms(1,3) show ?thesis by simp
    next
      assume "y \<in> ?new"
      then show ?thesis using assms(2) by (auto simp: newest_version_Max)
    qed
  next
    obtain m where m: "m \<in> set pending" using False by (cases pending) auto
    then have above: "v < newest_version ms"
      using assms(2) by (auto simp: newest_version_Max intro: less_le_trans)
    have "newest_version ms \<in> insert 0 (set (map mi_version ms))"
      unfolding newest_version_Max by (rule Max_in) auto
    with above have "newest_version ms \<in> mi_version ` set ms" by auto
    with above assms(2) show "int (newest_version ms) \<in> vr_version ` set rows \<union> ?new" by auto
  qed
  finally show ?thesis .
qed

section \<open>Properties\<close>

text \<open>
  C34: Migrating is all or nothing.  If it fails, whichever script or call of the engine it was, the
  contents are untouched and no version is recorded that was not before.  If it succeeds, the scripts
  of the migrations above the version found have run on the contents, in order and each once, and the
  contents are what they made of them; exactly these versions are recorded in addition, the newest
  among them, and applying the same set again finds nothing to do and changes nothing.
\<close>

theorem migrations_all_or_nothing:
  assumes "runs_scripts en f" and "list_all (\<lambda>m. mi_version m \<le> u32_max) ms"
    and "apply_set en now ms d = (d', r)"
  shows "case r of
      Inl e \<Rightarrow> db_content d' = db_content d \<and> recorded d' = recorded d
    | Inr rep \<Rightarrow>
        int (mr_from rep) = max_version (recorded d) \<and>
        mr_applied rep = map mi_version (filter (\<lambda>m. mr_from rep < mi_version m) ms) \<and>
        sorted_wrt (<) (mr_applied rep) \<and>
        scripts_run f (map mi_sql (filter (\<lambda>m. mr_from rep < mi_version m) ms)) (db_content d) =
          Some (db_content d') \<and>
        recorded d' = recorded d @ map (version_entry now) (filter (\<lambda>m. mr_from rep < mi_version m) ms) \<and>
        max_version (recorded d') = int (newest_version ms) \<and>
        apply_set en now' ms d' = (d', Ok \<lparr>mr_from = newest_version ms, mr_to = newest_version ms, mr_applied = []\<rparr>)"
proof (cases "validate ms")
  case (Inl e)
  with assms(3) show ?thesis by (auto simp: apply_set_def)
next
  case (Inr u)
  obtain d1 x where c: "current_version en d = (d1, x)" by fastforce
  note cf = current_version_facts [OF c]
  show ?thesis
  proof (cases x)
    case e: (Inl e)
    with assms(3) Inr c cf show ?thesis by (auto simp: apply_set_def)
  next
    case v: (Inr v)
    let ?pending = "filter (\<lambda>m. v < mi_version m) ms"
    from cf(3) [OF v] have rows: "db_versions d1 = Some (recorded d)" and max: "int v = max_version (recorded d)"
      and flags: "en_ensure_ok en" "en_query_ok en"
      by auto
    show ?thesis
    proof (cases r)
      case bad: (Inl e)
      with assms(3) Inr c v cf(1,2) show ?thesis
        by (auto simp: apply_set_def Let_def split: if_splits sum.splits)
    next
      case ok: (Inr rep)
      have le: "v \<le> newest_version ms"
        using assms(3) Inr c v ok by (auto simp: apply_set_def Let_def split: if_splits sum.splits)
      have rep: "mr_from rep = v" "mr_applied rep = map mi_version ?pending"
        using assms(3) Inr c v ok by (auto simp: apply_set_def Let_def split: if_splits sum.splits)
      have d': "db_versions d' = Some (recorded d @ map (version_entry now) ?pending) \<and>
          scripts_run f (map mi_sql ?pending) (db_content d) = Some (db_content d')"
      proof (cases "?pending = []")
        case True
        with assms(3) Inr c v ok rows cf(1) show ?thesis
          by (auto simp: apply_set_def Let_def split: if_splits)
      next
        case False
        with assms(3) Inr c v ok have "run_pending en now ?pending d1 = Ok d'"
          by (auto simp: apply_set_def Let_def split: if_splits sum.splits)
        from run_pending_recorded [OF runs_scripts_keeps [OF assms(1)] this rows]
          run_pending_content [OF assms(1) this] cf(1)
        show ?thesis by simp
      qed
      have top: "max_version (recorded d @ map (version_entry now) ?pending) = int (newest_version ms)"
        by (rule max_version_recorded [OF max refl le])
      have "newest_version ms \<le> u32_max"
        using assms(2) by (simp add: newest_version_Max list_all_iff)
      with d' flags top have again: "current_version en d' = (d', Ok (newest_version ms))"
        by (intro current_version_again) auto
      have "filter (\<lambda>m. newest_version ms < mi_version m) ms = []"
        by (auto simp: filter_empty_conv newest_version_Max not_less)
      with again Inr have "apply_set en now' ms d' =
          (d', Ok \<lparr>mr_from = newest_version ms, mr_to = newest_version ms, mr_applied = []\<rparr>)"
        by (simp add: apply_set_def Let_def)
      moreover have "sorted_wrt (<) (map mi_version ?pending)"
      proof -
        have "sorted_wrt (<) (map mi_version ms)"
          using Inr by (auto simp: validate_def validate_from_ascending)
        then show ?thesis by (simp add: sorted_wrt_map sorted_wrt_filter)
      qed
      ultimately show ?thesis
        using ok rep d' max top by (simp add: recorded_def)
    qed
  qed
qed

lemma ddl_engine_runs: "runs_scripts ddl_engine exec_script"
  by (simp add: runs_scripts_def ddl_engine_def)

lemma shipped_script_runs:
  "map_option (\<lambda>ct. (map tb_name (ct_tables ct), ct_indexes ct))
     (exec_script V1_INITIAL_SCHEMA \<lparr>ct_tables = [], ct_indexes = []\<rparr>) =
   Some ([''devices'', ''grants'', ''workspace_roots'', ''audit'', ''audit_checkpoints'', ''pty_sessions'',
          ''agent_sessions'', ''editor_tabs'', ''snippets'', ''notifications'', ''settings''],
         [''devices_active'', ''audit_ts'', ''audit_device'', ''notifications_undelivered''])"
  by code_simp

definition fresh_run :: "catalogue database \<times> (store_error, migration_report) result" where
  "fresh_run = migrations_apply ddl_engine 5 empty_database"

lemma fresh_run_ok:
  "\<exists>ct. exec_script V1_INITIAL_SCHEMA \<lparr>ct_tables = [], ct_indexes = []\<rparr> = Some ct \<and>
     fresh_run = (\<lparr>db_content = ct,
                   db_versions = Some [\<lparr>vr_version = 1, vr_name = ''initial_schema'', vr_applied_at = 5\<rparr>]\<rparr>,
                  Ok \<lparr>mr_from = 0, mr_to = 1, mr_applied = [1]\<rparr>)"
proof -
  from shipped_script_runs obtain ct where "exec_script V1_INITIAL_SCHEMA \<lparr>ct_tables = [], ct_indexes = []\<rparr> = Some ct"
    by auto
  then show ?thesis
    by (simp add: fresh_run_def migrations_apply_def apply_set_def MIGRATIONS_def validate_def
        current_version_def ensure_version_table_def ddl_engine_def empty_database_def max_version_def
        newest_version_def run_one_def Let_def)
qed

theorem migrations_all_or_nothing_witness:
  "scripts_run exec_script [V1_INITIAL_SCHEMA] (db_content empty_database) = Some (db_content (fst fresh_run)) \<and>
   apply_set ddl_engine 6 MIGRATIONS (fst fresh_run) =
     (fst fresh_run, Ok \<lparr>mr_from = 1, mr_to = 1, mr_applied = []\<rparr>)"
proof -
  from fresh_run_ok obtain d where run: "apply_set ddl_engine 5 MIGRATIONS empty_database = (d, Ok \<lparr>mr_from = 0, mr_to = 1, mr_applied = [1]\<rparr>)"
    and d: "fst fresh_run = d"
    by (auto simp: fresh_run_def migrations_apply_def)
  have "list_all (\<lambda>m. mi_version m \<le> u32_max) MIGRATIONS" "newest_version MIGRATIONS = 1"
    "map mi_sql (filter (\<lambda>m. 0 < mi_version m) MIGRATIONS) = [V1_INITIAL_SCHEMA]"
    by (simp_all add: MIGRATIONS_def u32_max_def newest_version_def)
  with migrations_all_or_nothing [OF ddl_engine_runs _ run, of 6] d show ?thesis
    by (simp del: scripts_run.simps)
qed

section \<open>Opening a database\<close>

text \<open>
  A file of the store: what a reader sees, and what is in the main file alone, without the
  write-ahead log.  \<open>ho_busy\<close> says that another connection keeps the log from being folded in.
\<close>

record 'c db_file =
  df_seen :: "'c database"
  df_main :: "'c database"

record host_files =
  ho_parent :: "string \<Rightarrow> string option"
  ho_mkdir_ok :: bool
  ho_open_ok :: bool
  ho_configure_ok :: bool
  ho_checkpoint_ok :: bool
  ho_busy :: bool
  ho_copy_ok :: bool

type_synonym 'c files = "string \<Rightarrow> 'c db_file option"

record store =
  st_path :: "string option"

definition checkpoint :: "host_files \<Rightarrow> string \<Rightarrow> 'c files \<Rightarrow> 'c files \<times> (store_error, unit) result" where
  "checkpoint ho path fs =
     (if \<not> ho_checkpoint_ok ho then (fs, Err Database)
      else
        case fs path of
          None \<Rightarrow> (fs, Ok ())
        | Some f \<Rightarrow> (if ho_busy ho then (fs, Ok ()) else (fs(path \<mapsto> f\<lparr>df_main := df_seen f\<rparr>), Ok ())))"

definition backup_path :: "string \<Rightarrow> nat \<Rightarrow> string" where
  "backup_path path v = path @ ''.pre-v'' @ show_nat v @ ''.bak''"

definition retain_backup :: "host_files \<Rightarrow> string \<Rightarrow> nat \<Rightarrow> 'c files \<Rightarrow> 'c files \<times> (store_error, string) result" where
  "retain_backup ho path v fs =
     (case (ho_copy_ok ho, fs path) of
        (True, Some f) \<Rightarrow>
          (fs(backup_path path v \<mapsto> \<lparr>df_seen = df_main f, df_main = df_main f\<rparr>), Ok (backup_path path v))
      | _ \<Rightarrow> (fs, Err (Io (backup_path path v))))"

text \<open>What the open connection does to the file behind it goes to the log.\<close>

definition write_through :: "string \<Rightarrow> 'c database \<Rightarrow> 'c files \<Rightarrow> 'c files" where
  "write_through path d fs =
     (case fs path of
        None \<Rightarrow> fs
      | Some f \<Rightarrow> fs(path \<mapsto> f\<lparr>df_seen := d\<rparr>))"

definition back_up_before_migrating ::
  "('q, 'c) engine \<Rightarrow> nat \<Rightarrow> host_files \<Rightarrow> string \<Rightarrow> 'c database \<Rightarrow> 'c files \<Rightarrow>
     'c database \<times> 'c files \<times> (store_error, unit) result" where
  "back_up_before_migrating en latest ho path d fs =
     (case current_version en d of
        (d', Inl e) \<Rightarrow> (d', write_through path d' fs, Err e)
      | (d', Inr from_v) \<Rightarrow>
          let fs0 = write_through path d' fs in
          if from_v = 0 \<or> from_v \<ge> latest then (d', fs0, Ok ())
          else
            (case checkpoint ho path fs0 of
               (fs1, Inl e) \<Rightarrow> (d', fs1, Err e)
             | (fs1, Inr _) \<Rightarrow>
                 (case retain_backup ho path from_v fs1 of
                    (fs2, Inl e) \<Rightarrow> (d', fs2, Err e)
                  | (fs2, Inr _) \<Rightarrow> (d', fs2, Ok ()))))"

text \<open>
  \<open>Store::open\<close>, for a set of migrations whose newest version is \<open>latest\<close>; a file that is not there
  is created with empty contents.
\<close>

definition parent_fails :: "host_files \<Rightarrow> string \<Rightarrow> string option" where
  "parent_fails ho path =
     (case ho_parent ho path of
        None \<Rightarrow> None
      | Some p \<Rightarrow> if p \<noteq> [] \<and> \<not> ho_mkdir_ok ho then Some p else None)"

definition store_open ::
  "('q, 'c) engine \<Rightarrow> 'q migration list \<Rightarrow> nat \<Rightarrow> 'c \<Rightarrow> int \<Rightarrow> host_files \<Rightarrow> string \<Rightarrow> 'c files \<Rightarrow>
     'c files \<times> (store_error, store) result" where
  "store_open en ms latest new now ho path fs =
     (case parent_fails ho path of
        Some p \<Rightarrow> (fs, Err (Io p))
      | None \<Rightarrow>
          if \<not> ho_open_ok ho then (fs, Err Database)
          else
            let nd = \<lparr>db_content = new, db_versions = None\<rparr>;
                f = (case fs path of None \<Rightarrow> \<lparr>df_seen = nd, df_main = nd\<rparr> | Some f \<Rightarrow> f);
                fs1 = fs(path \<mapsto> f)
            in if \<not> ho_configure_ok ho then (fs1, Err Database)
               else
                 (case back_up_before_migrating en latest ho path (df_seen f) fs1 of
                    (d, fs2, Inl e) \<Rightarrow> (fs2, Err e)
                  | (d, fs2, Inr _) \<Rightarrow>
                      (case apply_set en now ms d of
                         (d', Inl e) \<Rightarrow> (write_through path d' fs2, Err e)
                       | (d', Inr _) \<Rightarrow> (write_through path d' fs2, Ok \<lparr>st_path = Some path\<rparr>))))"

definition schema_version :: "('q, 'c) engine \<Rightarrow> 'c database \<Rightarrow> 'c database \<times> (store_error, nat) result" where
  "schema_version en d = current_version en d"

definition migrate ::
  "('q, 'c) engine \<Rightarrow> 'q migration list \<Rightarrow> int \<Rightarrow> 'c database \<Rightarrow> 'c database \<times> (store_error, migration_report) result" where
  "migrate en ms now d = apply_set en now ms d"

section \<open>Clocks\<close>

text \<open>\<open>time\<close>'s nanoseconds since the epoch may be negative; the division is Rust's, towards zero.\<close>

definition now_unix_ms :: "int \<Rightarrow> int" where
  "now_unix_ms nanos =
     (let ms = (if nanos < 0 then - (- nanos div 1000000) else nanos div 1000000)
      in if - (2 ^ 63) \<le> ms \<and> ms < 2 ^ 63 then ms else 2 ^ 63 - 1)"

text \<open>The anchor is read once; \<open>elapsed\<close> is what the monotonic clock has counted since.\<close>

definition monotonic_now_ns :: "int \<Rightarrow> nat \<Rightarrow> nat" where
  "monotonic_now_ns epoch elapsed =
     sat_add u64_max (if 0 \<le> epoch \<and> epoch \<le> int u64_max then nat epoch else 0) (clamp_to u64_max elapsed)"

lemma monotonic_never_back: "s \<le> t \<Longrightarrow> monotonic_now_ns epoch s \<le> monotonic_now_ns epoch t"
  by (auto simp: monotonic_now_ns_def sat_add_def clamp_to_def)

section \<open>The way back\<close>

lemma apply_set_current:
  assumes "apply_set en now ms d = (d', r)" and "max_version (recorded d) = int v" and "newest_version ms \<le> v"
  shows "db_content d' = db_content d \<and> recorded d' = recorded d"
proof -
  obtain d1 x where c: "current_version en d = (d1, x)" by fastforce
  note cf = current_version_facts [OF c]
  have none: "filter (\<lambda>m. w < mi_version m) ms = []" if "newest_version ms \<le> w" for w
    using that by (auto simp: filter_empty_conv newest_version_Max not_less)
  show ?thesis
  proof (cases x)
    case (Inl e)
    with assms(1) c cf(1,2) show ?thesis by (auto simp: apply_set_def split: sum.splits)
  next
    case (Inr w)
    with cf(3) assms(2) have "w = v" by auto
    with Inr assms(1,3) c cf(1,2) none [of v] show ?thesis
      by (auto simp: apply_set_def Let_def split: sum.splits if_splits)
  qed
qed

lemma backup_path_differs [simp]: "backup_path path v \<noteq> path"
  by (simp add: backup_path_def)

lemma write_through_same: "fs path = Some f \<Longrightarrow> write_through path d fs path = Some (f\<lparr>df_seen := d\<rparr>)"
  by (simp add: write_through_def)

lemma write_through_other: "p \<noteq> path \<Longrightarrow> write_through path d fs p = fs p"
  by (simp add: write_through_def split: option.split)

text \<open>
  C33: No migration without a way back.  If opening a database that some version had already been
  applied to leaves it with other contents or other versions recorded than before, then the file
  beside it holds the database as it was, provided no other connection kept the write-ahead log from
  being folded in; and where the backup cannot be made, the database is not touched.
\<close>

theorem backup_before_migration:
  assumes "newest_version ms \<le> latest" and "\<not> ho_busy ho" and "fs path = Some f"
    and "max_version (recorded (df_seen f)) = int v" and "0 < v"
    and "store_open en ms latest new now ho path fs = (fs', r)" and "fs' path = Some f'"
    and "db_content (df_seen f') \<noteq> db_content (df_seen f) \<or> recorded (df_seen f') \<noteq> recorded (df_seen f)"
  shows "\<exists>b. fs' (backup_path path v) = Some b \<and> db_content (df_seen b) = db_content (df_seen f) \<and>
    recorded (df_seen b) = recorded (df_seen f)"
proof -
  have self: "fs(path \<mapsto> f) = fs" using assms(3) by auto
  have "parent_fails ho path = None \<and> ho_open_ok ho \<and> ho_configure_ok ho"
    using assms(3,6-8) self by (auto simp: store_open_def Let_def split: option.splits if_splits)
  then obtain d fs2 x where b: "back_up_before_migrating en latest ho path (df_seen f) fs = (d, fs2, x)"
    and rest: "(case x of Inl e \<Rightarrow> (fs2, Err e)
      | Inr _ \<Rightarrow> (case apply_set en now ms d of
           (d', Inl e) \<Rightarrow> (write_through path d' fs2, Err e)
         | (d', Inr _) \<Rightarrow> (write_through path d' fs2, Ok \<lparr>st_path = Some path\<rparr>))) = (fs', r)"
    using assms(3,6) self
    by (cases "back_up_before_migrating en latest ho path (df_seen f) fs")
      (auto simp: store_open_def Let_def split: sum.splits)
  obtain d1 y where c: "current_version en (df_seen f) = (d1, y)" by fastforce
  note cf = current_version_facts [OF c]
  let ?fs0 = "write_through path d1 fs"
  have fs0: "?fs0 path = Some (f\<lparr>df_seen := d1\<rparr>)" using assms(3) by (rule write_through_same)
  have kept: "\<exists>g. fs2 path = Some g \<and> df_seen g = d1" and d: "d = d1"
    using b c fs0
    by (auto simp: back_up_before_migrating_def checkpoint_def retain_backup_def Let_def
        backup_path_differs [symmetric] split: sum.splits if_splits option.splits prod.splits bool.splits)
  obtain u where x: "x = Inr u"
    using assms(7,8) rest kept cf(1,2) by (cases x) auto
  with rest obtain d' z where a: "apply_set en now ms d1 = (d', z)" and fs': "fs' = write_through path d' fs2"
    unfolding d by (auto split: prod.splits sum.splits)
  have "df_seen f' = d'"
    using fs' kept assms(7) write_through_same by fastforce
  with apply_set_current [OF a, of v] assms(1,4,8) cf(1,2) have "v < latest"
    by (metis le_trans not_le)
  moreover have "y = Ok v"
    using x b c cf(3) assms(4) by (cases y) (auto simp: back_up_before_migrating_def)
  moreover have "ho_checkpoint_ok ho"
    using x b c calculation assms(5)
    by (cases "ho_checkpoint_ok ho") (simp_all add: back_up_before_migrating_def checkpoint_def Let_def)
  then have "checkpoint ho path ?fs0 = (?fs0(path \<mapsto> f\<lparr>df_seen := d1, df_main := d1\<rparr>), Ok ())"
    using fs0 assms(2) by (simp add: checkpoint_def)
  ultimately have "\<exists>w. retain_backup ho path v (?fs0(path \<mapsto> f\<lparr>df_seen := d1, df_main := d1\<rparr>)) = (fs2, Ok w)"
    using b c x assms(5) by (auto simp: back_up_before_migrating_def split: sum.splits prod.splits)
  then have "fs2 (backup_path path v) = Some \<lparr>df_seen = d1, df_main = d1\<rparr>"
    by (auto simp: retain_backup_def split: bool.splits)
  then show ?thesis
    using fs' cf(1,2) by (simp add: write_through_other)
qed

text \<open>An upgrade from the shipped schema by a second migration that adds one table.\<close>

definition second_set :: "ddl list migration list" where
  "second_set = MIGRATIONS @ [\<lparr>mi_version = 2, mi_name = ''more'', mi_sql =
     [CreateTable \<lparr>tb_name = ''extra'', tb_columns = [col ''id'' SqlText], tb_key = [''id''], tb_unique = []\<rparr>]\<rparr>]"

definition fair_host :: host_files where
  "fair_host = \<lparr>ho_parent = \<lambda>_. None, ho_mkdir_ok = True, ho_open_ok = True, ho_configure_ok = True,
     ho_checkpoint_ok = True, ho_busy = False, ho_copy_ok = True\<rparr>"

definition old_database :: "catalogue database" where
  "old_database = \<lparr>db_content = \<lparr>ct_tables = [], ct_indexes = []\<rparr>,
     db_versions = Some [\<lparr>vr_version = 1, vr_name = ''initial_schema'', vr_applied_at = 5\<rparr>]\<rparr>"

theorem backup_before_migration_witness:
  "\<exists>b. fst (store_open ddl_engine second_set 2 (db_content old_database) 9 fair_host ''g.db''
       [''g.db'' \<mapsto> \<lparr>df_seen = old_database, df_main = old_database\<rparr>]) (backup_path ''g.db'' 1) = Some b \<and>
     recorded (df_seen b) = recorded old_database"
proof -
  let ?open = "store_open ddl_engine second_set 2 (db_content old_database) 9 fair_host ''g.db''
       [''g.db'' \<mapsto> \<lparr>df_seen = old_database, df_main = old_database\<rparr>]"
  have nv: "newest_version second_set = 2"
    by (simp add: newest_version_def second_set_def MIGRATIONS_def)
  have cv: "current_version ddl_engine old_database = (old_database, Ok 1)"
    by (rule current_version_again [where rows = "[\<lparr>vr_version = 1, vr_name = ''initial_schema'', vr_applied_at = 5\<rparr>]"])
      (simp_all add: old_database_def ddl_engine_def max_version_def u32_max_def)
  have ap: "\<exists>d'. apply_set ddl_engine 9 second_set old_database = (d', Ok \<lparr>mr_from = 1, mr_to = 2, mr_applied = [2]\<rparr>) \<and>
      recorded d' \<noteq> recorded old_database"
    using cv
    by (simp add: apply_set_def second_set_def MIGRATIONS_def validate_def newest_version_def Let_def
        run_one_def ddl_engine_def old_database_def catalogue_names_def column_names_def col_def recorded_def)
  then obtain d' where d': "apply_set ddl_engine 9 second_set old_database = (d', Ok \<lparr>mr_from = 1, mr_to = 2, mr_applied = [2]\<rparr>)"
    "recorded d' \<noteq> recorded old_database"
    by blast
  have "\<exists>f'. fst ?open ''g.db'' = Some f' \<and> df_seen f' = d'"
    using d' cv
    by (simp add: store_open_def parent_fails_def fair_host_def Let_def back_up_before_migrating_def
        write_through_def checkpoint_def retain_backup_def backup_path_def)
  then obtain f' where f': "fst ?open ''g.db'' = Some f'" "df_seen f' = d'" by blast
  have mv: "max_version (recorded old_database) = int 1"
    by (simp add: old_database_def recorded_def max_version_def)
  show ?thesis
    using backup_before_migration [of second_set 2 fair_host "[''g.db'' \<mapsto> \<lparr>df_seen = old_database, df_main = old_database\<rparr>]"
        "''g.db''" "\<lparr>df_seen = old_database, df_main = old_database\<rparr>" 1 ddl_engine "db_content old_database" 9
        "fst ?open" "snd ?open" f'] nv mv f' d'(2)
    by (auto simp: fair_host_def)
qed

text \<open>Where another connection keeps the log, the copy is of an older state.\<close>

lemma busy_backup_is_stale:
  "fst (snd (back_up_before_migrating ddl_engine 2 (fair_host\<lparr>ho_busy := True\<rparr>) ''g.db'' old_database
     [''g.db'' \<mapsto> \<lparr>df_seen = old_database, df_main = empty_database\<rparr>])) (backup_path ''g.db'' 1) =
   Some \<lparr>df_seen = empty_database, df_main = empty_database\<rparr>"
proof -
  have "current_version ddl_engine old_database = (old_database, Ok 1)"
    by (rule current_version_again [where rows = "[\<lparr>vr_version = 1, vr_name = ''initial_schema'', vr_applied_at = 5\<rparr>]"])
      (simp_all add: old_database_def ddl_engine_def max_version_def u32_max_def)
  then show ?thesis
    by (simp add: fair_host_def Let_def back_up_before_migrating_def write_through_def checkpoint_def
        retain_backup_def backup_path_def)
qed

end
