(* ===== verification/Cli.thy ===== *)
theory Cli
  imports PhoneClient Serve Schema
begin

text \<open>
  \<open>gonomad-server/src/main.rs\<close>: the commands of the \<open>gonomad\<close> program.  A command is the text it
  prints and its result.  What is outside is an argument: the working directory and the environment
  variables, the shells and the network found, the QR crate, the iroh endpoint, the outcome of opening
  the database with the tables in it.  Joining a path to another is the standard library's.
\<close>

section \<open>Joining paths\<close>

fun has_prefix :: "component list \<Rightarrow> bool" where
  "has_prefix (Prefix _ _ # _) = True"
| "has_prefix _ = False"

definition is_sep :: "host \<Rightarrow> char \<Rightarrow> bool" where
  "is_sep h c \<longleftrightarrow> c = CHR ''/'' \<or> (host_windows h \<and> c = CHR 0x5C)"

fun text_bytes :: "os_string \<Rightarrow> string" where
  "text_bytes (Utf8 s) = s"
| "text_bytes (NonUtf8 bs) = str_of_bytes bs"

text \<open>\<open>push\<close> puts a separator behind a base that has none, unless it is empty or only a drive.\<close>

definition needs_sep :: "host \<Rightarrow> path \<Rightarrow> bool" where
  "needs_sep h base \<longleftrightarrow>
     text_bytes (path_text base) \<noteq> [] \<and> \<not> is_sep h (last (text_bytes (path_text base))) \<and>
     (case path_comps base of [Prefix (Disk _) _] \<Rightarrow> False | _ \<Rightarrow> True)"

text \<open>On a verbatim base the components are pushed one by one, and dots mean something.\<close>

definition push_verbatim :: "component list \<Rightarrow> component \<Rightarrow> component list" where
  "push_verbatim buf c =
     (case c of
        RootDir \<Rightarrow> take 1 buf @ [RootDir]
      | CurDir \<Rightarrow> buf
      | ParentDir \<Rightarrow> if buf \<noteq> [] \<and> (case last buf of Normal _ \<Rightarrow> True | _ \<Rightarrow> False) then butlast buf else buf
      | _ \<Rightarrow> buf @ [c])"

text \<open>A leading dot stays a component only where nothing but a drive comes before it.\<close>

definition join_comps :: "component list \<Rightarrow> component list \<Rightarrow> component list" where
  "join_comps base cs =
     (case base of
        [] \<Rightarrow> cs
      | [Prefix (Disk _) _] \<Rightarrow> base @ cs
      | _ \<Rightarrow> base @ filter (\<lambda>c. c \<noteq> CurDir) cs)"

definition path_join :: "host \<Rightarrow> path \<Rightarrow> path \<Rightarrow> path" where
  "path_join h base p =
     (if is_absolute h p \<or> has_prefix (path_comps p) then p
      else if path_is_verbatim base \<and> text_bytes (path_text p) \<noteq> []
      then path_of h (foldl push_verbatim (path_comps base) (path_comps p))
      else if has_root (path_comps p)
      then (case path_comps base of
              Prefix k raw # _ \<Rightarrow>
                \<lparr>path_text = os_append raw (path_text p), path_comps = Prefix k raw # path_comps p\<rparr>
            | _ \<Rightarrow> p)
      else
        \<lparr>path_text = os_append
            (if needs_sep h base then os_append (path_text base) (Utf8 (separator h)) else path_text base)
            (path_text p),
         path_comps = join_comps (path_comps base) (path_comps p)\<rparr>)"

section \<open>The environment of a command\<close>

record ('v, 'r, 'a) cli_env =
  cx_serve :: "'v serve_env"
  cx_os :: os
  cx_curves :: curves
  cx_encoder :: encoder
  cx_crate :: "('r, 'a) iroh_crate"
  cx_cwd :: "path option"
  cx_home :: "string option"
  cx_var :: "string \<Rightarrow> os_string option"
  cx_udp :: udp_probe
  cx_qr :: "string \<Rightarrow> string list option"
  cx_usable :: "socket_addr \<Rightarrow> bool"
  cx_comes_up :: bool
  cx_runtime :: bool
  cx_ips :: "socket_addr list"
  cx_relays :: "'r list"

abbreviation cx_daemon :: "('v, 'r, 'a) cli_env \<Rightarrow> 'v daemon_env" where
  "cx_daemon env \<equiv> sv_daemon (cx_serve env)"

abbreviation cx_server :: "('v, 'r, 'a) cli_env \<Rightarrow> server_env" where
  "cx_server env \<equiv> ve_server (cx_daemon env)"

abbreviation cx_host :: "('v, 'r, 'a) cli_env \<Rightarrow> host" where
  "cx_host env \<equiv> se_host (cx_server env)"

abbreviation cx_hex :: "('v, 'r, 'a) cli_env \<Rightarrow> hex_codec" where
  "cx_hex env \<equiv> ve_hex (cx_daemon env)"

abbreviation cx_hash :: "('v, 'r, 'a) cli_env \<Rightarrow> hash_fn" where
  "cx_hash env \<equiv> se_hash (cx_server env)"

definition shown_path :: "('v, 'r, 'a) cli_env \<Rightarrow> path \<Rightarrow> string" where
  "shown_path env p = to_string_lossy (cx_host env) (path_text p)"

datatype cli_error =
    NoStateDirectory state_error
  | IdentityNotCreated state_error
  | IdentityUnavailable state_error
  | DatabaseNotOpened store_error
  | DevicesNotRead store_error
  | NoWorkspaceGiven
  | WorkspaceMissing string
  | RootMissing string
  | NoPathGiven
  | NoRootForFile
  | CwdUnreadable
  | DenylistPanics invalid_pattern
  | EndpointNotStarted transport_error
  | NotAQrCode
  | NoRuntime
  | NothingPairedYet
  | PairingExpired

text \<open>What is printed: \<open>println\<close> ends each line.\<close>

definition say :: "string list \<Rightarrow> string" where
  "say ls = concat (map (\<lambda>l. l @ [CHR 0x0A]) ls)"

definition EM_DASH :: string where "EM_DASH = [CHR 0xE2, CHR 0x80, CHR 0x94]"
definition ELLIPSIS :: string where "ELLIPSIS = [CHR 0xE2, CHR 0x80, CHR 0xA6]"

definition pad_left :: "nat \<Rightarrow> string \<Rightarrow> string" where
  "pad_left n s = replicate (n - length s) (CHR '' '') @ s"

definition pad_right :: "nat \<Rightarrow> string \<Rightarrow> string" where
  "pad_right n s = s @ replicate (n - length s) (CHR '' '')"

definition addresses_or_none :: "string list \<Rightarrow> string" where
  "addresses_or_none addrs = (if addrs = [] then ''none found'' else join '', '' addrs)"

section \<open>Shared parts\<close>

definition resolve_workspace :: "('v, 'r, 'a) cli_env \<Rightarrow> path option \<Rightarrow> (cli_error, path) result" where
  "resolve_workspace env workspace =
     rbind (ok_or (case workspace of Some w \<Rightarrow> Some w | None \<Rightarrow> cx_cwd env) NoWorkspaceGiven) (\<lambda>raw.
     case fs_canonicalize (se_fs (cx_server env)) raw of
       FsOk c \<Rightarrow> Ok c
     | _ \<Rightarrow> Err (WorkspaceMissing (shown_path env raw)))"

definition build_fs_service :: "('v, 'r, 'a) cli_env \<Rightarrow> path \<Rightarrow> (cli_error, policy_engine) result" where
  "build_fs_service env root =
     (case workspace_root_new (se_fs (cx_server env)) root of
        FsOk r \<Rightarrow>
          rbind (map_err DenylistPanics (denylist_with_defaults (se_globs (cx_server env)))) (\<lambda>dl.
          Ok (policy_engine_new (guard_new [r]) dl))
      | _ \<Rightarrow> Err (RootMissing (shown_path env root)))"

definition hostname :: "('v, 'r, 'a) cli_env \<Rightarrow> string" where
  "hostname env =
     (case Option.bind (cx_var env ''COMPUTERNAME'') to_str of
        Some n \<Rightarrow> n
      | None \<Rightarrow>
          (case Option.bind (cx_var env ''HOSTNAME'') to_str of
             Some n \<Rightarrow> n
           | None \<Rightarrow> ''this machine''))"

text \<open>The daemon comes with a manager that has no terminal yet.\<close>

definition build_daemon ::
  "('v, 'r, 'a) cli_env \<Rightarrow> path \<Rightarrow> (cli_error, daemon \<times> 'v pty_manager) result" where
  "build_daemon env workspace =
     rbind (build_fs_service env workspace) (\<lambda>service.
     Ok (\<lparr>dm_engine = service, dm_workspace_roots = [shown_path env workspace],
          dm_host_name = hostname env\<rparr>, pty_new))"

definition absolutise :: "('v, 'r, 'a) cli_env \<Rightarrow> path \<Rightarrow> (cli_error, path) result" where
  "absolutise env p =
     (if is_absolute (cx_host env) p then Ok p
      else rbind (ok_or (cx_cwd env) CwdUnreadable) (\<lambda>cwd. Ok (path_join (cx_host env) cwd p)))"

definition diagnostic_grant :: device_grant where
  "diagnostic_grant = newly_paired (DeviceId (replicate ID_LEN 0))"

text \<open>The address of the interface that would carry traffic to a public one, with the fixed port.\<close>

definition LOCAL_PORT :: nat where "LOCAL_PORT = 41234"

definition local_probes :: "socket_addr list" where
  "local_probes = [V4 (8, 8, 8, 8) 80, V4 (1, 1, 1, 1) 80]"

fun ip_text :: "socket_addr \<Rightarrow> string" where
  "ip_text (V4 ip _) = ipv4_text ip"
| "ip_text (V6 ip _ _) = ipv6_text ip"

fun ip_is_loopback :: "socket_addr \<Rightarrow> bool" where
  "ip_is_loopback (V4 ip _) = is_loopback ip"
| "ip_is_loopback (V6 ip _ _) = (ip = [0, 0, 0, 0, 0, 0, 0, 1])"

definition add_local :: "udp_probe \<Rightarrow> string list \<Rightarrow> socket_addr \<Rightarrow> string list" where
  "add_local u found probe =
     (if \<not> up_binds u \<or> \<not> up_connects u probe then found
      else
        case up_local u probe of
          None \<Rightarrow> found
        | Some addr \<Rightarrow>
            let candidate = ip_text addr @ '':'' @ show_nat LOCAL_PORT
            in if \<not> ip_is_loopback addr \<and> candidate \<notin> set found then found @ [candidate] else found)"

definition local_addresses :: "('v, 'r, 'a) cli_env \<Rightarrow> string list" where
  "local_addresses env = foldl (add_local (cx_udp env)) [] local_probes"

definition shell_summary :: "('v, 'r, 'a) cli_env \<Rightarrow> string" where
  "shell_summary env =
     (let shells = ve_shells (cx_daemon env)
      in if shells = [] then ''none'' else join '', '' (map sh_display shells))"

definition key_short :: "('v, 'r, 'a) cli_env \<Rightarrow> public_key \<Rightarrow> string" where
  "key_short env k = id_short (cx_hex env) (key_bytes k)"

definition KEY_STORAGE_WARNING :: "string list" where
  "KEY_STORAGE_WARNING =
     [''warning: this build stores the daemon identity in a plain file, not the OS'',
      ''         keyring. Any process running as your user can read it. Keyring'',
      ''         storage is required before this is production-ready (ARCHITECTURE.md 3.3).'']"

section \<open>Identity, devices and status\<close>

definition cmd_init ::
  "('v, 'r, 'a) cli_env \<Rightarrow> paths \<Rightarrow> bytes \<Rightarrow> disk \<Rightarrow> disk \<times> string \<times> (cli_error, unit) result" where
  "cmd_init env ps seed d =
     (case create_identity (cx_os env) (cx_hex env) (cx_curves env) ps seed d of
        (d', Inl e) \<Rightarrow> (d', [], Err (IdentityNotCreated e))
      | (d', Inr i) \<Rightarrow>
          (d', say ([''GoNomad initialised.'', [],
             ''  state directory  '' @ ps_root ps,
             ''  device id        '' @ id_to_hex (cx_hex env) (device_bytes (identity_device_id (cx_hash env) (cx_curves env) i)),
             ''  signing key      '' @ key_short env (identity_public_key (cx_curves env) i),
             ''  noise key        '' @ key_short env (noise_public_key (cx_curves env) i),
             []] @ KEY_STORAGE_WARNING @ [[],
             ''Next: run `gonomad pair` and scan the code with the GoNomad app.'']), Ok ()))"

definition device_line :: "('v, 'r, 'a) cli_env \<Rightarrow> device \<Rightarrow> string" where
  "device_line env d =
     ''  '' @ id_short (cx_hex env) (device_bytes (dev_id d)) @ ''  '' @ dev_name d @ ''  key '' @ key_short env (dev_key d)"

definition cmd_devices ::
  "('v, 'r, 'a) cli_env \<Rightarrow> (store_error, devices_db) result \<Rightarrow> string \<times> (cli_error, unit) result" where
  "cmd_devices env opened =
     (case rbind (map_err DatabaseNotOpened opened) (\<lambda>db.
             map_err DevicesNotRead (list_active (cx_hash env) (cx_hex env) db)) of
        Inl e \<Rightarrow> ([], Err e)
      | Inr devices \<Rightarrow>
          (if devices = [] then say [''No devices paired. Run `gonomad pair`.'']
           else say ((show_nat (length devices) @ '' paired device(s):'') # map (device_line env) devices),
           Ok ()))"

definition cmd_status ::
  "('v, 'r, 'a) cli_env \<Rightarrow> paths \<Rightarrow> disk \<Rightarrow> string \<times> (cli_error, unit) result" where
  "cmd_status env ps d =
     (let root = [''state directory   '' @ ps_root ps];
          rest = [''addresses         '' @ addresses_or_none (local_addresses env),
                  ''shells            '' @ shell_summary env]
      in if is_initialised ps d
         then (case load_identity (cx_os env) (cx_hex env) (cx_curves env) ps d of
                 Inl e \<Rightarrow> (say root, Err (IdentityUnavailable e))
               | Inr i \<Rightarrow>
                   (say (root @ [''initialised       yes'',
                      ''device id         '' @ id_to_hex (cx_hex env) (device_bytes (identity_device_id (cx_hash env) (cx_curves env) i)),
                      ''signing key       '' @ key_short env (identity_public_key (cx_curves env) i),
                      ''noise key         '' @ key_short env (noise_public_key (cx_curves env) i)] @ rest),
                    Ok ()))
         else (say (root @ [''initialised       no  '' @ EM_DASH @ '' run `gonomad init`''] @ rest), Ok ()))"

section \<open>What a phone would see\<close>

definition refusal :: "string \<Rightarrow> proto_error \<Rightarrow> string" where
  "refusal verdict e =
     say [verdict @ '': '' @ user_message (err_kind e) @ ''  ('' @ error_code (err_kind e) @ '')'']"

definition entry_line :: "dir_entry \<Rightarrow> string" where
  "entry_line entry =
     ''  '' @ (case de_size entry of None \<Rightarrow> [] | Some b \<Rightarrow> pad_left 10 (show_nat b) @ '' '') @ de_name entry @
     (case de_kind entry of EkDirectory \<Rightarrow> ''/'' | EkSymlink \<Rightarrow> ''@'' | EkFile \<Rightarrow> [])"

definition ls_text :: "(proto_error, dir_entry list) result \<Rightarrow> string" where
  "ls_text r =
     (case r of
        Inr entries \<Rightarrow>
          say ((show_nat (length entries) @ '' entries a paired phone would see:'') # map entry_line entries @
            [[], ''Anything on the secret denylist (.env, .ssh, keys) is absent by design.''])
      | Inl e \<Rightarrow> refusal ''denied'' e)"

definition cmd_ls ::
  "('v, 'r, 'a) cli_env \<Rightarrow> path option \<Rightarrow> path option \<Rightarrow> (cli_error, string) result" where
  "cmd_ls env p workspace =
     rbind (ok_or (case p of Some q \<Rightarrow> Some q | None \<Rightarrow> cx_cwd env) NoPathGiven) (\<lambda>raw.
     rbind (absolutise env raw) (\<lambda>target.
     rbind (case workspace of Some w \<Rightarrow> absolutise env w | None \<Rightarrow> Ok target) (\<lambda>root.
     rbind (build_fs_service env root) (\<lambda>service.
       Ok (ls_text (fs_list (cx_server env) service (Some diagnostic_grant) (shown_path env target)))))))"

definition ends_line :: "string \<Rightarrow> bool" where
  "ends_line s \<longleftrightarrow> s \<noteq> [] \<and> last s = CHR 0x0A"

definition cat_text :: "('v, 'r, 'a) cli_env \<Rightarrow> (proto_error, file_content) result \<Rightarrow> string" where
  "cat_text env r =
     (case r of
        Inr c \<Rightarrow>
          say ([''path        '' @ fc_path c,
                ''hash        '' @ id_short (cx_hex env) (digest_bytes (fc_hash c)),
                ''bytes       '' @ show_nat (length (fc_text c))] @
               (if fc_truncated c
                then [''truncated   yes '' @ EM_DASH @ '' showing the first '' @ show_nat MAX_READ_BYTES @ '' bytes'']
                else []) @ [''---'']) @
          fc_text c @ (if ends_line (fc_text c) then [] else say [[]])
      | Inl e \<Rightarrow> refusal ''refused'' e)"

definition cmd_cat ::
  "('v, 'r, 'a) cli_env \<Rightarrow> path \<Rightarrow> path option \<Rightarrow> (cli_error, string) result" where
  "cmd_cat env p workspace =
     rbind (absolutise env p) (\<lambda>target.
     rbind (case workspace of
              Some w \<Rightarrow> absolutise env w
            | None \<Rightarrow> ok_or (parent (cx_host env) target) NoRootForFile) (\<lambda>root.
     rbind (build_fs_service env root) (\<lambda>service.
       Ok (cat_text env (fs_read (cx_server env) service (Some diagnostic_grant) (shown_path env target))))))"

section \<open>Diagnosis\<close>

definition ok_line :: "string \<Rightarrow> string \<Rightarrow> string" where
  "ok_line label detail = ''  [ok]   '' @ pad_right 18 label @ '' '' @ detail"

definition warn_line :: "string \<Rightarrow> string \<Rightarrow> string" where
  "warn_line label detail = ''  [warn] '' @ pad_right 18 label @ '' '' @ detail"

definition firewall_note :: "('v, 'r, 'a) cli_env \<Rightarrow> nat \<Rightarrow> string list" where
  "firewall_note env port =
     (if host_windows (cx_host env) then
        [''Windows Firewall blocks inbound connections by default, and it will'',
         ''silently drop your phone before the daemon sees it. Allow the port once,'',
         ''from an Administrator PowerShell:'', [],
         ''  New-NetFirewallRule -DisplayName 'GoNomad' -Direction Inbound `'',
         ''    -Action Allow -Protocol TCP -LocalPort '' @ show_nat port @ '' -Profile Private'', [],
         ''Private profile only, deliberately: that covers your home and office'',
         ''networks and leaves the port closed on any network Windows considers'',
         ''public, which is where you would least want it open.'']
      else
        [''If a local firewall is active, allow inbound TCP on port '' @ show_nat port @ '' for your'',
         ''local network only. GoNomad never needs an inbound rule at the router.''])"

definition cmd_doctor :: "('v, 'r, 'a) cli_env \<Rightarrow> paths \<Rightarrow> disk \<Rightarrow> string" where
  "cmd_doctor env ps d =
     (let shells = ve_shells (cx_daemon env); addrs = local_addresses env in
      say ([''GoNomad doctor'', []] @
        (if is_initialised ps d
         then [ok_line ''identity'' (ps_identity ps),
               warn_line ''key storage'' ''plain file, not the OS keyring (see ARCHITECTURE.md 3.3)'']
         else [warn_line ''identity'' (''not created '' @ EM_DASH @ '' run `gonomad init`'')]) @
        [if d (ps_database ps) \<noteq> None then ok_line ''database'' (ps_database ps)
         else warn_line ''database'' ''not created yet; it appears on first connection'',
         if d (ps_config ps) \<noteq> None then ok_line ''config'' (ps_config ps)
         else warn_line ''config'' ''using defaults; no config.toml written yet'',
         if shells = [] then warn_line ''shells'' ''none found; terminals will not work''
         else ok_line ''shells'' (shell_summary env),
         if addrs = []
         then warn_line ''network'' ''no non-loopback address found; a phone cannot reach this machine''
         else ok_line ''network'' (join '', '' addrs),
         ok_line ''transport'' (''LAN direct '' @ EM_DASH @ '' TCP + Noise. NAT traversal (iroh) lands later''),
         []] @
        firewall_note env (unat DEFAULT_PORT) @
        [[], ''No router configuration and no port forwarding are ever needed.'',
         ''See docs/deployment.md.'']))"

section \<open>Pairing\<close>

text \<open>Only addresses and the first relay go into a ticket; the node id has its own place there.\<close>

fun relay_url :: "addr_hint \<Rightarrow> string option" where
  "relay_url (HintRelay url) = Some url"
| "relay_url (HintDirect _) = None"
| "relay_url (HintNode _) = None"

definition printed_ticket :: "curves \<Rightarrow> device_identity \<Rightarrow> addr_hint list \<Rightarrow> pairing_ticket" where
  "printed_ticket cv i hints =
     \<lparr>tk_daemon_key = noise_public_key cv i, tk_node_id = iroh_node_id cv i,
      tk_addr_hints = map socket_addr_text (List.map_filter hint_socket_addr hints),
      tk_relay_hint = (case List.map_filter relay_url hints of [] \<Rightarrow> None | url # _ \<Rightarrow> Some url)\<rparr>"

record ('v, 't) ready_to_pair =
  rp_workspace :: path
  rp_daemon :: daemon
  rp_terminals :: "'v pty_manager"
  rp_devices :: devices_db
  rp_transport :: "'t iroh_transport"
  rp_ticket :: pairing_ticket
  rp_payload :: string

text \<open>
  Up to the payload of the code: the identity, the workspace, the database, the services, and the
  endpoint, which is bound before its addresses are put into the ticket.  The secret is random.  The
  wait for a relay is in \<open>cx_relays\<close>, the relays the endpoint knows when it is over: none if it timed out.
\<close>

definition prepare_pairing ::
  "('v, 'r, 'a) cli_env \<Rightarrow> paths \<Rightarrow> disk \<Rightarrow> (store_error, devices_db) result \<Rightarrow> path option \<Rightarrow>
     pairing_secret \<Rightarrow> (cli_error, ('v, 't) ready_to_pair) result" where
  "prepare_pairing env ps d opened workspace secret =
     rbind (map_err IdentityUnavailable (load_identity (cx_os env) (cx_hex env) (cx_curves env) ps d)) (\<lambda>i.
     rbind (resolve_workspace env workspace) (\<lambda>root.
     rbind (map_err DatabaseNotOpened opened) (\<lambda>db.
     rbind (build_daemon env root) (\<lambda>(dm, m).
     rbind (map_err EndpointNotStarted
              (iroh_bind (cx_crate env) (cx_usable env) (cx_comes_up env) (iroh_pairing i secret))) (\<lambda>transport.
       let hints = iroh_addr_hints (cx_crate env) (iroh_node_id (cx_curves env) i) (cx_ips env) (cx_relays env);
           ticket = printed_ticket (cx_curves env) i hints
       in Ok \<lparr>rp_workspace = root, rp_daemon = dm, rp_terminals = m, rp_devices = db,
              rp_transport = transport, rp_ticket = ticket,
              rp_payload = ticket_encode (cx_encoder env) ticket secret\<rparr>)))))"

definition render_qr :: "('v, 'r, 'a) cli_env \<Rightarrow> string \<Rightarrow> (cli_error, string) result" where
  "render_qr env payload =
     rbind (ok_or (cx_qr env payload) NotAQrCode) (\<lambda>drawn. Ok (say (map (\<lambda>l. ''  '' @ l) drawn)))"

definition pairing_text ::
  "('v, 'r, 'a) cli_env \<Rightarrow> pairing_secret \<Rightarrow> ('v, 't) ready_to_pair \<Rightarrow> string \<Rightarrow> string" where
  "pairing_text env secret ready drawn =
     say [[]] @ drawn @ say [[],
       ''  workspace     '' @ shown_path env (rp_workspace ready),
       ''  addresses     '' @ addresses_or_none (tk_addr_hints (rp_ticket ready)),
       ''  relay         '' @ (case tk_relay_hint (rp_ticket ready) of
          Some url \<Rightarrow> url | None \<Rightarrow> ''none '' @ EM_DASH @ '' direct only''),
       ''  manual code   '' @ code_grouped (code_from_secret (cx_hash env) (cx_encoder env) secret),
       ''  valid for     120 seconds, single use'', [],
       ''Scan the code above with the GoNomad app, then confirm the six digits'',
       ''shown on your phone match the ones this machine displays.'', [],
       ''Waiting for a device'' @ ELLIPSIS @ ''  (Ctrl-C to cancel)'', [],
       ''Your phone does not need to be on this network. If nothing happens after'',
       ''scanning, check the phone has internet at all '' @ EM_DASH @ '' run `gonomad doctor` too.'']"

text \<open>
  The whole command: the tables afterwards, what it printed before it waited, and how it ended,
  which is \<open>None\<close> while it still waits.
\<close>

definition cmd_pair ::
  "('v, 'r, 'a) cli_env \<Rightarrow> paths \<Rightarrow> disk \<Rightarrow> (store_error, devices_db) result \<Rightarrow> path option \<Rightarrow>
     pairing_secret \<Rightarrow> (nat \<times> int \<times> accepted) list \<Rightarrow>
     devices_db option \<times> string \<times> (cli_error, paired_device) result option" where
  "cmd_pair env ps d opened workspace secret evs =
     (case (prepare_pairing env ps d opened workspace secret :: (cli_error, ('v, unit) ready_to_pair) result) of
        Inl e \<Rightarrow> (None, [], Some (Err e))
      | Inr ready \<Rightarrow>
          (case render_qr env (rp_payload ready) of
             Inl e \<Rightarrow> (Some (rp_devices ready), say [[]], Some (Err e))
           | Inr drawn \<Rightarrow>
               (case run_pairing (cx_serve env) (rp_daemon ready) PAIRING_WINDOW_MS (rp_devices ready)
                       (rp_terminals ready) evs of
                  (db, _, ended) \<Rightarrow>
                    (Some db, pairing_text env secret ready drawn,
                     (case ended of
                        PairedWith device \<Rightarrow> Some (Ok device)
                      | WindowExpired \<Rightarrow> Some (Err PairingExpired)
                      | StillWaiting \<Rightarrow> None)))))"

section \<open>Serving\<close>

text \<open>
  The start of \<open>serve_iroh\<close>: it refuses while nothing is paired, and binds an endpoint whose policy
  asks the tables anew at each handshake.  The loop after it is \<open>iroh_accept\<close>.
\<close>

definition serve_iroh_start ::
  "('v, 'r, 'a) cli_env \<Rightarrow> device_identity \<Rightarrow> devices_db \<Rightarrow> peer_policy \<Rightarrow> (cli_error, 't iroh_transport) result" where
  "serve_iroh_start env i db policy =
     rbind (map_err DevicesNotRead (list_active (cx_hash env) (cx_hex env) db)) (\<lambda>paired.
     if length paired = 0 then Err NothingPairedYet
     else map_err EndpointNotStarted
            (iroh_bind (cx_crate env) (cx_usable env) (cx_comes_up env) (iroh_reconnect i policy)))"

text \<open>The port is an argument that nothing reads.\<close>

definition cmd_serve ::
  "('v, 'r, 'a) cli_env \<Rightarrow> paths \<Rightarrow> disk \<Rightarrow> (store_error, devices_db) result \<Rightarrow> path option \<Rightarrow> 16 word \<Rightarrow>
     peer_policy \<Rightarrow> string \<times> (cli_error, daemon \<times> 't iroh_transport) result" where
  "cmd_serve env ps d opened workspace port policy =
     (case rbind (map_err IdentityUnavailable (load_identity (cx_os env) (cx_hex env) (cx_curves env) ps d)) (\<lambda>i.
           rbind (resolve_workspace env workspace) (\<lambda>root.
           rbind (map_err DatabaseNotOpened opened) (\<lambda>db.
           rbind (build_daemon env root) (\<lambda>(dm, m). Ok (i, root, db, dm))))) of
        Inl e \<Rightarrow> ([], Err e)
      | Inr (i, root, db, dm) \<Rightarrow>
          (say ([''GoNomad serving'',
             ''  workspace   '' @ shown_path env root,
             ''  identity    '' @ key_short env (noise_public_key (cx_curves env) i),
             ''  reachable   any network '' @ EM_DASH @ '' hole-punched, with a relay fallback'', []] @
             KEY_STORAGE_WARNING @ [[], ''Ctrl-C to stop.'', []]),
           rbind (serve_iroh_start env i db policy) (\<lambda>transport. Ok (dm, transport))))"

section \<open>The command line\<close>

datatype command =
    CmdInit
  | CmdPair "path option"
  | CmdServe "path option" "16 word"
  | CmdStatus
  | CmdDevices
  | CmdLs "path option" "path option"
  | CmdCat path "path option"
  | CmdDoctor

definition cli_paths :: "('v, 'r, 'a) cli_env \<Rightarrow> string option \<Rightarrow> (cli_error, paths) result" where
  "cli_paths env state_dir =
     (case state_dir of
        Some dir \<Rightarrow> Ok (paths_under (cx_os env) dir)
      | None \<Rightarrow> map_err NoStateDirectory (paths_discover (cx_os env) (cx_home env)))"

text \<open>
  Running a command: the disk and the tables afterwards, the text, and how it ended.  A server that
  started and a pairing that waits have not ended.
\<close>

record outcome =
  oc_disk :: disk
  oc_devices :: "devices_db option"
  oc_text :: string
  oc_ended :: "(cli_error, unit) result option"

definition ended :: "disk \<Rightarrow> string \<Rightarrow> (cli_error, unit) result \<Rightarrow> outcome" where
  "ended d out r = \<lparr>oc_disk = d, oc_devices = None, oc_text = out, oc_ended = Some r\<rparr>"

definition printed :: "disk \<Rightarrow> (cli_error, string) result \<Rightarrow> outcome" where
  "printed d r = (case r of Inl e \<Rightarrow> ended d [] (Err e) | Inr out \<Rightarrow> ended d out (Ok ()))"

definition run_command ::
  "('v, 'r, 'a) cli_env \<Rightarrow> string option \<Rightarrow> command \<Rightarrow> bytes \<Rightarrow> (store_error, devices_db) result \<Rightarrow>
     peer_policy \<Rightarrow> (nat \<times> int \<times> accepted) list \<Rightarrow> disk \<Rightarrow> outcome" where
  "run_command env state_dir cmd random opened policy evs d =
     (case cli_paths env state_dir of
        Inl e \<Rightarrow> ended d [] (Err e)
      | Inr ps \<Rightarrow>
          (case cmd of
             CmdInit \<Rightarrow> (case cmd_init env ps random d of (d', out, r) \<Rightarrow> ended d' out r)
           | CmdPair workspace \<Rightarrow>
               if \<not> cx_runtime env then ended d [] (Err NoRuntime)
               else (case cmd_pair env ps d opened workspace random evs of (db, out, r) \<Rightarrow>
                  \<lparr>oc_disk = d, oc_devices = db, oc_text = out,
                   oc_ended = map_option (\<lambda>x. rbind x (\<lambda>_. Ok ())) r\<rparr>)
           | CmdServe workspace port \<Rightarrow>
               if \<not> cx_runtime env then ended d [] (Err NoRuntime)
               else (case (cmd_serve env ps d opened workspace port policy ::
                        string \<times> (cli_error, daemon \<times> unit iroh_transport) result) of
                  (out, Inl e) \<Rightarrow> ended d out (Err e)
                | (out, Inr _) \<Rightarrow> \<lparr>oc_disk = d, oc_devices = None, oc_text = out, oc_ended = None\<rparr>)
           | CmdStatus \<Rightarrow> (case cmd_status env ps d of (out, r) \<Rightarrow> ended d out r)
           | CmdDevices \<Rightarrow> (case cmd_devices env opened of (out, r) \<Rightarrow> ended d out r)
           | CmdLs p workspace \<Rightarrow> printed d (cmd_ls env p workspace)
           | CmdCat p workspace \<Rightarrow> printed d (cmd_cat env p workspace)
           | CmdDoctor \<Rightarrow> ended d (cmd_doctor env ps d) (Ok ())))"

section \<open>The diagnostics are the phone's view\<close>

text \<open>The policy looks at what a grant allows, and at the device only where presence is required.\<close>

lemma fs_authorize_grants:
  assumes "\<And>c. may g c = may g' c" "\<not> capability_requires_presence cap" "\<not> may g FsSecrets"
  shows "fs_authorize env e g cap m requested = fs_authorize env e g' cap m requested"
  using assms
  by (simp add: fs_authorize_def authorize_path_def fs_request_def check_grant_alt check_presence_alt
      Let_def cong: if_cong)

lemma fs_list_grants:
  assumes "\<And>c. may g c = may g' c" "\<not> may g FsSecrets"
  shows "fs_list env e g requested = fs_list env e g' requested"
proof -
  have "caps_of (listing_capabilities g) = caps_of (listing_capabilities g')"
    using assms(1) by (simp add: set_eq_iff flip: may_iff)
  then have "filter_listing (se_host env) (se_globs env) e g = filter_listing (se_host env) (se_globs env) e g'"
    by (simp add: fun_eq_iff filter_listing_def denylist_filter_def cs_contains_caps_of)
  with fs_authorize_grants [of g g' FsRead] assms show ?thesis
    by (simp add: fs_list_def)
qed

lemma fs_read_grants:
  assumes "\<And>c. may g c = may g' c" "\<not> may g FsSecrets"
  shows "fs_read env e g requested = fs_read env e g' requested"
  using fs_authorize_grants [of g g' FsRead] assms by (simp add: fs_read_def)

lemma newly_paired_may:
  "may (Some (newly_paired dev)) c \<longleftrightarrow> c \<in> caps_of cs_default_grant"
  by (simp add: may_def newly_paired_def grant_new_def)

lemma default_no_secrets: "FsSecrets \<notin> caps_of cs_default_grant"
  by (simp add: cs_default_grant_def DEFAULT_GRANT_def)

lemma diagnostic_same:
  "fs_list senv e (Some (newly_paired dev)) requested = fs_list senv e (Some diagnostic_grant) requested"
  "fs_read senv e (Some (newly_paired dev)) requested = fs_read senv e (Some diagnostic_grant) requested"
  by (intro fs_list_grants fs_read_grants; simp add: newly_paired_may diagnostic_grant_def default_no_secrets)+

text \<open>
  C12: the diagnostics tell the truth.  What \<open>gonomad ls\<close> and \<open>gonomad cat\<close> print for a path, given
  with the workspace it is in, is the rendering of exactly the result that the daemon, serving the same workspace, gives to the phone of
  any newly paired device for that path, refusals included: the listing and the file that are put
  into the responses are the ones that were printed.
\<close>

theorem diagnostics_show_phone_view:
  assumes "build_daemon env root = Ok (dm, m)" "absolutise env p = Ok target" "absolutise env w = Ok root"
    and "rt_state rt = Established" "rt_grant rt = Some (newly_paired dev)"
    and "rq_method listing = FS_LIST"
      "cd_list (ve_codec (cx_daemon env)) (rq_params listing) = Some (shown_path env target)"
    and "rq_method fetching = FS_READ"
      "cd_read (ve_codec (cx_daemon env)) (rq_params fetching) = Some (shown_path env target)"
  shows "cmd_ls env (Some p) (Some w) =
       Ok (ls_text (fs_list (cx_server env) (dm_engine dm) (rt_grant rt) (shown_path env target))) \<and>
     dispatch (cx_daemon env) dm rt m listing =
       (rt, m, with_no_effect
          (rbind (fs_list (cx_server env) (dm_engine dm) (rt_grant rt) (shown_path env target)) (\<lambda>es.
             encode (cx_daemon env) (RFsList (shown_path env target) es)))) \<and>
     cmd_cat env p (Some w) =
       Ok (cat_text env (fs_read (cx_server env) (dm_engine dm) (rt_grant rt) (shown_path env target))) \<and>
     dispatch (cx_daemon env) dm rt m fetching =
       (rt, m, with_no_effect
          (rbind (fs_read (cx_server env) (dm_engine dm) (rt_grant rt) (shown_path env target)) (\<lambda>c.
             encode (cx_daemon env) (RFsRead c))))"
proof -
  from assms(1) have "build_fs_service env root = Ok (dm_engine dm)"
    by (auto simp: build_daemon_def)
  moreover have "\<not> is_pairing (rt_state rt)" using assms(4) by simp
  ultimately show ?thesis
    using assms(2-) by (simp add: cmd_ls_def cmd_cat_def dispatch_def Let_def METHOD_ALL_def method_defs
        router_fs_list_def router_fs_read_def decode_def diagnostic_same)
qed

section \<open>An example machine\<close>

definition sample_cli_env :: "(string, unit, unit) cli_env" where
  "sample_cli_env =
     \<lparr>cx_serve = sample_serve_env, cx_os = fair_os, cx_curves = toy_curves, cx_encoder = base32_crate,
      cx_crate = \<lparr>ic_parse_relay = \<lambda>_. Some (), ic_relay_text = \<lambda>_. ''https://r'', ic_valid_id = \<lambda>_. True,
                  ic_addr_new = \<lambda>_. (), ic_with_ip = \<lambda>a _. a, ic_with_relay = \<lambda>a _. a\<rparr>,
      cx_cwd = Some (unix_path ''/p''), cx_home = Some ''/h'', cx_var = \<lambda>_. None,
      cx_udp = \<lparr>up_binds = True, up_connects = \<lambda>_. True, up_local = \<lambda>_. Some (V4 (192, 168, 1, 4) 9)\<rparr>,
      cx_qr = \<lambda>_. Some [''#''], cx_usable = \<lambda>_. True, cx_comes_up = True, cx_runtime = True,
      cx_ips = [V4 (192, 168, 1, 4) 80], cx_relays = [()]\<rparr>"

definition sample_root :: path where "sample_root = unix_path ''/p''"

lemma sample_cli_env_facts [simp]:
  "cx_serve sample_cli_env = sample_serve_env" "cx_os sample_cli_env = fair_os"
  "cx_curves sample_cli_env = toy_curves" "cx_encoder sample_cli_env = base32_crate"
  "se_fs (ve_server (sv_daemon sample_serve_env)) = sample_fs"
  "se_host (ve_server (sv_daemon sample_serve_env)) = unix_host"
  "se_globs (ve_server (sv_daemon sample_serve_env)) = contains_globset" "cx_cwd sample_cli_env = Some sample_root"
  "cx_qr sample_cli_env = (\<lambda>_. Some [''#''])" "cx_comes_up sample_cli_env" "cx_usable sample_cli_env a"
  "cx_ips sample_cli_env = [V4 (192, 168, 1, 4) 80]" "cx_relays sample_cli_env = [()]"
  "ic_relay_text (cx_crate sample_cli_env) = (\<lambda>_. ''https://r'')"
  by (simp_all add: sample_cli_env_def sample_serve_env_def sample_daemon_env_def sample_root_def)

lemma sample_canonical: "fs_canonicalize sample_fs sample_root = FsOk sample_root"
  by code_simp

lemma sample_built:
  "\<exists>dm. build_daemon sample_cli_env sample_root = Ok (dm, pty_new) \<and> dm_engine dm = sample_engine"
proof -
  have "denylist_with_defaults contains_globset =
      Inr \<lparr>dl_set = DEFAULT_PATTERNS, dl_patterns = DEFAULT_PATTERNS, dl_warnings = []\<rparr>"
    by code_simp
  then show ?thesis
    by (simp add: build_daemon_def build_fs_service_def workspace_root_new_def sample_canonical
        sample_engine_def unix_root_def flip: sample_root_def)
qed

theorem diagnostics_show_phone_view_witness:
  "cmd_cat sample_cli_env (unix_path ''main.rs'') (Some sample_root) =
     Ok (cat_text sample_cli_env (fs_read (cx_server sample_cli_env) sample_engine
       (Some (newly_paired sample_device)) ''/p/main.rs''))"
proof -
  obtain dm where dm: "build_daemon sample_cli_env sample_root = Ok (dm, pty_new)" "dm_engine dm = sample_engine"
    using sample_built by blast
  have "path_join unix_host sample_root (unix_path ''main.rs'') = unix_path ''/p/main.rs''"
    "\<not> is_absolute unix_host (unix_path ''main.rs'')" "is_absolute unix_host sample_root"
    unfolding sample_root_def by code_simp+
  then have "absolutise sample_cli_env (unix_path ''main.rs'') = Ok (unix_path ''/p/main.rs'')"
    "absolutise sample_cli_env sample_root = Ok sample_root"
    by (simp_all add: absolutise_def)
  from diagnostics_show_phone_view [OF dm(1) this, of "router_established sample_peer (newly_paired sample_device)"
      sample_device "sample_call ''fs.list'' ''/p/main.rs''" "sample_call ''fs.read'' ''/p/main.rs''"] dm(2)
  show ?thesis
    by (simp add: router_established_def sample_call_def method_defs sample_serve_env_facts sample_codec_def
        shown_path_def unix_path_def)
qed

section \<open>The printed code dials this machine\<close>

lemma graphic_parts:
  "list_all graphic (show_nat n)" "list_all graphic (show_hex n)"
proof -
  show "list_all graphic (show_nat n)"
    using show_nat_digits [of n] by (auto simp: list_all_iff is_digit_def graphic_def)
  have digit: "graphic (hex_char k)" if "k < 16" for k
    using that by (auto simp: hex_char_def graphic_def)
  show "list_all graphic (show_hex n)"
    by (induction n rule: show_hex.induct) (subst show_hex.simps, auto simp: digit)
qed

lemma graphic_join:
  "list_all (list_all graphic) ws \<Longrightarrow> list_all graphic sep \<Longrightarrow> list_all graphic (join sep ws)"
  by (induction sep ws rule: join.induct) simp_all

lemma graphic_ipv4: "list_all graphic (ipv4_text ip)"
proof -
  have "list_all graphic ''.''" by code_simp
  then show ?thesis
    unfolding ipv4_text_def by (auto intro!: graphic_join simp: graphic_parts split: prod.split)
qed

lemma graphic_groups: "list_all graphic (groups_text gs)"
proof -
  have "list_all graphic '':''" by code_simp
  then show ?thesis
    unfolding groups_text_def by (intro graphic_join) (auto simp: list_all_iff graphic_parts [unfolded list_all_iff])
qed

lemma graphic_socket_addr: "list_all graphic (socket_addr_text a)"
proof -
  have "list_all graphic ''::ffff:''" "list_all graphic ''::''" "list_all graphic ''[''" "list_all graphic '']:''"
    "list_all graphic ''%''" "list_all graphic '':''"
    by code_simp+
  then show ?thesis
    by (cases a) (simp_all add: graphic_parts graphic_ipv4 graphic_groups ipv6_text_def split: prod.split)
qed

lemma graphic_text_utf8: "valid_utf8 (as_bytes (socket_addr_text a))"
  by (rule graphic_utf8 [OF graphic_socket_addr])

lemma own_hints:
  "List.map_filter hint_socket_addr (iroh_addr_hints ic k ips relays) = ips"
  "List.map_filter relay_url (iroh_addr_hints ic k ips relays) = map (ic_relay_text ic) relays"
  by (simp_all add: iroh_addr_hints_def List.map_filter_def comp_def filter_empty_conv)

lemma load_identity_seed:
  "load_identity os hx cv ps d = Ok i \<Longrightarrow> \<exists>seed. i = from_seed cv seed"
  by (auto simp: load_identity_def split: if_splits)

lemma seeded_keys_wf:
  "curves_laws cv \<Longrightarrow> id_wf (key_bytes (noise_public_key cv (from_seed cv seed))) \<and>
     id_wf (key_bytes (iroh_node_id cv (from_seed cv seed)))"
  by (simp add: curves_laws_def id_wf_def ID_LEN_def noise_public_key_def iroh_node_id_def
      from_seed_def from_seed_inner_def)

lemma printed_ticket_wf:
  assumes "curves_laws cv" "\<And>r. valid_utf8 (as_bytes (ic_relay_text ic r))"
  shows "ticket_wf (printed_ticket cv (from_seed cv seed) (iroh_addr_hints ic k ips relays))"
  using seeded_keys_wf [OF assms(1)] assms(2)
  by (auto simp: ticket_wf_def printed_ticket_def own_hints list_all_iff graphic_text_utf8
      simp del: socket_addr_text.simps split: list.splits)

text \<open>
  C11: scanning the code that \<open>gonomad pair\<close> draws makes the phone dial this machine, and nothing
  else.  The pairing it starts carries the secret that the bound endpoint expects, the machine's own
  Noise key and its own node id; and when every hint fits a ticket, the hints it will dial by are that
  node id, the addresses the endpoint reported, each IPv4 one as it was, and the first relay.
\<close>

theorem scanned_code_dials_this_machine:
  fixes ready :: "('v, 't) ready_to_pair"
  assumes ready: "prepare_pairing env ps d opened workspace secret = Ok ready"
    and "pe_encoder en = cx_encoder env" "base32_laws crockford_spec (crockford (cx_encoder env))"
    and "curves_laws (cx_curves env)" "\<And>r. valid_utf8 (as_bytes (ic_relay_text (cx_crate env) r))"
    and "length secret = PAIRING_SECRET_LEN"
  shows "\<exists>i ticket.
     load_identity (cx_os env) (cx_hex env) (cx_curves env) ps d = Ok i \<and>
     it_config (rp_transport ready) = iroh_pairing i secret \<and>
     begin_pairing_start en (rp_payload ready) c =
       (set_phase PhConnecting (cancel_pairing c), PairDialling ticket secret) \<and>
     tk_daemon_key ticket = noise_public_key (cx_curves env) i \<and>
     tk_node_id ticket = iroh_node_id (cx_curves env) i \<and>
     (ticket_fits (rp_ticket ready) \<longrightarrow>
        hints_from_ticket ticket =
          HintNode (iroh_node_id (cx_curves env) i) #
          map (\<lambda>a. hint_parse (socket_addr_text a)) (cx_ips env) @
          (case cx_relays env of [] \<Rightarrow> [] | r # _ \<Rightarrow> [HintRelay (ic_relay_text (cx_crate env) r)]) \<and>
        (\<forall>ip port. V4 ip port \<in> set (cx_ips env) \<longrightarrow> HintDirect (V4 ip port) \<in> set (hints_from_ticket ticket)))"
proof -
  from ready obtain i where i: "load_identity (cx_os env) (cx_hex env) (cx_curves env) ps d = Ok i"
    "it_config (rp_transport ready) = iroh_pairing i secret"
    "rp_ticket ready = printed_ticket (cx_curves env) i
       (iroh_addr_hints (cx_crate env) (iroh_node_id (cx_curves env) i) (cx_ips env) (cx_relays env))"
    "rp_payload ready = ticket_encode (cx_encoder env) (rp_ticket ready) secret"
    by (auto simp: prepare_pairing_def iroh_bind_def Let_def split: if_splits)
  from load_identity_seed [OF i(1)] printed_ticket_wf [OF assms(4,5)] i(3)
  have wf: "ticket_wf (rp_ticket ready)" by auto
  then have "begin_pairing_start en (rp_payload ready) c =
      (set_phase PhConnecting (cancel_pairing c), PairDialling (carried (rp_ticket ready)) secret)"
    using assms(2,6) by (simp add: begin_pairing_start_def i(4) ticket_decode_def ticket_encode_def
        base32_lawsD(1) [OF assms(3)] body_round_trip)
  moreover have "tk_daemon_key (carried t) = tk_daemon_key t" "tk_node_id (carried t) = tk_node_id t" for t
    by (simp_all add: carried_def)
  moreover have "hints_from_ticket (rp_ticket ready) =
      HintNode (iroh_node_id (cx_curves env) i) #
      map (\<lambda>a. hint_parse (socket_addr_text a)) (cx_ips env) @
      (case cx_relays env of [] \<Rightarrow> [] | r # _ \<Rightarrow> [HintRelay (ic_relay_text (cx_crate env) r)])"
    by (simp add: i(3) hints_from_ticket_def printed_ticket_def own_hints comp_def split: list.split)
  moreover have "hint_parse (socket_addr_text (V4 ip port)) = HintDirect (V4 ip port)" for ip port
    by (simp add: hint_parse_def parse_ipv4_text del: socket_addr_text.simps)
  ultimately show ?thesis
    using i by (intro exI [of _ i] exI [of _ "carried (rp_ticket ready)"])
      (auto simp: carried_fits printed_ticket_def simp del: socket_addr_text.simps intro: image_eqI [rotated])
qed

definition sample_paths :: paths where "sample_paths = paths_under fair_os ''s''"

definition sample_disk :: disk where
  "sample_disk =
     [''s/identity.key'' \<mapsto> File (as_bytes (hex_encode hex_crate (replicate 32 1))) MODE_FILE]"

lemma sample_identity:
  "load_identity fair_os hex_crate toy_curves sample_paths sample_disk = Ok (from_seed toy_curves (replicate 32 1))"
  using hex_plain_crate
  by (simp add: load_identity_def sample_paths_def paths_under_def sample_disk_def fair_os_def is_file_def
      read_to_string_def read_file_def file_bytes_def from_utf8_hex parse_seed_written SEED_LEN_def)

lemma sample_ready:
  "\<exists>ready. (prepare_pairing sample_cli_env sample_paths sample_disk (Ok db) None (replicate 32 7) ::
        (cli_error, (string, 't) ready_to_pair) result) = Ok ready \<and>
     rp_devices ready = db \<and> rp_terminals ready = pty_new \<and> ticket_fits (rp_ticket ready) \<and>
     dm_engine (rp_daemon ready) = sample_engine"
proof -
  obtain dm where dm: "build_daemon sample_cli_env sample_root = Ok (dm, pty_new)" "dm_engine dm = sample_engine"
    using sample_built by blast
  have "resolve_workspace sample_cli_env None = Ok sample_root"
    by (simp add: resolve_workspace_def sample_canonical)
  moreover have "iroh_validate (cx_crate sample_cli_env) (iroh_pairing i s) = Ok ()" for i s
    using iroh_configs_valid by blast
  moreover have "ticket_fits (printed_ticket toy_curves i (iroh_addr_hints (cx_crate sample_cli_env) k
      [V4 (192, 168, 1, 4) 80] [()]))" for i k
    by (simp add: printed_ticket_def own_hints ticket_fits_def encode_hints_def encode_hint_def push_hint_def
        sample_parsed sample_text ipv4_octets_def del: socket_addr_text.simps)
  ultimately show ?thesis
    using dm sample_identity
    by (simp add: prepare_pairing_def sample_serve_env_facts iroh_bind_def Let_def list_all_iff)
qed

theorem scanned_code_dials_this_machine_witness:
  "\<exists>payload ticket. begin_pairing_start (demo_env\<lparr>pe_encoder := base32_crate\<rparr>) payload demo_client =
      (set_phase PhConnecting (cancel_pairing demo_client), PairDialling ticket (replicate 32 7)) \<and>
    HintDirect (V4 (192, 168, 1, 4) 80) \<in> set (hints_from_ticket ticket) \<and>
    HintRelay ''https://r'' \<in> set (hints_from_ticket ticket)"
proof -
  obtain ready :: "(string, unit) ready_to_pair" where
    r: "prepare_pairing sample_cli_env sample_paths sample_disk (Ok no_devices) None (replicate 32 7) = Ok ready"
      "ticket_fits (rp_ticket ready)"
    using sample_ready by blast
  have "valid_utf8 (as_bytes ''https://r'')" by code_simp
  with scanned_code_dials_this_machine [OF r(1), of "demo_env\<lparr>pe_encoder := base32_crate\<rparr>" demo_client] r(2)
    crockford_crate toy_curves_laws
  obtain ticket where "begin_pairing_start (demo_env\<lparr>pe_encoder := base32_crate\<rparr>) (rp_payload ready) demo_client =
      (set_phase PhConnecting (cancel_pairing demo_client), PairDialling ticket (replicate 32 7))"
    "HintDirect (V4 (192, 168, 1, 4) 80) \<in> set (hints_from_ticket ticket)"
    "HintRelay ''https://r'' \<in> set (hints_from_ticket ticket)"
    by (auto simp: PAIRING_SECRET_LEN_def simp del: socket_addr_text.simps)
  then show ?thesis by blast
qed

section \<open>A device that was paired is served\<close>

lemma active_key_admitted:
  assumes "hex_laws hx" "hash32 hash" "devices_wf hash hx db"
    and "registry_of hx db d = Some e" "re_revoked e = None"
  shows "live_authorize hash hx False db (re_key e)"
proof -
  from assms(4) obtain r where r: "r \<in> set (dv_devices db)" "e = entry_of hx db r"
    by (elim registry_of_SomeE)
  obtain dev where dev: "raw_device_decode hash hx r = Inr dev" "rd_pubkey r = key_hex hx (dev_key dev)"
    by (rule row_ok_decode [OF assms(1,2) devices_wf_row [OF assms(3) r(1)]])
  obtain ds where ds: "list_active hash hx db = Inr ds"
    by (rule list_active_registry [OF assms(1-3)])
  have "dev \<in> set ds"
    using ds dev(1) r assms(5) by (auto simp: list_active_def decode_all_set entry_of_def)
  moreover have "re_key e = dev_key dev"
    using entry_key [OF assms(1) dev(2)] r(2) by simp
  ultimately show ?thesis
    using ds by (auto simp: live_authorize_def allowlist_member)
qed

text \<open>A connection on which a device was registered has it in the tables; any other changes nothing.\<close>

lemma connection_registers:
  assumes "register_encodes env"
    and "serve_connection env dm (persist (se_hash (ve_server (sv_daemon env))) (ve_hex (sv_daemon env)) now) lk
       (router_pairing peer sas) m db = (s, r)"
  shows "nothing_registered db s \<and> r \<noteq> Ok (Some device) \<or>
    recorded_as env db peer now (sg_store s) \<and> (r = Ok (Some device) \<longrightarrow> pd_key device = peer)"
  using connection_outcome [OF assms] assms(2)
  by (auto simp: nothing_registered_def after_registration_def dest: connection_result)

text \<open>The keys of peers are 32 bytes, as their type says.\<close>

fun accepted_wf :: "accepted \<Rightarrow> bool" where
  "accepted_wf (Connected peer _ _) = id_wf (key_bytes peer)"
| "accepted_wf TimedOut = True"
| "accepted_wf HandshakeFailed = True"

definition arrivals_wf :: "(nat \<times> int \<times> accepted) list \<Rightarrow> bool" where
  "arrivals_wf evs \<longleftrightarrow> list_all (\<lambda>(_, _, a). accepted_wf a) evs"

lemma pairing_records:
  assumes laws: "hex_laws (ve_hex (sv_daemon env))" "hash32 (se_hash (ve_server (sv_daemon env)))"
    and enc: "register_encodes env"
  shows "devices_wf (se_hash (ve_server (sv_daemon env))) (ve_hex (sv_daemon env)) db \<Longrightarrow>
    arrivals_wf evs \<Longrightarrow>
    run_pairing env dm window db m evs = (db', m', PairedWith device) \<Longrightarrow>
    \<exists>db0 now. devices_wf (se_hash (ve_server (sv_daemon env))) (ve_hex (sv_daemon env)) db0 \<and>
      id_wf (key_bytes (pd_key device)) \<and> recorded_as env db0 (pd_key device) now db'"
proof (induction evs arbitrary: db m)
  case (Cons ev evs)
  obtain el now a where ev: "ev = (el, now, a)" by (cases ev)
  from Cons.prems(3) ev have more: "a \<noteq> TimedOut" "window - el \<noteq> 0" by (auto split: if_splits)
  show ?case
  proof (cases a)
    case HandshakeFailed
    with Cons.prems Cons.IH [of db m] ev more show ?thesis by (auto simp: arrivals_wf_def)
  next
    case (Connected peer sas lk)
    obtain s r where run: "serve_connection env dm
        (persist (se_hash (ve_server (sv_daemon env))) (ve_hex (sv_daemon env)) now) lk
        (router_pairing peer sas) m db = (s, r)" by fastforce
    have peer: "id_wf (key_bytes peer)" using Cons.prems(2) ev Connected by (simp add: arrivals_wf_def)
    show ?thesis
    proof (cases "\<exists>dev. r = Ok (Some dev)")
      case True
      then obtain dev where r: "r = Ok (Some dev)" ..
      with Cons.prems(3) ev Connected run more have "dev = device" "db' = sg_store s"
        by (auto simp: Let_def)
      with connection_registers [OF enc run, of dev] r Cons.prems(1) peer show ?thesis by auto
    next
      case False
      with Cons.prems(3) ev Connected run more
      have rest: "run_pairing env dm window (sg_store s) (sg_terms s) evs = (db', m', PairedWith device)"
        by (auto simp: Let_def split: sum.splits option.splits)
      have "devices_wf (se_hash (ve_server (sv_daemon env))) (ve_hex (sv_daemon env)) (sg_store s)"
        using connection_registers [OF enc run] recorded_registry [OF laws Cons.prems(1) peer] Cons.prems(1)
        by (auto simp: nothing_registered_def)
      with Cons.IH [OF _ _ rest] Cons.prems(2) show ?thesis by (auto simp: arrivals_wf_def)
    qed
  qed (use more in simp)
qed simp

lemma accepted_rights:
  assumes "hex_laws hx" "hash32 hash" "devices_wf hash hx db" "live_authorize hash hx False db peer"
  shows "\<exists>sv' rt. iroh_accept hash hx False db sv peer = (sv', Some rt) \<and> rt_peer_key rt = peer \<and>
    rt_state rt = Established \<and>
    caps_of (router_capabilities rt) = reg_rights (registry_of hx db) (device_id_from_public_key hash peer)"
proof -
  obtain s where "device_grants hash hx db (device_id_from_public_key hash peer) = Inr s"
    "caps_of s = reg_rights (registry_of hx db) (device_id_from_public_key hash peer)"
    by (rule device_grants_registry [OF assms(1-3)])
  with assms(4) show ?thesis
    by (simp add: iroh_accept_def iroh_register_def live_grant_def router_established_def router_capabilities_def
        effective_capabilities_def grant_new_def Let_def)
qed

text \<open>
  C10: the two commands agree on who is paired.  After \<open>gonomad pair\<close> reports a device as paired,
  \<open>gonomad serve\<close> on the tables it left does not refuse to start for want of a device, its policy lets
  that device's key in, and the connection it accepts may do exactly what a new device is granted.
\<close>

theorem paired_then_served:
  assumes "hex_laws (cx_hex env)" "hash32 (cx_hash env)" "devices_wf (cx_hash env) (cx_hex env) db"
    and "register_encodes (cx_serve env)"
    and "arrivals_wf evs"
    and paired: "cmd_pair env ps d (Ok db) workspace secret evs = (left, out, Some (Ok device))"
  shows "\<exists>tables sv' rt. left = Some tables \<and>
     live_authorize (cx_hash env) (cx_hex env) False tables (pd_key device) \<and>
     iroh_accept (cx_hash env) (cx_hex env) False tables sv (pd_key device) = (sv', Some rt) \<and>
     rt_peer_key rt = pd_key device \<and> rt_state rt = Established \<and>
     caps_of (router_capabilities rt) = caps_of cs_default_grant \<and>
     serve_iroh_start env i tables policy \<noteq> Err NothingPairedYet"
proof -
  from paired obtain tables m' dm m where left: "left = Some tables"
    and run: "run_pairing (cx_serve env) dm PAIRING_WINDOW_MS db m evs = (tables, m', PairedWith device)"
    by (auto simp: cmd_pair_def prepare_pairing_def Let_def split: sum.splits prod.splits pairing_result.splits)
  obtain db0 now where db0: "devices_wf (cx_hash env) (cx_hex env) db0" "id_wf (key_bytes (pd_key device))"
    and rec: "recorded_as (cx_serve env) db0 (pd_key device) now tables"
    using pairing_records [OF assms(1,2,4,3,5) run] by blast
  from recorded_registry [OF assms(1,2) db0 rec] have wf: "devices_wf (cx_hash env) (cx_hex env) tables"
    and entry: "registry_of (cx_hex env) tables (device_id_from_public_key (cx_hash env) (pd_key device)) =
      Some \<lparr>re_key = pd_key device, re_revoked = None, re_caps = caps_of cs_default_grant, re_roots = {}\<rparr>"
    by simp_all
  from active_key_admitted [OF assms(1,2) wf entry] have admitted:
    "live_authorize (cx_hash env) (cx_hex env) False tables (pd_key device)" by simp
  then have "serve_iroh_start env i tables policy \<noteq> Err NothingPairedYet"
    by (auto simp: live_authorize_def serve_iroh_start_def allowlist_member map_err_def split: sum.splits)
  with left admitted accepted_rights [OF assms(1,2) wf admitted, of sv] entry show ?thesis by (auto simp: reg_rights_def)
qed

definition sample_arrival :: "nat \<times> int \<times> accepted" where
  "sample_arrival =
     (0, 5, Connected some_key ''418273'' ((sample_link ''418-273'')\<lparr>lk_clean_end := True\<rparr>))"

lemma sample_pairing:
  "\<exists>db. run_pairing sample_serve_env dm PAIRING_WINDOW_MS no_devices m [sample_arrival] =
     (db, m, PairedWith \<lparr>pd_name = ''P'', pd_key = some_key\<rparr>)"
proof -
  obtain db dev where "device_pair const_hash hex_crate no_devices some_key ''P'' None cs_default_grant 5
      = Inr (db, dev)"
    by (rule device_pair_fresh [OF hex_laws_crate hash32_const no_devices_facts(1,3,2)])
  then show ?thesis
    by (simp add: sample_arrival_def PAIRING_WINDOW_MS_def sample_serve_env_facts serve_connection_def
        sample_link_def sample_decodes serve_message_def serve_request_def sample_registers sample_sends
        persist_def send_message_def)
qed

theorem paired_then_served_witness:
  "\<exists>tables rt. fst (cmd_pair sample_cli_env sample_paths sample_disk (Ok no_devices) None (replicate 32 7)
       [sample_arrival]) = Some tables \<and>
     snd (iroh_accept const_hash hex_crate False tables \<lparr>is_live = \<lparr>lv_open = [], lv_closed = {}\<rparr>, is_next = 0\<rparr>
       some_key) = Some rt \<and> caps_of (router_capabilities rt) = caps_of cs_default_grant"
proof -
  obtain ready :: "(string, unit) ready_to_pair" where
    r: "prepare_pairing sample_cli_env sample_paths sample_disk (Ok no_devices) None (replicate 32 7) = Ok ready"
      "rp_devices ready = no_devices"
    using sample_ready by blast
  obtain db where "run_pairing sample_serve_env (rp_daemon ready) PAIRING_WINDOW_MS no_devices (rp_terminals ready)
      [sample_arrival] = (db, rp_terminals ready, PairedWith \<lparr>pd_name = ''P'', pd_key = some_key\<rparr>)"
    using sample_pairing by blast
  with r obtain out where pair: "cmd_pair sample_cli_env sample_paths sample_disk (Ok no_devices) None (replicate 32 7)
      [sample_arrival] = (Some db, out, Some (Ok \<lparr>pd_name = ''P'', pd_key = some_key\<rparr>))"
    by (simp add: cmd_pair_def render_qr_def)
  have "arrivals_wf [sample_arrival]"
    using no_devices_facts by (simp add: arrivals_wf_def sample_arrival_def)
  from paired_then_served [OF _ _ _ _ this pair, where sv = "\<lparr>is_live = \<lparr>lv_open = [], lv_closed = {}\<rparr>, is_next = 0\<rparr>"
      and i = "from_seed toy_curves []" and policy = allow_any]
    pair hex_laws_crate hash32_const no_devices_facts
  show ?thesis by (auto simp: sample_serve_env_facts)
qed

end
