(* ===== verification/Spec2Isabelle.thy ===== *)
theory Spec2Isabelle
  imports Registries RateLimit AuditLog MuxPair PhoneFfi Cli
begin

text \<open>
  A model of the GoNomad daemon and of the protocol it speaks, in the order in which a request
  meets its parts.

  \<^bold>\<open>The program.\<close>  A phone pairs with a daemon on the user's machine by a ticket and six digits
  (\<open>gonomad-core\<close>).  The two run a Noise handshake and exchange frames (\<open>gonomad-proto\<close>) over
  encrypted streams, many of them multiplexed over one socket (\<open>gonomad-transport\<close>).  The daemon
  (\<open>gonomad-server\<close>) admits the devices it knows, routes their requests, decides each one with its
  policy engine (\<open>gonomad-policy\<close>: the grant of the device, a presence signature for dangerous
  operations, the path guard, the secret denylist, the rate limiter), and keeps files, terminals
  (\<open>gonomad-pty\<close>) and its registries, with a hash-chained audit log (\<open>gonomad-store\<close>).

  \<^bold>\<open>Theories.\<close>
  \<^item> \<open>Prelude\<close>: results as sums, bytes, big-endian numbers, saturating arithmetic, strings, chunks.
    \<open>Text\<close>: UTF-8 validation and trimming.  \<open>Base32\<close>: the codec the ticket uses.  \<open>Addresses\<close>:
    socket addresses of the standard library, their parser and their text.
  \<^item> \<open>Ids\<close> (\<open>proto/src/ids.rs\<close>), \<open>Capabilities\<close> (\<open>capability.rs\<close>), \<open>Errors\<close> (\<open>error.rs\<close>),
    \<open>Frames\<close> (\<open>frame.rs\<close>), \<open>Control\<close> (\<open>control.rs\<close>, \<open>events.rs\<close>, \<open>lib.rs\<close>): the protocol crate.
    A stream of frames read in any pieces gives back the frames that were written.
  \<^item> \<open>Noise\<close> (\<open>core/src/identity.rs\<close>, \<open>sas.rs\<close>, \<open>session.rs\<close>) and \<open>Pairing\<close> (\<open>pairing.rs\<close>): keys,
    digits, handshakes, tickets and the pairing window.
  \<^item> \<open>Streams\<close> (\<open>transport/src/error.rs\<close>, \<open>handshake.rs\<close>, \<open>stream.rs\<close>): the handshake over a socket and
    the sealed stream.  \<open>Mux\<close> (\<open>mux.rs\<close>): the multiplexer's state machine; \<open>MuxBound\<close> bounds what a
    hostile peer can make it hold, live channels and closed ones, by a window for each channel ever
    opened; \<open>MuxFair\<close> what each channel has to wait for; \<open>MuxPair\<close> runs two of them against each
    other, with their calls, writers and readers in any order, and shows that flow control conserves
    credit and that neither side ever has reason to refuse the other but for crossed openings.  \<open>Endpoints\<close>
    (\<open>traits.rs\<close>, \<open>discovery.rs\<close>, \<open>tcp.rs\<close>) and \<open>Iroh\<close> (\<open>iroh.rs\<close>): addresses, dialling, the
    accept loops, tickets, and the handshake each stream of an iroh connection has of its own.
  \<^item> \<open>PathGuard\<close> (\<open>policy/src/path_guard.rs\<close>), \<open>Denylist\<close> (\<open>denylist.rs\<close>), \<open>Engine\<close> (\<open>engine.rs\<close>),
    \<open>RateLimit\<close> (\<open>rate_limit.rs\<close>): the policy crate.
  \<^item> \<open>Canonical\<close> (\<open>store/src/canonical.rs\<close>), \<open>Store\<close> (\<open>row.rs\<close>, \<open>error.rs\<close>), \<open>AuditLog\<close> (\<open>audit.rs\<close>),
    \<open>Devices\<close> (\<open>devices.rs\<close>), \<open>Registries\<close> (\<open>sessions.rs\<close>, \<open>settings.rs\<close>), \<open>Schema\<close> (\<open>migrations.rs\<close>,
    \<open>db.rs\<close>, \<open>clock.rs\<close>): the store crate.
  \<^item> \<open>Terminals\<close> (\<open>pty/src/session.rs\<close>, \<open>shell.rs\<close>): the terminals and the shells found.
  \<^item> \<open>FsService\<close> (\<open>server/src/fs_service.rs\<close>), \<open>Router\<close> (\<open>router.rs\<close> and \<open>proto/src/methods.rs\<close>),
    \<open>Serve\<close> (\<open>serve.rs\<close>): the server crate.
  \<^item> \<open>StateDir\<close> (\<open>server/src/state.rs\<close>, \<open>ffi/src/storage.rs\<close>): the identity files of the daemon and
    of the phone, and the phone's record of the daemon it is paired with.
  \<^item> \<open>Phone\<close>, \<open>PhoneClient\<close> (\<open>ffi/src/client.rs\<close>) and \<open>PhoneFfi\<close> (\<open>ffi.rs\<close>): the phone's client, its
    requests, readers and pollers as tasks whose events come in any order, and what the user
    interface is handed.  \<open>client_run\<close> runs a list of events; the invariant \<open>client_ok\<close> holds of every
    client that a run reaches, relative to what its connections have heard and to the machine that was
    on the disk when it was created; \<open>numbered\<close> and \<open>later\<close> say which requests there are at one
    time and what any later time may change of them.

  \<^item> \<open>Cli\<close> (\<open>server/src/main.rs\<close>): the commands of the \<open>gonomad\<close> program, where the parts meet: the
    code that \<open>pair\<close> draws is the one the phone's client reads, what \<open>pair\<close> records is what \<open>serve\<close>
    admits, and \<open>ls\<close> and \<open>cat\<close> print what the router would send.

  Structs are records, enums datatypes, the capability mask a 16-bit word, channel ids 32-bit
  words, bytes 8-bit words; other unsigned numbers are naturals with the saturation or the checked
  conversion of the code written out.  Every error path is a \<open>Inl\<close> of a sum.  A method that mutates
  its receiver returns the new state, with its result.  A task that waits gets \<open>None\<close> and tries
  again; concurrency is a sequence of such steps in any order.

  \<^bold>\<open>Parameters.\<close>  What is not under \<open>src/\<close> is an argument: the BLAKE3 hash, the elliptic curves and
  the \<open>snow\<close> crate of the Noise protocol, the hex, base32 and CBOR crates, the globset crate, the
  file system and the path syntax of the host, the outcome of each call to its files, what SQLite
  makes of a script, the \<open>iroh\<close> crate's tickets and paths, the pseudo-terminal and the terminal emulator, the
  Unicode tables, the random bytes and the clock readings.  Statements about hashes say "unless the
  hash collides on these two inputs" instead of assuming that it never does.  What is assumed of a
  crate holds of an instance defined beside it: the codecs of \<open>Ids\<close> and \<open>Base32\<close>, the file system
  of \<open>PathGuard\<close>, the curves of \<open>Noise\<close>, the counting cipher of \<open>Streams\<close>.

  \<^bold>\<open>Interfaces.\<close>  The locale \<open>stream_codec\<close> (what a reader needs of a self-delimiting codec) is
  interpreted on the frame functions and on the sealed records; \<open>capability_store\<close> (what a holder
  of capabilities promises) on the bit mask; \<open>path_authority\<close> (what the engine needs of a resolver)
  on the guard's two entry points; \<open>budget\<close> (a counter under a ceiling) on the limiter's slots and
  on its byte reservations.

  \<^bold>\<open>Bounds.\<close>  The walk to the deepest existing ancestor carries the code's own turn limit, the
  component limit plus three; \<open>ancestor_walk_ends\<close> shows it is never what stops the walk.  All
  other recursions are structural or come with a measure; none has fuel.  Loops that wait for the
  outside run over the list of what arrives.

  \<^bold>\<open>Not modelled.\<close>  The sockets themselves, the parsing of the command line, logging, the
  code UniFFI generates around the phone's client, and the Kotlin interface.  Wiping secrets from memory, what the server prints while it runs, and the wake-ups of
  tasks are left out of the parts that are modelled.  What a thread does between two waits is one step:
  threads that run at the same time are interleaved at these steps and not within them; where the
  client takes two locks in turn, the sections are functions of their own (\<open>adopt_live\<close>,
  \<open>adopt_status\<close>, \<open>tear_down_live\<close>, \<open>tear_down_status\<close>), and \<open>status_may_lie\<close> shows what another
  thread between them can do.  The queue between the policy's check and the registration of an iroh
  connection is not a state; \<open>queued_connection_is_powerless\<close> says what a connection is that waited
  in it while its device was revoked.
\<close>

end
